(* ===== verification/Prelude.thy ===== *)
theory Prelude
  imports Main "HOL-Library.Word" "HOL-Library.List_Lexorder"
begin

text \<open>
  Shared vocabulary of the development: Rust's machine types and byte strings, the
  \<open>Result\<close> type and the \<open>?\<close> operator, checked and saturating integer arithmetic,
  slicing and \<open>chunks_exact\<close>, each with the lemmas the components use. Byte, number and text
  conversions are in the theories \<open>Bytes\<close> and \<open>Utf8\<close>.

  Conventions. Bytes and fixed-width wire fields are words. Lengths, offsets and counts
  (\<open>usize\<close>, and the \<open>u64\<close>/\<open>u32\<close> geometry fields) are naturals, with the bounds of the
  machine type written out wherever the source can overflow; \<open>usize\<close> is the 64-bit one of
  the supported targets. A Rust \<open>String\<close> is the list of its UTF-8 bytes, so that its
  length and its order are the ones of Rust. \<open>i64\<close> values are integers.
\<close>

type_synonym u8 = "8 word"
type_synonym u16 = "16 word"
type_synonym u32 = "32 word"
type_synonym u64 = "64 word"
type_synonym str = "u8 list"

named_theorems byte_simps "facts that evaluate byte-string literals and byte classes"
named_theorems opt_iffs "when the checked operations succeed"
named_theorems codec_simps "round-trip laws of the byte codecs"

subsection \<open>Results and the question-mark operator\<close>

type_synonym ('e, 'a) result = "'e + 'a"

definition rbind :: "('e, 'a) result \<Rightarrow> ('a \<Rightarrow> ('e, 'b) result) \<Rightarrow> ('e, 'b) result" where
  "rbind m f = (case m of Inl e \<Rightarrow> Inl e | Inr x \<Rightarrow> f x)"

definition ok_or :: "'e \<Rightarrow> 'a option \<Rightarrow> ('e, 'a) result" where
  "ok_or e m = (case m of None \<Rightarrow> Inl e | Some x \<Rightarrow> Inr x)"

definition map_err :: "('e \<Rightarrow> 'f) \<Rightarrow> ('e, 'a) result \<Rightarrow> ('f, 'a) result" where
  "map_err h m = (case m of Inl e \<Rightarrow> Inl (h e) | Inr x \<Rightarrow> Inr x)"

definition guard :: "bool \<Rightarrow> 'e \<Rightarrow> ('e, unit) result" where
  "guard bad e = (if bad then Inl e else Inr ())"

fun ok :: "('e, 'a) result \<Rightarrow> 'a option" where
  "ok (Inl e) = None"
| "ok (Inr x) = Some x"

fun is_ok :: "('e, 'a) result \<Rightarrow> bool" where
  "is_ok (Inl e) = False"
| "is_ok (Inr x) = True"

fun mapM_r :: "('a \<Rightarrow> ('e, 'b) result) \<Rightarrow> 'a list \<Rightarrow> ('e, 'b list) result" where
  "mapM_r f [] = Inr []"
| "mapM_r f (x # xs) = rbind (f x) (\<lambda>y. rbind (mapM_r f xs) (\<lambda>ys. Inr (y # ys)))"

lemma rbind_simps [simp]:
  "rbind (Inl e) f = Inl e"
  "rbind (Inr x) f = f x"
  by (simp_all add: rbind_def)

lemma ok_or_simps [simp]:
  "ok_or e None = Inl e"
  "ok_or e (Some x) = Inr x"
  by (simp_all add: ok_or_def)

lemma map_err_simps [simp]:
  "map_err h (Inl e) = Inl (h e)"
  "map_err h (Inr x) = Inr x"
  by (simp_all add: map_err_def)

lemma rbind_Inr_iff [simp]: "rbind m f = Inr y \<longleftrightarrow> (\<exists>x. m = Inr x \<and> f x = Inr y)"
  by (cases m) auto

lemma rbind_Inl_iff: "rbind m f = Inl e \<longleftrightarrow> m = Inl e \<or> (\<exists>x. m = Inr x \<and> f x = Inl e)"
  by (cases m) auto

lemma rbind_InrE:
  assumes "rbind m f = Inr y"
  obtains x where "m = Inr x" "f x = Inr y"
  using assms by (auto simp: rbind_Inr_iff)

lemma ok_or_Inr_iff [simp]: "ok_or e m = Inr x \<longleftrightarrow> m = Some x"
  by (cases m) auto

lemma map_err_Inr_iff [simp]: "map_err h m = Inr x \<longleftrightarrow> m = Inr x"
  by (cases m) auto

lemma guard_Inr_iff [simp]: "guard bad e = Inr u \<longleftrightarrow> \<not> bad"
  by (simp add: guard_def)

lemma guard_simps [simp]:
  "guard False e = Inr ()"
  "guard True e = Inl e"
  by (simp_all add: guard_def)

lemma ok_Some_iff [simp]: "ok m = Some x \<longleftrightarrow> m = Inr x"
  by (cases m) auto

lemma rbind_cong [fundef_cong]:
  "m = m' \<Longrightarrow> (\<And>x. m' = Inr x \<Longrightarrow> f x = g x) \<Longrightarrow> rbind m f = rbind m' g"
  by (cases m') auto

lemma rbind_assoc: "rbind (rbind m f) g = rbind m (\<lambda>x. rbind (f x) g)"
  by (cases m) auto

lemma mapM_r_Inr_iff:
  "mapM_r f xs = Inr ys \<longleftrightarrow> list_all2 (\<lambda>x y. f x = Inr y) xs ys"
proof (induction xs arbitrary: ys)
  case Nil
  then show ?case by auto
next
  case (Cons x xs)
  then show ?case by (cases ys) (auto simp: rbind_Inr_iff)
qed

lemma mapM_r_all_ok:
  "(\<And>x. x \<in> set xs \<Longrightarrow> f x = Inr (g x)) \<Longrightarrow> mapM_r f xs = Inr (map g xs)"
  by (induction xs) auto

subsection \<open>Machine bounds and checked arithmetic\<close>

definition u64_limit :: nat where "u64_limit = 2 ^ 64"
definition u32_limit :: nat where "u32_limit = 2 ^ 32"

definition checked_add64 :: "nat \<Rightarrow> nat \<Rightarrow> nat option" where
  "checked_add64 a b = (if a + b < u64_limit then Some (a + b) else None)"

definition checked_mul64 :: "nat \<Rightarrow> nat \<Rightarrow> nat option" where
  "checked_mul64 a b = (if a * b < u64_limit then Some (a * b) else None)"

definition checked_sub :: "nat \<Rightarrow> nat \<Rightarrow> nat option" where
  "checked_sub a b = (if b \<le> a then Some (a - b) else None)"

definition wrapping_sub64 :: "nat \<Rightarrow> nat \<Rightarrow> nat" where
  "wrapping_sub64 a b = (a + u64_limit - b) mod u64_limit"

definition div_ceil :: "nat \<Rightarrow> nat \<Rightarrow> nat" where
  "div_ceil a b = a div b + (if a mod b = 0 then 0 else 1)"

lemma checked_add64_Some_iff [opt_iffs]:
  "checked_add64 a b = Some c \<longleftrightarrow> c = a + b \<and> a + b < u64_limit"
  by (auto simp: checked_add64_def)

lemma checked_mul64_Some_iff [opt_iffs]:
  "checked_mul64 a b = Some c \<longleftrightarrow> c = a * b \<and> a * b < u64_limit"
  by (auto simp: checked_mul64_def)

lemma checked_sub_Some_iff [opt_iffs]: "checked_sub a b = Some c \<longleftrightarrow> b \<le> a \<and> c = a - b"
  by (auto simp: checked_sub_def)

lemma wrapping_sub64_exact [simp]:
  "b \<le> a \<Longrightarrow> a < u64_limit \<Longrightarrow> wrapping_sub64 a b = a - b"
proof -
  assume "b \<le> a" "a < u64_limit"
  then have *: "a + u64_limit - b = (a - b) + u64_limit" and "a - b < u64_limit" by simp_all
  then show ?thesis unfolding wrapping_sub64_def * by simp
qed

lemma div_ceil_eq: "0 < b \<Longrightarrow> div_ceil a b = (a + (b - 1)) div b"
proof -
  assume b: "0 < b"
  have ab: "a = b * (a div b) + a mod b" by simp
  show ?thesis
  proof (cases "a mod b = 0")
    case True
    then have "a + (b - 1) = (b - 1) + b * (a div b)" using ab by simp
    then have "(a + (b - 1)) div b = (b - 1) div b + a div b"
      using b by (metis add.commute div_mult_self2 less_numeral_extra(3))
    with b True show ?thesis by (simp add: div_ceil_def)
  next
    case False
    have lt: "a mod b < b" using b by simp
    have "a + (b - 1) = (a mod b - 1) + (b * (a div b) + b)"
      using ab False b by linarith
    then have "a + (b - 1) = (a mod b - 1) + b * (a div b + 1)" by simp
    then have "(a + (b - 1)) div b = (a mod b - 1) div b + (a div b + 1)"
      using b by (metis add.commute div_mult_self2 less_numeral_extra(3))
    moreover have "(a mod b - 1) div b = 0" using lt by simp
    ultimately show ?thesis using False by (simp add: div_ceil_def)
  qed
qed

lemma div_ceil_le_iff: "0 < b \<Longrightarrow> div_ceil a b \<le> n \<longleftrightarrow> a \<le> n * b"
proof -
  assume b: "0 < b"
  have "div_ceil a b \<le> n \<longleftrightarrow> (a + (b - 1)) div b < Suc n" using b by (simp add: div_ceil_eq less_Suc_eq_le)
  also have "\<dots> \<longleftrightarrow> a + (b - 1) < Suc n * b" using b by (simp add: div_less_iff_less_mult)
  also have "\<dots> \<longleftrightarrow> a \<le> n * b" using b by (cases b) auto
  finally show ?thesis .
qed

lemma less_div_ceil_iff: "0 < b \<Longrightarrow> n < div_ceil a b \<longleftrightarrow> n * b < a"
  using div_ceil_le_iff [of b a n] by linarith

subsection \<open>Slices, chunks and optional reads\<close>

definition get_opt :: "'a list \<Rightarrow> nat \<Rightarrow> 'a option" where
  "get_opt xs i = (if i < length xs then Some (xs ! i) else None)"

definition bslice :: "'a list \<Rightarrow> nat \<Rightarrow> nat \<Rightarrow> 'a list" where
  "bslice xs i j = take (j - i) (drop i xs)"

definition bslice_opt :: "'a list \<Rightarrow> nat \<Rightarrow> nat \<Rightarrow> 'a list option" where
  "bslice_opt xs i j = (if i \<le> j \<and> j \<le> length xs then Some (bslice xs i j) else None)"

function chunks_exact :: "nat \<Rightarrow> 'a list \<Rightarrow> 'a list list" where
  "chunks_exact n xs = (if n = 0 \<or> length xs < n then [] else take n xs # chunks_exact n (drop n xs))"
  by pat_completeness auto
termination
  by (relation "measure (\<lambda>(n, xs). length xs)") auto

declare chunks_exact.simps [simp del]

lemma get_opt_Some_iff [opt_iffs]: "get_opt xs i = Some x \<longleftrightarrow> i < length xs \<and> xs ! i = x"
  by (auto simp: get_opt_def)

lemma get_opt_None_iff [opt_iffs]: "get_opt xs i = None \<longleftrightarrow> length xs \<le> i"
  by (auto simp: get_opt_def)

lemma get_opt_append [simp]: "get_opt (pre @ x # suf) (length pre) = Some x"
  by (simp add: get_opt_Some_iff)

lemma length_bslice [simp]: "length (bslice xs i j) = min (j - i) (length xs - i)"
  by (simp add: bslice_def)

lemma bslice_append_exact [simp]:
  "bslice (pre @ xs @ suf) (length pre) (length pre + length xs) = xs"
  by (simp add: bslice_def)

lemma bslice_opt_Some_iff [opt_iffs]:
  "bslice_opt xs i j = Some ys \<longleftrightarrow> i \<le> j \<and> j \<le> length xs \<and> ys = bslice xs i j"
  by (auto simp: bslice_opt_def)

lemma bslice_split:
  assumes "i \<le> j" "j \<le> k" "k \<le> length xs"
  shows "bslice xs i k = bslice xs i j @ bslice xs j k"
proof -
  have "take (k - i) (drop i xs) = take (j - i) (drop i xs) @ take (k - j) (drop (j - i) (drop i xs))"
    using assms by (metis Nat.add_diff_assoc2 le_add_diff_inverse take_add)
  with assms show ?thesis by (simp add: bslice_def)
qed

lemma chunks_exact_Nil [simp]: "chunks_exact n [] = []"
  by (subst chunks_exact.simps) auto

lemma chunks_exact_append:
  assumes "0 < n" "length x = n"
  shows "chunks_exact n (x @ xs) = x # chunks_exact n xs"
  using assms by (subst chunks_exact.simps) simp

lemma chunks_exact_concat:
  "0 < n \<Longrightarrow> \<forall>x \<in> set xs. length x = n \<Longrightarrow> chunks_exact n (concat xs) = xs"
  by (induction xs) (auto simp: chunks_exact_append)

lemma chunks_exact_lengths: "\<forall>c \<in> set (chunks_exact n xs). length c = n"
proof (induction n xs rule: chunks_exact.induct)
  case (1 n xs)
  then show ?case
    by (cases "n = 0 \<or> length xs < n") (auto simp: chunks_exact.simps [of n xs])
qed

lemma length_chunks_exact: "0 < n \<Longrightarrow> length (chunks_exact n xs) = length xs div n"
proof (induction n xs rule: chunks_exact.induct)
  case (1 n xs)
  then show ?case
    by (cases "length xs < n") (auto simp: chunks_exact.simps [of n xs] le_div_geq not_less)
qed

lemma concat_chunks_exact: "0 < n \<Longrightarrow> length xs mod n = 0 \<Longrightarrow> concat (chunks_exact n xs) = xs"
proof (induction n xs rule: chunks_exact.induct)
  case (1 n xs)
  show ?case
  proof (cases "length xs < n")
    case True
    with 1 show ?thesis by (simp add: chunks_exact.simps [of n xs])
  next
    case False
    with 1 have "concat (chunks_exact n (drop n xs)) = drop n xs"
      by (metis le_mod_geq length_drop neq0_conv not_less)
    with False 1 show ?thesis by (simp add: chunks_exact.simps [of n xs])
  qed
qed

end
