(* ===== verification/Bytes.thy ===== *)
theory Bytes
  imports Prelude
begin

text \<open>
  Byte-level standard library: big-endian conversions (\<open>to_be_bytes\<close>, \<open>from_be_bytes\<close>),
  byte-string literals, ASCII classes, decimal printing and parsing (\<open>to_string\<close>,
  \<open>str::parse\<close>), hexadecimal printing and parsing, with their round-trip laws.
\<close>

unbundle bit_operations_syntax

subsection \<open>Reading words as numbers\<close>

lemma unat_drop_bit: "unat (drop_bit n (w :: 'a :: len word)) = unat w div 2 ^ n"
  by (metis drop_bit_eq_div unat_drop_bit_eq)

lemma unat_take_bit: "unat (take_bit n (w :: 'a :: len word)) = unat w mod 2 ^ n"
  unfolding unsigned_take_bit_eq by (simp add: take_bit_eq_mod)

lemma unat_and_mask: "unat ((w :: 'a :: len word) AND mask n) = unat w mod 2 ^ n"
  by (simp add: unat_take_bit flip: take_bit_eq_mask)

lemma unat_u8_less [simp]: "unat (w :: u8) < 256"
  using unsigned_less [of w] by simp

lemma small_word_bits:
  assumes "unat (w :: 'a :: len word) < 2 ^ k" "k \<le> n"
  shows "\<not> bit w n"
proof -
  have "unat (take_bit k w) = unat w" using assms(1) by (simp add: unat_take_bit)
  then have "take_bit k w = w" by (rule unsigned_word_eqI)
  then show ?thesis using assms(2) by (metis bit_take_bit_iff not_le)
qed

lemma low_nibble: "(b :: u8) AND 0x0f = b AND mask 4"
  by (simp add: mask_eq_exp_minus_1)

lemma nibbles: "push_bit 4 (drop_bit 4 b) OR (b AND 0x0f) = (b :: u8)"
  unfolding low_nibble by (intro bit_word_eqI) (auto simp: bit_simps simp del: mask_numeral)

lemma unat_nibble: "unat (drop_bit 4 (b :: u8)) < 16" "unat ((b :: u8) AND 0x0f) < 16"
  unfolding low_nibble unat_drop_bit unat_and_mask
  using unat_u8_less [of b] by (simp_all add: less_mult_imp_div_less del: unat_u8_less)

subsection \<open>Big-endian integers\<close>

definition to_be16 :: "u16 \<Rightarrow> u8 list" where
  "to_be16 w = [ucast (drop_bit 8 w), ucast w]"

definition to_be32 :: "u32 \<Rightarrow> u8 list" where
  "to_be32 w = [ucast (drop_bit 24 w), ucast (drop_bit 16 w), ucast (drop_bit 8 w), ucast w]"

definition to_be64 :: "u64 \<Rightarrow> u8 list" where
  "to_be64 w = to_be32 (ucast (drop_bit 32 w)) @ to_be32 (ucast w)"

definition from_be16 :: "u8 \<Rightarrow> u8 \<Rightarrow> u16" where
  "from_be16 a b = push_bit 8 (ucast a) OR ucast b"

definition from_be32 :: "u8 \<Rightarrow> u8 \<Rightarrow> u8 \<Rightarrow> u8 \<Rightarrow> u32" where
  "from_be32 a b c d =
     push_bit 24 (ucast a) OR push_bit 16 (ucast b) OR push_bit 8 (ucast c) OR ucast d"

definition read_be32 :: "u8 list \<Rightarrow> nat \<Rightarrow> u32" where
  "read_be32 bs i = from_be32 (bs ! i) (bs ! (i + 1)) (bs ! (i + 2)) (bs ! (i + 3))"

definition read_be64 :: "u8 list \<Rightarrow> nat \<Rightarrow> u64" where
  "read_be64 bs i = push_bit 32 (ucast (read_be32 bs i)) OR ucast (read_be32 bs (i + 4))"

lemma length_to_be [simp]:
  "length (to_be16 w) = 2" "length (to_be32 x) = 4" "length (to_be64 y) = 8"
  by (simp_all add: to_be16_def to_be32_def to_be64_def)

lemma from_to_be16: "from_be16 (ucast (drop_bit 8 w)) (ucast w) = w"
  unfolding from_be16_def
  by (rule bit_word_eqI) (auto simp: bit_simps)

lemma from_to_be32:
  "from_be32 (ucast (drop_bit 24 w)) (ucast (drop_bit 16 w)) (ucast (drop_bit 8 w)) (ucast w) = w"
proof (rule bit_word_eqI)
  fix n :: nat
  assume "n < LENGTH(32)"
  then consider "24 \<le> n" "n < 32" | "16 \<le> n" "n < 24" | "8 \<le> n" "n < 16" | "n < 8"
    by (simp; linarith)
  then show "bit (from_be32 (ucast (drop_bit 24 w)) (ucast (drop_bit 16 w))
      (ucast (drop_bit 8 w)) (ucast w)) n = bit w n"
    by cases (auto simp: from_be32_def bit_simps)
qed

lemma to_be16_nth [simp]:
  "from_be16 (to_be16 w ! 0) (to_be16 w ! Suc 0) = w"
  by (simp add: to_be16_def from_to_be16)

lemma to_be16_eq_Cons: "to_be16 w = [a, b] \<Longrightarrow> from_be16 a b = w"
  by (auto simp: to_be16_def from_to_be16)

lemma read_be32_at [codec_simps]:
  assumes "i = length pre"
  shows "read_be32 (pre @ to_be32 w @ suf) i = w"
  by (simp add: assms read_be32_def to_be32_def nth_append from_to_be32)

lemma read_be32_head [simp]: "read_be32 (to_be32 w @ suf) 0 = w"
  using read_be32_at [of 0 "[]" w suf] by simp

lemma read_be64_at [codec_simps]:
  assumes "i = length pre"
  shows "read_be64 (pre @ to_be64 w @ suf) i = w"
proof -
  let ?h = "ucast (drop_bit 32 w) :: u32" and ?l = "ucast w :: u32"
  have "read_be32 (pre @ to_be64 w @ suf) i = ?h"
    using read_be32_at [OF assms, of ?h "to_be32 ?l @ suf"] by (simp add: to_be64_def)
  moreover have "read_be32 (pre @ to_be64 w @ suf) (i + 4) = ?l"
    using read_be32_at [of "i + 4" "pre @ to_be32 ?h" ?l suf] assms by (simp add: to_be64_def)
  moreover have "push_bit 32 (ucast ?h) OR ucast ?l = w"
  proof (rule bit_word_eqI)
    fix n :: nat
    assume "n < LENGTH(64)"
    then consider "32 \<le> n" "n < 64" | "n < 32" by (simp; linarith)
    then show "bit (push_bit 32 (ucast ?h) OR ucast ?l :: u64) n = bit w n"
      by cases (auto simp: bit_simps)
  qed
  ultimately show ?thesis by (simp add: read_be64_def)
qed

lemma to_be32_inject [simp]: "to_be32 v = to_be32 w \<longleftrightarrow> v = w"
  by (metis read_be32_head)

lemma to_be16_inject [simp]: "to_be16 v = to_be16 w \<longleftrightarrow> v = w"
  by (metis to_be16_nth)

lemma to_from_be32: "to_be32 (from_be32 a b c d) = [a, b, c, d]"
proof -
  have "ucast (drop_bit 24 (from_be32 a b c d)) = a"
    unfolding from_be32_def by (rule bit_word_eqI) (auto simp: bit_simps dest: bit_imp_le_length)
  moreover have "ucast (drop_bit 16 (from_be32 a b c d)) = b"
    unfolding from_be32_def by (rule bit_word_eqI) (auto simp: bit_simps dest: bit_imp_le_length)
  moreover have "ucast (drop_bit 8 (from_be32 a b c d)) = c"
    unfolding from_be32_def by (rule bit_word_eqI) (auto simp: bit_simps dest: bit_imp_le_length)
  moreover have "ucast (from_be32 a b c d) = d"
    unfolding from_be32_def by (rule bit_word_eqI) (auto simp: bit_simps dest: bit_imp_le_length)
  ultimately show ?thesis by (simp add: to_be32_def)
qed

lemma to_from_be16: "to_be16 (from_be16 a b) = [a, b]"
proof -
  have "ucast (drop_bit 8 (from_be16 a b)) = a"
    unfolding from_be16_def by (rule bit_word_eqI) (auto simp: bit_simps dest: bit_imp_le_length)
  moreover have "ucast (from_be16 a b) = b"
    unfolding from_be16_def by (rule bit_word_eqI) (auto simp: bit_simps dest: bit_imp_le_length)
  ultimately show ?thesis by (simp add: to_be16_def)
qed

lemma to_be32_read_be32: "i + 4 \<le> length bs \<Longrightarrow> to_be32 (read_be32 bs i) = bslice bs i (i + 4)"
proof -
  assume i: "i + 4 \<le> length bs"
  then have "4 \<le> length (drop i bs)" by simp
  then obtain a b c d r where r: "drop i bs = a # b # c # d # r"
    by (auto simp: numeral_eq_Suc Suc_le_length_iff simp del: length_drop)
  have "bs ! (i + k) = drop i bs ! k" for k using i by simp
  from this [of 0] this [of 1] this [of 2] this [of 3] have "read_be32 bs i = from_be32 a b c d"
    by (simp add: read_be32_def r numeral_2_eq_2 numeral_3_eq_3)
  then show ?thesis by (simp add: to_from_be32 bslice_def r)
qed

lemma split_be32:
  assumes "4 \<le> length bs"
  shows "bs = to_be32 (read_be32 bs 0) @ drop 4 bs"
  using to_be32_read_be32 [of 0 bs] assms by (simp add: bslice_def)

lemma read_be32_drop: "i + 4 \<le> length bs \<Longrightarrow> read_be32 (drop i bs) 0 = read_be32 bs i"
  by (simp add: read_be32_def)

lemma to_be64_read_be64:
  assumes "i + 8 \<le> length bs"
  shows "to_be64 (read_be64 bs i) = bslice bs i (i + 8)"
proof -
  let ?h = "read_be32 bs i" and ?l = "read_be32 bs (i + 4)"
  have "ucast (drop_bit 32 (push_bit 32 (ucast ?h) OR ucast ?l :: u64)) = ?h"
    by (rule bit_word_eqI) (auto simp: bit_simps dest: bit_imp_le_length)
  moreover have "ucast (push_bit 32 (ucast ?h) OR ucast ?l :: u64) = ?l"
    by (rule bit_word_eqI) (auto simp: bit_simps dest: bit_imp_le_length)
  ultimately have "to_be64 (read_be64 bs i) = to_be32 ?h @ to_be32 ?l" by (simp add: to_be64_def read_be64_def)
  then show ?thesis
    using assms bslice_split [of i "i + 4" "i + 8" bs] to_be32_read_be32 [of i bs] to_be32_read_be32 [of "i + 4" bs]
    by (simp add: add.commute)
qed

subsection \<open>Byte-string literals and ASCII classes\<close>

definition lit :: "string \<Rightarrow> u8 list" where
  "lit s = map of_char s"

definition is_ascii_digit :: "u8 \<Rightarrow> bool" where
  "is_ascii_digit b \<longleftrightarrow> 0x30 \<le> b \<and> b \<le> 0x39"

definition is_ascii_upper :: "u8 \<Rightarrow> bool" where
  "is_ascii_upper b \<longleftrightarrow> 0x41 \<le> b \<and> b \<le> 0x5a"

definition is_ascii_lower :: "u8 \<Rightarrow> bool" where
  "is_ascii_lower b \<longleftrightarrow> 0x61 \<le> b \<and> b \<le> 0x7a"

definition is_ascii_alphanumeric :: "u8 \<Rightarrow> bool" where
  "is_ascii_alphanumeric b \<longleftrightarrow> is_ascii_digit b \<or> is_ascii_upper b \<or> is_ascii_lower b"

definition to_ascii_uppercase :: "u8 \<Rightarrow> u8" where
  "to_ascii_uppercase b = (if is_ascii_lower b then b - 32 else b)"

lemma lit_simps [byte_simps]:
  "lit [] = []"
  "lit (c # cs) = of_char c # lit cs"
  by (simp_all add: lit_def)

lemma length_lit [simp]: "length (lit s) = length s"
  by (simp add: lit_def)

lemma lit_eq_Nil_iff [simp]: "lit s = [] \<longleftrightarrow> s = []" "[] = lit s \<longleftrightarrow> s = []"
  by (auto simp: lit_def)

lemma of_char_u8_inject [simp]: "(of_char c :: u8) = of_char d \<longleftrightarrow> c = d"
proof
  assume "(of_char c :: u8) = of_char d"
  then have "unat (of_char c :: u8) = unat (of_char d :: u8)" by simp
  moreover have "unat (of_char e :: u8) = of_char e" for e :: char
  proof -
    have "(of_char e :: u8) = of_nat (of_char e)"
      by (simp only: of_nat_of_char)
    then show ?thesis by (simp add: unat_of_nat)
  qed
  ultimately show "c = d" by simp
qed simp

lemma lit_inject [simp]: "lit s = lit t \<longleftrightarrow> s = t"
  by (simp add: lit_def inj_map_eq_map inj_on_def)

subsection \<open>Decimal numbers\<close>

fun nat_to_dec :: "nat \<Rightarrow> u8 list" where
  "nat_to_dec n =
     (if n < 10 then [of_nat (48 + n)] else nat_to_dec (n div 10) @ [of_nat (48 + n mod 10)])"

declare nat_to_dec.simps [simp del]

definition int_to_dec :: "int \<Rightarrow> u8 list" where
  "int_to_dec i = (if i < 0 then 0x2d # nat_to_dec (nat (- i)) else nat_to_dec (nat i))"

definition dec_digit :: "u8 \<Rightarrow> nat" where
  "dec_digit b = unat b - 48"

definition dec_value :: "u8 list \<Rightarrow> nat" where
  "dec_value ds = foldl (\<lambda>acc b. acc * 10 + dec_digit b) 0 ds"

text \<open>
  \<open>str::parse\<close> for unsigned and signed integers: an optional sign (\<open>-\<close> for signed types
  only), at least one digit, and a value within the type's range.
\<close>

definition parse_unsigned :: "nat \<Rightarrow> u8 list \<Rightarrow> nat option" where
  "parse_unsigned limit s =
     (let ds = (case s of b # r \<Rightarrow> if b = 0x2b then r else s | [] \<Rightarrow> [])
      in if ds = [] \<or> \<not> list_all is_ascii_digit ds then None
         else if dec_value ds < limit then Some (dec_value ds) else None)"

definition parse_i64 :: "u8 list \<Rightarrow> int option" where
  "parse_i64 s =
     (let neg = (s \<noteq> [] \<and> hd s = 0x2d);
          ds = (if s \<noteq> [] \<and> (hd s = 0x2d \<or> hd s = 0x2b) then tl s else s);
          v = (if neg then - int (dec_value ds) else int (dec_value ds))
      in if ds = [] \<or> \<not> list_all is_ascii_digit ds then None
         else if - (2 ^ 63) \<le> v \<and> v < 2 ^ 63 then Some v else None)"

definition is_i64 :: "int \<Rightarrow> bool" where
  "is_i64 i \<longleftrightarrow> - (2 ^ 63) \<le> i \<and> i < 2 ^ 63"

lemma unat_digit: "d < 10 \<Longrightarrow> unat (of_nat (48 + d) :: u8) = 48 + d"
  by (simp add: unat_of_nat del: of_nat_add)

lemma is_ascii_digit_of_nat: "d < 10 \<Longrightarrow> is_ascii_digit (of_nat (48 + d))"
  using unat_digit [of d] by (simp add: is_ascii_digit_def word_le_nat_alt del: of_nat_add)

lemma dec_digit_of_nat: "d < 10 \<Longrightarrow> dec_digit (of_nat (48 + d)) = d"
  using unat_digit [of d] by (simp add: dec_digit_def del: of_nat_add)

lemma dec_value_snoc: "dec_value (ds @ [b]) = dec_value ds * 10 + dec_digit b"
  by (simp add: dec_value_def)

lemma nat_to_dec_digits: "list_all is_ascii_digit (nat_to_dec n)"
proof (induction n rule: nat_to_dec.induct)
  case (1 n)
  show ?case
  proof (cases "n < 10")
    case True
    then show ?thesis
      by (subst nat_to_dec.simps) (simp add: is_ascii_digit_of_nat del: of_nat_add)
  next
    case False
    with 1 show ?thesis
      by (subst nat_to_dec.simps) (simp add: is_ascii_digit_of_nat del: of_nat_add)
  qed
qed

lemma dec_value_nat_to_dec [codec_simps]: "dec_value (nat_to_dec n) = n"
proof (induction n rule: nat_to_dec.induct)
  case (1 n)
  show ?case
  proof (cases "n < 10")
    case True
    then show ?thesis
      by (subst nat_to_dec.simps) (simp add: dec_value_def dec_digit_of_nat del: of_nat_add)
  next
    case False
    with 1 show ?thesis
      by (subst nat_to_dec.simps) (simp add: dec_value_snoc dec_digit_of_nat del: of_nat_add)
  qed
qed

lemma nat_to_dec_nonempty [simp]: "nat_to_dec n \<noteq> []"
  by (subst nat_to_dec.simps) simp

lemma nat_to_dec_hd: "hd (nat_to_dec n) = 0x30 \<longleftrightarrow> n = 0"
proof (induction n rule: nat_to_dec.induct)
  case (1 n)
  show ?case
  proof (cases "n < 10")
    case True
    have "unat (of_nat (48 + n) :: u8) = 48 + n" using True by (rule unat_digit)
    then have "(of_nat (48 + n) :: u8) = 0x30 \<longleftrightarrow> n = 0"
      by (auto simp: word_unat_eq_iff simp del: of_nat_add)
    then show ?thesis using True by (subst nat_to_dec.simps) (simp del: of_nat_add)
  next
    case False
    with 1 show ?thesis by (subst nat_to_dec.simps) simp
  qed
qed

lemma nat_to_dec_hd_digit: "is_ascii_digit (hd (nat_to_dec n))"
  using nat_to_dec_digits [of n] by (cases "nat_to_dec n") simp_all

lemma nat_to_dec_0 [simp]: "nat_to_dec 0 = [0x30]"
  by (subst nat_to_dec.simps) simp

lemma nat_to_dec_canonical: "length (nat_to_dec n) > 1 \<Longrightarrow> hd (nat_to_dec n) \<noteq> 0x30"
proof
  assume "length (nat_to_dec n) > 1" "hd (nat_to_dec n) = 0x30"
  then show False by (simp only: nat_to_dec_hd nat_to_dec_0) simp
qed

lemma digit_not_sign [simp]:
  "is_ascii_digit b \<Longrightarrow> b \<noteq> 0x2b" "is_ascii_digit b \<Longrightarrow> b \<noteq> 0x2d"
  "is_ascii_digit b \<Longrightarrow> b \<noteq> 0x3a" "is_ascii_digit b \<Longrightarrow> b \<noteq> 0x65"
  "is_ascii_digit b \<Longrightarrow> b \<noteq> 0x69" "is_ascii_digit b \<Longrightarrow> b \<noteq> 0x6c"
  "is_ascii_digit b \<Longrightarrow> b \<noteq> 0x64"
  by (auto simp: is_ascii_digit_def)

lemma parse_unsigned_nat_to_dec [codec_simps]:
  "parse_unsigned limit (nat_to_dec n) = (if n < limit then Some n else None)"
proof -
  obtain b r where s: "nat_to_dec n = b # r" by (cases "nat_to_dec n") auto
  have "b \<noteq> 0x2b" using nat_to_dec_hd_digit [of n] s by auto
  then have "(case nat_to_dec n of b # r \<Rightarrow> if b = 0x2b then r else nat_to_dec n | [] \<Rightarrow> []) = nat_to_dec n"
    using s by simp
  then show ?thesis
    by (simp add: parse_unsigned_def Let_def nat_to_dec_digits dec_value_nat_to_dec)
qed

lemma parse_i64_int_to_dec [codec_simps]:
  "parse_i64 (int_to_dec i) = (if is_i64 i then Some i else None)"
proof (cases "i < 0")
  case True
  then show ?thesis
    by (simp add: parse_i64_def Let_def int_to_dec_def nat_to_dec_digits dec_value_nat_to_dec is_i64_def)
next
  case False
  have "hd (nat_to_dec (nat i)) \<noteq> 0x2d" "hd (nat_to_dec (nat i)) \<noteq> 0x2b"
    using nat_to_dec_hd_digit [of "nat i"] by auto
  with False show ?thesis
    by (simp add: parse_i64_def Let_def int_to_dec_def nat_to_dec_digits dec_value_nat_to_dec is_i64_def)
qed

lemma parse_unsigned_bound: "parse_unsigned limit s = Some n \<Longrightarrow> n < limit"
  by (auto simp: parse_unsigned_def Let_def split: if_splits)

lemma parse_i64_range: "parse_i64 s = Some i \<Longrightarrow> is_i64 i"
  by (auto simp: parse_i64_def Let_def is_i64_def split: if_splits)

end
