(* ===== verification/Bencode.thy ===== *)
theory Bencode
  imports Bytes
begin

text \<open>
  The bencode reader that \<open>metainfo.rs\<close>, \<open>tracker.rs\<close>, \<open>dht.rs\<close> and \<open>extension.rs\<close> each
  carry as a private \<open>Parser\<close>. The four copies differ only in their limits, in the rule on
  dictionary keys and in how a fault is reported, so the reader is written once over a
  dialect and each component instantiates it. The diagnostic text of
  \<open>InvalidBencode(String)\<close> is kept as a constructor of \<open>bencode_fault\<close>.

  The theorems: a canonical encoding is read back exactly, whatever follows it; whatever is
  read respects the dialect's limits and key rule and advances within the input; bencode is
  prefix-free. The laws are collected in the locale \<open>bencode_reader\<close>.
\<close>

datatype bvalue =
    BInt int
  | BBytes "u8 list"
  | BList "bvalue list"
  | BDict "(u8 list \<times> bvalue) list"

datatype bencode_fault =
    DepthExceeded
  | UnexpectedByte u8
  | UnexpectedEnd
  | ExpectedByte u8 u8
  | UnterminatedInteger
  | NonCanonicalInteger
  | InvalidInteger
  | BadLengthByte
  | NonCanonicalLength
  | LengthTextOverflow
  | PositionOverflow
  | TruncatedBytes
  | ListTooLarge
  | DictTooLarge
  | BadKeyOrder
  | TrailingData
  | EmptyInput
  | NotADictionary
  | DuplicateInfo
  | InvalidInfoSpan

record bdialect =
  max_depth :: nat
  max_list :: nat
  max_dict :: nat
  key_ok :: "u8 list list \<Rightarrow> u8 list \<Rightarrow> bool"

text \<open>The two key rules of the sources: strictly ascending, or merely not seen before.\<close>

definition ascending_key :: "u8 list list \<Rightarrow> u8 list \<Rightarrow> bool" where
  "ascending_key ks k \<longleftrightarrow> (ks = [] \<or> \<not> k \<le> last ks)"

definition fresh_key :: "u8 list list \<Rightarrow> u8 list \<Rightarrow> bool" where
  "fresh_key ks k \<longleftrightarrow> k \<notin> set ks"

fun as_int :: "bvalue \<Rightarrow> int option" where
  "as_int (BInt i) = Some i"
| "as_int _ = None"

fun as_bytes :: "bvalue \<Rightarrow> u8 list option" where
  "as_bytes (BBytes b) = Some b"
| "as_bytes _ = None"

fun as_list :: "bvalue \<Rightarrow> bvalue list option" where
  "as_list (BList vs) = Some vs"
| "as_list _ = None"

fun as_dict :: "bvalue \<Rightarrow> (u8 list \<times> bvalue) list option" where
  "as_dict (BDict kvs) = Some kvs"
| "as_dict _ = None"

definition dict_get :: "(u8 list \<times> bvalue) list \<Rightarrow> u8 list \<Rightarrow> bvalue option" where
  "dict_get kvs k = map_option snd (List.find (\<lambda>kv. fst kv = k) kvs)"

definition dict_int :: "(u8 list \<times> bvalue) list \<Rightarrow> u8 list \<Rightarrow> int option" where
  "dict_int kvs k = Option.bind (dict_get kvs k) as_int"

definition dict_bytes :: "(u8 list \<times> bvalue) list \<Rightarrow> u8 list \<Rightarrow> u8 list option" where
  "dict_bytes kvs k = Option.bind (dict_get kvs k) as_bytes"

subsection \<open>The reader\<close>

function scan :: "(u8 \<Rightarrow> bool) \<Rightarrow> u8 list \<Rightarrow> nat \<Rightarrow> nat" where
  "scan stop inp pos = (if pos < length inp \<and> \<not> stop (inp ! pos) then scan stop inp (Suc pos) else pos)"
  by pat_completeness auto
termination
  by (relation "measure (\<lambda>(stop, inp, pos). length inp - pos)") auto

declare scan.simps [simp del]

definition expect :: "u8 \<Rightarrow> u8 list \<Rightarrow> nat \<Rightarrow> (bencode_fault, nat) result" where
  "expect b inp pos =
     (case get_opt inp pos of
        None \<Rightarrow> Inl UnexpectedEnd
      | Some a \<Rightarrow> if a = b then Inr (pos + 1) else Inl (ExpectedByte b a))"

definition non_canonical_int :: "u8 list \<Rightarrow> bool" where
  "non_canonical_int raw \<longleftrightarrow>
     raw = [] \<or> raw = [0x2d, 0x30]
     \<or> (1 < length raw \<and> raw ! 0 = 0x30)
     \<or> (2 < length raw \<and> raw ! 0 = 0x2d \<and> raw ! 1 = 0x30)"

definition bparse_int :: "u8 list \<Rightarrow> nat \<Rightarrow> (bencode_fault, int \<times> nat) result" where
  "bparse_int inp pos =
     rbind (expect 0x69 inp pos) (\<lambda>start.
     let stop = scan (\<lambda>b. b = 0x65) inp start in
     if length inp \<le> stop then Inl UnterminatedInteger
     else rbind (expect 0x65 inp stop) (\<lambda>next.
     let raw = bslice inp start stop in
     if non_canonical_int raw then Inl NonCanonicalInteger
     else rbind (ok_or InvalidInteger (parse_i64 raw)) (\<lambda>v. Inr (v, next))))"

definition bparse_bytes :: "u8 list \<Rightarrow> nat \<Rightarrow> (bencode_fault, u8 list \<times> nat) result" where
  "bparse_bytes inp pos =
     (let stop = scan (\<lambda>b. b = 0x3a \<or> \<not> is_ascii_digit b) inp pos in
      if stop < length inp \<and> inp ! stop \<noteq> 0x3a then Inl BadLengthByte
      else rbind (expect 0x3a inp stop) (\<lambda>start.
      let digits = bslice inp pos stop in
      if digits = [] \<or> (1 < length digits \<and> digits ! 0 = 0x30) then Inl NonCanonicalLength
      else rbind (ok_or LengthTextOverflow (parse_unsigned u64_limit digits)) (\<lambda>n.
      rbind (ok_or PositionOverflow (checked_add64 start n)) (\<lambda>stop'.
      rbind (ok_or TruncatedBytes (bslice_opt inp start stop')) (\<lambda>value.
      Inr (value, stop'))))))"

function bparse_value :: "bdialect \<Rightarrow> u8 list \<Rightarrow> nat \<Rightarrow> nat \<Rightarrow> (bencode_fault, bvalue \<times> nat) result"
  and bparse_list :: "bdialect \<Rightarrow> u8 list \<Rightarrow> nat \<Rightarrow> nat \<Rightarrow> bvalue list \<Rightarrow>
        (bencode_fault, bvalue list \<times> nat) result"
  and bparse_dict :: "bdialect \<Rightarrow> u8 list \<Rightarrow> nat \<Rightarrow> nat \<Rightarrow> (u8 list \<times> bvalue) list \<Rightarrow>
        (bencode_fault, (u8 list \<times> bvalue) list \<times> nat) result"
where
  "bparse_value D inp depth pos =
     (if max_depth D < depth then Inl DepthExceeded
      else case get_opt inp pos of
        None \<Rightarrow> Inl UnexpectedEnd
      | Some b \<Rightarrow>
          if b = 0x69 then rbind (bparse_int inp pos) (\<lambda>(v, p). Inr (BInt v, p))
          else if b = 0x6c then
            rbind (bparse_list D inp depth (pos + 1) []) (\<lambda>(vs, p). Inr (BList vs, p))
          else if b = 0x64 then
            rbind (bparse_dict D inp depth (pos + 1) []) (\<lambda>(kvs, p). Inr (BDict kvs, p))
          else if is_ascii_digit b then
            rbind (bparse_bytes inp pos) (\<lambda>(v, p). Inr (BBytes v, p))
          else Inl (UnexpectedByte b))"
| "bparse_list D inp depth pos acc =
     (if get_opt inp pos = Some 0x65 then Inr (acc, pos + 1)
      else if max_list D \<le> length acc then Inl ListTooLarge
      else rbind (bparse_value D inp (depth + 1) pos) (\<lambda>(v, p).
           bparse_list D inp depth p (acc @ [v])))"
| "bparse_dict D inp depth pos acc =
     (if get_opt inp pos = Some 0x65 then Inr (acc, pos + 1)
      else if max_dict D \<le> length acc then Inl DictTooLarge
      else rbind (bparse_bytes inp pos) (\<lambda>(k, p).
           if \<not> key_ok D (map fst acc) k then Inl BadKeyOrder
           else rbind (bparse_value D inp (depth + 1) p) (\<lambda>(v, q).
           bparse_dict D inp depth q (acc @ [(k, v)]))))"
  by pat_completeness auto
termination
  by (relation "measures
      [\<lambda>x. case x of
         Inl (D, inp, depth, pos) \<Rightarrow> 2 * (max_depth D + 2 - depth)
       | Inr (Inl (D, inp, depth, pos, acc)) \<Rightarrow> 2 * (max_depth D + 1 - depth) + 1
       | Inr (Inr (D, inp, depth, pos, acc)) \<Rightarrow> 2 * (max_depth D + 1 - depth) + 1,
       \<lambda>x. case x of
         Inl (D, inp, depth, pos) \<Rightarrow> 0
       | Inr (Inl (D, inp, depth, pos, acc)) \<Rightarrow> max_list D - length acc
       | Inr (Inr (D, inp, depth, pos, acc)) \<Rightarrow> max_dict D - length acc]") auto

declare bparse_value.simps [simp del] bparse_list.simps [simp del] bparse_dict.simps [simp del]

subsection \<open>The writer\<close>

definition bstr :: "u8 list \<Rightarrow> u8 list" where
  "bstr v = nat_to_dec (length v) @ [0x3a] @ v"

definition bint :: "int \<Rightarrow> u8 list" where
  "bint i = [0x69] @ int_to_dec i @ [0x65]"

fun bencode :: "bvalue \<Rightarrow> u8 list"
  and bencode_items :: "bvalue list \<Rightarrow> u8 list"
  and bencode_entries :: "(u8 list \<times> bvalue) list \<Rightarrow> u8 list"
where
  "bencode (BInt i) = bint i"
| "bencode (BBytes b) = bstr b"
| "bencode (BList vs) = 0x6c # bencode_items vs @ [0x65]"
| "bencode (BDict kvs) = 0x64 # bencode_entries kvs @ [0x65]"
| "bencode_items [] = []"
| "bencode_items (v # vs) = bencode v @ bencode_items vs"
| "bencode_entries [] = []"
| "bencode_entries ((k, v) # kvs) = bstr k @ bencode v @ bencode_entries kvs"

text \<open>What a dialect accepts: integers of 64 bits, bounded nesting and sizes, admissible keys.\<close>

fun keys_ok :: "bdialect \<Rightarrow> u8 list list \<Rightarrow> u8 list list \<Rightarrow> bool" where
  "keys_ok D seen [] = True"
| "keys_ok D seen (k # ks) = (key_ok D seen k \<and> keys_ok D (seen @ [k]) ks)"

fun bwf :: "bdialect \<Rightarrow> nat \<Rightarrow> bvalue \<Rightarrow> bool"
  and bwf_items :: "bdialect \<Rightarrow> nat \<Rightarrow> bvalue list \<Rightarrow> bool"
  and bwf_entries :: "bdialect \<Rightarrow> nat \<Rightarrow> (u8 list \<times> bvalue) list \<Rightarrow> bool"
where
  "bwf D d (BInt i) = (d \<le> max_depth D \<and> is_i64 i)"
| "bwf D d (BBytes b) = (d \<le> max_depth D)"
| "bwf D d (BList vs) = (d \<le> max_depth D \<and> length vs \<le> max_list D \<and> bwf_items D (d + 1) vs)"
| "bwf D d (BDict kvs) =
     (d \<le> max_depth D \<and> length kvs \<le> max_dict D \<and> keys_ok D [] (map fst kvs)
      \<and> bwf_entries D (d + 1) kvs)"
| "bwf_items D d [] = True"
| "bwf_items D d (v # vs) = (bwf D d v \<and> bwf_items D d vs)"
| "bwf_entries D d [] = True"
| "bwf_entries D d ((k, v) # kvs) = (bwf D d v \<and> bwf_entries D d kvs)"

lemma bwf_items_append: "bwf_items D d (xs @ ys) \<longleftrightarrow> bwf_items D d xs \<and> bwf_items D d ys"
  by (induction xs) auto

lemma bwf_entries_append: "bwf_entries D d (xs @ ys) \<longleftrightarrow> bwf_entries D d xs \<and> bwf_entries D d ys"
  by (induction xs) auto

lemma keys_ok_append: "keys_ok D seen (ks @ [k]) \<longleftrightarrow> keys_ok D seen ks \<and> key_ok D (seen @ ks) k"
  by (induction ks arbitrary: seen) auto

subsection \<open>Scanning\<close>

lemma scan_found:
  assumes "inp = pre @ mid @ b # suf" "\<forall>x \<in> set mid. \<not> stop x" "stop b"
  shows "scan stop inp (length pre) = length pre + length mid"
  using assms
proof (induction mid arbitrary: pre)
  case Nil
  then show ?case by (subst scan.simps) simp
next
  case (Cons x mid)
  then have "scan stop inp (length (pre @ [x])) = length (pre @ [x]) + length mid"
    by (intro Cons.IH) simp_all
  with Cons.prems show ?case by (subst scan.simps) simp
qed

lemma scan_bounds: "pos \<le> length inp \<Longrightarrow> pos \<le> scan stop inp pos \<and> scan stop inp pos \<le> length inp"
proof (induction stop inp pos rule: scan.induct)
  case (1 stop inp pos)
  then show ?case
    by (cases "pos < length inp \<and> \<not> stop (inp ! pos)") (auto simp: scan.simps [of stop inp pos])
qed

lemma scan_ge: "pos \<le> scan stop inp pos"
proof (cases "pos \<le> length inp")
  case True
  then show ?thesis using scan_bounds by blast
next
  case False
  then show ?thesis by (subst scan.simps) simp
qed

lemma expect_Inr_iff: "expect b inp pos = Inr p \<longleftrightarrow> pos < length inp \<and> inp ! pos = b \<and> p = pos + 1"
  by (auto simp: expect_def get_opt_def)

lemma expect_at: "inp = pre @ b # suf \<Longrightarrow> expect b inp (length pre) = Inr (length pre + 1)"
  by (simp add: expect_Inr_iff)

subsection \<open>Reading back what was written\<close>

lemma int_to_dec_nonempty [simp]: "int_to_dec i \<noteq> []"
  by (simp add: int_to_dec_def)

lemma int_to_dec_no_e: "\<forall>b \<in> set (int_to_dec i). b \<noteq> 0x65"
proof -
  have "\<forall>b \<in> set (nat_to_dec n). is_ascii_digit b" for n
    using nat_to_dec_digits [of n] by (simp add: list_all_iff)
  then show ?thesis by (auto simp: int_to_dec_def is_ascii_digit_def)
qed

lemma int_to_dec_canonical: "\<not> non_canonical_int (int_to_dec i)"
proof (cases "i < 0")
  case True
  obtain b r where d: "nat_to_dec (nat (- i)) = b # r" by (cases "nat_to_dec (nat (- i))") auto
  then have "b \<noteq> 0x30" using nat_to_dec_hd [of "nat (- i)"] True by simp
  with True d show ?thesis by (simp add: non_canonical_int_def int_to_dec_def)
next
  case False
  obtain b r where d: "nat_to_dec (nat i) = b # r" by (cases "nat_to_dec (nat i)") auto
  moreover have "b \<noteq> 0x2d" using nat_to_dec_hd_digit [of "nat i"] d by auto
  moreover have "r \<noteq> [] \<Longrightarrow> b \<noteq> 0x30" using nat_to_dec_canonical [of "nat i"] d by simp
  ultimately show ?thesis using False by (auto simp: non_canonical_int_def int_to_dec_def)
qed

lemma bparse_int_at:
  assumes inp: "inp = pre @ bint i @ suf" and i: "is_i64 i"
  shows "bparse_int inp (length pre) = Inr (i, length pre + length (bint i))"
proof -
  let ?raw = "int_to_dec i"
  let ?stop = "length pre + 1 + length ?raw"
  have e1: "expect 0x69 inp (length pre) = Inr (length pre + 1)"
    using inp by (simp add: bint_def expect_Inr_iff)
  have "scan (\<lambda>b. b = 0x65) inp (length (pre @ [0x69])) = length (pre @ [0x69]) + length ?raw"
    by (rule scan_found [where b = "0x65" and suf = suf])
      (use inp int_to_dec_no_e in \<open>auto simp: bint_def\<close>)
  then have sc: "scan (\<lambda>b. b = 0x65) inp (length pre + 1) = ?stop" by simp
  have e2: "expect 0x65 inp ?stop = Inr (?stop + 1)"
    using inp by (simp add: bint_def expect_Inr_iff nth_append)
  have raw: "bslice inp (length pre + 1) ?stop = ?raw"
    using bslice_append_exact [of "pre @ [0x69]" ?raw "0x65 # suf"] inp by (simp add: bint_def)
  have "\<not> length inp \<le> ?stop" using inp by (simp add: bint_def)
  then show ?thesis
    unfolding bparse_int_def Let_def using i
    by (simp add: e1 sc e2 raw int_to_dec_canonical parse_i64_int_to_dec del: One_nat_def)
      (simp add: bint_def)
qed

lemma bparse_bytes_at:
  assumes inp: "inp = pre @ bstr v @ suf" and len: "length inp < u64_limit"
  shows "bparse_bytes inp (length pre) = Inr (v, length pre + length (bstr v))"
proof -
  let ?ds = "nat_to_dec (length v)"
  let ?stop = "length pre + length ?ds"
  have dig: "\<forall>b \<in> set ?ds. is_ascii_digit b"
    using nat_to_dec_digits [of "length v"] by (simp add: list_all_iff)
  have sc: "scan (\<lambda>b. b = 0x3a \<or> \<not> is_ascii_digit b) inp (length pre) = ?stop"
    by (rule scan_found [where b = "0x3a" and suf = "v @ suf"])
      (use inp dig in \<open>auto simp: bstr_def\<close>)
  have at: "inp ! ?stop = 0x3a" "?stop < length inp"
    using inp by (simp_all add: bstr_def nth_append)
  then have ex: "expect 0x3a inp ?stop = Inr (?stop + 1)" by (simp add: expect_Inr_iff)
  have ds: "bslice inp (length pre) ?stop = ?ds"
    using bslice_append_exact [of pre ?ds "0x3a # v @ suf"] inp by (simp add: bstr_def)
  have lenv: "?stop + 1 + length v \<le> length inp" using inp by (simp add: bstr_def)
  have val: "bslice inp (?stop + 1) (?stop + 1 + length v) = v"
    using bslice_append_exact [of "pre @ ?ds @ [0x3a]" v suf] inp by (simp add: bstr_def add.assoc)
  have can: "\<not> (1 < length ?ds \<and> ?ds ! 0 = 0x30)"
    using nat_to_dec_canonical [of "length v"] by (auto simp: hd_conv_nth)
  have num: "parse_unsigned u64_limit ?ds = Some (length v)"
    using lenv len by (simp add: parse_unsigned_nat_to_dec)
  have add: "checked_add64 (?stop + 1) (length v) = Some (?stop + 1 + length v)"
    using lenv len by (simp add: opt_iffs)
  have opt: "bslice_opt inp (?stop + 1) (?stop + 1 + length v) = Some v"
    using lenv val by (simp add: opt_iffs)
  show ?thesis
    unfolding bparse_bytes_def Let_def sc ds
    using can by (simp add: at ex num add opt del: One_nat_def) (simp add: bstr_def)
qed

lemma bstr_Cons: "\<exists>b r. bstr k = b # r \<and> is_ascii_digit b"
proof -
  obtain b r where "nat_to_dec (length k) = b # r" by (cases "nat_to_dec (length k)") auto
  then show ?thesis using nat_to_dec_hd_digit [of "length k"] by (simp add: bstr_def)
qed

lemma bencode_Cons: "\<exists>b r. bencode v = b # r \<and> b \<noteq> 0x65"
proof (cases v)
  case (BBytes k)
  then show ?thesis using bstr_Cons [of k] by auto
qed (simp_all add: bint_def)

lemma bparse_value_bytes:
  assumes "inp = pre @ bstr v @ suf" "length inp < u64_limit" "d \<le> max_depth D"
  shows "bparse_value D inp d (length pre) = Inr (BBytes v, length pre + length (bstr v))"
proof -
  obtain b r where b: "bstr v = b # r" "is_ascii_digit b" using bstr_Cons by blast
  then have "get_opt inp (length pre) = Some b" using assms(1) by simp
  with b assms bparse_bytes_at [OF assms(1,2)] show ?thesis
    by (subst bparse_value.simps) (auto simp: is_ascii_digit_def)
qed

lemma bparse_value_int:
  assumes "inp = pre @ bint i @ suf" "is_i64 i" "d \<le> max_depth D"
  shows "bparse_value D inp d (length pre) = Inr (BInt i, length pre + length (bint i))"
proof -
  have "get_opt inp (length pre) = Some 0x69" using assms(1) by (simp add: bint_def)
  with assms(3) bparse_int_at [OF assms(1,2)] show ?thesis
    by (subst bparse_value.simps) auto
qed

lemma bparse_encoded:
  shows "\<And>d pre suf inp. bwf D d v \<Longrightarrow> inp = pre @ bencode v @ suf \<Longrightarrow> length inp < u64_limit \<Longrightarrow>
          bparse_value D inp d (length pre) = Inr (v, length pre + length (bencode v))"
    and "\<And>d pre suf inp acc. bwf_items D (d + 1) vs \<Longrightarrow> length acc + length vs \<le> max_list D \<Longrightarrow>
          inp = pre @ bencode_items vs @ 0x65 # suf \<Longrightarrow> length inp < u64_limit \<Longrightarrow>
          bparse_list D inp d (length pre) acc
            = Inr (acc @ vs, length pre + length (bencode_items vs) + 1)"
    and "\<And>d pre suf inp acc. bwf_entries D (d + 1) kvs \<Longrightarrow> length acc + length kvs \<le> max_dict D \<Longrightarrow>
          keys_ok D (map fst acc) (map fst kvs) \<Longrightarrow>
          inp = pre @ bencode_entries kvs @ 0x65 # suf \<Longrightarrow> length inp < u64_limit \<Longrightarrow>
          bparse_dict D inp d (length pre) acc
            = Inr (acc @ kvs, length pre + length (bencode_entries kvs) + 1)"
proof (induction v and vs and kvs rule: bencode_bencode_items_bencode_entries.induct)
  case (1 i)
  then show ?case using bparse_value_int by simp
next
  case (2 b)
  then show ?case using bparse_value_bytes by simp
next
  case (3 vs)
  have "bparse_list D inp d (length (pre @ [0x6c])) []
      = Inr ([] @ vs, length (pre @ [0x6c]) + length (bencode_items vs) + 1)"
    using "3.prems" by (intro "3.IH") simp_all
  moreover have "get_opt inp (length pre) = Some 0x6c" using "3.prems" by simp
  ultimately show ?case using "3.prems"(1) by (subst bparse_value.simps) simp
next
  case (4 kvs)
  have "bparse_dict D inp d (length (pre @ [0x64])) []
      = Inr ([] @ kvs, length (pre @ [0x64]) + length (bencode_entries kvs) + 1)"
    using "4.prems" by (intro "4.IH") simp_all
  moreover have "get_opt inp (length pre) = Some 0x64" using "4.prems" by simp
  ultimately show ?case using "4.prems"(1) by (subst bparse_value.simps) simp
next
  case 5
  then show ?case by (subst bparse_list.simps) simp
next
  case (6 v vs)
  obtain b r where b: "bencode v = b # r" "b \<noteq> 0x65" using bencode_Cons by blast
  have "get_opt inp (length pre) \<noteq> Some 0x65" using "6.prems"(3) b by simp
  moreover have "bparse_value D inp (d + 1) (length pre) = Inr (v, length pre + length (bencode v))"
    using "6.prems" by (intro "6.IH"(1)) simp_all
  moreover have "bparse_list D inp d (length (pre @ bencode v)) (acc @ [v])
      = Inr ((acc @ [v]) @ vs, length (pre @ bencode v) + length (bencode_items vs) + 1)"
    using "6.prems" by (intro "6.IH"(2)) simp_all
  ultimately show ?case using "6.prems"(2)
    by (subst bparse_list.simps) simp
next
  case 7
  then show ?case by (subst bparse_dict.simps) simp
next
  case (8 k v kvs)
  obtain b r where b: "bstr k = b # r" "is_ascii_digit b" using bstr_Cons by blast
  have "get_opt inp (length pre) \<noteq> Some 0x65" using "8.prems"(4) b by (auto simp: is_ascii_digit_def)
  moreover have "bparse_bytes inp (length pre) = Inr (k, length pre + length (bstr k))"
    using "8.prems" by (intro bparse_bytes_at) simp_all
  moreover have "bparse_value D inp (d + 1) (length (pre @ bstr k))
      = Inr (v, length (pre @ bstr k) + length (bencode v))"
    using "8.prems" by (intro "8.IH"(1)) simp_all
  moreover have "bparse_dict D inp d (length (pre @ bstr k @ bencode v)) (acc @ [(k, v)])
      = Inr ((acc @ [(k, v)]) @ kvs, length (pre @ bstr k @ bencode v) + length (bencode_entries kvs) + 1)"
    using "8.prems" by (intro "8.IH"(2)) simp_all
  ultimately show ?case using "8.prems"(2,3)
    by (subst bparse_dict.simps) (simp add: add.assoc)
qed

subsection \<open>What the reader accepts\<close>

text \<open>
  The texts of an integer that \<open>i64::from_str\<close> accepts behind the canonicality test: the
  canonical one, and, because \<open>from_str\<close> takes an explicit plus sign that the test does not
  look at, any digits after a plus sign.
\<close>

definition int_text :: "int \<Rightarrow> u8 list \<Rightarrow> bool" where
  "int_text i s \<longleftrightarrow> s = int_to_dec i
     \<or> (\<exists>ds. s = 0x2b # ds \<and> ds \<noteq> [] \<and> list_all is_ascii_digit ds \<and> i = int (dec_value ds))"

inductive bencodes :: "bvalue \<Rightarrow> u8 list \<Rightarrow> bool"
  and bencodes_items :: "bvalue list \<Rightarrow> u8 list \<Rightarrow> bool"
  and bencodes_entries :: "(u8 list \<times> bvalue) list \<Rightarrow> u8 list \<Rightarrow> bool"
where
  int: "int_text i s \<Longrightarrow> bencodes (BInt i) ([0x69] @ s @ [0x65])"
| bytes: "bencodes (BBytes b) (bstr b)"
| list: "bencodes_items vs s \<Longrightarrow> bencodes (BList vs) ([0x6c] @ s @ [0x65])"
| dict: "bencodes_entries kvs s \<Longrightarrow> bencodes (BDict kvs) ([0x64] @ s @ [0x65])"
| items_Nil: "bencodes_items [] []"
| items_Cons: "bencodes v s \<Longrightarrow> bencodes_items vs t \<Longrightarrow> bencodes_items (v # vs) (s @ t)"
| entries_Nil: "bencodes_entries [] []"
| entries_Cons: "bencodes v s \<Longrightarrow> bencodes_entries kvs t \<Longrightarrow>
    bencodes_entries ((k, v) # kvs) (bstr k @ s @ t)"

lemma dec_digit_bound: "is_ascii_digit b \<Longrightarrow> dec_digit b < 10 \<and> of_nat (48 + dec_digit b) = b"
proof -
  assume "is_ascii_digit b"
  then have "48 \<le> unat b" "unat b \<le> 57" by (simp_all add: is_ascii_digit_def word_le_nat_alt)
  then show ?thesis by (simp add: dec_digit_def del: of_nat_add)
qed

lemma dec_value_pos: "ds \<noteq> [] \<Longrightarrow> list_all is_ascii_digit ds \<Longrightarrow> hd ds \<noteq> 0x30 \<Longrightarrow> 0 < dec_value ds"
proof (induction ds rule: rev_induct)
  case (snoc b ds)
  show ?case
  proof (cases ds)
    case Nil
    have "dec_digit b < 10" "of_nat (48 + dec_digit b) = b" using snoc.prems dec_digit_bound by auto
    then have "dec_digit b \<noteq> 0" using snoc.prems(3) Nil by (intro notI) simp
    then show ?thesis using Nil by (simp add: dec_value_def)
  next
    case (Cons c cs)
    then have "0 < dec_value ds" using snoc by simp
    then show ?thesis by (simp add: dec_value_snoc)
  qed
qed simp

lemma nat_to_dec_dec_value:
  "ds \<noteq> [] \<Longrightarrow> list_all is_ascii_digit ds \<Longrightarrow> (1 < length ds \<longrightarrow> hd ds \<noteq> 0x30) \<Longrightarrow>
   nat_to_dec (dec_value ds) = ds"
proof (induction ds rule: rev_induct)
  case (snoc b ds)
  have b: "dec_digit b < 10" "of_nat (48 + dec_digit b) = b" using snoc.prems dec_digit_bound by auto
  show ?case
  proof (cases ds)
    case Nil
    then show ?thesis using b by (subst nat_to_dec.simps) (simp add: dec_value_def del: of_nat_add)
  next
    case (Cons c cs)
    then have pos: "0 < dec_value ds" and IH: "nat_to_dec (dec_value ds) = ds"
      using snoc by (auto intro!: dec_value_pos snoc.IH)
    then have "10 \<le> dec_value ds * 10 + dec_digit b" by simp
    moreover have "(dec_value ds * 10 + dec_digit b) div 10 = dec_value ds"
      "(dec_value ds * 10 + dec_digit b) mod 10 = dec_digit b" using b(1) by simp_all
    ultimately show ?thesis using IH b(2)
      by (subst nat_to_dec.simps) (simp add: dec_value_snoc del: of_nat_add)
  qed
qed simp

lemma int_textI:
  assumes "parse_i64 raw = Some i" "\<not> non_canonical_int raw"
  shows "int_text i raw"
proof -
  obtain b r where raw: "raw = b # r" using assms(2) by (cases raw) (auto simp: non_canonical_int_def)
  consider "b = 0x2d" | "b = 0x2b" | "b \<noteq> 0x2d" "b \<noteq> 0x2b" by blast
  then show ?thesis
  proof cases
    case 1
    have r: "r \<noteq> []" "list_all is_ascii_digit r" and i: "i = - int (dec_value r)"
      using assms(1) raw 1 by (auto simp: parse_i64_def Let_def split: if_splits)
    moreover from r assms(2) raw 1 have "hd r \<noteq> 0x30"
      by (cases r) (auto simp: non_canonical_int_def)
    ultimately show ?thesis
      using raw 1 dec_value_pos [of r] by (auto simp: int_text_def int_to_dec_def nat_to_dec_dec_value)
  next
    case 2
    with assms(1) raw show ?thesis by (auto simp: parse_i64_def Let_def int_text_def split: if_splits)
  next
    case 3
    have "list_all is_ascii_digit raw" and i: "i = int (dec_value raw)"
      using assms(1) raw 3 by (auto simp: parse_i64_def Let_def split: if_splits)
    moreover have "1 < length raw \<longrightarrow> hd raw \<noteq> 0x30"
      using assms(2) raw by (auto simp: non_canonical_int_def)
    ultimately show ?thesis
      using raw nat_to_dec_dec_value [of raw] by (simp add: int_text_def int_to_dec_def)
  qed
qed

lemma bslice_single: "i < length xs \<Longrightarrow> bslice xs i (Suc i) = [xs ! i]"
  by (simp add: bslice_def take_Suc_conv_app_nth)

lemma bslice_cut:
  assumes "i \<le> j" "j < k" "k \<le> length xs"
  shows "bslice xs i k = bslice xs i j @ [xs ! j] @ bslice xs (Suc j) k"
  using assms bslice_split [of i j k xs] bslice_split [of j "Suc j" k xs] bslice_single [of j xs]
  by simp

lemma bslice_self [simp]: "bslice xs i i = []"
  by (simp add: bslice_def)

lemma bparse_int_sound:
  assumes "bparse_int inp pos = Inr (v, p)"
  shows "is_i64 v \<and> pos < p \<and> p \<le> length inp \<and> bencodes (BInt v) (bslice inp pos p)"
proof -
  let ?stop = "scan (\<lambda>b. b = 0x65) inp (pos + 1)"
  from assms have i: "pos < length inp" "inp ! pos = 0x69" and e: "?stop < length inp" "inp ! ?stop = 0x65"
    and p: "p = ?stop + 1" and v: "parse_i64 (bslice inp (pos + 1) ?stop) = Some v"
    and c: "\<not> non_canonical_int (bslice inp (pos + 1) ?stop)"
    by (auto simp: bparse_int_def expect_Inr_iff Let_def split: if_splits)
  have ge: "pos + 1 \<le> ?stop" by (rule scan_ge)
  have "bslice inp pos p = [0x69] @ bslice inp (pos + 1) ?stop @ [0x65]"
    using bslice_cut [of pos pos p inp] bslice_cut [of "pos + 1" ?stop p inp] i e p ge by simp
  then show ?thesis
    using bencodes_bencodes_items_bencodes_entries.int [OF int_textI [OF v c]] parse_i64_range [OF v] ge e p by simp
qed

lemma scan_not_stop: "pos \<le> j \<Longrightarrow> j < scan stop inp pos \<Longrightarrow> \<not> stop (inp ! j)"
proof (induction stop inp pos rule: scan.induct)
  case (1 stop inp pos)
  then show ?case
    by (cases "j = pos"; cases "pos < length inp \<and> \<not> stop (inp ! pos)")
      (auto simp: scan.simps [of stop inp pos])
qed

lemma bparse_bytes_sound:
  assumes "bparse_bytes inp pos = Inr (v, p)"
  shows "pos < p \<and> p \<le> length inp \<and> bslice inp pos p = bstr v"
proof -
  let ?stop = "scan (\<lambda>b. b = 0x3a \<or> \<not> is_ascii_digit b) inp pos"
  let ?ds = "bslice inp pos ?stop"
  from assms obtain n where e: "?stop < length inp" "inp ! ?stop = 0x3a"
    and ds: "?ds \<noteq> []" "\<not> (1 < length ?ds \<and> ?ds ! 0 = 0x30)"
    and n: "parse_unsigned u64_limit ?ds = Some n"
    and p: "p = ?stop + 1 + n" "p \<le> length inp" and v: "v = bslice inp (?stop + 1) p"
    by (auto simp: bparse_bytes_def expect_Inr_iff Let_def opt_iffs split: if_splits)
  have ge: "pos \<le> ?stop" by (rule scan_ge)
  have dig: "list_all is_ascii_digit ?ds"
  proof (rule list_all_length [THEN iffD2], intro allI impI)
    fix k assume k: "k < length ?ds"
    then have "k < ?stop - pos" by simp
    then have "pos + k < ?stop" by linarith
    then have "is_ascii_digit (inp ! (pos + k))"
      using scan_not_stop [of pos "pos + k" "\<lambda>b. b = 0x3a \<or> \<not> is_ascii_digit b" inp] by simp
    moreover have "pos \<le> length inp" using k by simp linarith
    ultimately show "is_ascii_digit (?ds ! k)" using k by (simp add: bslice_def)
  qed
  have hd: "hd ?ds \<noteq> 0x2b" using dig ds(1) by (cases ?ds) auto
  have "n = dec_value ?ds"
    using n hd dig ds(1) by (auto simp: parse_unsigned_def Let_def split: if_splits list.splits)
  then have "?ds = nat_to_dec n"
    using nat_to_dec_dec_value [OF ds(1) dig] ds(2) ds(1) by (simp add: hd_conv_nth)
  moreover have "length v = n" using v p e by simp
  moreover have "bslice inp pos p = ?ds @ [0x3a] @ v"
    using bslice_cut [of pos ?stop p inp] ge e p v by simp
  ultimately show ?thesis using ge p by (simp add: bstr_def)
qed

lemma bparse_sound:
  shows "bparse_value D inp d pos = Inr (v, p) \<Longrightarrow>
          bwf D d v \<and> pos < p \<and> p \<le> length inp \<and> bencodes v (bslice inp pos p)"
    and "bparse_list D inp d' pos' acc = Inr (vs, q) \<Longrightarrow>
          bwf_items D (d' + 1) acc \<Longrightarrow> length acc \<le> max_list D \<Longrightarrow>
          bwf_items D (d' + 1) vs \<and> length vs \<le> max_list D \<and> pos' < q \<and> q \<le> length inp
          \<and> (\<exists>ws s. vs = acc @ ws \<and> bencodes_items ws s \<and> bslice inp pos' q = s @ [0x65])"
    and "bparse_dict D inp d'' pos'' acc' = Inr (kvs, r) \<Longrightarrow>
          bwf_entries D (d'' + 1) acc' \<Longrightarrow> length acc' \<le> max_dict D \<Longrightarrow> keys_ok D [] (map fst acc') \<Longrightarrow>
          bwf_entries D (d'' + 1) kvs \<and> length kvs \<le> max_dict D \<and> keys_ok D [] (map fst kvs)
          \<and> pos'' < r \<and> r \<le> length inp
          \<and> (\<exists>ws s. kvs = acc' @ ws \<and> bencodes_entries ws s \<and> bslice inp pos'' r = s @ [0x65])"
proof (induction D inp d pos and D inp d' pos' acc and D inp d'' pos'' acc'
    arbitrary: v p and vs q and kvs r rule: bparse_value_bparse_list_bparse_dict.induct)
  case (1 D inp depth pos)
  note IH = "1.IH" and prem = "1.prems" [unfolded bparse_value.simps [of D inp depth pos]]
  from prem obtain b where d: "depth \<le> max_depth D" and b: "get_opt inp pos = Some b"
    by (auto split: if_splits option.splits)
  then have bp: "pos < length inp" "inp ! pos = b" by (auto simp: opt_iffs)
  consider "b = 0x69" | "b = 0x6c" | "b = 0x64" | "b \<noteq> 0x69" "b \<noteq> 0x6c" "b \<noteq> 0x64" by blast
  then show ?case
  proof cases
    case 1
    then show ?thesis using prem d b by (auto dest: bparse_int_sound)
  next
    case 2
    with prem d b obtain ws where l: "bparse_list D inp depth (pos + 1) [] = Inr (ws, p)" and v: "v = BList ws"
      by (auto split: prod.splits)
    obtain s where s: "bwf_items D (depth + 1) ws" "length ws \<le> max_list D" "pos + 1 < p" "p \<le> length inp"
      "bencodes_items ws s" "bslice inp (pos + 1) p = s @ [0x65]"
      using IH(1) [OF _ b _ 2 l] d 2 by auto
    then have "bslice inp pos p = [0x6c] @ s @ [0x65]"
      using bslice_cut [of pos pos p inp] bp 2 by simp
    then show ?thesis
      using v d s bencodes_bencodes_items_bencodes_entries.list [OF s(5)] by simp
  next
    case 3
    with prem d b obtain ws where l: "bparse_dict D inp depth (pos + 1) [] = Inr (ws, p)" and v: "v = BDict ws"
      by (auto split: prod.splits)
    obtain s where s: "bwf_entries D (depth + 1) ws" "length ws \<le> max_dict D" "keys_ok D [] (map fst ws)"
      "pos + 1 < p" "p \<le> length inp" "bencodes_entries ws s" "bslice inp (pos + 1) p = s @ [0x65]"
      using IH(2) [OF _ b _ _ 3 l] d 3 by auto
    then have "bslice inp pos p = [0x64] @ s @ [0x65]"
      using bslice_cut [of pos pos p inp] bp 3 by simp
    then show ?thesis
      using v d s bencodes_bencodes_items_bencodes_entries.dict [OF s(6)] by simp
  next
    case 4
    with prem d b obtain w where "bparse_bytes inp pos = Inr (w, p)" "v = BBytes w"
      by (auto split: if_splits prod.splits)
    then show ?thesis using d bparse_bytes_sound [of inp pos w p]
      by (auto intro: bencodes_bencodes_items_bencodes_entries.intros)
  qed
next
  case (2 D inp depth pos acc)
  note prem = "2.prems" [unfolded bparse_list.simps [of D inp depth pos]]
  show ?case
  proof (cases "get_opt inp pos = Some 0x65")
    case True
    then have "vs = acc" "q = pos + 1" "pos < length inp" "bslice inp pos q = [0x65]"
      using prem(1) by (auto simp: opt_iffs bslice_single)
    then show ?thesis using prem(2,3) by (auto intro: items_Nil)
  next
    case False
    then obtain w p where w: "bparse_value D inp (depth + 1) pos = Inr (w, p)"
      and l: "bparse_list D inp depth p (acc @ [w]) = Inr (vs, q)" and n: "length acc < max_list D"
      using prem(1) by (auto split: if_splits prod.splits)
    have w': "bwf D (depth + 1) w" "pos < p" "p \<le> length inp" "bencodes w (bslice inp pos p)"
      using "2.IH"(1) [OF False _ w] n by auto
    from "2.IH"(2) [OF False _ w refl l] w' n prem(2)
    obtain ws s where s: "bwf_items D (depth + 1) vs" "length vs \<le> max_list D" "p < q" "q \<le> length inp"
      "vs = (acc @ [w]) @ ws" "bencodes_items ws s" "bslice inp p q = s @ [0x65]"
      by (auto simp: bwf_items_append)
    then have "bslice inp pos q = (bslice inp pos p @ s) @ [0x65]"
      using bslice_split [of pos p q inp] w' by simp
    then show ?thesis using s w' items_Cons [OF w'(4) s(6)] by auto
  qed
next
  case (3 D inp depth pos acc)
  note prem = "3.prems" [unfolded bparse_dict.simps [of D inp depth pos]]
  show ?case
  proof (cases "get_opt inp pos = Some 0x65")
    case True
    then have "kvs = acc" "r = pos + 1" "pos < length inp" "bslice inp pos r = [0x65]"
      using prem(1) by (auto simp: opt_iffs bslice_single)
    then show ?thesis using prem(2,3,4) by (auto intro: entries_Nil)
  next
    case False
    then obtain k m w p where k: "bparse_bytes inp pos = Inr (k, m)" and ko: "key_ok D (map fst acc) k"
      and w: "bparse_value D inp (depth + 1) m = Inr (w, p)"
      and l: "bparse_dict D inp depth p (acc @ [(k, w)]) = Inr (kvs, r)" and n: "length acc < max_dict D"
      using prem(1) by (auto split: if_splits prod.splits)
    have k': "pos < m" "m \<le> length inp" "bslice inp pos m = bstr k" using bparse_bytes_sound [OF k] by auto
    have w': "bwf D (depth + 1) w" "m < p" "p \<le> length inp" "bencodes w (bslice inp m p)"
      using "3.IH"(1) [OF False _ k refl _ w] n ko by auto
    have kk: "keys_ok D [] (map fst (acc @ [(k, w)]))" using prem(4) ko by (simp add: keys_ok_append)
    from "3.IH"(2) [OF False _ k refl _ w refl l] w' n prem(2) kk ko
    obtain ws s where s: "bwf_entries D (depth + 1) kvs" "length kvs \<le> max_dict D" "keys_ok D [] (map fst kvs)"
      "p < r" "r \<le> length inp" "kvs = (acc @ [(k, w)]) @ ws" "bencodes_entries ws s" "bslice inp p r = s @ [0x65]"
      by (auto simp: bwf_entries_append)
    then have "bslice inp pos r = (bstr k @ bslice inp m p @ s) @ [0x65]"
      using bslice_split [of pos m r inp] bslice_split [of m p r inp] w' k' by simp
    then show ?thesis using s w' k' entries_Cons [OF w'(4) s(7)] by auto
  qed
qed

subsection \<open>The reader's contract\<close>

text \<open>
  What the packet formats rely on: a reader for some dialect that reads canonical encodings
  back, accepts nothing outside the dialect and stays within the input.
\<close>

locale bencode_reader =
  fixes D :: bdialect
    and read :: "u8 list \<Rightarrow> nat \<Rightarrow> nat \<Rightarrow> (bencode_fault, bvalue \<times> nat) result"
  assumes read_encoded: "bwf D d v \<Longrightarrow> length (pre @ bencode v @ suf) < u64_limit \<Longrightarrow>
      read (pre @ bencode v @ suf) d (length pre) = Inr (v, length pre + length (bencode v))"
    and read_wf: "read inp d pos = Inr (v, p) \<Longrightarrow> bwf D d v"
    and read_span: "read inp d pos = Inr (v, p) \<Longrightarrow> pos < p \<and> p \<le> length inp"
    and read_text: "read inp d pos = Inr (v, p) \<Longrightarrow> bencodes v (bslice inp pos p)"
begin

lemma packet:
  assumes "bwf D d v" "length (bencode v) < u64_limit"
  shows "read (bencode v) d 0 = Inr (v, length (bencode v))"
  using read_encoded [of d v "[]" "[]"] assms by simp

lemma header:
  assumes "bwf D d v" "length (bencode v @ suf) < u64_limit"
  shows "read (bencode v @ suf) d 0 = Inr (v, length (bencode v))"
  using read_encoded [of d v "[]" suf] assms by simp

lemma prefix_free:
  assumes "bwf D d v" "bwf D d w" "length (bencode v @ s) < u64_limit" "bencode v @ s = bencode w @ t"
  shows "v = w \<and> s = t"
proof -
  have "read (bencode v @ s) d 0 = Inr (v, length (bencode v))" using assms(1,3) by (rule header)
  moreover have "read (bencode w @ t) d 0 = Inr (w, length (bencode w))"
    using assms(2,3,4) by (intro header) simp_all
  ultimately show ?thesis using assms(4) by simp
qed

lemma read_full:
  assumes "read inp d 0 = Inr (v, length inp)"
  shows "bencodes v inp"
  using read_text [OF assms] by (simp add: bslice_def)

end

lemma bencode_readerI: "bencode_reader D (bparse_value D)"
proof
  show "bparse_value D (pre @ bencode v @ suf) d (length pre) = Inr (v, length pre + length (bencode v))"
    if "bwf D d v" "length (pre @ bencode v @ suf) < u64_limit" for d v pre suf
    using bparse_encoded(1) [OF that(1) refl that(2)] .
qed (use bparse_sound(1) in blast)+

subsection \<open>Dictionaries\<close>

lemma dict_get_simps [simp]:
  "dict_get [] k = None"
  "dict_get ((k', v) # kvs) k = (if k' = k then Some v else dict_get kvs k)"
  by (simp_all add: dict_get_def)

lemma dict_get_append: "dict_get (xs @ ys) k = (case dict_get xs k of None \<Rightarrow> dict_get ys k | Some v \<Rightarrow> Some v)"
  by (induction xs) auto

lemma dict_get_mem: "dict_get kvs k = Some v \<Longrightarrow> (k, v) \<in> set kvs"
  by (induction kvs) (auto split: if_splits)

lemma bwf_entries_mem: "bwf_entries D d kvs \<Longrightarrow> (k, v) \<in> set kvs \<Longrightarrow> bwf D d v"
  by (induction kvs) auto

lemma bwf_items_mem: "bwf_items D d vs \<Longrightarrow> v \<in> set vs \<Longrightarrow> bwf D d v"
  by (induction vs) auto

lemma dict_int_i64: "bwf_entries D d kvs \<Longrightarrow> dict_int kvs k = Some i \<Longrightarrow> is_i64 i"
proof -
  assume wf: "bwf_entries D d kvs" and "dict_int kvs k = Some i"
  then obtain v where v: "dict_get kvs k = Some v" "as_int v = Some i"
    by (auto simp: dict_int_def bind_eq_Some_conv)
  then have "v = BInt i" by (cases v) auto
  with bwf_entries_mem [OF wf dict_get_mem [OF v(1)]] show ?thesis by simp
qed

inductive_cases bencodes_BDictE: "bencodes (BDict kvs) s"
inductive_cases bencodes_BBytesE: "bencodes (BBytes b) s"
inductive_cases bencodes_entries_ConsE: "bencodes_entries ((k, v) # kvs) s"

lemma bencodes_entries_mem:
  "bencodes_entries kvs t \<Longrightarrow> (k, v) \<in> set kvs \<Longrightarrow> \<exists>s. bencodes v s \<and> length s \<le> length t"
proof (induction kvs arbitrary: t)
  case (Cons kv kvs)
  then show ?case by (cases kv) (fastforce elim!: bencodes_entries_ConsE)
qed simp

lemma bencodes_dict_bytes_le:
  assumes "bencodes (BDict kvs) s" "dict_bytes kvs k = Some b"
  shows "length b \<le> length s"
proof -
  obtain t where t: "bencodes_entries kvs t" "length t \<le> length s" using assms(1) by (rule bencodes_BDictE) auto
  obtain v where "dict_get kvs k = Some v" "as_bytes v = Some b"
    using assms(2) by (auto simp: dict_bytes_def bind_eq_Some_conv)
  moreover from this(2) have "v = BBytes b" by (cases v) auto
  ultimately obtain u where u: "bencodes (BBytes b) u" "length u \<le> length t"
    using bencodes_entries_mem [OF t(1) dict_get_mem] by blast
  from u(1) have "length b \<le> length u" by (rule bencodes_BBytesE) (simp add: bstr_def)
  with u(2) t(2) show ?thesis by simp
qed

lemma bencode_entries_append: "bencode_entries (xs @ ys) = bencode_entries xs @ bencode_entries ys"
  by (induction xs) auto

lemmas bencode_defs = bencode.simps bencode_items.simps bencode_entries.simps bint_def bstr_def

lemma bencode_items_bytes: "bencode_items (map (\<lambda>a. BBytes (f a)) as) = concat (map (\<lambda>a. bstr (f a)) as)"
  by (induction as) auto

lemmas key_order = ascending_key_def byte_simps of_char_def

end
