(* ===== verification/Utf8.thy ===== *)
theory Utf8
  imports Bytes
begin

text \<open>
  The UTF-8 part of \<open>str\<close>: validation (\<open>str::from_utf8\<close>), replacement decoding
  (\<open>String::from_utf8_lossy\<close>), iteration over characters, control and white-space classes and
  \<open>trim\<close>. A text is split into maximal well-formed characters and maximal ill-formed
  sequences, by the byte table of the Unicode standard that the standard library follows.
\<close>

definition is_cont :: "u8 \<Rightarrow> bool" where
  "is_cont b \<longleftrightarrow> 0x80 \<le> b \<and> b \<le> 0xbf"

text \<open>Whether the second byte is admissible after the given first byte of three or four.\<close>

definition second_ok :: "u8 \<Rightarrow> u8 \<Rightarrow> bool" where
  "second_ok a b \<longleftrightarrow>
     (if a = 0xe0 then 0xa0 \<le> b \<and> b \<le> 0xbf
      else if a = 0xed then 0x80 \<le> b \<and> b \<le> 0x9f
      else if a = 0xf0 then 0x90 \<le> b \<and> b \<le> 0xbf
      else if a = 0xf4 then 0x80 \<le> b \<and> b \<le> 0x8f
      else is_cont b)"

definition char_width :: "u8 \<Rightarrow> nat" where
  "char_width a =
     (if a \<le> 0x7f then 1
      else if 0xc2 \<le> a \<and> a \<le> 0xdf then 2
      else if 0xe0 \<le> a \<and> a \<le> 0xef then 3
      else if 0xf0 \<le> a \<and> a \<le> 0xf4 then 4
      else 0)"

text \<open>One step: whether a character starts here, and how many bytes are taken.\<close>

definition utf8_step :: "u8 \<Rightarrow> u8 list \<Rightarrow> bool \<times> nat" where
  "utf8_step a r =
     (let w = char_width a in
      if w = 0 then (False, 1)
      else if w = 1 then (True, 1)
      else if r = [] \<or> \<not> (if w = 2 then is_cont (r ! 0) else second_ok a (r ! 0)) then (False, 1)
      else if w = 2 then (True, 2)
      else if length r < 2 \<or> \<not> is_cont (r ! 1) then (False, 2)
      else if w = 3 then (True, 3)
      else if length r < 3 \<or> \<not> is_cont (r ! 2) then (False, 3)
      else (True, 4))"

lemma utf8_step_bounds: "utf8_step a r = (v, n) \<Longrightarrow> 1 \<le> n \<and> n \<le> Suc (length r)"
  by (auto simp: utf8_step_def Let_def not_less neq_Nil_conv split: if_splits)

function utf8_chunks :: "u8 list \<Rightarrow> (bool \<times> u8 list) list" where
  "utf8_chunks [] = []"
| "utf8_chunks (a # r) =
     (let (v, n) = utf8_step a r in (v, take n (a # r)) # utf8_chunks (drop n (a # r)))"
  by pat_completeness auto
termination
proof (relation "measure length", goal_cases)
  case (2 a r x v n)
  then have "1 \<le> n" using utf8_step_bounds [of a r v n] by simp
  then show ?case by (cases n) (simp_all add: less_Suc_eq_le)
qed simp

declare utf8_chunks.simps(2) [simp del]

definition from_utf8 :: "u8 list \<Rightarrow> str option" where
  "from_utf8 bs = (if list_all fst (utf8_chunks bs) then Some bs else None)"

definition from_utf8_lossy :: "u8 list \<Rightarrow> str" where
  "from_utf8_lossy bs = concat (map (\<lambda>(v, c). if v then c else [0xef, 0xbf, 0xbd]) (utf8_chunks bs))"

definition chars :: "str \<Rightarrow> u8 list list" where
  "chars s = map snd (utf8_chunks s)"

definition is_control :: "u8 list \<Rightarrow> bool" where
  "is_control c \<longleftrightarrow>
     (\<exists>b. c = [b] \<and> (b < 0x20 \<or> b = 0x7f)) \<or> (\<exists>b. c = [0xc2, b] \<and> 0x80 \<le> b \<and> b \<le> 0x9f)"

lemma is_control_code [code]:
  "is_control c =
     (case c of [b] \<Rightarrow> b < 0x20 \<or> b = 0x7f | [a, b] \<Rightarrow> a = 0xc2 \<and> 0x80 \<le> b \<and> b \<le> 0x9f | _ \<Rightarrow> False)"
  by (auto simp: is_control_def split: list.splits)

definition is_whitespace :: "u8 list \<Rightarrow> bool" where
  "is_whitespace c \<longleftrightarrow>
     c \<in> set ([[0x09], [0x0a], [0x0b], [0x0c], [0x0d], [0x20], [0xc2, 0x85], [0xc2, 0xa0],
       [0xe1, 0x9a, 0x80], [0xe2, 0x80, 0xa8], [0xe2, 0x80, 0xa9], [0xe2, 0x80, 0xaf],
       [0xe2, 0x81, 0x9f], [0xe3, 0x80, 0x80]])
     \<or> (\<exists>b. c = [0xe2, 0x80, b] \<and> 0x80 \<le> b \<and> b \<le> 0x8a)"

lemma is_whitespace_code [code]:
  "is_whitespace c =
     (List.member [[0x09], [0x0a], [0x0b], [0x0c], [0x0d], [0x20], [0xc2, 0x85], [0xc2, 0xa0],
       [0xe1, 0x9a, 0x80], [0xe2, 0x80, 0xa8], [0xe2, 0x80, 0xa9], [0xe2, 0x80, 0xaf],
       [0xe2, 0x81, 0x9f], [0xe3, 0x80, 0x80]] c
      \<or> (case c of [x, y, b] \<Rightarrow> x = 0xe2 \<and> y = 0x80 \<and> 0x80 \<le> b \<and> b \<le> 0x8a | _ \<Rightarrow> False))"
  by (auto simp: is_whitespace_def split: list.splits)

definition trim :: "str \<Rightarrow> str" where
  "trim s = concat (rev (dropWhile is_whitespace (rev (dropWhile is_whitespace (chars s)))))"

lemma utf8_chunks_concat: "concat (map snd (utf8_chunks bs)) = bs"
proof (induction bs rule: utf8_chunks.induct)
  case (2 a r)
  obtain v n where vn: "utf8_step a r = (v, n)" by fastforce
  with 2 show ?case by (simp add: utf8_chunks.simps(2))
qed simp

lemma chars_concat [simp]: "concat (chars s) = s"
  by (simp add: chars_def utf8_chunks_concat)

lemma from_utf8_Some_iff: "from_utf8 bs = Some s \<longleftrightarrow> s = bs \<and> list_all fst (utf8_chunks bs)"
  by (auto simp: from_utf8_def)

lemma lossy_valid: "from_utf8 bs = Some s \<Longrightarrow> from_utf8_lossy bs = bs"
proof -
  assume "from_utf8 bs = Some s"
  then have "\<forall>x \<in> set (utf8_chunks bs). fst x" by (auto simp: from_utf8_Some_iff list_all_iff)
  then have "map (\<lambda>(v, c). if v then c else [0xef, 0xbf, 0xbd]) (utf8_chunks bs) = map snd (utf8_chunks bs)"
    by (auto simp: case_prod_beta)
  then show ?thesis unfolding from_utf8_lossy_def by (simp only: utf8_chunks_concat)
qed

lemma utf8_chunks_ascii: "\<forall>b \<in> set bs. b \<le> 0x7f \<Longrightarrow> utf8_chunks bs = map (\<lambda>b. (True, [b])) bs"
  by (induction bs) (simp_all add: utf8_chunks.simps(2) utf8_step_def char_width_def)

lemma from_utf8_ascii: "\<forall>b \<in> set bs. b \<le> 0x7f \<Longrightarrow> from_utf8 bs = Some bs"
  by (simp add: from_utf8_def utf8_chunks_ascii list_all_iff)

lemma chars_ascii: "\<forall>b \<in> set bs. b \<le> 0x7f \<Longrightarrow> chars bs = map (\<lambda>b. [b]) bs"
  by (simp add: chars_def utf8_chunks_ascii)

lemma utf8_step_append: "utf8_step a r = (True, n) \<Longrightarrow> utf8_step a (r @ s) = (True, n)"
  by (cases r) (auto simp: utf8_step_def Let_def nth_append split: if_splits)

lemma utf8_chunks_append:
  "list_all fst (utf8_chunks a) \<Longrightarrow> utf8_chunks (a @ b) = utf8_chunks a @ utf8_chunks b"
proof (induction a rule: utf8_chunks.induct)
  case (2 a r)
  obtain v n where vn: "utf8_step a r = (v, n)" by fastforce
  then have v: "v" "list_all fst (utf8_chunks (drop n (a # r)))" using 2(2) by (simp_all add: utf8_chunks.simps(2))
  have le: "n \<le> length (a # r)" using utf8_step_bounds [OF vn] by simp
  have "utf8_chunks ((a # r) @ b) = (v, take n (a # r @ b)) # utf8_chunks (drop n (a # r @ b))"
    using utf8_step_append [of a r n b] vn v(1) by (simp add: utf8_chunks.simps(2))
  also have "take n (a # r @ b) = take n (a # r)" using le take_append [of n "a # r" b] by simp
  also have "drop n (a # r @ b) = drop n (a # r) @ b" using le drop_append [of n "a # r" b] by simp
  finally show ?case using 2(1) [OF vn [symmetric] refl v(2)] vn by (simp add: utf8_chunks.simps(2))
qed simp

lemma from_utf8_append: "from_utf8 a = Some a \<Longrightarrow> from_utf8 b = Some b \<Longrightarrow> from_utf8 (a @ b) = Some (a @ b)"
  by (simp add: from_utf8_def utf8_chunks_append split: if_splits)

end
