(* ===== verification/Metainfo.thy ===== *)
theory Metainfo
  imports Bencode Utf8
begin

text \<open>
  \<open>crates/nova-torrent-core/src/metainfo.rs\<close>: the v1 torrent file. The SHA-1 and URL crates
  are parameters (\<open>sha1\<close>, \<open>url_parse\<close>), and so is \<open>str::to_lowercase\<close>, whose Unicode tables
  are not reproduced (\<open>lower\<close>). The theorems show that an accepted torrent has a contiguous
  file layout, the right piece count and safe paths, that its info hash is the digest of the
  exact info bytes, and that \<open>map_range\<close> cuts any payload range into file slices that hold
  exactly that range.
\<close>

subsection \<open>Data\<close>

definition MAX_METAINFO_BYTES :: nat where "MAX_METAINFO_BYTES = 32 * 1024 * 1024"
definition MAX_PIECE_LENGTH_BYTES :: nat where "MAX_PIECE_LENGTH_BYTES = 64 * 1024 * 1024"
definition MAX_BENCODE_DEPTH :: nat where "MAX_BENCODE_DEPTH = 64"
definition MAX_CONTAINER_ITEMS :: nat where "MAX_CONTAINER_ITEMS = 1000000"

type_synonym info_hash = "u8 list"

record url =
  scheme :: str
  host_str :: "str option"
  username :: str
  password :: "str option"
  query_pairs :: "(str \<times> str) list"

record torrent_file =
  f_path :: str
  f_length :: nat
  f_offset :: nat

record file_slice =
  s_file_index :: nat
  s_file_offset :: nat
  s_data_offset :: nat
  s_length :: nat

record torrent_metainfo =
  m_info_hash :: info_hash
  m_name :: str
  m_piece_length :: nat
  m_piece_hashes :: "u8 list list"
  m_files :: "torrent_file list"
  m_total_length :: nat
  m_trackers :: "str list"
  m_tracker_tiers :: "str list list"
  m_private :: bool

datatype TorrentMetainfoError =
    TooLarge nat nat
  | InvalidBencode bencode_fault
  | MissingField string
  | InvalidField string str
  | UnsupportedMetaVersion int
  | UnsafePath str
  | InvalidTracker str
  | LengthOverflow
  | PieceCountMismatch nat nat
  | PieceOutOfRange nat nat
  | PieceLengthMismatch nat nat nat
  | RangeOutsidePayload nat nat nat

definition HEX :: "u8 list" where
  "HEX = lit ''0123456789abcdef''"

definition to_hex :: "info_hash \<Rightarrow> str" where
  "to_hex h = concat (map (\<lambda>b. [HEX ! unat (drop_bit 4 b), HEX ! unat (and b 0x0f)]) h)"

subsection \<open>The bencode dialect\<close>

definition metainfo_dialect :: bdialect where
  "metainfo_dialect =
     \<lparr>max_depth = MAX_BENCODE_DEPTH, max_list = MAX_CONTAINER_ITEMS,
      max_dict = MAX_CONTAINER_ITEMS, key_ok = ascending_key\<rparr>"

text \<open>An unterminated integer ends the scan and fails in \<open>expect_byte\<close>, at the end of input.\<close>

fun metainfo_fault :: "bencode_fault \<Rightarrow> TorrentMetainfoError" where
  "metainfo_fault UnterminatedInteger = InvalidBencode UnexpectedEnd"
| "metainfo_fault f = InvalidBencode f"

definition metainfo_parse_int :: "u8 list \<Rightarrow> nat \<Rightarrow> (bencode_fault, int \<times> nat) result" where
  "metainfo_parse_int = bparse_int"

definition metainfo_parse_bytes :: "u8 list \<Rightarrow> nat \<Rightarrow> (bencode_fault, u8 list \<times> nat) result" where
  "metainfo_parse_bytes = bparse_bytes"

definition metainfo_parse_value :: "u8 list \<Rightarrow> nat \<Rightarrow> nat \<Rightarrow> (bencode_fault, bvalue \<times> nat) result" where
  "metainfo_parse_value = bparse_value metainfo_dialect"

definition metainfo_parse_list ::
  "u8 list \<Rightarrow> nat \<Rightarrow> nat \<Rightarrow> bvalue list \<Rightarrow> (bencode_fault, bvalue list \<times> nat) result" where
  "metainfo_parse_list = bparse_list metainfo_dialect"

definition metainfo_parse_dict ::
  "u8 list \<Rightarrow> nat \<Rightarrow> nat \<Rightarrow> (u8 list \<times> bvalue) list \<Rightarrow>
   (bencode_fault, (u8 list \<times> bvalue) list \<times> nat) result" where
  "metainfo_parse_dict = bparse_dict metainfo_dialect"

function top_level_loop ::
  "u8 list \<Rightarrow> nat \<Rightarrow> (u8 list \<times> bvalue) list \<Rightarrow> (nat \<times> nat) option \<Rightarrow>
   (bencode_fault, (u8 list \<times> bvalue) list \<times> (nat \<times> nat) option \<times> nat) result" where
  "top_level_loop inp pos entries info_range =
     (if get_opt inp pos = Some 0x65 then Inr (entries, info_range, pos)
      else if MAX_CONTAINER_ITEMS \<le> length entries then Inl DictTooLarge
      else rbind (metainfo_parse_bytes inp pos) (\<lambda>(key, start).
        if \<not> ascending_key (map fst entries) key then Inl BadKeyOrder
        else rbind (metainfo_parse_value inp 1 start) (\<lambda>(value, stop).
        if key = lit ''info'' then
          (if info_range \<noteq> None then Inl DuplicateInfo
           else top_level_loop inp stop (entries @ [(key, value)]) (Some (start, stop)))
        else top_level_loop inp stop (entries @ [(key, value)]) info_range)))"
  by pat_completeness auto
termination
  by (relation "measure (\<lambda>(inp, pos, entries, r). MAX_CONTAINER_ITEMS - length entries)") auto

declare top_level_loop.simps [simp del]

definition parse_top_level ::
  "u8 list \<Rightarrow> (TorrentMetainfoError, (u8 list \<times> bvalue) list \<times> nat \<times> nat) result" where
  "parse_top_level inp =
     (if get_opt inp 0 \<noteq> Some 0x64 then Inl (InvalidBencode NotADictionary)
      else rbind (map_err metainfo_fault (top_level_loop inp 1 [] None)) (\<lambda>(entries, info_range, pos).
      rbind (map_err metainfo_fault (expect 0x65 inp pos)) (\<lambda>pos'.
      if pos' \<noteq> length inp then Inl (InvalidBencode TrailingData)
      else rbind (ok_or (MissingField ''info'') info_range) (\<lambda>r. Inr (entries, r)))))"

subsection \<open>Names and paths\<close>

definition is_windows_reserved_component :: "str \<Rightarrow> bool" where
  "is_windows_reserved_component value =
     (let stem = map to_ascii_uppercase (takeWhile (\<lambda>b. b \<noteq> 0x2e) value) in
      List.member [lit ''CON'', lit ''PRN'', lit ''AUX'', lit ''NUL'', lit ''CLOCK$'',
        lit ''CONIN$'', lit ''CONOUT$''] stem
      \<or> (length stem = 4 \<and> (take 3 stem = lit ''COM'' \<or> take 3 stem = lit ''LPT'')
          \<and> 0x31 \<le> stem ! 3 \<and> stem ! 3 \<le> 0x39))"

definition unsafe_component :: "str \<Rightarrow> bool" where
  "unsafe_component value \<longleftrightarrow>
     value = [] \<or> value = lit ''.'' \<or> value = lit ''..''
     \<or> hd value = 0x2f \<or> hd value = 0x5c
     \<or> 0x2f \<in> set value \<or> 0x5c \<in> set value \<or> 0x3a \<in> set value
     \<or> list_ex is_control (chars value)
     \<or> last value = 0x20 \<or> last value = 0x2e
     \<or> is_windows_reserved_component value"

definition decode_component :: "u8 list \<Rightarrow> string \<Rightarrow> (TorrentMetainfoError, str) result" where
  "decode_component bytes fld =
     rbind (ok_or (InvalidField fld (lit ''path/name must be valid UTF-8'')) (from_utf8 bytes)) (\<lambda>value.
     if unsafe_component value then Inl (UnsafePath value) else Inr value)"

fun join :: "str list \<Rightarrow> str" where
  "join [] = []"
| "join [x] = x"
| "join (x # y # ys) = x @ [0x2f] @ join (y # ys)"

definition u64_try_from :: "int \<Rightarrow> nat option" where
  "u64_try_from i = (if i < 0 then None else Some (nat i))"

definition parse_file_entry ::
  "str \<Rightarrow> bvalue \<Rightarrow> (TorrentMetainfoError, str \<times> nat) result" where
  "parse_file_entry name value =
     rbind (ok_or (InvalidField ''info.files[]'' (lit ''file entry must be a dictionary''))
       (as_dict value)) (\<lambda>file.
     rbind (ok_or (MissingField ''info.files[].length'') (dict_int file (lit ''length''))) (\<lambda>length_i64.
     rbind (ok_or (InvalidField ''info.files[].length'' (lit ''file length cannot be negative''))
       (u64_try_from length_i64)) (\<lambda>length.
     rbind (ok_or (MissingField ''info.files[].path'')
       (Option.bind (dict_get file (lit ''path'')) as_list)) (\<lambda>path_values.
     if path_values = [] then Inl (UnsafePath (lit ''file path cannot be empty''))
     else rbind (mapM_r (\<lambda>component.
         rbind (ok_or (InvalidField ''info.files[].path[]'' (lit ''path component must be a byte string''))
           (as_bytes component)) (\<lambda>b. decode_component b ''info.files[].path[]'')) path_values) (\<lambda>components.
     Inr (join (name # components), length))))))"

fun parse_files_loop ::
  "str \<Rightarrow> bvalue list \<Rightarrow> nat \<Rightarrow> torrent_file list \<Rightarrow>
   (TorrentMetainfoError, torrent_file list \<times> nat) result" where
  "parse_files_loop name [] offset parsed = Inr (parsed, offset)"
| "parse_files_loop name (value # values) offset parsed =
     rbind (parse_file_entry name value) (\<lambda>(path, length).
     rbind (ok_or LengthOverflow (checked_add64 offset length)) (\<lambda>offset'.
     parse_files_loop name values offset'
       (parsed @ [\<lparr>f_path = path, f_length = length, f_offset = offset\<rparr>])))"

definition parse_files ::
  "(u8 list \<times> bvalue) list \<Rightarrow> str \<Rightarrow> (TorrentMetainfoError, torrent_file list \<times> nat) result" where
  "parse_files info name =
     (case (dict_int info (lit ''length''), Option.bind (dict_get info (lit ''files'')) as_list) of
        (Some len, None) \<Rightarrow>
          rbind (ok_or (InvalidField ''info.length'' (lit ''file length cannot be negative''))
            (u64_try_from len)) (\<lambda>n.
          Inr ([\<lparr>f_path = name, f_length = n, f_offset = 0\<rparr>], n))
      | (None, Some files) \<Rightarrow>
          if files = [] then
            Inl (InvalidField ''info.files'' (lit ''multi-file torrent must contain at least one file''))
          else parse_files_loop name files 0 []
      | (Some _, Some _) \<Rightarrow>
          Inl (InvalidField ''info'' (lit ''torrent cannot contain both length and files''))
      | (None, None) \<Rightarrow> Inl (MissingField ''info.length or info.files''))"

definition strip_prefix :: "'a list \<Rightarrow> 'a list \<Rightarrow> 'a list option" where
  "strip_prefix p s = (if take (length p) s = p then Some (drop (length p) s) else None)"

definition colliding :: "str \<Rightarrow> str \<Rightarrow> bool" where
  "colliding previous current \<longleftrightarrow>
     current = previous
     \<or> (case strip_prefix previous current of None \<Rightarrow> False | Some suffix \<Rightarrow> suffix \<noteq> [] \<and> hd suffix = 0x2f)"

fun check_windows :: "str list \<Rightarrow> (TorrentMetainfoError, unit) result" where
  "check_windows (p # c # rest) =
     (if colliding p c
      then Inl (UnsafePath (lit ''colliding torrent output paths: '' @ p @ lit '' and '' @ c))
      else check_windows (c # rest))"
| "check_windows _ = Inr ()"

definition validate_output_paths ::
  "(str \<Rightarrow> str) \<Rightarrow> torrent_file list \<Rightarrow> (TorrentMetainfoError, unit) result" where
  "validate_output_paths lower files = check_windows (sort (map (\<lambda>f. lower (f_path f)) files))"

subsection \<open>Trackers\<close>

definition parse_tracker_url ::
  "(str \<Rightarrow> url option) \<Rightarrow> u8 list \<Rightarrow> (TorrentMetainfoError, str) result" where
  "parse_tracker_url url_parse raw =
     rbind (ok_or (InvalidField ''announce'' (lit ''tracker URL must be valid UTF-8'')) (from_utf8 raw)) (\<lambda>tracker.
     rbind (ok_or (InvalidTracker tracker) (url_parse tracker)) (\<lambda>parsed.
     if \<not> List.member [lit ''http'', lit ''https'', lit ''udp''] (scheme parsed) \<or> host_str parsed = None
     then Inl (InvalidTracker tracker) else Inr tracker))"

fun tier_loop ::
  "(str \<Rightarrow> url option) \<Rightarrow> bvalue list \<Rightarrow> str list \<Rightarrow> (TorrentMetainfoError, str list) result" where
  "tier_loop url_parse [] tier = Inr tier"
| "tier_loop url_parse (value # values) tier =
     (case as_bytes value of
        None \<Rightarrow> tier_loop url_parse values tier
      | Some bytes \<Rightarrow>
          rbind (parse_tracker_url url_parse bytes) (\<lambda>tracker.
          tier_loop url_parse values (if List.member tier tracker then tier else tier @ [tracker])))"

definition parse_tier ::
  "(str \<Rightarrow> url option) \<Rightarrow> bvalue \<Rightarrow> (TorrentMetainfoError, str list) result" where
  "parse_tier url_parse raw_tier =
     (case raw_tier of
        BList values \<Rightarrow> tier_loop url_parse values []
      | BBytes bytes \<Rightarrow> rbind (parse_tracker_url url_parse bytes) (\<lambda>t. Inr [t])
      | _ \<Rightarrow> Inr [])"

fun tiers_loop ::
  "(str \<Rightarrow> url option) \<Rightarrow> bvalue list \<Rightarrow> str list list \<Rightarrow> (TorrentMetainfoError, str list list) result" where
  "tiers_loop url_parse [] tiers = Inr tiers"
| "tiers_loop url_parse (raw_tier # rest) tiers =
     rbind (parse_tier url_parse raw_tier) (\<lambda>tier.
     tiers_loop url_parse rest (if tier = [] then tiers else tiers @ [tier]))"

fun push_new :: "str list \<Rightarrow> str list \<Rightarrow> str list" where
  "push_new out [] = out"
| "push_new out (t # ts) = push_new (if List.member out t then out else out @ [t]) ts"

definition parse_trackers ::
  "(str \<Rightarrow> url option) \<Rightarrow> (u8 list \<times> bvalue) list \<Rightarrow>
   (TorrentMetainfoError, str list \<times> str list list) result" where
  "parse_trackers url_parse root =
     rbind (case dict_bytes root (lit ''announce'') of
              None \<Rightarrow> Inr None
            | Some b \<Rightarrow> rbind (parse_tracker_url url_parse b) (\<lambda>t. Inr (Some t))) (\<lambda>announce.
     rbind (case Option.bind (dict_get root (lit ''announce-list'')) as_list of
              None \<Rightarrow> Inr []
            | Some raw_tiers \<Rightarrow> tiers_loop url_parse raw_tiers []) (\<lambda>tiers.
     let tiers' = (case announce of
           None \<Rightarrow> tiers
         | Some a \<Rightarrow> if tiers = [] then [[a]]
             else if \<not> List.member (concat tiers) a then [a] # tiers else tiers)
     in Inr (push_new [] (concat tiers'), tiers')))"

subsection \<open>Parsing a torrent file\<close>

definition parse_piece_length :: "(u8 list \<times> bvalue) list \<Rightarrow> (TorrentMetainfoError, nat) result" where
  "parse_piece_length info =
     rbind (ok_or (MissingField ''info.piece length'') (dict_int info (lit ''piece length''))) (\<lambda>i.
     rbind (ok_or (InvalidField ''info.piece length'' (lit ''piece length must be positive''))
       (u64_try_from i)) (\<lambda>piece_length.
     if piece_length = 0 then
       Inl (InvalidField ''info.piece length'' (lit ''piece length must be greater than zero''))
     else if MAX_PIECE_LENGTH_BYTES < piece_length then
       Inl (InvalidField ''info.piece length''
         (lit ''piece length exceeds '' @ nat_to_dec MAX_PIECE_LENGTH_BYTES @ lit '' byte safety limit''))
     else Inr piece_length))"

definition parse_piece_hashes :: "(u8 list \<times> bvalue) list \<Rightarrow> (TorrentMetainfoError, u8 list list) result" where
  "parse_piece_hashes info =
     rbind (ok_or (MissingField ''info.pieces'') (dict_bytes info (lit ''pieces''))) (\<lambda>piece_bytes.
     if piece_bytes = [] \<or> length piece_bytes mod 20 \<noteq> 0 then
       Inl (InvalidField ''info.pieces''
         (lit ''piece hash blob must contain one or more 20-byte SHA-1 hashes''))
     else Inr (chunks_exact 20 piece_bytes))"

definition parse_private :: "(u8 list \<times> bvalue) list \<Rightarrow> (TorrentMetainfoError, bool) result" where
  "parse_private info =
     (case dict_int info (lit ''private'') of
        None \<Rightarrow> Inr False
      | Some v \<Rightarrow> if v = 0 then Inr False else if v = 1 then Inr True
          else Inl (InvalidField ''info.private'' (lit ''expected 0 or 1, got '' @ int_to_dec v)))"

definition check_meta_version :: "(u8 list \<times> bvalue) list \<Rightarrow> (TorrentMetainfoError, unit) result" where
  "check_meta_version info =
     (case dict_int info (lit ''meta version'') of
        None \<Rightarrow> Inr ()
      | Some v \<Rightarrow> if v \<noteq> 1 then Inl (UnsupportedMetaVersion v) else Inr ())"

definition check_input_size :: "u8 list \<Rightarrow> (TorrentMetainfoError, unit) result" where
  "check_input_size bytes =
     (if bytes = [] then Inl (InvalidBencode EmptyInput)
      else if MAX_METAINFO_BYTES < length bytes then Inl (TooLarge (length bytes) MAX_METAINFO_BYTES)
      else Inr ())"

definition metainfo_parse ::
  "(u8 list \<Rightarrow> u8 list) \<Rightarrow> (str \<Rightarrow> url option) \<Rightarrow> (str \<Rightarrow> str) \<Rightarrow> u8 list \<Rightarrow>
   (TorrentMetainfoError, torrent_metainfo) result" where
  "metainfo_parse sha1 url_parse lower bytes =
     rbind (check_input_size bytes) (\<lambda>_.
     rbind (parse_top_level bytes) (\<lambda>(root, start, stop).
     rbind (ok_or (MissingField ''info'') (Option.bind (dict_get root (lit ''info'')) as_dict)) (\<lambda>info.
     rbind (check_meta_version info) (\<lambda>_.
     rbind (ok_or (InvalidBencode InvalidInfoSpan) (bslice_opt bytes start stop)) (\<lambda>raw_info.
     rbind (ok_or (MissingField ''info.name'') (dict_bytes info (lit ''name''))) (\<lambda>raw_name.
     rbind (decode_component raw_name ''info.name'') (\<lambda>name.
     rbind (parse_piece_length info) (\<lambda>piece_length.
     rbind (parse_piece_hashes info) (\<lambda>piece_hashes.
     rbind (parse_files info name) (\<lambda>(files, total_length).
     rbind (validate_output_paths lower files) (\<lambda>_.
     if total_length = 0 then
       Inl (InvalidField ''info.length/info.files'' (lit ''torrent payload must contain at least one byte''))
     else
     rbind (ok_or LengthOverflow (checked_add64 total_length (piece_length - 1))) (\<lambda>padded.
     let expected_piece_count = padded div piece_length in
     if length piece_hashes \<noteq> expected_piece_count then
       Inl (PieceCountMismatch expected_piece_count (length piece_hashes))
     else
     rbind (parse_trackers url_parse root) (\<lambda>(trackers, tracker_tiers).
     rbind (parse_private info) (\<lambda>private.
     Inr \<lparr>m_info_hash = sha1 raw_info, m_name = name, m_piece_length = piece_length,
          m_piece_hashes = piece_hashes, m_files = files, m_total_length = total_length,
          m_trackers = trackers, m_tracker_tiers = tracker_tiers, m_private = private\<rparr>))))))))))))))"

definition parse_with_info_bytes ::
  "(u8 list \<Rightarrow> u8 list) \<Rightarrow> (str \<Rightarrow> url option) \<Rightarrow> (str \<Rightarrow> str) \<Rightarrow> u8 list \<Rightarrow>
   (TorrentMetainfoError, torrent_metainfo \<times> u8 list) result" where
  "parse_with_info_bytes sha1 url_parse lower bytes =
     rbind (check_input_size bytes) (\<lambda>_.
     rbind (parse_top_level bytes) (\<lambda>(root, start, stop).
     rbind (ok_or (InvalidBencode InvalidInfoSpan) (bslice_opt bytes start stop)) (\<lambda>raw_info.
     rbind (metainfo_parse sha1 url_parse lower bytes) (\<lambda>metainfo.
     Inr (metainfo, raw_info)))))"

definition append_bencoded_bytes :: "u8 list \<Rightarrow> u8 list \<Rightarrow> u8 list" where
  "append_bencoded_bytes output bytes = output @ nat_to_dec (length bytes) @ [0x3a] @ bytes"

definition wrap_info_bytes :: "u8 list \<Rightarrow> str list \<Rightarrow> u8 list" where
  "wrap_info_bytes info_bytes trackers =
     (let bytes = [0x64];
          bytes = (case trackers of
              [] \<Rightarrow> bytes
            | first # _ \<Rightarrow>
                foldl append_bencoded_bytes
                  (append_bencoded_bytes (bytes @ lit ''8:announce'') first @ lit ''13:announce-listll'')
                  trackers @ lit ''ee'')
      in bytes @ lit ''4:info'' @ info_bytes @ [0x65])"

definition from_info_bytes ::
  "(u8 list \<Rightarrow> u8 list) \<Rightarrow> (str \<Rightarrow> url option) \<Rightarrow> (str \<Rightarrow> str) \<Rightarrow> u8 list \<Rightarrow> str list \<Rightarrow>
   (TorrentMetainfoError, torrent_metainfo) result" where
  "from_info_bytes sha1 url_parse lower info_bytes trackers =
     (if info_bytes = [] then Inl (InvalidBencode EmptyInput)
      else metainfo_parse sha1 url_parse lower (wrap_info_bytes info_bytes trackers))"

subsection \<open>Geometry\<close>

definition piece_count :: "torrent_metainfo \<Rightarrow> nat" where
  "piece_count m = length (m_piece_hashes m)"

definition piece_size :: "torrent_metainfo \<Rightarrow> nat \<Rightarrow> nat option" where
  "piece_size m index =
     (if piece_count m \<le> index then None
      else Option.bind (checked_mul64 index (m_piece_length m)) (\<lambda>start.
        Some (min (m_total_length m - start) (m_piece_length m))))"

definition verify_piece ::
  "(u8 list \<Rightarrow> u8 list) \<Rightarrow> torrent_metainfo \<Rightarrow> nat \<Rightarrow> u8 list \<Rightarrow> (TorrentMetainfoError, bool) result" where
  "verify_piece sha1 m index bytes =
     rbind (ok_or (PieceOutOfRange index (length (m_piece_hashes m))) (get_opt (m_piece_hashes m) index))
       (\<lambda>expected_hash.
     rbind (ok_or (PieceOutOfRange index (length (m_piece_hashes m))) (piece_size m index)) (\<lambda>expected_length.
     if length bytes \<noteq> expected_length then
       Inl (PieceLengthMismatch index expected_length (length bytes))
     else Inr (sha1 bytes = expected_hash)))"

text \<open>
  The loop over the files: \<open>i\<close> is the enumeration index, \<open>cursor\<close> and \<open>remaining\<close> the
  mutable variables, \<open>slices\<close> the output so far.
\<close>

fun map_range_loop ::
  "torrent_file list \<Rightarrow> nat \<Rightarrow> nat \<Rightarrow> nat \<Rightarrow> file_slice list \<Rightarrow>
   (TorrentMetainfoError, nat \<times> file_slice list) result" where
  "map_range_loop [] i cursor remaining slices = Inr (remaining, slices)"
| "map_range_loop (file # files) i cursor remaining slices =
     (if remaining = 0 then Inr (remaining, slices)
      else rbind (ok_or LengthOverflow (checked_add64 (f_offset file) (f_length file))) (\<lambda>file_end.
      if file_end \<le> cursor \<or> cursor < f_offset file
      then map_range_loop files (Suc i) cursor remaining slices
      else
        (let file_offset = cursor - f_offset file;
             available = f_length file - file_offset;
             take = min remaining available
         in if 0 < take
            then map_range_loop files (Suc i) (cursor + take) (remaining - take)
                   (slices @ [\<lparr>s_file_index = i, s_file_offset = file_offset,
                               s_data_offset = cursor, s_length = take\<rparr>])
            else map_range_loop files (Suc i) cursor remaining slices)))"

definition map_range ::
  "torrent_metainfo \<Rightarrow> nat \<Rightarrow> nat \<Rightarrow> (TorrentMetainfoError, file_slice list) result" where
  "map_range m data_offset len =
     (if len = 0 then Inr []
      else rbind (ok_or LengthOverflow (checked_add64 data_offset len)) (\<lambda>stop.
      if m_total_length m \<le> data_offset \<or> m_total_length m < stop
      then Inl (RangeOutsidePayload data_offset len (m_total_length m))
      else rbind (map_range_loop (m_files m) 0 data_offset len []) (\<lambda>(remaining, slices).
      if remaining \<noteq> 0 then Inl (RangeOutsidePayload data_offset len (m_total_length m))
      else Inr slices)))"

subsection \<open>File layout\<close>

fun layout_from :: "nat \<Rightarrow> torrent_file list \<Rightarrow> nat \<Rightarrow> bool" where
  "layout_from off [] tot = (off = tot)"
| "layout_from off (f # fs) tot = (f_offset f = off \<and> layout_from (off + f_length f) fs tot)"

definition safe_component :: "str \<Rightarrow> bool" where
  "safe_component c \<longleftrightarrow> from_utf8 c = Some c \<and> \<not> unsafe_component c"

definition safe_path :: "str \<Rightarrow> bool" where
  "safe_path p \<longleftrightarrow> (\<exists>cs. cs \<noteq> [] \<and> p = join cs \<and> (\<forall>c \<in> set cs. safe_component c))"

definition metainfo_wf :: "torrent_metainfo \<Rightarrow> bool" where
  "metainfo_wf m \<longleftrightarrow>
     0 < m_piece_length m \<and> m_piece_length m \<le> MAX_PIECE_LENGTH_BYTES
     \<and> layout_from 0 (m_files m) (m_total_length m)
     \<and> 0 < m_total_length m \<and> m_total_length m + (m_piece_length m - 1) < u64_limit
     \<and> piece_count m = div_ceil (m_total_length m) (m_piece_length m)
     \<and> (\<forall>h \<in> set (m_piece_hashes m). length h = 20)
     \<and> (\<forall>f \<in> set (m_files m). safe_path (f_path f))"

lemma layout_from_snoc:
  "layout_from a (fs @ [f]) b \<longleftrightarrow> layout_from a fs (f_offset f) \<and> f_offset f + f_length f = b"
  by (induction fs arbitrary: a) auto

lemma layout_from_le: "layout_from off fs tot \<Longrightarrow> off \<le> tot"
  by (induction fs arbitrary: off) fastforce+

lemma layout_from_mem_le: "layout_from off fs tot \<Longrightarrow> f \<in> set fs \<Longrightarrow> f_offset f + f_length f \<le> tot"
  by (induction fs arbitrary: off) (auto dest: layout_from_le)

lemma decode_component_safe: "decode_component b fld = Inr c \<Longrightarrow> safe_component c"
  by (auto simp: decode_component_def safe_component_def from_utf8_Some_iff split: if_splits)

lemma parse_file_entry_safe:
  assumes "parse_file_entry name value = Inr (path, n)" "safe_component name"
  shows "safe_path path"
proof -
  obtain vs cs where "mapM_r (\<lambda>component. rbind (ok_or (InvalidField ''info.files[].path[]''
        (lit ''path component must be a byte string'')) (as_bytes component))
        (\<lambda>b. decode_component b ''info.files[].path[]'')) vs = Inr cs"
    and p: "path = join (name # cs)"
    using assms(1) by (auto simp: parse_file_entry_def split: if_splits)
  then have "\<forall>c \<in> set cs. safe_component c"
    by (auto simp: mapM_r_Inr_iff list_all2_conv_all_nth in_set_conv_nth dest!: decode_component_safe)
  with assms(2) show ?thesis unfolding safe_path_def p by (intro exI [of _ "name # cs"]) simp
qed

lemma parse_files_loop_layout:
  assumes "parse_files_loop name vals off parsed = Inr (fs, tot)"
    and "layout_from 0 parsed off" and "off < u64_limit"
  shows "layout_from 0 fs tot \<and> tot < u64_limit"
  using assms
proof (induction vals arbitrary: off parsed)
  case (Cons v vs)
  then show ?case by (auto simp: opt_iffs layout_from_snoc)
qed simp

lemma parse_files_loop_safe:
  assumes "parse_files_loop name vals off parsed = Inr (fs, tot)"
    and "\<forall>f \<in> set parsed. safe_path (f_path f)" and "safe_component name"
  shows "\<forall>f \<in> set fs. safe_path (f_path f)"
  using assms
proof (induction vals arbitrary: off parsed)
  case (Cons v vs)
  from Cons.prems(1) obtain p n where "parse_file_entry name v = Inr (p, n)"
    and rest: "parse_files_loop name vs (off + n) (parsed @ [\<lparr>f_path = p, f_length = n, f_offset = off\<rparr>]) = Inr (fs, tot)"
    by (auto simp: opt_iffs)
  then have "safe_path p" using parse_file_entry_safe Cons.prems(3) by blast
  with Cons.IH [OF rest] Cons.prems show ?case by simp
qed simp

lemma u64_try_from_i64: "u64_try_from i = Some n \<Longrightarrow> is_i64 i \<Longrightarrow> n < 2 ^ 63"
  by (auto simp: u64_try_from_def is_i64_def split: if_splits)

lemma parse_files_layout:
  assumes "parse_files info name = Inr (fs, tot)" and "bwf_entries D d info"
  shows "layout_from 0 fs tot"
proof -
  have z: "layout_from 0 [] 0" "(0::nat) < u64_limit" by (simp_all add: u64_limit_def)
  from assms show ?thesis
    by (auto simp: parse_files_def split: option.splits if_splits
        dest: parse_files_loop_layout [OF _ z])
qed

lemma parse_files_safe:
  assumes "parse_files info name = Inr (fs, tot)" and "safe_component name"
  shows "\<forall>f \<in> set fs. safe_path (f_path f)"
proof -
  have "safe_path name" unfolding safe_path_def by (rule exI [of _ "[name]"]) (simp add: assms(2))
  with assms show ?thesis
    by (auto simp: parse_files_def split: option.splits if_splits dest: parse_files_loop_safe)
qed

subsection \<open>An accepted torrent is well formed\<close>

lemma top_level_loop_invariant:
  assumes "\<And>s k v e es. metainfo_parse_value inp 1 s = Inr (v, e) \<Longrightarrow> P es \<Longrightarrow> P (es @ [(k, v)])"
  shows "top_level_loop inp pos entries r = Inr (entries', r', p) \<Longrightarrow> P entries \<Longrightarrow> P entries'"
  using assms
proof (induction inp pos entries r rule: top_level_loop.induct)
  case (1 inp pos entries r)
  note prem = "1.prems"(1) [unfolded top_level_loop.simps [of inp pos]]
  show ?case
  proof (cases "get_opt inp pos = Some 0x65")
    case True
    with prem 1 show ?thesis by simp
  next
    case False
    then obtain k s v e where k: "metainfo_parse_bytes inp pos = Inr (k, s)" "ascending_key (map fst entries) k"
      and v: "metainfo_parse_value inp 1 s = Inr (v, e)" and n: "\<not> MAX_CONTAINER_ITEMS \<le> length entries"
      using prem by (auto split: if_splits)
    have P: "P (entries @ [(k, v)])" using "1.prems"(3) [OF v "1.prems"(2)] .
    show ?thesis
    proof (cases "k = lit ''info''")
      case True
      then have "r = None" "top_level_loop inp e (entries @ [(k, v)]) (Some (s, e)) = Inr (entries', r', p)"
        using prem False n k v by (cases r; auto split: if_splits)+
      then show ?thesis using "1.IH"(1) [OF False n k(1) refl _ v refl True] k(2) P "1.prems"(3) by blast
    next
      case ni: False
      then have "top_level_loop inp e (entries @ [(k, v)]) r = Inr (entries', r', p)"
        using prem False n k v by (auto split: if_splits)
      then show ?thesis using "1.IH"(2) [OF False n k(1) refl _ v refl ni] k(2) P "1.prems"(3) by blast
    qed
  qed
qed

lemma parse_top_level_invariant:
  assumes "parse_top_level inp = Inr (root, r)" and "P []"
    and "\<And>s k v e es. metainfo_parse_value inp 1 s = Inr (v, e) \<Longrightarrow> P es \<Longrightarrow> P (es @ [(k, v)])"
  shows "P root"
proof -
  obtain r' p where "top_level_loop inp 1 [] None = Inr (root, r', p)"
    using assms(1) by (auto simp: parse_top_level_def split: if_splits)
  from top_level_loop_invariant [of inp P, OF _ this assms(2)] assms(3) show ?thesis by blast
qed

lemma parse_top_level_wf:
  assumes "parse_top_level inp = Inr (root, r)"
  shows "bwf_entries metainfo_dialect 1 root"
  using assms
proof (rule parse_top_level_invariant)
  show "bwf_entries metainfo_dialect 1 (es @ [(k, v)])"
    if "metainfo_parse_value inp 1 s = Inr (v, e)" "bwf_entries metainfo_dialect 1 es" for s k v e es
    using bparse_sound(1) [OF that(1) [unfolded metainfo_parse_value_def]] that(2)
    by (simp add: bwf_entries_append)
qed simp

lemma parse_top_level_text:
  assumes "parse_top_level inp = Inr (root, r)"
  shows "\<forall>(k, v) \<in> set root. \<exists>s. bencodes v s \<and> length s \<le> length inp"
  using assms
proof (rule parse_top_level_invariant)
  show "\<forall>(k, v) \<in> set (es @ [(k, v)]). \<exists>s. bencodes v s \<and> length s \<le> length inp"
    if v: "metainfo_parse_value inp 1 s = Inr (v, e)"
      and es: "\<forall>(k, v) \<in> set es. \<exists>s. bencodes v s \<and> length s \<le> length inp" for s k v e es
  proof -
    have "bencodes v (bslice inp s e)" using bparse_sound(1) [OF v [unfolded metainfo_parse_value_def]] by blast
    moreover have "length (bslice inp s e) \<le> length inp" by (simp add: bslice_def)
    ultimately show ?thesis using es by fastforce
  qed
qed simp

lemma parse_piece_length_bounds:
  "parse_piece_length info = Inr n \<Longrightarrow> 0 < n \<and> n \<le> MAX_PIECE_LENGTH_BYTES"
  by (auto simp: parse_piece_length_def split: if_splits)

lemma parse_piece_hashes_lengths:
  "parse_piece_hashes info = Inr hs \<Longrightarrow> \<forall>h \<in> set hs. length h = 20"
  by (auto simp: parse_piece_hashes_def split: if_splits dest: chunks_exact_lengths [THEN bspec])

lemma metainfo_parse_steps:
  assumes "metainfo_parse sha1 url_parse lower bytes = Inr m"
  obtains root start stop info where
    "check_input_size bytes = Inr ()"
    "parse_top_level bytes = Inr (root, start, stop)"
    "dict_get root (lit ''info'') = Some (BDict info)"
    "start \<le> stop" "stop \<le> length bytes" "m_info_hash m = sha1 (bslice bytes start stop)"
    "safe_component (m_name m)"
    "parse_piece_length info = Inr (m_piece_length m)"
    "parse_piece_hashes info = Inr (m_piece_hashes m)"
    "parse_files info (m_name m) = Inr (m_files m, m_total_length m)"
    "validate_output_paths lower (m_files m) = Inr ()"
    "0 < m_total_length m" "m_total_length m + (m_piece_length m - 1) < u64_limit"
    "length (m_piece_hashes m) = (m_total_length m + (m_piece_length m - 1)) div m_piece_length m"
    "parse_trackers url_parse root = Inr (m_trackers m, m_tracker_tiers m)"
    "parse_private info = Inr (m_private m)"
proof -
  have dictD: "as_dict v = Some kvs \<Longrightarrow> v = BDict kvs" for v kvs by (cases v) auto
  from assms show ?thesis
    by (auto simp: metainfo_parse_def Let_def opt_iffs bind_eq_Some_conv split: if_splits
        dest!: dictD decode_component_safe intro!: that)
qed

lemma metainfo_parse_wf:
  assumes "metainfo_parse sha1 url_parse lower bytes = Inr m"
  shows "metainfo_wf m"
proof -
  obtain root start stop info where
    root: "parse_top_level bytes = Inr (root, start, stop)" and info: "dict_get root (lit ''info'') = Some (BDict info)"
    and name: "safe_component (m_name m)"
    and pl: "parse_piece_length info = Inr (m_piece_length m)"
    and ph: "parse_piece_hashes info = Inr (m_piece_hashes m)"
    and fs: "parse_files info (m_name m) = Inr (m_files m, m_total_length m)"
    and tt: "0 < m_total_length m" "m_total_length m + (m_piece_length m - 1) < u64_limit"
    and cnt: "length (m_piece_hashes m) = (m_total_length m + (m_piece_length m - 1)) div m_piece_length m"
    using metainfo_parse_steps [OF assms] by metis
  have "bwf_entries metainfo_dialect 2 info"
    using bwf_entries_mem [OF parse_top_level_wf [OF root] dict_get_mem [OF info]]
    by (simp add: numeral_2_eq_2)
  then have "layout_from 0 (m_files m) (m_total_length m)" using parse_files_layout [OF fs] by blast
  moreover have "\<forall>f \<in> set (m_files m). safe_path (f_path f)" using parse_files_safe [OF fs name] .
  moreover have pl': "0 < m_piece_length m" "m_piece_length m \<le> MAX_PIECE_LENGTH_BYTES"
    using parse_piece_length_bounds [OF pl] by auto
  ultimately show ?thesis
    using tt cnt parse_piece_hashes_lengths [OF ph] div_ceil_eq [OF pl'(1), of "m_total_length m"]
    by (simp add: metainfo_wf_def piece_count_def)
qed

lemma parse_files_loop_length:
  "parse_files_loop name vals off parsed = Inr (fs, tot) \<Longrightarrow> length fs = length parsed + length vals"
proof (induction vals arbitrary: off parsed)
  case (Cons v vs)
  then show ?case by fastforce
qed simp

lemma metainfo_file_limit:
  assumes "metainfo_parse sha1 url_parse lower bytes = Inr m"
  shows "length (m_files m) \<le> MAX_CONTAINER_ITEMS"
proof -
  obtain root start stop info where root: "parse_top_level bytes = Inr (root, start, stop)"
    and info: "dict_get root (lit ''info'') = Some (BDict info)"
    and fs: "parse_files info (m_name m) = Inr (m_files m, m_total_length m)"
    using metainfo_parse_steps [OF assms] by metis
  have wf: "bwf_entries metainfo_dialect 2 info"
    using bwf_entries_mem [OF parse_top_level_wf [OF root] dict_get_mem [OF info]]
    by (simp add: numeral_2_eq_2)
  have "length vs \<le> MAX_CONTAINER_ITEMS" if "dict_get info (lit ''files'') = Some (BList vs)" for vs
    using bwf_entries_mem [OF wf dict_get_mem [OF that]] by (simp add: metainfo_dialect_def)
  then have files: "length vs \<le> MAX_CONTAINER_ITEMS"
    if "Option.bind (dict_get info (lit ''files'')) as_list = Some vs" for vs
    using that by (cases "dict_get info (lit ''files'')"; cases "the (dict_get info (lit ''files''))") auto
  have one: "Suc 0 \<le> MAX_CONTAINER_ITEMS" by (simp add: MAX_CONTAINER_ITEMS_def)
  from fs show ?thesis
    using one by (auto simp: parse_files_def split: option.splits if_splits dest!: parse_files_loop_length sym [of "[_]"] intro: files)
qed

text \<open>The input limit also bounds the number of pieces, far below the 32-bit piece index.\<close>

lemma metainfo_piece_limit:
  assumes "metainfo_parse sha1 url_parse lower bytes = Inr m"
  shows "20 * piece_count m \<le> MAX_METAINFO_BYTES"
proof -
  obtain root r info where size: "check_input_size bytes = Inr ()" and root: "parse_top_level bytes = Inr (root, r)"
    and info: "dict_get root (lit ''info'') = Some (BDict info)"
    and ph: "parse_piece_hashes info = Inr (m_piece_hashes m)"
    using metainfo_parse_steps [OF assms] by metis
  obtain b where b: "dict_bytes info (lit ''pieces'') = Some b" "20 * length (m_piece_hashes m) \<le> length b"
    using ph length_chunks_exact [of 20 "the (dict_bytes info (lit ''pieces''))"]
    by (auto simp: parse_piece_hashes_def split: if_splits)
  obtain s where s: "bencodes (BDict info) s" "length s \<le> length bytes"
    using parse_top_level_text [OF root] dict_get_mem [OF info] by blast
  have "length b \<le> length s" using bencodes_dict_bytes_le [OF s(1) b(1)] .
  with b(2) s(2) size show ?thesis by (auto simp: check_input_size_def piece_count_def split: if_splits)
qed

subsection \<open>Cutting a range into file slices\<close>

fun slices_tile :: "torrent_file list \<Rightarrow> nat \<Rightarrow> file_slice list \<Rightarrow> nat \<Rightarrow> bool" where
  "slices_tile fs start [] stop = (start = stop)"
| "slices_tile fs start (s # ss) stop =
     (s_data_offset s = start \<and> 0 < s_length s \<and> s_file_index s < length fs
      \<and> f_offset (fs ! s_file_index s) + s_file_offset s = start
      \<and> s_file_offset s + s_length s \<le> f_length (fs ! s_file_index s)
      \<and> slices_tile fs (start + s_length s) ss stop)"

lemma slices_tile_snoc:
  "slices_tile fs a (ss @ [s]) b \<longleftrightarrow>
     slices_tile fs a ss (s_data_offset s) \<and> slices_tile fs (s_data_offset s) [s] b"
  by (induction ss arbitrary: a) auto

lemma map_range_loop_done [simp]: "map_range_loop fs i c 0 ss = Inr (0, ss)"
  by (cases fs) auto

lemma map_range_loop_tiles:
  assumes "layout_from off fs tot" and "tot < u64_limit"
    and "off \<le> cursor" "cursor + remaining \<le> tot"
    and "all = pre @ fs" "i = length pre" and "slices_tile all start ss cursor"
  shows "\<exists>new. map_range_loop fs i cursor remaining ss = Inr (0, new)
            \<and> slices_tile all start new (cursor + remaining)"
  using assms
proof (induction fs arbitrary: off cursor remaining pre i ss)
  case Nil
  then have "remaining = 0" by simp
  with Nil show ?case by simp
next
  case (Cons f fs)
  then have lay: "layout_from (off + f_length f) fs tot" and off: "f_offset f = off" by auto
  have le: "off + f_length f \<le> tot" using layout_from_le [OF lay] .
  then have fin: "checked_add64 (f_offset f) (f_length f) = Some (off + f_length f)"
    using Cons.prems(2) off by (simp add: opt_iffs)
  show ?case
  proof (cases "remaining = 0")
    case True
    with Cons.prems show ?thesis by auto
  next
    case rem: False
    show ?thesis
    proof (cases "off + f_length f \<le> cursor")
      case True
      have "\<exists>new. map_range_loop fs (Suc i) cursor remaining ss = Inr (0, new)
          \<and> slices_tile all start new (cursor + remaining)"
        using Cons.prems True lay by (intro Cons.IH [of "off + f_length f" _ _ "pre @ [f]"]) auto
      with rem True fin show ?thesis by simp
    next
      case inside: False
      define k where "k = min remaining (f_length f - (cursor - off))"
      define s where "s = \<lparr>s_file_index = i, s_file_offset = cursor - off, s_data_offset = cursor, s_length = k\<rparr>"
      have k: "0 < k" "k \<le> remaining" "cursor - off + k \<le> f_length f"
        using rem inside Cons.prems(3) by (auto simp: k_def)
      have lt: "cursor - off < f_length f" using inside Cons.prems(3) by linarith
      have "all ! i = f" "i < length all" using Cons.prems by auto
      then have one: "slices_tile all cursor [s] (cursor + k)"
        using k off Cons.prems(3) by (simp add: s_def)
      have ss': "slices_tile all start (ss @ [s]) (cursor + k)"
        using one Cons.prems(7) by (simp add: slices_tile_snoc s_def)
      have step: "map_range_loop (f # fs) i cursor remaining ss
          = map_range_loop fs (Suc i) (cursor + k) (remaining - k) (ss @ [s])"
        using rem inside fin off Cons.prems(3) lt by (simp add: s_def k_def Let_def)
      show ?thesis
      proof (cases "k = remaining")
        case True
        then show ?thesis using step ss' by simp
      next
        case False
        then have "k = f_length f - (cursor - off)" by (simp add: k_def)
        then have "cursor + k = off + f_length f" using inside Cons.prems(3) by simp
        then have "\<exists>new. map_range_loop fs (Suc i) (cursor + k) (remaining - k) (ss @ [s]) = Inr (0, new)
            \<and> slices_tile all start new (cursor + k + (remaining - k))"
          using Cons.prems lay ss' k by (intro Cons.IH [of "off + f_length f" _ _ "pre @ [f]"]) auto
        with step k show ?thesis by simp
      qed
    qed
  qed
qed

lemma map_range_tiles:
  assumes "layout_from 0 (m_files m) (m_total_length m)" "m_total_length m < u64_limit"
    and "off + n \<le> m_total_length m"
  shows "\<exists>ss. map_range m off n = Inr ss \<and> slices_tile (m_files m) off ss (off + n)"
proof (cases "n = 0")
  case True
  then show ?thesis by (simp add: map_range_def)
next
  case False
  obtain new where "map_range_loop (m_files m) 0 off n [] = Inr (0, new)"
    "slices_tile (m_files m) off new (off + n)"
    using map_range_loop_tiles [OF assms(1,2), of off n "m_files m" "[]" 0 off "[]"] assms(3) by auto
  moreover have "checked_add64 off n = Some (off + n)" using assms by (simp add: opt_iffs)
  ultimately show ?thesis using False assms(3) by (simp add: map_range_def)
qed

text \<open>The bytes a slice denotes, over the contents of the files.\<close>

definition slice_data :: "u8 list list \<Rightarrow> file_slice \<Rightarrow> u8 list" where
  "slice_data contents s =
     bslice (contents ! s_file_index s) (s_file_offset s) (s_file_offset s + s_length s)"

lemma bslice_append_left: "j \<le> length xs \<Longrightarrow> bslice (xs @ ys) i j = bslice xs i j"
  by (simp add: bslice_def)

lemma bslice_append_right: "length xs \<le> i \<Longrightarrow> bslice (xs @ ys) i j = bslice ys (i - length xs) (j - length xs)"
  by (cases "i \<le> j") (simp_all add: bslice_def)

lemma layout_payload:
  assumes "layout_from off fs tot" "list_all2 (\<lambda>f c. length c = f_length f) fs cs"
    and "i < length fs" "a \<le> b" "b \<le> f_length (fs ! i)"
  shows "off \<le> f_offset (fs ! i) \<and> bslice (concat cs) (f_offset (fs ! i) - off + a) (f_offset (fs ! i) - off + b)
          = bslice (cs ! i) a b"
  using assms
proof (induction fs arbitrary: off cs i)
  case (Cons f fs)
  then obtain c cs' where cs: "cs = c # cs'" "length c = f_length f"
    "list_all2 (\<lambda>f c. length c = f_length f) fs cs'"
    by (auto simp: list_all2_Cons1)
  show ?case
  proof (cases i)
    case 0
    with Cons.prems cs show ?thesis by (simp add: bslice_append_left)
  next
    case (Suc j)
    have IH: "off + f_length f \<le> f_offset (fs ! j)"
      "bslice (concat cs') (f_offset (fs ! j) - (off + f_length f) + a) (f_offset (fs ! j) - (off + f_length f) + b)
        = bslice (cs' ! j) a b"
      using Cons.IH [of "off + f_length f" cs' j] Cons.prems cs Suc by auto
    then have "f_offset (fs ! j) - off + a - length c = f_offset (fs ! j) - (off + f_length f) + a"
      "f_offset (fs ! j) - off + b - length c = f_offset (fs ! j) - (off + f_length f) + b"
      "length c \<le> f_offset (fs ! j) - off + a"
      using cs(2) by auto
    with IH cs Suc show ?thesis by (simp add: bslice_append_right)
  qed
qed simp

lemma length_concat_layout:
  "layout_from off fs tot \<Longrightarrow> list_all2 (\<lambda>f c. length c = f_length f) fs cs \<Longrightarrow> length (concat cs) = tot - off"
proof (induction fs arbitrary: off cs)
  case (Cons f fs)
  then obtain c cs' where "cs = c # cs'" "length c = f_length f" "length (concat cs') = tot - (off + f_length f)"
    by (auto simp: list_all2_Cons1)
  with Cons.prems show ?case by (auto dest: layout_from_le)
qed simp

lemma slices_tile_le: "slices_tile fs a ss b \<Longrightarrow> a \<le> b"
  by (induction ss arbitrary: a) fastforce+

lemma slices_tile_data:
  assumes "layout_from 0 fs tot" "list_all2 (\<lambda>f c. length c = f_length f) fs cs"
    and "slices_tile fs start ss stop" "stop \<le> tot"
  shows "concat (map (slice_data cs) ss) = bslice (concat cs) start stop"
  using assms(3)
proof (induction ss arbitrary: start)
  case (Cons s ss)
  let ?mid = "start + s_length s"
  have s: "s_file_index s < length fs" "f_offset (fs ! s_file_index s) + s_file_offset s = start"
    "s_file_offset s + s_length s \<le> f_length (fs ! s_file_index s)" and tl: "slices_tile fs ?mid ss stop"
    using Cons.prems by auto
  have "bslice (concat cs) start ?mid = slice_data cs s"
    using layout_payload [OF assms(1,2) s(1), of "s_file_offset s" "s_file_offset s + s_length s"] s(2,3)
    by (auto simp: slice_data_def add.assoc [symmetric])
  moreover have "length (concat cs) = tot" using length_concat_layout [OF assms(1,2)] by simp
  moreover have "?mid \<le> stop" using slices_tile_le [OF tl] .
  ultimately show ?case
    using Cons.IH [OF tl] bslice_split [of start ?mid stop "concat cs"] assms(4) by simp
qed simp

subsection \<open>Pieces\<close>

lemma piece_size_wf:
  assumes "metainfo_wf m" "i < piece_count m"
  shows "piece_size m i = Some (min (m_total_length m - i * m_piece_length m) (m_piece_length m))"
    and "i * m_piece_length m < m_total_length m"
proof -
  have pl: "0 < m_piece_length m" and cnt: "piece_count m = div_ceil (m_total_length m) (m_piece_length m)"
    and lim: "m_total_length m < u64_limit" using assms(1) by (auto simp: metainfo_wf_def)
  show lt: "i * m_piece_length m < m_total_length m" using less_div_ceil_iff [OF pl] cnt assms(2) by simp
  then have "checked_mul64 i (m_piece_length m) = Some (i * m_piece_length m)" using lim by (simp add: opt_iffs)
  then show "piece_size m i = Some (min (m_total_length m - i * m_piece_length m) (m_piece_length m))"
    using assms(2) by (simp add: piece_size_def)
qed

lemma piece_size_prefix_sum:
  assumes "metainfo_wf m" "n \<le> piece_count m"
  shows "(\<Sum>i<n. the (piece_size m i)) = min (n * m_piece_length m) (m_total_length m)"
  using assms(2)
proof (induction n)
  case (Suc n)
  then have "piece_size m n = Some (min (m_total_length m - n * m_piece_length m) (m_piece_length m))"
    "n * m_piece_length m < m_total_length m"
    using piece_size_wf [OF assms(1), of n] by simp_all
  with Suc show ?case by simp
qed simp

lemma piece_range_in_payload:
  assumes "metainfo_wf m" "piece_size m i = Some n"
  shows "i < piece_count m" "i * m_piece_length m + n \<le> m_total_length m" "0 < n" "n \<le> m_piece_length m"
proof -
  show i: "i < piece_count m" using assms(2) by (auto simp: piece_size_def split: if_splits)
  have "0 < m_piece_length m" using assms(1) by (simp add: metainfo_wf_def)
  with piece_size_wf [OF assms(1) i] assms(2)
  show "i * m_piece_length m + n \<le> m_total_length m" "0 < n" "n \<le> m_piece_length m" by auto
qed

subsection \<open>The info hash\<close>

interpretation metainfo_reader: bencode_reader metainfo_dialect metainfo_parse_value
  unfolding metainfo_parse_value_def by (rule bencode_readerI)

lemma top_level_loop_step:
  assumes inp: "inp = pre @ bstr k @ bencode v @ suf" and len: "length inp < u64_limit"
    and wf: "bwf metainfo_dialect 1 v" and k: "ascending_key (map fst entries) k"
    and n: "length entries < MAX_CONTAINER_ITEMS" and r: "k = lit ''info'' \<longrightarrow> r = None"
  shows "top_level_loop inp (length pre) entries r =
     top_level_loop inp (length (pre @ bstr k @ bencode v)) (entries @ [(k, v)])
       (if k = lit ''info''
        then Some (length (pre @ bstr k), length (pre @ bstr k) + length (bencode v)) else r)"
proof -
  obtain b t where b: "bstr k = b # t" "is_ascii_digit b" using bstr_Cons by blast
  then have "get_opt inp (length pre) \<noteq> Some 0x65" using inp by (auto simp: is_ascii_digit_def)
  moreover have "metainfo_parse_bytes inp (length pre) = Inr (k, length pre + length (bstr k))"
    unfolding metainfo_parse_bytes_def using inp len by (intro bparse_bytes_at) simp_all
  moreover have "metainfo_parse_value inp 1 (length pre + length (bstr k))
      = Inr (v, length pre + length (bstr k) + length (bencode v))"
    using metainfo_reader.read_encoded [OF wf, of "pre @ bstr k" suf] inp len by simp
  ultimately show ?thesis
    using k n r by (subst top_level_loop.simps) (auto simp: add.assoc)
qed

lemma top_level_loop_end:
  assumes "inp = pre @ 0x65 # suf"
  shows "top_level_loop inp (length pre) entries r = Inr (entries, r, length pre)"
  using assms by (subst top_level_loop.simps) simp

definition tracker_entries :: "str list \<Rightarrow> (u8 list \<times> bvalue) list" where
  "tracker_entries trackers =
     (case trackers of
        [] \<Rightarrow> []
      | first # _ \<Rightarrow> [(lit ''announce'', BBytes first),
          (lit ''announce-list'', BList [BList (map BBytes trackers)])])"

lemma append_bencoded_bytes_bstr: "append_bencoded_bytes out b = out @ bstr b"
  by (simp add: append_bencoded_bytes_def bstr_def)

lemma foldl_append_bencoded:
  "foldl append_bencoded_bytes out ts = out @ bencode_items (map BBytes ts)"
  by (induction ts arbitrary: out) (simp_all add: append_bencoded_bytes_bstr)

lemma ascending_key_Nil [simp]: "ascending_key [] k"
  by (simp add: ascending_key_def)

lemma bstr_keys:
  "bstr (lit ''announce'') = lit ''8:announce''"
  "bstr (lit ''announce-list'') = lit ''13:announce-list''"
  "bstr (lit ''info'') = lit ''4:info''"
  by (simp_all add: bstr_def lit_def nat_to_dec.simps)

lemma wrap_info_bytes_eq:
  "wrap_info_bytes (bencode v) trackers = bencode (BDict (tracker_entries trackers @ [(lit ''info'', v)]))"
proof -
  have ll: "lit ''13:announce-listll'' = lit ''13:announce-list'' @ [0x6c, 0x6c]"
    "lit ''ee'' = [0x65, 0x65]" by (simp_all add: lit_def)
  show ?thesis
    by (cases trackers)
      (simp_all add: wrap_info_bytes_def tracker_entries_def foldl_append_bencoded
        append_bencoded_bytes_bstr bstr_keys ll Let_def)
qed

lemma bwf_items_BBytes: "d \<le> max_depth D \<Longrightarrow> bwf_items D d (map BBytes ts)"
  by (induction ts) simp_all

lemma tracker_entries_wf:
  assumes "length trackers \<le> MAX_CONTAINER_ITEMS"
  shows "bwf_entries metainfo_dialect 1 (tracker_entries trackers)"
  using assms bwf_items_BBytes [of 3 metainfo_dialect trackers]
  by (cases trackers) (auto simp: tracker_entries_def metainfo_dialect_def MAX_BENCODE_DEPTH_def
      MAX_CONTAINER_ITEMS_def numeral_3_eq_3)

lemma announce_ascending:
  "ascending_key [lit ''announce''] (lit ''announce-list'')"
  "ascending_key [lit ''announce'', lit ''announce-list''] (lit ''info'')"
  by (simp_all add: ascending_key_def lit_def)

lemma parse_top_level_wrapped:
  fixes v trackers
  defines "kvs \<equiv> tracker_entries trackers"
  defines "inp \<equiv> wrap_info_bytes (bencode v) trackers"
  assumes wf: "bwf metainfo_dialect 1 v" and len: "length inp < u64_limit"
    and tr: "length trackers \<le> MAX_CONTAINER_ITEMS"
  shows "parse_top_level inp = Inr (kvs @ [(lit ''info'', v)],
           length ([0x64] @ bencode_entries kvs @ bstr (lit ''info'')),
           length ([0x64] @ bencode_entries kvs @ bstr (lit ''info'')) + length (bencode v))"
proof -
  let ?ik = "lit ''info''"
  have inp': "inp = ([0x64] @ bencode_entries kvs) @ bstr ?ik @ bencode v @ [0x65]"
    by (simp add: inp_def wrap_info_bytes_eq kvs_def bencode_entries_append)
  have max: "3 < MAX_CONTAINER_ITEMS" by (simp add: MAX_CONTAINER_ITEMS_def)
  have kwf: "bwf_entries metainfo_dialect 1 kvs" using tracker_entries_wf [OF tr] kvs_def by simp
  have pre: "top_level_loop inp (length [0x64 :: u8]) [] None
      = top_level_loop inp (length ([0x64] @ bencode_entries kvs)) kvs None"
  proof (cases trackers)
    case Nil
    then show ?thesis by (simp add: kvs_def tracker_entries_def)
  next
    case (Cons t ts)
    let ?tl = "BList [BList (map BBytes trackers)]"
    have kvs: "kvs = [(lit ''announce'', BBytes t), (lit ''announce-list'', ?tl)]"
      using Cons by (simp add: kvs_def tracker_entries_def)
    have s1: "inp = [0x64] @ bstr (lit ''announce'') @ bencode (BBytes t)
        @ (bstr (lit ''announce-list'') @ bencode ?tl @ bstr ?ik @ bencode v @ [0x65])"
      using inp' kvs by simp
    have s2: "inp = ([0x64] @ bstr (lit ''announce'') @ bencode (BBytes t))
        @ bstr (lit ''announce-list'') @ bencode ?tl @ (bstr ?ik @ bencode v @ [0x65])"
      using s1 by simp
    have "top_level_loop inp (length [0x64 :: u8]) [] None
        = top_level_loop inp (length ([0x64] @ bstr (lit ''announce'') @ bencode (BBytes t)))
            [(lit ''announce'', BBytes t)] None"
      using top_level_loop_step [OF s1 len, of "[]" None] kwf kvs max by (simp add: ascending_key_def)
    also have "\<dots> = top_level_loop inp
        (length (([0x64] @ bstr (lit ''announce'') @ bencode (BBytes t)) @ bstr (lit ''announce-list'') @ bencode ?tl))
        kvs None"
      using top_level_loop_step [OF s2 len, of "[(lit ''announce'', BBytes t)]" None] kwf kvs max
      by (simp add: announce_ascending)
    finally show ?thesis using kvs by simp
  qed
  have asc: "ascending_key (map fst kvs) ?ik"
    by (cases trackers) (simp_all add: kvs_def tracker_entries_def announce_ascending)
  have n: "length kvs < MAX_CONTAINER_ITEMS"
    using max by (cases trackers) (simp_all add: kvs_def tracker_entries_def)
  have "top_level_loop inp (length ([0x64] @ bencode_entries kvs)) kvs None
      = top_level_loop inp (length (([0x64] @ bencode_entries kvs) @ bstr ?ik @ bencode v)) (kvs @ [(?ik, v)])
          (Some (length (([0x64] @ bencode_entries kvs) @ bstr ?ik),
                 length (([0x64] @ bencode_entries kvs) @ bstr ?ik) + length (bencode v)))"
    using top_level_loop_step [OF inp' len wf asc n, of None] by simp
  also have "\<dots> = Inr (kvs @ [(?ik, v)],
      Some (length (([0x64] @ bencode_entries kvs) @ bstr ?ik),
            length (([0x64] @ bencode_entries kvs) @ bstr ?ik) + length (bencode v)),
      length (([0x64] @ bencode_entries kvs) @ bstr ?ik @ bencode v))"
    by (rule top_level_loop_end [where suf = "[]"]) (simp add: inp')
  finally have loop: "top_level_loop inp 1 [] None = \<dots>" using pre by simp
  have "get_opt inp 0 = Some 0x64" using inp' by (simp add: get_opt_def)
  moreover have "expect 0x65 inp (length (([0x64] @ bencode_entries kvs) @ bstr ?ik @ bencode v)) = Inr (length inp)"
    by (simp add: expect_Inr_iff inp' nth_append)
  ultimately show ?thesis unfolding parse_top_level_def loop by simp
qed

lemma wrapped_info_slice:
  "bslice (wrap_info_bytes (bencode v) trackers)
     (length ([0x64] @ bencode_entries (tracker_entries trackers) @ bstr (lit ''info'')))
     (length ([0x64] @ bencode_entries (tracker_entries trackers) @ bstr (lit ''info'')) + length (bencode v))
   = bencode v"
  using bslice_append_exact [of "[0x64] @ bencode_entries (tracker_entries trackers) @ bstr (lit ''info'')"
      "bencode v" "[0x65]"]
  by (simp add: wrap_info_bytes_eq bencode_entries_append)

subsection \<open>Output paths\<close>

lemma check_windows_strict: "check_windows ps = Inr () \<Longrightarrow> sorted ps \<Longrightarrow> distinct ps"
proof (induction ps rule: check_windows.induct)
  case (1 p c rest)
  then have nc: "\<not> colliding p c" and ok: "check_windows (c # rest) = Inr ()" by (auto split: if_splits)
  have "p \<noteq> c" using nc by (auto simp: colliding_def)
  have d: "distinct (c # rest)" using "1.IH" [OF nc ok] "1.prems"(2) by simp
  have "p \<notin> set (c # rest)"
  proof
    assume "p \<in> set (c # rest)"
    then have "c \<le> p" using "1.prems"(2) by auto
    moreover have "p \<le> c" using "1.prems"(2) by simp
    ultimately show False using \<open>p \<noteq> c\<close> by simp
  qed
  with d show ?case by simp
qed simp_all

subsection \<open>A sample torrent\<close>

text \<open>A two-file torrent of eight bytes, for the concrete instances of the properties.\<close>

definition sample_info :: bvalue where
  "sample_info = BDict
     [(lit ''files'', BList
        [BDict [(lit ''length'', BInt 3), (lit ''path'', BList [BBytes (lit ''a'')])],
         BDict [(lit ''length'', BInt 5), (lit ''path'', BList [BBytes (lit ''b'')])]]),
      (lit ''name'', BBytes (lit ''n'')), (lit ''piece length'', BInt 4),
      (lit ''pieces'', BBytes (replicate 40 0))]"

definition sample_bytes :: "u8 list" where
  "sample_bytes = wrap_info_bytes (bencode sample_info) []"

definition sample_meta :: torrent_metainfo where
  "sample_meta = \<lparr>m_info_hash = replicate 20 7, m_name = lit ''n'', m_piece_length = 4,
     m_piece_hashes = [replicate 20 0, replicate 20 0],
     m_files = [\<lparr>f_path = lit ''n/a'', f_length = 3, f_offset = 0\<rparr>, \<lparr>f_path = lit ''n/b'', f_length = 5, f_offset = 3\<rparr>],
     m_total_length = 8, m_trackers = [], m_tracker_tiers = [], m_private = False\<rparr>"

lemma sample_info_wf: "bwf metainfo_dialect 1 sample_info"
  by (simp add: sample_info_def metainfo_dialect_def MAX_BENCODE_DEPTH_def MAX_CONTAINER_ITEMS_def
      is_i64_def ascending_key_def lit_def)

lemma sample_info_length: "length (bencode sample_info) = 137"
  by (simp add: sample_info_def bint_def bstr_def int_to_dec_def nat_to_dec.simps)

lemma sample_bytes_length: "length sample_bytes = 145"
  by (simp add: sample_bytes_def wrap_info_bytes_def sample_info_length)

lemma sample_component: 
  "decode_component (lit ''n'') f = Inr (lit ''n'')"
  "decode_component (lit ''a'') f = Inr (lit ''a'')"
  "decode_component (lit ''b'') f = Inr (lit ''b'')"
  by (simp_all add: decode_component_def lit_def from_utf8_ascii unsafe_component_def chars_ascii is_control_def
     is_windows_reserved_component_def to_ascii_uppercase_def is_ascii_lower_def)

lemma sample_top: "parse_top_level sample_bytes = Inr ([(lit ''info'', sample_info)], 7, 144)"
  using parse_top_level_wrapped [OF sample_info_wf, of "[]"] sample_bytes_length
  by (simp add: sample_bytes_def [symmetric] u64_limit_def MAX_CONTAINER_ITEMS_def tracker_entries_def
      bstr_keys sample_info_length)

lemma sample_parse: "metainfo_parse (\<lambda>_. replicate 20 7) (\<lambda>_. None) (\<lambda>s. s) sample_bytes = Inr sample_meta"
proof -
  have c: "check_input_size sample_bytes = Inr ()"
    using sample_bytes_length by (auto simp: check_input_size_def MAX_METAINFO_BYTES_def)
  have i: "dict_get [(lit ''info'', sample_info)] (lit ''info'') = Some sample_info" by simp
  have ch: "chunks_exact 20 (replicate 40 (0::u8)) = [replicate 20 0, replicate 20 0]"
    using chunks_exact_concat [of 20 "[replicate 20 (0::u8), replicate 20 0]"]
    by (simp add: replicate_add [symmetric])
  have j: "lit ''n'' @ 0x2f # lit ''a'' = lit ''n/a''" "lit ''n'' @ 0x2f # lit ''b'' = lit ''n/b''"
    by (simp_all add: lit_def)
  have p: "validate_output_paths (\<lambda>s. s) (m_files sample_meta) = Inr ()"
    by (simp add: validate_output_paths_def sample_meta_def colliding_def strip_prefix_def lit_def)
  show ?thesis
    unfolding metainfo_parse_def using p
    by (simp add: c sample_top i sample_info_def check_meta_version_def dict_int_def dict_bytes_def
      sample_component parse_piece_length_def u64_try_from_def MAX_PIECE_LENGTH_BYTES_def
      parse_piece_hashes_def ch parse_files_def parse_file_entry_def checked_add64_def u64_limit_def
      parse_trackers_def parse_private_def bslice_opt_def sample_bytes_length sample_meta_def j)
qed
subsection \<open>Properties\<close>

text \<open>C17: Every torrent that \<open>TorrentMetainfo::parse\<close> accepts is well formed: the piece length
  is between 1 and 64 MiB, the files follow each other without gap or overlap from offset 0 to
  the total length, there are exactly as many 20-byte piece hashes as pieces, every output path
  is a join of components that are valid UTF-8 and passed the path-safety test, and no two lower-cased output paths
  are equal.\<close>
theorem metainfo_parse_wellformed:
  assumes "metainfo_parse sha1 url_parse lower bytes = Inr m"
  shows "metainfo_wf m \<and> distinct (map (\<lambda>f. lower (f_path f)) (m_files m))"
proof -
  have "check_windows (sort (map (\<lambda>f. lower (f_path f)) (m_files m))) = Inr ()"
    using metainfo_parse_steps [OF assms] by (metis validate_output_paths_def)
  then have "distinct (sort (map (\<lambda>f. lower (f_path f)) (m_files m)))"
    by (rule check_windows_strict) simp
  with metainfo_parse_wf [OF assms] show ?thesis by simp
qed

theorem metainfo_parse_wellformed_witness:
  "metainfo_parse (\<lambda>_. replicate 20 7) (\<lambda>_. None) (\<lambda>s. s) sample_bytes = Inr sample_meta
   \<and> metainfo_wf sample_meta"
  using metainfo_parse_wellformed [OF sample_parse] sample_parse by simp

text \<open>C1: For every accepted torrent, \<open>map_range\<close> succeeds on every range inside the payload, its
  slices are non-empty, consecutive and within their files, and, for any file contents of the
  declared sizes, the bytes of the slices, in order, are exactly that range of the concatenated
  payload.\<close>
theorem map_range_exact:
  assumes "metainfo_parse sha1 url_parse lower bytes = Inr m"
    and "off + n \<le> m_total_length m"
    and "list_all2 (\<lambda>f c. length c = f_length f) (m_files m) contents"
  shows "\<exists>ss. map_range m off n = Inr ss \<and> slices_tile (m_files m) off ss (off + n)
           \<and> concat (map (slice_data contents) ss) = bslice (concat contents) off (off + n)"
proof -
  have lay: "layout_from 0 (m_files m) (m_total_length m)" and lim: "m_total_length m < u64_limit"
    using metainfo_parse_wf [OF assms(1)] by (auto simp: metainfo_wf_def)
  from map_range_tiles [OF lay lim assms(2)] slices_tile_data [OF lay assms(3) _ assms(2)]
  show ?thesis by blast
qed

theorem map_range_exact_witness:
  "\<exists>ss. map_range sample_meta 2 4 = Inr ss
      \<and> concat (map (slice_data [lit ''abc'', lit ''defgh'']) ss) = lit ''cdef''"
  using map_range_exact [OF sample_parse, of 2 4 "[lit ''abc'', lit ''defgh'']"]
  by (auto simp: sample_meta_def bslice_def lit_def)

text \<open>The pieces of an accepted torrent partition its payload: every piece has a size between
  1 and the piece length, piece \<open>i\<close> covers the range at \<open>i\<close> times the piece length inside the
  payload, and the sizes add up to the total length.\<close>
lemma pieces_partition_payload:
  assumes "metainfo_parse sha1 url_parse lower bytes = Inr m"
  shows "(\<Sum>i<piece_count m. the (piece_size m i)) = m_total_length m
    \<and> (\<forall>i<piece_count m. \<exists>n. piece_size m i = Some n \<and> 0 < n \<and> n \<le> m_piece_length m
          \<and> i * m_piece_length m + n \<le> m_total_length m)"
proof -
  note wf = metainfo_parse_wf [OF assms]
  then have "0 < m_piece_length m" "piece_count m = div_ceil (m_total_length m) (m_piece_length m)"
    by (auto simp: metainfo_wf_def)
  then have "m_total_length m \<le> piece_count m * m_piece_length m"
    using div_ceil_le_iff [of "m_piece_length m" "m_total_length m" "piece_count m"] by simp
  then have "(\<Sum>i<piece_count m. the (piece_size m i)) = m_total_length m"
    using piece_size_prefix_sum [OF wf, of "piece_count m"] by simp
  then show ?thesis using piece_size_wf(1) [OF wf] piece_range_in_payload [OF wf] by blast
qed

text \<open>Rebuilding a torrent from an info dictionary obtained through metadata exchange keeps
  its identity: when the info bytes are a bencoded value, the info hash of the result is the
  digest of exactly those bytes, whatever trackers are added around them.\<close>
lemma from_info_bytes_identity:
  assumes "from_info_bytes sha1 url_parse lower (bencode v) trackers = Inr m"
    and "bwf metainfo_dialect 1 v" and "length trackers \<le> MAX_CONTAINER_ITEMS"
  shows "m_info_hash m = sha1 (bencode v)"
proof -
  let ?b = "wrap_info_bytes (bencode v) trackers"
  have p: "metainfo_parse sha1 url_parse lower ?b = Inr m"
    using assms(1) by (auto simp: from_info_bytes_def split: if_splits)
  then obtain root start stop where size: "check_input_size ?b = Inr ()"
    and top: "parse_top_level ?b = Inr (root, start, stop)" and h: "m_info_hash m = sha1 (bslice ?b start stop)"
    by (rule metainfo_parse_steps) metis
  have "length ?b < u64_limit"
    using size by (auto simp: check_input_size_def MAX_METAINFO_BYTES_def u64_limit_def split: if_splits)
  from parse_top_level_wrapped [OF assms(2) this assms(3)] top h wrapped_info_slice [of v trackers]
  show ?thesis by auto
qed

text \<open>A torrent with a file \<open>x\<close>, a file \<open>z\<close> and a file \<open>y\<close> in a directory \<open>x\<close>, each of one byte.\<close>

definition crossed_info :: "str \<Rightarrow> str \<Rightarrow> str \<Rightarrow> str \<Rightarrow> bvalue" where
  "crossed_info name x z y = BDict
     [(lit ''files'', BList
        [BDict [(lit ''length'', BInt 1), (lit ''path'', BList [BBytes x])],
         BDict [(lit ''length'', BInt 1), (lit ''path'', BList [BBytes z])],
         BDict [(lit ''length'', BInt 1), (lit ''path'', BList [BBytes x, BBytes y])]]),
      (lit ''name'', BBytes name), (lit ''piece length'', BInt 4), (lit ''pieces'', BBytes (replicate 20 0))]"

definition crossed_bytes :: "str \<Rightarrow> str \<Rightarrow> str \<Rightarrow> str \<Rightarrow> u8 list" where
  "crossed_bytes name x z y = wrap_info_bytes (bencode (crossed_info name x z y)) []"

lemma crossed_info_wf: "bwf metainfo_dialect 1 (crossed_info name x z y)"
  by (simp add: crossed_info_def metainfo_dialect_def MAX_BENCODE_DEPTH_def MAX_CONTAINER_ITEMS_def
      is_i64_def ascending_key_def lit_def)

lemma crossed_top:
  assumes "length (crossed_bytes name x z y) \<le> MAX_METAINFO_BYTES"
  shows "\<exists>start stop raw. parse_top_level (crossed_bytes name x z y) = Inr ([(lit ''info'', crossed_info name x z y)], start, stop)
    \<and> bslice_opt (crossed_bytes name x z y) start stop = Some raw"
  using parse_top_level_wrapped [OF crossed_info_wf [of name x z y], of "[]"] assms
  by (auto simp: crossed_bytes_def u64_limit_def MAX_METAINFO_BYTES_def MAX_CONTAINER_ITEMS_def tracker_entries_def bslice_opt_def
      wrap_info_bytes_def bstr_keys)

lemma crossed_windows:
  assumes "c < 0x2f"
  shows "sort [p, p @ c # s, p @ 0x2f # r] = [p, p @ c # s, p @ 0x2f # r]"
    and "check_windows [p, p @ c # s, p @ 0x2f # r] = Inr ()"
    and "colliding p (p @ 0x2f # r)"
proof -
  have "p < p @ c # s" "p @ c # s < p @ 0x2f # r"
    using assms by (auto simp: list_less_def intro: lexord_append_rightI lexord_append_leftI)
  then show "sort [p, p @ c # s, p @ 0x2f # r] = [p, p @ c # s, p @ 0x2f # r]"
    by (intro sorted_sort_id) auto
  have "\<not> colliding (p @ c # s) (p @ 0x2f # r)" "\<not> colliding p (p @ c # s)"
    using assms by (auto simp: colliding_def strip_prefix_def)
  then show "check_windows [p, p @ c # s, p @ 0x2f # r] = Inr ()" by simp
  show "colliding p (p @ 0x2f # r)" by (simp add: colliding_def strip_prefix_def)
qed

text \<open>C40: The collision test on output paths looks only at neighbours in byte order, and misses a file whose name is also
  a directory when another name sorts between them. Whatever the safe components \<open>name\<close>, \<open>x\<close> and \<open>y\<close>, and whatever follows
  \<open>x\<close> in a third one, as long as it begins with a byte below the slash, the parser accepts the torrent with the files
  \<open>x\<close>, \<open>x\<close> with that suffix, and \<open>x/y\<close>, in lower case, although the paths of the first and the last collide.\<close>
theorem output_path_collision_missed:
  assumes "c < 0x2f" "\<forall>component \<in> {name, x, x @ c # s, y}. \<forall>fld. decode_component component fld = Inr component"
    and "\<forall>components \<in> {[name, x], [name, x @ c # s], [name, x, y]}. lower (join components) = join components"
    and "length (crossed_bytes name x (x @ c # s) y) \<le> MAX_METAINFO_BYTES"
  shows "\<exists>m. metainfo_parse sha1 url_parse lower (crossed_bytes name x (x @ c # s) y) = Inr m
    \<and> map f_path (m_files m) = [join [name, x], join [name, x @ c # s], join [name, x, y]]
    \<and> colliding (join [name, x]) (join [name, x, y])"
proof -
  let ?z = "x @ c # s"
  let ?b = "crossed_bytes name x ?z y"
  let ?files = "[\<lparr>f_path = join [name, x], f_length = 1, f_offset = 0\<rparr>, \<lparr>f_path = join [name, ?z], f_length = 1, f_offset = 1\<rparr>,
    \<lparr>f_path = join [name, x, y], f_length = 1, f_offset = 2\<rparr>]"
  obtain start stop raw where top: "parse_top_level ?b = Inr ([(lit ''info'', crossed_info name x ?z y)], start, stop)"
    "bslice_opt ?b start stop = Some raw"
    using crossed_top [OF assms(4)] by blast
  have "0 < length ?b" by (simp add: crossed_bytes_def wrap_info_bytes_def)
  then have size: "check_input_size ?b = Inr ()" using assms(4) by (simp add: check_input_size_def)
  have i: "dict_get [(lit ''info'', crossed_info name x ?z y)] (lit ''info'') = Some (crossed_info name x ?z y)" by simp
  have hashes: "chunks_exact 20 (replicate 20 (0::u8)) = [replicate 20 0]"
    using chunks_exact_concat [of 20 "[replicate 20 (0::u8)]"] by simp
  note windows = crossed_windows(1,2) [OF assms(1), where p = "name @ 0x2f # x" and s = s and r = y]
    crossed_windows(3) [OF assms(1), where p = "name @ 0x2f # x" and r = y]
  have paths: "validate_output_paths lower ?files = Inr ()"
    using assms(3) windows(1,2) by (simp add: validate_output_paths_def)
  have components: "decode_component name f = Inr name" "decode_component x f = Inr x" "decode_component ?z f = Inr ?z"
    "decode_component y f = Inr y" for f
    using assms(2) by simp_all
  have "metainfo_parse sha1 url_parse lower ?b = Inr \<lparr>m_info_hash = sha1 raw, m_name = name, m_piece_length = 4,
      m_piece_hashes = [replicate 20 0], m_files = ?files, m_total_length = 3, m_trackers = [], m_tracker_tiers = [], m_private = False\<rparr>"
    unfolding metainfo_parse_def using paths [unfolded numeral_2_eq_2]
    by (simp add: size top i crossed_info_def check_meta_version_def dict_int_def dict_bytes_def
      components parse_piece_length_def u64_try_from_def MAX_PIECE_LENGTH_BYTES_def
      parse_piece_hashes_def hashes parse_files_def parse_file_entry_def checked_add64_def u64_limit_def
      parse_trackers_def parse_private_def)
  then show ?thesis using windows(3) by simp
qed

theorem output_path_collision_missed_witness:
  "\<exists>m. metainfo_parse (\<lambda>_. replicate 20 7) (\<lambda>_. None) (\<lambda>s. s) (crossed_bytes (lit ''n'') (lit ''x'') (lit ''x.txt'') (lit ''y'')) = Inr m
     \<and> map f_path (m_files m) = [lit ''n/x'', lit ''n/x.txt'', lit ''n/x/y'']"
proof -
  have name: "lit ''x'' @ 0x2e # lit ''txt'' = lit ''x.txt''" by (simp add: lit_def)
  have component: "decode_component (lit ''n'') f = Inr (lit ''n'')" "decode_component (lit ''x'') f = Inr (lit ''x'')"
    "decode_component (lit ''x.txt'') f = Inr (lit ''x.txt'')" "decode_component (lit ''y'') f = Inr (lit ''y'')" for f
    by (simp_all add: decode_component_def lit_def from_utf8_ascii unsafe_component_def chars_ascii is_control_def
       is_windows_reserved_component_def to_ascii_uppercase_def is_ascii_lower_def)
  have small: "length (crossed_bytes (lit ''n'') (lit ''x'') (lit ''x.txt'') (lit ''y'')) \<le> MAX_METAINFO_BYTES"
    by (simp add: crossed_bytes_def wrap_info_bytes_def crossed_info_def bint_def bstr_def int_to_dec_def nat_to_dec.simps MAX_METAINFO_BYTES_def)
  have paths: "join [lit ''n'', lit ''x''] = lit ''n/x''" "join [lit ''n'', lit ''x.txt''] = lit ''n/x.txt''"
    "join [lit ''n'', lit ''x'', lit ''y''] = lit ''n/x/y''"
    by (simp_all add: lit_def)
  have safe: "\<forall>component \<in> {lit ''n'', lit ''x'', lit ''x'' @ 0x2e # lit ''txt'', lit ''y''}. \<forall>fld. decode_component component fld = Inr component"
    unfolding name by (simp only: component ball_simps) simp
  show ?thesis
    using output_path_collision_missed [of "0x2e", OF _ safe, of "\<lambda>s. s" "\<lambda>_. replicate 20 7" "\<lambda>_. None"] small
    unfolding name paths by auto
qed

text \<open>The integer reader's canonicality test does not look at a plus sign, so \<open>i+5e\<close> and even
  \<open>i+05e\<close> are accepted and read as 5, although bencode has one encoding of each integer.\<close>
lemma plus_sign_accepted:
  "metainfo_parse_int (lit ''i+5e'') 0 = Inr (5, 4) \<and> metainfo_parse_int (lit ''i+05e'') 0 = Inr (5, 5)"
  by (simp add: metainfo_parse_int_def bparse_int_def expect_def get_opt_def lit_def scan.simps Let_def
      bslice_def non_canonical_int_def parse_i64_def is_ascii_digit_def dec_value_def dec_digit_def)

end
