(* ===== verification/Selection.thy ===== *)
theory Selection
  imports Metainfo
begin

text \<open>
  \<open>crates/nova-torrent-core/src/selection.rs\<close>: which files of a torrent are wanted, and what
  that means for each piece. The theorems say that a piece inherits the highest priority of the
  files it overlaps, and that a boundary piece is one that overlaps both a wanted and an
  unwanted file.
\<close>

datatype FilePriority = Skip | Normal | High

fun priority_rank :: "FilePriority \<Rightarrow> nat" where
  "priority_rank Skip = 0"
| "priority_rank Normal = 1"
| "priority_rank High = 2"

instantiation FilePriority :: linorder
begin

definition less_eq_FilePriority :: "FilePriority \<Rightarrow> FilePriority \<Rightarrow> bool" where
  "less_eq_FilePriority a b \<longleftrightarrow> priority_rank a \<le> priority_rank b"

definition less_FilePriority :: "FilePriority \<Rightarrow> FilePriority \<Rightarrow> bool" where
  "less_FilePriority a b \<longleftrightarrow> priority_rank a < priority_rank b"

instance
proof
  fix a b :: FilePriority
  show "a \<le> b \<Longrightarrow> b \<le> a \<Longrightarrow> a = b"
    by (cases a; cases b) (simp_all add: less_eq_FilePriority_def)
qed (auto simp: less_eq_FilePriority_def less_FilePriority_def)

end

definition is_selected :: "FilePriority \<Rightarrow> bool" where
  "is_selected p \<longleftrightarrow> p \<noteq> Skip"

record torrent_selection =
  priorities :: "FilePriority list"

datatype SelectionError =
    FileCountMismatch nat nat
  | NothingSelected
  | LengthOverflow
  | PieceOutOfRange nat nat
  | FileIndexOutOfRange nat
  | Metainfo TorrentMetainfoError

definition selection_all :: "torrent_metainfo \<Rightarrow> torrent_selection" where
  "selection_all m = \<lparr>priorities = replicate (length (m_files m)) Normal\<rparr>"

definition selection_new ::
  "torrent_metainfo \<Rightarrow> FilePriority list \<Rightarrow> (SelectionError, torrent_selection) result" where
  "selection_new m ps =
     (if length ps \<noteq> length (m_files m) then Inl (FileCountMismatch (length (m_files m)) (length ps))
      else if \<not> list_ex is_selected ps then Inl NothingSelected
      else Inr \<lparr>priorities = ps\<rparr>)"

definition file_priority :: "torrent_selection \<Rightarrow> nat \<Rightarrow> FilePriority option" where
  "file_priority sel index = get_opt (priorities sel) index"

definition selection_validate ::
  "torrent_selection \<Rightarrow> torrent_metainfo \<Rightarrow> (SelectionError, unit) result" where
  "selection_validate sel m =
     guard (length (priorities sel) \<noteq> length (m_files m))
       (FileCountMismatch (length (m_files m)) (length (priorities sel)))"

fun try_sum :: "(torrent_file \<times> FilePriority) list \<Rightarrow> nat \<Rightarrow> (SelectionError, nat) result" where
  "try_sum [] acc = Inr acc"
| "try_sum ((f, p) # rest) acc =
     (if is_selected p
      then rbind (ok_or SelectionError.LengthOverflow (checked_add64 acc (f_length f))) (try_sum rest)
      else try_sum rest acc)"

definition selected_bytes ::
  "torrent_selection \<Rightarrow> torrent_metainfo \<Rightarrow> (SelectionError, nat) result" where
  "selected_bytes sel m =
     rbind (selection_validate sel m) (\<lambda>_. try_sum (zip (m_files m) (priorities sel)) 0)"

text \<open>The slices of a piece, computed the same way by the two piece queries.\<close>

definition piece_slices ::
  "torrent_selection \<Rightarrow> torrent_metainfo \<Rightarrow> nat \<Rightarrow> (SelectionError, file_slice list) result" where
  "piece_slices sel m piece_index =
     rbind (selection_validate sel m) (\<lambda>_.
     rbind (ok_or (SelectionError.PieceOutOfRange piece_index (piece_count m)) (piece_size m piece_index)) (\<lambda>size.
     rbind (ok_or SelectionError.LengthOverflow (checked_mul64 piece_index (m_piece_length m))) (\<lambda>offset.
     map_err Metainfo (map_range m offset size))))"

fun max_priority :: "torrent_selection \<Rightarrow> file_slice list \<Rightarrow> FilePriority \<Rightarrow> (SelectionError, FilePriority) result" where
  "max_priority sel [] priority = Inr priority"
| "max_priority sel (s # ss) priority =
     rbind (ok_or (FileIndexOutOfRange (s_file_index s)) (file_priority sel (s_file_index s))) (\<lambda>current.
     max_priority sel ss (max priority current))"

definition piece_priority ::
  "torrent_selection \<Rightarrow> torrent_metainfo \<Rightarrow> nat \<Rightarrow> (SelectionError, FilePriority) result" where
  "piece_priority sel m piece_index =
     rbind (piece_slices sel m piece_index) (\<lambda>slices. max_priority sel slices Skip)"

definition piece_has_skipped_slice ::
  "torrent_selection \<Rightarrow> torrent_metainfo \<Rightarrow> nat \<Rightarrow> (SelectionError, bool) result" where
  "piece_has_skipped_slice sel m piece_index =
     rbind (piece_slices sel m piece_index) (\<lambda>slices.
     Inr (list_ex (\<lambda>s. case file_priority sel (s_file_index s) of
             None \<Rightarrow> False | Some p \<Rightarrow> \<not> is_selected p) slices))"

definition piece_is_boundary ::
  "torrent_selection \<Rightarrow> torrent_metainfo \<Rightarrow> nat \<Rightarrow> (SelectionError, bool) result" where
  "piece_is_boundary sel m piece_index =
     rbind (piece_priority sel m piece_index) (\<lambda>priority.
     if \<not> is_selected priority then Inr False else piece_has_skipped_slice sel m piece_index)"

definition piece_priorities ::
  "torrent_selection \<Rightarrow> torrent_metainfo \<Rightarrow> (SelectionError, FilePriority list) result" where
  "piece_priorities sel m =
     rbind (selection_validate sel m) (\<lambda>_.
     mapM_r (\<lambda>index. piece_priority sel m index) [0..<piece_count m])"

subsection \<open>Which files a piece overlaps\<close>

definition overlaps :: "torrent_metainfo \<Rightarrow> nat \<Rightarrow> nat \<Rightarrow> bool" where
  "overlaps m piece_index k \<longleftrightarrow>
     k < length (m_files m)
     \<and> f_offset (m_files m ! k) < (piece_index + 1) * m_piece_length m
     \<and> piece_index * m_piece_length m < f_offset (m_files m ! k) + f_length (m_files m ! k)
     \<and> 0 < f_length (m_files m ! k)"

lemma slices_tile_member:
  "slices_tile fs a ss b \<Longrightarrow> s \<in> set ss \<Longrightarrow>
   s_file_index s < length fs \<and> a \<le> s_data_offset s \<and> s_data_offset s + s_length s \<le> b \<and> 0 < s_length s
   \<and> f_offset (fs ! s_file_index s) + s_file_offset s = s_data_offset s
   \<and> s_file_offset s + s_length s \<le> f_length (fs ! s_file_index s)"
proof (induction ss arbitrary: a)
  case (Cons t ss)
  then show ?case by (cases "s = t") (fastforce dest: slices_tile_le)+
qed simp

lemma slices_tile_cover:
  "slices_tile fs a ss b \<Longrightarrow> a \<le> x \<Longrightarrow> x < b \<Longrightarrow>
   \<exists>s \<in> set ss. s_data_offset s \<le> x \<and> x < s_data_offset s + s_length s"
proof (induction ss arbitrary: a)
  case (Cons s ss)
  show ?case
  proof (cases "x < a + s_length s")
    case True
    with Cons.prems show ?thesis by auto
  next
    case False
    then have "\<exists>t \<in> set ss. s_data_offset t \<le> x \<and> x < s_data_offset t + s_length t"
      using Cons.prems by (intro Cons.IH [of "a + s_length s"]) auto
    then show ?thesis by auto
  qed
qed simp

lemma layout_from_lower: "layout_from off fs tot \<Longrightarrow> k < length fs \<Longrightarrow> off \<le> f_offset (fs ! k)"
proof (induction fs arbitrary: off k)
  case (Cons f fs)
  then show ?case by (cases k) (auto, metis add_leD1)
qed simp

lemma layout_from_order:
  "layout_from off fs tot \<Longrightarrow> j < k \<Longrightarrow> k < length fs \<Longrightarrow>
   f_offset (fs ! j) + f_length (fs ! j) \<le> f_offset (fs ! k)"
proof (induction fs arbitrary: off j k)
  case (Cons f fs)
  then obtain k' where k: "k = Suc k'" by (cases k) auto
  show ?case
  proof (cases j)
    case 0
    with Cons.prems k show ?thesis using layout_from_lower [of "off + f_length f" fs tot k'] by simp
  next
    case (Suc j')
    with Cons k show ?thesis by auto
  qed
qed simp

lemma layout_from_unique:
  assumes "layout_from off fs tot" "j < length fs" "k < length fs"
    and "f_offset (fs ! j) \<le> x" "x < f_offset (fs ! j) + f_length (fs ! j)"
    and "f_offset (fs ! k) \<le> x" "x < f_offset (fs ! k) + f_length (fs ! k)"
  shows "j = k"
  using assms layout_from_order [OF assms(1), of j k] layout_from_order [OF assms(1), of k j]
  by (cases j k rule: linorder_cases) auto

lemma slice_files_overlap:
  assumes wf: "metainfo_wf m" and sz: "piece_size m i = Some n"
    and ss: "slices_tile (m_files m) (i * m_piece_length m) ss (i * m_piece_length m + n)"
  shows "s_file_index ` set ss = {k. overlaps m i k}"
proof (intro equalityI subsetI)
  let ?a = "i * m_piece_length m"
  have n: "n \<le> m_piece_length m" using piece_range_in_payload [OF wf sz] by simp
  fix k assume "k \<in> s_file_index ` set ss"
  then obtain s where s: "s \<in> set ss" "k = s_file_index s" by blast
  have "?a + n \<le> (i + 1) * m_piece_length m" using n by simp
  with slices_tile_member [OF ss s(1)] s(2) show "k \<in> {k. overlaps m i k}"
    by (auto simp: overlaps_def)
next
  let ?a = "i * m_piece_length m" and ?fs = "m_files m"
  have lay: "layout_from 0 ?fs (m_total_length m)" using wf by (simp add: metainfo_wf_def)
  fix k assume "k \<in> {k. overlaps m i k}"
  then have k: "k < length ?fs" "f_offset (?fs ! k) < ?a + m_piece_length m"
    "?a < f_offset (?fs ! k) + f_length (?fs ! k)" "0 < f_length (?fs ! k)"
    by (auto simp: overlaps_def)
  define x where "x = max ?a (f_offset (?fs ! k))"
  have fk: "f_offset (?fs ! k) + f_length (?fs ! k) \<le> m_total_length m"
    using layout_from_mem_le [OF lay, of "?fs ! k"] k(1) by simp
  have "n = min (m_total_length m - ?a) (m_piece_length m)" and "?a < m_total_length m"
    using piece_size_wf [OF wf piece_range_in_payload(1) [OF wf sz]] sz by auto
  moreover have "0 < m_piece_length m" using wf by (simp add: metainfo_wf_def)
  ultimately have x: "?a \<le> x" "x < ?a + n" "f_offset (?fs ! k) \<le> x" "x < f_offset (?fs ! k) + f_length (?fs ! k)"
    using k fk by (auto simp: x_def min_def)
  obtain s where s: "s \<in> set ss" "s_data_offset s \<le> x" "x < s_data_offset s + s_length s"
    using slices_tile_cover [OF ss x(1,2)] by blast
  note m = slices_tile_member [OF ss s(1)]
  have "s_file_index s = k"
    by (rule layout_from_unique [OF lay, of _ _ x]) (use m s x k in auto)
  with s(1) show "k \<in> s_file_index ` set ss" by blast
qed

lemma max_priority_fold:
  assumes "\<forall>s \<in> set ss. s_file_index s < length (priorities sel)"
  shows "max_priority sel ss p = Inr (Max (insert p ((!) (priorities sel) ` s_file_index ` set ss)))"
  using assms
proof (induction ss arbitrary: p)
  case (Cons s ss)
  then have "file_priority sel (s_file_index s) = Some (priorities sel ! s_file_index s)"
    by (simp add: file_priority_def get_opt_def)
  with Cons have "max_priority sel (s # ss) p
      = Inr (Max (insert (max p (priorities sel ! s_file_index s)) ((!) (priorities sel) ` s_file_index ` set ss)))"
    by simp
  also have "\<dots> = Inr (Max (insert p ((!) (priorities sel) ` s_file_index ` set (s # ss))))"
    by (cases "ss = []") (simp_all add: max.assoc max.commute max.left_commute)
  finally show ?case .
qed simp

lemma piece_slices_ok:
  assumes wf: "metainfo_wf m" and len: "length (priorities sel) = length (m_files m)"
    and i: "i < piece_count m"
  obtains ss where "piece_slices sel m i = Inr ss" "s_file_index ` set ss = {k. overlaps m i k}"
proof -
  let ?n = "min (m_total_length m - i * m_piece_length m) (m_piece_length m)"
  have sz: "piece_size m i = Some ?n" and lt: "i * m_piece_length m < m_total_length m"
    using piece_size_wf [OF wf i] by auto
  have lay: "layout_from 0 (m_files m) (m_total_length m)" and lim: "m_total_length m < u64_limit"
    using wf by (auto simp: metainfo_wf_def)
  have le: "i * m_piece_length m + ?n \<le> m_total_length m" using lt by linarith
  obtain ss where ss: "map_range m (i * m_piece_length m) ?n = Inr ss"
    "slices_tile (m_files m) (i * m_piece_length m) ss (i * m_piece_length m + ?n)"
    using map_range_tiles [OF lay lim le] by blast
  have "checked_mul64 i (m_piece_length m) = Some (i * m_piece_length m)" using lt lim by (simp add: opt_iffs)
  then have "piece_slices sel m i = Inr ss"
    using len sz ss(1) by (simp add: piece_slices_def selection_validate_def)
  with slice_files_overlap [OF wf sz ss(2)] show ?thesis using that by blast
qed

lemma try_sum_bound:
  "length ps = length fs \<Longrightarrow> acc + sum_list (map f_length fs) < u64_limit \<Longrightarrow>
   try_sum (zip fs ps) acc
     = Inr (acc + (\<Sum>(f, p) \<leftarrow> zip fs ps. if is_selected p then f_length f else 0))"
proof (induction fs arbitrary: ps acc)
  case (Cons f fs)
  then obtain p ps' where "ps = p # ps'" by (cases ps) auto
  with Cons show ?case by (auto simp: checked_add64_def)
qed simp

lemma layout_sum: "layout_from off fs tot \<Longrightarrow> off + sum_list (map f_length fs) = tot"
proof (induction fs arbitrary: off)
  case (Cons f fs)
  then have "(off + f_length f) + sum_list (map f_length fs) = tot" by simp
  then show ?case by simp
qed simp

lemma selection_new_length: "selection_new m ps = Inr sel \<Longrightarrow> priorities sel = ps \<and> length ps = length (m_files m)"
  by (auto simp: selection_new_def split: if_splits)

lemma piece_priority_wf:
  assumes "metainfo_wf m" "length (priorities sel) = length (m_files m)" "i < piece_count m"
  shows "piece_priority sel m i = Inr (Max (insert Skip ((!) (priorities sel) ` {k. overlaps m i k})))"
proof -
  obtain ss where ss: "piece_slices sel m i = Inr ss" "s_file_index ` set ss = {k. overlaps m i k}"
    using piece_slices_ok [OF assms] .
  have "\<forall>s \<in> set ss. s_file_index s < length (priorities sel)"
    using ss(2) assms(2) by (auto simp: overlaps_def)
  with max_priority_fold [of ss sel Skip] ss show ?thesis by (simp add: piece_priority_def)
qed

lemma selected_Max_iff:
  assumes "finite A"
  shows "is_selected (Max (insert Skip A)) \<longleftrightarrow> (\<exists>p \<in> A. is_selected p)"
proof -
  have "Max (insert Skip A) = Skip \<longleftrightarrow> (\<forall>p \<in> A. p \<le> Skip)" using assms by (simp add: Max_eq_iff)
  moreover have "p \<le> Skip \<longleftrightarrow> p = Skip" for p by (cases p) (simp_all add: less_eq_FilePriority_def)
  ultimately show ?thesis by (auto simp: is_selected_def)
qed

lemma finite_overlaps [simp]: "finite {k. overlaps m i k}"
  by (rule finite_subset [of _ "{..<length (m_files m)}"]) (auto simp: overlaps_def)

lemma piece_has_skipped_wf:
  assumes "metainfo_wf m" "length (priorities sel) = length (m_files m)" "i < piece_count m"
  shows "piece_has_skipped_slice sel m i = Inr (\<exists>k. overlaps m i k \<and> \<not> is_selected (priorities sel ! k))"
proof -
  obtain ss where ss: "piece_slices sel m i = Inr ss" "s_file_index ` set ss = {k. overlaps m i k}"
    using piece_slices_ok [OF assms] .
  have "list_ex (\<lambda>s. case file_priority sel (s_file_index s) of None \<Rightarrow> False | Some p \<Rightarrow> \<not> is_selected p) ss
      \<longleftrightarrow> (\<exists>k \<in> s_file_index ` set ss. \<not> is_selected (priorities sel ! k))"
    using ss(2) assms(2)
    by (auto simp: list_ex_iff file_priority_def get_opt_def overlaps_def set_eq_iff split: option.splits)
  then show ?thesis using ss by (simp add: piece_has_skipped_slice_def)
qed

subsection \<open>Properties\<close>

lemma sample_wf: "metainfo_wf sample_meta"
  by (rule metainfo_parse_wf [OF sample_parse])

lemma sample_overlaps: "{k. overlaps sample_meta 0 k} = {0, 1}" "{k. overlaps sample_meta 1 k} = {1}"
proof -
  have "overlaps sample_meta 0 0" "overlaps sample_meta 0 1" "overlaps sample_meta 1 1" "\<not> overlaps sample_meta 1 0"
    by (simp_all add: overlaps_def sample_meta_def)
  moreover have "overlaps sample_meta i k \<Longrightarrow> k = 0 \<or> k = 1" for i k
    by (auto simp: overlaps_def sample_meta_def)
  ultimately show "{k. overlaps sample_meta 0 k} = {0, 1}" "{k. overlaps sample_meta 1 k} = {1}" by blast+
qed

lemma sample_selection: "selection_new sample_meta [Skip, High] = Inr \<lparr>priorities = [Skip, High]\<rparr>"
  by (simp add: selection_new_def sample_meta_def is_selected_def)

text \<open>In an accepted torrent with a valid selection, the priority of every piece is the
  highest priority among the files the piece overlaps, so a piece is wanted exactly when it
  overlaps a wanted file.\<close>
lemma piece_priority_is_max:
  assumes "metainfo_parse sha1 url_parse lower bytes = Inr m"
    and "selection_new m ps = Inr sel" and "i < piece_count m"
  shows "\<exists>p. piece_priority sel m i = Inr p
    \<and> p = Max (insert Skip ((!) ps ` {k. overlaps m i k}))
    \<and> (is_selected p \<longleftrightarrow> (\<exists>k. overlaps m i k \<and> is_selected (ps ! k)))"
  using piece_priority_wf [OF metainfo_parse_wf [OF assms(1)], of sel i] assms(3)
    selection_new_length [OF assms(2)] selected_Max_iff [of "(!) ps ` {k. overlaps m i k}"]
  by auto

text \<open>A piece of an accepted torrent is a boundary piece, whose bytes must be cached whole,
  exactly when it overlaps both a wanted and an unwanted file.\<close>
lemma piece_is_boundary_iff:
  assumes "metainfo_parse sha1 url_parse lower bytes = Inr m"
    and "selection_new m ps = Inr sel" and "i < piece_count m"
  shows "piece_is_boundary sel m i
    = Inr ((\<exists>k. overlaps m i k \<and> is_selected (ps ! k)) \<and> (\<exists>k. overlaps m i k \<and> \<not> is_selected (ps ! k)))"
proof -
  note wf = metainfo_parse_wf [OF assms(1)] and ps = selection_new_length [OF assms(2)]
  have "is_selected (Max (insert Skip ((!) ps ` {k. overlaps m i k}))) \<longleftrightarrow> (\<exists>k. overlaps m i k \<and> is_selected (ps ! k))"
    using selected_Max_iff [of "(!) ps ` {k. overlaps m i k}"] by auto
  with piece_priority_wf [OF wf _ assms(3), of sel] piece_has_skipped_wf [OF wf _ assms(3), of sel] ps
  show ?thesis by (simp add: piece_is_boundary_def)
qed

text \<open>For an accepted torrent with a valid selection, \<open>selected_bytes\<close> never overflows: it is
  the sum of the lengths of the wanted files, at most the total length.\<close>
lemma selected_bytes_sum:
  assumes "metainfo_parse sha1 url_parse lower bytes = Inr m" and "selection_new m ps = Inr sel"
  shows "selected_bytes sel m
      = Inr (\<Sum>(f, p) \<leftarrow> zip (m_files m) ps. if is_selected p then f_length f else 0)
    \<and> (\<Sum>(f, p) \<leftarrow> zip (m_files m) ps. if is_selected p then f_length f else 0) \<le> m_total_length m"
proof -
  have lay: "layout_from 0 (m_files m) (m_total_length m)" and lim: "m_total_length m < u64_limit"
    using metainfo_parse_wf [OF assms(1)] by (auto simp: metainfo_wf_def)
  have len: "priorities sel = ps" "length ps = length (m_files m)"
    using selection_new_length [OF assms(2)] by auto
  have s: "sum_list (map f_length (m_files m)) = m_total_length m" using layout_sum [OF lay] by simp
  have "(\<Sum>(f, p) \<leftarrow> zip (m_files m) ps. if is_selected p then f_length f else 0)
      \<le> (\<Sum>(f, p) \<leftarrow> zip (m_files m) ps. f_length f)"
    by (rule sum_list_mono) auto
  also have "map (\<lambda>(f, p). f_length f) (zip (m_files m) ps) = map f_length (map fst (zip (m_files m) ps))"
    by (simp add: case_prod_beta)
  finally have "(\<Sum>(f, p) \<leftarrow> zip (m_files m) ps. if is_selected p then f_length f else 0) \<le> m_total_length m"
    using len s by simp
  with try_sum_bound [OF len(2), of 0] len s lim show ?thesis
    by (simp add: selected_bytes_def selection_validate_def)
qed

end
