(* ===== verification/Bitfield.thy ===== *)
theory Bitfield
  imports Bytes
begin

text \<open>
  Piece bitfields, most significant bit first, as \<open>peer.rs\<close>, \<open>scheduler.rs\<close> and \<open>resume.rs\<close>
  use them: reading, setting and clearing a bit, and the test of the padding bits. The locale
  \<open>bitset\<close> states what a set of bits promises its clients.
\<close>

unbundle bit_operations_syntax

definition bit_is_set :: "u8 list \<Rightarrow> nat \<Rightarrow> bool" where
  "bit_is_set bitfield piece_index =
     (case get_opt bitfield (piece_index div 8) of
        None \<Rightarrow> False
      | Some b \<Rightarrow> b AND drop_bit (piece_index mod 8) 0x80 \<noteq> 0)"

definition set_bit :: "u8 list \<Rightarrow> nat \<Rightarrow> u8 list" where
  "set_bit bitfield piece_index =
     (case get_opt bitfield (piece_index div 8) of
        None \<Rightarrow> bitfield
      | Some b \<Rightarrow> bitfield[piece_index div 8 := b OR drop_bit (piece_index mod 8) 0x80])"

definition clear_bit :: "u8 list \<Rightarrow> nat \<Rightarrow> u8 list" where
  "clear_bit bitfield piece_index =
     (case get_opt bitfield (piece_index div 8) of
        None \<Rightarrow> bitfield
      | Some b \<Rightarrow> bitfield[piece_index div 8 := b AND NOT (drop_bit (piece_index mod 8) 0x80)])"

text \<open>The mask of the unused low bits of the last byte, \<open>(1u8 << (8 - used_bits)) - 1\<close>.\<close>

definition unused_mask :: "nat \<Rightarrow> u8" where
  "unused_mask used_bits = push_bit (8 - used_bits) 1 - 1"

definition put_bit :: "u8 list \<Rightarrow> nat \<Rightarrow> bool \<Rightarrow> u8 list" where
  "put_bit bf i v = (if v then set_bit bf i else clear_bit bf i)"

lemma mask_bit:
  assumes "k < 8"
  shows "bit (drop_bit k (0x80 :: u8)) n \<longleftrightarrow> n = 7 - k"
proof -
  have e: "(0x80 :: u8) = push_bit 7 1" by (simp add: push_bit_eq_mult)
  have "bit (drop_bit k (push_bit 7 (1 :: u8))) n \<longleftrightarrow> k + n = 7"
    by (auto simp: bit_simps simp del: push_bit_of_1)
  then have "bit (drop_bit k (0x80 :: u8)) n \<longleftrightarrow> k + n = 7" by (simp only: e)
  also have "\<dots> \<longleftrightarrow> n = 7 - k" using assms by auto
  finally show ?thesis .
qed

lemma word_zero_iff: "(w :: u8) = 0 \<longleftrightarrow> (\<forall>n. \<not> bit w n)"
  by (metis bit_0_eq bit_eqI bot_apply bot_bool_def)

lemma and_mask_nonzero:
  assumes "k < 8"
  shows "(b :: u8) AND drop_bit k 0x80 \<noteq> 0 \<longleftrightarrow> bit b (7 - k)"
proof -
  have "b AND drop_bit k 0x80 \<noteq> 0 \<longleftrightarrow> (\<exists>n. bit (b AND drop_bit k 0x80) n)"
    by (simp add: word_zero_iff)
  also have "\<dots> \<longleftrightarrow> bit b (7 - k)" using mask_bit [OF assms] by (auto simp: bit_and_iff)
  finally show ?thesis .
qed

lemma bit_is_set_alt:
  "bit_is_set bf i \<longleftrightarrow> i div 8 < length bf \<and> bit (bf ! (i div 8)) (7 - i mod 8)"
  by (auto simp: bit_is_set_def get_opt_def and_mask_nonzero)

lemma length_set_bit [simp]: "length (set_bit bf i) = length bf"
  by (simp add: set_bit_def split: option.splits)

lemma length_clear_bit [simp]: "length (clear_bit bf i) = length bf"
  by (simp add: clear_bit_def split: option.splits)

lemma length_put_bit [simp]: "length (put_bit bf i v) = length bf"
  by (simp add: put_bit_def)

lemma same_bit_iff: "i div 8 = j div 8 \<Longrightarrow> 7 - i mod 8 = 7 - j mod 8 \<longleftrightarrow> i = (j :: nat)"
proof -
  assume d: "i div 8 = j div 8"
  have "i mod 8 < 8" "j mod 8 < 8" by simp_all
  then have "7 - i mod 8 = 7 - j mod 8 \<longleftrightarrow> i mod 8 = j mod 8" by linarith
  also have "\<dots> \<longleftrightarrow> i = j" using d by (metis div_mult_mod_eq)
  finally show ?thesis .
qed

lemma bit_is_set_set_bit:
  assumes "i div 8 < length bf"
  shows "bit_is_set (set_bit bf i) j \<longleftrightarrow> i = j \<or> bit_is_set bf j"
proof (cases "i div 8 = j div 8")
  case True
  then show ?thesis using assms same_bit_iff [OF True]
    by (auto simp: bit_is_set_alt set_bit_def get_opt_def bit_or_iff mask_bit)
next
  case False
  then show ?thesis using assms by (auto simp: bit_is_set_alt set_bit_def get_opt_def nth_list_update)
qed

lemma bit_is_set_clear_bit:
  assumes "i div 8 < length bf"
  shows "bit_is_set (clear_bit bf i) j \<longleftrightarrow> i \<noteq> j \<and> bit_is_set bf j"
proof (cases "i div 8 = j div 8")
  case True
  then show ?thesis using assms same_bit_iff [OF True]
    by (auto simp: bit_is_set_alt clear_bit_def get_opt_def bit_and_iff bit_not_iff mask_bit)
next
  case False
  then show ?thesis using assms by (auto simp: bit_is_set_alt clear_bit_def get_opt_def nth_list_update)
qed

lemma bit_is_set_put_bit:
  "i div 8 < length bf \<Longrightarrow> bit_is_set (put_bit bf i v) j \<longleftrightarrow> (if i = j then v else bit_is_set bf j)"
  by (auto simp: put_bit_def bit_is_set_set_bit bit_is_set_clear_bit)

lemma bit_is_set_zeros [simp]: "\<not> bit_is_set (replicate n 0) i"
  by (simp add: bit_is_set_alt)

lemma div_ceil_8_index: "i < n \<Longrightarrow> i div 8 < div_ceil n 8"
  using less_div_ceil_iff [of 8 "i div 8" n] div_times_less_eq_dividend [of i 8] by linarith

lemma unused_mask_bit:
  assumes "0 < u" "u < 8"
  shows "bit (unused_mask u) n \<longleftrightarrow> n < 8 - u"
proof -
  have "unused_mask u = mask (8 - u)" by (simp add: unused_mask_def mask_eq_exp_minus_1 push_bit_eq_mult)
  then show ?thesis using assms by (auto simp: bit_mask_iff)
qed

text \<open>The padding test of the sources is exactly: no bit at or beyond the count.\<close>

lemma padding_clear_iff:
  assumes "length bf = div_ceil n 8" "n mod 8 \<noteq> 0"
  shows "last bf AND unused_mask (n mod 8) = 0 \<longleftrightarrow> (\<forall>i\<ge>n. \<not> bit_is_set bf i)"
proof -
  let ?l = "n div 8" and ?u = "n mod 8"
  have len: "length bf = Suc ?l" using assms by (simp add: div_ceil_def)
  then have last: "last bf = bf ! ?l" by (metis diff_Suc_1 last_conv_nth length_0_conv nat.distinct(1))
  have u: "0 < ?u" "?u < 8" using assms(2) by simp_all
  have "last bf AND unused_mask ?u = 0 \<longleftrightarrow> (\<forall>k<8 - ?u. \<not> bit (bf ! ?l) k)"
    unfolding word_zero_iff bit_and_iff unused_mask_bit [OF u] last by auto
  also have "\<dots> \<longleftrightarrow> (\<forall>i\<ge>n. \<not> bit_is_set bf i)"
  proof
    assume l: "\<forall>k<8 - ?u. \<not> bit (bf ! ?l) k"
    show "\<forall>i\<ge>n. \<not> bit_is_set bf i"
    proof (intro allI impI notI)
      fix i assume i: "n \<le> i" "bit_is_set bf i"
      then have "i div 8 = ?l" using len div_le_mono [of n i 8] by (auto simp: bit_is_set_alt)
      then have "?u \<le> i mod 8" using i(1) by (metis div_mult_mod_eq nat_add_left_cancel_le)
      then have "7 - i mod 8 < 8 - ?u" using u by linarith
      with l i(2) \<open>i div 8 = ?l\<close> show False by (simp add: bit_is_set_alt)
    qed
  next
    assume r: "\<forall>i\<ge>n. \<not> bit_is_set bf i"
    show "\<forall>k<8 - ?u. \<not> bit (bf ! ?l) k"
    proof (intro allI impI notI)
      fix k assume k: "k < 8 - ?u" "bit (bf ! ?l) k"
      let ?i = "?l * 8 + (7 - k)"
      have le: "n \<le> ?i" using k(1) u div_mult_mod_eq [of n 8] by linarith
      have "?i div 8 = ?l" "?i mod 8 = 7 - k" using k(1) u
        by (simp_all only: div_mult_self3 mod_mult_self3 mod_less div_less)
      moreover have "7 - (7 - k) = k" using k(1) u by linarith
      ultimately have "bit_is_set bf ?i" using k(2) len by (simp only: bit_is_set_alt) simp
      with r le show False by blast
    qed
  qed
  finally show ?thesis .
qed

subsection \<open>The interface\<close>

locale bitset =
  fixes get :: "'b \<Rightarrow> nat \<Rightarrow> bool"
    and put :: "'b \<Rightarrow> nat \<Rightarrow> bool \<Rightarrow> 'b"
    and valid :: "'b \<Rightarrow> nat \<Rightarrow> bool"
  assumes get_put: "valid b i \<Longrightarrow> get (put b i v) j = (if i = j then v else get b j)"
    and valid_put: "valid (put b i v) j = valid b j"
begin

lemma get_put_same: "valid b i \<Longrightarrow> get (put b i v) i = v"
  by (simp add: get_put)

lemma put_commute:
  assumes "valid b i" "valid b j" "i \<noteq> j"
  shows "get (put (put b i v) j w) k = get (put (put b j w) i v) k"
  using assms by (auto simp: get_put valid_put)

lemma get_put_all:
  assumes "\<forall>i \<in> set is. valid b i"
  shows "get (foldl (\<lambda>b i. put b i v) b is) j = (if j \<in> set is then v else get b j)"
  using assms by (induction "is" arbitrary: b) (auto simp: get_put valid_put)

end

interpretation bitfield: bitset bit_is_set put_bit "\<lambda>bf i. i div 8 < length bf"
  by unfold_locales (simp_all add: bit_is_set_put_bit)

end
