(* ===== verification/Scheduler.thy ===== *)
theory Scheduler
  imports Selection Bitfield "HOL-Library.Product_Lexorder"
begin

text \<open>
  \<open>crates/nova-torrent-core/src/scheduler.rs\<close>: the piece layout, the cut of a piece into block
  requests, and the rarest-first piece scheduler with its mutable state. Operations that take
  \<open>&mut self\<close> and return a \<open>Result\<close> give the new state and the result, because an error can
  leave part of the change behind. \<open>u32\<close> and \<open>u64\<close> fields are naturals; every cast and every
  unchecked subtraction is written with its wrap-around.
\<close>

definition DEFAULT_BLOCK_SIZE :: nat where "DEFAULT_BLOCK_SIZE = 16 * 1024"
definition MAX_BLOCK_SIZE :: nat where "MAX_BLOCK_SIZE = 1024 * 1024"

record piece_layout =
  l_total_length :: nat
  l_piece_length :: nat
  l_piece_count :: nat

datatype SchedulerError =
    EmptyPayload
  | InvalidPieceLength nat
  | InvalidBlockSize nat
  | LengthOverflow
  | TooManyPieces nat
  | PieceOutOfRange nat nat
  | PieceAlreadyComplete nat
  | AvailabilityOverflow nat
  | AvailabilityUnderflow nat
  | PriorityCountMismatch nat nat
  | CompletionCountMismatch nat nat

record block_request =
  b_piece_index :: nat
  b_begin :: nat
  b_length :: nat

subsection \<open>Layout and blocks\<close>

definition layout_new :: "nat \<Rightarrow> nat \<Rightarrow> (SchedulerError, piece_layout) result" where
  "layout_new total_length piece_length =
     (if total_length = 0 then Inl EmptyPayload
      else if piece_length = 0 \<or> u32_limit - 1 < piece_length then Inl (InvalidPieceLength piece_length)
      else rbind (ok_or SchedulerError.LengthOverflow (checked_add64 total_length (piece_length - 1))) (\<lambda>padded.
      let piece_count = padded div piece_length in
      if u32_limit \<le> piece_count then Inl (TooManyPieces piece_count)
      else Inr \<lparr>l_total_length = total_length, l_piece_length = piece_length mod u32_limit,
                l_piece_count = piece_count\<rparr>))"

definition layout_piece_size :: "piece_layout \<Rightarrow> nat \<Rightarrow> (SchedulerError, nat) result" where
  "layout_piece_size l piece_index =
     (if l_piece_count l \<le> piece_index
      then Inl (SchedulerError.PieceOutOfRange piece_index (l_piece_count l))
      else
        (let start = piece_index * l_piece_length l;
             remaining = wrapping_sub64 (l_total_length l) start
         in Inr (min remaining (l_piece_length l) mod u32_limit)))"

text \<open>The loop runs with a block size that the caller has found to be positive.\<close>

function block_loop ::
  "nat \<Rightarrow> nat \<Rightarrow> nat \<Rightarrow> nat \<Rightarrow> block_request list \<Rightarrow> (SchedulerError, block_request list) result" where
  "block_loop piece_index block_size psize begin requests =
     (if begin < psize \<and> 0 < block_size then
        (let len = min block_size (psize - begin);
             requests' = requests @ [\<lparr>b_piece_index = piece_index, b_begin = begin, b_length = len\<rparr>]
         in if u32_limit \<le> begin + len then Inl SchedulerError.LengthOverflow
            else block_loop piece_index block_size psize (begin + len) requests')
      else Inr requests)"
  by pat_completeness auto
termination
  by (relation "measure (\<lambda>(p, b, s, begin, r). s - begin)") auto

declare block_loop.simps [simp del]

definition block_requests :: "piece_layout \<Rightarrow> nat \<Rightarrow> nat \<Rightarrow> (SchedulerError, block_request list) result" where
  "block_requests l piece_index block_size =
     (if block_size = 0 \<or> MAX_BLOCK_SIZE < block_size then Inl (InvalidBlockSize block_size)
      else rbind (layout_piece_size l piece_index) (\<lambda>psize.
      block_loop piece_index block_size psize 0 []))"

subsection \<open>Scheduler state\<close>

record piece_scheduler =
  layout :: piece_layout
  availability :: "nat list"
  completed :: "bool list"
  inflight :: "bool list"
  piece_prios :: "FilePriority list"
  cursor :: nat

definition scheduler_new :: "piece_layout \<Rightarrow> piece_scheduler" where
  "scheduler_new l =
     (let count = l_piece_count l in
      \<lparr>layout = l, availability = replicate count 0, completed = replicate count False,
       inflight = replicate count False, piece_prios = replicate count Normal, cursor = 0\<rparr>)"

fun adjust_loop ::
  "u8 list \<Rightarrow> bool \<Rightarrow> nat list \<Rightarrow> nat list \<Rightarrow> nat list \<times> (SchedulerError, unit) result" where
  "adjust_loop bitfield connected [] counts = (counts, Inr ())"
| "adjust_loop bitfield connected (i # is) counts =
     (if \<not> bit_is_set bitfield i then adjust_loop bitfield connected is counts
      else if connected then
        (if u32_limit \<le> counts ! i + 1 then (counts, Inl (AvailabilityOverflow i))
         else adjust_loop bitfield connected is (counts[i := counts ! i + 1]))
      else if counts ! i = 0 then (counts, Inl (AvailabilityUnderflow i))
      else adjust_loop bitfield connected is (counts[i := counts ! i - 1]))"

definition adjust_availability ::
  "piece_scheduler \<Rightarrow> u8 list \<Rightarrow> bool \<Rightarrow> piece_scheduler \<times> (SchedulerError, unit) result" where
  "adjust_availability s bitfield connected =
     (let (counts, r) = adjust_loop bitfield connected [0..<length (availability s)] (availability s)
      in (s\<lparr>availability := counts\<rparr>, r))"

definition peer_connected ::
  "piece_scheduler \<Rightarrow> u8 list \<Rightarrow> piece_scheduler \<times> (SchedulerError, unit) result" where
  "peer_connected s bitfield = adjust_availability s bitfield True"

definition peer_disconnected ::
  "piece_scheduler \<Rightarrow> u8 list \<Rightarrow> piece_scheduler \<times> (SchedulerError, unit) result" where
  "peer_disconnected s bitfield = adjust_availability s bitfield False"

definition set_piece_priorities ::
  "piece_scheduler \<Rightarrow> FilePriority list \<Rightarrow> piece_scheduler \<times> (SchedulerError, unit) result" where
  "set_piece_priorities s ps =
     (if length ps \<noteq> length (piece_prios s)
      then (s, Inl (PriorityCountMismatch (length (piece_prios s)) (length ps)))
      else (s\<lparr>piece_prios := ps,
              inflight := map (\<lambda>i. is_selected (ps ! i) \<and> inflight s ! i) [0..<length (inflight s)]\<rparr>, Inr ()))"

definition validate_piece :: "piece_scheduler \<Rightarrow> nat \<Rightarrow> (SchedulerError, unit) result" where
  "validate_piece s piece_index =
     guard (l_piece_count (layout s) \<le> piece_index)
       (SchedulerError.PieceOutOfRange piece_index (l_piece_count (layout s)))"

definition sched_piece_priority :: "piece_scheduler \<Rightarrow> nat \<Rightarrow> (SchedulerError, FilePriority) result" where
  "sched_piece_priority s piece_index =
     rbind (validate_piece s piece_index) (\<lambda>_. Inr (piece_prios s ! piece_index))"

definition restore_completed ::
  "piece_scheduler \<Rightarrow> bool list \<Rightarrow> piece_scheduler \<times> (SchedulerError, unit) result" where
  "restore_completed s cs =
     (if length cs \<noteq> length (completed s)
      then (s, Inl (CompletionCountMismatch (length (completed s)) (length cs)))
      else (s\<lparr>completed := cs,
              inflight := map (\<lambda>i. \<not> cs ! i \<and> inflight s ! i) [0..<length (inflight s)]\<rparr>, Inr ()))"

definition piece_availability :: "piece_scheduler \<Rightarrow> nat \<Rightarrow> (SchedulerError, nat) result" where
  "piece_availability s piece_index =
     rbind (validate_piece s piece_index) (\<lambda>_. Inr (availability s ! piece_index))"

subsection \<open>Rarest first\<close>

definition eligible :: "piece_scheduler \<Rightarrow> u8 list \<Rightarrow> nat \<Rightarrow> bool" where
  "eligible s peer_bitfield index \<longleftrightarrow>
     \<not> (completed s ! index \<or> inflight s ! index \<or> \<not> is_selected (piece_prios s ! index)
        \<or> \<not> bit_is_set peer_bitfield index \<or> availability s ! index = 0)"

fun rarity_rank :: "FilePriority \<Rightarrow> nat" where
  "rarity_rank High = 0"
| "rarity_rank Normal = 1"
| "rarity_rank Skip = 2"

definition candidate :: "piece_scheduler \<Rightarrow> nat \<Rightarrow> nat \<times> nat \<times> nat \<times> nat" where
  "candidate s index =
     (let count = l_piece_count (layout s);
          distance = wrapping_sub64 (index + count) (cursor s) mod count
      in (rarity_rank (piece_prios s ! index), availability s ! index, distance, index))"

fun rarest_loop ::
  "piece_scheduler \<Rightarrow> u8 list \<Rightarrow> nat list \<Rightarrow> (nat \<times> nat \<times> nat \<times> nat) option \<Rightarrow>
   (nat \<times> nat \<times> nat \<times> nat) option" where
  "rarest_loop s bf [] best = best"
| "rarest_loop s bf (index # rest) best =
     (if \<not> eligible s bf index then rarest_loop s bf rest best
      else rarest_loop s bf rest
        (case best of
           None \<Rightarrow> Some (candidate s index)
         | Some current \<Rightarrow> if candidate s index < current then Some (candidate s index) else best))"

definition select_rarest :: "piece_scheduler \<Rightarrow> u8 list \<Rightarrow> piece_scheduler \<times> nat option" where
  "select_rarest s peer_bitfield =
     (let count = l_piece_count (layout s) in
      if count = 0 then (s, None)
      else case rarest_loop s peer_bitfield [0..<count] None of
          None \<Rightarrow> (s, None)
        | Some (_, _, _, index) \<Rightarrow>
            (s\<lparr>inflight := (inflight s)[index := True], cursor := (index + 1) mod count\<rparr>, Some index))"

definition mark_inflight ::
  "piece_scheduler \<Rightarrow> nat \<Rightarrow> piece_scheduler \<times> (SchedulerError, unit) result" where
  "mark_inflight s piece_index =
     (case validate_piece s piece_index of
        Inl e \<Rightarrow> (s, Inl e)
      | Inr _ \<Rightarrow>
          if completed s ! piece_index then (s, Inl (PieceAlreadyComplete piece_index))
          else (s\<lparr>inflight := (inflight s)[piece_index := True]\<rparr>, Inr ()))"

definition release ::
  "piece_scheduler \<Rightarrow> nat \<Rightarrow> piece_scheduler \<times> (SchedulerError, unit) result" where
  "release s piece_index =
     (case validate_piece s piece_index of
        Inl e \<Rightarrow> (s, Inl e)
      | Inr _ \<Rightarrow> (s\<lparr>inflight := (inflight s)[piece_index := False]\<rparr>, Inr ()))"

definition mark_complete ::
  "piece_scheduler \<Rightarrow> nat \<Rightarrow> piece_scheduler \<times> (SchedulerError, unit) result" where
  "mark_complete s piece_index =
     (case validate_piece s piece_index of
        Inl e \<Rightarrow> (s, Inl e)
      | Inr _ \<Rightarrow> (s\<lparr>completed := (completed s)[piece_index := True],
                    inflight := (inflight s)[piece_index := False]\<rparr>, Inr ()))"

definition mark_incomplete ::
  "piece_scheduler \<Rightarrow> nat \<Rightarrow> piece_scheduler \<times> (SchedulerError, unit) result" where
  "mark_incomplete s piece_index =
     (case validate_piece s piece_index of
        Inl e \<Rightarrow> (s, Inl e)
      | Inr _ \<Rightarrow> (s\<lparr>completed := (completed s)[piece_index := False],
                    inflight := (inflight s)[piece_index := False]\<rparr>, Inr ()))"

definition is_complete :: "piece_scheduler \<Rightarrow> bool" where
  "is_complete s = list_all (\<lambda>c. c) (completed s)"

definition completed_piece_count :: "piece_scheduler \<Rightarrow> nat" where
  "completed_piece_count s = length (filter (\<lambda>c. c) (completed s)) mod u32_limit"

definition completed_bytes :: "piece_scheduler \<Rightarrow> nat" where
  "completed_bytes s =
     sum_list (List.map_filter (\<lambda>(index, complete).
       if complete then ok (layout_piece_size (layout s) (index mod u32_limit)) else None)
       (enumerate 0 (completed s)))"

subsection \<open>Layout facts\<close>

definition layout_wf :: "piece_layout \<Rightarrow> bool" where
  "layout_wf l \<longleftrightarrow>
     0 < l_total_length l \<and> l_total_length l < u64_limit
     \<and> 0 < l_piece_length l \<and> l_piece_length l < u32_limit
     \<and> l_piece_count l = div_ceil (l_total_length l) (l_piece_length l) \<and> l_piece_count l < u32_limit"

lemma layout_new_wf: "layout_new t p = Inr l \<Longrightarrow> layout_wf l \<and> l_total_length l = t \<and> l_piece_length l = p"
  by (auto simp: layout_new_def layout_wf_def Let_def opt_iffs div_ceil_eq u32_limit_def split: if_splits)

lemma layout_piece_size_ok:
  assumes "layout_wf l" "i < l_piece_count l"
  shows "layout_piece_size l i = Inr (min (l_total_length l - i * l_piece_length l) (l_piece_length l))"
    and "i * l_piece_length l < l_total_length l"
proof -
  have pl: "0 < l_piece_length l" "l_piece_length l < u32_limit" and t: "l_total_length l < u64_limit"
    and c: "l_piece_count l = div_ceil (l_total_length l) (l_piece_length l)"
    using assms(1) by (auto simp: layout_wf_def)
  show lt: "i * l_piece_length l < l_total_length l" using less_div_ceil_iff [OF pl(1)] c assms(2) by simp
  have "min (l_total_length l - i * l_piece_length l) (l_piece_length l) < u32_limit" using pl(2) by simp
  then show "layout_piece_size l i = Inr (min (l_total_length l - i * l_piece_length l) (l_piece_length l))"
    using assms(2) lt t by (simp add: layout_piece_size_def Let_def)
qed

lemma layout_positive: "layout_wf l \<Longrightarrow> 0 < l_piece_count l"
  using less_div_ceil_iff [of "l_piece_length l" 0 "l_total_length l"] by (simp add: layout_wf_def)

lemma layout_prefix_sum:
  assumes "layout_wf l" "n \<le> l_piece_count l"
  shows "(\<Sum>i<n. the (ok (layout_piece_size l i))) = min (n * l_piece_length l) (l_total_length l)"
  using assms(2)
proof (induction n)
  case (Suc n)
  then have "n < l_piece_count l" by simp
  with layout_piece_size_ok [OF assms(1) this] Suc show ?case by simp
qed simp

lemma layout_sum_total:
  assumes "layout_wf l"
  shows "(\<Sum>i<l_piece_count l. the (ok (layout_piece_size l i))) = l_total_length l"
proof -
  have "l_total_length l \<le> l_piece_count l * l_piece_length l"
    using assms div_ceil_le_iff [of "l_piece_length l" "l_total_length l" "l_piece_count l"]
    by (simp add: layout_wf_def)
  then show ?thesis using layout_prefix_sum [OF assms, of "l_piece_count l"] by simp
qed

text \<open>Blocks tile a piece: each starts where the one before ended, none is empty or too long.\<close>

fun blocks_tile :: "nat \<Rightarrow> nat \<Rightarrow> nat \<Rightarrow> block_request list \<Rightarrow> nat \<Rightarrow> bool" where
  "blocks_tile piece bs start [] stop = (start = stop)"
| "blocks_tile piece bs start (b # rest) stop =
     (b_piece_index b = piece \<and> b_begin b = start \<and> 0 < b_length b \<and> b_length b \<le> bs
      \<and> blocks_tile piece bs (start + b_length b) rest stop)"

lemma blocks_tile_snoc:
  "blocks_tile p bs a (rs @ [b]) c \<longleftrightarrow> blocks_tile p bs a rs (b_begin b) \<and> blocks_tile p bs (b_begin b) [b] c"
  by (induction rs arbitrary: a) auto

lemma block_loop_tiles:
  assumes "0 < bs" "psize < u32_limit" "start \<le> psize" "blocks_tile p bs 0 rs start"
  shows "\<exists>new. block_loop p bs psize start rs = Inr new \<and> blocks_tile p bs 0 new psize"
  using assms
proof (induction p bs psize start rs rule: block_loop.induct)
  case (1 p bs psize start rs)
  show ?case
  proof (cases "start < psize")
    case True
    define len where "len = min bs (psize - start)"
    have len: "0 < len" "len \<le> bs" "start + len \<le> psize" using True "1.prems" by (auto simp: len_def)
    have "blocks_tile p bs 0 (rs @ [\<lparr>b_piece_index = p, b_begin = start, b_length = len\<rparr>]) (start + len)"
      using len "1.prems"(4) by (simp add: blocks_tile_snoc)
    moreover have nl: "\<not> u32_limit \<le> start + len" using len "1.prems"(2) by simp
    ultimately have "\<exists>new. block_loop p bs psize (start + len)
        (rs @ [\<lparr>b_piece_index = p, b_begin = start, b_length = len\<rparr>]) = Inr new \<and> blocks_tile p bs 0 new psize"
      using "1.IH" [OF _ len_def refl] True "1.prems" len by simp
    with True "1.prems"(1) nl show ?thesis
      by (subst block_loop.simps) (simp add: Let_def len_def)
  next
    case False
    with "1.prems" show ?thesis by (subst block_loop.simps) auto
  qed
qed

lemma block_requests_ok:
  assumes "layout_wf l" "i < l_piece_count l" "0 < bs" "bs \<le> MAX_BLOCK_SIZE"
  shows "\<exists>rs. block_requests l i bs = Inr rs
    \<and> blocks_tile i bs 0 rs (min (l_total_length l - i * l_piece_length l) (l_piece_length l))"
proof -
  note sz = layout_piece_size_ok(1) [OF assms(1,2)]
  have "min (l_total_length l - i * l_piece_length l) (l_piece_length l) < u32_limit"
    using assms(1) by (auto simp: layout_wf_def)
  from block_loop_tiles [OF assms(3) this, of 0 i "[]"] sz assms(3,4)
  show ?thesis by (simp add: block_requests_def)
qed

subsection \<open>The invariant and its preservation\<close>

definition sched_inv :: "piece_scheduler \<Rightarrow> bool" where
  "sched_inv s \<longleftrightarrow>
     layout_wf (layout s)
     \<and> length (availability s) = l_piece_count (layout s)
     \<and> length (completed s) = l_piece_count (layout s)
     \<and> length (inflight s) = l_piece_count (layout s)
     \<and> length (piece_prios s) = l_piece_count (layout s)
     \<and> cursor s < l_piece_count (layout s)
     \<and> (\<forall>i<l_piece_count (layout s). availability s ! i < u32_limit)
     \<and> (\<forall>i<l_piece_count (layout s). \<not> (completed s ! i \<and> inflight s ! i))"

lemma sched_inv_new: "layout_wf l \<Longrightarrow> sched_inv (scheduler_new l)"
  by (simp add: sched_inv_def scheduler_new_def Let_def layout_positive u32_limit_def)

lemma length_adjust_loop: "length (fst (adjust_loop bf c is counts)) = length counts"
  by (induction bf c "is" counts rule: adjust_loop.induct) auto

lemma adjust_loop_bound:
  "\<forall>i<length counts. counts ! i < u32_limit \<Longrightarrow>
   i < length counts \<Longrightarrow> fst (adjust_loop bf c is counts) ! i < u32_limit"
proof (induction bf c "is" counts rule: adjust_loop.induct)
  case (2 bf c j js counts)
  let ?put = "\<lambda>v. \<forall>k<length counts. counts[j := v] ! k < u32_limit"
  have down: "counts ! j \<noteq> 0 \<Longrightarrow> ?put (counts ! j - 1)"
    using "2.prems"(1) by (cases "j < length counts") (auto simp: nth_list_update less_imp_diff_less)
  have up: "\<not> u32_limit \<le> counts ! j + 1 \<Longrightarrow> ?put (counts ! j + 1)"
    using "2.prems"(1) by (cases "j < length counts") (auto simp: nth_list_update)
  show ?case
    using "2.IH" "2.prems" down up by (cases "counts ! j = 0") (simp_all del: One_nat_def)
qed simp

lemma adjust_availability_inv: "sched_inv s \<Longrightarrow> sched_inv (fst (adjust_availability s bf c))"
  using length_adjust_loop [of bf c "[0..<length (availability s)]" "availability s"]
    adjust_loop_bound [of "availability s"]
  by (auto simp: sched_inv_def adjust_availability_def split: prod.splits)
     (metis fst_conv)

lemma rarest_loop_spec:
  assumes "\<forall>b. best = Some b \<longrightarrow> (\<exists>j. b = candidate s j \<and> eligible s bf j \<and> j \<in> J)"
    and "\<forall>j \<in> J. eligible s bf j \<longrightarrow> (\<exists>b. best = Some b \<and> b \<le> candidate s j)"
  shows "(\<forall>b. rarest_loop s bf is best = Some b \<longrightarrow> (\<exists>j. b = candidate s j \<and> eligible s bf j \<and> j \<in> J \<union> set is))
    \<and> (\<forall>j \<in> J \<union> set is. eligible s bf j \<longrightarrow> (\<exists>b. rarest_loop s bf is best = Some b \<and> b \<le> candidate s j))"
  using assms
proof (induction "is" arbitrary: best J)
  case (Cons i rest)
  define best' where "best' = (if \<not> eligible s bf i then best else case best of
      None \<Rightarrow> Some (candidate s i)
    | Some current \<Rightarrow> if candidate s i < current then Some (candidate s i) else best)"
  have eq: "rarest_loop s bf (i # rest) best = rarest_loop s bf rest best'" by (simp add: best'_def)
  have 1: "\<forall>b. best' = Some b \<longrightarrow> (\<exists>j. b = candidate s j \<and> eligible s bf j \<and> j \<in> insert i J)"
    using Cons.prems(1) by (cases best) (auto simp: best'_def simp del: split_paired_All split_paired_Ex)
  have 2: "\<forall>j \<in> insert i J. eligible s bf j \<longrightarrow> (\<exists>b. best' = Some b \<and> b \<le> candidate s j)"
  proof (intro ballI impI)
    fix j assume j: "j \<in> insert i J" "eligible s bf j"
    show "\<exists>b. best' = Some b \<and> b \<le> candidate s j"
    proof (cases "j = i")
      case True
      with j(2) show ?thesis by (cases best) (auto simp: best'_def not_less simp del: split_paired_All split_paired_Ex)
    next
      case False
      then obtain b where "best = Some b" "b \<le> candidate s j" using Cons.prems(2) j by auto
      then show ?thesis by (auto simp: best'_def intro: order_trans less_imp_le simp del: split_paired_All split_paired_Ex)
    qed
  qed
  have "insert i J \<union> set rest = J \<union> set (i # rest)" by auto
  with Cons.IH [OF 1 2] eq show ?case by simp
qed simp

lemma candidate_index: "snd (snd (snd (candidate s i))) = i"
  by (simp add: candidate_def Let_def)

lemma select_rarest_None:
  assumes "select_rarest s bf = (s', None)"
  shows "s' = s \<and> (\<forall>i<l_piece_count (layout s). \<not> eligible s bf i)"
proof -
  have "\<forall>j \<in> {} \<union> set [0..<l_piece_count (layout s)]. eligible s bf j \<longrightarrow>
      (\<exists>b. rarest_loop s bf [0..<l_piece_count (layout s)] None = Some b \<and> b \<le> candidate s j)"
    using rarest_loop_spec [of None s bf "{}" "[0..<l_piece_count (layout s)]"] by simp
  with assms show ?thesis
    by (auto simp: select_rarest_def Let_def split: if_splits option.splits)
qed

lemma select_rarest_Some:
  assumes "select_rarest s bf = (s', Some i)"
  shows "i < l_piece_count (layout s) \<and> eligible s bf i
    \<and> (\<forall>j<l_piece_count (layout s). eligible s bf j \<longrightarrow> candidate s i \<le> candidate s j)
    \<and> s' = s\<lparr>inflight := (inflight s)[i := True], cursor := (i + 1) mod l_piece_count (layout s)\<rparr>"
proof -
  let ?is = "[0..<l_piece_count (layout s)]"
  obtain b where b: "rarest_loop s bf ?is None = Some b" "i = snd (snd (snd b))"
    and s': "s' = s\<lparr>inflight := (inflight s)[i := True], cursor := (i + 1) mod l_piece_count (layout s)\<rparr>"
    using assms by (auto simp: select_rarest_def Let_def split: if_splits option.splits)
  from rarest_loop_spec [of None s bf "{}" ?is] b(1)
  obtain j where j: "b = candidate s j" "eligible s bf j" "j < l_piece_count (layout s)"
    and min: "\<forall>k<l_piece_count (layout s). eligible s bf k \<longrightarrow> b \<le> candidate s k" by auto
  with b(2) candidate_index [of s j] s' show ?thesis by simp
qed

lemma select_rarest_inv: "sched_inv s \<Longrightarrow> sched_inv (fst (select_rarest s bf))"
proof (cases "select_rarest s bf")
  case (Pair s' r)
  assume inv: "sched_inv s"
  show ?thesis
  proof (cases r)
    case None
    with Pair inv select_rarest_None [of s bf s'] show ?thesis by simp
  next
    case (Some i)
    with Pair have "i < l_piece_count (layout s)" "\<not> completed s ! i"
      and s': "s' = s\<lparr>inflight := (inflight s)[i := True], cursor := (i + 1) mod l_piece_count (layout s)\<rparr>"
      using select_rarest_Some [of s bf s' i] by (auto simp: eligible_def)
    with Pair inv show ?thesis by (auto simp: sched_inv_def nth_list_update)
  qed
qed

lemma priorities_inv: "sched_inv s \<Longrightarrow> sched_inv (fst (set_piece_priorities s ps))"
  by (auto simp: sched_inv_def set_piece_priorities_def)

lemma restore_inv: "sched_inv s \<Longrightarrow> sched_inv (fst (restore_completed s cs))"
  by (auto simp: sched_inv_def restore_completed_def)

lemma marks_inv:
  assumes "sched_inv s"
  shows "sched_inv (fst (mark_inflight s i))" "sched_inv (fst (release s i))"
    "sched_inv (fst (mark_complete s i))" "sched_inv (fst (mark_incomplete s i))"
  using assms
  by (auto simp: sched_inv_def mark_inflight_def release_def mark_complete_def mark_incomplete_def
      validate_piece_def guard_def nth_list_update split: if_splits sum.splits)

subsection \<open>Peers come and go\<close>

lemma adjust_loop_connect:
  assumes "adjust_loop bf True is counts = (counts', Inr ())" "distinct is" "\<forall>i \<in> set is. i < length counts"
    "i < length counts"
  shows "counts' ! i = counts ! i + (if i \<in> set is \<and> bit_is_set bf i then 1 else 0)"
  using assms
proof (induction "is" arbitrary: counts)
  case (Cons j js)
  let ?next = "if bit_is_set bf j then counts[j := counts ! j + 1] else counts"
  have "adjust_loop bf True js ?next = (counts', Inr ())" using Cons.prems(1) by (auto split: if_splits)
  from Cons.IH [OF this] Cons.prems(2-4) show ?case
    by (cases "i = j") (auto simp: nth_list_update)
qed simp

lemma adjust_loop_disconnect:
  assumes "\<forall>i \<in> set is. bit_is_set bf i \<longrightarrow> 0 < counts ! i" "distinct is" "\<forall>i \<in> set is. i < length counts"
  shows "snd (adjust_loop bf False is counts) = Inr () \<and>
    (\<forall>i<length counts. fst (adjust_loop bf False is counts) ! i
       = counts ! i - (if i \<in> set is \<and> bit_is_set bf i then 1 else 0))"
  using assms
proof (induction "is" arbitrary: counts)
  case (Cons j js)
  let ?next = "if bit_is_set bf j then counts[j := counts ! j - 1] else counts"
  have step: "adjust_loop bf False (j # js) counts = adjust_loop bf False js ?next"
    using Cons.prems(1) by auto
  have "\<forall>i \<in> set js. bit_is_set bf i \<longrightarrow> 0 < ?next ! i"
    using Cons.prems by (auto simp: nth_list_update)
  from Cons.IH [OF this] Cons.prems(2,3) step show ?case
    by (auto simp: nth_list_update)
qed simp

lemma connect_counts:
  assumes "sched_inv s" "peer_connected s bf = (s', Inr ())"
  shows "s' = s\<lparr>availability := map (\<lambda>i. availability s ! i + (if bit_is_set bf i then 1 else 0))
                               [0..<l_piece_count (layout s)]\<rparr>"
proof -
  let ?a = "availability s"
  obtain counts where c: "adjust_loop bf True [0..<length ?a] ?a = (counts, Inr ())" "s' = s\<lparr>availability := counts\<rparr>"
    using assms(2) by (auto simp: peer_connected_def adjust_availability_def split: prod.splits)
  have len: "length counts = length ?a" "length ?a = l_piece_count (layout s)"
    using length_adjust_loop [of bf True "[0..<length ?a]" ?a] c assms(1) by (auto simp: sched_inv_def)
  have "counts = map (\<lambda>i. ?a ! i + (if bit_is_set bf i then 1 else 0)) [0..<l_piece_count (layout s)]"
    using adjust_loop_connect [OF c(1)] len by (intro nth_equalityI) auto
  with c(2) show ?thesis by simp
qed

lemma disconnect_counts:
  assumes "sched_inv s" "\<forall>i<l_piece_count (layout s). bit_is_set bf i \<longrightarrow> 0 < availability s ! i"
  shows "peer_disconnected s bf =
    (s\<lparr>availability := map (\<lambda>i. availability s ! i - (if bit_is_set bf i then 1 else 0))
                      [0..<l_piece_count (layout s)]\<rparr>, Inr ())"
proof -
  let ?a = "availability s"
  have la: "length ?a = l_piece_count (layout s)" using assms(1) by (simp add: sched_inv_def)
  obtain counts r where c: "adjust_loop bf False [0..<length ?a] ?a = (counts, r)" by fastforce
  have "length counts = length ?a" using length_adjust_loop [of bf False "[0..<length ?a]" ?a] c by simp
  moreover have "r = Inr () \<and> (\<forall>i<length ?a. counts ! i = ?a ! i - (if bit_is_set bf i then 1 else 0))"
    using adjust_loop_disconnect [of "[0..<length ?a]" bf ?a] assms(2) la c by auto
  ultimately have "counts = map (\<lambda>i. ?a ! i - (if bit_is_set bf i then 1 else 0)) [0..<l_piece_count (layout s)]"
    and "r = Inr ()" using la by (auto intro!: nth_equalityI)
  with c la show ?thesis by (simp add: peer_disconnected_def adjust_availability_def)
qed

lemma disconnect_undoes_connect:
  assumes "sched_inv s" "peer_connected s bf = (s', Inr ())"
  shows "peer_disconnected s' bf = (s, Inr ())"
proof -
  let ?n = "l_piece_count (layout s)"
  note s' = connect_counts [OF assms]
  have inv: "sched_inv s'"
    using adjust_availability_inv [OF assms(1), of bf True] assms(2) by (simp add: peer_connected_def)
  have up: "\<forall>i<?n. bit_is_set bf i \<longrightarrow> 0 < availability s' ! i" and lay: "layout s' = layout s"
    by (auto simp: s')
  have undo: "map (\<lambda>i. availability s' ! i - (if bit_is_set bf i then 1 else 0)) [0..<?n] = availability s"
    using assms(1) by (intro nth_equalityI) (auto simp: s' sched_inv_def)
  from disconnect_counts [OF inv, of bf] up lay
  have "peer_disconnected s' bf = (s'\<lparr>availability := availability s\<rparr>, Inr ())" using undo by simp
  also have "s'\<lparr>availability := availability s\<rparr> = s" by (simp add: s')
  finally show ?thesis .
qed

subsection \<open>Completed bytes\<close>

lemma completed_bytes_eq:
  assumes "sched_inv s"
  shows "completed_bytes s =
    (\<Sum>i<l_piece_count (layout s). if completed s ! i then the (ok (layout_piece_size (layout s) i)) else 0)"
proof -
  let ?l = "layout s" and ?n = "l_piece_count (layout s)"
  have wf: "layout_wf ?l" and len: "length (completed s) = ?n" using assms by (auto simp: sched_inv_def)
  have n: "?n < u32_limit" using wf by (simp add: layout_wf_def)
  have "sum_list (List.map_filter (\<lambda>(index, complete).
           if complete then ok (layout_piece_size ?l (index mod u32_limit)) else None) xs)
      = (\<Sum>(i, c) \<leftarrow> xs. if c then the (ok (layout_piece_size ?l i)) else 0)"
    if "\<forall>(i, c) \<in> set xs. i < ?n" for xs
    using that n by (induction xs) (auto simp: map_filter_simps layout_piece_size_ok(1) [OF wf])
  moreover have "\<forall>(i, c) \<in> set (enumerate 0 (completed s)). i < ?n"
    using len by (auto simp: in_set_enumerate_eq)
  moreover have "(\<Sum>(i, c) \<leftarrow> enumerate 0 (completed s). if c then the (ok (layout_piece_size ?l i)) else 0)
      = (\<Sum>i<?n. if completed s ! i then the (ok (layout_piece_size ?l i)) else 0)"
    by (subst sum_list_sum_nth) (simp add: len nth_enumerate_eq atLeast0LessThan)
  ultimately show ?thesis by (simp add: completed_bytes_def)
qed

lemma completed_bytes_bounds:
  assumes "sched_inv s"
  shows "completed_bytes s \<le> l_total_length (layout s)"
    and "completed_bytes s = l_total_length (layout s) \<longleftrightarrow> is_complete s"
proof -
  let ?l = "layout s" and ?n = "l_piece_count (layout s)"
  let ?size = "\<lambda>i. the (ok (layout_piece_size ?l i))"
  have wf: "layout_wf ?l" and len: "length (completed s) = ?n" using assms by (auto simp: sched_inv_def)
  have pos: "0 < ?size i" if "i < ?n" for i :: nat
    using layout_piece_size_ok [OF wf that] wf by (simp add: layout_wf_def)
  note tot = layout_sum_total [OF wf]
  show "completed_bytes s \<le> l_total_length ?l"
    unfolding completed_bytes_eq [OF assms] tot [symmetric] by (intro sum_mono) simp
  show "completed_bytes s = l_total_length ?l \<longleftrightarrow> is_complete s"
  proof
    assume eq: "completed_bytes s = l_total_length ?l"
    show "is_complete s"
    proof (rule ccontr)
      assume "\<not> is_complete s"
      then obtain k where k: "k < ?n" "\<not> completed s ! k"
        using len by (auto simp: is_complete_def list_all_length)
      have "(\<Sum>i<?n. if completed s ! i then ?size i else 0) < (\<Sum>i<?n. ?size i)"
        using k pos by (intro sum_strict_mono_ex1) auto
      with eq tot show False by (simp add: completed_bytes_eq [OF assms])
    qed
  next
    assume "is_complete s"
    then have "\<forall>i<?n. completed s ! i" using len by (simp add: is_complete_def list_all_length)
    then show "completed_bytes s = l_total_length ?l"
      unfolding completed_bytes_eq [OF assms] tot [symmetric] by (intro sum.cong) auto
  qed
qed

subsection \<open>Reachable states\<close>

text \<open>One rule per public \<open>&mut self\<close> method; a call that fails is a step as well, since it can have
  changed part of the state.\<close>

inductive sched_step :: "piece_scheduler \<Rightarrow> piece_scheduler \<Rightarrow> bool" where
  connect: "peer_connected s bf = (s', r) \<Longrightarrow> sched_step s s'"
| disconnect: "peer_disconnected s bf = (s', r) \<Longrightarrow> sched_step s s'"
| priorities: "set_piece_priorities s ps = (s', r) \<Longrightarrow> sched_step s s'"
| restore: "restore_completed s cs = (s', r) \<Longrightarrow> sched_step s s'"
| pick: "select_rarest s bf = (s', k) \<Longrightarrow> sched_step s s'"
| reserve: "mark_inflight s i = (s', r) \<Longrightarrow> sched_step s s'"
| give_up: "release s i = (s', r) \<Longrightarrow> sched_step s s'"
| finish: "mark_complete s i = (s', r) \<Longrightarrow> sched_step s s'"
| redo: "mark_incomplete s i = (s', r) \<Longrightarrow> sched_step s s'"

lemma sched_step_inv: "sched_step s s' \<Longrightarrow> sched_inv s \<Longrightarrow> sched_inv s'"
proof (induction rule: sched_step.induct)
  case (connect s bf s' r)
  with adjust_availability_inv [of s bf True] show ?case by (simp add: peer_connected_def)
next
  case (disconnect s bf s' r)
  with adjust_availability_inv [of s bf False] show ?case by (simp add: peer_disconnected_def)
next
  case (priorities s ps s' r)
  with priorities_inv [of s ps] show ?case by simp
next
  case (restore s cs s' r)
  with restore_inv [of s cs] show ?case by simp
next
  case (pick s bf s' k)
  with select_rarest_inv [of s bf] show ?case by simp
next
  case (reserve s i s' r)
  with marks_inv(1) [of s i] show ?case by simp
next
  case (give_up s i s' r)
  with marks_inv(2) [of s i] show ?case by simp
next
  case (finish s i s' r)
  with marks_inv(3) [of s i] show ?case by simp
next
  case (redo s i s' r)
  with marks_inv(4) [of s i] show ?case by simp
qed

inductive sched_reachable :: "nat \<Rightarrow> nat \<Rightarrow> piece_scheduler \<Rightarrow> bool" for total_length piece_length where
  start: "layout_new total_length piece_length = Inr l \<Longrightarrow>
          sched_reachable total_length piece_length (scheduler_new l)"
| step: "sched_reachable total_length piece_length s \<Longrightarrow> sched_step s s' \<Longrightarrow>
         sched_reachable total_length piece_length s'"

lemma sched_reachable_inv: "sched_reachable t p s \<Longrightarrow> sched_inv s"
  by (induction rule: sched_reachable.induct) (auto dest: layout_new_wf sched_inv_new sched_step_inv)

lemma sched_step_layout: "sched_step s s' \<Longrightarrow> layout s' = layout s"
  by (induction rule: sched_step.induct)
     (auto simp: peer_connected_def peer_disconnected_def adjust_availability_def set_piece_priorities_def
       restore_completed_def select_rarest_def mark_inflight_def release_def mark_complete_def
       mark_incomplete_def Let_def split: prod.splits if_splits option.splits sum.splits)

lemma sched_reachable_layout: "sched_reachable t p s \<Longrightarrow> layout_new t p = Inr (layout s)"
  by (induction rule: sched_reachable.induct) (auto simp: scheduler_new_def Let_def sched_step_layout)

subsection \<open>Assigning pieces until none is left\<close>

text \<open>A caller that asks \<open>select_rarest\<close> again and again for one peer, for at most \<open>n\<close> pieces.\<close>

fun assign_all :: "nat \<Rightarrow> piece_scheduler \<Rightarrow> u8 list \<Rightarrow> piece_scheduler \<times> nat list" where
  "assign_all 0 s bf = (s, [])"
| "assign_all (Suc n) s bf =
     (case select_rarest s bf of
        (s', None) \<Rightarrow> (s', [])
      | (s', Some i) \<Rightarrow> (let (t, is) = assign_all n s' bf in (t, i # is)))"

abbreviation eligible_set :: "piece_scheduler \<Rightarrow> u8 list \<Rightarrow> nat set" where
  "eligible_set s bf \<equiv> {i. i < l_piece_count (layout s) \<and> eligible s bf i}"

lemma eligible_after_pick:
  assumes "sched_inv s" "select_rarest s bf = (s', Some i)"
  shows "eligible_set s' bf = eligible_set s bf - {i}" and "i \<in> eligible_set s bf"
proof -
  have i: "i < l_piece_count (layout s)" "eligible s bf i"
    and s': "s' = s\<lparr>inflight := (inflight s)[i := True], cursor := (i + 1) mod l_piece_count (layout s)\<rparr>"
    using select_rarest_Some [OF assms(2)] by auto
  then show "i \<in> eligible_set s bf" by simp
  have "length (inflight s) = l_piece_count (layout s)" using assms(1) by (simp add: sched_inv_def)
  with i show "eligible_set s' bf = eligible_set s bf - {i}"
    by (auto simp: s' eligible_def nth_list_update)
qed

lemma assign_all_spec:
  assumes "sched_inv s" "card (eligible_set s bf) \<le> n" "assign_all n s bf = (t, is)"
  shows "distinct is \<and> set is = eligible_set s bf \<and> eligible_set t bf = {}"
  using assms
proof (induction n arbitrary: s t "is")
  case 0
  have "finite (eligible_set s bf)" by simp
  with 0 show ?case by auto
next
  case (Suc n)
  show ?case
  proof (cases "select_rarest s bf")
    case (Pair s' r)
    show ?thesis
    proof (cases r)
      case None
      with Pair Suc.prems select_rarest_None [of s bf s'] show ?thesis by auto
    next
      case (Some i)
      with Pair have sel: "select_rarest s bf = (s', Some i)" by simp
      then obtain is' where rest: "assign_all n s' bf = (t, is')" "is = i # is'"
        using Suc.prems(3) by (auto split: prod.splits)
      have inv: "sched_inv s'" using select_rarest_inv [OF Suc.prems(1), of bf] sel by simp
      note e = eligible_after_pick [OF Suc.prems(1) sel]
      have "card (eligible_set s' bf) \<le> n" using e Suc.prems(2) by (simp add: card_Diff_singleton)
      from Suc.IH [OF inv this rest(1)] e rest(2) show ?thesis by auto
    qed
  qed
qed

lemma card_eligible: "card (eligible_set s bf) \<le> l_piece_count (layout s)"
  using card_mono [of "{..<l_piece_count (layout s)}" "eligible_set s bf"] by auto

subsection \<open>Properties\<close>

definition sample_layout :: piece_layout where
  "sample_layout = \<lparr>l_total_length = 10, l_piece_length = 4, l_piece_count = 3\<rparr>"

definition sample_sched :: piece_scheduler where
  "sample_sched = \<lparr>layout = sample_layout, availability = [1, 1, 1], completed = [False, False, False],
     inflight = [False, False, False], piece_prios = [Normal, Normal, Normal], cursor = 0\<rparr>"

lemma sample_layout_new: "layout_new 10 4 = Inr sample_layout"
  by (simp add: layout_new_def sample_layout_def checked_add64_def u32_limit_def u64_limit_def)

lemma sample_connect: "peer_connected (scheduler_new sample_layout) [0xE0] = (sample_sched, Inr ())"
  by (simp add: peer_connected_def adjust_availability_def scheduler_new_def sample_layout_def
      sample_sched_def bit_is_set_def get_opt_def u32_limit_def upt_rec numeral_3_eq_3)

lemma sample_reachable: "sched_reachable 10 4 (scheduler_new sample_layout)" "sched_reachable 10 4 sample_sched"
proof -
  show r: "sched_reachable 10 4 (scheduler_new sample_layout)" by (rule start [OF sample_layout_new])
  show "sched_reachable 10 4 sample_sched" by (rule step [OF r connect [OF sample_connect]])
qed

text \<open>C29: Whatever calls are made on a scheduler, in any order and with any arguments, failing ones
  included, its vectors keep one entry per piece, the cursor stays inside them, the availability
  counts stay 32-bit, no piece is both complete and in flight, and the layout never changes.\<close>
theorem scheduler_invariant:
  assumes "sched_reachable total_length piece_length s"
  shows "sched_inv s \<and> layout_new total_length piece_length = Inr (layout s)"
  using assms by (simp add: sched_reachable_inv sched_reachable_layout)

theorem scheduler_invariant_witness:
  "sched_inv sample_sched \<and> layout_new 10 4 = Inr (layout sample_sched)"
  by (rule scheduler_invariant [OF sample_reachable(2)])

text \<open>C14: \<open>select_rarest\<close> is right about every piece: it gives none only when the peer has no
  wanted, missing, unassigned piece with a known source, and then changes nothing; otherwise it
  marks exactly the piece it returns, which is such a piece, no other such piece has a higher
  priority, none of the same priority is rarer, and among equally rare ones it is the first after
  the cursor.\<close>
theorem select_rarest_correct:
  assumes "sched_reachable total_length piece_length s" "select_rarest s bf = (s', r)"
  shows "case r of
      None \<Rightarrow> s' = s \<and> eligible_set s bf = {}
    | Some i \<Rightarrow> i \<in> eligible_set s bf
        \<and> s' = s\<lparr>inflight := (inflight s)[i := True], cursor := (i + 1) mod l_piece_count (layout s)\<rparr>
        \<and> (\<forall>j \<in> eligible_set s bf. piece_prios s ! j \<le> piece_prios s ! i
            \<and> (piece_prios s ! j = piece_prios s ! i \<longrightarrow> availability s ! i \<le> availability s ! j
              \<and> (availability s ! i = availability s ! j \<longrightarrow>
                   (i + l_piece_count (layout s) - cursor s) mod l_piece_count (layout s)
                   \<le> (j + l_piece_count (layout s) - cursor s) mod l_piece_count (layout s))))"
proof (cases r)
  case None
  with assms(2) select_rarest_None [of s bf s'] show ?thesis by auto
next
  case (Some i)
  let ?n = "l_piece_count (layout s)"
  have inv: "sched_inv s" using assms(1) by (rule sched_reachable_inv)
  then have cur: "cursor s < ?n" and n: "?n < u32_limit" by (auto simp: sched_inv_def layout_wf_def)
  have dist: "wrapping_sub64 (j + ?n) (cursor s) = j + ?n - cursor s" if "j < ?n" for j
    using that cur n by (simp add: u32_limit_def u64_limit_def)
  note sel = select_rarest_Some [OF assms(2) [unfolded Some]]
  have less: "candidate s i \<le> candidate s j" if "j \<in> eligible_set s bf" for j using sel that by blast
  have prio: "piece_prios s ! j \<le> piece_prios s ! i \<longleftrightarrow>
      rarity_rank (piece_prios s ! i) \<le> rarity_rank (piece_prios s ! j)" for j
    by (cases "piece_prios s ! j"; cases "piece_prios s ! i") (auto simp: less_eq_FilePriority_def)
  show ?thesis
    using sel Some less dist
    by (auto simp: prio candidate_def Let_def less_eq_prod_def)
qed

theorem select_rarest_correct_witness:
  "\<exists>s' r. select_rarest sample_sched [0x40] = (s', r) \<and> r = Some 1 \<and> inflight s' = [False, True, False]"
proof -
  obtain s' r where sel: "select_rarest sample_sched [0x40] = (s', r)" by fastforce
  have e: "eligible_set sample_sched [0x40] = {1}"
    by (auto simp: eligible_def sample_sched_def sample_layout_def bit_is_set_def get_opt_def is_selected_def
        less_Suc_eq numeral_3_eq_3)
  note c = select_rarest_correct [OF sample_reachable(2) sel]
  from c e obtain i where r: "r = Some i" by (cases r) auto
  with c e have "i \<in> {1}" "s' = sample_sched\<lparr>inflight := (inflight sample_sched)[i := True],
      cursor := (i + 1) mod l_piece_count (layout sample_sched)\<rparr>" by (simp_all del: Collect_conj_eq)
  with r sel show ?thesis by (simp add: sample_sched_def)
qed

text \<open>Asking for one peer until no piece is given assigns every piece the peer can serve exactly
  once, after at most one call per piece; no piece is forgotten and none is given twice.\<close>
lemma assign_all_complete:
  assumes "sched_reachable total_length piece_length s" "l_piece_count (layout s) \<le> n"
    "assign_all n s bf = (t, is)"
  shows "distinct is \<and> set is = eligible_set s bf \<and> select_rarest t bf = (t, None)"
proof -
  have "distinct is \<and> set is = eligible_set s bf \<and> eligible_set t bf = {}"
    using assign_all_spec [OF sched_reachable_inv [OF assms(1)] _ assms(3)]
      le_trans [OF card_eligible assms(2)] by blast
  moreover have "eligible_set t bf = {} \<Longrightarrow> select_rarest t bf = (t, None)"
    using select_rarest_None [of t bf] select_rarest_Some [of t bf]
    by (cases "select_rarest t bf"; cases "snd (select_rarest t bf)") auto
  ultimately show ?thesis by simp
qed

text \<open>When a peer's bitfield is counted without an error, taking the same bitfield away gives
  back the scheduler as it was.\<close>
lemma peer_disconnect_restores:
  assumes "sched_reachable total_length piece_length s" "peer_connected s bf = (s', Inr ())"
  shows "peer_disconnected s' bf = (s, Inr ())
    \<and> (\<forall>i<l_piece_count (layout s). availability s' ! i = availability s ! i + of_bool (bit_is_set bf i))"
  using disconnect_undoes_connect [OF sched_reachable_inv [OF assms(1)] assms(2)]
    connect_counts [OF sched_reachable_inv [OF assms(1)] assms(2)] by simp

text \<open>The progress in bytes is exact: it never exceeds the payload, and it reaches the total
  length exactly when every piece is complete.\<close>
lemma completed_bytes_total:
  assumes "sched_reachable total_length piece_length s"
  shows "completed_bytes s \<le> total_length \<and> (completed_bytes s = total_length \<longleftrightarrow> is_complete s)"
proof -
  have "l_total_length (layout s) = total_length"
    using layout_new_wf [OF sched_reachable_layout [OF assms]] by simp
  with completed_bytes_bounds [OF sched_reachable_inv [OF assms]] show ?thesis by simp
qed

text \<open>The block requests of a piece tile it: they never fail for a piece of the layout and a
  legal block size, start at offset zero, follow each other without gap or overlap, are neither
  empty nor larger than the block size, and end where the piece ends.\<close>
lemma block_requests_tile:
  assumes "layout_new total_length piece_length = Inr l" "i < l_piece_count l"
    "0 < block_size" "block_size \<le> MAX_BLOCK_SIZE"
  shows "\<exists>rs. block_requests l i block_size = Inr rs \<and>
    blocks_tile i block_size 0 rs (min (total_length - i * piece_length) piece_length)"
proof -
  have l: "layout_wf l" "l_total_length l = total_length" "l_piece_length l = piece_length"
    using layout_new_wf [OF assms(1)] by auto
  show ?thesis using block_requests_ok [OF l(1) assms(2-4)] l(2,3) by simp
qed

end
