(* ===== verification/Peer.thy ===== *)
theory Peer
  imports Bitfield
begin

text \<open>
  \<open>crates/nova-torrent-core/src/peer.rs\<close>: the handshake, the peer messages with their frame
  encoder and decoder, and the choke/interest/bitfield state kept for a peer; and the frame
  readers of \<open>src-tauri/src/daemon/torrent_peer.rs\<close> and \<open>torrent_seed.rs\<close>, which take the
  frames off a socket. A socket is the list of the bytes it delivers before it ends, times out or
  is cancelled. Rust's fixed-size arrays are lists, their length being part of well-formedness.
  The locale \<open>frame_stream\<close> states what a frame reader promises.
\<close>

unbundle bit_operations_syntax

definition PEER_HANDSHAKE_LEN :: nat where "PEER_HANDSHAKE_LEN = 68"
definition MAX_PEER_FRAME_BYTES :: nat where "MAX_PEER_FRAME_BYTES = 2 * 1024 * 1024"
definition BITTORRENT_PROTOCOL :: "u8 list" where "BITTORRENT_PROTOCOL = lit ''BitTorrent protocol''"

datatype PeerWireError =
    InvalidHandshake
  | IncompleteFrame nat nat
  | FrameTooLarge nat
  | UnsupportedMessage u8
  | PieceOutOfRange nat nat
  | InvalidBitfieldLength nat nat
  | InvalidBitfieldPadding
  | InvalidPayloadLength u8 nat nat

subsection \<open>Handshake\<close>

record peer_handshake =
  h_reserved :: "u8 list"
  h_info_hash :: "u8 list"
  h_peer_id :: "u8 list"

definition handshake_new :: "u8 list \<Rightarrow> u8 list \<Rightarrow> peer_handshake" where
  "handshake_new info_hash peer_id =
     \<lparr>h_reserved = replicate 8 0, h_info_hash = info_hash, h_peer_id = peer_id\<rparr>"

definition handshake_encode :: "peer_handshake \<Rightarrow> u8 list" where
  "handshake_encode h =
     [of_nat (length BITTORRENT_PROTOCOL)] @ BITTORRENT_PROTOCOL @ h_reserved h @ h_info_hash h @ h_peer_id h"

definition handshake_decode :: "u8 list \<Rightarrow> (PeerWireError, peer_handshake) result" where
  "handshake_decode input =
     (if length input < PEER_HANDSHAKE_LEN then Inl (IncompleteFrame PEER_HANDSHAKE_LEN (length input))
      else if unat (input ! 0) \<noteq> length BITTORRENT_PROTOCOL \<or> bslice input 1 20 \<noteq> BITTORRENT_PROTOCOL
      then Inl InvalidHandshake
      else Inr \<lparr>h_reserved = bslice input 20 28, h_info_hash = bslice input 28 48,
                h_peer_id = bslice input 48 68\<rparr>)"

definition supports_extension_protocol :: "peer_handshake \<Rightarrow> bool" where
  "supports_extension_protocol h \<longleftrightarrow> h_reserved h ! 5 AND 0x10 \<noteq> 0"

definition supports_dht_port :: "peer_handshake \<Rightarrow> bool" where
  "supports_dht_port h \<longleftrightarrow> h_reserved h ! 7 AND 0x01 \<noteq> 0"

subsection \<open>Messages\<close>

datatype PeerMessage =
    KeepAlive
  | Choke
  | Unchoke
  | Interested
  | NotInterested
  | Have u32
  | BitfieldMsg "u8 list"
  | Request u32 u32 u32
  | Piece u32 u32 "u8 list"
  | Cancel u32 u32 u32
  | Port u16
  | Extended u8 "u8 list"

definition encode_empty_message :: "u8 \<Rightarrow> u8 list" where
  "encode_empty_message mid = to_be32 1 @ [mid]"

definition encode_request_like :: "u8 \<Rightarrow> u32 \<Rightarrow> u32 \<Rightarrow> u32 \<Rightarrow> u8 list" where
  "encode_request_like mid piece_index begin len =
     to_be32 13 @ [mid] @ to_be32 piece_index @ to_be32 begin @ to_be32 len"

definition ensure_frame_size :: "nat \<Rightarrow> (PeerWireError, unit) result" where
  "ensure_frame_size len = guard (MAX_PEER_FRAME_BYTES < len) (FrameTooLarge len)"

definition ensure_payload_len :: "u8 \<Rightarrow> u8 list \<Rightarrow> nat \<Rightarrow> (PeerWireError, unit) result" where
  "ensure_payload_len mid payload expected =
     guard (length payload \<noteq> expected) (InvalidPayloadLength mid expected (length payload))"

text \<open>The three messages with a variable part share the length arithmetic of \<open>encode\<close>.\<close>

definition encode_sized :: "nat \<Rightarrow> u8 \<Rightarrow> u8 list \<Rightarrow> u8 list \<Rightarrow> (PeerWireError, u8 list) result" where
  "encode_sized overhead mid hdr body =
     rbind (ok_or (FrameTooLarge (u64_limit - 1)) (checked_add64 (length body) overhead)) (\<lambda>frame_length.
     rbind (ensure_frame_size frame_length) (\<lambda>_.
     Inr (to_be32 (of_nat frame_length) @ [mid] @ hdr @ body)))"

fun message_encode :: "PeerMessage \<Rightarrow> (PeerWireError, u8 list) result" where
  "message_encode KeepAlive = Inr (to_be32 0)"
| "message_encode Choke = Inr (encode_empty_message 0)"
| "message_encode Unchoke = Inr (encode_empty_message 1)"
| "message_encode Interested = Inr (encode_empty_message 2)"
| "message_encode NotInterested = Inr (encode_empty_message 3)"
| "message_encode (Have piece_index) = Inr (to_be32 5 @ [4] @ to_be32 piece_index)"
| "message_encode (BitfieldMsg bitfield) = encode_sized 1 5 [] bitfield"
| "message_encode (Request piece_index begin len) = Inr (encode_request_like 6 piece_index begin len)"
| "message_encode (Piece piece_index begin block) =
     encode_sized 9 7 (to_be32 piece_index @ to_be32 begin) block"
| "message_encode (Cancel piece_index begin len) = Inr (encode_request_like 8 piece_index begin len)"
| "message_encode (Port port) = Inr (to_be32 3 @ [9] @ to_be16 port)"
| "message_encode (Extended extension_id payload) = encode_sized 2 20 [extension_id] payload"

definition decode_payload :: "u8 \<Rightarrow> u8 list \<Rightarrow> (PeerWireError, PeerMessage) result" where
  "decode_payload mid payload =
     (if mid = 0 then rbind (ensure_payload_len mid payload 0) (\<lambda>_. Inr Choke)
      else if mid = 1 then rbind (ensure_payload_len mid payload 0) (\<lambda>_. Inr Unchoke)
      else if mid = 2 then rbind (ensure_payload_len mid payload 0) (\<lambda>_. Inr Interested)
      else if mid = 3 then rbind (ensure_payload_len mid payload 0) (\<lambda>_. Inr NotInterested)
      else if mid = 4 then rbind (ensure_payload_len mid payload 4) (\<lambda>_. Inr (Have (read_be32 payload 0)))
      else if mid = 5 then Inr (BitfieldMsg payload)
      else if mid = 6 then rbind (ensure_payload_len mid payload 12) (\<lambda>_.
        Inr (Request (read_be32 payload 0) (read_be32 payload 4) (read_be32 payload 8)))
      else if mid = 7 then
        (if length payload < 9 then Inl (InvalidPayloadLength mid 9 (length payload))
         else Inr (Piece (read_be32 payload 0) (read_be32 payload 4) (drop 8 payload)))
      else if mid = 8 then rbind (ensure_payload_len mid payload 12) (\<lambda>_.
        Inr (Cancel (read_be32 payload 0) (read_be32 payload 4) (read_be32 payload 8)))
      else if mid = 9 then rbind (ensure_payload_len mid payload 2) (\<lambda>_.
        Inr (Port (from_be16 (payload ! 0) (payload ! 1))))
      else if mid = 20 then
        (if payload = [] then Inl (InvalidPayloadLength mid 1 0)
         else Inr (Extended (payload ! 0) (drop 1 payload)))
      else Inl (UnsupportedMessage mid))"

definition decode_frame :: "u8 list \<Rightarrow> (PeerWireError, PeerMessage \<times> nat) result" where
  "decode_frame input =
     (if length input < 4 then Inl (IncompleteFrame 4 (length input))
      else
        (let len = unat (read_be32 input 0) in
         if len = 0 then Inr (KeepAlive, 4)
         else rbind (ensure_frame_size len) (\<lambda>_.
         rbind (ok_or (FrameTooLarge len) (checked_add64 len 4)) (\<lambda>tot.
         if length input < tot then Inl (IncompleteFrame tot (length input))
         else rbind (decode_payload (input ! 4) (bslice input 5 tot)) (\<lambda>message.
         Inr (message, tot))))))"

subsection \<open>Peer state\<close>

record peer_state =
  p_piece_count :: nat
  peer_choking :: bool
  peer_interested :: bool
  am_choking :: bool
  am_interested :: bool
  p_bitfield :: "u8 list"

definition peer_state_new :: "nat \<Rightarrow> peer_state" where
  "peer_state_new piece_count =
     \<lparr>p_piece_count = piece_count, peer_choking = True, peer_interested = False,
      am_choking = True, am_interested = False, p_bitfield = replicate (div_ceil piece_count 8) 0\<rparr>"

definition set_am_choking :: "peer_state \<Rightarrow> bool \<Rightarrow> peer_state" where
  "set_am_choking s v = s\<lparr>am_choking := v\<rparr>"

definition set_am_interested :: "peer_state \<Rightarrow> bool \<Rightarrow> peer_state" where
  "set_am_interested s v = s\<lparr>am_interested := v\<rparr>"

definition has_piece :: "peer_state \<Rightarrow> nat \<Rightarrow> bool" where
  "has_piece s piece_index =
     (if p_piece_count s \<le> piece_index then False else bit_is_set (p_bitfield s) piece_index)"

definition validate_bitfield :: "u8 list \<Rightarrow> nat \<Rightarrow> (PeerWireError, unit) result" where
  "validate_bitfield bitfield piece_count =
     (let expected = div_ceil piece_count 8 in
      if length bitfield \<noteq> expected then Inl (InvalidBitfieldLength expected (length bitfield))
      else if piece_count = 0 \<or> bitfield = [] then Inr ()
      else
        (let used_bits = piece_count mod 8 in
         if used_bits \<noteq> 0 then
           (if last bitfield AND unused_mask used_bits \<noteq> 0 then Inl InvalidBitfieldPadding else Inr ())
         else Inr ()))"

fun peer_apply :: "peer_state \<Rightarrow> PeerMessage \<Rightarrow> peer_state \<times> (PeerWireError, unit) result" where
  "peer_apply s Choke = (s\<lparr>peer_choking := True\<rparr>, Inr ())"
| "peer_apply s Unchoke = (s\<lparr>peer_choking := False\<rparr>, Inr ())"
| "peer_apply s Interested = (s\<lparr>peer_interested := True\<rparr>, Inr ())"
| "peer_apply s NotInterested = (s\<lparr>peer_interested := False\<rparr>, Inr ())"
| "peer_apply s (Have piece_index) =
     (if p_piece_count s \<noteq> 0 then
        (if p_piece_count s \<le> unat piece_index
         then (s, Inl (PieceOutOfRange (unat piece_index) (p_piece_count s)))
         else (s\<lparr>p_bitfield := set_bit (p_bitfield s) (unat piece_index)\<rparr>, Inr ()))
      else (s, Inr ()))"
| "peer_apply s (BitfieldMsg bitfield) =
     (case (if p_piece_count s \<noteq> 0 then validate_bitfield bitfield (p_piece_count s) else Inr ()) of
        Inl e \<Rightarrow> (s, Inl e)
      | Inr _ \<Rightarrow> (s\<lparr>p_bitfield := bitfield\<rparr>, Inr ()))"
| "peer_apply s _ = (s, Inr ())"

subsection \<open>Reading frames off a socket\<close>

definition MAX_SEED_CONTROL_FRAME_BYTES :: nat where "MAX_SEED_CONTROL_FRAME_BYTES = 64 * 1024"

datatype frame_fault =
    ReadFailed string
  | FrameOverLimit nat nat
  | FrameLengthOverflow
  | BadFrame PeerWireError

definition read_exact :: "string \<Rightarrow> nat \<Rightarrow> u8 list \<Rightarrow> (frame_fault, u8 list \<times> u8 list) result" where
  "read_exact operation n stream =
     (if length stream < n then Inl (ReadFailed operation) else Inr (take n stream, drop n stream))"

definition read_peer_frame :: "u8 list \<Rightarrow> (frame_fault, PeerMessage \<times> u8 list) result" where
  "read_peer_frame stream =
     rbind (read_exact ''peer frame length'' 4 stream) (\<lambda>(prefix, stream1).
     let len = unat (read_be32 prefix 0) in
     if MAX_PEER_FRAME_BYTES < len then Inl (FrameOverLimit MAX_PEER_FRAME_BYTES len)
     else if len = 0 then Inr (KeepAlive, stream1)
     else rbind (ok_or FrameLengthOverflow (checked_add64 len 4)) (\<lambda>tot.
     rbind (read_exact ''peer frame payload'' (tot - 4) stream1) (\<lambda>(payload, stream2).
     map_err BadFrame (rbind (decode_frame (prefix @ payload)) (\<lambda>(message, _). Inr (message, stream2))))))"

definition seed_read_peer_frame :: "u8 list \<Rightarrow> (frame_fault, PeerMessage \<times> u8 list) result" where
  "seed_read_peer_frame stream =
     rbind (read_exact ''inbound peer frame length'' 4 stream) (\<lambda>(prefix, stream1).
     let len = unat (read_be32 prefix 0) in
     if MAX_PEER_FRAME_BYTES < len \<or> MAX_SEED_CONTROL_FRAME_BYTES < len
     then Inl (FrameOverLimit MAX_SEED_CONTROL_FRAME_BYTES len)
     else if len = 0 then Inr (KeepAlive, stream1)
     else rbind (ok_or FrameLengthOverflow (checked_add64 len 4)) (\<lambda>tot.
     rbind (read_exact ''inbound peer frame payload'' (tot - 4) stream1) (\<lambda>(payload, stream2).
     map_err BadFrame (rbind (decode_frame (prefix @ payload)) (\<lambda>(message, _). Inr (message, stream2))))))"

subsection \<open>Frame codec\<close>

definition frame :: "u8 \<Rightarrow> u8 list \<Rightarrow> u8 list" where
  "frame mid payload = to_be32 (of_nat (length payload + 1)) @ mid # payload"

text \<open>A block without data cannot be received: the decoder wants at least one byte of it.\<close>

fun receivable :: "PeerMessage \<Rightarrow> bool" where
  "receivable (Piece piece_index begin block) = (block \<noteq> [])"
| "receivable m = True"

lemma length_frame [simp]: "length (frame mid payload) = length payload + 5"
  by (simp add: frame_def)

lemma decode_frame_frame:
  assumes "length payload + 1 \<le> MAX_PEER_FRAME_BYTES"
  shows "decode_frame (frame mid payload @ rest)
    = rbind (decode_payload mid payload) (\<lambda>m. Inr (m, length (frame mid payload)))"
proof -
  let ?n = "length payload + 1" and ?in = "frame mid payload @ rest"
  have lim: "?n < 2 ^ 32" using assms by (simp add: MAX_PEER_FRAME_BYTES_def)
  then have len: "unat (read_be32 ?in 0) = ?n"
    by (simp add: frame_def unat_of_nat del: of_nat_Suc of_nat_add)
  have slice: "bslice ?in 5 (?n + 4) = payload" and head: "?in ! 4 = mid"
    by (simp_all add: frame_def bslice_def to_be32_def numeral_eq_Suc)
  have "checked_add64 ?n 4 = Some (?n + 4)" using lim by (simp add: checked_add64_def u64_limit_def)
  with len slice head assms show ?thesis
    by (simp add: decode_frame_def ensure_frame_size_def Let_def add.commute del: of_nat_Suc of_nat_add)
qed

lemma encode_sized_iff:
  assumes "overhead = length hdr + 1"
  shows "encode_sized overhead mid hdr body = Inr bs \<longleftrightarrow>
    bs = frame mid (hdr @ body) \<and> length (hdr @ body) + 1 \<le> MAX_PEER_FRAME_BYTES"
proof -
  have n: "length body + overhead = length (hdr @ body) + 1" using assms by simp
  show ?thesis
  proof (cases "length (hdr @ body) + 1 \<le> MAX_PEER_FRAME_BYTES")
    case True
    then have "length (hdr @ body) + 1 < u64_limit" by (simp add: MAX_PEER_FRAME_BYTES_def u64_limit_def)
    with True show ?thesis
      unfolding encode_sized_def checked_add64_def ensure_frame_size_def n frame_def by (auto simp: guard_def)
  next
    case False
    then show ?thesis
      unfolding encode_sized_def checked_add64_def ensure_frame_size_def n by (auto simp: guard_def)
  qed
qed

text \<open>The message id and the payload a message has on the wire.\<close>

fun wire_form :: "PeerMessage \<Rightarrow> (u8 \<times> u8 list) option" where
  "wire_form KeepAlive = None"
| "wire_form Choke = Some (0, [])"
| "wire_form Unchoke = Some (1, [])"
| "wire_form Interested = Some (2, [])"
| "wire_form NotInterested = Some (3, [])"
| "wire_form (Have i) = Some (4, to_be32 i)"
| "wire_form (BitfieldMsg bf) = Some (5, bf)"
| "wire_form (Request i b n) = Some (6, to_be32 i @ to_be32 b @ to_be32 n)"
| "wire_form (Piece i b block) = Some (7, to_be32 i @ to_be32 b @ block)"
| "wire_form (Cancel i b n) = Some (8, to_be32 i @ to_be32 b @ to_be32 n)"
| "wire_form (Port p) = Some (9, to_be16 p)"
| "wire_form (Extended e payload) = Some (20, e # payload)"

lemma message_encode_wire:
  "message_encode m = Inr bs \<longleftrightarrow>
     (case wire_form m of
        None \<Rightarrow> bs = to_be32 0
      | Some (mid, payload) \<Rightarrow> bs = frame mid payload \<and> length payload + 1 \<le> MAX_PEER_FRAME_BYTES)"
  by (cases m)
     (auto simp: encode_sized_iff encode_empty_message_def encode_request_like_def frame_def MAX_PEER_FRAME_BYTES_def)

lemma split_be32_three:
  assumes "length bs = 12"
  shows "bs = to_be32 (read_be32 bs 0) @ to_be32 (read_be32 bs 4) @ to_be32 (read_be32 bs 8)"
  using split_be32 [of bs] split_be32 [of "drop 4 bs"] split_be32 [of "drop 8 bs"]
    read_be32_drop [of 4 bs] read_be32_drop [of 8 bs] assms by simp

lemma split_be32_two:
  assumes "8 \<le> length bs"
  shows "bs = to_be32 (read_be32 bs 0) @ to_be32 (read_be32 bs 4) @ drop 8 bs"
  using split_be32 [of bs] split_be32 [of "drop 4 bs"] read_be32_drop [of 4 bs] assms by simp

lemma decode_payload_sound:
  assumes "decode_payload mid payload = Inr m"
  shows "wire_form m = Some (mid, payload) \<and> receivable m"
proof -
  have port: "to_be16 (from_be16 (payload ! 0) (payload ! 1)) = payload" if "length payload = 2"
    using that by (auto simp: to_from_be16 numeral_2_eq_2 length_Suc_conv)
  have ext: "payload ! 0 # drop 1 payload = payload" if "payload \<noteq> []"
    using that by (cases payload) auto
  have piece: "drop 8 payload \<noteq> []" if "\<not> length payload < 9" using that by simp
  show ?thesis
    using assms port ext piece split_be32 [of payload] split_be32_two [of payload] split_be32_three [of payload]
    by (simp add: decode_payload_def ensure_payload_len_def guard_def split: if_splits)
       (auto split: if_splits)
qed

lemma decode_payload_complete:
  assumes "wire_form m = Some (mid, payload)" "receivable m"
  shows "decode_payload mid payload = Inr m"
proof -
  have at: "read_be32 (to_be32 a @ to_be32 b @ r) 4 = b" "read_be32 (to_be32 a @ to_be32 b @ to_be32 c) 8 = c"
    for a b c r
    using read_be32_at [of 4 "to_be32 a" b r] read_be32_at [of 8 "to_be32 a @ to_be32 b" c "[]"] by simp_all
  have hd: "read_be32 (to_be32 a) 0 = a" for a using read_be32_head [of a "[]"] by simp
  have block: "\<not> 8 + length r < 9" if "r \<noteq> []" for r :: "u8 list" using that by (cases r) simp_all
  show ?thesis
    using assms by (cases m) (auto simp: decode_payload_def ensure_payload_len_def at hd block)
qed

lemma decode_encode:
  assumes "message_encode m = Inr bs" "receivable m"
  shows "decode_frame (bs @ rest) = Inr (m, length bs)"
proof (cases "wire_form m")
  case None
  then have m: "m = KeepAlive" by (cases m) auto
  with assms(1) have bs: "bs = to_be32 0" by simp
  show ?thesis unfolding bs m by (simp add: decode_frame_def)
next
  case (Some w)
  then obtain mid payload where w: "wire_form m = Some (mid, payload)" by (cases w) auto
  with assms(1) have "bs = frame mid payload" "length payload + 1 \<le> MAX_PEER_FRAME_BYTES"
    by (auto simp: message_encode_wire)
  then show ?thesis using decode_frame_frame [of payload mid rest] decode_payload_complete [OF w assms(2)] by simp
qed

lemma decode_frame_sound:
  assumes "decode_frame input = Inr (m, n)"
  shows "n \<le> length input \<and> message_encode m = Inr (take n input) \<and> receivable m"
proof -
  have four: "4 \<le> length input" using assms by (simp add: decode_frame_def split: if_splits)
  define len where "len = unat (read_be32 input 0)"
  have prefix: "take 4 input = to_be32 (of_nat len)"
    using to_be32_read_be32 [of 0 input] four by (simp add: len_def bslice_def)
  show ?thesis
  proof (cases "len = 0")
    case True
    with assms four prefix show ?thesis by (auto simp: decode_frame_def len_def [symmetric] Let_def)
  next
    case False
    then have d: "decode_payload (input ! 4) (bslice input 5 (len + 4)) = Inr m" "n = len + 4"
      "len \<le> MAX_PEER_FRAME_BYTES" "len + 4 \<le> length input"
      using assms by (auto simp: decode_frame_def len_def [symmetric] Let_def ensure_frame_size_def opt_iffs
          split: if_splits)
    have "take (len + 4) input = take 4 input @ take len (drop 4 input)" by (metis add.commute take_add)
    moreover have "drop 4 input = input ! 4 # drop 5 input" using d(4) False
      by (metis Cons_nth_drop_Suc Suc_numeral add_less_same_cancel2 gr0I less_le_trans not_add_less2 semiring_norm(5) add.commute less_add_same_cancel1 zero_less_numeral)
    moreover have "take len (input ! 4 # drop 5 input) = input ! 4 # bslice input 5 (len + 4)"
      using False by (cases len) (simp_all add: bslice_def)
    moreover have "length (bslice input 5 (len + 4)) + 1 = len" using d(4) False by simp
    ultimately have "take n input = frame (input ! 4) (bslice input 5 (len + 4))"
      "length (bslice input 5 (len + 4)) + 1 \<le> MAX_PEER_FRAME_BYTES"
      using d(2,3) prefix by (simp_all add: frame_def)
    with decode_payload_sound [OF d(1)] d(2,4) show ?thesis by (simp add: message_encode_wire)
  qed
qed

subsection \<open>Handshake codec\<close>

definition handshake_wf :: "peer_handshake \<Rightarrow> bool" where
  "handshake_wf h \<longleftrightarrow> length (h_reserved h) = 8 \<and> length (h_info_hash h) = 20 \<and> length (h_peer_id h) = 20"

lemma length_protocol [simp]: "length BITTORRENT_PROTOCOL = 19"
  by (simp add: BITTORRENT_PROTOCOL_def)

lemma bslice_parts:
  assumes "length a = i" "j = i + length b"
  shows "bslice (a @ b @ c) i j = b"
  using assms by (simp add: bslice_def)

lemma handshake_decode_encode:
  assumes "handshake_wf h"
  shows "handshake_decode (handshake_encode h @ rest) = Inr h"
proof -
  let ?P = BITTORRENT_PROTOCOL and ?r = "h_reserved h" and ?i = "h_info_hash h" and ?p = "h_peer_id h"
  let ?in = "handshake_encode h @ rest"
  have len: "length ?r = 8" "length ?i = 20" "length ?p = 20" using assms by (auto simp: handshake_wf_def)
  have "bslice ?in 1 20 = ?P" "bslice ?in 20 28 = ?r" "bslice ?in 28 48 = ?i" "bslice ?in 48 68 = ?p"
    using bslice_parts [of "[19]" 1 20 ?P "?r @ ?i @ ?p @ rest"]
      bslice_parts [of "[19] @ ?P" 20 28 ?r "?i @ ?p @ rest"]
      bslice_parts [of "[19] @ ?P @ ?r" 28 48 ?i "?p @ rest"]
      bslice_parts [of "[19] @ ?P @ ?r @ ?i" 48 68 ?p rest] len
    by (simp_all add: handshake_encode_def)
  then show ?thesis using len by (simp add: handshake_decode_def PEER_HANDSHAKE_LEN_def handshake_encode_def)
qed

lemma handshake_decode_sound:
  assumes "handshake_decode input = Inr h"
  shows "handshake_wf h \<and> handshake_encode h = take PEER_HANDSHAKE_LEN input"
proof -
  have len: "68 \<le> length input" and tag: "unat (input ! 0) = 19" "bslice input 1 20 = BITTORRENT_PROTOCOL"
    and h: "h = \<lparr>h_reserved = bslice input 20 28, h_info_hash = bslice input 28 48, h_peer_id = bslice input 48 68\<rparr>"
    using assms by (auto simp: handshake_decode_def PEER_HANDSHAKE_LEN_def split: if_splits)
  have "bslice input 0 68 = bslice input 0 1 @ bslice input 1 20 @ bslice input 20 28 @ bslice input 28 48
      @ bslice input 48 68"
    using len bslice_split [of 0 1 68 input] bslice_split [of 1 20 68 input] bslice_split [of 20 28 68 input]
      bslice_split [of 28 48 68 input] by simp
  moreover have "bslice input 0 1 = [19]"
  proof -
    have "of_nat (unat (input ! 0)) = input ! 0" by simp
    then have "input ! 0 = 19" using tag(1) by simp
    with len show ?thesis by (cases input) (auto simp: bslice_def)
  qed
  moreover have "bslice input 0 68 = take 68 input" by (simp add: bslice_def)
  ultimately show ?thesis using tag(2) len h
    by (simp add: handshake_wf_def handshake_encode_def PEER_HANDSHAKE_LEN_def)
qed

subsection \<open>Streams of frames\<close>

text \<open>A client that takes the next \<open>n\<close> frames off a stream.\<close>

fun read_frames ::
  "(u8 list \<Rightarrow> ('f, 'm \<times> u8 list) result) \<Rightarrow> nat \<Rightarrow> u8 list \<Rightarrow> ('f, 'm list \<times> u8 list) result" where
  "read_frames rd 0 stream = Inr ([], stream)"
| "read_frames rd (Suc n) stream =
     rbind (rd stream) (\<lambda>(m, rest). rbind (read_frames rd n rest) (\<lambda>(ms, rest'). Inr (m # ms, rest')))"

locale frame_stream =
  fixes enc :: "'m \<Rightarrow> ('e, u8 list) result"
    and rd :: "u8 list \<Rightarrow> ('f, 'm \<times> u8 list) result"
    and good :: "'m \<Rightarrow> bool"
  assumes read_encoded: "enc m = Inr bs \<Longrightarrow> good m \<Longrightarrow> rd (bs @ rest) = Inr (m, rest)"
    and read_sound: "rd stream = Inr (m, rest) \<Longrightarrow> good m \<and> (\<exists>bs. enc m = Inr bs \<and> stream = bs @ rest)"
begin

lemma read_sequence:
  assumes "mapM_r enc ms = Inr bss" "\<forall>m \<in> set ms. good m"
  shows "read_frames rd (length ms) (concat bss @ rest) = Inr (ms, rest)"
  using assms
proof (induction ms arbitrary: bss)
  case (Cons m ms)
  then obtain bs bss' where "enc m = Inr bs" "mapM_r enc ms = Inr bss'" "bss = bs # bss'" by auto
  with Cons read_encoded [of m bs "concat bss' @ rest"] show ?case by simp
qed simp

lemma read_frames_sound:
  assumes "read_frames rd n stream = Inr (ms, rest)"
  shows "length ms = n \<and> (\<forall>m \<in> set ms. good m)
    \<and> (\<exists>bss. mapM_r enc ms = Inr bss \<and> stream = concat bss @ rest)"
  using assms
proof (induction n arbitrary: stream ms)
  case (Suc n)
  then obtain m mid ms' where r: "rd stream = Inr (m, mid)" "read_frames rd n mid = Inr (ms', rest)" "ms = m # ms'"
    by (auto simp: rbind_Inr_iff)
  obtain bs where "good m" "enc m = Inr bs" "stream = bs @ mid" using read_sound [OF r(1)] by auto
  moreover obtain bss where "length ms' = n" "\<forall>m \<in> set ms'. good m" "mapM_r enc ms' = Inr bss" "mid = concat bss @ rest"
    using Suc.IH [OF r(2)] by auto
  ultimately show ?case using r(3) by auto
qed simp

lemma read_frames_iff:
  "read_frames rd (length ms) stream = Inr (ms, rest) \<longleftrightarrow>
     (\<forall>m \<in> set ms. good m) \<and> (\<exists>bss. mapM_r enc ms = Inr bss \<and> stream = concat bss @ rest)"
  using read_sequence read_frames_sound by blast

end

lemma read_frame_whole:
  assumes "message_encode m = Inr bs" "receivable m"
  shows "unat (read_be32 (bs @ rest) 0) + 4 = length bs" "length bs \<le> MAX_PEER_FRAME_BYTES + 4"
    "m = KeepAlive \<longleftrightarrow> length bs = 4"
proof -
  have "unat (read_be32 (bs @ rest) 0) + 4 = length bs \<and> length bs \<le> MAX_PEER_FRAME_BYTES + 4
      \<and> (m = KeepAlive \<longleftrightarrow> length bs = 4)"
  proof (cases "wire_form m")
    case None
    then have "m = KeepAlive" by (cases m) auto
    with assms(1) have "bs = to_be32 0" by simp
    with \<open>m = KeepAlive\<close> show ?thesis by simp
  next
    case (Some w)
    then obtain mid payload where w: "wire_form m = Some (mid, payload)" by (cases w) auto
    with assms(1) have bs: "bs = frame mid payload" and lim: "length payload + 1 \<le> MAX_PEER_FRAME_BYTES"
      by (auto simp: message_encode_wire)
    have "m \<noteq> KeepAlive" using w by auto
    moreover have "unat (read_be32 (bs @ rest) 0) = length payload + 1"
      using lim by (simp add: bs frame_def MAX_PEER_FRAME_BYTES_def unat_of_nat del: of_nat_Suc of_nat_add)
    ultimately show ?thesis using lim by (simp add: bs)
  qed
  then show "unat (read_be32 (bs @ rest) 0) + 4 = length bs" "length bs \<le> MAX_PEER_FRAME_BYTES + 4"
    "m = KeepAlive \<longleftrightarrow> length bs = 4" by auto
qed

text \<open>Both readers are the same routine with their own limit.\<close>

definition framed_read :: "string \<Rightarrow> string \<Rightarrow> nat \<Rightarrow> u8 list \<Rightarrow> (frame_fault, PeerMessage \<times> u8 list) result" where
  "framed_read op1 op2 limit stream =
     rbind (read_exact op1 4 stream) (\<lambda>(prefix, stream1).
     let len = unat (read_be32 prefix 0) in
     if limit < len then Inl (FrameOverLimit limit len)
     else if len = 0 then Inr (KeepAlive, stream1)
     else rbind (ok_or FrameLengthOverflow (checked_add64 len 4)) (\<lambda>tot.
     rbind (read_exact op2 (tot - 4) stream1) (\<lambda>(payload, stream2).
     map_err BadFrame (rbind (decode_frame (prefix @ payload)) (\<lambda>(message, _). Inr (message, stream2))))))"

lemma readers_framed:
  "read_peer_frame = framed_read ''peer frame length'' ''peer frame payload'' MAX_PEER_FRAME_BYTES"
  "seed_read_peer_frame =
     framed_read ''inbound peer frame length'' ''inbound peer frame payload'' MAX_SEED_CONTROL_FRAME_BYTES"
proof -
  have "MAX_PEER_FRAME_BYTES < n \<or> MAX_SEED_CONTROL_FRAME_BYTES < n \<longleftrightarrow> MAX_SEED_CONTROL_FRAME_BYTES < n" for n
    by (auto simp: MAX_PEER_FRAME_BYTES_def MAX_SEED_CONTROL_FRAME_BYTES_def)
  then show "seed_read_peer_frame =
     framed_read ''inbound peer frame length'' ''inbound peer frame payload'' MAX_SEED_CONTROL_FRAME_BYTES"
    unfolding seed_read_peer_frame_def framed_read_def by simp
qed (simp add: fun_eq_iff read_peer_frame_def framed_read_def)

lemma read_be32_take: "read_be32 (take 4 bs) 0 = read_be32 bs 0"
  by (simp add: read_be32_def)

lemma decode_frame_consumed: "decode_frame input = Inr (m, n) \<Longrightarrow> n = unat (read_be32 input 0) + 4"
  by (auto simp: decode_frame_def Let_def opt_iffs split: if_splits)

definition fits :: "nat \<Rightarrow> PeerMessage \<Rightarrow> bool" where
  "fits limit m \<longleftrightarrow> receivable m \<and> (\<exists>bs. message_encode m = Inr bs \<and> length bs \<le> limit + 4)"

lemma framed_read_encoded:
  assumes "message_encode m = Inr bs" "fits limit m" "limit \<le> MAX_PEER_FRAME_BYTES"
  shows "framed_read op1 op2 limit (bs @ rest) = Inr (m, rest)"
proof -
  have rec: "receivable m" and lim: "length bs \<le> limit + 4" using assms(1,2) by (auto simp: fits_def)
  define len where "len = unat (read_be32 (bs @ rest) 0)"
  note w = read_frame_whole(1) [OF assms(1) rec, of rest, folded len_def] read_frame_whole(2,3) [OF assms(1) rec]
  have ex: "read_exact op1 4 (bs @ rest) = Inr (take 4 bs, drop 4 bs @ rest)"
    using w(1) by (simp add: read_exact_def flip: w(1))
  have hd: "unat (read_be32 (take 4 bs) 0) = len"
    using w(1) read_be32_take [of "bs @ rest"] by (simp add: len_def flip: w(1))
  show ?thesis
  proof (cases "len = 0")
    case True
    then have "m = KeepAlive" "drop 4 bs = []" using w by simp_all
    with ex hd True show ?thesis by (simp add: framed_read_def)
  next
    case False
    have "read_exact op2 (length bs - 4) (drop 4 bs @ rest) = Inr (drop 4 bs, rest)"
      using w(1) by (simp add: read_exact_def flip: w(1))
    moreover have "checked_add64 len 4 = Some (len + 4)"
      using w(1,2) by (simp add: checked_add64_def u64_limit_def MAX_PEER_FRAME_BYTES_def)
    moreover have "decode_frame bs = Inr (m, length bs)" using decode_encode [OF assms(1) rec, of "[]"] by simp
    ultimately show ?thesis using ex hd False lim w(1) by (simp add: framed_read_def)
  qed
qed

lemma framed_read_sound:
  assumes "framed_read op1 op2 limit stream = Inr (m, rest)"
  shows "fits limit m \<and> (\<exists>bs. message_encode m = Inr bs \<and> stream = bs @ rest)"
proof -
  have four: "4 \<le> length stream" using assms by (auto simp: framed_read_def read_exact_def split: if_splits)
  define len where "len = unat (read_be32 stream 0)"
  have pre: "take 4 stream = to_be32 (of_nat len)"
    using to_be32_read_be32 [of 0 stream] four by (simp add: len_def bslice_def)
  show ?thesis
  proof (cases "len = 0")
    case True
    with assms four have "m = KeepAlive" "rest = drop 4 stream"
      by (auto simp: framed_read_def read_exact_def read_be32_take len_def [symmetric] Let_def split: if_splits)
    moreover have "stream = to_be32 0 @ drop 4 stream"
      using append_take_drop_id [of 4 stream] unfolding pre True by simp
    ultimately show ?thesis by (simp add: fits_def)
  next
    case False
    obtain n where d: "decode_frame (take 4 stream @ take len (drop 4 stream)) = Inr (m, n)"
      "rest = drop len (drop 4 stream)" "len \<le> limit" "len \<le> length stream - 4"
      using assms four False
      by (auto simp: framed_read_def read_exact_def read_be32_take len_def [symmetric] Let_def opt_iffs
          split: if_splits)
    have frm: "take 4 stream @ take len (drop 4 stream) = take (len + 4) stream" by (metis add.commute take_add)
    have "read_be32 (take (len + 4) stream) 0 = read_be32 stream 0"
      using False by (simp add: read_be32_def)
    then have "n = len + 4" using decode_frame_consumed [OF d(1) [unfolded frm]] by (simp add: len_def)
    with decode_frame_sound [OF d(1)] have "message_encode m = Inr (take (len + 4) stream)" "receivable m"
      by (simp_all add: frm)
    moreover have "stream = take (len + 4) stream @ rest" using d(2) by (metis add.commute append_take_drop_id drop_drop)
    ultimately show ?thesis using d(3) by (auto simp: fits_def)
  qed
qed

interpretation leech_stream: frame_stream message_encode read_peer_frame "fits MAX_PEER_FRAME_BYTES"
  using framed_read_encoded framed_read_sound by unfold_locales (auto simp: readers_framed(1))

interpretation seed_stream: frame_stream message_encode seed_read_peer_frame "fits MAX_SEED_CONTROL_FRAME_BYTES"
proof unfold_locales
  have "MAX_SEED_CONTROL_FRAME_BYTES \<le> MAX_PEER_FRAME_BYTES"
    by (simp add: MAX_PEER_FRAME_BYTES_def MAX_SEED_CONTROL_FRAME_BYTES_def)
  then show "message_encode m = Inr bs \<Longrightarrow> fits MAX_SEED_CONTROL_FRAME_BYTES m \<Longrightarrow>
      seed_read_peer_frame (bs @ rest) = Inr (m, rest)" for m bs rest
    using framed_read_encoded by (simp add: readers_framed(2))
  show "seed_read_peer_frame stream = Inr (m, rest) \<Longrightarrow>
      fits MAX_SEED_CONTROL_FRAME_BYTES m \<and> (\<exists>bs. message_encode m = Inr bs \<and> stream = bs @ rest)" for stream m rest
    using framed_read_sound by (simp add: readers_framed(2))
qed

subsection \<open>The pieces a peer has\<close>

text \<open>What the state promises: with a known geometry, a bitfield of the right length with clean
  padding. Its meaning is the set of pieces the peer has.\<close>

definition peer_inv :: "peer_state \<Rightarrow> bool" where
  "peer_inv s \<longleftrightarrow> p_piece_count s \<noteq> 0 \<longrightarrow>
     length (p_bitfield s) = div_ceil (p_piece_count s) 8 \<and> (\<forall>i\<ge>p_piece_count s. \<not> bit_is_set (p_bitfield s) i)"

definition pieces_of :: "peer_state \<Rightarrow> nat set" where
  "pieces_of s = {i. has_piece s i}"

record peer_view =
  v_choking :: bool
  v_interested :: bool
  v_pieces :: "nat set"

definition peer_abs :: "peer_state \<Rightarrow> peer_view" where
  "peer_abs s = \<lparr>v_choking = peer_choking s, v_interested = peer_interested s, v_pieces = pieces_of s\<rparr>"

fun view_apply :: "nat \<Rightarrow> peer_view \<Rightarrow> PeerMessage \<Rightarrow> peer_view" where
  "view_apply n v Choke = v\<lparr>v_choking := True\<rparr>"
| "view_apply n v Unchoke = v\<lparr>v_choking := False\<rparr>"
| "view_apply n v Interested = v\<lparr>v_interested := True\<rparr>"
| "view_apply n v NotInterested = v\<lparr>v_interested := False\<rparr>"
| "view_apply n v (Have i) = (if n = 0 then v else v\<lparr>v_pieces := insert (unat i) (v_pieces v)\<rparr>)"
| "view_apply n v (BitfieldMsg bf) = v\<lparr>v_pieces := {i. i < n \<and> bit_is_set bf i}\<rparr>"
| "view_apply n v _ = v"

lemma validate_bitfield_iff:
  "validate_bitfield bf n = Inr () \<longleftrightarrow>
     length bf = div_ceil n 8 \<and> (\<forall>i\<ge>n. \<not> bit_is_set bf i)"
proof (cases "length bf = div_ceil n 8")
  case len: True
  show ?thesis
  proof (cases "n mod 8 = 0")
    case True
    then have "length bf * 8 = n" using len by (auto simp: div_ceil_def)
    then have "\<not> bit_is_set bf i" if "n \<le> i" for i
      using that div_le_mono [of n i 8] by (auto simp: bit_is_set_alt)
    with True len show ?thesis by (auto simp: validate_bitfield_def Let_def)
  next
    case False
    then have "n \<noteq> 0" "bf \<noteq> []" using len by (auto simp: div_ceil_def)
    with False len padding_clear_iff [OF len False] show ?thesis by (simp add: validate_bitfield_def Let_def)
  qed
qed (simp add: validate_bitfield_def Let_def)

lemma peer_inv_new: "peer_inv (peer_state_new n)"
  by (simp add: peer_inv_def peer_state_new_def)

lemma peer_count_apply [simp]: "p_piece_count (fst (peer_apply s m)) = p_piece_count s"
  by (cases m) (auto split: sum.splits)

lemma peer_inv_apply: "peer_inv s \<Longrightarrow> peer_inv (fst (peer_apply s m))"
  by (cases m)
     (auto simp: peer_inv_def bit_is_set_set_bit div_ceil_8_index validate_bitfield_iff split: sum.splits)

lemma peer_apply_abs:
  assumes "peer_inv s" "peer_apply s m = (s', Inr ())"
  shows "peer_abs s' = view_apply (p_piece_count s) (peer_abs s) m"
proof (cases m)
  case (Have i)
  show ?thesis
  proof (cases "p_piece_count s = 0")
    case True
    with assms(2) Have show ?thesis by simp
  next
    case False
    then have i: "unat i < p_piece_count s" and s': "s' = s\<lparr>p_bitfield := set_bit (p_bitfield s) (unat i)\<rparr>"
      using assms(2) Have by (auto split: if_splits)
    have "unat i div 8 < length (p_bitfield s)"
      using assms(1) False i by (simp add: peer_inv_def div_ceil_8_index)
    then show ?thesis using Have False i
      by (auto simp: s' peer_abs_def pieces_of_def has_piece_def bit_is_set_set_bit)
  qed
next
  case (BitfieldMsg bf)
  with assms(2) have "s' = s\<lparr>p_bitfield := bf\<rparr>" by (auto split: if_splits sum.splits)
  with BitfieldMsg show ?thesis by (auto simp: peer_abs_def pieces_of_def has_piece_def)
qed (use assms(2) in \<open>auto simp: peer_abs_def pieces_of_def has_piece_def\<close>)

lemma peer_apply_error_unchanged: "peer_apply s m = (s', Inl e) \<Longrightarrow> s' = s"
  by (cases m) (auto split: if_splits sum.splits)

text \<open>A session: messages from the peer and our own choke and interest decisions.\<close>

inductive peer_session :: "nat \<Rightarrow> peer_state \<Rightarrow> bool" for n where
  opened: "peer_session n (peer_state_new n)"
| message: "peer_session n s \<Longrightarrow> peer_apply s m = (s', r) \<Longrightarrow> peer_session n s'"
| choke: "peer_session n s \<Longrightarrow> peer_session n (set_am_choking s v)"
| interest: "peer_session n s \<Longrightarrow> peer_session n (set_am_interested s v)"

lemma peer_session_inv: "peer_session n s \<Longrightarrow> peer_inv s \<and> p_piece_count s = n"
proof (induction rule: peer_session.induct)
  case opened
  then show ?case by (simp add: peer_inv_new) (simp add: peer_state_new_def)
next
  case (message s m s' r)
  then show ?case using peer_inv_apply [of s m] peer_count_apply [of s m] by simp
next
  case (choke s v)
  then show ?case by (simp add: set_am_choking_def peer_inv_def)
next
  case (interest s v)
  then show ?case by (simp add: set_am_interested_def peer_inv_def)
qed

subsection \<open>Properties\<close>

text \<open>The frame decoder is exactly the inverse of the encoder on the front of a buffer: it
  returns message \<open>m\<close> and \<open>n\<close> consumed bytes precisely when the first \<open>n\<close> bytes are the encoding of
  \<open>m\<close>, whatever follows them, for every message but a piece with an empty block.\<close>
lemma decode_frame_iff:
  "decode_frame input = Inr (m, n) \<longleftrightarrow>
     receivable m \<and> n \<le> length input \<and> message_encode m = Inr (take n input)"
proof
  assume r: "receivable m \<and> n \<le> length input \<and> message_encode m = Inr (take n input)"
  then have "decode_frame (take n input @ drop n input) = Inr (m, length (take n input))"
    by (intro decode_encode) auto
  with r show "decode_frame input = Inr (m, n)" by (simp add: min_def)
qed (use decode_frame_sound in blast)

text \<open>C16: A peer connection delivers what was sent: reading as many frames as were written gives the
  same messages in the same order and leaves the rest of the stream untouched, and nothing but the
  encodings of acceptable messages is ever accepted, both for the downloading side (2 MiB frames)
  and for the seeding side (64 KiB control frames).\<close>
theorem peer_streams_exact:
  "(read_frames read_peer_frame (length ms) stream = Inr (ms, rest) \<longleftrightarrow>
      list_all (fits MAX_PEER_FRAME_BYTES) ms
      \<and> (\<exists>bss. mapM_r message_encode ms = Inr bss \<and> stream = concat bss @ rest))
   \<and> (read_frames seed_read_peer_frame (length ms) stream = Inr (ms, rest) \<longleftrightarrow>
      list_all (fits MAX_SEED_CONTROL_FRAME_BYTES) ms
      \<and> (\<exists>bss. mapM_r message_encode ms = Inr bss \<and> stream = concat bss @ rest))"
  unfolding list_all_iff by (intro conjI leech_stream.read_frames_iff seed_stream.read_frames_iff)

text \<open>The handshake decoder accepts a buffer exactly when its first 68 bytes are the encoding of
  the handshake it returns, with reserved bytes, info hash and peer id of the right length.\<close>
lemma handshake_decode_iff:
  "handshake_decode input = Inr h \<longleftrightarrow> handshake_wf h \<and> handshake_encode h = take PEER_HANDSHAKE_LEN input"
proof
  assume r: "handshake_wf h \<and> handshake_encode h = take PEER_HANDSHAKE_LEN input"
  then show "handshake_decode input = Inr h"
    using handshake_decode_encode [of h "drop PEER_HANDSHAKE_LEN input"] by simp
qed (use handshake_decode_sound in blast)

text \<open>C33: The state kept for a peer implements a set of pieces with the two flags: in every state a
  session can reach, an accepted message changes choking, interest and the set of pieces as the
  protocol says, a refused one changes nothing, and with a known geometry no piece outside it is
  ever recorded.\<close>
theorem peer_session_refines:
  assumes "peer_session n s" "peer_apply s m = (s', r)"
  shows "(case r of Inl e \<Rightarrow> s' = s | Inr _ \<Rightarrow> peer_abs s' = view_apply n (peer_abs s) m)
    \<and> (n \<noteq> 0 \<longrightarrow> length (p_bitfield s') = div_ceil n 8 \<and> (\<forall>i\<ge>n. \<not> bit_is_set (p_bitfield s') i))"
proof
  have inv: "peer_inv s" "p_piece_count s = n" using peer_session_inv [OF assms(1)] by auto
  show "case r of Inl e \<Rightarrow> s' = s | Inr _ \<Rightarrow> peer_abs s' = view_apply n (peer_abs s) m"
    using assms(2) inv peer_apply_abs [of s m s'] peer_apply_error_unchanged [of s m s'] by (cases r) auto
  show "n \<noteq> 0 \<longrightarrow> length (p_bitfield s') = div_ceil n 8 \<and> (\<forall>i\<ge>n. \<not> bit_is_set (p_bitfield s') i)"
    using peer_session_inv [OF peer_session.message [OF assms]] by (simp add: peer_inv_def)
qed

theorem peer_session_refines_witness:
  "\<exists>s'. peer_apply (peer_state_new 10) (Have 9) = (s', Inr ()) \<and> pieces_of s' = {9}"
proof -
  obtain s' where a: "peer_apply (peer_state_new 10) (Have 9) = (s', Inr ())"
    by (simp add: peer_state_new_def)
  have e: "pieces_of (peer_state_new 10) = {}" by (simp add: pieces_of_def has_piece_def peer_state_new_def)
  from peer_session_refines [OF peer_session.opened a]
  have "peer_abs s' = view_apply 10 (peer_abs (peer_state_new 10)) (Have 9)" by simp
  then have "pieces_of s' = {9}" by (simp add: peer_abs_def e)
  with a show ?thesis by blast
qed

text \<open>A piece message with an empty block is encoded without an error, but the decoder of the same
  module refuses the frame: it asks for at least nine payload bytes where the encoder wrote eight.\<close>
lemma empty_piece_unreceivable:
  "message_encode (Piece i b []) = Inr (frame 7 (to_be32 i @ to_be32 b)) \<and>
   decode_frame (frame 7 (to_be32 i @ to_be32 b) @ rest) = Inl (InvalidPayloadLength 7 9 8)"
proof
  show "message_encode (Piece i b []) = Inr (frame 7 (to_be32 i @ to_be32 b))"
    by (simp add: message_encode_wire MAX_PEER_FRAME_BYTES_def del: message_encode.simps)
  have "decode_payload 7 (to_be32 i @ to_be32 b) = Inl (InvalidPayloadLength 7 9 8)"
    by (simp add: decode_payload_def)
  then show "decode_frame (frame 7 (to_be32 i @ to_be32 b) @ rest) = Inl (InvalidPayloadLength 7 9 8)"
    by (subst decode_frame_frame) (simp_all add: MAX_PEER_FRAME_BYTES_def)
qed

end
