(* ===== verification/Magnet.thy ===== *)
theory Magnet
  imports Metainfo
begin

text \<open>
  \<open>crates/nova-torrent-core/src/magnet.rs\<close>: the magnet link. \<open>Url::parse\<close> is the parameter
  \<open>url_parse\<close>, the same as for the metainfo trackers. The info hash of the link is decoded from
  hexadecimal or from base 32; both are shown to be the value the digits write in their base.
\<close>

unbundle bit_operations_syntax

definition MAX_MAGNET_URI_BYTES :: nat where "MAX_MAGNET_URI_BYTES = 64 * 1024"
definition MAX_MAGNET_TRACKERS :: nat where "MAX_MAGNET_TRACKERS = 128"
definition MAX_MAGNET_WEB_SEEDS :: nat where "MAX_MAGNET_WEB_SEEDS = 64"

record magnet_link =
  mg_info_hash :: info_hash
  mg_display_name :: "str option"
  mg_trackers :: "str list"
  mg_web_seeds :: "str list"
  mg_exact_length :: "nat option"

datatype MagnetParseError =
    InvalidUri
  | UriTooLarge nat
  | TooManyTrackers
  | TooManyWebSeeds
  | InvalidScheme str
  | MissingBtih
  | InvalidBtih
  | ConflictingBtih
  | InvalidExactLength
  | InvalidUrl str

subsection \<open>Info hashes\<close>

definition hex_nibble :: "u8 \<Rightarrow> u8 option" where
  "hex_nibble byte =
     (if 0x30 \<le> byte \<and> byte \<le> 0x39 then Some (byte - 0x30)
      else if 0x61 \<le> byte \<and> byte \<le> 0x66 then Some (byte - 0x61 + 10)
      else if 0x41 \<le> byte \<and> byte \<le> 0x46 then Some (byte - 0x41 + 10)
      else None)"

definition hex_pair :: "u8 list \<Rightarrow> (MagnetParseError, u8) result" where
  "hex_pair pair =
     rbind (ok_or InvalidBtih (hex_nibble (pair ! 0))) (\<lambda>high.
     rbind (ok_or InvalidBtih (hex_nibble (pair ! 1))) (\<lambda>low.
     Inr (push_bit 4 high OR low)))"

definition decode_hex_20 :: "str \<Rightarrow> (MagnetParseError, u8 list) result" where
  "decode_hex_20 input = mapM_r hex_pair (chunks_exact 2 input)"

definition base32_digit :: "u8 \<Rightarrow> u8 option" where
  "base32_digit byte =
     (if is_ascii_upper (to_ascii_uppercase byte) then Some (to_ascii_uppercase byte - 0x41)
      else if 0x32 \<le> to_ascii_uppercase byte \<and> to_ascii_uppercase byte \<le> 0x37 then Some (byte - 0x32 + 26)
      else None)"

text \<open>The inner \<open>while bits >= 8\<close> and the outer loop over the characters.\<close>

function base32_flush ::
  "u32 \<Rightarrow> nat \<Rightarrow> u8 list \<Rightarrow> (MagnetParseError, u32 \<times> nat \<times> u8 list) result" where
  "base32_flush accumulator bits out =
     (if 8 \<le> bits then
        (if 20 \<le> length out then Inl InvalidBtih
         else base32_flush (accumulator AND (push_bit (bits - 8) 1 - 1)) (bits - 8)
                (out @ [ucast (drop_bit (bits - 8) accumulator AND 0xff)]))
      else Inr (accumulator, bits, out))"
  by pat_completeness auto
termination
  by (relation "measure (\<lambda>(a, bits, out). bits)") auto

declare base32_flush.simps [simp del]

fun base32_loop ::
  "u8 list \<Rightarrow> u32 \<Rightarrow> nat \<Rightarrow> u8 list \<Rightarrow> (MagnetParseError, u32 \<times> nat \<times> u8 list) result" where
  "base32_loop [] accumulator bits out = Inr (accumulator, bits, out)"
| "base32_loop (byte # rest) accumulator bits out =
     rbind (ok_or InvalidBtih (base32_digit byte)) (\<lambda>digit.
     rbind (base32_flush (push_bit 5 accumulator OR ucast digit) (bits + 5) out) (\<lambda>(accumulator', bits', out').
     base32_loop rest accumulator' bits' out'))"

definition decode_base32_20 :: "str \<Rightarrow> (MagnetParseError, u8 list) result" where
  "decode_base32_20 input =
     rbind (base32_loop input 0 0 []) (\<lambda>(accumulator, bits, out).
     if length out \<noteq> 20 \<or> bits \<noteq> 0 then Inl InvalidBtih else Inr out)"

definition parse_btih :: "str \<Rightarrow> (MagnetParseError, info_hash) result" where
  "parse_btih encoded =
     (if length encoded = 40 then decode_hex_20 encoded
      else if length encoded = 32 then decode_base32_20 encoded
      else Inl InvalidBtih)"

subsection \<open>URLs and the query\<close>

definition push_unique_url ::
  "(str \<Rightarrow> url option) \<Rightarrow> str list \<Rightarrow> str \<Rightarrow> bool \<Rightarrow> (MagnetParseError, str list) result" where
  "push_unique_url url_parse out raw tracker =
     rbind (ok_or (InvalidUrl raw) (url_parse raw)) (\<lambda>parsed.
     let allowed = (if tracker
           then List.member [lit ''http'', lit ''https'', lit ''udp''] (scheme parsed)
           else List.member [lit ''http'', lit ''https''] (scheme parsed)) in
     if \<not> allowed \<or> host_str parsed = None \<or> username parsed \<noteq> [] \<or> password parsed \<noteq> None
     then Inl (InvalidUrl raw)
     else Inr (if \<not> List.member out raw then out @ [raw] else out))"

definition strip_prefix :: "u8 list \<Rightarrow> u8 list \<Rightarrow> u8 list option" where
  "strip_prefix p s = (if take (length p) s = p then Some (drop (length p) s) else None)"

record magnet_state =
  st_info_hash :: "info_hash option"
  st_display_name :: "str option"
  st_trackers :: "str list"
  st_web_seeds :: "str list"
  st_exact_length :: "nat option"

definition magnet_pair ::
  "(str \<Rightarrow> url option) \<Rightarrow> magnet_state \<Rightarrow> str \<times> str \<Rightarrow> (MagnetParseError, magnet_state) result" where
  "magnet_pair url_parse st kv =
     (let (key, value) = kv in
      if key = lit ''xt'' then
        (case strip_prefix (lit ''urn:btih:'') value of
           None \<Rightarrow> Inr st
         | Some encoded \<Rightarrow> rbind (parse_btih encoded) (\<lambda>parsed.
             if (case st_info_hash st of None \<Rightarrow> False | Some existing \<Rightarrow> existing \<noteq> parsed)
             then Inl ConflictingBtih
             else Inr (st\<lparr>st_info_hash := Some parsed\<rparr>)))
      else if key = lit ''dn'' \<and> st_display_name st = None then
        (let v = trim value in Inr (if v \<noteq> [] then st\<lparr>st_display_name := Some v\<rparr> else st))
      else if key = lit ''tr'' then
        (if MAX_MAGNET_TRACKERS \<le> length (st_trackers st) \<and> \<not> List.member (st_trackers st) value
         then Inl TooManyTrackers
         else rbind (push_unique_url url_parse (st_trackers st) value True) (\<lambda>ts.
           Inr (st\<lparr>st_trackers := ts\<rparr>)))
      else if key = lit ''ws'' \<or> key = lit ''as'' then
        (if MAX_MAGNET_WEB_SEEDS \<le> length (st_web_seeds st) \<and> \<not> List.member (st_web_seeds st) value
         then Inl TooManyWebSeeds
         else rbind (push_unique_url url_parse (st_web_seeds st) value False) (\<lambda>ws.
           Inr (st\<lparr>st_web_seeds := ws\<rparr>)))
      else if key = lit ''xl'' \<and> st_exact_length st = None then
        rbind (ok_or InvalidExactLength (parse_unsigned u64_limit value)) (\<lambda>n.
        Inr (st\<lparr>st_exact_length := Some n\<rparr>))
      else Inr st)"

fun magnet_pairs ::
  "(str \<Rightarrow> url option) \<Rightarrow> magnet_state \<Rightarrow> (str \<times> str) list \<Rightarrow> (MagnetParseError, magnet_state) result" where
  "magnet_pairs url_parse st [] = Inr st"
| "magnet_pairs url_parse st (kv # kvs) = rbind (magnet_pair url_parse st kv) (\<lambda>st'. magnet_pairs url_parse st' kvs)"

definition magnet_parse :: "(str \<Rightarrow> url option) \<Rightarrow> str \<Rightarrow> (MagnetParseError, magnet_link) result" where
  "magnet_parse url_parse input =
     (if MAX_MAGNET_URI_BYTES < length input then Inl (UriTooLarge (length input))
      else rbind (ok_or InvalidUri (url_parse input)) (\<lambda>url.
      if scheme url \<noteq> lit ''magnet'' then Inl (InvalidScheme (scheme url))
      else rbind (magnet_pairs url_parse
             \<lparr>st_info_hash = None, st_display_name = None, st_trackers = [], st_web_seeds = [],
              st_exact_length = None\<rparr> (query_pairs url)) (\<lambda>st.
      rbind (ok_or MissingBtih (st_info_hash st)) (\<lambda>info_hash.
      Inr \<lparr>mg_info_hash = info_hash, mg_display_name = st_display_name st, mg_trackers = st_trackers st,
           mg_web_seeds = st_web_seeds st, mg_exact_length = st_exact_length st\<rparr>))))"

subsection \<open>Hexadecimal\<close>

lemma hex_nibble_HEX: "n < 16 \<Longrightarrow> hex_nibble (HEX ! n) = Some (of_nat n)"
proof -
  have "\<forall>n \<in> set [0..<16]. hex_nibble (HEX ! n) = Some (of_nat n)"
    by (simp add: upt_rec HEX_def hex_nibble_def byte_simps of_char_def)
  then show "n < 16 \<Longrightarrow> hex_nibble (HEX ! n) = Some (of_nat n)" by simp
qed

lemma to_hex_pairs: "chunks_exact 2 (to_hex h) = map (\<lambda>b. [HEX ! unat (drop_bit 4 b), HEX ! unat (b AND 0x0f)]) h"
  by (simp add: to_hex_def chunks_exact_concat)

lemma length_to_hex: "length (to_hex h) = 2 * length h"
  by (induction h) (simp_all add: to_hex_def)

lemma decode_to_hex: "decode_hex_20 (to_hex h) = Inr h"
proof -
  have "mapM_r hex_pair (map (\<lambda>b. [HEX ! unat (drop_bit 4 b), HEX ! unat (b AND 0x0f)]) h) = Inr h"
    by (induction h) (simp_all add: hex_pair_def hex_nibble_HEX unat_nibble nibbles)
  then show ?thesis by (simp add: decode_hex_20_def to_hex_pairs)
qed

subsection \<open>Base 32\<close>

definition be_value :: "u8 list \<Rightarrow> nat" where
  "be_value bs = foldl (\<lambda>a b. 256 * a + unat b) 0 bs"

definition base32_value :: "u8 list \<Rightarrow> nat" where
  "base32_value s = foldl (\<lambda>a c. 32 * a + unat (the (base32_digit c))) 0 s"

lemma be_value_snoc: "be_value (bs @ [b]) = 256 * be_value bs + unat b"
  by (simp add: be_value_def)

lemma base32_digit_bound: "base32_digit c = Some d \<Longrightarrow> unat d < 32"
proof -
  assume d: "base32_digit c = Some d"
  show ?thesis
  proof (cases "is_ascii_upper (to_ascii_uppercase c)")
    case True
    then have "unat (to_ascii_uppercase c - 0x41) = unat (to_ascii_uppercase c) - 65"
      "unat (to_ascii_uppercase c) \<le> 90"
      by (auto simp: is_ascii_upper_def unat_sub word_le_nat_alt)
    with d True show ?thesis by (auto simp: base32_digit_def)
  next
    case False
    with d have r: "0x32 \<le> to_ascii_uppercase c" "to_ascii_uppercase c \<le> 0x37" "d = c - 0x32 + 26"
      by (auto simp: base32_digit_def split: if_splits)
    have "\<not> is_ascii_lower c"
    proof
      assume l: "is_ascii_lower c"
      then have "65 \<le> unat (to_ascii_uppercase c)"
        by (auto simp: to_ascii_uppercase_def is_ascii_lower_def unat_sub word_le_nat_alt)
      with r(2) show False by (simp add: word_le_nat_alt)
    qed
    then have "0x32 \<le> c" "c \<le> 0x37" using r by (auto simp: to_ascii_uppercase_def)
    then have "unat (c - 0x32) \<le> 5" by (simp add: unat_sub word_le_nat_alt)
    moreover have "unat (a + 26) \<le> 31" if "unat a \<le> 5" for a :: u8 using that by (simp add: unat_word_ariths)
    ultimately have "unat (c - 0x32 + 26) \<le> 31" by blast
    with r(3) show ?thesis by simp
  qed
qed

definition b32_inv :: "nat \<Rightarrow> nat \<Rightarrow> u32 \<Rightarrow> nat \<Rightarrow> u8 list \<Rightarrow> bool" where
  "b32_inv k val acc bits out \<longleftrightarrow>
     bits < 8 \<and> unat acc < 2 ^ bits \<and> length out * 8 + bits = 5 * k
     \<and> be_value out * 2 ^ bits + unat acc = val"

lemma unat_shift_in:
  assumes "unat (acc :: u32) < 2 ^ bits" "bits < 8" "unat (d :: u8) < 32"
  shows "unat (push_bit 5 acc OR ucast d) = 32 * unat acc + unat d"
proof -
  have db: "\<not> bit d n" if "5 \<le> n" for n using small_word_bits [of d 5 n] assms(3) that by simp
  have "push_bit 5 acc OR ucast d = push_bit 5 acc + (ucast d :: u32)"
    by (rule disjunctive_add [symmetric]) (use db in \<open>auto simp: bit_simps not_le\<close>)
  moreover have "unat acc < 128" using assms(1,2) power_increasing [of bits 7 "2 :: nat"] by simp
  ultimately show ?thesis using assms(3)
    by (simp add: push_bit_eq_mult unat_word_ariths unsigned_ucast_eq take_bit_eq_mod)
qed

lemma base32_flush_step:
  assumes "unat acc < 2 ^ bits" "8 \<le> bits" "bits < 13" "length out < 20"
  shows "\<exists>acc'. base32_flush acc bits out = Inr (acc', bits - 8, out @ [of_nat (unat acc div 2 ^ (bits - 8))])
    \<and> unat acc' = unat acc mod 2 ^ (bits - 8)"
proof -
  let ?b = "bits - 8" and ?hi = "ucast (drop_bit (bits - 8) acc AND 0xff) :: u8"
  have "push_bit ?b 1 - 1 = (mask ?b :: u32)" by (simp add: mask_eq_exp_minus_1 push_bit_eq_mult)
  then have lo: "unat (acc AND (push_bit ?b 1 - 1)) = unat acc mod 2 ^ ?b" by (simp add: unat_and_mask)
  have ff: "w AND 0xff = w AND mask 8" for w :: u32 by (simp add: mask_eq_exp_minus_1)
  have "unat ?hi = unat acc div 2 ^ ?b mod 256"
    unfolding ff unsigned_ucast_eq unat_and_mask unat_drop_bit by (simp add: take_bit_eq_mod)
  also have "\<dots> = unat (of_nat (unat acc div 2 ^ ?b) :: u8)" by (simp add: unat_of_nat)
  finally have hi: "?hi = of_nat (unat acc div 2 ^ ?b)" by (rule unsigned_word_eqI)
  have small: "\<not> 8 \<le> ?b" using assms(3) by linarith
  have "base32_flush (acc AND (push_bit ?b 1 - 1)) ?b (out @ [?hi]) = Inr (acc AND (push_bit ?b 1 - 1), ?b, out @ [?hi])"
    by (subst base32_flush.simps) (simp only: small if_False)
  then have "base32_flush acc bits out = Inr (acc AND (push_bit ?b 1 - 1), ?b, out @ [?hi])"
    using assms(2,4) by (subst base32_flush.simps) simp
  with lo hi show ?thesis by simp
qed

lemma base32_char_inv:
  assumes inv: "b32_inv k val acc bits out" and k: "k < 32" and d: "unat (d :: u8) < 32"
  shows "\<exists>acc' bits' out'. base32_flush (push_bit 5 acc OR ucast d) (bits + 5) out = Inr (acc', bits', out')
    \<and> b32_inv (Suc k) (32 * val + unat d) acc' bits' out'"
proof -
  let ?a = "push_bit 5 acc OR ucast d"
  have i: "bits < 8" "unat acc < 2 ^ bits" "length out * 8 + bits = 5 * k"
    and v: "be_value out * 2 ^ bits + unat acc = val" using inv by (auto simp: b32_inv_def)
  have a: "unat ?a = 32 * unat acc + unat d" using unat_shift_in i d by blast
  have lt: "unat ?a < 2 ^ (bits + 5)" using a i(2) d by (simp add: power_add)
  have tot: "be_value out * 2 ^ (bits + 5) + unat ?a = 32 * val + unat d"
    using v a by (simp add: power_add algebra_simps)
  show ?thesis
  proof (cases "8 \<le> bits + 5")
    case True
    define b where "b = bits + 5 - 8"
    have b: "bits + 5 = b + 8" "b < 8" using True i(1) by (auto simp: b_def)
    have room: "length out < 20" using i(3) k by linarith
    obtain acc' where f: "base32_flush ?a (bits + 5) out = Inr (acc', b, out @ [of_nat (unat ?a div 2 ^ b)])"
      and m: "unat acc' = unat ?a mod 2 ^ b"
      using base32_flush_step [OF lt True _ room] i(1) b by auto
    have small: "unat ?a div 2 ^ b < 256" using lt b by (simp add: power_add less_mult_imp_div_less mult.commute)
    have "be_value (out @ [of_nat (unat ?a div 2 ^ b)]) * 2 ^ b + unat acc'
        = be_value out * 2 ^ (b + 8) + (unat ?a div 2 ^ b * 2 ^ b + unat ?a mod 2 ^ b)"
      using small m by (simp add: be_value_snoc unat_of_nat power_add algebra_simps)
    also have "\<dots> = 32 * val + unat d" using tot b by (simp only: div_mult_mod_eq)
    finally have "b32_inv (Suc k) (32 * val + unat d) acc' b (out @ [of_nat (unat ?a div 2 ^ b)])"
      using m i(3) b by (simp add: b32_inv_def)
    with f show ?thesis by blast
  next
    case False
    then have "base32_flush ?a (bits + 5) out = Inr (?a, bits + 5, out)" by (subst base32_flush.simps) simp
    with False lt tot i show ?thesis by (auto simp: b32_inv_def)
  qed
qed

lemma base32_loop_inv:
  assumes "b32_inv k val acc bits out" "k + length s \<le> 32" "\<forall>c \<in> set s. base32_digit c \<noteq> None"
  shows "\<exists>acc' bits' out'. base32_loop s acc bits out = Inr (acc', bits', out')
    \<and> b32_inv (k + length s) (foldl (\<lambda>a c. 32 * a + unat (the (base32_digit c))) val s) acc' bits' out'"
  using assms
proof (induction s arbitrary: k val acc bits out)
  case (Cons c s)
  then obtain d where d: "base32_digit c = Some d" by auto
  from base32_char_inv [OF Cons.prems(1) _ base32_digit_bound [OF d]] Cons.prems(2)
  obtain acc' bits' out' where f: "base32_flush (push_bit 5 acc OR ucast d) (bits + 5) out = Inr (acc', bits', out')"
    and i: "b32_inv (Suc k) (32 * val + unat d) acc' bits' out'" by auto
  from Cons.IH [OF i] Cons.prems(2,3) d f show ?case by simp
qed simp

lemma decode_base32_ok:
  assumes "length s = 32" "\<forall>c \<in> set s. base32_digit c \<noteq> None"
  shows "\<exists>h. decode_base32_20 s = Inr h \<and> length h = 20 \<and> be_value h = base32_value s"
proof -
  have "b32_inv 0 0 0 0 []" by (simp add: b32_inv_def be_value_def)
  from base32_loop_inv [OF this, of s] assms obtain acc bits out where
    l: "base32_loop s 0 0 [] = Inr (acc, bits, out)" and i: "b32_inv 32 (base32_value s) acc bits out"
    by (auto simp: base32_value_def)
  then have "length out * 8 + bits = 160" "bits < 8" by (simp_all add: b32_inv_def)
  then have "bits = 0" "length out = 20" by presburger+
  with l i show ?thesis by (auto simp: decode_base32_20_def b32_inv_def)
qed

lemma base32_loop_digits: "base32_loop s acc bits out = Inr r \<Longrightarrow> \<forall>c \<in> set s. base32_digit c \<noteq> None"
  by (induction s arbitrary: acc bits out) auto

lemma base256_inject: "x < 256 \<Longrightarrow> y < 256 \<Longrightarrow> 256 * a + x = 256 * b + y \<Longrightarrow> a = b \<and> x = (y :: nat)"
proof -
  assume lt: "x < 256" "y < 256" and eq: "256 * a + x = 256 * b + y"
  have "(256 * a + x) div 256 = a" "(256 * b + y) div 256 = b" using lt by simp_all
  then have "a = b" using eq by metis
  with eq show ?thesis by simp
qed

lemma be_value_inject: "length a = length b \<Longrightarrow> be_value a = be_value b \<Longrightarrow> a = b"
proof (induction a arbitrary: b rule: rev_induct)
  case (snoc x a)
  then obtain b' y where b: "b = b' @ [y]" by (cases b rule: rev_cases) auto
  have "256 * be_value a + unat x = 256 * be_value b' + unat y"
    using snoc.prems(2) by (simp add: b be_value_snoc)
  then have "be_value a = be_value b'" "unat x = unat y"
    using base256_inject [OF unat_u8_less unat_u8_less] by blast+
  with snoc b show ?case by (auto dest: unsigned_word_eqI)
qed simp

subsection \<open>What an accepted link looks like\<close>

definition safe_url :: "(str \<Rightarrow> url option) \<Rightarrow> str list \<Rightarrow> str \<Rightarrow> bool" where
  "safe_url url_parse schemes raw \<longleftrightarrow>
     (\<exists>u. url_parse raw = Some u \<and> scheme u \<in> set schemes \<and> host_str u \<noteq> None \<and> username u = [] \<and> password u = None)"

abbreviation tracker_schemes :: "str list" where
  "tracker_schemes \<equiv> [lit ''http'', lit ''https'', lit ''udp'']"
abbreviation seed_schemes :: "str list" where
  "seed_schemes \<equiv> [lit ''http'', lit ''https'']"

definition url_list_ok :: "(str \<Rightarrow> url option) \<Rightarrow> str list \<Rightarrow> nat \<Rightarrow> str list \<Rightarrow> bool" where
  "url_list_ok url_parse schemes limit us \<longleftrightarrow>
     distinct us \<and> length us \<le> limit \<and> (\<forall>u \<in> set us. safe_url url_parse schemes u)"

definition magnet_inv :: "(str \<Rightarrow> url option) \<Rightarrow> magnet_state \<Rightarrow> bool" where
  "magnet_inv url_parse st \<longleftrightarrow>
     (\<forall>h. st_info_hash st = Some h \<longrightarrow> length h = 20) \<and> st_display_name st \<noteq> Some []
     \<and> url_list_ok url_parse tracker_schemes MAX_MAGNET_TRACKERS (st_trackers st)
     \<and> url_list_ok url_parse seed_schemes MAX_MAGNET_WEB_SEEDS (st_web_seeds st)
     \<and> (\<forall>n. st_exact_length st = Some n \<longrightarrow> n < u64_limit)"

lemma parse_btih_length: "parse_btih s = Inr h \<Longrightarrow> length h = 20"
proof (cases "length s = 40")
  case True
  then show "parse_btih s = Inr h \<Longrightarrow> length h = 20"
    using length_chunks_exact [of 2 s]
    by (auto simp: parse_btih_def decode_hex_20_def mapM_r_Inr_iff list_all2_lengthD [symmetric])
next
  case False
  then show "parse_btih s = Inr h \<Longrightarrow> length h = 20"
    by (auto simp: parse_btih_def decode_base32_20_def split: if_splits prod.splits)
qed

lemma push_unique_url_ok:
  assumes "push_unique_url url_parse us raw tracker = Inr us'"
    and "url_list_ok url_parse schemes limit us" "\<not> (limit \<le> length us \<and> raw \<notin> set us)"
    and "schemes = (if tracker then tracker_schemes else seed_schemes)"
  shows "url_list_ok url_parse schemes limit us'"
proof -
  have "safe_url url_parse schemes raw" and "us' = (if raw \<in> set us then us else us @ [raw])"
    using assms(1,4)
    by (auto simp: push_unique_url_def safe_url_def Let_def split: if_splits)
  with assms(2,3) show ?thesis by (auto simp: url_list_ok_def)
qed

lemma magnet_pair_inv:
  assumes "magnet_inv url_parse st" "magnet_pair url_parse st (k, v) = Inr st'"
  shows "magnet_inv url_parse st'"
proof -
  consider (xt) "k = lit ''xt''" | (dn) "k = lit ''dn''" | (tr) "k = lit ''tr''"
    | (ws) "k = lit ''ws'' \<or> k = lit ''as''" | (xl) "k = lit ''xl''"
    | (other) "k \<notin> {lit ''xt'', lit ''dn'', lit ''tr'', lit ''ws'', lit ''as'', lit ''xl''}" by blast
  then show ?thesis
  proof cases
    case xt
    with assms parse_btih_length show ?thesis
      by (auto simp: magnet_pair_def magnet_inv_def split: option.splits if_splits)
  next
    case tr
    with assms(2) obtain ts where "push_unique_url url_parse (st_trackers st) v True = Inr ts"
      "st' = st\<lparr>st_trackers := ts\<rparr>" "\<not> (MAX_MAGNET_TRACKERS \<le> length (st_trackers st) \<and> v \<notin> set (st_trackers st))"
      by (auto simp: magnet_pair_def lit_def split: if_splits)
    with assms(1) push_unique_url_ok [of url_parse "st_trackers st" v True ts tracker_schemes] show ?thesis
      by (auto simp: magnet_inv_def)
  next
    case ws
    with assms(2) obtain us where "push_unique_url url_parse (st_web_seeds st) v False = Inr us"
      "st' = st\<lparr>st_web_seeds := us\<rparr>" "\<not> (MAX_MAGNET_WEB_SEEDS \<le> length (st_web_seeds st) \<and> v \<notin> set (st_web_seeds st))"
      by (auto simp: magnet_pair_def lit_def split: if_splits)
    with assms(1) push_unique_url_ok [of url_parse "st_web_seeds st" v False us seed_schemes] show ?thesis
      by (auto simp: magnet_inv_def)
  next
    case dn
    with assms show ?thesis by (auto simp: magnet_pair_def magnet_inv_def lit_def Let_def split: if_splits)
  next
    case xl
    with assms show ?thesis
      by (auto simp: magnet_pair_def magnet_inv_def lit_def dest: parse_unsigned_bound split: if_splits)
  next
    case other
    with assms show ?thesis by (simp add: magnet_pair_def)
  qed
qed

lemma magnet_pairs_inv:
  "magnet_inv url_parse st \<Longrightarrow> magnet_pairs url_parse st kvs = Inr st' \<Longrightarrow> magnet_inv url_parse st'"
proof (induction kvs arbitrary: st)
  case (Cons kv kvs)
  then obtain st1 where "magnet_pair url_parse st kv = Inr st1" "magnet_pairs url_parse st1 kvs = Inr st'" by auto
  with Cons magnet_pair_inv [of url_parse st "fst kv" "snd kv" st1] show ?case by simp
qed simp

subsection \<open>Properties\<close>

text \<open>A 32-character info hash of a magnet link is accepted exactly when every character is a
  base-32 digit, in either case, and the hash returned is the 20-byte number those digits write.\<close>
lemma btih_base32_exact:
  assumes "length s = 32"
  shows "parse_btih s = Inr h \<longleftrightarrow>
    list_all (\<lambda>c. base32_digit c \<noteq> None) s \<and> length h = 20 \<and> be_value h = base32_value s"
proof
  assume p: "parse_btih s = Inr h"
  then obtain r where "base32_loop s 0 0 [] = Inr r" using assms by (auto simp: parse_btih_def decode_base32_20_def)
  then have d: "\<forall>c \<in> set s. base32_digit c \<noteq> None" by (rule base32_loop_digits)
  with decode_base32_ok [OF assms d] p assms
  show "list_all (\<lambda>c. base32_digit c \<noteq> None) s \<and> length h = 20 \<and> be_value h = base32_value s"
    by (auto simp: parse_btih_def list_all_iff)
next
  assume a: "list_all (\<lambda>c. base32_digit c \<noteq> None) s \<and> length h = 20 \<and> be_value h = base32_value s"
  then obtain h' where "decode_base32_20 s = Inr h'" "length h' = 20" "be_value h' = base32_value s"
    using decode_base32_ok [OF assms] by (auto simp: list_all_iff)
  with a assms be_value_inject [of h h'] show "parse_btih s = Inr h" by (simp add: parse_btih_def)
qed

text \<open>The hexadecimal form of an info hash, as \<open>InfoHash::to_hex\<close> prints it, is read back to the
  same hash.\<close>
lemma btih_hex_roundtrip:
  assumes "length h = 20"
  shows "parse_btih (to_hex h) = Inr h"
  using assms by (simp add: parse_btih_def length_to_hex decode_to_hex)

text \<open>An accepted magnet link has a 20-byte info hash, no empty display name, at most 128 distinct
  trackers and 64 distinct web seeds, each a URL of an allowed scheme with a host and without
  credentials, and a 64-bit length if it has one.\<close>
lemma magnet_parse_wellformed:
  assumes "magnet_parse url_parse input = Inr m"
  shows "length (mg_info_hash m) = 20 \<and> mg_display_name m \<noteq> Some []
    \<and> url_list_ok url_parse tracker_schemes MAX_MAGNET_TRACKERS (mg_trackers m)
    \<and> url_list_ok url_parse seed_schemes MAX_MAGNET_WEB_SEEDS (mg_web_seeds m)
    \<and> (\<forall>n. mg_exact_length m = Some n \<longrightarrow> n < u64_limit)"
proof -
  let ?init = "\<lparr>st_info_hash = None, st_display_name = None, st_trackers = [], st_web_seeds = [], st_exact_length = None\<rparr>"
  have init: "magnet_inv url_parse ?init" by (simp add: magnet_inv_def url_list_ok_def)
  show ?thesis
    using assms magnet_pairs_inv [OF init]
    by (auto simp: magnet_parse_def magnet_inv_def split: if_splits)
qed

definition sample_magnet_url :: "str \<Rightarrow> url option" where
  "sample_magnet_url s =
     (if s = lit ''m'' then Some \<lparr>scheme = lit ''magnet'', host_str = None, username = [], password = None,
        query_pairs = [(lit ''xt'', lit ''urn:btih:'' @ to_hex (replicate 20 7)), (lit ''tr'', lit ''t'')]\<rparr>
      else Some \<lparr>scheme = lit ''udp'', host_str = Some (lit ''h''), username = [], password = None, query_pairs = []\<rparr>)"

end
