(* ===== verification/Net.thy ===== *)
theory Net
  imports Bytes "HOL-Library.Product_Lexorder"
begin

text \<open>
  \<open>std::net\<close>: IP and socket addresses with their order, the text form that \<open>str::parse\<close> reads
  into an \<open>IpAddr\<close>, and the compact byte forms (4 or 16 address bytes and a big-endian port) that
  \<open>tracker.rs\<close>, \<open>dht.rs\<close> and \<open>extension.rs\<close> share. Octets are lists, of 4 and of 16 bytes.
\<close>

datatype ip_addr = V4 "u8 list" | V6 "u8 list"

datatype socket_addr = SocketAddr (ip: ip_addr) (port: u16)

fun is_ipv4 :: "ip_addr \<Rightarrow> bool" where
  "is_ipv4 (V4 _) = True"
| "is_ipv4 (V6 _) = False"

fun octets :: "ip_addr \<Rightarrow> u8 list" where
  "octets (V4 os) = os"
| "octets (V6 os) = os"

definition ip_wf :: "ip_addr \<Rightarrow> bool" where
  "ip_wf a \<longleftrightarrow> length (octets a) = (if is_ipv4 a then 4 else 16)"

subsection \<open>Reading an address from text\<close>

definition to_digit :: "nat \<Rightarrow> u8 \<Rightarrow> nat option" where
  "to_digit radix c =
     (let v = (if is_ascii_digit c then Some (unat c - 48)
               else if is_ascii_lower c then Some (unat c - 97 + 10)
               else if is_ascii_upper c then Some (unat c - 65 + 10)
               else None)
      in case v of None \<Rightarrow> None | Some d \<Rightarrow> if d < radix then Some d else None)"

text \<open>\<open>read_number\<close>: at most \<open>max_digits\<close> digits, the value below \<open>limit\<close>, and a leading zero only
  where it is allowed. A failure leaves the text where it was.\<close>

fun digits_loop :: "nat \<Rightarrow> nat \<Rightarrow> nat \<Rightarrow> u8 list \<Rightarrow> nat \<Rightarrow> nat \<Rightarrow> (nat \<times> nat \<times> u8 list) option" where
  "digits_loop radix max_digits limit [] result count = Some (result, count, [])"
| "digits_loop radix max_digits limit (c # rest) result count =
     (case to_digit radix c of
        None \<Rightarrow> Some (result, count, c # rest)
      | Some d \<Rightarrow>
          if limit \<le> result * radix \<or> limit \<le> result * radix + d \<or> max_digits < count + 1 then None
          else digits_loop radix max_digits limit rest (result * radix + d) (count + 1))"

definition read_number ::
  "nat \<Rightarrow> nat \<Rightarrow> bool \<Rightarrow> nat \<Rightarrow> u8 list \<Rightarrow> (nat \<times> u8 list) option" where
  "read_number radix max_digits allow_zero_prefix limit s =
     (case digits_loop radix max_digits limit s 0 0 of
        None \<Rightarrow> None
      | Some (result, count, rest) \<Rightarrow>
          if count = 0 then None
          else if \<not> allow_zero_prefix \<and> hd s = 0x30 \<and> 1 < count then None
          else Some (result, rest))"

definition read_given_char :: "u8 \<Rightarrow> u8 list \<Rightarrow> u8 list option" where
  "read_given_char c s = (case s of [] \<Rightarrow> None | b # r \<Rightarrow> if b = c then Some r else None)"

definition read_separator ::
  "u8 \<Rightarrow> nat \<Rightarrow> (u8 list \<Rightarrow> ('a \<times> u8 list) option) \<Rightarrow> u8 list \<Rightarrow> ('a \<times> u8 list) option" where
  "read_separator sep index inner s =
     (if 0 < index then Option.bind (read_given_char sep s) inner else inner s)"

fun read_octets :: "nat \<Rightarrow> nat \<Rightarrow> u8 list \<Rightarrow> (u8 list \<times> u8 list) option" where
  "read_octets 0 i s = Some ([], s)"
| "read_octets (Suc n) i s =
     Option.bind (read_separator 0x2e i (read_number 10 3 False 256) s) (\<lambda>(g, s1).
     Option.bind (read_octets n (i + 1) s1) (\<lambda>(gs, s2). Some (of_nat g # gs, s2)))"

definition read_ipv4_addr :: "u8 list \<Rightarrow> (u8 list \<times> u8 list) option" where
  "read_ipv4_addr s = read_octets 4 0 s"

text \<open>\<open>read_groups\<close>: up to \<open>n\<close> further 16-bit groups, as bytes, with their number, whether the last
  two came from an IPv4 tail, and the rest of the text.\<close>

fun read_groups :: "nat \<Rightarrow> nat \<Rightarrow> u8 list \<Rightarrow> u8 list \<times> nat \<times> bool \<times> u8 list" where
  "read_groups 0 i s = ([], i, False, s)"
| "read_groups (Suc n) i s =
     (case (if 0 < n then read_separator 0x3a i read_ipv4_addr s else None) of
        Some (v4, s1) \<Rightarrow> (v4, i + 2, True, s1)
      | None \<Rightarrow>
          (case read_separator 0x3a i (read_number 16 4 True 65536) s of
             None \<Rightarrow> ([], i, False, s)
           | Some (g, s1) \<Rightarrow>
               (let (gs, j, v4, s2) = read_groups n (i + 1) s1 in (to_be16 (of_nat g) @ gs, j, v4, s2))))"

definition read_ipv6_addr :: "u8 list \<Rightarrow> (u8 list \<times> u8 list) option" where
  "read_ipv6_addr s =
     (let (head, head_size, head_ipv4, s1) = read_groups 8 0 s in
      if head_size = 8 then Some (head, s1)
      else if head_ipv4 then None
      else Option.bind (read_given_char 0x3a s1) (\<lambda>s2.
      Option.bind (read_given_char 0x3a s2) (\<lambda>s3.
      let (tail, tail_size, tail_ipv4, s4) = read_groups (8 - (head_size + 1)) 0 s3 in
      Some (head @ replicate (16 - length head - length tail) 0 @ tail, s4))))"

definition parse_ip_addr :: "u8 list \<Rightarrow> ip_addr option" where
  "parse_ip_addr s =
     (let r = (case read_ipv4_addr s of
           Some (os, rest) \<Rightarrow> Some (V4 os, rest)
         | None \<Rightarrow> map_option (\<lambda>(os, rest). (V6 os, rest)) (read_ipv6_addr s))
      in case r of Some (a, rest) \<Rightarrow> if rest = [] then Some a else None | None \<Rightarrow> None)"

subsection \<open>Order\<close>

text \<open>The derived order of \<open>SocketAddr\<close>: IPv4 before IPv6, then the octets, then the port.\<close>

definition addr_key :: "socket_addr \<Rightarrow> nat \<times> u8 list \<times> u16" where
  "addr_key a = ((if is_ipv4 (ip a) then 0 else 1), octets (ip a), port a)"

lemma addr_key_inject: "addr_key a = addr_key b \<longleftrightarrow> a = b"
proof
  assume e: "addr_key a = addr_key b"
  then have "ip a = ip b" by (cases "ip a"; cases "ip b") (auto simp: addr_key_def)
  with e show "a = b" by (cases a; cases b) (simp add: addr_key_def)
qed simp

instantiation socket_addr :: linorder
begin

definition less_eq_socket_addr :: "socket_addr \<Rightarrow> socket_addr \<Rightarrow> bool" where
  "less_eq_socket_addr a b \<longleftrightarrow> addr_key a \<le> addr_key b"

definition less_socket_addr :: "socket_addr \<Rightarrow> socket_addr \<Rightarrow> bool" where
  "less_socket_addr a b \<longleftrightarrow> addr_key a < addr_key b"

instance
  by standard (auto simp: less_eq_socket_addr_def less_socket_addr_def addr_key_inject [symmetric])

end

subsection \<open>Compact forms\<close>

definition compact_addr :: "socket_addr \<Rightarrow> u8 list" where
  "compact_addr a = octets (ip a) @ to_be16 (port a)"

definition addr_of_chunk :: "(u8 list \<Rightarrow> ip_addr) \<Rightarrow> u8 list \<Rightarrow> socket_addr" where
  "addr_of_chunk fam chunk =
     (let n = length chunk - 2
      in SocketAddr (fam (take n chunk)) (from_be16 (chunk ! n) (chunk ! (n + 1))))"

lemma compact_roundtrip [codec_simps]:
  "is_ipv4 (ip a) \<Longrightarrow> addr_of_chunk V4 (compact_addr a) = a"
  "\<not> is_ipv4 (ip a) \<Longrightarrow> addr_of_chunk V6 (compact_addr a) = a"
  by (cases a; cases "ip a"; simp add: addr_of_chunk_def compact_addr_def Let_def nth_append)+

lemma compact_of_chunk:
  assumes "2 \<le> length c" "fam = V4 \<or> fam = V6"
  shows "compact_addr (addr_of_chunk fam c) = c"
proof -
  let ?n = "length c - 2"
  have "drop ?n c = [c ! ?n, c ! (?n + 1)]"
  proof -
    have "length (drop ?n c) = 2" using assms(1) by simp
    then obtain x y where xy: "drop ?n c = [x, y]"
      by (auto simp: numeral_2_eq_2 length_Suc_conv simp del: length_drop)
    then have "c ! (?n + 0) = x" "c ! (?n + 1) = y"
      using assms(1) nth_drop [of ?n c 0] nth_drop [of ?n c 1] by simp_all
    with xy show ?thesis by simp
  qed
  then have "take ?n c @ [c ! ?n, c ! (?n + 1)] = c" by (metis append_take_drop_id)
  with assms(2) show ?thesis by (auto simp: compact_addr_def addr_of_chunk_def Let_def to_from_be16)
qed

lemma length_compact: "ip_wf (ip a) \<Longrightarrow> length (compact_addr a) = (if is_ipv4 (ip a) then 6 else 18)"
  by (simp add: compact_addr_def ip_wf_def)

subsection \<open>The text parser gives whole addresses\<close>

lemma read_octets_length: "read_octets n i s = Some (os, rest) \<Longrightarrow> length os = n"
  by (induction n i s arbitrary: os rest rule: read_octets.induct) (auto simp: bind_eq_Some_conv)

lemma read_separator_Some:
  "read_separator sep i f s = Some r \<Longrightarrow> \<exists>s'. f s' = Some r"
  by (auto simp: read_separator_def bind_eq_Some_conv split: if_splits)

lemma read_groups_length:
  "read_groups n i s = (gs, j, v4, rest) \<Longrightarrow> length gs = 2 * (j - i) \<and> i \<le> j \<and> j \<le> i + n"
proof (induction n i s arbitrary: gs j v4 rest rule: read_groups.induct)
  case (2 n i s)
  show ?case
  proof (cases "if 0 < n then read_separator 0x3a i read_ipv4_addr s else None")
    case (Some r)
    then obtain os s1 where r: "r = (os, s1)" "0 < n" "read_separator 0x3a i read_ipv4_addr s = Some (os, s1)"
      by (cases r) (auto split: if_splits)
    then have "length os = 4" using read_separator_Some read_octets_length unfolding read_ipv4_addr_def by blast
    with "2.prems" Some r show ?thesis by auto
  next
    case None
    show ?thesis
    proof (cases "read_separator 0x3a i (read_number 16 4 True 65536) s")
      case None2: None
      with None "2.prems" show ?thesis by auto
    next
      case (Some r)
      then obtain g s1 where r: "r = (g, s1)" by (cases r)
      obtain gs' j' v4' s2 where g: "read_groups n (i + 1) s1 = (gs', j', v4', s2)" by (cases "read_groups n (i + 1) s1") auto
      with None Some r "2.prems" have e: "gs = to_be16 (of_nat g) @ gs'" "j = j'" by (auto simp del: to_be16_def)
      have "length gs' = 2 * (j' - (i + 1)) \<and> i + 1 \<le> j' \<and> j' \<le> i + 1 + n"
        using "2.IH" [OF None Some] r g by blast
      with e show ?thesis by auto
    qed
  qed
qed simp

lemma read_ipv6_length:
  assumes "read_ipv6_addr s = Some (os, rest)"
  shows "length os = 16"
proof -
  obtain h hs h4 s1 where h: "read_groups 8 0 s = (h, hs, h4, s1)" by (cases "read_groups 8 0 s") auto
  have lh: "length h = 2 * hs" "hs \<le> 8" using read_groups_length [OF h] by auto
  show ?thesis
  proof (cases "hs = 8")
    case True
    with assms h lh show ?thesis by (simp add: read_ipv6_addr_def)
  next
    case False
    then obtain s3 where s3: "(case read_groups (8 - (hs + 1)) 0 s3 of (t, ts, t4, s4) \<Rightarrow>
        Some (h @ replicate (16 - length h - length t) 0 @ t, s4)) = Some (os, rest)"
      using assms h by (auto simp: read_ipv6_addr_def bind_eq_Some_conv Let_def split: if_splits)
    obtain t ts t4 s4 where t: "read_groups (8 - (hs + 1)) 0 s3 = (t, ts, t4, s4)"
      by (cases "read_groups (8 - (hs + 1)) 0 s3") auto
    with s3 have os: "os = h @ replicate (16 - length h - length t) 0 @ t" by auto
    have "length t = 2 * ts" "ts \<le> 8 - (hs + 1)" using read_groups_length [OF t] by auto
    with lh False os show ?thesis by simp
  qed
qed

lemma parse_ip_addr_wf:
  assumes "parse_ip_addr s = Some a"
  shows "ip_wf a"
proof (cases "read_ipv4_addr s")
  case None
  then obtain os rest where "read_ipv6_addr s = Some (os, rest)" "a = V6 os"
    using assms by (auto simp: parse_ip_addr_def Let_def split: option.splits if_splits)
  then show ?thesis using read_ipv6_length by (simp add: ip_wf_def)
next
  case (Some r)
  then obtain os rest where "read_ipv4_addr s = Some (os, rest)" "a = V4 os"
    using assms by (cases r) (auto simp: parse_ip_addr_def Let_def split: if_splits)
  then show ?thesis using read_octets_length [of 4 0 s os rest] by (simp add: ip_wf_def read_ipv4_addr_def)
qed

subsection \<open>Sorted address lists\<close>

lemma filter_partition_sorted:
  assumes "sorted (map f xs)" "\<And>x y. f x \<le> f y \<Longrightarrow> P y \<Longrightarrow> P x"
  shows "filter P xs @ filter (\<lambda>x. \<not> P x) xs = xs"
  using assms(1)
proof (induction xs)
  case (Cons x xs)
  show ?case
  proof (cases "P x")
    case True
    with Cons show ?thesis by simp
  next
    case False
    then have "\<forall>y \<in> set xs. \<not> P y" using Cons.prems assms(2) by auto
    then have "filter P xs = []" "filter (\<lambda>x. \<not> P x) xs = xs" by (auto simp: filter_empty_conv filter_id_conv)
    with False show ?thesis by simp
  qed
qed simp

lemma v4_first: "a \<le> b \<Longrightarrow> is_ipv4 (ip b) \<Longrightarrow> is_ipv4 (ip a)"
  by (cases "is_ipv4 (ip a)") (simp_all add: less_eq_socket_addr_def addr_key_def less_eq_prod_def)

lemma remdups_adj_sorted_distinct: "sorted xs \<Longrightarrow> distinct (remdups_adj xs)"
proof (induction xs rule: remdups_adj.induct)
  case (3 x y xs)
  then show ?case by (cases "x = y") (auto simp: order.strict_iff_order)
qed simp_all

end
