(* ===== verification/Tracker.thy ===== *)
theory Tracker
  imports Metainfo Net
begin

text \<open>
  \<open>crates/nova-torrent-core/src/tracker.rs\<close>: announce requests to HTTP and UDP trackers and the
  parsers of their responses. \<open>Url::parse\<close> is the parameter \<open>url_parse\<close>, and
  \<open>url_with_query u q\<close> stands for the text of \<open>u\<close> after \<open>set_query(Some(q))\<close> and
  \<open>set_fragment(None)\<close>. Messages inside error values are kept as constructors of
  \<open>tracker_message\<close>.
\<close>

unbundle bit_operations_syntax

definition MAX_TRACKER_RESPONSE_BYTES :: nat where "MAX_TRACKER_RESPONSE_BYTES = 4 * 1024 * 1024"
definition MAX_TRACKER_PEERS :: nat where "MAX_TRACKER_PEERS = 10000"
definition MAX_TRACKER_BENCODE_DEPTH :: nat where "MAX_TRACKER_BENCODE_DEPTH = 16"
definition MAX_TRACKER_MESSAGE_BYTES :: nat where "MAX_TRACKER_MESSAGE_BYTES = 1024"
definition UDP_TRACKER_PROTOCOL_ID :: u64 where "UDP_TRACKER_PROTOCOL_ID = 0x041727101980"
definition UDP_CONNECT_ACTION :: u32 where "UDP_CONNECT_ACTION = 0"
definition UDP_ANNOUNCE_ACTION :: u32 where "UDP_ANNOUNCE_ACTION = 1"
definition UDP_ERROR_ACTION :: u32 where "UDP_ERROR_ACTION = 3"

datatype TrackerEvent = NoEvent | Completed | Started | Stopped

fun udp_code :: "TrackerEvent \<Rightarrow> u32" where
  "udp_code NoEvent = 0"
| "udp_code Completed = 1"
| "udp_code Started = 2"
| "udp_code Stopped = 3"

fun http_value :: "TrackerEvent \<Rightarrow> str option" where
  "http_value NoEvent = None"
| "http_value Completed = Some (lit ''completed'')"
| "http_value Started = Some (lit ''started'')"
| "http_value Stopped = Some (lit ''stopped'')"

record announce_request =
  a_info_hash :: info_hash
  a_peer_id :: "u8 list"
  a_port :: u16
  a_uploaded :: u64
  a_downloaded :: u64
  a_left :: u64
  a_event :: TrackerEvent
  a_key :: u32
  a_num_want :: "u32 option"

datatype tracker_message = OutsideU32 int | MustBePositive | NotAPeerList

datatype TrackerProtocolError =
    InvalidTrackerUrl str
  | InvalidPort
  | ResponseTooLarge nat nat
  | InvalidBencode bencode_fault
  | TrackerFailure str
  | MissingTrackerField string
  | InvalidTrackerField string tracker_message
  | InvalidCompactPeers string nat
  | TooManyPeers nat
  | TransactionMismatch u32 u32
  | UnexpectedUdpAction u32 u32
  | TruncatedUdpResponse nat nat
  | InvalidUdpLength nat nat

record tracker_peer =
  t_address :: socket_addr
  t_peer_id :: "u8 list option"

subsection \<open>HTTP requests\<close>

definition is_announce_query_key :: "str \<Rightarrow> bool" where
  "is_announce_query_key key =
     List.member [lit ''info_hash'', lit ''peer_id'', lit ''port'', lit ''uploaded'', lit ''downloaded'',
       lit ''left'', lit ''compact'', lit ''no_peer_id'', lit ''key'', lit ''numwant'', lit ''event'',
       lit ''ip''] key"

definition HEX_UPPER :: "u8 list" where
  "HEX_UPPER = lit ''0123456789ABCDEF''"

definition percent_byte :: "u8 \<Rightarrow> str" where
  "percent_byte b = [0x25, HEX_UPPER ! unat (drop_bit 4 b), HEX_UPPER ! unat (b AND 0x0f)]"

definition percent_encode_query_component :: "u8 list \<Rightarrow> str" where
  "percent_encode_query_component bytes =
     concat (map (\<lambda>b. if is_ascii_alphanumeric b \<or> List.member (lit ''-._~'') b then [b] else percent_byte b) bytes)"

definition percent_encode_bytes :: "u8 list \<Rightarrow> str" where
  "percent_encode_bytes bytes = concat (map percent_byte bytes)"

fun join :: "str \<Rightarrow> str list \<Rightarrow> str" where
  "join sep [] = []"
| "join sep [x] = x"
| "join sep (x # y # xs) = x @ sep @ join sep (y # xs)"

definition announce_fields :: "announce_request \<Rightarrow> url \<Rightarrow> str list" where
  "announce_fields r u =
     map (\<lambda>(k, v). percent_encode_query_component k @ lit ''='' @ percent_encode_query_component v)
       (filter (\<lambda>(k, v). \<not> is_announce_query_key k) (query_pairs u))
     @ [lit ''info_hash='' @ percent_encode_bytes (a_info_hash r),
        lit ''peer_id='' @ percent_encode_bytes (a_peer_id r),
        lit ''port='' @ nat_to_dec (unat (a_port r)),
        lit ''uploaded='' @ nat_to_dec (unat (a_uploaded r)),
        lit ''downloaded='' @ nat_to_dec (unat (a_downloaded r)),
        lit ''left='' @ nat_to_dec (unat (a_left r)),
        lit ''compact=1'',
        lit ''no_peer_id=1'',
        lit ''key='' @ to_hex (to_be32 (a_key r))]
     @ (case a_num_want r of
          None \<Rightarrow> []
        | Some n \<Rightarrow> [lit ''numwant='' @ nat_to_dec (unat (min n (of_nat MAX_TRACKER_PEERS)))])
     @ (case http_value (a_event r) of None \<Rightarrow> [] | Some e \<Rightarrow> [lit ''event='' @ e])"

definition to_http_url ::
  "(str \<Rightarrow> url option) \<Rightarrow> (url \<Rightarrow> str \<Rightarrow> str) \<Rightarrow> announce_request \<Rightarrow> str \<Rightarrow> (TrackerProtocolError, str) result" where
  "to_http_url url_parse url_with_query r base =
     (if a_port r = 0 then Inl InvalidPort
      else rbind (ok_or (InvalidTrackerUrl base) (url_parse base)) (\<lambda>u.
      if \<not> List.member [lit ''http'', lit ''https''] (scheme u) \<or> host_str u = None
      then Inl (InvalidTrackerUrl base)
      else Inr (url_with_query u (join (lit ''&'') (announce_fields r u)))))"

subsection \<open>UDP packets\<close>

definition to_udp_announce_packet ::
  "announce_request \<Rightarrow> u64 \<Rightarrow> u32 \<Rightarrow> (TrackerProtocolError, u8 list) result" where
  "to_udp_announce_packet r connection_id transaction_id =
     (if a_port r = 0 then Inl InvalidPort
      else Inr (to_be64 connection_id @ to_be32 UDP_ANNOUNCE_ACTION @ to_be32 transaction_id
        @ a_info_hash r @ a_peer_id r @ to_be64 (a_downloaded r) @ to_be64 (a_left r) @ to_be64 (a_uploaded r)
        @ to_be32 (udp_code (a_event r)) @ to_be32 0 @ to_be32 (a_key r)
        @ to_be32 (case a_num_want r of None \<Rightarrow> - 1 | Some n \<Rightarrow> min n (of_nat MAX_TRACKER_PEERS))
        @ to_be16 (a_port r)))"

definition udp_connect_packet :: "u32 \<Rightarrow> u8 list" where
  "udp_connect_packet transaction_id =
     to_be64 UDP_TRACKER_PROTOCOL_ID @ to_be32 UDP_CONNECT_ACTION @ to_be32 transaction_id"

definition ensure_response_size :: "u8 list \<Rightarrow> (TrackerProtocolError, unit) result" where
  "ensure_response_size bytes =
     guard (MAX_TRACKER_RESPONSE_BYTES < length bytes) (ResponseTooLarge (length bytes) MAX_TRACKER_RESPONSE_BYTES)"

definition validate_udp_transaction :: "u32 \<Rightarrow> u32 \<Rightarrow> (TrackerProtocolError, unit) result" where
  "validate_udp_transaction actual expected = guard (actual \<noteq> expected) (TransactionMismatch expected actual)"

definition decode_udp_error :: "u8 list \<Rightarrow> str" where
  "decode_udp_error bytes = from_utf8_lossy (take (min (length bytes) 1024) bytes)"

record udp_connect_response =
  c_transaction_id :: u32
  c_connection_id :: u64

definition udp_connect_parse :: "u8 list \<Rightarrow> u32 \<Rightarrow> (TrackerProtocolError, udp_connect_response) result" where
  "udp_connect_parse bytes expected_transaction_id =
     rbind (ensure_response_size bytes) (\<lambda>_.
     if length bytes < 8 then Inl (TruncatedUdpResponse 8 (length bytes))
     else
       (let action = read_be32 bytes 0; transaction_id = read_be32 bytes 4 in
        rbind (validate_udp_transaction transaction_id expected_transaction_id) (\<lambda>_.
        if action = UDP_ERROR_ACTION then Inl (TrackerFailure (decode_udp_error (drop 8 bytes)))
        else if action \<noteq> UDP_CONNECT_ACTION then Inl (UnexpectedUdpAction UDP_CONNECT_ACTION action)
        else if length bytes \<noteq> 16 then Inl (InvalidUdpLength 16 (length bytes))
        else Inr \<lparr>c_transaction_id = transaction_id, c_connection_id = read_be64 bytes 8\<rparr>)))"

subsection \<open>Peer lists\<close>

definition peers_of_chunks :: "(u8 list \<Rightarrow> ip_addr) \<Rightarrow> u8 list list \<Rightarrow> tracker_peer list" where
  "peers_of_chunks fam chunks =
     map (\<lambda>c. \<lparr>t_address = addr_of_chunk fam c, t_peer_id = None\<rparr>)
       (filter (\<lambda>c. port (addr_of_chunk fam c) \<noteq> 0) chunks)"

definition parse_compact_ipv4 :: "u8 list \<Rightarrow> (TrackerProtocolError, tracker_peer list) result" where
  "parse_compact_ipv4 bytes =
     (if length bytes mod 6 \<noteq> 0 then Inl (InvalidCompactPeers ''IPv4'' (length bytes))
      else if MAX_TRACKER_PEERS < length bytes div 6 then Inl (TooManyPeers (length bytes div 6))
      else Inr (peers_of_chunks V4 (chunks_exact 6 bytes)))"

definition parse_compact_ipv6 :: "u8 list \<Rightarrow> (TrackerProtocolError, tracker_peer list) result" where
  "parse_compact_ipv6 bytes =
     (if length bytes mod 18 \<noteq> 0 then Inl (InvalidCompactPeers ''IPv6'' (length bytes))
      else if MAX_TRACKER_PEERS < length bytes div 18 then Inl (TooManyPeers (length bytes div 18))
      else Inr (peers_of_chunks V6 (chunks_exact 18 bytes)))"

definition peer_of_value :: "bvalue \<Rightarrow> tracker_peer option" where
  "peer_of_value value =
     Option.bind (as_dict value) (\<lambda>entries.
     Option.bind (dict_bytes entries (lit ''ip'')) (\<lambda>ip_bytes.
     Option.bind (from_utf8 ip_bytes) (\<lambda>ip_text.
     Option.bind (parse_ip_addr ip_text) (\<lambda>addr.
     Option.bind (dict_int entries (lit ''port'')) (\<lambda>p.
     if 0 \<le> p \<and> p < 65536 \<and> p \<noteq> 0 then
       Some \<lparr>t_address = SocketAddr addr (of_int p),
             t_peer_id = Option.bind (dict_bytes entries (lit ''peer id''))
               (\<lambda>bytes. if length bytes = 20 then Some bytes else None)\<rparr>
     else None)))))"

definition parse_peer_list :: "bvalue list \<Rightarrow> (TrackerProtocolError, tracker_peer list) result" where
  "parse_peer_list vals =
     (if MAX_TRACKER_PEERS < length vals then Inl (TooManyPeers (length vals))
      else Inr (List.map_filter peer_of_value vals))"

fun retain_new :: "socket_addr list \<Rightarrow> tracker_peer list \<Rightarrow> tracker_peer list" where
  "retain_new seen [] = []"
| "retain_new seen (p # ps) =
     (if List.member seen (t_address p) then retain_new seen ps
      else p # retain_new (t_address p # seen) ps)"

definition deduplicate_peers :: "tracker_peer list \<Rightarrow> tracker_peer list" where
  "deduplicate_peers peers = retain_new [] peers"

record udp_announce_response =
  u_transaction_id :: u32
  u_interval_seconds :: u32
  u_leechers :: u32
  u_seeders :: u32
  u_peers :: "tracker_peer list"

definition udp_announce_parse :: "u8 list \<Rightarrow> u32 \<Rightarrow> (TrackerProtocolError, udp_announce_response) result" where
  "udp_announce_parse bytes expected_transaction_id =
     rbind (ensure_response_size bytes) (\<lambda>_.
     if length bytes < 8 then Inl (TruncatedUdpResponse 8 (length bytes))
     else
       (let action = read_be32 bytes 0; transaction_id = read_be32 bytes 4 in
        rbind (validate_udp_transaction transaction_id expected_transaction_id) (\<lambda>_.
        if action = UDP_ERROR_ACTION then Inl (TrackerFailure (decode_udp_error (drop 8 bytes)))
        else if action \<noteq> UDP_ANNOUNCE_ACTION then Inl (UnexpectedUdpAction UDP_ANNOUNCE_ACTION action)
        else if length bytes < 20 then Inl (TruncatedUdpResponse 20 (length bytes))
        else rbind (parse_compact_ipv4 (drop 20 bytes)) (\<lambda>peers.
        Inr \<lparr>u_transaction_id = transaction_id, u_interval_seconds = read_be32 bytes 8,
             u_leechers = read_be32 bytes 12, u_seeders = read_be32 bytes 16, u_peers = peers\<rparr>))))"

subsection \<open>HTTP responses\<close>

definition tracker_dialect :: bdialect where
  "tracker_dialect =
     \<lparr>max_depth = MAX_TRACKER_BENCODE_DEPTH, max_list = MAX_TRACKER_PEERS * 4, max_dict = 256, key_ok = fresh_key\<rparr>"

definition tracker_parse_int :: "u8 list \<Rightarrow> nat \<Rightarrow> (bencode_fault, int \<times> nat) result" where
  "tracker_parse_int = bparse_int"

definition tracker_parse_bytes :: "u8 list \<Rightarrow> nat \<Rightarrow> (bencode_fault, u8 list \<times> nat) result" where
  "tracker_parse_bytes = bparse_bytes"

definition tracker_parse_value :: "u8 list \<Rightarrow> nat \<Rightarrow> nat \<Rightarrow> (bencode_fault, bvalue \<times> nat) result" where
  "tracker_parse_value = bparse_value tracker_dialect"

definition tracker_parse_list ::
  "u8 list \<Rightarrow> nat \<Rightarrow> nat \<Rightarrow> bvalue list \<Rightarrow> (bencode_fault, bvalue list \<times> nat) result" where
  "tracker_parse_list = bparse_list tracker_dialect"

definition tracker_parse_dict ::
  "u8 list \<Rightarrow> nat \<Rightarrow> nat \<Rightarrow> (u8 list \<times> bvalue) list \<Rightarrow>
   (bencode_fault, (u8 list \<times> bvalue) list \<times> nat) result" where
  "tracker_parse_dict = bparse_dict tracker_dialect"

definition lossy_limited_message :: "u8 list \<Rightarrow> str" where
  "lossy_limited_message bytes =
     (let message = from_utf8_lossy (take (min (length bytes) MAX_TRACKER_MESSAGE_BYTES) bytes)
      in if MAX_TRACKER_MESSAGE_BYTES < length bytes then message @ lit ''...'' else message)"

definition bounded_u32 :: "int \<Rightarrow> string \<Rightarrow> (TrackerProtocolError, nat) result" where
  "bounded_u32 value field =
     (if 0 \<le> value \<and> value < 2 ^ 32 then Inr (nat value) else Inl (InvalidTrackerField field (OutsideU32 value)))"

definition optional_u32 ::
  "(u8 list \<times> bvalue) list \<Rightarrow> string \<Rightarrow> (TrackerProtocolError, nat option) result" where
  "optional_u32 d field =
     (case dict_int d (lit field) of
        None \<Rightarrow> Inr None
      | Some v \<Rightarrow> rbind (bounded_u32 v field) (\<lambda>n. Inr (Some n)))"

record http_tracker_response =
  r_interval_seconds :: nat
  r_min_interval_seconds :: "nat option"
  r_complete :: "nat option"
  r_incomplete :: "nat option"
  r_warning :: "str option"
  r_peers :: "tracker_peer list"

definition response_peers :: "(u8 list \<times> bvalue) list \<Rightarrow> (TrackerProtocolError, tracker_peer list) result" where
  "response_peers d =
     rbind (case dict_get d (lit ''peers'') of
              None \<Rightarrow> Inr []
            | Some (BBytes bytes) \<Rightarrow> parse_compact_ipv4 bytes
            | Some (BList vals) \<Rightarrow> parse_peer_list vals
            | Some _ \<Rightarrow> Inl (InvalidTrackerField ''peers'' NotAPeerList)) (\<lambda>peers.
     rbind (case dict_bytes d (lit ''peers6'') of
              None \<Rightarrow> Inr []
            | Some bytes \<Rightarrow> parse_compact_ipv6 bytes) (\<lambda>peers6.
     let deduplicated = deduplicate_peers (peers @ peers6) in
     Inr (if MAX_TRACKER_PEERS < length deduplicated then take MAX_TRACKER_PEERS deduplicated else deduplicated)))"

definition http_response_parse :: "u8 list \<Rightarrow> (TrackerProtocolError, http_tracker_response) result" where
  "http_response_parse bytes =
     rbind (ensure_response_size bytes) (\<lambda>_.
     rbind (map_err InvalidBencode (tracker_parse_value bytes 0 0)) (\<lambda>(root, position).
     if position \<noteq> length bytes then Inl (InvalidBencode TrailingData)
     else rbind (ok_or (InvalidBencode NotADictionary) (as_dict root)) (\<lambda>d.
     case dict_bytes d (lit ''failure reason'') of
       Some reason \<Rightarrow> Inl (TrackerFailure (lossy_limited_message reason))
     | None \<Rightarrow>
         rbind (ok_or (MissingTrackerField ''interval'') (dict_int d (lit ''interval''))) (\<lambda>interval.
         rbind (bounded_u32 interval ''interval'') (\<lambda>interval_seconds.
         if interval_seconds = 0 then Inl (InvalidTrackerField ''interval'' MustBePositive)
         else rbind (response_peers d) (\<lambda>peers.
         rbind (optional_u32 d ''min interval'') (\<lambda>min_interval.
         rbind (optional_u32 d ''complete'') (\<lambda>complete.
         rbind (optional_u32 d ''incomplete'') (\<lambda>incomplete.
         Inr \<lparr>r_interval_seconds = interval_seconds, r_min_interval_seconds = min_interval,
              r_complete = complete, r_incomplete = incomplete,
              r_warning = map_option lossy_limited_message (dict_bytes d (lit ''warning message'')),
              r_peers = peers\<rparr>)))))))))"

subsection \<open>Facts about peer lists\<close>

interpretation tracker_reader: bencode_reader tracker_dialect tracker_parse_value
  unfolding tracker_parse_value_def by (rule bencode_readerI)

lemma retain_new_addresses:
  "distinct (map t_address (retain_new seen ps)) \<and> t_address ` set (retain_new seen ps) = t_address ` set ps - set seen"
  by (induction seen ps rule: retain_new.induct) auto

lemma retain_new_subset: "set (retain_new seen ps) \<subseteq> set ps"
  by (induction seen ps rule: retain_new.induct) auto

lemma length_retain_new: "length (retain_new seen ps) \<le> length ps"
  by (induction seen ps rule: retain_new.induct) auto

lemma retain_new_fresh:
  "distinct (map t_address ps) \<Longrightarrow> t_address ` set ps \<inter> set seen = {} \<Longrightarrow> retain_new seen ps = ps"
  by (induction seen ps rule: retain_new.induct) auto

definition peer_ok :: "tracker_peer \<Rightarrow> bool" where
  "peer_ok p \<longleftrightarrow> port (t_address p) \<noteq> 0 \<and> ip_wf (ip (t_address p)) \<and> (\<forall>i. t_peer_id p = Some i \<longrightarrow> length i = 20)"

lemma compact4_ok: "parse_compact_ipv4 bs = Inr ps \<Longrightarrow> \<forall>p \<in> set ps. peer_ok p"
  using chunks_exact_lengths [of 6 bs]
  by (auto simp: parse_compact_ipv4_def peers_of_chunks_def peer_ok_def ip_wf_def addr_of_chunk_def Let_def split: if_splits)

lemma compact6_ok: "parse_compact_ipv6 bs = Inr ps \<Longrightarrow> \<forall>p \<in> set ps. peer_ok p"
  using chunks_exact_lengths [of 18 bs]
  by (auto simp: parse_compact_ipv6_def peers_of_chunks_def peer_ok_def ip_wf_def addr_of_chunk_def Let_def split: if_splits)

lemma peer_of_value_ok: "peer_of_value v = Some p \<Longrightarrow> peer_ok p"
proof -
  assume v: "peer_of_value v = Some p"
  have nz: "(of_int k :: u16) \<noteq> 0" if "0 < k" "k < 65536" for k :: int
  proof
    assume "(of_int k :: u16) = 0"
    then have "uint (of_int k :: u16) = 0" by simp
    with that show False by (simp add: uint_word_of_int take_bit_eq_mod)
  qed
  from v show ?thesis
    by (auto simp: peer_of_value_def bind_eq_Some_conv peer_ok_def nz dest!: parse_ip_addr_wf split: if_splits)
qed

lemma parse_peer_list_ok: "parse_peer_list vs = Inr ps \<Longrightarrow> \<forall>p \<in> set ps. peer_ok p"
  using peer_of_value_ok by (fastforce simp: parse_peer_list_def map_filter_def split: if_splits)

lemma response_peers_ok:
  assumes "response_peers d = Inr ps"
  shows "distinct (map t_address ps) \<and> length ps \<le> MAX_TRACKER_PEERS \<and> (\<forall>p \<in> set ps. peer_ok p)"
proof -
  obtain ps4 ps6 where a: "(case dict_get d (lit ''peers'') of None \<Rightarrow> Inr []
      | Some (BBytes bytes) \<Rightarrow> parse_compact_ipv4 bytes | Some (BList vals) \<Rightarrow> parse_peer_list vals
      | Some _ \<Rightarrow> Inl (InvalidTrackerField ''peers'' NotAPeerList)) = Inr ps4"
    and b: "(case dict_bytes d (lit ''peers6'') of None \<Rightarrow> Inr [] | Some bytes \<Rightarrow> parse_compact_ipv6 bytes) = Inr ps6"
    and ps: "ps = take MAX_TRACKER_PEERS (deduplicate_peers (ps4 @ ps6))"
    using assms by (auto simp: response_peers_def Let_def split: if_splits)
  have "\<forall>p \<in> set ps4. peer_ok p"
    using a compact4_ok parse_peer_list_ok by (auto split: option.splits bvalue.splits)
  moreover have "\<forall>p \<in> set ps6. peer_ok p" using b compact6_ok by (auto split: option.splits)
  ultimately have "\<forall>p \<in> set (deduplicate_peers (ps4 @ ps6)). peer_ok p"
    using retain_new_subset [of "[]" "ps4 @ ps6"] by (auto simp: deduplicate_peers_def)
  moreover have "distinct (map t_address (deduplicate_peers (ps4 @ ps6)))"
    using retain_new_addresses by (simp add: deduplicate_peers_def)
  ultimately show ?thesis by (auto simp: ps take_map [symmetric] dest: in_set_takeD)
qed

lemma compact4_decode:
  assumes "\<forall>a \<in> set as. is_ipv4 (ip a) \<and> ip_wf (ip a)" "length as \<le> MAX_TRACKER_PEERS"
  shows "parse_compact_ipv4 (concat (map compact_addr as))
    = Inr (map (\<lambda>a. \<lparr>t_address = a, t_peer_id = None\<rparr>) (filter (\<lambda>a. port a \<noteq> 0) as))"
proof -
  let ?bs = "concat (map compact_addr as)"
  have len6: "\<forall>c \<in> set (map compact_addr as). length c = 6" using assms(1) by (auto simp: length_compact)
  then have chunks: "chunks_exact 6 ?bs = map compact_addr as" by (intro chunks_exact_concat) auto
  have "length ?bs = 6 * length as" using len6 by (induction as) auto
  moreover have "peers_of_chunks V4 (map compact_addr as)
      = map (\<lambda>a. \<lparr>t_address = a, t_peer_id = None\<rparr>) (filter (\<lambda>a. port a \<noteq> 0) as)"
    using assms(1) by (induction as) (simp_all add: peers_of_chunks_def compact_roundtrip)
  ultimately show ?thesis using assms(2) by (simp add: parse_compact_ipv4_def chunks)
qed

subsection \<open>Percent encoding\<close>

fun percent_decode :: "u8 list \<Rightarrow> u8 list" where
  "percent_decode (c # h # l # rest) =
     (if c = 0x25 then
        (push_bit 4 (of_nat (the (to_digit 16 h))) OR of_nat (the (to_digit 16 l))) # percent_decode rest
      else c # percent_decode (h # l # rest))"
| "percent_decode s = s"

lemma to_digit_HEX_UPPER: "n < 16 \<Longrightarrow> to_digit 16 (HEX_UPPER ! n) = Some n"
proof -
  have "\<forall>n \<in> set [0..<16]. to_digit 16 (HEX_UPPER ! n) = Some n"
    by (simp add: upt_rec HEX_UPPER_def to_digit_def byte_simps of_char_def is_ascii_digit_def is_ascii_lower_def
        is_ascii_upper_def)
  then show "n < 16 \<Longrightarrow> to_digit 16 (HEX_UPPER ! n) = Some n" by simp
qed

lemma percent_decode_byte: "percent_decode (percent_byte b @ rest) = b # percent_decode rest"
  using unat_nibble [of b] by (simp add: percent_byte_def to_digit_HEX_UPPER nibbles)

lemma percent_decode_plain: "b \<noteq> 0x25 \<Longrightarrow> percent_decode (b # rest) = b # percent_decode rest"
proof (cases rest)
  case (Cons h r)
  assume "b \<noteq> 0x25"
  with Cons show ?thesis by (cases r) simp_all
qed simp

lemma percent_decode_bytes: "percent_decode (percent_encode_bytes bs) = bs"
  by (induction bs) (simp_all add: percent_encode_bytes_def percent_decode_byte)

lemma percent_decode_component: "percent_decode (percent_encode_query_component bs) = bs"
proof (induction bs)
  case Nil
  then show ?case by (simp add: percent_encode_query_component_def)
next
  case (Cons b bs)
  have "b \<noteq> 0x25" if "is_ascii_alphanumeric b \<or> List.member (lit ''-._~'') b"
    using that by (auto simp: is_ascii_alphanumeric_def is_ascii_digit_def is_ascii_upper_def is_ascii_lower_def
        byte_simps of_char_def)
  with Cons show ?case
    by (auto simp: percent_encode_query_component_def percent_decode_byte percent_decode_plain)
qed

subsection \<open>Properties\<close>

text \<open>Percent encoding loses nothing: decoding the encoded info hash, peer id or query component
  gives back exactly the bytes.\<close>
lemma percent_encoding_roundtrip:
  "percent_decode (percent_encode_bytes bs) = bs \<and> percent_decode (percent_encode_query_component bs) = bs"
  by (simp add: percent_decode_bytes percent_decode_component)

text \<open>The UDP announce packet is refused only for port zero and otherwise has the 98-byte layout of
  the protocol: every field is read back from its offset, the number of wanted peers capped at
  10000 and minus one when unspecified.\<close>
lemma udp_announce_packet_layout:
  assumes "length (a_info_hash r) = 20" "length (a_peer_id r) = 20" "a_port r \<noteq> 0"
  shows "\<exists>p. to_udp_announce_packet r c t = Inr p \<and> length p = 98
    \<and> read_be64 p 0 = c \<and> read_be32 p 8 = UDP_ANNOUNCE_ACTION \<and> read_be32 p 12 = t
    \<and> bslice p 16 36 = a_info_hash r \<and> bslice p 36 56 = a_peer_id r
    \<and> read_be64 p 56 = a_downloaded r \<and> read_be64 p 64 = a_left r \<and> read_be64 p 72 = a_uploaded r
    \<and> read_be32 p 80 = udp_code (a_event r) \<and> read_be32 p 84 = 0 \<and> read_be32 p 88 = a_key r
    \<and> read_be32 p 92 = (case a_num_want r of None \<Rightarrow> - 1 | Some n \<Rightarrow> min n 10000)
    \<and> from_be16 (p ! 96) (p ! 97) = a_port r"
proof -
  let ?h = "a_info_hash r" and ?i = "a_peer_id r"
  let ?w = "case a_num_want r of None \<Rightarrow> - 1 | Some n \<Rightarrow> min n (10000 :: u32)"
  define p0 where "p0 = to_be64 c @ to_be32 UDP_ANNOUNCE_ACTION @ to_be32 t"
  define p1 where "p1 = to_be64 (a_downloaded r) @ to_be64 (a_left r) @ to_be64 (a_uploaded r)"
  define p2 where "p2 = to_be32 (udp_code (a_event r)) @ to_be32 0 @ to_be32 (a_key r) @ to_be32 ?w"
  let ?p = "p0 @ ?h @ ?i @ p1 @ p2 @ to_be16 (a_port r)"
  have len: "length p0 = 16" "length p1 = 24" "length p2 = 16" by (simp_all add: p0_def p1_def p2_def)
  have q: "to_udp_announce_packet r c t = Inr ?p"
    using assms(3) by (simp add: to_udp_announce_packet_def p0_def p1_def p2_def MAX_TRACKER_PEERS_def split: option.splits)
  have a: "read_be64 ?p 0 = c" "read_be32 ?p 8 = UDP_ANNOUNCE_ACTION" "read_be32 ?p 12 = t"
    using read_be64_at [of 0 "[]" c] read_be32_at [of 8 "to_be64 c" UDP_ANNOUNCE_ACTION]
      read_be32_at [of 12 "to_be64 c @ to_be32 UDP_ANNOUNCE_ACTION" t] by (simp_all add: p0_def)
  have b: "bslice ?p 16 36 = ?h" "bslice ?p 36 56 = ?i"
    using assms len bslice_append_exact [of p0 ?h "?i @ p1 @ p2 @ to_be16 (a_port r)"]
      bslice_append_exact [of "p0 @ ?h" ?i "p1 @ p2 @ to_be16 (a_port r)"] by simp_all
  let ?a = "p0 @ ?h @ ?i"
  have la: "length ?a = 56" using len assms by simp
  have d: "read_be64 ?p 56 = a_downloaded r" "read_be64 ?p 64 = a_left r" "read_be64 ?p 72 = a_uploaded r"
    using read_be64_at [of 56 ?a "a_downloaded r"] read_be64_at [of 64 "?a @ to_be64 (a_downloaded r)" "a_left r"]
      read_be64_at [of 72 "?a @ to_be64 (a_downloaded r) @ to_be64 (a_left r)" "a_uploaded r"] la
    by (simp_all add: p1_def)
  let ?b = "?a @ p1"
  have lb: "length ?b = 80" using la len by simp
  have e: "read_be32 ?p 80 = udp_code (a_event r)" "read_be32 ?p 84 = 0" "read_be32 ?p 88 = a_key r"
    "read_be32 ?p 92 = ?w"
    using read_be32_at [of 80 ?b "udp_code (a_event r)"] read_be32_at [of 84 "?b @ to_be32 (udp_code (a_event r))" 0]
      read_be32_at [of 88 "?b @ to_be32 (udp_code (a_event r)) @ to_be32 0" "a_key r"]
      read_be32_at [of 92 "?b @ to_be32 (udp_code (a_event r)) @ to_be32 0 @ to_be32 (a_key r)" ?w] lb
    by (simp_all add: p2_def)
  have "?p ! (96 + k) = to_be16 (a_port r) ! k" for k using nth_append_length_plus [of "?b @ p2" _ k] lb len by simp
  from this [of 0] this [of 1] have "from_be16 (?p ! 96) (?p ! 97) = a_port r" by simp
  with q a b d e len assms show ?thesis by (intro exI [of _ ?p]) simp
qed

definition sample_request :: announce_request where
  "sample_request = \<lparr>a_info_hash = replicate 20 1, a_peer_id = replicate 20 2, a_port = 6881, a_uploaded = 0,
     a_downloaded = 5, a_left = 7, a_event = Started, a_key = 9, a_num_want = Some 20000\<rparr>"

text \<open>A UDP connect response is accepted exactly when it is the 16-byte packet with the connect
  action and the transaction id that was sent, and the connection id returned is the one it carries.\<close>
lemma udp_connect_parse_iff:
  "udp_connect_parse bytes t = Inr r \<longleftrightarrow>
     c_transaction_id r = t \<and> bytes = to_be32 UDP_CONNECT_ACTION @ to_be32 t @ to_be64 (c_connection_id r)"
proof
  assume p: "udp_connect_parse bytes t = Inr r"
  then have len: "length bytes = 16" and f: "read_be32 bytes 0 = UDP_CONNECT_ACTION" "read_be32 bytes 4 = t"
    and r: "r = \<lparr>c_transaction_id = t, c_connection_id = read_be64 bytes 8\<rparr>"
    by (auto simp: udp_connect_parse_def validate_udp_transaction_def Let_def split: if_splits)
  have "bytes = to_be32 (read_be32 bytes 0) @ to_be32 (read_be32 bytes 4) @ drop 8 bytes"
    using split_be32 [of bytes] split_be32 [of "drop 4 bytes"] read_be32_drop [of 4 bytes] len by simp
  moreover have "drop 8 bytes = to_be64 (read_be64 bytes 8)"
    using to_be64_read_be64 [of 8 bytes] len by (simp add: bslice_def)
  ultimately show "c_transaction_id r = t \<and> bytes = to_be32 UDP_CONNECT_ACTION @ to_be32 t @ to_be64 (c_connection_id r)"
    using f r by simp
next
  assume a: "c_transaction_id r = t \<and> bytes = to_be32 UDP_CONNECT_ACTION @ to_be32 t @ to_be64 (c_connection_id r)"
  then have "read_be32 bytes 4 = t" "read_be64 bytes 8 = c_connection_id r"
    using read_be32_at [of 4 "to_be32 UDP_CONNECT_ACTION" t "to_be64 (c_connection_id r)"]
      read_be64_at [of 8 "to_be32 UDP_CONNECT_ACTION @ to_be32 t" "c_connection_id r" "[]"] by simp_all
  with a show "udp_connect_parse bytes t = Inr r"
    by (simp add: udp_connect_parse_def ensure_response_size_def validate_udp_transaction_def
        MAX_TRACKER_RESPONSE_BYTES_def UDP_CONNECT_ACTION_def UDP_ERROR_ACTION_def)
qed

lemma compact4_iff:
  "parse_compact_ipv4 bs = Inr ps \<longleftrightarrow>
     (\<exists>as. bs = concat (map compact_addr as) \<and> length as \<le> MAX_TRACKER_PEERS
        \<and> list_all (\<lambda>a. is_ipv4 (ip a) \<and> ip_wf (ip a)) as
        \<and> ps = map (\<lambda>a. \<lparr>t_address = a, t_peer_id = None\<rparr>) (filter (\<lambda>a. port a \<noteq> 0) as))"
proof
  assume p: "parse_compact_ipv4 bs = Inr ps"
  let ?as = "map (addr_of_chunk V4) (chunks_exact 6 bs)"
  have lens: "\<forall>c \<in> set (chunks_exact 6 bs). length c = 6" by (rule chunks_exact_lengths)
  have "map compact_addr ?as = chunks_exact 6 bs"
    using lens by (simp add: comp_def map_idI compact_of_chunk)
  moreover have m: "length bs mod 6 = 0" "length bs div 6 \<le> MAX_TRACKER_PEERS"
    "ps = peers_of_chunks V4 (chunks_exact 6 bs)"
    using p by (auto simp: parse_compact_ipv4_def split: if_splits)
  ultimately have "bs = concat (map compact_addr ?as)" using concat_chunks_exact [of 6 bs] by simp
  moreover have "length ?as \<le> MAX_TRACKER_PEERS" using m(2) by (simp add: length_chunks_exact)
  moreover have "list_all (\<lambda>a. is_ipv4 (ip a) \<and> ip_wf (ip a)) ?as"
    using lens by (auto simp: list_all_iff addr_of_chunk_def ip_wf_def Let_def)
  moreover have "ps = map (\<lambda>a. \<lparr>t_address = a, t_peer_id = None\<rparr>) (filter (\<lambda>a. port a \<noteq> 0) ?as)"
    by (simp add: m(3) peers_of_chunks_def filter_map comp_def)
  ultimately show "\<exists>as. bs = concat (map compact_addr as) \<and> length as \<le> MAX_TRACKER_PEERS
        \<and> list_all (\<lambda>a. is_ipv4 (ip a) \<and> ip_wf (ip a)) as
        \<and> ps = map (\<lambda>a. \<lparr>t_address = a, t_peer_id = None\<rparr>) (filter (\<lambda>a. port a \<noteq> 0) as)" by blast
qed (auto simp: list_all_iff compact4_decode)

text \<open>A UDP announce response is accepted exactly when it carries the announce action, the
  transaction id that was sent and a whole number, at most 10000, of compact IPv4 addresses; the
  peers returned are those addresses in order, without the ones of port zero.\<close>
lemma udp_announce_parse_iff:
  "udp_announce_parse bytes t = Inr r \<longleftrightarrow>
     u_transaction_id r = t \<and>
     (\<exists>as. bytes = to_be32 UDP_ANNOUNCE_ACTION @ to_be32 t @ to_be32 (u_interval_seconds r)
                  @ to_be32 (u_leechers r) @ to_be32 (u_seeders r) @ concat (map compact_addr as)
        \<and> length as \<le> MAX_TRACKER_PEERS \<and> list_all (\<lambda>a. is_ipv4 (ip a) \<and> ip_wf (ip a)) as
        \<and> u_peers r = map (\<lambda>a. \<lparr>t_address = a, t_peer_id = None\<rparr>) (filter (\<lambda>a. port a \<noteq> 0) as))"
  (is "_ \<longleftrightarrow> _ \<and> (\<exists>as. ?packet as \<and> ?peers as)")
proof
  assume p: "udp_announce_parse bytes t = Inr r"
  then have len: "20 \<le> length bytes" and f: "read_be32 bytes 0 = UDP_ANNOUNCE_ACTION" "read_be32 bytes 4 = t"
    and c: "parse_compact_ipv4 (drop 20 bytes) = Inr (u_peers r)"
    and r: "u_transaction_id r = t" "u_interval_seconds r = read_be32 bytes 8" "u_leechers r = read_be32 bytes 12"
      "u_seeders r = read_be32 bytes 16"
    by (auto simp: udp_announce_parse_def validate_udp_transaction_def Let_def split: if_splits)
  have "bytes = to_be32 (read_be32 bytes 0) @ to_be32 (read_be32 bytes 4) @ to_be32 (read_be32 bytes 8)
      @ to_be32 (read_be32 bytes 12) @ to_be32 (read_be32 bytes 16) @ drop 20 bytes"
    using split_be32 [of bytes] split_be32 [of "drop 4 bytes"] split_be32 [of "drop 8 bytes"]
      split_be32 [of "drop 12 bytes"] split_be32 [of "drop 16 bytes"] read_be32_drop [of 4 bytes]
      read_be32_drop [of 8 bytes] read_be32_drop [of 12 bytes] read_be32_drop [of 16 bytes] len by simp
  with f r c show "u_transaction_id r = t \<and> (\<exists>as. ?packet as \<and> ?peers as)"
    by (auto simp: compact4_iff)
next
  assume a: "u_transaction_id r = t \<and> (\<exists>as. ?packet as \<and> ?peers as)"
  then obtain as where as: "?packet as" "?peers as" by blast
  let ?A = "to_be32 UDP_ANNOUNCE_ACTION" and ?i = "u_interval_seconds r" and ?l = "u_leechers r"
    and ?s = "u_seeders r" and ?rest = "concat (map compact_addr as)"
  have f: "read_be32 bytes 4 = t" "read_be32 bytes 8 = ?i" "read_be32 bytes 12 = ?l" "read_be32 bytes 16 = ?s"
    using read_be32_at [of 4 ?A t] read_be32_at [of 8 "?A @ to_be32 t" ?i]
      read_be32_at [of 12 "?A @ to_be32 t @ to_be32 ?i" ?l]
      read_be32_at [of 16 "?A @ to_be32 t @ to_be32 ?i @ to_be32 ?l" ?s] as(1) by simp_all
  have d: "parse_compact_ipv4 (drop 20 bytes) = Inr (u_peers r)" using as by (auto simp: compact4_iff)
  have "\<forall>c \<in> set (map compact_addr as). length c = 6" using as(2) by (auto simp: list_all_iff length_compact)
  then have "length ?rest = 6 * length as" by (induction as) auto
  then have "length bytes \<le> MAX_TRACKER_RESPONSE_BYTES" "20 \<le> length bytes" "read_be32 bytes 0 = UDP_ANNOUNCE_ACTION"
    using as by (auto simp: MAX_TRACKER_RESPONSE_BYTES_def MAX_TRACKER_PEERS_def)
  with f d a show "udp_announce_parse bytes t = Inr r"
    by (simp add: udp_announce_parse_def ensure_response_size_def validate_udp_transaction_def
        UDP_ANNOUNCE_ACTION_def UDP_ERROR_ACTION_def)
qed

lemma http_compact_response:
  assumes "0 < i" "i < 2 ^ 32" "\<forall>a \<in> set as. is_ipv4 (ip a) \<and> ip_wf (ip a)" "length as \<le> MAX_TRACKER_PEERS"
    and "msg = bencode (BDict [(lit ''interval'', BInt i), (lit ''peers'', BBytes (concat (map compact_addr as)))])"
    and "length msg \<le> MAX_TRACKER_RESPONSE_BYTES"
  shows "http_response_parse msg = Inr \<lparr>r_interval_seconds = nat i, r_min_interval_seconds = None,
    r_complete = None, r_incomplete = None, r_warning = None,
    r_peers = deduplicate_peers (map (\<lambda>a. \<lparr>t_address = a, t_peer_id = None\<rparr>) (filter (\<lambda>a. port a \<noteq> 0) as))\<rparr>"
proof -
  let ?d = "[(lit ''interval'', BInt i), (lit ''peers'', BBytes (concat (map compact_addr as)))]"
  let ?ps = "map (\<lambda>a. \<lparr>t_address = a, t_peer_id = None\<rparr>) (filter (\<lambda>a. port a \<noteq> 0) as)"
  have ne: "lit ''interval'' \<noteq> lit ''peers''" by (simp add: lit_def)
  have wf: "bwf tracker_dialect 0 (BDict ?d)"
    using assms(1,2) ne by (simp add: tracker_dialect_def MAX_TRACKER_BENCODE_DEPTH_def fresh_key_def is_i64_def)
  have "length msg < u64_limit" using assms(6) by (simp add: MAX_TRACKER_RESPONSE_BYTES_def u64_limit_def)
  then have rd: "tracker_parse_value msg 0 0 = Inr (BDict ?d, length msg)"
    unfolding assms(5) by (rule tracker_reader.packet [OF wf])
  have "length (retain_new [] ?ps) \<le> length ?ps" by (rule length_retain_new)
  also have "\<dots> \<le> MAX_TRACKER_PEERS" using le_trans [OF length_filter_le assms(4)] by simp
  finally have "response_peers ?d = Inr (deduplicate_peers ?ps)"
    using compact4_decode [OF assms(3,4)] ne
    by (simp add: response_peers_def dict_bytes_def deduplicate_peers_def lit_def)
  with rd assms(1,2,6) show ?thesis
    by (simp add: http_response_parse_def ensure_response_size_def dict_bytes_def dict_int_def optional_u32_def
        bounded_u32_def lit_def)
qed

definition sample_addr :: socket_addr where
  "sample_addr = SocketAddr (V4 [127, 0, 0, 1]) 6881"

definition sample_response :: "u8 list" where
  "sample_response = bencode (BDict [(lit ''interval'', BInt 1800),
     (lit ''peers'', BBytes (concat (map compact_addr [sample_addr])))])"

lemma sample_addr_wf: "is_ipv4 (ip sample_addr)" "ip_wf (ip sample_addr)"
  by (simp_all add: sample_addr_def ip_wf_def)

lemma sample_response_size: "length sample_response \<le> MAX_TRACKER_RESPONSE_BYTES"
  by (simp add: sample_response_def bencode_defs nat_to_dec.simps int_to_dec_def MAX_TRACKER_RESPONSE_BYTES_def
      compact_addr_def sample_addr_def)

lemma sample_response_parse: "\<exists>r. http_response_parse sample_response = Inr r"
  using http_compact_response [of 1800 "[sample_addr]" sample_response] sample_addr_wf sample_response_size
  by (auto simp: sample_response_def MAX_TRACKER_PEERS_def)

text \<open>Whatever an HTTP tracker sends, an accepted response has a positive 32-bit interval, at most
  10000 peers with pairwise different addresses, each a whole IPv4 or IPv6 address with a nonzero
  port, and peer ids of 20 bytes.\<close>
lemma http_response_wellformed:
  assumes "http_response_parse bytes = Inr r"
  shows "0 < r_interval_seconds r \<and> r_interval_seconds r < u32_limit
    \<and> distinct (map t_address (r_peers r)) \<and> length (r_peers r) \<le> MAX_TRACKER_PEERS
    \<and> list_all peer_ok (r_peers r)"
proof -
  obtain d where ps: "response_peers d = Inr (r_peers r)" and i: "0 < r_interval_seconds r" "r_interval_seconds r < u32_limit"
    using assms
    by (fastforce simp: http_response_parse_def bounded_u32_def u32_limit_def nat_less_iff
        split: if_splits option.splits prod.splits)
  from response_peers_ok [OF ps] i show ?thesis by (simp add: list_all_iff)
qed

text \<open>An honest compact response is understood: the bencoded dictionary with an interval and compact
  IPv4 peers is accepted with that interval, and the peers are the addresses of nonzero port, each
  once, in the order sent.\<close>
lemma http_response_compact:
  assumes "0 < i" "i < 2 ^ 32" "\<forall>a \<in> set as. is_ipv4 (ip a) \<and> ip_wf (ip a)" "length as \<le> MAX_TRACKER_PEERS"
    and "msg = bencode (BDict [(lit ''interval'', BInt i), (lit ''peers'', BBytes (concat (map compact_addr as)))])"
    and "length msg \<le> MAX_TRACKER_RESPONSE_BYTES"
  shows "http_response_parse msg = Inr \<lparr>r_interval_seconds = nat i, r_min_interval_seconds = None,
    r_complete = None, r_incomplete = None, r_warning = None,
    r_peers = deduplicate_peers (map (\<lambda>a. \<lparr>t_address = a, t_peer_id = None\<rparr>) (filter (\<lambda>a. port a \<noteq> 0) as))\<rparr>"
  using assms by (rule http_compact_response)

end
