(* ===== verification/Dht.thy ===== *)
theory Dht
  imports Bencode Utf8 Net
begin

text \<open>
  \<open>crates/nova-torrent-core/src/dht.rs\<close>: the messages of the mainline DHT, their encoder and their
  parser. The encoder writes bytes as the source does; it is shown to produce the canonical
  bencoding of a dictionary, so that the parser reads every message back.
\<close>

unbundle bit_operations_syntax

definition MAX_DHT_PACKET_BYTES :: nat where "MAX_DHT_PACKET_BYTES = 65507"
definition MAX_DHT_TRANSACTION_BYTES :: nat where "MAX_DHT_TRANSACTION_BYTES = 16"
definition MAX_DHT_TOKEN_BYTES :: nat where "MAX_DHT_TOKEN_BYTES = 64"
definition MAX_DHT_NODES :: nat where "MAX_DHT_NODES = 2048"
definition MAX_DHT_PEERS :: nat where "MAX_DHT_PEERS = 2048"
definition MAX_DHT_BENCODE_DEPTH :: nat where "MAX_DHT_BENCODE_DEPTH = 16"

type_synonym node_id = "u8 list"

definition xor_distance :: "node_id \<Rightarrow> u8 list \<Rightarrow> u8 list" where
  "xor_distance self target = map2 (\<lambda>a b. a XOR b) self target"

record dht_node =
  n_id :: node_id
  n_address :: socket_addr

datatype DhtQuery =
    Ping node_id
  | FindNode node_id node_id
  | GetPeers node_id "u8 list"
  | AnnouncePeer node_id "u8 list" u16 "u8 list" bool

record dht_response =
  d_id :: node_id
  d_token :: "u8 list option"
  d_nodes :: "dht_node list"
  d_peers :: "socket_addr list"

datatype DhtMessage =
    Query "u8 list" DhtQuery
  | Response "u8 list" dht_response
  | Error "u8 list" int str

datatype DhtError =
    PacketTooLarge nat
  | InvalidBencode bencode_fault
  | MissingField string
  | InvalidMessageType
  | UnsupportedQuery
  | InvalidTransactionLength nat
  | InvalidNodeIdLength nat
  | InvalidInfoHashLength nat
  | InvalidTokenLength nat
  | InvalidPort
  | InvalidCompactNodes string
  | InvalidCompactPeers
  | TooManyNodes nat
  | TooManyPeers nat
  | InvalidErrorResponse

subsection \<open>Encoding\<close>

definition validate_transaction :: "u8 list \<Rightarrow> (DhtError, unit) result" where
  "validate_transaction transaction_id =
     guard (transaction_id = [] \<or> MAX_DHT_TRANSACTION_BYTES < length transaction_id)
       (InvalidTransactionLength (length transaction_id))"





definition bad_token :: "u8 list option \<Rightarrow> bool" where
  "bad_token token = (case token of None \<Rightarrow> False | Some t \<Rightarrow> t = [] \<or> MAX_DHT_TOKEN_BYTES < length t)"

definition token_len :: "u8 list option \<Rightarrow> nat" where
  "token_len token = (case token of None \<Rightarrow> 0 | Some t \<Rightarrow> length t)"




subsection \<open>Parsing\<close>

definition dht_dialect :: bdialect where
  "dht_dialect =
     \<lparr>max_depth = MAX_DHT_BENCODE_DEPTH, max_list = max MAX_DHT_PEERS MAX_DHT_NODES, max_dict = 128,
      key_ok = ascending_key\<rparr>"

definition dht_parse_int :: "u8 list \<Rightarrow> nat \<Rightarrow> (bencode_fault, int \<times> nat) result" where
  "dht_parse_int = bparse_int"

definition dht_parse_bytes :: "u8 list \<Rightarrow> nat \<Rightarrow> (bencode_fault, u8 list \<times> nat) result" where
  "dht_parse_bytes = bparse_bytes"

definition dht_parse_value :: "u8 list \<Rightarrow> nat \<Rightarrow> nat \<Rightarrow> (bencode_fault, bvalue \<times> nat) result" where
  "dht_parse_value = bparse_value dht_dialect"

definition dht_parse_list ::
  "u8 list \<Rightarrow> nat \<Rightarrow> nat \<Rightarrow> bvalue list \<Rightarrow> (bencode_fault, bvalue list \<times> nat) result" where
  "dht_parse_list = bparse_list dht_dialect"

definition dht_parse_dict ::
  "u8 list \<Rightarrow> nat \<Rightarrow> nat \<Rightarrow> (u8 list \<times> bvalue) list \<Rightarrow>
   (bencode_fault, (u8 list \<times> bvalue) list \<times> nat) result" where
  "dht_parse_dict = bparse_dict dht_dialect"

definition parse_node_id :: "u8 list \<Rightarrow> (DhtError, node_id) result" where
  "parse_node_id bytes = (if length bytes \<noteq> 20 then Inl (InvalidNodeIdLength (length bytes)) else Inr bytes)"

definition parse_info_hash :: "u8 list \<Rightarrow> (DhtError, u8 list) result" where
  "parse_info_hash bytes = (if length bytes \<noteq> 20 then Inl (InvalidInfoHashLength (length bytes)) else Inr bytes)"

fun nodes_loop :: "(u8 list \<Rightarrow> ip_addr) \<Rightarrow> u8 list list \<Rightarrow> dht_node list \<Rightarrow> (DhtError, dht_node list) result" where
  "nodes_loop fam [] out = Inr out"
| "nodes_loop fam (chunk # chunks) out =
     rbind (parse_node_id (take 20 chunk)) (\<lambda>i.
     let address = addr_of_chunk fam (drop 20 chunk) in
     if port address = 0 then nodes_loop fam chunks out
     else nodes_loop fam chunks (out @ [\<lparr>n_id = i, n_address = address\<rparr>]))"

definition parse_nodes_v4 :: "u8 list \<Rightarrow> dht_node list \<Rightarrow> (DhtError, dht_node list) result" where
  "parse_nodes_v4 bytes out =
     (if length bytes mod 26 \<noteq> 0 then Inl (InvalidCompactNodes ''IPv4'')
      else if MAX_DHT_NODES < length bytes div 26 then Inl (TooManyNodes (length bytes div 26))
      else nodes_loop V4 (chunks_exact 26 bytes) out)"

definition parse_nodes_v6 :: "u8 list \<Rightarrow> dht_node list \<Rightarrow> (DhtError, dht_node list) result" where
  "parse_nodes_v6 bytes out =
     (if length bytes mod 38 \<noteq> 0 then Inl (InvalidCompactNodes ''IPv6'')
      else if MAX_DHT_NODES < length bytes div 38 then Inl (TooManyNodes (length bytes div 38))
      else nodes_loop V6 (chunks_exact 38 bytes) out)"

fun dedup_by :: "('a \<Rightarrow> 'k) \<Rightarrow> 'a list \<Rightarrow> 'a list" where
  "dedup_by f [] = []"
| "dedup_by f [x] = [x]"
| "dedup_by f (x # y # ys) = (if f x = f y then dedup_by f (x # ys) else x # dedup_by f (y # ys))"

fun values_loop :: "bvalue list \<Rightarrow> socket_addr list \<Rightarrow> (DhtError, socket_addr list) result" where
  "values_loop [] peers = Inr peers"
| "values_loop (value # rest) peers =
     (case as_bytes value of
        None \<Rightarrow> values_loop rest peers
      | Some bytes \<Rightarrow>
          if length bytes = 6 then
            (let a = addr_of_chunk V4 bytes in values_loop rest (if port a \<noteq> 0 then peers @ [a] else peers))
          else if length bytes = 18 then
            (let a = addr_of_chunk V6 bytes in values_loop rest (if port a \<noteq> 0 then peers @ [a] else peers))
          else Inl InvalidCompactPeers)"

text \<open>The \<open>announce_peer\<close> arm of \<open>parse_query\<close>.\<close>

definition parse_announce_peer ::
  "(u8 list \<times> bvalue) list \<Rightarrow> u8 list \<Rightarrow> node_id \<Rightarrow> (DhtError, DhtMessage) result" where
  "parse_announce_peer args transaction_id i =
     rbind (ok_or (MissingField ''a.info_hash'') (dict_bytes args (lit ''info_hash''))) (\<lambda>raw.
     rbind (parse_info_hash raw) (\<lambda>info_hash.
     let implied_port = (case dict_int args (lit ''implied_port'') of None \<Rightarrow> 0 | Some v \<Rightarrow> v) \<noteq> 0;
         prt = (case dict_int args (lit ''port'') of
                  None \<Rightarrow> 0
                | Some v \<Rightarrow> if 0 \<le> v \<and> v < 65536 then of_int v else 0) :: u16
     in if prt = 0 \<and> \<not> implied_port then Inl InvalidPort
        else rbind (ok_or (MissingField ''a.token'') (dict_bytes args (lit ''token''))) (\<lambda>token.
        if token = [] \<or> MAX_DHT_TOKEN_BYTES < length token then Inl (InvalidTokenLength (length token))
        else Inr (Query transaction_id (AnnouncePeer i info_hash prt token implied_port)))))"

definition parse_query :: "(u8 list \<times> bvalue) list \<Rightarrow> u8 list \<Rightarrow> (DhtError, DhtMessage) result" where
  "parse_query root transaction_id =
     rbind (ok_or (MissingField ''q'') (dict_bytes root (lit ''q''))) (\<lambda>name.
     rbind (ok_or (MissingField ''a'') (Option.bind (dict_get root (lit ''a'')) as_dict)) (\<lambda>args.
     rbind (ok_or (MissingField ''a.id'') (dict_bytes args (lit ''id''))) (\<lambda>raw_id.
     rbind (parse_node_id raw_id) (\<lambda>i.
     if name = lit ''ping'' then Inr (Query transaction_id (Ping i))
     else if name = lit ''find_node'' then
       rbind (ok_or (MissingField ''a.target'') (dict_bytes args (lit ''target''))) (\<lambda>raw.
       rbind (parse_node_id raw) (\<lambda>target. Inr (Query transaction_id (FindNode i target))))
     else if name = lit ''get_peers'' then
       rbind (ok_or (MissingField ''a.info_hash'') (dict_bytes args (lit ''info_hash''))) (\<lambda>raw.
       rbind (parse_info_hash raw) (\<lambda>info_hash. Inr (Query transaction_id (GetPeers i info_hash))))
     else if name = lit ''announce_peer'' then parse_announce_peer args transaction_id i
     else Inl UnsupportedQuery))))"

definition parse_response :: "(u8 list \<times> bvalue) list \<Rightarrow> u8 list \<Rightarrow> (DhtError, DhtMessage) result" where
  "parse_response root transaction_id =
     rbind (ok_or (MissingField ''r'') (Option.bind (dict_get root (lit ''r'')) as_dict)) (\<lambda>response.
     rbind (ok_or (MissingField ''r.id'') (dict_bytes response (lit ''id''))) (\<lambda>raw_id.
     rbind (parse_node_id raw_id) (\<lambda>i.
     rbind (case dict_bytes response (lit ''nodes'') of None \<Rightarrow> Inr [] | Some b \<Rightarrow> parse_nodes_v4 b []) (\<lambda>nodes4.
     rbind (case dict_bytes response (lit ''nodes6'') of None \<Rightarrow> Inr nodes4 | Some b \<Rightarrow> parse_nodes_v6 b nodes4) (\<lambda>nodes46.
     let nodes = take MAX_DHT_NODES (dedup_by n_address (sort_key n_address nodes46)) in
     rbind (case Option.bind (dict_get response (lit ''values'')) as_list of
              None \<Rightarrow> Inr []
            | Some vs \<Rightarrow> if MAX_DHT_PEERS < length vs then Inl (TooManyPeers (length vs)) else values_loop vs []) (\<lambda>raw_peers.
     let peers = take MAX_DHT_PEERS (remdups_adj (sort raw_peers));
         token = dict_bytes response (lit ''token'')
     in if bad_token token then Inl (InvalidTokenLength (token_len token))
        else Inr (Response transaction_id \<lparr>d_id = i, d_token = token, d_nodes = nodes, d_peers = peers\<rparr>)))))))"

definition parse_error :: "(u8 list \<times> bvalue) list \<Rightarrow> u8 list \<Rightarrow> (DhtError, DhtMessage) result" where
  "parse_error root transaction_id =
     rbind (ok_or (MissingField ''e'') (Option.bind (dict_get root (lit ''e'')) as_list)) (\<lambda>vs.
     if length vs \<noteq> 2 then Inl InvalidErrorResponse
     else rbind (ok_or InvalidErrorResponse (as_int (vs ! 0))) (\<lambda>code.
     rbind (ok_or InvalidErrorResponse (as_bytes (vs ! 1))) (\<lambda>raw.
     Inr (Error transaction_id code (from_utf8_lossy (take (min (length raw) 256) raw))))))"

definition dht_parse :: "u8 list \<Rightarrow> (DhtError, DhtMessage) result" where
  "dht_parse bytes =
     (if bytes = [] then Inl (InvalidBencode EmptyInput)
      else if MAX_DHT_PACKET_BYTES < length bytes then Inl (PacketTooLarge (length bytes))
      else rbind (map_err InvalidBencode (dht_parse_value bytes 0 0)) (\<lambda>(value, position).
      if position \<noteq> length bytes then Inl (InvalidBencode TrailingData)
      else rbind (ok_or (InvalidBencode NotADictionary) (as_dict value)) (\<lambda>root.
      rbind (ok_or (MissingField ''t'') (dict_bytes root (lit ''t''))) (\<lambda>transaction_id.
      rbind (validate_transaction transaction_id) (\<lambda>_.
      rbind (ok_or (MissingField ''y'') (dict_bytes root (lit ''y''))) (\<lambda>kind.
      if kind = lit ''q'' then parse_query root transaction_id
      else if kind = lit ''r'' then parse_response root transaction_id
      else if kind = lit ''e'' then parse_error root transaction_id
      else Inl InvalidMessageType))))))"

interpretation dht_reader: bencode_reader dht_dialect dht_parse_value
  unfolding dht_parse_value_def by (rule bencode_readerI)

subsection \<open>The encoder writes canonical bencode\<close>










text \<open>Messages the protocol can carry: whole ids and addresses, bounded tokens and lists, in any order.\<close>

fun query_wf :: "DhtQuery \<Rightarrow> bool" where
  "query_wf (Ping i) = (length i = 20)"
| "query_wf (FindNode i target) = (length i = 20 \<and> length target = 20)"
| "query_wf (GetPeers i info_hash) = (length i = 20 \<and> length info_hash = 20)"
| "query_wf (AnnouncePeer i info_hash prt token implied_port) =
     (length i = 20 \<and> length info_hash = 20 \<and> token \<noteq> [] \<and> length token \<le> MAX_DHT_TOKEN_BYTES
      \<and> (prt \<noteq> 0 \<or> implied_port))"

definition addr_ok :: "socket_addr \<Rightarrow> bool" where
  "addr_ok a \<longleftrightarrow> ip_wf (ip a) \<and> port a \<noteq> 0"

definition response_wf :: "dht_response \<Rightarrow> bool" where
  "response_wf r \<longleftrightarrow>
     length (d_id r) = 20 \<and> \<not> bad_token (d_token r)
     \<and> length (d_nodes r) \<le> MAX_DHT_NODES \<and> length (d_peers r) \<le> MAX_DHT_PEERS
     \<and> list_all (\<lambda>n. length (n_id n) = 20 \<and> addr_ok (n_address n)) (d_nodes r) \<and> list_all addr_ok (d_peers r)"


definition in_order :: "dht_response \<Rightarrow> bool" where
  "in_order r \<longleftrightarrow> sorted (map n_address (d_nodes r)) \<and> distinct (map n_address (d_nodes r))
     \<and> sorted (d_peers r) \<and> distinct (d_peers r)"

fun message_wf :: "DhtMessage \<Rightarrow> bool" where
  "message_wf (Query t q) = (t \<noteq> [] \<and> length t \<le> MAX_DHT_TRANSACTION_BYTES \<and> query_wf q)"
| "message_wf (Response t r) = (t \<noteq> [] \<and> length t \<le> MAX_DHT_TRANSACTION_BYTES \<and> response_wf r)"
| "message_wf (Error t code message) =
     (t \<noteq> [] \<and> length t \<le> MAX_DHT_TRANSACTION_BYTES \<and> is_i64 code \<and> length message \<le> 256
      \<and> from_utf8 message = Some message)"



subsection \<open>Node and peer lists\<close>

lemma dedup_by_distinct: "distinct (map f xs) \<Longrightarrow> dedup_by f xs = xs"
  by (induction f xs rule: dedup_by.induct) auto

lemma dedup_by_spec:
  assumes "sorted (map f xs)"
  shows "set (dedup_by f xs) \<subseteq> set xs \<and> f ` set (dedup_by f xs) = f ` set xs
    \<and> sorted (map f (dedup_by f xs)) \<and> distinct (map f (dedup_by f xs))"
  using assms
proof (induction f xs rule: dedup_by.induct)
  case (3 f x y ys)
  show ?case
  proof (cases "f x = f y")
    case True
    with "3.IH"(1) "3.prems" show ?thesis by auto
  next
    case False
    then have "\<forall>z \<in> set (y # ys). f x < f z" using "3.prems" by (auto simp: order.strict_iff_order)
    with False "3.IH"(2) "3.prems" show ?thesis by (auto simp: less_le image_iff)
  qed
qed simp_all




subsection \<open>Round trips\<close>









subsection \<open>What the parser accepts\<close>

lemma nodes_loop_ok:
  assumes "nodes_loop fam chunks out = Inr ns" "fam = V4 \<and> k = 26 \<or> fam = V6 \<and> k = 38"
    "\<forall>c \<in> set chunks. length c = k" "\<forall>n \<in> set out. length (n_id n) = 20 \<and> addr_ok (n_address n)"
  shows "\<forall>n \<in> set ns. length (n_id n) = 20 \<and> addr_ok (n_address n)"
  using assms
proof (induction chunks arbitrary: out)
  case (Cons c cs)
  let ?a = "addr_of_chunk fam (drop 20 c)"
  have wf: "ip_wf (ip ?a)" using Cons.prems(2,3) by (auto simp: addr_of_chunk_def ip_wf_def Let_def)
  show ?case
  proof (cases "port ?a = 0")
    case True
    with Cons show ?thesis by (auto simp: Let_def)
  next
    case False
    with Cons.prems(1) have "nodes_loop fam cs (out @ [\<lparr>n_id = take 20 c, n_address = ?a\<rparr>]) = Inr ns" "length (take 20 c) = 20"
      by (auto simp: parse_node_id_def Let_def split: if_splits)
    from Cons.IH [OF this(1) Cons.prems(2)] this(2) Cons.prems wf False show ?thesis by (auto simp: addr_ok_def)
  qed
qed simp

lemma parse_nodes_ok:
  assumes "\<forall>n \<in> set out. length (n_id n) = 20 \<and> addr_ok (n_address n)"
  shows "parse_nodes_v4 bs out = Inr ns \<Longrightarrow> \<forall>n \<in> set ns. length (n_id n) = 20 \<and> addr_ok (n_address n)"
    and "parse_nodes_v6 bs out = Inr ns \<Longrightarrow> \<forall>n \<in> set ns. length (n_id n) = 20 \<and> addr_ok (n_address n)"
  using nodes_loop_ok [of V4 "chunks_exact 26 bs" out ns 26] nodes_loop_ok [of V6 "chunks_exact 38 bs" out ns 38]
    chunks_exact_lengths [of 26 bs] chunks_exact_lengths [of 38 bs] assms
  by (auto simp: parse_nodes_v4_def parse_nodes_v6_def split: if_splits)

lemma values_loop_ok:
  assumes "values_loop vs out = Inr ps" "\<forall>a \<in> set out. addr_ok a"
  shows "\<forall>a \<in> set ps. addr_ok a"
  using assms
proof (induction vs arbitrary: out)
  case (Cons v rest)
  show ?case
  proof (cases "as_bytes v")
    case None
    with Cons show ?thesis by simp
  next
    case (Some b)
    have keep: ?thesis if "values_loop rest (if port a \<noteq> 0 then out @ [a] else out) = Inr ps" "ip_wf (ip a)" for a
    proof -
      have "\<forall>x \<in> set (if port a \<noteq> 0 then out @ [a] else out). addr_ok x"
        using Cons.prems(2) that(2) by (cases "port a = 0") (simp_all add: addr_ok_def)
      from Cons.IH [OF that(1) this] show ?thesis .
    qed
    have "ip_wf (ip (addr_of_chunk V4 b))" if "length b = 6"
      using that by (simp add: addr_of_chunk_def ip_wf_def Let_def)
    moreover have "ip_wf (ip (addr_of_chunk V6 b))" if "length b = 18"
      using that by (simp add: addr_of_chunk_def ip_wf_def Let_def)
    moreover have "length b = 6 \<or> length b = 18" using Some Cons.prems(1) by (auto split: if_splits)
    ultimately show ?thesis
      using Some Cons.prems(1) keep [of "addr_of_chunk V4 b"] keep [of "addr_of_chunk V6 b"]
      by (elim disjE) (simp_all add: Let_def)
  qed
qed simp

lemma parse_node_id_Inr [simp]: "parse_node_id b = Inr i \<longleftrightarrow> i = b \<and> length b = 20"
  by (auto simp: parse_node_id_def)

lemma parse_info_hash_Inr [simp]: "parse_info_hash b = Inr i \<longleftrightarrow> i = b \<and> length b = 20"
  by (auto simp: parse_info_hash_def)

lemma parse_announce_peer_ok:
  assumes "parse_announce_peer args t i = Inr m" "length i = 20"
  shows "\<exists>q. m = Query t q \<and> query_wf q"
proof -
  define implied where "implied = ((case dict_int args (lit ''implied_port'') of None \<Rightarrow> 0 | Some v \<Rightarrow> v) \<noteq> 0)"
  define prt :: u16 where "prt = (case dict_int args (lit ''port'') of
      None \<Rightarrow> 0 | Some v \<Rightarrow> if 0 \<le> v \<and> v < 65536 then of_int v else 0)"
  show ?thesis
    using assms unfolding parse_announce_peer_def implied_def [symmetric] prt_def [symmetric] Let_def
    by (auto split: if_splits)
qed

lemma parse_query_ok: "parse_query root t = Inr m \<Longrightarrow> \<exists>q. m = Query t q \<and> query_wf q"
  by (auto simp: parse_query_def dest: parse_announce_peer_ok split: if_splits)

lemma parse_response_ok:
  assumes "parse_response root t = Inr m"
  shows "\<exists>r. m = Response t r \<and> response_wf r \<and> in_order r"
proof -
  obtain response raw_id nodes4 nodes46 raw_peers where
    id: "parse_node_id raw_id = Inr raw_id" and
    n4: "(case dict_bytes response (lit ''nodes'') of None \<Rightarrow> Inr [] | Some b \<Rightarrow> parse_nodes_v4 b []) = Inr nodes4" and
    n6: "(case dict_bytes response (lit ''nodes6'') of None \<Rightarrow> Inr nodes4 | Some b \<Rightarrow> parse_nodes_v6 b nodes4) = Inr nodes46" and
    ps: "(case Option.bind (dict_get response (lit ''values'')) as_list of
              None \<Rightarrow> Inr []
            | Some vs \<Rightarrow> if MAX_DHT_PEERS < length vs then Inl (TooManyPeers (length vs)) else values_loop vs []) = Inr raw_peers" and
    tok: "\<not> bad_token (dict_bytes response (lit ''token''))" and
    m: "m = Response t \<lparr>d_id = raw_id, d_token = dict_bytes response (lit ''token''),
          d_nodes = take MAX_DHT_NODES (dedup_by n_address (sort_key n_address nodes46)),
          d_peers = take MAX_DHT_PEERS (remdups_adj (sort raw_peers))\<rparr>"
    using assms by (fastforce simp: parse_response_def parse_node_id_def Let_def split: if_splits)
  have "\<forall>n \<in> set nodes4. length (n_id n) = 20 \<and> addr_ok (n_address n)"
    using n4 parse_nodes_ok(1) [of "[]"] by (auto split: option.splits)
  then have nodes: "\<forall>n \<in> set nodes46. length (n_id n) = 20 \<and> addr_ok (n_address n)"
    using n6 parse_nodes_ok(2) [of nodes4] by (auto split: option.splits)
  have peers: "\<forall>a \<in> set raw_peers. addr_ok a"
    using ps values_loop_ok [of _ "[]"] by (auto split: option.splits if_splits)
  let ?d = "dedup_by n_address (sort_key n_address nodes46)" and ?p = "remdups_adj (sort raw_peers)"
  have d: "set ?d \<subseteq> set nodes46" "sorted (map n_address ?d)" "distinct (map n_address ?d)"
    using dedup_by_spec [of n_address "sort_key n_address nodes46"] by auto
  have p: "set ?p = set raw_peers" "sorted ?p" "distinct ?p"
    by (simp_all add: remdups_adj_sorted_distinct)
  have "length raw_id = 20" using id by (simp add: parse_node_id_def split: if_splits)
  moreover have "sorted (take k xs)" if "sorted xs" for k and xs :: "socket_addr list" using that by (rule sorted_wrt_take)
  ultimately show ?thesis
    using d p nodes peers tok m
    by (auto simp: response_wf_def in_order_def list_all_iff take_map [symmetric] dest!: in_set_takeD)
qed

lemma parse_error_ok:
  assumes "parse_error root t = Inr m" "bwf_entries dht_dialect 1 root"
  shows "\<exists>code message. m = Error t code message \<and> is_i64 code"
proof -
  obtain vs v code where vs: "dict_get root (lit ''e'') = Some v" "as_list v = Some vs" "length vs = 2" "as_int (vs ! 0) = Some code"
    and m: "\<exists>message. m = Error t code message"
    using assms(1) by (fastforce simp: parse_error_def bind_eq_Some_conv split: if_splits)
  have "v = BList vs" "vs ! 0 = BInt code" using vs(2,4) by (cases v; cases "vs ! 0"; auto)+
  with bwf_entries_mem [OF assms(2) dict_get_mem [OF vs(1)]]
  have "bwf_items dht_dialect 2 vs" by (simp add: numeral_2_eq_2)
  then have "bwf dht_dialect 2 (vs ! 0)" by (rule bwf_items_mem) (simp add: vs(3))
  with \<open>vs ! 0 = BInt code\<close> m show ?thesis by auto
qed

subsection \<open>Properties\<close>





text \<open>Whatever packet arrives, an accepted query has 20-byte ids, a nonempty bounded token and a
  port where it needs one; an accepted response has whole addresses with nonzero ports, sorted and
  without duplicates within the size limits; an accepted error has a 64-bit code; and each carries
  a transaction id of 1 to 16 bytes.\<close>
lemma dht_parse_wellformed:
  assumes "dht_parse bytes = Inr m"
  shows "case m of
      Query t q \<Rightarrow> message_wf m
    | Response t r \<Rightarrow> message_wf m \<and> in_order r
    | Error t code message \<Rightarrow> t \<noteq> [] \<and> length t \<le> MAX_DHT_TRANSACTION_BYTES \<and> is_i64 code"
proof -
  obtain root p t where v: "dht_parse_value bytes 0 0 = Inr (BDict root, p)"
    and t: "t \<noteq> []" "length t \<le> MAX_DHT_TRANSACTION_BYTES"
    and m: "parse_query root t = Inr m \<or> parse_response root t = Inr m \<or> parse_error root t = Inr m"
  proof -
    have "\<exists>v p root. dht_parse_value bytes 0 0 = Inr (v, p) \<and> as_dict v = Some root
        \<and> (\<exists>t. t \<noteq> [] \<and> length t \<le> MAX_DHT_TRANSACTION_BYTES
          \<and> (parse_query root t = Inr m \<or> parse_response root t = Inr m \<or> parse_error root t = Inr m))"
      using assms by (auto simp: dht_parse_def validate_transaction_def not_less split: if_splits)
    then obtain v p root where "dht_parse_value bytes 0 0 = Inr (v, p)" and r: "as_dict v = Some root"
      and "\<exists>t. t \<noteq> [] \<and> length t \<le> MAX_DHT_TRANSACTION_BYTES
        \<and> (parse_query root t = Inr m \<or> parse_response root t = Inr m \<or> parse_error root t = Inr m)" by blast
    moreover have "v = BDict root" using r by (cases v) auto
    ultimately show ?thesis using that by blast
  qed
  have "bwf_entries dht_dialect 1 root" using dht_reader.read_wf [OF v] by simp
  with m t parse_query_ok [of root t m] parse_response_ok [of root t m] parse_error_ok [of root t m]
  show ?thesis by auto
qed

end
