(* ===== verification/Extension.thy ===== *)
theory Extension
  imports Bencode Utf8 Net
begin

text \<open>
  \<open>crates/nova-torrent-core/src/extension.rs\<close>: the extension handshake (BEP 10), metadata exchange
  with its assembler (BEP 9) and peer exchange (BEP 11). The digest is the parameter \<open>sha1\<close>; the
  crate version in the client name is the parameter \<open>version\<close>. The source's reader drops the
  items of a list, which no caller looks at; here they stay in the value.
\<close>

definition EXTENSION_HANDSHAKE_ID :: u8 where "EXTENSION_HANDSHAKE_ID = 0"
definition LOCAL_UT_METADATA_ID :: u8 where "LOCAL_UT_METADATA_ID = 1"
definition LOCAL_UT_PEX_ID :: u8 where "LOCAL_UT_PEX_ID = 2"
definition METADATA_PIECE_SIZE :: nat where "METADATA_PIECE_SIZE = 16 * 1024"
definition MAX_METADATA_SIZE :: nat where "MAX_METADATA_SIZE = 4 * 1024 * 1024"
definition MAX_EXTENDED_HANDSHAKE_BYTES :: nat where "MAX_EXTENDED_HANDSHAKE_BYTES = 64 * 1024"
definition MAX_PEX_PEERS :: nat where "MAX_PEX_PEERS = 2048"
definition MAX_PEX_MESSAGE_BYTES :: nat where "MAX_PEX_MESSAGE_BYTES = 256 * 1024"

datatype ExtensionError =
    InvalidBencode bencode_fault
  | HandshakeTooLarge nat
  | InvalidExtensionId string
  | InvalidUtf8 string
  | MissingField string
  | InvalidMetadataSize nat
  | MetadataMessageTooLarge nat
  | InvalidPieceIndex int
  | MetadataPieceOutOfRange nat nat
  | InvalidMetadataPieceLength nat nat nat
  | UnexpectedMetadataPayload
  | UnsupportedMetadataMessage int
  | MetadataSizeChanged nat nat
  | ConflictingMetadataPiece nat
  | MetadataLengthOverflow
  | MetadataIncomplete
  | MetadataHashMismatch
  | PexMessageTooLarge nat
  | InvalidCompactPeers string

subsection \<open>The bencode dialect\<close>

definition extension_dialect :: bdialect where
  "extension_dialect = \<lparr>max_depth = 16, max_list = 256, max_dict = 128, key_ok = ascending_key\<rparr>"

fun extension_fault :: "bencode_fault \<Rightarrow> ExtensionError" where
  "extension_fault PositionOverflow = MetadataLengthOverflow"
| "extension_fault f = InvalidBencode f"

definition extension_parse_int :: "u8 list \<Rightarrow> nat \<Rightarrow> (bencode_fault, int \<times> nat) result" where
  "extension_parse_int = bparse_int"

definition extension_parse_bytes :: "u8 list \<Rightarrow> nat \<Rightarrow> (bencode_fault, u8 list \<times> nat) result" where
  "extension_parse_bytes = bparse_bytes"

definition extension_parse_value :: "u8 list \<Rightarrow> nat \<Rightarrow> nat \<Rightarrow> (bencode_fault, bvalue \<times> nat) result" where
  "extension_parse_value = bparse_value extension_dialect"

definition extension_parse_list ::
  "u8 list \<Rightarrow> nat \<Rightarrow> nat \<Rightarrow> bvalue list \<Rightarrow> (bencode_fault, bvalue list \<times> nat) result" where
  "extension_parse_list = bparse_list extension_dialect"

definition extension_parse_dict ::
  "u8 list \<Rightarrow> nat \<Rightarrow> nat \<Rightarrow> (u8 list \<times> bvalue) list \<Rightarrow>
   (bencode_fault, (u8 list \<times> bvalue) list \<times> nat) result" where
  "extension_parse_dict = bparse_dict extension_dialect"

definition read_whole_dict :: "u8 list \<Rightarrow> (ExtensionError, (u8 list \<times> bvalue) list) result" where
  "read_whole_dict bytes =
     rbind (map_err extension_fault (extension_parse_value bytes 0 0)) (\<lambda>(value, position).
     if position \<noteq> length bytes then Inl (InvalidBencode TrailingData)
     else ok_or (InvalidBencode NotADictionary) (as_dict value))"

subsection \<open>Extension handshake\<close>

record extended_handshake =
  ut_metadata :: "u8 option"
  ut_pex :: "u8 option"
  metadata_size :: "nat option"
  request_queue :: "nat option"
  client_name :: "str option"

definition handshake_local :: "str \<Rightarrow> nat option \<Rightarrow> extended_handshake" where
  "handshake_local version msize =
     \<lparr>ut_metadata = Some LOCAL_UT_METADATA_ID, ut_pex = Some LOCAL_UT_PEX_ID, metadata_size = msize,
      request_queue = Some 32, client_name = Some (lit ''NOVA/'' @ version)\<rparr>"

definition validate_extension_id :: "string \<Rightarrow> u8 \<Rightarrow> (ExtensionError, unit) result" where
  "validate_extension_id name ident = guard (ident = 0) (InvalidExtensionId name)"

definition encode_extension_id :: "string \<Rightarrow> u8 option \<Rightarrow> (ExtensionError, u8 list) result" where
  "encode_extension_id name ident =
     (case ident of
        None \<Rightarrow> Inr []
      | Some i \<Rightarrow> rbind (validate_extension_id name i) (\<lambda>_. Inr (bstr (lit name) @ bint (uint i))))"

definition ext_handshake_encode :: "extended_handshake \<Rightarrow> (ExtensionError, u8 list) result" where
  "ext_handshake_encode h =
     (if (case metadata_size h of None \<Rightarrow> False | Some sz \<Rightarrow> sz = 0 \<or> MAX_METADATA_SIZE < sz)
      then Inl (InvalidMetadataSize (case metadata_size h of None \<Rightarrow> 0 | Some sz \<Rightarrow> sz))
      else rbind (encode_extension_id ''ut_metadata'' (ut_metadata h)) (\<lambda>metadata_id.
      rbind (encode_extension_id ''ut_pex'' (ut_pex h)) (\<lambda>pex_id.
      let out = [0x64] @ bstr (lit ''m'') @ [0x64] @ metadata_id @ pex_id @ [0x65]
            @ (case metadata_size h of None \<Rightarrow> [] | Some sz \<Rightarrow> bstr (lit ''metadata_size'') @ bint (int sz))
            @ (case request_queue h of None \<Rightarrow> [] | Some reqq \<Rightarrow> bstr (lit ''reqq'') @ bint (int reqq))
            @ (case client_name h of None \<Rightarrow> [] | Some name \<Rightarrow> bstr (lit ''v'') @ bstr name)
            @ [0x65] in
      if MAX_EXTENDED_HANDSHAKE_BYTES < length out then Inl (HandshakeTooLarge (length out)) else Inr out)))"

definition parse_extension_id ::
  "string \<Rightarrow> (u8 list \<times> bvalue) list \<Rightarrow> (ExtensionError, u8 option) result" where
  "parse_extension_id name m =
     (case dict_int m (lit name) of
        None \<Rightarrow> Inr None
      | Some v \<Rightarrow>
          if v < 0 \<or> 256 \<le> v then Inl (InvalidExtensionId name)
          else Inr (if (of_int v :: u8) \<noteq> 0 then Some (of_int v) else None))"

definition parse_metadata_size :: "(u8 list \<times> bvalue) list \<Rightarrow> (ExtensionError, nat option) result" where
  "parse_metadata_size d =
     (case dict_int d (lit ''metadata_size'') of
        None \<Rightarrow> Inr None
      | Some v \<Rightarrow>
          if v < 0 then Inl (InvalidMetadataSize (u64_limit - 1))
          else if nat v = 0 \<or> MAX_METADATA_SIZE < nat v then Inl (InvalidMetadataSize (nat v))
          else Inr (Some (nat v)))"

definition ext_handshake_parse :: "u8 list \<Rightarrow> (ExtensionError, extended_handshake) result" where
  "ext_handshake_parse bytes =
     (if MAX_EXTENDED_HANDSHAKE_BYTES < length bytes then Inl (HandshakeTooLarge (length bytes))
      else rbind (read_whole_dict bytes) (\<lambda>d.
      rbind (parse_metadata_size d) (\<lambda>msize.
      rbind (case Option.bind (dict_get d (lit ''m'')) as_dict of
               None \<Rightarrow> Inr (None, None)
             | Some m \<Rightarrow>
                 rbind (parse_extension_id ''ut_metadata'' m) (\<lambda>a.
                 rbind (parse_extension_id ''ut_pex'' m) (\<lambda>b. Inr (a, b)))) (\<lambda>(metadata_id, pex_id).
      rbind (case dict_bytes d (lit ''v'') of
               None \<Rightarrow> Inr None
             | Some v \<Rightarrow> rbind (ok_or (InvalidUtf8 ''v'') (from_utf8 v)) (\<lambda>text.
                 Inr (Some (concat (take 128 (chars text)))))) (\<lambda>name.
      Inr \<lparr>ut_metadata = metadata_id, ut_pex = pex_id, metadata_size = msize,
           request_queue = (case dict_int d (lit ''reqq'') of
               None \<Rightarrow> None
             | Some v \<Rightarrow> if 0 \<le> v \<and> v < 2 ^ 32 then Some (nat v) else None),
           client_name = name\<rparr>)))))"

subsection \<open>Metadata messages\<close>

datatype MetadataMessage =
    MetaRequest u32
  | MetaData u32 nat "u8 list"
  | MetaReject u32

definition validate_metadata_piece :: "u32 \<Rightarrow> nat \<Rightarrow> nat \<Rightarrow> (ExtensionError, unit) result" where
  "validate_metadata_piece piece total_size data_len =
     (if total_size = 0 \<or> MAX_METADATA_SIZE < total_size then Inl (InvalidMetadataSize total_size)
      else
        (let count = div_ceil total_size METADATA_PIECE_SIZE; index = unat piece in
         if count \<le> index then Inl (MetadataPieceOutOfRange index count)
         else
           (let expected = (if index + 1 = count then wrapping_sub64 total_size (index * METADATA_PIECE_SIZE)
                            else METADATA_PIECE_SIZE) in
            if data_len \<noteq> expected then Inl (InvalidMetadataPieceLength index expected data_len)
            else Inr ())))"

fun metadata_encode :: "MetadataMessage \<Rightarrow> (ExtensionError, u8 list) result" where
  "metadata_encode (MetaRequest piece) =
     Inr (lit ''d8:msg_typei0e5:piecei'' @ nat_to_dec (unat piece) @ lit ''ee'')"
| "metadata_encode (MetaData piece total_size data) =
     (if total_size = 0 \<or> MAX_METADATA_SIZE < total_size then Inl (InvalidMetadataSize total_size)
      else rbind (validate_metadata_piece piece total_size (length data)) (\<lambda>_.
      Inr (lit ''d8:msg_typei1e5:piecei'' @ nat_to_dec (unat piece) @ lit ''e10:total_sizei''
        @ nat_to_dec total_size @ lit ''ee'' @ data)))"
| "metadata_encode (MetaReject piece) =
     Inr (lit ''d8:msg_typei2e5:piecei'' @ nat_to_dec (unat piece) @ lit ''ee'')"

definition metadata_parse :: "u8 list \<Rightarrow> (ExtensionError, MetadataMessage) result" where
  "metadata_parse payload =
     (if METADATA_PIECE_SIZE + 1024 < length payload then Inl (MetadataMessageTooLarge (length payload))
      else rbind (map_err extension_fault (extension_parse_value payload 0 0)) (\<lambda>(header, consumed).
      rbind (ok_or (InvalidBencode NotADictionary) (as_dict header)) (\<lambda>d.
      rbind (ok_or (MissingField ''msg_type'') (dict_int d (lit ''msg_type''))) (\<lambda>msg_type.
      rbind (ok_or (MissingField ''piece'') (dict_int d (lit ''piece''))) (\<lambda>p.
      if p < 0 \<or> 2 ^ 32 \<le> p then Inl (InvalidPieceIndex p)
      else
        (let piece = of_int p :: u32 in
         if msg_type = 0 then
           (if consumed \<noteq> length payload then Inl UnexpectedMetadataPayload else Inr (MetaRequest piece))
         else if msg_type = 1 then
           rbind (ok_or (MissingField ''total_size'') (dict_int d (lit ''total_size''))) (\<lambda>v.
           if v < 0 then Inl (InvalidMetadataSize (u64_limit - 1))
           else if nat v = 0 \<or> MAX_METADATA_SIZE < nat v then Inl (InvalidMetadataSize (nat v))
           else
             (let data = drop consumed payload in
              rbind (validate_metadata_piece piece (nat v) (length data)) (\<lambda>_.
              Inr (MetaData piece (nat v) data))))
         else if msg_type = 2 then
           (if consumed \<noteq> length payload then Inl UnexpectedMetadataPayload else Inr (MetaReject piece))
         else Inl (UnsupportedMetadataMessage msg_type)))))))"

subsection \<open>Metadata assembly\<close>

record metadata_assembler =
  x_info_hash :: "u8 list"
  x_total_size :: nat
  x_pieces :: "u8 list option list"
  x_received :: nat

definition assembler_new :: "u8 list \<Rightarrow> nat \<Rightarrow> (ExtensionError, metadata_assembler) result" where
  "assembler_new info_hash total_size =
     (if total_size = 0 \<or> MAX_METADATA_SIZE < total_size then Inl (InvalidMetadataSize total_size)
      else Inr \<lparr>x_info_hash = info_hash, x_total_size = total_size,
                x_pieces = replicate (div_ceil total_size METADATA_PIECE_SIZE) None, x_received = 0\<rparr>)"

definition asm_has_piece :: "metadata_assembler \<Rightarrow> u32 \<Rightarrow> bool" where
  "asm_has_piece a piece =
     (case get_opt (x_pieces a) (unat piece) of None \<Rightarrow> False | Some p \<Rightarrow> p \<noteq> None)"

definition missing_pieces :: "metadata_assembler \<Rightarrow> u32 list" where
  "missing_pieces a =
     List.map_filter (\<lambda>(index, p). if p = None then Some (of_nat index) else None) (enumerate 0 (x_pieces a))"

definition asm_complete :: "metadata_assembler \<Rightarrow> bool" where
  "asm_complete a = list_all (\<lambda>p. p \<noteq> None) (x_pieces a)"

definition asm_insert ::
  "metadata_assembler \<Rightarrow> u32 \<Rightarrow> nat \<Rightarrow> u8 list \<Rightarrow> metadata_assembler \<times> (ExtensionError, bool) result" where
  "asm_insert a piece total_size data =
     (if total_size \<noteq> x_total_size a then (a, Inl (MetadataSizeChanged (x_total_size a) total_size))
      else case validate_metadata_piece piece total_size (length data) of
        Inl e \<Rightarrow> (a, Inl e)
      | Inr _ \<Rightarrow>
          (let count = length (x_pieces a); index = unat piece in
           if count \<le> index then (a, Inl (MetadataPieceOutOfRange index count))
           else case x_pieces a ! index of
             Some existing \<Rightarrow>
               if existing \<noteq> data then (a, Inl (ConflictingMetadataPiece index)) else (a, Inr (asm_complete a))
           | None \<Rightarrow>
               (case checked_add64 (x_received a) (length data) of
                  None \<Rightarrow> (a, Inl MetadataLengthOverflow)
                | Some n \<Rightarrow>
                    (let a' = a\<lparr>x_received := n, x_pieces := (x_pieces a)[index := Some data]\<rparr>
                     in (a', Inr (asm_complete a'))))))"

definition asm_finish :: "(u8 list \<Rightarrow> u8 list) \<Rightarrow> metadata_assembler \<Rightarrow> (ExtensionError, u8 list) result" where
  "asm_finish sha1 a =
     (if \<not> asm_complete a then Inl MetadataIncomplete
      else rbind (mapM_r (\<lambda>p. ok_or MetadataIncomplete p) (x_pieces a)) (\<lambda>ps.
      let metadata = concat ps in
      if length metadata \<noteq> x_total_size a then Inl (MetadataSizeChanged (x_total_size a) (length metadata))
      else if sha1 metadata \<noteq> x_info_hash a then Inl MetadataHashMismatch
      else Inr metadata))"

subsection \<open>Peer exchange\<close>

record peer_exchange =
  pex_added :: "socket_addr list"
  pex_dropped :: "socket_addr list"

definition dedup_limit :: "socket_addr list \<Rightarrow> socket_addr list" where
  "dedup_limit peers = take MAX_PEX_PEERS (remdups_adj (sort peers))"

fun encode_compact_peers :: "socket_addr list \<Rightarrow> u8 list \<Rightarrow> u8 list \<Rightarrow> u8 list \<times> u8 list" where
  "encode_compact_peers [] ipv4 ipv6 = (ipv4, ipv6)"
| "encode_compact_peers (peer # peers) ipv4 ipv6 =
     (if is_ipv4 (ip peer) then encode_compact_peers peers (ipv4 @ compact_addr peer) ipv6
      else encode_compact_peers peers ipv4 (ipv6 @ compact_addr peer))"

definition optional_bytes :: "string \<Rightarrow> u8 list \<Rightarrow> u8 list" where
  "optional_bytes key bytes = (if bytes \<noteq> [] then bstr (lit key) @ bstr bytes else [])"

definition pex_encode :: "peer_exchange \<Rightarrow> (ExtensionError, u8 list) result" where
  "pex_encode p =
     (let (added4, added6) = encode_compact_peers (filter (\<lambda>a. port a \<noteq> 0) (dedup_limit (pex_added p))) [] [];
          (dropped4, dropped6) = encode_compact_peers (filter (\<lambda>a. port a \<noteq> 0) (dedup_limit (pex_dropped p))) [] [];
          out = [0x64] @ optional_bytes ''added'' added4 @ optional_bytes ''added6'' added6
            @ optional_bytes ''dropped'' dropped4 @ optional_bytes ''dropped6'' dropped6 @ [0x65]
      in if MAX_PEX_MESSAGE_BYTES < length out then Inl (PexMessageTooLarge (length out)) else Inr out)"

definition pex_chunks :: "(u8 list \<Rightarrow> ip_addr) \<Rightarrow> u8 list list \<Rightarrow> socket_addr list" where
  "pex_chunks fam chunks = filter (\<lambda>a. port a \<noteq> 0) (map (addr_of_chunk fam) (take MAX_PEX_PEERS chunks))"

definition pex_parse_compact_ipv4 :: "u8 list \<Rightarrow> socket_addr list \<Rightarrow> (ExtensionError, socket_addr list) result" where
  "pex_parse_compact_ipv4 bytes out =
     (if length bytes mod 6 \<noteq> 0 then Inl (InvalidCompactPeers ''IPv4'')
      else Inr (out @ pex_chunks V4 (chunks_exact 6 bytes)))"

definition pex_parse_compact_ipv6 :: "u8 list \<Rightarrow> socket_addr list \<Rightarrow> (ExtensionError, socket_addr list) result" where
  "pex_parse_compact_ipv6 bytes out =
     (if length bytes mod 18 \<noteq> 0 then Inl (InvalidCompactPeers ''IPv6'')
      else Inr (out @ pex_chunks V6 (chunks_exact 18 bytes)))"

definition pex_field ::
  "(u8 list \<times> bvalue) list \<Rightarrow> string \<Rightarrow> (u8 list \<Rightarrow> socket_addr list \<Rightarrow> (ExtensionError, socket_addr list) result) \<Rightarrow>
   socket_addr list \<Rightarrow> (ExtensionError, socket_addr list) result" where
  "pex_field d key parser out = (case dict_bytes d (lit key) of None \<Rightarrow> Inr out | Some b \<Rightarrow> parser b out)"

definition pex_parse :: "u8 list \<Rightarrow> (ExtensionError, peer_exchange) result" where
  "pex_parse payload =
     (if MAX_PEX_MESSAGE_BYTES < length payload then Inl (PexMessageTooLarge (length payload))
      else rbind (read_whole_dict payload) (\<lambda>d.
      rbind (pex_field d ''added'' pex_parse_compact_ipv4 []) (\<lambda>added4.
      rbind (pex_field d ''added6'' pex_parse_compact_ipv6 added4) (\<lambda>added.
      rbind (pex_field d ''dropped'' pex_parse_compact_ipv4 []) (\<lambda>dropped4.
      rbind (pex_field d ''dropped6'' pex_parse_compact_ipv6 dropped4) (\<lambda>dropped.
      Inr \<lparr>pex_added = dedup_limit added, pex_dropped = dedup_limit dropped\<rparr>))))))"

interpretation extension_reader: bencode_reader extension_dialect extension_parse_value
  unfolding extension_parse_value_def by (rule bencode_readerI)

subsection \<open>Metadata pieces\<close>

abbreviation meta_count :: "nat \<Rightarrow> nat" where
  "meta_count t \<equiv> div_ceil t METADATA_PIECE_SIZE"

definition meta_len :: "nat \<Rightarrow> nat \<Rightarrow> nat" where
  "meta_len t i = min METADATA_PIECE_SIZE (t - i * METADATA_PIECE_SIZE)"

definition meta_slice :: "u8 list \<Rightarrow> nat \<Rightarrow> u8 list" where
  "meta_slice M i = bslice M (i * METADATA_PIECE_SIZE) (Suc i * METADATA_PIECE_SIZE)"

lemma piece_size_pos [simp]: "0 < METADATA_PIECE_SIZE"
  by (simp add: METADATA_PIECE_SIZE_def)

lemma meta_index: "i < meta_count t \<longleftrightarrow> i * METADATA_PIECE_SIZE < t"
  by (simp add: less_div_ceil_iff)

lemma meta_len_pos: "i < meta_count t \<Longrightarrow> 0 < meta_len t i"
  by (simp add: meta_index meta_len_def)

lemma length_meta_slice: "length (meta_slice M i) = meta_len (length M) i"
  by (simp add: meta_slice_def meta_len_def)

lemma expected_len:
  assumes "i < meta_count t" "t < u64_limit"
  shows "(if i + 1 = meta_count t then wrapping_sub64 t (i * METADATA_PIECE_SIZE) else METADATA_PIECE_SIZE) = meta_len t i"
proof (cases "i + 1 = meta_count t")
  case True
  have "t \<le> meta_count t * METADATA_PIECE_SIZE"
    using div_ceil_le_iff [OF piece_size_pos, of t "meta_count t"] by simp
  then have "t \<le> (i + 1) * METADATA_PIECE_SIZE" by (simp only: True)
  then have "meta_len t i = t - i * METADATA_PIECE_SIZE" by (simp add: meta_len_def)
  with assms True show ?thesis by (simp add: meta_index)
next
  case False
  then have "i + 1 < meta_count t" using assms by simp
  then have "(i + 1) * METADATA_PIECE_SIZE < t" by (simp only: meta_index)
  with False show ?thesis by (simp add: meta_len_def)
qed

lemma validate_metadata_piece_iff:
  "validate_metadata_piece p t n = Inr () \<longleftrightarrow>
     0 < t \<and> t \<le> MAX_METADATA_SIZE \<and> unat p < meta_count t \<and> n = meta_len t (unat p)"
proof (cases "t = 0 \<or> MAX_METADATA_SIZE < t")
  case False
  then have "t < u64_limit" by (simp add: MAX_METADATA_SIZE_def u64_limit_def)
  then show ?thesis
    using False expected_len [of "unat p" t] by (auto simp: validate_metadata_piece_def Let_def)
qed (auto simp: validate_metadata_piece_def)

lemma meta_len_sum: "(\<Sum>i<n. meta_len t i) = min (n * METADATA_PIECE_SIZE) t"
  by (induction n) (auto simp: meta_len_def)

lemma meta_len_total: "(\<Sum>i<meta_count t. meta_len t i) = t"
  using div_ceil_le_iff [OF piece_size_pos, of t "meta_count t"] by (simp add: meta_len_sum)

lemma concat_meta_slices: "concat (map (meta_slice M) [0..<n]) = take (n * METADATA_PIECE_SIZE) M"
proof (induction n)
  case (Suc n)
  have "take (Suc n * METADATA_PIECE_SIZE) M = take (n * METADATA_PIECE_SIZE + METADATA_PIECE_SIZE) M"
    by (simp add: add.commute)
  also have "\<dots> = take (n * METADATA_PIECE_SIZE) M @ meta_slice M n"
    by (simp add: take_add meta_slice_def bslice_def)
  finally show ?case using Suc by simp
qed simp

lemma meta_slices_whole: "concat (map (meta_slice M) [0..<meta_count (length M)]) = M"
  using div_ceil_le_iff [OF piece_size_pos, of "length M" "meta_count (length M)"]
  by (simp add: concat_meta_slices)

subsection \<open>The assembler\<close>

definition plen :: "u8 list option \<Rightarrow> nat" where
  "plen p = (case p of None \<Rightarrow> 0 | Some d \<Rightarrow> length d)"

definition asm_inv :: "metadata_assembler \<Rightarrow> bool" where
  "asm_inv a \<longleftrightarrow>
     0 < x_total_size a \<and> x_total_size a \<le> MAX_METADATA_SIZE
     \<and> length (x_pieces a) = meta_count (x_total_size a)
     \<and> (\<forall>i<length (x_pieces a). x_pieces a ! i = None \<or> plen (x_pieces a ! i) = meta_len (x_total_size a) i)
     \<and> x_received a = (\<Sum>i<length (x_pieces a). plen (x_pieces a ! i))"

inductive asm_reachable :: "u8 list \<Rightarrow> nat \<Rightarrow> metadata_assembler \<Rightarrow> bool" for info_hash total_size where
  created: "assembler_new info_hash total_size = Inr a \<Longrightarrow> asm_reachable info_hash total_size a"
| inserted: "asm_reachable info_hash total_size a \<Longrightarrow> asm_insert a piece t data = (a', r) \<Longrightarrow>
    asm_reachable info_hash total_size a'"

lemma asm_new_inv:
  assumes "assembler_new h t = Inr a"
  shows "asm_inv a \<and> x_info_hash a = h \<and> x_total_size a = t"
  using assms by (auto simp: assembler_new_def asm_inv_def plen_def split: if_splits)

lemma asm_received_le:
  assumes "asm_inv a"
  shows "x_received a \<le> x_total_size a"
    and "x_received a = x_total_size a \<longleftrightarrow> asm_complete a"
proof -
  let ?t = "x_total_size a" and ?n = "length (x_pieces a)"
  have n: "?n = meta_count ?t" and r: "x_received a = (\<Sum>i<?n. plen (x_pieces a ! i))"
    and p: "\<forall>i<?n. x_pieces a ! i = None \<or> plen (x_pieces a ! i) = meta_len ?t i"
    using assms by (auto simp: asm_inv_def)
  have tot: "(\<Sum>i<?n. meta_len ?t i) = ?t" using n meta_len_total by simp
  have le: "plen (x_pieces a ! i) \<le> meta_len ?t i" if "i < ?n" for i using p that by (auto simp: plen_def)
  have "x_received a \<le> (\<Sum>i<?n. meta_len ?t i)" unfolding r by (rule sum_mono) (simp add: le)
  then show "x_received a \<le> ?t" by (simp only: tot)
  show "x_received a = ?t \<longleftrightarrow> asm_complete a"
  proof
    assume eq: "x_received a = ?t"
    show "asm_complete a"
    proof (rule ccontr)
      assume "\<not> asm_complete a"
      then obtain k where k: "k < ?n" "x_pieces a ! k = None" by (auto simp: asm_complete_def list_all_length)
      then have "plen (x_pieces a ! k) < meta_len ?t k" using meta_len_pos n by (simp add: plen_def)
      then have "(\<Sum>i<?n. plen (x_pieces a ! i)) < (\<Sum>i<?n. meta_len ?t i)"
        using k le by (intro sum_strict_mono_ex1 bexI [of _ k]) auto
      with eq r tot show False by simp
    qed
  next
    assume "asm_complete a"
    then have "x_pieces a ! i \<noteq> None" if "i < ?n" for i using that by (simp add: asm_complete_def list_all_length)
    then have "plen (x_pieces a ! i) = meta_len ?t i" if "i < ?n" for i using p that by blast
    then have "x_received a = (\<Sum>i<?n. meta_len ?t i)" unfolding r by (intro sum.cong) auto
    then show "x_received a = ?t" by (simp only: tot)
  qed
qed

lemma sum_nth_update:
  assumes "k < length xs" "f (xs ! k) = (0 :: nat)"
  shows "(\<Sum>i<length xs. f (xs[k := v] ! i)) = (\<Sum>i<length xs. f (xs ! i)) + f v"
proof -
  let ?r = "\<Sum>i\<in>{..<length xs} - {k}. f (xs ! i)"
  have "(\<Sum>i<length xs. f (xs[k := v] ! i)) = f v + (\<Sum>i\<in>{..<length xs} - {k}. f (xs[k := v] ! i))"
    using assms(1) by (subst sum.remove [of _ k]) auto
  also have "\<dots> = f v + ?r" using assms(1) by (auto intro: sum.cong)
  also have "(\<Sum>i<length xs. f (xs ! i)) = ?r" using assms by (subst sum.remove [of _ k]) auto
  then have "?r = (\<Sum>i<length xs. f (xs ! i))" by simp
  finally show ?thesis by simp
qed

lemma asm_insert_inv:
  assumes "asm_inv a" "asm_insert a piece t data = (a', r)"
  shows "asm_inv a' \<and> x_info_hash a' = x_info_hash a \<and> x_total_size a' = x_total_size a"
proof (cases "a' = a")
  case False
  let ?i = "unat piece"
  have v: "t = x_total_size a" "validate_metadata_piece piece t (length data) = Inr ()" "?i < length (x_pieces a)"
    "x_pieces a ! ?i = None"
    and a': "a' = a\<lparr>x_received := x_received a + length data, x_pieces := (x_pieces a)[?i := Some data]\<rparr>"
    using assms(2) False
    by (auto simp: asm_insert_def Let_def opt_iffs split: if_splits sum.splits option.splits)
  have "plen (x_pieces a ! ?i) = 0" "plen (Some data) = length data" using v(4) by (simp_all add: plen_def)
  then have "(\<Sum>i<length (x_pieces a). plen ((x_pieces a)[?i := Some data] ! i)) = x_received a + length data"
    using sum_nth_update [OF v(3), of plen "Some data"] assms(1) by (simp add: asm_inv_def)
  moreover have "length data = meta_len (x_total_size a) ?i" using v(1,2) by (simp add: validate_metadata_piece_iff)
  moreover from this have "\<forall>i<length (x_pieces a). (x_pieces a)[?i := Some data] ! i = None
      \<or> plen ((x_pieces a)[?i := Some data] ! i) = meta_len (x_total_size a) i"
    using assms(1) v(3) by (auto simp: asm_inv_def plen_def nth_list_update)
  ultimately show ?thesis using assms(1) a' by (simp add: asm_inv_def)
qed (use assms in simp)

lemma asm_reachable_inv:
  "asm_reachable h t a \<Longrightarrow> asm_inv a \<and> x_info_hash a = h \<and> x_total_size a = t"
proof (induction rule: asm_reachable.induct)
  case (created a)
  then show ?case by (rule asm_new_inv)
next
  case (inserted a piece t' data a' r)
  with asm_insert_inv [of a piece t' data a' r] show ?case by simp
qed

lemma asm_finish_complete:
  assumes "asm_inv a" "asm_complete a"
  shows "asm_finish sha1 a =
    (let M = concat (map the (x_pieces a)) in if sha1 M = x_info_hash a then Inr M else Inl MetadataHashMismatch)"
    and "length (concat (map the (x_pieces a))) = x_total_size a"
proof -
  let ?ps = "map the (x_pieces a)"
  have some: "\<forall>p \<in> set (x_pieces a). p \<noteq> None" using assms(2) by (simp add: asm_complete_def list_all_iff)
  then have m: "mapM_r (\<lambda>p. ok_or MetadataIncomplete p) (x_pieces a) = Inr ?ps"
    by (intro mapM_r_all_ok) auto
  have "sum_list (map length ?ps) = sum_list (map plen (x_pieces a))"
    using some by (intro arg_cong [of _ _ sum_list]) (auto simp: plen_def)
  also have "\<dots> = x_received a" using assms(1) by (simp add: asm_inv_def sum_list_sum_nth atLeast0LessThan)
  also have "\<dots> = x_total_size a" using asm_received_le(2) assms by blast
  finally show l: "length (concat ?ps) = x_total_size a" by (simp add: length_concat)
  show "asm_finish sha1 a =
    (let M = concat ?ps in if sha1 M = x_info_hash a then Inr M else Inl MetadataHashMismatch)"
    using assms(2) m l by (simp add: asm_finish_def Let_def)
qed

lemma missing_pieces_iff:
  assumes "asm_inv a" "unat p < length (x_pieces a)"
  shows "p \<in> set (missing_pieces a) \<longleftrightarrow> \<not> asm_has_piece a p"
proof -
  have "length (x_pieces a) \<le> x_total_size a" "x_total_size a \<le> MAX_METADATA_SIZE"
    using assms(1) div_ceil_le_iff [OF piece_size_pos, of "x_total_size a" "x_total_size a"]
    by (auto simp: asm_inv_def METADATA_PIECE_SIZE_def)
  then have n: "length (x_pieces a) < 2 ^ 32" by (simp add: MAX_METADATA_SIZE_def)
  have word: "(of_nat i :: u32) = p \<longleftrightarrow> i = unat p" if "i < length (x_pieces a)" for i
  proof -
    have "unat (of_nat i :: u32) = i" using that n by (simp add: unat_of_nat)
    then show ?thesis by (metis unsigned_word_eqI)
  qed
  have "p \<in> set (missing_pieces a) \<longleftrightarrow> (\<exists>i<length (x_pieces a). x_pieces a ! i = None \<and> (of_nat i :: u32) = p)"
    unfolding missing_pieces_def map_filter_def by (auto simp: in_set_enumerate_eq image_iff split: if_splits)
  also have "\<dots> \<longleftrightarrow> x_pieces a ! unat p = None" using word assms(2) by metis
  finally show ?thesis using assms(2) by (simp add: asm_has_piece_def get_opt_def)
qed

text \<open>A download of \<open>M\<close>: pieces of \<open>M\<close> arrive one after the other, in any order and with repetitions.\<close>

fun asm_feed :: "u8 list \<Rightarrow> metadata_assembler \<Rightarrow> u32 list \<Rightarrow> metadata_assembler" where
  "asm_feed M a [] = a"
| "asm_feed M a (p # ps) = asm_feed M (fst (asm_insert a p (length M) (meta_slice M (unat p)))) ps"

definition asm_of :: "u8 list \<Rightarrow> metadata_assembler \<Rightarrow> nat set \<Rightarrow> bool" where
  "asm_of M a I \<longleftrightarrow>
     asm_inv a \<and> x_total_size a = length M
     \<and> (\<forall>i<length (x_pieces a). x_pieces a ! i = (if i \<in> I then Some (meta_slice M i) else None))"

lemma asm_feed_step:
  assumes "asm_of M a I" "unat p < meta_count (length M)" "asm_insert a p (length M) (meta_slice M (unat p)) = (a', r)"
  shows "asm_of M a' (insert (unat p) I) \<and> x_info_hash a' = x_info_hash a \<and> r = Inr (asm_complete a')"
proof -
  let ?d = "meta_slice M (unat p)"
  have inv: "asm_inv a" and t: "x_total_size a = length M"
    and ps: "\<forall>i<length (x_pieces a). x_pieces a ! i = (if i \<in> I then Some (meta_slice M i) else None)"
    using assms(1) by (auto simp: asm_of_def)
  have n: "unat p < length (x_pieces a)" and sz: "0 < length M" "length M \<le> MAX_METADATA_SIZE"
    using inv t assms(2) by (auto simp: asm_inv_def)
  have v: "validate_metadata_piece p (length M) (length ?d) = Inr ()"
    using assms(2) sz by (simp add: validate_metadata_piece_iff length_meta_slice)
  note keep = asm_insert_inv [OF inv assms(3)]
  show ?thesis
  proof (cases "unat p \<in> I")
    case True
    with ps n have "x_pieces a ! unat p = Some ?d" by simp
    with v t n assms(3) have "a' = a" "r = Inr (asm_complete a)" by (auto simp: asm_insert_def Let_def)
    with assms(1) True show ?thesis by (simp add: insert_absorb)
  next
    case False
    with ps n have none: "x_pieces a ! unat p = None" by simp
    have "x_received a + length ?d < u64_limit"
      using asm_received_le(1) [OF inv] t sz(2)
      by (simp add: length_meta_slice meta_len_def MAX_METADATA_SIZE_def METADATA_PIECE_SIZE_def u64_limit_def)
    then have a': "a' = a\<lparr>x_received := x_received a + length ?d, x_pieces := (x_pieces a)[unat p := Some ?d]\<rparr>"
      "r = Inr (asm_complete a')"
      using v t n none assms(3) by (auto simp: asm_insert_def Let_def checked_add64_def)
    have "\<forall>i<length (x_pieces a). (x_pieces a)[unat p := Some ?d] ! i
        = (if i \<in> insert (unat p) I then Some (meta_slice M i) else None)"
      using ps n by (auto simp: nth_list_update)
    with keep a' t show ?thesis by (simp add: asm_of_def)
  qed
qed

lemma asm_feed_of:
  assumes "asm_of M a I" "\<forall>p \<in> set ps. unat p < meta_count (length M)"
  shows "asm_of M (asm_feed M a ps) (I \<union> unat ` set ps) \<and> x_info_hash (asm_feed M a ps) = x_info_hash a"
  using assms
proof (induction ps arbitrary: a I)
  case (Cons p ps)
  obtain a' r where i: "asm_insert a p (length M) (meta_slice M (unat p)) = (a', r)" by fastforce
  have s: "asm_of M a' (insert (unat p) I)" "x_info_hash a' = x_info_hash a"
    using asm_feed_step [OF Cons.prems(1) _ i] Cons.prems(2) by auto
  from Cons.IH [OF s(1)] Cons.prems(2) i s(2) show ?case by simp
qed simp

subsection \<open>Metadata messages on the wire\<close>

lemma nat_to_dec_length: "n < 10 ^ k \<Longrightarrow> 0 < k \<Longrightarrow> length (nat_to_dec n) \<le> k"
proof (induction n arbitrary: k rule: nat_to_dec.induct)
  case (1 n)
  show ?case
  proof (cases "n < 10")
    case True
    with 1 show ?thesis by (simp add: nat_to_dec.simps [of n])
  next
    case False
    then obtain j where k: "k = Suc j" "0 < j" using "1.prems" by (cases k; cases "k - 1") auto
    then have "n div 10 < 10 ^ j" using "1.prems" by (simp add: less_mult_imp_div_less mult.commute)
    then have "length (nat_to_dec (n div 10)) \<le> j" using "1.IH" False k by blast
    with False k show ?thesis by (simp add: nat_to_dec.simps [of n])
  qed
qed

definition meta_header :: "int \<Rightarrow> u32 \<Rightarrow> nat option \<Rightarrow> (u8 list \<times> bvalue) list" where
  "meta_header kind piece total_size =
     [(lit ''msg_type'', BInt kind), (lit ''piece'', BInt (uint piece))]
     @ (case total_size of None \<Rightarrow> [] | Some t \<Rightarrow> [(lit ''total_size'', BInt (int t))])"

lemma int_to_dec_int [simp]: "int_to_dec (int n) = nat_to_dec n"
  by (simp add: int_to_dec_def)

lemma int_to_dec_uint: "int_to_dec (uint (w :: u32)) = nat_to_dec (unat w)"
  by (metis int_to_dec_int uint_nat)

lemma meta_keys:
  "bstr (lit ''msg_type'') = lit ''8:msg_type''" "bstr (lit ''piece'') = lit ''5:piece''"
  "bstr (lit ''total_size'') = lit ''10:total_size''"
  "int_to_dec 0 = lit ''0''" "int_to_dec 1 = lit ''1''" "int_to_dec 2 = lit ''2''"
  by (simp_all add: bstr_def byte_simps of_char_def nat_to_dec.simps int_to_dec_def)

lemma metadata_encode_bencode:
  "metadata_encode (MetaRequest p) = Inr (bencode (BDict (meta_header 0 p None)))"
  "metadata_encode (MetaReject p) = Inr (bencode (BDict (meta_header 2 p None)))"
  "metadata_encode (MetaData p t d) = Inr out \<longleftrightarrow>
     0 < t \<and> t \<le> MAX_METADATA_SIZE \<and> validate_metadata_piece p t (length d) = Inr ()
     \<and> out = bencode (BDict (meta_header 1 p (Some t))) @ d"
  by (simp_all add: meta_header_def meta_keys bint_def int_to_dec_uint) (auto simp: byte_simps of_char_def)

lemma u32_i64: "is_i64 (uint (p :: u32))"
proof -
  have "uint p < 2 ^ 32" using uint_lt2p [of p] by simp
  moreover have "- (2 ^ 63) \<le> uint p" by (rule order_trans [of _ 0]) simp_all
  ultimately show ?thesis unfolding is_i64_def by simp
qed

lemma meta_header_wf:
  assumes "kind \<in> {0, 1, 2}" "\<forall>t. total_size = Some t \<longrightarrow> t \<le> MAX_METADATA_SIZE"
  shows "bwf extension_dialect 0 (BDict (meta_header kind p total_size))"
  using assms u32_i64 [of p]
  by (cases total_size) (auto simp: meta_header_def extension_dialect_def key_order is_i64_def MAX_METADATA_SIZE_def)

lemma meta_header_small:
  assumes "kind \<in> {0, 1, 2}" "\<forall>t. total_size = Some t \<longrightarrow> t \<le> MAX_METADATA_SIZE"
  shows "length (bencode (BDict (meta_header kind p total_size))) \<le> 1024"
proof -
  have "unat p < 2 ^ 32" using unsigned_less [of p, where 'a = nat] by simp
  then have "length (nat_to_dec (unat p)) \<le> 10" by (intro nat_to_dec_length) simp_all
  moreover have "length (nat_to_dec (the total_size)) \<le> 7" if "total_size \<noteq> None"
    using that assms(2) by (intro nat_to_dec_length) (auto simp: MAX_METADATA_SIZE_def)
  ultimately show ?thesis
    using assms(1) by (cases total_size) (auto simp: meta_header_def meta_keys bint_def int_to_dec_uint)
qed

lemma meta_header_lookups:
  "dict_int (meta_header k p t) (lit ''msg_type'') = Some k"
  "dict_int (meta_header k p t) (lit ''piece'') = Some (uint p)"
  "dict_int (meta_header k p t) (lit ''total_size'') = map_option int t"
  by (cases t; simp add: meta_header_def dict_int_def lit_def)+

lemma metadata_roundtrip:
  assumes "metadata_encode m = Inr out"
  shows "metadata_parse out = Inr m"
proof -
  have rd: "extension_parse_value (bencode (BDict (meta_header k p t)) @ d) 0 0
      = Inr (BDict (meta_header k p t), length (bencode (BDict (meta_header k p t))))"
    and small: "length (bencode (BDict (meta_header k p t)) @ d) \<le> METADATA_PIECE_SIZE + 1024"
    if "k \<in> {0, 1, 2}" "\<forall>x. t = Some x \<longrightarrow> x \<le> MAX_METADATA_SIZE" "length d \<le> METADATA_PIECE_SIZE" for k p t d
  proof -
    show s: "length (bencode (BDict (meta_header k p t)) @ d) \<le> METADATA_PIECE_SIZE + 1024"
      unfolding length_append using meta_header_small [OF that(1,2), of p] that(3) by linarith
    then have "length (bencode (BDict (meta_header k p t)) @ d) < u64_limit"
      by (simp add: METADATA_PIECE_SIZE_def u64_limit_def)
    then show "extension_parse_value (bencode (BDict (meta_header k p t)) @ d) 0 0
      = Inr (BDict (meta_header k p t), length (bencode (BDict (meta_header k p t))))"
      by (intro extension_reader.header meta_header_wf that(1,2))
  qed
  have u: "\<not> (uint (p :: u32) < 0 \<or> 2 ^ 32 \<le> uint p)" for p using uint_lt2p [of p] by (simp add: not_le)
  note parse = metadata_parse_def meta_header_lookups
  show ?thesis
  proof (cases m)
    case (MetaRequest p)
    with assms rd [of 0 None "[]" p] small [of 0 None "[]" p] u [of p] show ?thesis
      by (simp add: metadata_encode_bencode parse del: bencode.simps metadata_encode.simps)
  next
    case (MetaReject p)
    with assms rd [of 2 None "[]" p] small [of 2 None "[]" p] u [of p] show ?thesis
      by (simp add: metadata_encode_bencode parse del: bencode.simps metadata_encode.simps)
  next
    case (MetaData p t d)
    then have t: "0 < t" "t \<le> MAX_METADATA_SIZE" "validate_metadata_piece p t (length d) = Inr ()"
      and out: "out = bencode (BDict (meta_header 1 p (Some t))) @ d"
      using assms metadata_encode_bencode(3) by auto
    then have "length d \<le> METADATA_PIECE_SIZE" by (simp add: validate_metadata_piece_iff meta_len_def)
    with MetaData t out rd [of 1 "Some t" d p] small [of 1 "Some t" d p] u [of p] show ?thesis
      by (simp add: parse del: bencode.simps)
  qed
qed

subsection \<open>Extension handshakes on the wire\<close>

definition ext_wf :: "extended_handshake \<Rightarrow> bool" where
  "ext_wf h \<longleftrightarrow>
     ut_metadata h \<noteq> Some 0 \<and> ut_pex h \<noteq> Some 0
     \<and> (\<forall>n. metadata_size h = Some n \<longrightarrow> 0 < n \<and> n \<le> MAX_METADATA_SIZE)
     \<and> (\<forall>n. request_queue h = Some n \<longrightarrow> n < u32_limit)
     \<and> (\<forall>n. client_name h = Some n \<longrightarrow> from_utf8 n = Some n \<and> length (chars n) \<le> 128)"

definition id_entry :: "string \<Rightarrow> u8 option \<Rightarrow> (u8 list \<times> bvalue) list" where
  "id_entry name ident = (case ident of None \<Rightarrow> [] | Some i \<Rightarrow> [(lit name, BInt (uint i))])"

definition ext_entries :: "extended_handshake \<Rightarrow> (u8 list \<times> bvalue) list" where
  "ext_entries h =
     [(lit ''m'', BDict (id_entry ''ut_metadata'' (ut_metadata h) @ id_entry ''ut_pex'' (ut_pex h)))]
     @ (case metadata_size h of None \<Rightarrow> [] | Some n \<Rightarrow> [(lit ''metadata_size'', BInt (int n))])
     @ (case request_queue h of None \<Rightarrow> [] | Some n \<Rightarrow> [(lit ''reqq'', BInt (int n))])
     @ (case client_name h of None \<Rightarrow> [] | Some n \<Rightarrow> [(lit ''v'', BBytes n)])"

lemma encode_id_entry:
  "encode_extension_id name ident = Inr out \<longleftrightarrow> ident \<noteq> Some 0 \<and> out = bencode_entries (id_entry name ident)"
  by (cases ident) (auto simp: encode_extension_id_def validate_extension_id_def id_entry_def)

lemma ext_encode_bencode:
  assumes "ext_handshake_encode h = Inr out"
  shows "out = bencode (BDict (ext_entries h)) \<and> length out \<le> MAX_EXTENDED_HANDSHAKE_BYTES"
proof -
  have "out = [0x64] @ bstr (lit ''m'') @ [0x64] @ bencode_entries (id_entry ''ut_metadata'' (ut_metadata h))
        @ bencode_entries (id_entry ''ut_pex'' (ut_pex h)) @ [0x65]
        @ (case metadata_size h of None \<Rightarrow> [] | Some sz \<Rightarrow> bstr (lit ''metadata_size'') @ bint (int sz))
        @ (case request_queue h of None \<Rightarrow> [] | Some reqq \<Rightarrow> bstr (lit ''reqq'') @ bint (int reqq))
        @ (case client_name h of None \<Rightarrow> [] | Some name \<Rightarrow> bstr (lit ''v'') @ bstr name) @ [0x65]"
    and len: "length out \<le> MAX_EXTENDED_HANDSHAKE_BYTES"
    using assms by (auto simp: ext_handshake_encode_def encode_id_entry Let_def not_less split: if_splits)
  then have "out = bencode (BDict (ext_entries h))"
    by (simp add: ext_entries_def bencode_entries_append split: option.splits)
  with len show ?thesis by simp
qed

lemma small_i64: "\<bar>i\<bar> < 2 ^ 63 \<Longrightarrow> is_i64 i"
  by (auto simp: is_i64_def)

lemma ext_entries_wf:
  assumes "ext_wf h"
  shows "bwf extension_dialect 0 (BDict (ext_entries h))"
proof -
  have b: "is_i64 (uint (i :: u8))" for i using uint_lt2p [of i] by (intro small_i64) simp
  have m: "bwf extension_dialect 1 (BDict (id_entry ''ut_metadata'' (ut_metadata h) @ id_entry ''ut_pex'' (ut_pex h)))"
    by (cases "ut_metadata h"; cases "ut_pex h") (simp_all add: id_entry_def extension_dialect_def key_order b)
  have "is_i64 (int n)" if "metadata_size h = Some n \<or> request_queue h = Some n" for n
  proof (rule small_i64)
    have "n < u32_limit" using that assms by (auto simp: ext_wf_def MAX_METADATA_SIZE_def u32_limit_def)
    then show "\<bar>int n\<bar> < 2 ^ 63" by (simp add: u32_limit_def)
  qed
  with m show ?thesis
    by (cases "metadata_size h"; cases "request_queue h"; cases "client_name h")
       (simp_all add: ext_entries_def extension_dialect_def key_order)
qed

lemma ext_lookups:
  "dict_int (ext_entries h) (lit ''metadata_size'') = map_option int (metadata_size h)"
  "dict_int (ext_entries h) (lit ''reqq'') = map_option int (request_queue h)"
  "dict_bytes (ext_entries h) (lit ''v'') = client_name h"
  "Option.bind (dict_get (ext_entries h) (lit ''m'')) as_dict
     = Some (id_entry ''ut_metadata'' (ut_metadata h) @ id_entry ''ut_pex'' (ut_pex h))"
  by (cases "metadata_size h"; cases "request_queue h"; cases "client_name h";
      simp add: ext_entries_def dict_int_def dict_bytes_def lit_def)+

lemma parse_id_entry:
  assumes "a \<noteq> Some 0" "b \<noteq> Some 0"
  shows "parse_extension_id ''ut_metadata'' (id_entry ''ut_metadata'' a @ id_entry ''ut_pex'' b) = Inr a"
    and "parse_extension_id ''ut_pex'' (id_entry ''ut_metadata'' a @ id_entry ''ut_pex'' b) = Inr b"
proof -
  have u: "\<not> (uint (i :: u8) < 0 \<or> 256 \<le> uint i)" for i using uint_lt2p [of i] by (simp add: not_le)
  show "parse_extension_id ''ut_metadata'' (id_entry ''ut_metadata'' a @ id_entry ''ut_pex'' b) = Inr a"
    "parse_extension_id ''ut_pex'' (id_entry ''ut_metadata'' a @ id_entry ''ut_pex'' b) = Inr b"
    using assms u by (cases a; cases b; auto simp: parse_extension_id_def id_entry_def dict_int_def lit_def)+
qed

lemma ext_roundtrip:
  assumes "ext_wf h" "ext_handshake_encode h = Inr out"
  shows "ext_handshake_parse out = Inr h"
proof -
  note w = assms(1) [unfolded ext_wf_def]
  have out: "out = bencode (BDict (ext_entries h))" and len: "length out \<le> MAX_EXTENDED_HANDSHAKE_BYTES"
    using ext_encode_bencode [OF assms(2)] by auto
  have "length out < u64_limit" using len by (simp add: MAX_EXTENDED_HANDSHAKE_BYTES_def u64_limit_def)
  then have "extension_parse_value out 0 0 = Inr (BDict (ext_entries h), length out)"
    unfolding out by (intro extension_reader.packet ext_entries_wf assms(1))
  then have rd: "read_whole_dict out = Inr (ext_entries h)" by (simp add: read_whole_dict_def)
  have size: "parse_metadata_size (ext_entries h) = Inr (metadata_size h)"
    using w by (cases "metadata_size h") (auto simp: parse_metadata_size_def ext_lookups)
  have reqq: "(case dict_int (ext_entries h) (lit ''reqq'') of None \<Rightarrow> None
      | Some v \<Rightarrow> if 0 \<le> v \<and> v < 2 ^ 32 then Some (nat v) else None) = request_queue h"
    using w by (cases "request_queue h") (auto simp: ext_lookups u32_limit_def)
  have name: "(case dict_bytes (ext_entries h) (lit ''v'') of None \<Rightarrow> Inr None
      | Some v \<Rightarrow> rbind (ok_or (InvalidUtf8 ''v'') (from_utf8 v)) (\<lambda>text. Inr (Some (concat (take 128 (chars text))))))
      = Inr (client_name h)"
    using w by (cases "client_name h") (auto simp: ext_lookups)
  show ?thesis
    using len rd size reqq name w parse_id_entry [of "ut_metadata h" "ut_pex h"]
    by (simp add: ext_handshake_parse_def ext_lookups(4))
qed

subsection \<open>Peer exchange on the wire\<close>

lemma encode_compact_peers_eq:
  "encode_compact_peers ps a b =
     (a @ concat (map compact_addr (filter (\<lambda>p. is_ipv4 (ip p)) ps)),
      b @ concat (map compact_addr (filter (\<lambda>p. \<not> is_ipv4 (ip p)) ps)))"
  by (induction ps a b rule: encode_compact_peers.induct) auto

definition pex_norm :: "socket_addr list \<Rightarrow> socket_addr list" where
  "pex_norm ps = filter (\<lambda>a. port a \<noteq> 0) (dedup_limit ps)"

lemma sorted_filter_plain: "sorted xs \<Longrightarrow> sorted (filter P xs)"
  using sorted_filter [of "\<lambda>x. x" xs P] by simp

lemma dedup_limit_sorted: "sorted (dedup_limit ps)" "distinct (dedup_limit ps)" "length (dedup_limit ps) \<le> MAX_PEX_PEERS"
  "set (dedup_limit ps) \<subseteq> set ps"
proof -
  have "sorted (remdups_adj (sort ps))" by simp
  then show "sorted (dedup_limit ps)" unfolding dedup_limit_def by (rule sorted_wrt_take)
  have "distinct (remdups_adj (sort ps))" by (rule remdups_adj_sorted_distinct) simp
  then show "distinct (dedup_limit ps)" by (simp add: dedup_limit_def)
  show "length (dedup_limit ps) \<le> MAX_PEX_PEERS" by (simp add: dedup_limit_def)
  show "set (dedup_limit ps) \<subseteq> set ps" unfolding dedup_limit_def using set_take_subset [of MAX_PEX_PEERS "remdups_adj (sort ps)"] by simp
qed

lemma dedup_limit_id: "sorted ps \<Longrightarrow> distinct ps \<Longrightarrow> length ps \<le> MAX_PEX_PEERS \<Longrightarrow> dedup_limit ps = ps"
  by (simp add: dedup_limit_def sorted_sort_id remdups_adj_distinct)

lemma pex_norm_ok:
  "sorted (pex_norm ps)" "distinct (pex_norm ps)" "length (pex_norm ps) \<le> MAX_PEX_PEERS"
  "\<forall>a \<in> set (pex_norm ps). port a \<noteq> 0 \<and> a \<in> set ps"
  using dedup_limit_sorted [of ps] le_trans [OF length_filter_le dedup_limit_sorted(3) [of ps]]
  by (auto simp: pex_norm_def intro: sorted_filter_plain)

lemma length_concat_const: "\<forall>c \<in> set cs. length c = k \<Longrightarrow> length (concat cs) = k * length cs"
  by (induction cs) auto

lemma pex_compact_encoded:
  assumes "\<forall>a \<in> set ps. ip_wf (ip a) \<and> port a \<noteq> 0" "length ps \<le> MAX_PEX_PEERS"
  shows "pex_parse_compact_ipv4 (concat (map compact_addr (filter (\<lambda>p. is_ipv4 (ip p)) ps))) out
      = Inr (out @ filter (\<lambda>p. is_ipv4 (ip p)) ps)"
    and "pex_parse_compact_ipv6 (concat (map compact_addr (filter (\<lambda>p. \<not> is_ipv4 (ip p)) ps))) out
      = Inr (out @ filter (\<lambda>p. \<not> is_ipv4 (ip p)) ps)"
proof -
  let ?v4 = "filter (\<lambda>p. is_ipv4 (ip p)) ps" and ?v6 = "filter (\<lambda>p. \<not> is_ipv4 (ip p)) ps"
  have w4: "\<forall>c \<in> set (map compact_addr ?v4). length c = 6" and w6: "\<forall>c \<in> set (map compact_addr ?v6). length c = 18"
    using assms(1) by (auto simp: length_compact)
  have n: "length ?v4 \<le> MAX_PEX_PEERS" "length ?v6 \<le> MAX_PEX_PEERS" by (rule le_trans [OF length_filter_le assms(2)])+
  have c: "chunks_exact 6 (concat (map compact_addr ?v4)) = map compact_addr ?v4"
    "chunks_exact 18 (concat (map compact_addr ?v6)) = map compact_addr ?v6"
    using w4 w6 by (auto intro!: chunks_exact_concat)
  have "map (addr_of_chunk V4) (map compact_addr ?v4) = ?v4" "map (addr_of_chunk V6) (map compact_addr ?v6) = ?v6"
    by (auto simp: compact_roundtrip intro!: map_idI)
  moreover have "filter (\<lambda>a. port a \<noteq> 0) ?v4 = ?v4" "filter (\<lambda>a. port a \<noteq> 0) ?v6 = ?v6"
    using assms(1) by (auto simp: filter_id_conv simp del: filter_filter)
  ultimately have "pex_chunks V4 (map compact_addr ?v4) = ?v4" "pex_chunks V6 (map compact_addr ?v6) = ?v6"
    using n by (simp_all add: pex_chunks_def)
  then show "pex_parse_compact_ipv4 (concat (map compact_addr ?v4)) out = Inr (out @ ?v4)"
    "pex_parse_compact_ipv6 (concat (map compact_addr ?v6)) out = Inr (out @ ?v6)"
    using c length_concat_const [OF w4] length_concat_const [OF w6]
    by (simp_all add: pex_parse_compact_ipv4_def pex_parse_compact_ipv6_def)
qed

definition opt_entry :: "string \<Rightarrow> u8 list \<Rightarrow> (u8 list \<times> bvalue) list" where
  "opt_entry key bytes = (if bytes \<noteq> [] then [(lit key, BBytes bytes)] else [])"

lemma optional_bytes_entry: "optional_bytes key bytes = bencode_entries (opt_entry key bytes)"
  by (simp add: optional_bytes_def opt_entry_def)

abbreviation wire4 :: "socket_addr list \<Rightarrow> u8 list" where
  "wire4 ps \<equiv> concat (map compact_addr (filter (\<lambda>p. is_ipv4 (ip p)) ps))"
abbreviation wire6 :: "socket_addr list \<Rightarrow> u8 list" where
  "wire6 ps \<equiv> concat (map compact_addr (filter (\<lambda>p. \<not> is_ipv4 (ip p)) ps))"

definition pex_entries :: "peer_exchange \<Rightarrow> (u8 list \<times> bvalue) list" where
  "pex_entries p =
     opt_entry ''added'' (wire4 (pex_norm (pex_added p))) @ opt_entry ''added6'' (wire6 (pex_norm (pex_added p)))
     @ opt_entry ''dropped'' (wire4 (pex_norm (pex_dropped p))) @ opt_entry ''dropped6'' (wire6 (pex_norm (pex_dropped p)))"

lemma pex_encode_bencode:
  "pex_encode p =
     (let out = bencode (BDict (pex_entries p))
      in if MAX_PEX_MESSAGE_BYTES < length out then Inl (PexMessageTooLarge (length out)) else Inr out)"
  by (simp add: pex_encode_def encode_compact_peers_eq pex_entries_def optional_bytes_entry bencode_entries_append
      pex_norm_def Let_def)

lemma pex_entries_wf: "bwf extension_dialect 0 (BDict (pex_entries p))"
  by (simp add: pex_entries_def opt_entry_def extension_dialect_def key_order)

lemma pex_bytes_bound:
  assumes "\<forall>a \<in> set ps. ip_wf (ip a)" "length ps \<le> MAX_PEX_PEERS"
  shows "length (wire4 ps) \<le> 6 * MAX_PEX_PEERS" "length (wire6 ps) \<le> 18 * MAX_PEX_PEERS"
proof -
  have "\<forall>c \<in> set (map compact_addr (filter (\<lambda>p. is_ipv4 (ip p)) ps)). length c = 6"
    "\<forall>c \<in> set (map compact_addr (filter (\<lambda>p. \<not> is_ipv4 (ip p)) ps)). length c = 18"
    using assms(1) by (auto simp: length_compact)
  from this [THEN length_concat_const]
  show "length (wire4 ps) \<le> 6 * MAX_PEX_PEERS" "length (wire6 ps) \<le> 18 * MAX_PEX_PEERS"
    using le_trans [OF length_filter_le assms(2), of "\<lambda>p. is_ipv4 (ip p)"]
      le_trans [OF length_filter_le assms(2), of "\<lambda>p. \<not> is_ipv4 (ip p)"] by simp_all
qed

lemma bstr_bound: "length b < 10 ^ 6 \<Longrightarrow> length (bstr b) \<le> length b + 7"
  using nat_to_dec_length [of "length b" 6] by (simp add: bstr_def)

lemma opt_entry_bound:
  assumes "length b \<le> 18 * MAX_PEX_PEERS" "length key < 100"
  shows "length (bencode_entries (opt_entry key b)) \<le> length b + 200"
proof -
  have "length (bstr b) \<le> length b + 7" using assms(1) by (intro bstr_bound) (simp add: MAX_PEX_PEERS_def)
  moreover have "length (bstr (lit key)) \<le> length key + 7" using bstr_bound [of "lit key"] assms(2) by simp
  ultimately show ?thesis using assms(2) by (simp add: opt_entry_def)
qed

lemma pex_encode_succeeds:
  assumes "\<forall>a \<in> set (pex_added p @ pex_dropped p). ip_wf (ip a)"
  shows "pex_encode p = Inr (bencode (BDict (pex_entries p)))"
    and "length (bencode (BDict (pex_entries p))) \<le> MAX_PEX_MESSAGE_BYTES"
proof -
  let ?a = "pex_norm (pex_added p)" and ?d = "pex_norm (pex_dropped p)"
  have wf: "\<forall>x \<in> set ?a. ip_wf (ip x)" "\<forall>x \<in> set ?d. ip_wf (ip x)" using assms pex_norm_ok(4) by auto
  note b = pex_bytes_bound [OF wf(1) pex_norm_ok(3)] pex_bytes_bound [OF wf(2) pex_norm_ok(3)]
  have "length (bencode_entries (opt_entry ''added'' (wire4 ?a))) \<le> length (wire4 ?a) + 200"
    "length (bencode_entries (opt_entry ''added6'' (wire6 ?a))) \<le> length (wire6 ?a) + 200"
    "length (bencode_entries (opt_entry ''dropped'' (wire4 ?d))) \<le> length (wire4 ?d) + 200"
    "length (bencode_entries (opt_entry ''dropped6'' (wire6 ?d))) \<le> length (wire6 ?d) + 200"
    by (rule opt_entry_bound; use b in simp)+
  then show l: "length (bencode (BDict (pex_entries p))) \<le> MAX_PEX_MESSAGE_BYTES"
    using b unfolding pex_entries_def bencode.simps bencode_entries_append
    by (simp add: MAX_PEX_PEERS_def MAX_PEX_MESSAGE_BYTES_def)
  then show "pex_encode p = Inr (bencode (BDict (pex_entries p)))"
    unfolding pex_encode_bencode Let_def by (simp only: not_less [symmetric] if_False)
qed

lemma opt_entry_lookups:
  fixes a4 a6 d4 d6 :: "u8 list"
  defines "d \<equiv> opt_entry ''added'' a4 @ opt_entry ''added6'' a6 @ opt_entry ''dropped'' d4 @ opt_entry ''dropped6'' d6"
  shows "dict_bytes d (lit ''added'') = (if a4 = [] then None else Some a4)"
    "dict_bytes d (lit ''added6'') = (if a6 = [] then None else Some a6)"
    "dict_bytes d (lit ''dropped'') = (if d4 = [] then None else Some d4)"
    "dict_bytes d (lit ''dropped6'') = (if d6 = [] then None else Some d6)"
  by (simp_all add: d_def opt_entry_def dict_bytes_def lit_def)

lemma pex_lookups:
  "pex_field (pex_entries p) ''added'' f out
     = (if wire4 (pex_norm (pex_added p)) = [] then Inr out else f (wire4 (pex_norm (pex_added p))) out)"
  "pex_field (pex_entries p) ''added6'' f out
     = (if wire6 (pex_norm (pex_added p)) = [] then Inr out else f (wire6 (pex_norm (pex_added p))) out)"
  "pex_field (pex_entries p) ''dropped'' f out
     = (if wire4 (pex_norm (pex_dropped p)) = [] then Inr out else f (wire4 (pex_norm (pex_dropped p))) out)"
  "pex_field (pex_entries p) ''dropped6'' f out
     = (if wire6 (pex_norm (pex_dropped p)) = [] then Inr out else f (wire6 (pex_norm (pex_dropped p))) out)"
  unfolding pex_field_def pex_entries_def opt_entry_lookups
  by (simp_all only: if_distrib [of "case_option _ _"] option.case)

lemma pex_pair:
  assumes "\<forall>a \<in> set ps. ip_wf (ip a)"
  shows "rbind (if wire4 (pex_norm ps) = [] then Inr [] else pex_parse_compact_ipv4 (wire4 (pex_norm ps)) []) (\<lambda>v4.
    rbind (if wire6 (pex_norm ps) = [] then Inr v4 else pex_parse_compact_ipv6 (wire6 (pex_norm ps)) v4) g)
    = g (pex_norm ps)"
proof -
  let ?n = "pex_norm ps"
  let ?v4 = "filter (\<lambda>p. is_ipv4 (ip p)) ?n" and ?v6 = "filter (\<lambda>p. \<not> is_ipv4 (ip p)) ?n"
  have ok: "\<forall>a \<in> set ?n. ip_wf (ip a) \<and> port a \<noteq> 0" using assms pex_norm_ok(4) [of ps] by auto
  note enc = pex_compact_encoded [OF ok pex_norm_ok(3)]
  have "pex_parse_compact_ipv4 [] [] = Inr []" by (simp add: pex_parse_compact_ipv4_def pex_chunks_def)
  then have "(if wire4 ?n = [] then Inr [] else pex_parse_compact_ipv4 (wire4 ?n) []) = Inr ?v4"
    using enc(1) [of "[]"] by (metis append_Nil)
  moreover have "pex_parse_compact_ipv6 [] ?v4 = Inr ?v4" by (simp add: pex_parse_compact_ipv6_def pex_chunks_def)
  then have "(if wire6 ?n = [] then Inr ?v4 else pex_parse_compact_ipv6 (wire6 ?n) ?v4) = Inr (?v4 @ ?v6)"
    using enc(2) [of ?v4] by metis
  moreover have "?v4 @ ?v6 = ?n"
    by (rule filter_partition_sorted [of "\<lambda>x. x"]) (use pex_norm_ok(1) v4_first in auto)
  ultimately show ?thesis by simp
qed

lemma pex_roundtrip:
  assumes "\<forall>a \<in> set (pex_added p @ pex_dropped p). ip_wf (ip a)"
  shows "pex_parse (bencode (BDict (pex_entries p)))
    = Inr \<lparr>pex_added = pex_norm (pex_added p), pex_dropped = pex_norm (pex_dropped p)\<rparr>"
proof -
  let ?out = "bencode (BDict (pex_entries p))"
  have len: "length ?out \<le> MAX_PEX_MESSAGE_BYTES" by (rule pex_encode_succeeds(2) [OF assms])
  then have "length ?out < u64_limit" by (simp add: MAX_PEX_MESSAGE_BYTES_def u64_limit_def)
  then have "extension_parse_value ?out 0 0 = Inr (BDict (pex_entries p), length ?out)"
    by (intro extension_reader.packet pex_entries_wf)
  then have rd: "read_whole_dict ?out = Inr (pex_entries p)" by (simp add: read_whole_dict_def)
  have n: "dedup_limit (pex_norm ps) = pex_norm ps" for ps using pex_norm_ok by (simp add: dedup_limit_id)
  have wf: "\<forall>a \<in> set (pex_added p). ip_wf (ip a)" "\<forall>a \<in> set (pex_dropped p). ip_wf (ip a)" using assms by auto
  have "\<not> MAX_PEX_MESSAGE_BYTES < length ?out" using len by simp
  then show ?thesis
    unfolding pex_parse_def rd rbind_simps pex_lookups pex_pair [OF wf(1)] pex_pair [OF wf(2)] n by (simp only: if_False)
qed

subsection \<open>Properties\<close>

text \<open>C30: Metadata is assembled correctly whatever order its pieces arrive in: once every piece of the
  info dictionary \<open>M\<close> has arrived at least once, repetitions allowed, the assembler is complete and
  \<open>finish\<close> returns exactly \<open>M\<close>, provided \<open>M\<close> has the info hash of the link.\<close>
theorem metadata_any_order:
  assumes "assembler_new info_hash (length M) = Inr a" "sha1 M = info_hash"
    and "unat ` set ps = {i. i < meta_count (length M)}"
  shows "asm_complete (asm_feed M a ps) \<and> asm_finish sha1 (asm_feed M a ps) = Inr M"
proof -
  let ?a = "asm_feed M a ps" and ?n = "meta_count (length M)"
  have new: "asm_inv a" "x_info_hash a = info_hash" "x_total_size a = length M" using asm_new_inv [OF assms(1)] by auto
  have "x_pieces a = replicate ?n None" using assms(1) by (auto simp: assembler_new_def split: if_splits)
  with new have "asm_of M a {}" by (simp add: asm_of_def)
  then have fed: "asm_of M ?a {i. i < ?n}" "x_info_hash ?a = info_hash"
    using asm_feed_of [of M a "{}" ps] assms(3) new(2) by auto
  then have inv: "asm_inv ?a" and len: "length (x_pieces ?a) = ?n"
    and ps: "\<forall>i<?n. x_pieces ?a ! i = Some (meta_slice M i)" by (auto simp: asm_of_def asm_inv_def)
  have "map the (x_pieces ?a) = map (meta_slice M) [0..<?n]" using len ps by (intro nth_equalityI) auto
  then have M: "concat (map the (x_pieces ?a)) = M" by (simp add: meta_slices_whole)
  have c: "asm_complete ?a" using len ps by (simp add: asm_complete_def list_all_length)
  with asm_finish_complete(1) [OF inv c, of sha1] M fed(2) assms(2) show ?thesis by (simp add: Let_def)
qed

theorem metadata_any_order_witness:
  "\<exists>a. assembler_new [9] (length [1, 2, 3 :: u8]) = Inr a
    \<and> asm_finish (\<lambda>_. [9]) (asm_feed [1, 2, 3] a [0, 0]) = Inr [1, 2, 3]"
proof -
  obtain a where a: "assembler_new [9] (length [1, 2, 3 :: u8]) = Inr a"
    by (simp add: assembler_new_def MAX_METADATA_SIZE_def)
  have "unat ` set [0, 0 :: u32] = {i. i < meta_count (length [1, 2, 3 :: u8])}"
    by (auto simp: div_ceil_def METADATA_PIECE_SIZE_def)
  from metadata_any_order [where ?sha1.0 = "\<lambda>_. [9]", OF a refl this] a show ?thesis by blast
qed

text \<open>C15: Whatever peers send, the assembler never accepts wrong metadata: in every reachable state the
  byte count equals the expected total exactly when all pieces are there, and \<open>finish\<close> then
  returns the joined pieces, of exactly that total size, if and only if their digest is the info hash
  asked for; otherwise it fails with the missing-piece or the hash error.\<close>
theorem metadata_assembler_safe:
  assumes "asm_reachable info_hash total_size a"
  shows "(x_received a = total_size \<longleftrightarrow> asm_complete a)
    \<and> asm_finish sha1 a =
        (let M = concat (map the (x_pieces a)) in
         if \<not> asm_complete a then Inl MetadataIncomplete
         else if sha1 M = info_hash then Inr M else Inl MetadataHashMismatch)
    \<and> (asm_complete a \<longrightarrow> length (concat (map the (x_pieces a))) = total_size)"
proof -
  have inv: "asm_inv a" and h: "x_info_hash a = info_hash" "x_total_size a = total_size"
    using asm_reachable_inv [OF assms] by auto
  show ?thesis
  proof (cases "asm_complete a")
    case True
    with asm_finish_complete [OF inv True] asm_received_le(2) [OF inv] h show ?thesis by (auto simp: Let_def)
  next
    case False
    with asm_received_le(2) [OF inv] h show ?thesis by (auto simp: asm_finish_def Let_def)
  qed
qed

theorem metadata_assembler_safe_witness:
  "\<exists>a. asm_reachable [9] 3 a \<and> x_received a \<noteq> 3 \<and> asm_finish (\<lambda>_. [9]) a = Inl MetadataIncomplete"
proof -
  define a where "a = \<lparr>x_info_hash = [9 :: u8], x_total_size = 3, x_pieces = [None], x_received = 0\<rparr>"
  have "assembler_new [9] 3 = Inr a"
    by (simp add: a_def assembler_new_def MAX_METADATA_SIZE_def div_ceil_def METADATA_PIECE_SIZE_def)
  then have r: "asm_reachable [9] 3 a" by (rule created)
  have "\<not> asm_complete a" by (simp add: a_def asm_complete_def)
  with metadata_assembler_safe [OF r, of "\<lambda>_. [9]"] r show ?thesis by auto
qed

text \<open>Every metadata request, reject and data message that is encoded is read back to the same
  message, the raw piece behind the bencoded header included.\<close>
lemma metadata_message_roundtrip:
  assumes "metadata_encode m = Inr out"
  shows "metadata_parse out = Inr m"
  using assms by (rule metadata_roundtrip)

text \<open>An extension handshake with nonzero extension ids, a legal metadata size, a 32-bit queue length
  and a client name of at most 128 characters is read back unchanged from its encoding.\<close>
lemma ext_handshake_roundtrip:
  assumes "ext_wf h" "ext_handshake_encode h = Inr out"
  shows "ext_handshake_parse out = Inr h"
  using assms by (rule ext_roundtrip)

text \<open>Peer exchange never fails to encode and loses nothing it promises to send: the peers read back
  are the added and the dropped ones sorted, without duplicates, cut to 2048 and without port zero.\<close>
lemma pex_exchange_roundtrip:
  assumes "\<forall>a \<in> set (pex_added p @ pex_dropped p). ip_wf (ip a)"
  shows "\<exists>out. pex_encode p = Inr out \<and> length out \<le> MAX_PEX_MESSAGE_BYTES \<and>
    pex_parse out = Inr \<lparr>pex_added = filter (\<lambda>a. port a \<noteq> 0) (dedup_limit (pex_added p)),
                         pex_dropped = filter (\<lambda>a. port a \<noteq> 0) (dedup_limit (pex_dropped p))\<rparr>"
  using pex_encode_succeeds [OF assms] pex_roundtrip [OF assms] by (simp add: pex_norm_def)

end
