(* ===== verification/Text.thy ===== *)
theory Text
  imports Utf8
begin

text \<open>
  The splitting and matching operations of \<open>str\<close> that the readers of text formats use: splitting at a
  byte, \<open>lines\<close>, \<open>split_once\<close>, \<open>split_whitespace\<close> and comparison without regard to ASCII case.
\<close>

fun split_byte :: "u8 \<Rightarrow> str \<Rightarrow> str list" where
  "split_byte c [] = [[]]"
| "split_byte c (b # s) =
     (if b = c then [] # split_byte c s else (b # hd (split_byte c s)) # tl (split_byte c s))"

lemma split_byte_nonempty [simp]: "split_byte c s \<noteq> []"
  by (cases s) simp_all

lemma split_byte_part: "c \<notin> set l \<Longrightarrow> split_byte c (l @ c # s) = l # split_byte c s"
  by (induction l) auto

lemma split_byte_single: "c \<notin> set l \<Longrightarrow> split_byte c l = [l]"
  by (induction l) auto

text \<open>\<open>str::lines\<close>: a carriage return goes only with the line feed after it.\<close>

definition strip_cr :: "str \<Rightarrow> str" where
  "strip_cr l = (if l \<noteq> [] \<and> last l = 0x0d then butlast l else l)"

definition str_lines :: "str \<Rightarrow> str list" where
  "str_lines s =
     (let ps = split_byte 0x0a s in map strip_cr (butlast ps) @ (if last ps = [] then [] else [last ps]))"

definition split_once :: "u8 \<Rightarrow> str \<Rightarrow> (str \<times> str) option" where
  "split_once c s =
     (if c \<in> set s then Some (takeWhile (\<lambda>b. b \<noteq> c) s, tl (dropWhile (\<lambda>b. b \<noteq> c) s)) else None)"

definition to_ascii_lowercase :: "u8 \<Rightarrow> u8" where
  "to_ascii_lowercase b = (if is_ascii_upper b then b + 32 else b)"

definition eq_ignore_ascii_case :: "str \<Rightarrow> str \<Rightarrow> bool" where
  "eq_ignore_ascii_case a b \<longleftrightarrow> map to_ascii_lowercase a = map to_ascii_lowercase b"

text \<open>\<open>str::split_whitespace\<close>: the maximal runs of characters that are not white space.\<close>

fun words_loop :: "u8 list list \<Rightarrow> str \<Rightarrow> str list" where
  "words_loop [] cur = (if cur = [] then [] else [cur])"
| "words_loop (c # cs) cur =
     (if is_whitespace c then (if cur = [] then words_loop cs [] else cur # words_loop cs [])
      else words_loop cs (cur @ c))"

definition split_whitespace :: "str \<Rightarrow> str list" where
  "split_whitespace s = words_loop (chars s) []"

subsection \<open>Lines\<close>

definition plain_line :: "str \<Rightarrow> bool" where
  "plain_line l \<longleftrightarrow> l \<noteq> [] \<and> 0x0a \<notin> set l \<and> last l \<noteq> 0x0d"

lemma str_lines_Nil [simp]: "str_lines [] = []"
  by (simp add: str_lines_def)

lemma str_lines_line: "plain_line l \<Longrightarrow> str_lines (l @ 0x0a # s) = l # str_lines s"
  by (simp add: str_lines_def plain_line_def split_byte_part strip_cr_def Let_def)

lemma str_lines_single: "0x0a \<notin> set l \<Longrightarrow> l \<noteq> [] \<Longrightarrow> str_lines l = [l]"
  by (simp add: str_lines_def split_byte_single)

definition unlines :: "str list \<Rightarrow> str" where
  "unlines ls = concat (map (\<lambda>l. l @ [0x0a]) ls)"

lemma unlines_simps [simp]: "unlines [] = []" "unlines (l # ls) = l @ 0x0a # unlines ls"
  by (simp_all add: unlines_def)

lemma str_lines_unlines: "list_all plain_line ls \<Longrightarrow> str_lines (unlines ls) = ls"
  by (induction ls) (simp_all add: str_lines_line)

text \<open>Cutting a text off leaves whole lines and at most one beginning of a line.\<close>

lemma str_lines_take:
  "list_all plain_line ls \<Longrightarrow>
     \<exists>k. str_lines (take n (unlines ls)) = take k ls
       \<or> k < length ls \<and> (\<exists>m. take m (ls ! k) \<noteq> [] \<and> str_lines (take n (unlines ls)) = take k ls @ [take m (ls ! k)])"
proof (induction ls arbitrary: n)
  case (Cons l ls)
  then have l: "plain_line l" and ls: "list_all plain_line ls" by simp_all
  show ?case
  proof (cases "length l < n")
    case True
    then obtain n' where n: "take n (unlines (l # ls)) = l @ 0x0a # take n' (unlines ls)"
      by (cases "n - length l") auto
    from Cons.IH [OF ls, of n'] obtain k where
      "str_lines (take n' (unlines ls)) = take k ls
        \<or> k < length ls \<and> (\<exists>m. take m (ls ! k) \<noteq> [] \<and> str_lines (take n' (unlines ls)) = take k ls @ [take m (ls ! k)])"
      by blast
    then show ?thesis unfolding n using str_lines_line [OF l] by (intro exI [of _ "Suc k"]) auto
  next
    case False
    then have n: "take n (unlines (l # ls)) = take n l" by simp
    have lf: "0x0a \<notin> set (take n l)" using l set_take_subset [of n l] by (auto simp: plain_line_def)
    show ?thesis
    proof (cases "take n l = []")
      case True
      then show ?thesis unfolding n by (intro exI [of _ 0]) (simp add: True)
    next
      case ne: False
      then show ?thesis unfolding n using str_lines_single [OF lf ne] ne by (intro exI [of _ 0]) auto
    qed
  qed
qed simp

lemma split_once_SomeD:
  assumes "split_once c s = Some (k, v)"
  shows "c \<in> set s" "takeWhile (\<lambda>b. b \<noteq> c) s = k" "k @ c # v = s"
proof -
  show c: "c \<in> set s" and k: "takeWhile (\<lambda>b. b \<noteq> c) s = k"
    using assms by (auto simp: split_once_def split: if_splits)
  have v: "v = tl (dropWhile (\<lambda>b. b \<noteq> c) s)" using assms by (auto simp: split_once_def split: if_splits)
  have "dropWhile (\<lambda>b. b \<noteq> c) s \<noteq> []" using c by (auto simp: dropWhile_eq_Nil_conv)
  then have "dropWhile (\<lambda>b. b \<noteq> c) s = c # v"
    using hd_dropWhile [of "\<lambda>b. b \<noteq> c" s] v by (cases "dropWhile (\<lambda>b. b \<noteq> c) s") simp_all
  then show "k @ c # v = s" using takeWhile_dropWhile_id [of "\<lambda>b. b \<noteq> c" s] unfolding k by simp
qed

lemma split_once_append: "c \<notin> set k \<Longrightarrow> split_once c (k @ c # v) = Some (k, v)"
  by (auto simp: split_once_def takeWhile_append dropWhile_append)

end
