(* ===== verification/Files.thy ===== *)
theory Files
  imports Text
begin

text \<open>
  The file system as the torrent storage sees it, and the protocol by which small control files are
  replaced (\<open>save_checkpoint_atomic\<close> of \<open>resume.rs\<close>, \<open>save_storage_manifest_atomic\<close> of
  \<open>manifest.rs\<close>) and recovered after a crash.

  A path is the list of its components; a symbolic link is opaque, and nothing below one is
  visible. Every system call consumes one event: it proceeds, fails, or the process stops there. A
  write that fails or is cut off may have stored any number of its bytes. What a run leaves behind
  is therefore described by the final file system over all event lists, and a crash by the outcome
  \<open>Stopped\<close>. Calls act on the file system in program order: the model is of a stopped process, not
  of a disk that reorders synced data. The text of an operating-system error is dropped.
\<close>

type_synonym path = "str list"

datatype node = File "u8 list" | Directory | Symlink bool

type_synonym fs = "path \<Rightarrow> node option"

datatype io_event = Proceed | Fail nat | Crash nat

record world =
  files :: fs
  events :: "io_event list"

datatype ('e, 'a) outcome = Done 'a | Err 'e | Stopped

type_synonym ('e, 'a) io = "world \<Rightarrow> ('e, 'a) outcome \<times> world"

subsection \<open>Paths\<close>

text \<open>\<open>Path::components\<close> on the Unix targets: empty parts and inner dots disappear.\<close>

datatype path_component = RootDir | CurDir | ParentDir | NormalComp str

definition component_of :: "str \<Rightarrow> path_component" where
  "component_of part = (if part = lit ''..'' then ParentDir else NormalComp part)"

definition path_components :: "str \<Rightarrow> path_component list" where
  "path_components p =
     (let parts = split_byte 0x2f p;
          named = map component_of (filter (\<lambda>x. x \<noteq> [] \<and> x \<noteq> lit ''.'') parts)
      in (if p \<noteq> [] \<and> hd parts = [] then [RootDir] else if hd parts = lit ''.'' then [CurDir] else []) @ named)"

definition is_absolute :: "str \<Rightarrow> bool" where
  "is_absolute p \<longleftrightarrow> p \<noteq> [] \<and> hd p = 0x2f"

fun normal_name :: "path_component \<Rightarrow> str option" where
  "normal_name (NormalComp s) = Some s"
| "normal_name _ = None"

subsection \<open>Sequencing\<close>

definition ret :: "'a \<Rightarrow> ('e, 'a) io" where
  "ret x w = (Done x, w)"

definition throw :: "'e \<Rightarrow> ('e, 'a) io" where
  "throw e w = (Err e, w)"

definition ibind :: "('e, 'a) io \<Rightarrow> ('a \<Rightarrow> ('e, 'b) io) \<Rightarrow> ('e, 'b) io" where
  "ibind m f w =
     (case m w of (Done x, w') \<Rightarrow> f x w' | (Err e, w') \<Rightarrow> (Err e, w') | (Stopped, w') \<Rightarrow> (Stopped, w'))"

definition lift :: "('e, 'a) result \<Rightarrow> ('e, 'a) io" where
  "lift r = (case r of Inl e \<Rightarrow> throw e | Inr x \<Rightarrow> ret x)"

definition attempt :: "('e, 'a) io \<Rightarrow> ('f, ('e, 'a) result) io" where
  "attempt m w =
     (case m w of (Done x, w') \<Rightarrow> (Done (Inr x), w') | (Err e, w') \<Rightarrow> (Done (Inl e), w')
      | (Stopped, w') \<Rightarrow> (Stopped, w'))"

definition rethrow :: "('e \<Rightarrow> 'f) \<Rightarrow> ('e, 'a) io \<Rightarrow> ('f, 'a) io" where
  "rethrow h m = ibind (attempt m) (\<lambda>r. lift (map_err h r))"

definition ignore :: "('e, 'a) io \<Rightarrow> ('f, unit) io" where
  "ignore m = ibind (attempt m) (\<lambda>_. ret ())"

definition do_if :: "bool \<Rightarrow> ('e, unit) io \<Rightarrow> ('e, unit) io" where
  "do_if b m = (if b then m else ret ())"

fun each :: "('a \<Rightarrow> ('e, unit) io) \<Rightarrow> 'a list \<Rightarrow> ('e, unit) io" where
  "each f [] = ret ()"
| "each f (x # xs) = ibind (f x) (\<lambda>_. each f xs)"

subsection \<open>System calls\<close>

text \<open>
  \<open>partial n\<close> is what \<open>n\<close> units of the call leave behind when it is interrupted; only writes have
  such an effect.
\<close>

definition syscall :: "(nat \<Rightarrow> fs \<Rightarrow> fs) \<Rightarrow> (fs \<Rightarrow> ('a \<times> fs) option) \<Rightarrow> (unit, 'a) io" where
  "syscall partial act w =
     (let rest = w\<lparr>events := tl (events w)\<rparr> in
      case events w of
        Fail n # _ \<Rightarrow> (Err (), rest\<lparr>files := partial n (files w)\<rparr>)
      | Crash n # _ \<Rightarrow> (Stopped, rest\<lparr>files := partial n (files w)\<rparr>)
      | _ \<Rightarrow> (case act (files w) of None \<Rightarrow> (Err (), rest) | Some (x, f) \<Rightarrow> (Done x, rest\<lparr>files := f\<rparr>)))"

abbreviation call :: "(fs \<Rightarrow> ('a \<times> fs) option) \<Rightarrow> (unit, 'a) io" where
  "call \<equiv> syscall (\<lambda>_ f. f)"

definition node_exists :: "fs \<Rightarrow> path \<Rightarrow> bool" where
  "node_exists f p = (case f p of None \<Rightarrow> False | Some (Symlink live) \<Rightarrow> live | Some _ \<Rightarrow> True)"

definition path_exists :: "path \<Rightarrow> ('e, bool) io" where
  "path_exists p w = (Done (node_exists (files w) p), w)"

definition parent_ok :: "fs \<Rightarrow> path \<Rightarrow> bool" where
  "parent_ok f p \<longleftrightarrow> p \<noteq> [] \<and> (butlast p = [] \<or> f (butlast p) = Some Directory)"

fun file_data :: "node option \<Rightarrow> u8 list option" where
  "file_data (Some (File d)) = Some d"
| "file_data _ = None"

text \<open>\<open>File::open\<close> and \<open>OpenOptions\<close>: read-write, create-or-truncate, create-new.\<close>

definition fs_open :: "path \<Rightarrow> (unit, unit) io" where
  "fs_open p = call (\<lambda>f. map_option (\<lambda>_. ((), f)) (file_data (f p)))"

definition fs_open_truncate :: "path \<Rightarrow> (unit, unit) io" where
  "fs_open_truncate p =
     call (\<lambda>f. if parent_ok f p \<and> (f p = None \<or> file_data (f p) \<noteq> None)
               then Some ((), f(p := Some (File []))) else None)"

definition fs_create_new :: "path \<Rightarrow> (unit, unit) io" where
  "fs_create_new p =
     call (\<lambda>f. if parent_ok f p \<and> f p = None then Some ((), f(p := Some (File []))) else None)"

definition overwrite :: "u8 list \<Rightarrow> nat \<Rightarrow> u8 list \<Rightarrow> u8 list" where
  "overwrite old off new =
     take off old @ replicate (off - length old) 0 @ new @ drop (off + length new) old"

definition write_at :: "path \<Rightarrow> nat \<Rightarrow> u8 list \<Rightarrow> fs \<Rightarrow> fs" where
  "write_at p off new f =
     (case file_data (f p) of
        None \<Rightarrow> f
      | Some old \<Rightarrow> if new = [] then f else f(p := Some (File (overwrite old off new))))"

text \<open>\<open>write_all\<close> at the position the handle is at.\<close>

definition fs_write_all :: "path \<Rightarrow> nat \<Rightarrow> u8 list \<Rightarrow> (unit, unit) io" where
  "fs_write_all p off bytes =
     syscall (\<lambda>n. write_at p off (take n bytes)) (\<lambda>f. Some ((), write_at p off bytes f))"

definition fs_sync :: "path \<Rightarrow> (unit, unit) io" where
  "fs_sync p = call (\<lambda>f. Some ((), f))"

definition fs_seek :: "path \<Rightarrow> (unit, unit) io" where
  "fs_seek p = call (\<lambda>f. Some ((), f))"

definition fs_set_len :: "path \<Rightarrow> nat \<Rightarrow> (unit, unit) io" where
  "fs_set_len p n =
     call (\<lambda>f. map_option (\<lambda>d. ((), f(p := Some (File (take n d @ replicate (n - length d) 0))))) (file_data (f p)))"

definition fs_read :: "path \<Rightarrow> (unit, u8 list) io" where
  "fs_read p = call (\<lambda>f. map_option (\<lambda>d. (d, f)) (file_data (f p)))"

definition fs_read_exact :: "path \<Rightarrow> nat \<Rightarrow> nat \<Rightarrow> (unit, u8 list) io" where
  "fs_read_exact p off n =
     call (\<lambda>f. case file_data (f p) of
        None \<Rightarrow> None
      | Some d \<Rightarrow> if off + n \<le> length d then Some (bslice d off (off + n), f) else None)"

definition fs_rename :: "path \<Rightarrow> path \<Rightarrow> (unit, unit) io" where
  "fs_rename a b =
     call (\<lambda>f. case f a of
        None \<Rightarrow> None
      | Some Directory \<Rightarrow> None
      | Some n \<Rightarrow> if f b = Some Directory \<or> \<not> parent_ok f b then None else Some ((), f(a := None, b := Some n)))"

definition fs_remove_file :: "path \<Rightarrow> (unit, unit) io" where
  "fs_remove_file p =
     call (\<lambda>f. case f p of None \<Rightarrow> None | Some Directory \<Rightarrow> None | Some _ \<Rightarrow> Some ((), f(p := None)))"

definition fs_create_dir :: "path \<Rightarrow> (unit, unit) io" where
  "fs_create_dir p =
     call (\<lambda>f. if parent_ok f p \<and> f p = None then Some ((), f(p := Some Directory)) else None)"

definition fs_create_dir_all :: "path \<Rightarrow> (unit, unit) io" where
  "fs_create_dir_all p =
     each (\<lambda>q. ibind (path_exists q) (\<lambda>e. do_if (\<not> e) (fs_create_dir q))) (map (\<lambda>n. take n p) [1..<Suc (length p)])"

definition fs_symlink_metadata :: "path \<Rightarrow> (unit, node) io" where
  "fs_symlink_metadata p = call (\<lambda>f. map_option (\<lambda>n. (n, f)) (f p))"

text \<open>\<open>canonicalize\<close> where no part of the path is a link; a root reached through one is outside the model.\<close>

definition fs_canonicalize :: "path \<Rightarrow> (unit, path) io" where
  "fs_canonicalize p =
     call (\<lambda>f. if list_all (\<lambda>n. f (take n p) = Some Directory) [1..<length p]
                 \<and> (p = [] \<or> f p = Some Directory \<or> file_data (f p) \<noteq> None)
               then Some (p, f) else None)"

definition starts_with :: "path \<Rightarrow> path \<Rightarrow> bool" where
  "starts_with root p \<longleftrightarrow> take (length root) p = root"

text \<open>\<open>remove_dir_all\<close>, from the bottom up: cut off, it has removed what lies more than \<open>n\<close> levels down.\<close>

definition fs_remove_dir_all :: "path \<Rightarrow> (unit, unit) io" where
  "fs_remove_dir_all p =
     syscall (\<lambda>n f q. if starts_with p q \<and> length p + n < length q then None else f q)
       (\<lambda>f. if f p = Some Directory then Some ((), \<lambda>q. if starts_with p q then None else f q) else None)"

definition fs_remove_dir :: "path \<Rightarrow> (unit, unit) io" where
  "fs_remove_dir p =
     call (\<lambda>f. if f p = Some Directory \<and> (\<forall>q. starts_with p q \<and> q \<noteq> p \<longrightarrow> f q = None)
               then Some ((), f(p := None)) else None)"

subsection \<open>Replacing a control file\<close>

definition append_suffix :: "path \<Rightarrow> string \<Rightarrow> path" where
  "append_suffix p suffix = butlast p @ [last p @ lit suffix]"

definition sync_parent :: "path \<Rightarrow> ('e, unit) io" where
  "sync_parent p = do_if (butlast p \<noteq> []) (ignore (fs_sync (butlast p)))"

definition write_synced :: "(path \<Rightarrow> 'e) \<Rightarrow> path \<Rightarrow> u8 list \<Rightarrow> ('e, unit) io" where
  "write_synced io_error tmp payload =
     ibind (rethrow (\<lambda>_. io_error tmp) (fs_open_truncate tmp)) (\<lambda>_.
     rethrow (\<lambda>_. io_error tmp) (ibind (fs_write_all tmp 0 payload) (\<lambda>_. fs_sync tmp)))"

text \<open>What happens when the plain rename over the old file is refused.\<close>

definition replace_fallback :: "(path \<Rightarrow> 'e) \<Rightarrow> path \<Rightarrow> ('e, unit) io" where
  "replace_fallback io_error p =
     (let tmp = append_suffix p ''.tmp''; backup = append_suffix p ''.bak'' in
      ibind (path_exists p) (\<lambda>there.
      if \<not> there then ibind (ignore (fs_remove_file tmp)) (\<lambda>_. throw (io_error p))
      else
        ibind (ignore (fs_remove_file backup)) (\<lambda>_.
        ibind (rethrow (\<lambda>_. io_error backup) (fs_rename p backup)) (\<lambda>_.
        ibind (attempt (fs_rename tmp p)) (\<lambda>r.
        case r of
          Inl _ \<Rightarrow>
            ibind (ignore (fs_rename backup p)) (\<lambda>_.
            ibind (ignore (fs_remove_file tmp)) (\<lambda>_. throw (io_error p)))
        | Inr _ \<Rightarrow> ignore (fs_remove_file backup))))))"

definition replace_file :: "(path \<Rightarrow> 'e) \<Rightarrow> path \<Rightarrow> u8 list \<Rightarrow> ('e, unit) io" where
  "replace_file io_error p payload =
     (let tmp = append_suffix p ''.tmp'' in
      ibind (write_synced io_error tmp payload) (\<lambda>_.
      ibind (attempt (fs_rename tmp p)) (\<lambda>r.
      ibind (case r of Inl _ \<Rightarrow> replace_fallback io_error p | Inr _ \<Rightarrow> ret ()) (\<lambda>_.
      sync_parent p))))"

definition ensure_parent :: "(path \<Rightarrow> 'e) \<Rightarrow> path \<Rightarrow> ('e, unit) io" where
  "ensure_parent io_error p =
     do_if (butlast p \<noteq> []) (rethrow (\<lambda>_. io_error (butlast p)) (fs_create_dir_all (butlast p)))"

subsection \<open>Recovery\<close>

fun try_candidates ::
  "(path \<Rightarrow> u8 list \<Rightarrow> ('e, 'c) result) \<Rightarrow> (path \<Rightarrow> 'e) \<Rightarrow> path list \<Rightarrow> 'e option \<Rightarrow> ('e, 'c + 'e option) io" where
  "try_candidates parse io_error [] first_error = ret (Inr first_error)"
| "try_candidates parse io_error (candidate # rest) first_error =
     ibind (path_exists candidate) (\<lambda>there.
     if \<not> there then try_candidates parse io_error rest first_error
     else
       ibind (attempt (ibind (rethrow (\<lambda>_. io_error candidate) (fs_read candidate)) (\<lambda>b. lift (parse candidate b)))) (\<lambda>r.
       case r of
         Inr c \<Rightarrow> ret (Inl c)
       | Inl e \<Rightarrow> try_candidates parse io_error rest
                    (case first_error of None \<Rightarrow> Some e | Some x \<Rightarrow> Some x)))"

declare try_candidates.simps(2) [simp del]

definition load_recovering ::
  "(path \<Rightarrow> u8 list \<Rightarrow> ('e, 'c) result) \<Rightarrow> (path \<Rightarrow> 'e) \<Rightarrow> path \<Rightarrow> ('e, 'c + 'e option) io" where
  "load_recovering parse io_error p =
     try_candidates parse io_error [p, append_suffix p ''.tmp'', append_suffix p ''.bak''] None"

subsection \<open>What a run can leave behind\<close>

text \<open>
  \<open>runs m f Q E S\<close>: started on the file system \<open>f\<close> with any events, \<open>m\<close> ends in a file system that
  satisfies \<open>Q\<close> with the value if it returns, \<open>E\<close> with the error if it fails, and \<open>S\<close> if the process
  stops inside it.
\<close>

definition runs :: "('e, 'a) io \<Rightarrow> fs \<Rightarrow> ('a \<Rightarrow> fs \<Rightarrow> bool) \<Rightarrow> ('e \<Rightarrow> fs \<Rightarrow> bool) \<Rightarrow> (fs \<Rightarrow> bool) \<Rightarrow> bool" where
  "runs m f Q E S \<longleftrightarrow>
     (\<forall>w. files w = f \<longrightarrow>
        (case m w of (Done x, w') \<Rightarrow> Q x (files w') | (Err e, w') \<Rightarrow> E e (files w') | (Stopped, w') \<Rightarrow> S (files w')))"

lemma ibind_ret [simp]: "ibind (ret x) g = g x"
  by (simp add: ibind_def ret_def fun_eq_iff)

lemma ibind_throw [simp]: "ibind (throw e) g = throw e"
  by (simp add: ibind_def throw_def fun_eq_iff)

lemma lift_simps [simp]: "lift (Inr x) = ret x" "lift (Inl e) = throw e"
  by (simp_all add: lift_def)

lemma rethrow_simps [simp]: "rethrow h (ret x) = ret x" "rethrow h (throw e) = throw (h e)"
  by (simp_all add: rethrow_def attempt_def ibind_def ret_def throw_def fun_eq_iff)

named_theorems runs_intros "backward rules for runs"

lemma runsD:
  assumes "runs m (files w) Q E S" "m w = (r, w')"
  shows "case r of Done x \<Rightarrow> Q x (files w') | Err e \<Rightarrow> E e (files w') | Stopped \<Rightarrow> S (files w')"
  using assms by (auto simp: runs_def split: outcome.splits)

lemma runs_ret [simp]: "runs (ret x) f Q E S \<longleftrightarrow> Q x f"
  by (auto simp: runs_def ret_def intro: exI [of _ "\<lparr>files = f, events = []\<rparr>"])

lemma runs_throw [simp]: "runs (throw e) f Q E S \<longleftrightarrow> E e f"
  by (auto simp: runs_def throw_def intro: exI [of _ "\<lparr>files = f, events = []\<rparr>"])

lemma runs_lift [simp]: "runs (lift r) f Q E S \<longleftrightarrow> (case r of Inl e \<Rightarrow> E e f | Inr x \<Rightarrow> Q x f)"
  by (cases r) (simp_all add: lift_def)

lemma runs_exists [simp]: "runs (path_exists p) f Q E S \<longleftrightarrow> Q (node_exists f p) f"
  by (auto simp: runs_def path_exists_def intro: exI [of _ "\<lparr>files = f, events = []\<rparr>"])

lemma runs_ibind [runs_intros]:
  assumes "runs m f (\<lambda>x f'. runs (g x) f' Q E S) E S"
  shows "runs (ibind m g) f Q E S"
  unfolding runs_def
proof (intro allI impI)
  fix w :: world assume w: "files w = f"
  show "case ibind m g w of (Done x, w') \<Rightarrow> Q x (files w') | (Err e, w') \<Rightarrow> E e (files w') | (Stopped, w') \<Rightarrow> S (files w')"
  proof (cases "m w")
    case (Pair r w')
    show ?thesis using runsD [OF assms [folded w] Pair] Pair
      by (cases r) (auto simp: ibind_def runs_def split: outcome.splits)
  qed
qed

lemma runs_attempt [runs_intros]:
  assumes "runs m f (\<lambda>x. Q (Inr x)) (\<lambda>e. Q (Inl e)) S"
  shows "runs (attempt m) f Q E S"
  using assms by (force simp: runs_def attempt_def split: outcome.splits prod.splits)

lemma runs_rethrow [runs_intros]: "runs m f Q (\<lambda>e. E (h e)) S \<Longrightarrow> runs (rethrow h m) f Q E S"
  unfolding rethrow_def by (intro runs_intros) simp

lemma runs_ignore [runs_intros]: "runs m f (\<lambda>_. Q ()) (\<lambda>_. Q ()) S \<Longrightarrow> runs (ignore m) f Q E S"
  unfolding ignore_def by (intro runs_intros) simp

lemma runs_do_if [simp]: "runs (do_if b m) f Q E S \<longleftrightarrow> (if b then runs m f Q E S else Q () f)"
  by (simp add: do_if_def)

lemma runs_mono:
  assumes "runs m f Q' E' S'"
    and "\<And>x f. Q' x f \<Longrightarrow> Q x f" "\<And>e f. E' e f \<Longrightarrow> E e f" "\<And>f. S' f \<Longrightarrow> S f"
  shows "runs m f Q E S"
  using assms by (auto simp: runs_def split: outcome.splits prod.splits)

lemma runs_syscall [simp]:
  "runs (syscall partial act) f Q E S \<longleftrightarrow>
     (\<forall>n. E () (partial n f) \<and> S (partial n f)) \<and> (case act f of None \<Rightarrow> E () f | Some (x, f') \<Rightarrow> Q x f')"
proof
  assume r: "runs (syscall partial act) f Q E S"
  have "E () (partial n f)" for n
    using r [unfolded runs_def, rule_format, of "\<lparr>files = f, events = [Fail n]\<rparr>"] by (simp add: syscall_def)
  moreover have "S (partial n f)" for n
    using r [unfolded runs_def, rule_format, of "\<lparr>files = f, events = [Crash n]\<rparr>"] by (simp add: syscall_def)
  moreover have "case act f of None \<Rightarrow> E () f | Some (x, f') \<Rightarrow> Q x f'"
    using r [unfolded runs_def, rule_format, of "\<lparr>files = f, events = []\<rparr>"]
    by (auto simp: syscall_def split: option.splits)
  ultimately show "(\<forall>n. E () (partial n f) \<and> S (partial n f)) \<and> (case act f of None \<Rightarrow> E () f | Some (x, f') \<Rightarrow> Q x f')"
    by blast
next
  assume "(\<forall>n. E () (partial n f) \<and> S (partial n f)) \<and> (case act f of None \<Rightarrow> E () f | Some (x, f') \<Rightarrow> Q x f')"
  then show "runs (syscall partial act) f Q E S"
    by (auto simp: runs_def syscall_def Let_def split: list.splits io_event.splits option.splits)
qed

subsection \<open>Replacement survives crashes\<close>

abbreviation tmp_of :: "path \<Rightarrow> path" where "tmp_of p \<equiv> append_suffix p ''.tmp''"
abbreviation bak_of :: "path \<Rightarrow> path" where "bak_of p \<equiv> append_suffix p ''.bak''"

lemma suffix_distinct [simp]:
  assumes "p \<noteq> []"
  shows "tmp_of p \<noteq> p" "bak_of p \<noteq> p" "tmp_of p \<noteq> bak_of p" "p \<noteq> tmp_of p" "p \<noteq> bak_of p" "bak_of p \<noteq> tmp_of p"
proof -
  obtain q x where "p = q @ [x]" using assms by (cases p rule: rev_cases) auto
  then show "tmp_of p \<noteq> p" "bak_of p \<noteq> p" "tmp_of p \<noteq> bak_of p" "p \<noteq> tmp_of p" "p \<noteq> bak_of p" "bak_of p \<noteq> tmp_of p"
    by (auto simp: append_suffix_def)
qed

definition same_outside :: "path set \<Rightarrow> fs \<Rightarrow> fs \<Rightarrow> bool" where
  "same_outside A f g \<longleftrightarrow> (\<forall>q. q \<notin> A \<longrightarrow> g q = f q)"

lemma same_outside_refl [simp]: "same_outside A f f"
  by (simp add: same_outside_def)

lemma same_outside_upd [simp]: "p \<in> A \<Longrightarrow> same_outside A f (g(p := x)) \<longleftrightarrow> same_outside A f g"
  by (auto simp: same_outside_def)

lemma same_outside_trans: "same_outside A f g \<Longrightarrow> same_outside A g h \<Longrightarrow> same_outside A f h"
  by (simp add: same_outside_def)

lemma same_outside_mono: "same_outside A f g \<Longrightarrow> A \<subseteq> B \<Longrightarrow> same_outside B f g"
  by (auto simp: same_outside_def)

lemma write_at_outside [simp]: "p \<in> A \<Longrightarrow> same_outside A f (write_at p off d g) \<longleftrightarrow> same_outside A f g"
  by (simp add: write_at_def split: option.splits)

lemma write_at_other [simp]: "q \<noteq> p \<Longrightarrow> write_at p off d f q = f q"
  by (simp add: write_at_def split: option.splits)

lemma write_at_fresh [simp]: "f p = Some (File []) \<Longrightarrow> write_at p 0 d f p = Some (File d)"
  by (simp add: write_at_def overwrite_def)

definition control_files :: "path \<Rightarrow> path set" where
  "control_files p = {p, tmp_of p, bak_of p}"

lemma control_files_mem [simp]: "p \<in> control_files p" "tmp_of p \<in> control_files p" "bak_of p \<in> control_files p"
  by (simp_all add: control_files_def)

text \<open>The content a recovery finds: the first of the three candidates that parses.\<close>

definition candidate_value :: "(path \<Rightarrow> u8 list \<Rightarrow> ('e, 'c) result) \<Rightarrow> fs \<Rightarrow> path \<Rightarrow> 'c option" where
  "candidate_value parse f p = Option.bind (file_data (f p)) (\<lambda>b. ok (parse p b))"

definition recovered :: "(path \<Rightarrow> u8 list \<Rightarrow> ('e, 'c) result) \<Rightarrow> fs \<Rightarrow> path \<Rightarrow> 'c option" where
  "recovered parse f p =
     (case candidate_value parse f p of Some c \<Rightarrow> Some c
      | None \<Rightarrow> (case candidate_value parse f (tmp_of p) of Some c \<Rightarrow> Some c
                | None \<Rightarrow> candidate_value parse f (bak_of p)))"

lemmas io_defs = ibind_def attempt_def rethrow_def lift_def ret_def throw_def path_exists_def syscall_def Let_def


abbreviation quiet :: "fs \<Rightarrow> world" where "quiet f \<equiv> \<lparr>files = f, events = []\<rparr>"

lemma read_candidate_quiet:
  "attempt (ibind (rethrow (\<lambda>_. io_error q) (fs_read q)) (\<lambda>b. lift (parse q b))) (quiet f) =
     (Done (case file_data (f q) of None \<Rightarrow> Inl (io_error q) | Some b \<Rightarrow> parse q b), quiet f)"
  by (auto simp: io_defs fs_read_def split: option.splits sum.splits)

text \<open>Without interference, recovery returns the recovered content, and reports no file exactly when
  none of the candidates exists.\<close>

lemma try_candidates_quiet:
  "\<exists>r. try_candidates parse io_error ps e (quiet f) = (Done r, quiet f)
     \<and> (case r of
          Inl c \<Rightarrow> \<exists>q us vs. ps = us @ q # vs \<and> candidate_value parse f q = Some c \<and> (\<forall>u \<in> set us. candidate_value parse f u = None)
        | Inr x \<Rightarrow> (\<forall>q \<in> set ps. candidate_value parse f q = None)
            \<and> (x = None \<longleftrightarrow> e = None \<and> (\<forall>q \<in> set ps. \<not> node_exists f q)))"
proof (induction ps arbitrary: e)
  case Nil
  then show ?case by (simp add: ret_def)
next
  case (Cons q ps)
  let ?r = "case file_data (f q) of None \<Rightarrow> Inl (io_error q) | Some b \<Rightarrow> parse q b"
  have step: "try_candidates parse io_error (q # ps) e (quiet f) =
      (if \<not> node_exists f q then try_candidates parse io_error ps e (quiet f)
       else case ?r of
           Inr c \<Rightarrow> (Done (Inl c), quiet f)
         | Inl x \<Rightarrow> try_candidates parse io_error ps (case e of None \<Rightarrow> Some x | Some y \<Rightarrow> Some y) (quiet f))"
    unfolding try_candidates.simps(2) ibind_def [of "path_exists q"] path_exists_def
    by (auto simp: ibind_def [of "attempt _"] read_candidate_quiet ret_def split: sum.splits)
  have miss: "\<not> node_exists f q \<Longrightarrow> candidate_value parse f q = None"
    by (auto simp: node_exists_def candidate_value_def split: option.splits node.splits)
  show ?case
  proof (cases "candidate_value parse f q")
    case (Some c)
    then have "node_exists f q" using miss by fastforce
    moreover have "?r = Inr c" using Some by (auto simp: candidate_value_def bind_eq_Some_conv)
    moreover have "\<exists>q' us vs. q # ps = us @ q' # vs \<and> candidate_value parse f q' = Some c \<and> (\<forall>u \<in> set us. candidate_value parse f u = None)"
      using Some by (intro exI [of _ q] exI [of _ "[]"] exI [of _ ps]) simp
    ultimately show ?thesis using step by (intro exI [of _ "Inl c"]) simp
  next
    case None
    obtain e' where e': "try_candidates parse io_error (q # ps) e (quiet f) = try_candidates parse io_error ps e' (quiet f)"
      "e' = None \<longleftrightarrow> e = None \<and> \<not> node_exists f q"
      using step None by (cases "node_exists f q"; cases "?r") (auto simp: candidate_value_def split: option.splits)
    from Cons [of e'] obtain r where r: "try_candidates parse io_error ps e' (quiet f) = (Done r, quiet f)"
      "case r of
          Inl c \<Rightarrow> \<exists>q us vs. ps = us @ q # vs \<and> candidate_value parse f q = Some c \<and> (\<forall>u \<in> set us. candidate_value parse f u = None)
        | Inr x \<Rightarrow> (\<forall>q \<in> set ps. candidate_value parse f q = None)
            \<and> (x = None \<longleftrightarrow> e' = None \<and> (\<forall>q \<in> set ps. \<not> node_exists f q))" by blast
    show ?thesis
    proof (cases r)
      case (Inl c)
      then obtain q' us vs where "ps = us @ q' # vs" "candidate_value parse f q' = Some c" "\<forall>u \<in> set us. candidate_value parse f u = None"
        using r(2) by auto
      then have "\<exists>q' us' vs. q # ps = us' @ q' # vs \<and> candidate_value parse f q' = Some c \<and> (\<forall>u \<in> set us'. candidate_value parse f u = None)"
        using None by (intro exI [of _ q'] exI [of _ "q # us"] exI [of _ vs]) simp
      with Inl r(1) e'(1) show ?thesis by (intro exI [of _ "Inl c"]) simp
    next
      case (Inr x)
      with r e' None show ?thesis by (intro exI [of _ "Inr x"]) auto
    qed
  qed
qed

lemma load_recovering_quiet:
  obtains x where "load_recovering parse io_error p (quiet f) =
      (Done (case recovered parse f p of Some c \<Rightarrow> Inl c | None \<Rightarrow> Inr x), quiet f)"
    "recovered parse f p = None \<Longrightarrow>
       x = None \<longleftrightarrow> \<not> node_exists f p \<and> \<not> node_exists f (tmp_of p) \<and> \<not> node_exists f (bak_of p)"
proof -
  define ps where "ps = [p, tmp_of p, bak_of p]"
  from try_candidates_quiet [of parse io_error ps None f, unfolded simp_thms]
  obtain r where r: "try_candidates parse io_error ps None (quiet f) = (Done r, quiet f)"
     "case r of
          Inl c \<Rightarrow> \<exists>q us vs. ps = us @ q # vs \<and> candidate_value parse f q = Some c \<and> (\<forall>u \<in> set us. candidate_value parse f u = None)
        | Inr x \<Rightarrow> (\<forall>q \<in> set ps. candidate_value parse f q = None)
            \<and> (x = None \<longleftrightarrow> (\<forall>q \<in> set ps. \<not> node_exists f q))" by blast
  show ?thesis
  proof (cases r)
    case (Inl c)
    then obtain q us vs where q: "ps = us @ q # vs" "candidate_value parse f q = Some c" "\<forall>u \<in> set us. candidate_value parse f u = None"
      using r(2) by auto
    then have "recovered parse f p = Some c"
      by (auto simp: ps_def recovered_def Cons_eq_append_conv split: option.splits)
    with Inl r(1) that show ?thesis by (simp add: load_recovering_def ps_def)
  next
    case (Inr x)
    with r that [of x] show ?thesis by (simp add: load_recovering_def recovered_def ps_def)
  qed
qed

text \<open>The states replacement moves through: the old content in place, or moved to the backup while
  the new one is complete in the temporary file, or the new one in place.\<close>

definition old_in_place :: "fs \<Rightarrow> path \<Rightarrow> u8 list \<Rightarrow> fs \<Rightarrow> bool" where
  "old_in_place f0 p old f \<longleftrightarrow> f p = Some (File old) \<and> same_outside (control_files p) f0 f"

definition new_in_place :: "fs \<Rightarrow> path \<Rightarrow> u8 list \<Rightarrow> fs \<Rightarrow> bool" where
  "new_in_place f0 p new f \<longleftrightarrow> f p = Some (File new) \<and> same_outside (control_files p) f0 f"

definition between :: "fs \<Rightarrow> path \<Rightarrow> u8 list \<Rightarrow> u8 list \<Rightarrow> fs \<Rightarrow> bool" where
  "between f0 p old new f \<longleftrightarrow>
     f p = None \<and> (f (tmp_of p) = Some (File new) \<or> f (tmp_of p) = None \<and> f (bak_of p) = Some (File old))
     \<and> same_outside (control_files p) f0 f"

definition replacing :: "fs \<Rightarrow> path \<Rightarrow> u8 list \<Rightarrow> u8 list \<Rightarrow> fs \<Rightarrow> bool" where
  "replacing f0 p old new f \<longleftrightarrow> old_in_place f0 p old f \<or> new_in_place f0 p new f \<or> between f0 p old new f"

lemmas replacing_defs = replacing_def old_in_place_def new_in_place_def between_def

lemma write_synced_runs:
  assumes "p \<noteq> []" "old_in_place f0 p old f"
  shows "runs (write_synced io_error (tmp_of p) payload) f
    (\<lambda>_ g. old_in_place f0 p old g \<and> g (tmp_of p) = Some (File payload)) (\<lambda>_. old_in_place f0 p old) (old_in_place f0 p old)"
  unfolding write_synced_def fs_open_truncate_def fs_write_all_def fs_sync_def
  using assms by (intro runs_intros) (auto simp: old_in_place_def intro!: runs_intros split: option.splits)

lemma replace_fallback_runs:
  assumes "p \<noteq> []" "old_in_place f0 p old f" "f (tmp_of p) = Some (File new)"
  shows "runs (replace_fallback io_error p) f (\<lambda>_. new_in_place f0 p new) (\<lambda>_. replacing f0 p old new) (replacing f0 p old new)"
proof -
  have there: "node_exists f p" using assms(2) by (simp add: old_in_place_def node_exists_def)
  show ?thesis
    unfolding replace_fallback_def Let_def fs_remove_file_def fs_rename_def
    using assms there
    by (intro runs_intros)
      (auto simp: replacing_defs intro!: runs_intros split: option.splits node.splits sum.splits if_splits)
qed

lemma sync_parent_runs: "Q f \<Longrightarrow> S f \<Longrightarrow> runs (sync_parent p) f (\<lambda>_. Q) E S"
  by (auto simp: sync_parent_def fs_sync_def intro!: runs_ignore)

lemma replace_file_runs:
  assumes "p \<noteq> []" "old_in_place f0 p old f"
  shows "runs (replace_file io_error p new) f (\<lambda>_. new_in_place f0 p new) (\<lambda>_. replacing f0 p old new) (replacing f0 p old new)"
  unfolding replace_file_def Let_def
proof (rule runs_ibind, rule runs_mono [OF write_synced_runs [OF assms]])
  fix g assume g: "old_in_place f0 p old g \<and> g (tmp_of p) = Some (File new)"
  show "runs (ibind (attempt (fs_rename (tmp_of p) p)) (\<lambda>r.
      ibind (case r of Inl _ \<Rightarrow> replace_fallback io_error p | Inr _ \<Rightarrow> ret ()) (\<lambda>_. sync_parent p))) g
    (\<lambda>_. new_in_place f0 p new) (\<lambda>_. replacing f0 p old new) (replacing f0 p old new)"
  proof (rule runs_ibind, rule runs_attempt)
    have fb: "runs (ibind (replace_fallback io_error p) (\<lambda>_. sync_parent p)) g
        (\<lambda>_. new_in_place f0 p new) (\<lambda>_. replacing f0 p old new) (replacing f0 p old new)"
      using g by (intro runs_ibind runs_mono [OF replace_fallback_runs [OF assms(1)]] sync_parent_runs)
        (auto simp: replacing_def)
    have plain: "new_in_place f0 p new (g(tmp_of p := None, p := Some (File new)))"
      using g assms(1) by (simp add: replacing_defs)
    show "runs (fs_rename (tmp_of p) p) g
        (\<lambda>x f'. runs (ibind (case Inr x of Inl _ \<Rightarrow> replace_fallback io_error p | Inr _ \<Rightarrow> ret ()) (\<lambda>_. sync_parent p)) f'
          (\<lambda>_. new_in_place f0 p new) (\<lambda>_. replacing f0 p old new) (replacing f0 p old new))
        (\<lambda>e f'. runs (ibind (case Inl e of Inl _ \<Rightarrow> replace_fallback io_error p | Inr _ \<Rightarrow> ret ()) (\<lambda>_. sync_parent p)) f'
          (\<lambda>_. new_in_place f0 p new) (\<lambda>_. replacing f0 p old new) (replacing f0 p old new))
        (replacing f0 p old new)"
      using fb plain g by (simp add: fs_rename_def replacing_def sync_parent_runs)
  qed
qed (simp_all add: replacing_def)

text \<open>Whatever was there before, replacement touches only the control files.\<close>

lemma replace_file_frame:
  assumes "p \<noteq> []" "same_outside (control_files p) f0 f"
  shows "runs (replace_file io_error p new) f (\<lambda>_. same_outside (control_files p) f0)
    (\<lambda>_. same_outside (control_files p) f0) (same_outside (control_files p) f0)"
proof -
  let ?I = "same_outside (control_files p) f0"
  have ren: "runs (fs_rename a b) g (\<lambda>_. ?I) (\<lambda>_. ?I) ?I" if "?I g" "a \<in> control_files p" "b \<in> control_files p" for a b g
    using that by (auto simp: fs_rename_def split: option.splits node.splits)
  have rm: "runs (fs_remove_file a) g (\<lambda>_. ?I) (\<lambda>_. ?I) ?I" if "?I g" "a \<in> control_files p" for a g
    using that by (auto simp: fs_remove_file_def split: option.splits node.splits)
  have fb: "runs (replace_fallback io_error p) g (\<lambda>_. ?I) (\<lambda>_. ?I) ?I" if "?I g" for g
    unfolding replace_fallback_def Let_def using that
    by (intro runs_intros)
      (auto intro!: runs_intros runs_mono [OF rm] runs_mono [OF ren] split: sum.splits)
  have ws: "runs (write_synced io_error (tmp_of p) new) f (\<lambda>_. ?I) (\<lambda>_. ?I) ?I"
    unfolding write_synced_def fs_open_truncate_def fs_write_all_def fs_sync_def
    using assms by (intro runs_intros) (auto intro!: runs_intros split: option.splits)
  show ?thesis
    unfolding replace_file_def Let_def
    by (intro runs_ibind runs_mono [OF ws] runs_attempt runs_mono [OF ren])
      (auto intro!: runs_mono [OF fb] sync_parent_runs)
qed

lemma take_exists [simp]: "\<exists>n. xs = take n xs" "\<exists>n. take k xs = take n xs" "\<exists>n. [] = take n xs" "\<exists>n. xs = [] \<or> n = 0"
  by (auto intro: exI [of _ "length xs"] exI [of _ 0])

text \<open>Replacing a file that was not there before: what is left is nothing, a temporary file with
  a beginning of the new content, or the new file.\<close>

definition first_save :: "fs \<Rightarrow> path \<Rightarrow> u8 list \<Rightarrow> fs \<Rightarrow> bool" where
  "first_save f0 p new f \<longleftrightarrow>
     same_outside (control_files p) f0 f \<and> f (bak_of p) = f0 (bak_of p)
     \<and> (f p = Some (File new) \<and> f (tmp_of p) = None
        \<or> f p = None \<and> (f (tmp_of p) = f0 (tmp_of p) \<or> f (tmp_of p) = None \<or> (\<exists>n. f (tmp_of p) = Some (File (take n new)))))"

lemma first_save_runs:
  assumes "p \<noteq> []" "f p = None"
  shows "runs (replace_file io_error p new) f (\<lambda>_ g. first_save f p new g \<and> g p = Some (File new)) (\<lambda>_. first_save f p new) (first_save f p new)"
proof -
  have w: "runs (write_synced io_error (tmp_of p) new) f
      (\<lambda>_ g. same_outside {tmp_of p} f g \<and> g (tmp_of p) = Some (File new)) (\<lambda>_. first_save f p new) (first_save f p new)"
    unfolding write_synced_def fs_open_truncate_def fs_write_all_def fs_sync_def
    using assms
    by (intro runs_intros)
      (auto simp: first_save_def intro!: runs_intros split: option.splits)
  show ?thesis
    unfolding replace_file_def Let_def
  proof (rule runs_ibind, rule runs_mono [OF w])
    fix g assume g: "same_outside {tmp_of p} f g \<and> g (tmp_of p) = Some (File new)"
    then have gp: "g p = None" "g (bak_of p) = f (bak_of p)" "same_outside (control_files p) f g"
      using assms by (auto simp: same_outside_def control_files_def)
    then show "runs (ibind (attempt (fs_rename (tmp_of p) p)) (\<lambda>r.
        ibind (case r of Inl _ \<Rightarrow> replace_fallback io_error p | Inr _ \<Rightarrow> ret ()) (\<lambda>_. sync_parent p))) g
      (\<lambda>_ g. first_save f p new g \<and> g p = Some (File new)) (\<lambda>_. first_save f p new) (first_save f p new)"
      using assms g unfolding fs_rename_def replace_fallback_def fs_remove_file_def Let_def
      by (intro runs_intros)
        (auto simp: first_save_def node_exists_def sync_parent_runs intro!: runs_intros split: option.splits)
  qed simp_all
qed

text \<open>Creating the parent directories only fills in missing ancestors.\<close>

definition made_dirs :: "path \<Rightarrow> fs \<Rightarrow> fs \<Rightarrow> bool" where
  "made_dirs p f g \<longleftrightarrow>
     (\<forall>q. g q = f q \<or> f q = None \<and> g q = Some Directory \<and> length q < length p)"

lemma made_dirs_refl [simp]: "made_dirs p f f"
  by (simp add: made_dirs_def)

lemma made_dirs_trans: "made_dirs p f g \<Longrightarrow> made_dirs p g h \<Longrightarrow> made_dirs p f h"
  unfolding made_dirs_def by metis

lemma made_dirs_keeps: "made_dirs p f g \<Longrightarrow> f q = Some n \<or> length p \<le> length q \<Longrightarrow> g q = f q"
  unfolding made_dirs_def by (metis leD option.distinct(1))

lemma length_append_suffix [simp]: "p \<noteq> [] \<Longrightarrow> length (append_suffix p s) = length p"
  by (simp add: append_suffix_def)

lemma each_runs:
  assumes "\<And>x f. x \<in> set xs \<Longrightarrow> I f \<Longrightarrow> runs (h x) f (\<lambda>_. I) (\<lambda>_. I) I" "I f"
  shows "runs (each h xs) f (\<lambda>_. I) (\<lambda>_. I) I"
  using assms
proof (induction xs arbitrary: f)
  case (Cons x xs)
  have "runs (h x) f (\<lambda>_. I) (\<lambda>_. I) I" using Cons.prems by simp
  then have "runs (h x) f (\<lambda>_ g. runs (each h xs) g (\<lambda>_. I) (\<lambda>_. I) I) (\<lambda>_. I) I"
    by (rule runs_mono) (use Cons in auto)
  then show ?case by (auto intro: runs_ibind)
qed simp

lemma ensure_parent_runs:
  "runs (ensure_parent io_error p) f (\<lambda>_. made_dirs p f) (\<lambda>_. made_dirs p f) (made_dirs p f)"
proof -
  have "runs (fs_create_dir q) g (\<lambda>_. made_dirs p f) (\<lambda>_. made_dirs p f) (made_dirs p f)"
    if "length q < length p" "made_dirs p f g" for q g
    using that by (auto simp: fs_create_dir_def made_dirs_def dest: spec [of _ q])
  then show ?thesis
    unfolding ensure_parent_def fs_create_dir_all_def
    by (auto intro!: runs_rethrow each_runs runs_ibind)
qed

subsection \<open>The contract of a recoverable record\<close>

text \<open>
  A control file's format: what it writes it reads back, a beginning of what it writes is never
  read as something else, and the path of the file it was found in shows only in errors. That is all
  that replacement and recovery need.
\<close>

locale recoverable =
  fixes parse :: "path \<Rightarrow> u8 list \<Rightarrow> ('e, 'c) result"
    and encode :: "'c \<Rightarrow> u8 list"
    and wf :: "'c \<Rightarrow> bool"
  assumes parse_encode: "wf c \<Longrightarrow> parse q (encode c) = Inr c"
    and parse_prefix: "wf c \<Longrightarrow> parse q (take n (encode c)) = Inr d \<Longrightarrow> d = c"
    and parse_anywhere: "parse q x = Inr c \<Longrightarrow> parse q' x = Inr c"
begin

lemma replacing_recovered:
  assumes "replacing f0 p old (encode c) f" "wf c" "parse q old = Inr b"
  shows "recovered parse f p = Some b \<or> recovered parse f p = Some c"
  using assms(1,2) parse_anywhere [OF assms(3)] by (auto simp: replacing_defs recovered_def candidate_value_def parse_encode)

lemma replace_recovered:
  assumes "p \<noteq> []" "files w p = Some (File old)" "parse q old = Inr b" "wf c"
    and "replace_file io_error p (encode c) w = (r, w')"
  shows "recovered parse (files w') p = Some b \<or> recovered parse (files w') p = Some c"
    and "r = Done u \<Longrightarrow> recovered parse (files w') p = Some c"
    and "same_outside (control_files p) (files w) (files w')"
proof -
  have "old_in_place (files w) p old (files w)" using assms(2) by (simp add: old_in_place_def)
  note post = runsD [OF replace_file_runs [OF assms(1) this] assms(5)]
  then have rep: "replacing (files w) p old (encode c) (files w')"
    by (cases r) (auto simp: replacing_def)
  then show "recovered parse (files w') p = Some b \<or> recovered parse (files w') p = Some c"
    by (rule replacing_recovered) fact+
  show "same_outside (control_files p) (files w) (files w')" using rep by (auto simp: replacing_defs)
  show "recovered parse (files w') p = Some c" if "r = Done u"
    using post that assms(4) by (simp add: new_in_place_def recovered_def candidate_value_def parse_encode)
qed

lemma save_recovered:
  assumes "p \<noteq> []" "files w p = Some (File old)" "parse q old = Inr b" "wf c"
    and "ibind (ensure_parent io_error p) (\<lambda>_. replace_file io_error p (encode c)) w = (r, w')"
  shows "recovered parse (files w') p = Some b \<or> recovered parse (files w') p = Some c"
    and "r = Done u \<Longrightarrow> recovered parse (files w') p = Some c"
    and "x \<notin> control_files p \<Longrightarrow> files w' x = files w x \<or> files w x = None \<and> files w' x = Some Directory"
proof -
  obtain r1 w1 where e: "ensure_parent io_error p w = (r1, w1)" by (cases "ensure_parent io_error p w")
  have made: "made_dirs p (files w) (files w1)"
    using runsD [OF ensure_parent_runs e] by (cases r1) simp_all
  have p1: "files w1 p = Some (File old)" using made_dirs_keeps [OF made, of p] assms(2) by simp
  have stop: "recovered parse (files w1) p = Some b"
    using p1 parse_anywhere [OF assms(3)] by (simp add: recovered_def candidate_value_def)
  have other: "files w1 x = files w x \<or> files w x = None \<and> files w1 x = Some Directory" for x
    using made by (auto simp: made_dirs_def)
  consider (go) "r1 = Done ()" "replace_file io_error p (encode c) w1 = (r, w')" | (cut_off) "w' = w1" "\<forall>u. r \<noteq> Done u"
    using assms(5) e by (cases r1) (auto simp: ibind_def)
  then have "(recovered parse (files w') p = Some b \<or> recovered parse (files w') p = Some c)
    \<and> (r = Done u \<longrightarrow> recovered parse (files w') p = Some c)
    \<and> (x \<notin> control_files p \<longrightarrow> files w' x = files w1 x)"
  proof cases
    case go
    note rr = replace_recovered [OF assms(1) p1 assms(3,4) go(2)]
    show ?thesis using rr(1,2,3) by (auto simp: same_outside_def)
  qed (use stop in auto)
  then show "recovered parse (files w') p = Some b \<or> recovered parse (files w') p = Some c"
    and "r = Done u \<Longrightarrow> recovered parse (files w') p = Some c"
    and "x \<notin> control_files p \<Longrightarrow> files w' x = files w x \<or> files w x = None \<and> files w' x = Some Directory"
    using other [of x] by auto
qed

lemma first_recovered:
  assumes "p \<noteq> []" "files w p = None" "files w (tmp_of p) = None" "files w (bak_of p) = None" "wf c"
    and "replace_file io_error p (encode c) w = (r, w')"
  shows "recovered parse (files w') p = None \<or> recovered parse (files w') p = Some c"
    and "r = Done u \<Longrightarrow> recovered parse (files w') p = Some c"
    and "same_outside (control_files p) (files w) (files w')"
proof -
  note post = runsD [OF first_save_runs [of p "files w", OF assms(1,2)] assms(6)]
  then have fs: "first_save (files w) p (encode c) (files w')" by (cases r) auto
  show "recovered parse (files w') p = None \<or> recovered parse (files w') p = Some c"
    using fs assms(3-5) parse_prefix [OF assms(5)]
    by (auto simp: first_save_def recovered_def candidate_value_def parse_encode bind_eq_Some_conv split: option.splits)
  show "same_outside (control_files p) (files w) (files w')" using fs by (simp add: first_save_def)
  show "recovered parse (files w') p = Some c" if "r = Done u"
    using post that assms(5) by (simp add: recovered_def candidate_value_def parse_encode)
qed

end

end
