(* ===== verification/Resume.thy ===== *)
theory Resume
  imports Selection Bitfield Files
begin

text \<open>
  \<open>crates/nova-torrent-core/src/resume.rs\<close>: the piece bitmap, the resume checkpoint with its text
  format, and its replacement and recovery on disk. The checkpoint format is shown to meet the
  contract of theory \<open>Files\<close>, so that a crash at any point of a save loses at most that save.
\<close>

unbundle bit_operations_syntax

definition RESUME_FORMAT_VERSION :: nat where "RESUME_FORMAT_VERSION = 2"
definition RESUME_MAGIC :: str where "RESUME_MAGIC = lit ''NOVA-TORRENT-RESUME-2''"

datatype resume_fault = BadMagic | BadLine str | DuplicateField str | BadPriority | OddHex | BadHex

datatype ResumeError =
    UnsupportedVersion nat
  | InfoHashMismatch
  | GeometryMismatch
  | FileCountMismatch nat nat
  | BitmapLengthMismatch nat nat
  | BitmapPaddingSet
  | PieceOutOfRange nat nat
  | GenerationOverflow
  | MissingField string
  | InvalidField string
  | InvalidFormat resume_fault
  | InvalidSelection SelectionError
  | Io path

subsection \<open>Bitmaps\<close>

record piece_bitmap =
  bm_piece_count :: nat
  bm_bytes :: "u8 list"

definition bitmap_new :: "nat \<Rightarrow> piece_bitmap" where
  "bitmap_new n = \<lparr>bm_piece_count = n, bm_bytes = replicate (div_ceil n 8) 0\<rparr>"

definition bitmap_from_bytes :: "nat \<Rightarrow> u8 list \<Rightarrow> (ResumeError, piece_bitmap) result" where
  "bitmap_from_bytes n bytes =
     (let expected = div_ceil n 8 in
      if length bytes \<noteq> expected then Inl (BitmapLengthMismatch expected (length bytes))
      else if n \<noteq> 0 \<and> bytes \<noteq> [] \<and> n mod 8 \<noteq> 0 \<and> last bytes AND unused_mask (n mod 8) \<noteq> 0
      then Inl BitmapPaddingSet
      else Inr \<lparr>bm_piece_count = n, bm_bytes = bytes\<rparr>)"

definition bitmap_validate :: "piece_bitmap \<Rightarrow> nat \<Rightarrow> (ResumeError, unit) result" where
  "bitmap_validate b i = guard (bm_piece_count b \<le> i) (ResumeError.PieceOutOfRange i (bm_piece_count b))"

definition bitmap_is_set :: "piece_bitmap \<Rightarrow> nat \<Rightarrow> (ResumeError, bool) result" where
  "bitmap_is_set b i = rbind (bitmap_validate b i) (\<lambda>_. Inr (bit_is_set (bm_bytes b) i))"

definition bitmap_set :: "piece_bitmap \<Rightarrow> nat \<Rightarrow> bool \<Rightarrow> (ResumeError, piece_bitmap) result" where
  "bitmap_set b i v = rbind (bitmap_validate b i) (\<lambda>_. Inr (b\<lparr>bm_bytes := put_bit (bm_bytes b) i v\<rparr>))"

definition unwrap_or_false :: "(ResumeError, bool) result \<Rightarrow> bool" where
  "unwrap_or_false r = (case r of Inl _ \<Rightarrow> False | Inr v \<Rightarrow> v)"

definition bitmap_count_set :: "piece_bitmap \<Rightarrow> nat" where
  "bitmap_count_set b = length (filter (\<lambda>i. unwrap_or_false (bitmap_is_set b i)) [0..<bm_piece_count b])"

definition bitmap_to_bools :: "piece_bitmap \<Rightarrow> bool list" where
  "bitmap_to_bools b = map (\<lambda>i. unwrap_or_false (bitmap_is_set b i)) [0..<bm_piece_count b]"

subsection \<open>Checkpoints\<close>

record checkpoint =
  c_version :: nat
  c_info_hash :: info_hash
  c_total_length :: nat
  c_piece_length :: nat
  c_piece_count :: nat
  c_file_count :: nat
  c_generation :: nat
  c_priorities :: "FilePriority list"
  c_owned_files :: piece_bitmap
  c_verified :: piece_bitmap
  c_boundary_cache :: piece_bitmap

definition checkpoint_new :: "torrent_metainfo \<Rightarrow> torrent_selection \<Rightarrow> (ResumeError, checkpoint) result" where
  "checkpoint_new m sel =
     (if length (priorities sel) \<noteq> length (m_files m)
      then Inl (ResumeError.FileCountMismatch (length (m_files m)) (length (priorities sel)))
      else Inr \<lparr>c_version = RESUME_FORMAT_VERSION, c_info_hash = m_info_hash m,
        c_total_length = m_total_length m, c_piece_length = m_piece_length m,
        c_piece_count = piece_count m, c_file_count = length (m_files m), c_generation = 0,
        c_priorities = priorities sel, c_owned_files = bitmap_new (length (m_files m)),
        c_verified = bitmap_new (piece_count m), c_boundary_cache = bitmap_new (piece_count m)\<rparr>)"

definition validate_against :: "checkpoint \<Rightarrow> torrent_metainfo \<Rightarrow> (ResumeError, unit) result" where
  "validate_against c m =
     (if c_version c \<noteq> RESUME_FORMAT_VERSION then Inl (UnsupportedVersion (c_version c))
      else if c_info_hash c \<noteq> m_info_hash m then Inl InfoHashMismatch
      else if c_total_length c \<noteq> m_total_length m \<or> c_piece_length c \<noteq> m_piece_length m
        \<or> c_piece_count c \<noteq> piece_count m then Inl GeometryMismatch
      else if c_file_count c \<noteq> length (m_files m) \<or> length (c_priorities c) \<noteq> length (m_files m)
      then Inl (ResumeError.FileCountMismatch (length (m_files m)) (length (c_priorities c)))
      else if bm_piece_count (c_owned_files c) \<noteq> length (m_files m)
        \<or> bm_piece_count (c_verified c) \<noteq> piece_count m
        \<or> bm_piece_count (c_boundary_cache c) \<noteq> piece_count m then Inl GeometryMismatch
      else Inr ())"

definition checkpoint_selection ::
  "checkpoint \<Rightarrow> torrent_metainfo \<Rightarrow> (ResumeError, torrent_selection) result" where
  "checkpoint_selection c m =
     rbind (validate_against c m) (\<lambda>_. map_err InvalidSelection (selection_new m (c_priorities c)))"

definition next_generation :: "checkpoint \<Rightarrow> (ResumeError, checkpoint) result" where
  "next_generation c =
     rbind (ok_or GenerationOverflow (checked_add64 (c_generation c) 1)) (\<lambda>g. Inr (c\<lparr>c_generation := g\<rparr>))"

subsection \<open>Text format\<close>

definition encode_hex :: "u8 list \<Rightarrow> str" where
  "encode_hex bytes = concat (map (\<lambda>b. [HEX ! unat (drop_bit 4 b), HEX ! unat (b AND 0x0f)]) bytes)"

definition resume_hex_nibble :: "u8 \<Rightarrow> u8 option" where
  "resume_hex_nibble value =
     (if 0x30 \<le> value \<and> value \<le> 0x39 then Some (value - 0x30)
      else if 0x61 \<le> value \<and> value \<le> 0x66 then Some (value - 0x61 + 10)
      else if 0x41 \<le> value \<and> value \<le> 0x46 then Some (value - 0x41 + 10)
      else None)"

definition decode_hex_pair :: "u8 list \<Rightarrow> (ResumeError, u8) result" where
  "decode_hex_pair pair =
     rbind (ok_or (InvalidFormat BadHex) (resume_hex_nibble (pair ! 0))) (\<lambda>high.
     rbind (ok_or (InvalidFormat BadHex) (resume_hex_nibble (pair ! 1))) (\<lambda>low.
     Inr (push_bit 4 high OR low)))"

definition decode_hex :: "str \<Rightarrow> (ResumeError, u8 list) result" where
  "decode_hex value =
     (if length value mod 2 \<noteq> 0 then Inl (InvalidFormat OddHex)
      else mapM_r decode_hex_pair (chunks_exact 2 value))"

fun priority_char :: "FilePriority \<Rightarrow> u8" where
  "priority_char Skip = 0x30"
| "priority_char Normal = 0x31"
| "priority_char High = 0x32"

definition char_priority :: "u8 \<Rightarrow> (ResumeError, FilePriority) result" where
  "char_priority b =
     (if b = 0x30 then Inr Skip else if b = 0x31 then Inr Normal else if b = 0x32 then Inr High
      else Inl (InvalidFormat BadPriority))"

definition checkpoint_fields :: "checkpoint \<Rightarrow> (string \<times> str) list" where
  "checkpoint_fields c =
     [(''version'', nat_to_dec (c_version c)), (''info_hash'', to_hex (c_info_hash c)),
      (''total_length'', nat_to_dec (c_total_length c)), (''piece_length'', nat_to_dec (c_piece_length c)),
      (''piece_count'', nat_to_dec (c_piece_count c)), (''file_count'', nat_to_dec (c_file_count c)),
      (''generation'', nat_to_dec (c_generation c)), (''priorities'', map priority_char (c_priorities c)),
      (''owned_files'', encode_hex (bm_bytes (c_owned_files c))),
      (''verified'', encode_hex (bm_bytes (c_verified c))),
      (''boundary_cache'', encode_hex (bm_bytes (c_boundary_cache c)))]"

definition field_line :: "string \<times> str \<Rightarrow> str" where
  "field_line kv = lit (fst kv) @ [0x3d] @ snd kv"

definition checkpoint_encode :: "checkpoint \<Rightarrow> str" where
  "checkpoint_encode c =
     RESUME_MAGIC @ [0x0a] @ concat (map (\<lambda>kv. field_line kv @ [0x0a]) (checkpoint_fields c))"

fun fields_loop :: "(str \<Rightarrow> str option) \<Rightarrow> str list \<Rightarrow> (ResumeError, str \<Rightarrow> str option) result" where
  "fields_loop flds [] = Inr flds"
| "fields_loop flds (line # rest) =
     (if line = [] then fields_loop flds rest
      else rbind (ok_or (InvalidFormat (BadLine line)) (split_once 0x3d line)) (\<lambda>(key, value).
        if flds key \<noteq> None then Inl (InvalidFormat (DuplicateField key))
        else fields_loop (flds(key \<mapsto> value)) rest))"

definition required :: "(str \<Rightarrow> str option) \<Rightarrow> string \<Rightarrow> (ResumeError, str) result" where
  "required flds key = ok_or (MissingField key) (flds (lit key))"

definition parse_field :: "nat \<Rightarrow> (str \<Rightarrow> str option) \<Rightarrow> string \<Rightarrow> (ResumeError, nat) result" where
  "parse_field limit flds key =
     rbind (required flds key) (\<lambda>s. ok_or (InvalidField key) (parse_unsigned limit s))"

definition decode_info_hash :: "str \<Rightarrow> (ResumeError, info_hash) result" where
  "decode_info_hash value =
     rbind (decode_hex value) (\<lambda>bytes. if length bytes \<noteq> 20 then Inl (InvalidField ''info_hash'') else Inr bytes)"

definition bitmap_field :: "(str \<Rightarrow> str option) \<Rightarrow> nat \<Rightarrow> string \<Rightarrow> (ResumeError, piece_bitmap) result" where
  "bitmap_field flds n key = rbind (required flds key) (\<lambda>s. rbind (decode_hex s) (bitmap_from_bytes n))"

definition checkpoint_of_fields ::
  "(str \<Rightarrow> str option) \<Rightarrow> torrent_metainfo \<Rightarrow> (ResumeError, checkpoint) result" where
  "checkpoint_of_fields flds m =
     rbind (parse_field u32_limit flds ''version'') (\<lambda>version.
     if version \<noteq> RESUME_FORMAT_VERSION then Inl (UnsupportedVersion version)
     else
     rbind (rbind (required flds ''info_hash'') decode_info_hash) (\<lambda>info_hash.
     rbind (parse_field u64_limit flds ''total_length'') (\<lambda>total_length.
     rbind (parse_field u64_limit flds ''piece_length'') (\<lambda>piece_length.
     rbind (parse_field u64_limit flds ''piece_count'') (\<lambda>pcount.
     rbind (parse_field u64_limit flds ''file_count'') (\<lambda>file_count.
     rbind (parse_field u64_limit flds ''generation'') (\<lambda>generation.
     rbind (rbind (required flds ''priorities'') (mapM_r char_priority)) (\<lambda>prios.
     rbind (bitmap_field flds file_count ''owned_files'') (\<lambda>owned.
     rbind (bitmap_field flds pcount ''verified'') (\<lambda>verified.
     rbind (bitmap_field flds pcount ''boundary_cache'') (\<lambda>boundary.
     let c = \<lparr>c_version = version, c_info_hash = info_hash, c_total_length = total_length,
       c_piece_length = piece_length, c_piece_count = pcount, c_file_count = file_count,
       c_generation = generation, c_priorities = prios, c_owned_files = owned,
       c_verified = verified, c_boundary_cache = boundary\<rparr>
     in rbind (validate_against c m) (\<lambda>_. Inr c))))))))))))"

definition checkpoint_parse :: "str \<Rightarrow> torrent_metainfo \<Rightarrow> (ResumeError, checkpoint) result" where
  "checkpoint_parse input m =
     (case str_lines input of
        [] \<Rightarrow> Inl (InvalidFormat BadMagic)
      | magic # rest \<Rightarrow>
          if magic \<noteq> RESUME_MAGIC then Inl (InvalidFormat BadMagic)
          else rbind (fields_loop Map.empty rest) (\<lambda>flds. checkpoint_of_fields flds m))"

subsection \<open>On disk\<close>

definition read_checkpoint :: "torrent_metainfo \<Rightarrow> path \<Rightarrow> u8 list \<Rightarrow> (ResumeError, checkpoint) result" where
  "read_checkpoint m candidate b =
     rbind (ok_or (Io candidate) (from_utf8 b)) (\<lambda>payload. checkpoint_parse payload m)"

definition load_checkpoint_recovering ::
  "path \<Rightarrow> torrent_metainfo \<Rightarrow> (ResumeError, checkpoint option) io" where
  "load_checkpoint_recovering p m =
     ibind (load_recovering (read_checkpoint m) Io p) (\<lambda>r.
     case r of
       Inl c \<Rightarrow> ret (Some c)
     | Inr (Some e) \<Rightarrow> throw e
     | Inr None \<Rightarrow> ret None)"

definition save_checkpoint_atomic :: "path \<Rightarrow> checkpoint \<Rightarrow> (ResumeError, unit) io" where
  "save_checkpoint_atomic p c =
     ibind (ensure_parent Io p) (\<lambda>_. replace_file Io p (checkpoint_encode c))"

subsection \<open>Bitmap laws\<close>

definition bitmap_wf :: "nat \<Rightarrow> piece_bitmap \<Rightarrow> bool" where
  "bitmap_wf n b \<longleftrightarrow>
     bm_piece_count b = n \<and> length (bm_bytes b) = div_ceil n 8 \<and> (\<forall>i\<ge>n. \<not> bit_is_set (bm_bytes b) i)"

abbreviation bm_get :: "piece_bitmap \<Rightarrow> nat \<Rightarrow> bool" where
  "bm_get b i \<equiv> bit_is_set (bm_bytes b) i"

lemma bitmap_new_wf [simp]: "bitmap_wf n (bitmap_new n)"
  by (simp add: bitmap_wf_def bitmap_new_def)

lemma bitmap_is_set_wf: "bitmap_wf n b \<Longrightarrow> i < n \<Longrightarrow> bitmap_is_set b i = Inr (bm_get b i)"
  by (simp add: bitmap_is_set_def bitmap_validate_def bitmap_wf_def)

lemma bitmap_set_wf:
  assumes "bitmap_wf n b" "i < n"
  obtains b' where "bitmap_set b i v = Inr b'" "bitmap_wf n b'" "\<And>j. bm_get b' j = (if i = j then v else bm_get b j)"
proof
  have r: "i div 8 < length (bm_bytes b)" using assms div_ceil_8_index [of i n] by (simp add: bitmap_wf_def)
  let ?b = "b\<lparr>bm_bytes := put_bit (bm_bytes b) i v\<rparr>"
  show "bitmap_set b i v = Inr ?b" using assms by (simp add: bitmap_set_def bitmap_validate_def bitmap_wf_def)
  show get: "bm_get ?b j = (if i = j then v else bm_get b j)" for j
    using bitfield.get_put [OF r] by simp
  show "bitmap_wf n ?b" using assms get by (simp add: bitmap_wf_def)
qed

lemma bitmap_from_bytes_iff: "bitmap_from_bytes n bytes = Inr b \<longleftrightarrow> bitmap_wf n b \<and> bytes = bm_bytes b"
proof (cases "length bytes = div_ceil n 8")
  case len: True
  show ?thesis
  proof (cases "n mod 8 = 0")
    case True
    have "\<forall>i\<ge>n. \<not> bit_is_set bytes i"
    proof (intro allI impI notI)
      fix i assume "n \<le> i" "bit_is_set bytes i"
      then have "i div 8 < n div 8" "n div 8 \<le> i div 8" using len True div_le_mono [of n i 8] by (auto simp: bit_is_set_alt div_ceil_def)
      then show False by simp
    qed
    with len True show ?thesis by (cases b) (auto simp: bitmap_from_bytes_def bitmap_wf_def)
  next
    case False
    then have "bytes \<noteq> []" "n \<noteq> 0" using len by (auto simp: div_ceil_def)
    with len False padding_clear_iff [OF len False] show ?thesis
      by (cases b) (auto simp: bitmap_from_bytes_def bitmap_wf_def)
  qed
next
  case False
  then show ?thesis by (auto simp: bitmap_from_bytes_def bitmap_wf_def Let_def)
qed

subsection \<open>Field codecs\<close>

lemma resume_hex_nibble_HEX: "n < 16 \<Longrightarrow> resume_hex_nibble (HEX ! n) = Some (of_nat n)"
proof -
  have "\<forall>n \<in> set [0..<16]. resume_hex_nibble (HEX ! n) = Some (of_nat n)"
    by (simp add: upt_rec HEX_def resume_hex_nibble_def byte_simps of_char_def)
  then show "n < 16 \<Longrightarrow> resume_hex_nibble (HEX ! n) = Some (of_nat n)" by simp
qed

lemma length_encode_hex [simp]: "length (encode_hex bs) = 2 * length bs"
  by (induction bs) (simp_all add: encode_hex_def)

lemma decode_encode_hex [simp]: "decode_hex (encode_hex bs) = Inr bs"
proof -
  have "mapM_r decode_hex_pair (map (\<lambda>b. [HEX ! unat (drop_bit 4 b), HEX ! unat (b AND 0x0f)]) bs) = Inr bs"
    by (induction bs) (simp_all add: decode_hex_pair_def resume_hex_nibble_HEX unat_nibble nibbles)
  moreover have "chunks_exact 2 (encode_hex bs) = map (\<lambda>b. [HEX ! unat (drop_bit 4 b), HEX ! unat (b AND 0x0f)]) bs"
    by (simp add: encode_hex_def chunks_exact_concat)
  ultimately show ?thesis by (simp add: decode_hex_def)
qed

lemma to_hex_encode_hex: "to_hex h = encode_hex h"
  by (simp add: to_hex_def encode_hex_def)

lemma decode_hex_length: "decode_hex s = Inr bs \<Longrightarrow> length s = 2 * length bs"
  by (auto simp: decode_hex_def mapM_r_Inr_iff length_chunks_exact dest!: list_all2_lengthD split: if_splits)

lemma char_priority_char [simp]: "mapM_r char_priority (map priority_char ps) = Inr ps"
proof (induction ps)
  case (Cons p ps)
  then show ?case by (cases p) (simp_all add: char_priority_def)
qed simp

subsection \<open>Lines and fields\<close>

abbreviation key_of :: "str \<Rightarrow> str" where
  "key_of l \<equiv> takeWhile (\<lambda>b. b \<noteq> 0x3d) l"

lemma key_of_field_line: "0x3d \<notin> set (lit k) \<Longrightarrow> key_of (field_line (k, v)) = lit k"
  by (auto simp: field_line_def takeWhile_tail takeWhile_append)

lemma split_once_field_line: "0x3d \<notin> set (lit k) \<Longrightarrow> split_once 0x3d (field_line (k, v)) = Some (lit k, v)"
  using split_once_append [of "0x3d" "lit k" v] by (simp add: field_line_def)

fun put_fields :: "(str \<Rightarrow> str option) \<Rightarrow> (string \<times> str) list \<Rightarrow> str \<Rightarrow> str option" where
  "put_fields flds [] = flds"
| "put_fields flds ((k, v) # kvs) = put_fields (flds(lit k \<mapsto> v)) kvs"

lemma fields_loop_lines:
  "\<forall>k \<in> set (map fst kvs). 0x3d \<notin> set (lit k) \<and> flds (lit k) = None \<Longrightarrow> distinct (map fst kvs) \<Longrightarrow>
   fields_loop flds (map field_line kvs @ rest) = fields_loop (put_fields flds kvs) rest"
proof (induction flds kvs rule: put_fields.induct)
  case (2 flds k v kvs)
  have "field_line (k, v) \<noteq> []" by (simp add: field_line_def)
  moreover have "\<forall>k' \<in> set (map fst kvs). 0x3d \<notin> set (lit k') \<and> (flds(lit k \<mapsto> v)) (lit k') = None"
    using "2.prems" by auto
  then have "fields_loop (flds(lit k \<mapsto> v)) (map field_line kvs @ rest) = fields_loop (put_fields (flds(lit k \<mapsto> v)) kvs) rest"
    using "2.prems"(2) by (intro "2.IH") simp_all
  ultimately show ?case using "2.prems"(1) split_once_field_line [of k v] by simp
qed simp

lemma fields_loop_dom:
  "fields_loop flds ls = Inr flds' \<Longrightarrow> flds' k \<noteq> None \<Longrightarrow> flds k \<noteq> None \<or> (\<exists>l \<in> set ls. 0x3d \<in> set l \<and> key_of l = k)"
proof (induction ls arbitrary: flds)
  case (Cons l ls)
  show ?case
  proof (cases "l = []")
    case True
    with Cons show ?thesis by auto
  next
    case False
    show ?thesis
    proof (cases "split_once 0x3d l")
      case None
      with Cons.prems(1) False show ?thesis by simp
    next
      case (Some kv)
      obtain key v where kv: "kv = (key, v)" by fastforce
      have r: "fields_loop (flds(key \<mapsto> v)) ls = Inr flds'"
        using Cons.prems(1) False Some kv by (cases "flds key") simp_all
      have l: "0x3d \<in> set l" "key_of l = key" using split_once_SomeD(1,2) [OF Some [unfolded kv]] by simp_all
      from Cons.IH [OF r Cons.prems(2)] l show ?thesis by (cases "k = key") auto
    qed
  qed
qed simp

subsection \<open>The format meets the contract\<close>

definition checkpoint_wf :: "torrent_metainfo \<Rightarrow> checkpoint \<Rightarrow> bool" where
  "checkpoint_wf m c \<longleftrightarrow>
     validate_against c m = Inr () \<and> length (c_info_hash c) = 20
     \<and> c_total_length c < u64_limit \<and> c_piece_length c < u64_limit \<and> c_piece_count c < u64_limit
     \<and> c_file_count c < u64_limit \<and> c_generation c < u64_limit
     \<and> bitmap_wf (c_file_count c) (c_owned_files c)
     \<and> bitmap_wf (c_piece_count c) (c_verified c) \<and> bitmap_wf (c_piece_count c) (c_boundary_cache c)"

lemma validate_against_iff:
  "validate_against c m = Inr () \<longleftrightarrow>
     c_version c = RESUME_FORMAT_VERSION \<and> c_info_hash c = m_info_hash m
     \<and> c_total_length c = m_total_length m \<and> c_piece_length c = m_piece_length m \<and> c_piece_count c = piece_count m
     \<and> c_file_count c = length (m_files m) \<and> length (c_priorities c) = length (m_files m)
     \<and> bm_piece_count (c_owned_files c) = length (m_files m)
     \<and> bm_piece_count (c_verified c) = piece_count m \<and> bm_piece_count (c_boundary_cache c) = piece_count m"
  by (auto simp: validate_against_def)

lemma HEX_plain: "b \<in> set HEX \<Longrightarrow> b \<noteq> 0x0a \<and> b \<noteq> 0x0d \<and> b \<le> 0x7f"
  by (auto simp: HEX_def lit_def)

lemma HEX_nth_mem: "HEX ! unat (drop_bit 4 (b :: u8)) \<in> set HEX" "HEX ! unat ((b :: u8) AND 0x0f) \<in> set HEX"
proof -
  have "length HEX = 16" by (simp add: HEX_def lit_def)
  then show "HEX ! unat (drop_bit 4 b) \<in> set HEX" "HEX ! unat (b AND 0x0f) \<in> set HEX"
    using unat_nibble [of b] by simp_all
qed

definition plain_text :: "str \<Rightarrow> bool" where
  "plain_text v \<longleftrightarrow> (\<forall>b \<in> set v. b \<noteq> 0x0a \<and> b \<noteq> 0x0d \<and> b \<le> 0x7f)"

lemma plain_encode_hex [simp]: "plain_text (encode_hex bs)"
  unfolding plain_text_def encode_hex_def using HEX_plain HEX_nth_mem by fastforce

lemma plain_nat_to_dec [simp]: "plain_text (nat_to_dec n)"
proof -
  have "is_ascii_digit b \<Longrightarrow> b \<noteq> 0x0a \<and> b \<noteq> 0x0d \<and> b \<le> 0x7f" for b
    by (auto simp: is_ascii_digit_def word_le_nat_alt)
  then show ?thesis using nat_to_dec_digits [of n] by (auto simp: plain_text_def list_all_iff)
qed

lemma plain_priorities [simp]: "plain_text (map priority_char ps)"
proof -
  have "priority_char p \<noteq> 0x0a \<and> priority_char p \<noteq> 0x0d \<and> priority_char p \<le> 0x7f" for p by (cases p) simp_all
  then show ?thesis by (auto simp: plain_text_def)
qed

lemma plain_field_line: "plain_text (lit k) \<Longrightarrow> plain_text v \<Longrightarrow> plain_line (field_line (k, v)) \<and> plain_text (field_line (k, v))"
  by (auto simp: plain_line_def plain_text_def field_line_def last_append)

definition checkpoint_lines :: "checkpoint \<Rightarrow> str list" where
  "checkpoint_lines c = RESUME_MAGIC # map field_line (checkpoint_fields c)"

lemma checkpoint_encode_unlines: "checkpoint_encode c = unlines (checkpoint_lines c)"
  by (simp add: checkpoint_encode_def checkpoint_lines_def unlines_def comp_def)

lemma field_names_plain: "\<forall>k \<in> set (map fst (checkpoint_fields c)). plain_text (lit k) \<and> 0x3d \<notin> set (lit k)"
  by (simp add: checkpoint_fields_def plain_text_def lit_def)

lemma field_names_distinct: "distinct (map fst (checkpoint_fields c))"
  by (simp add: checkpoint_fields_def)

lemma checkpoint_lines_plain: "list_all plain_line (checkpoint_lines c)" "\<forall>l \<in> set (checkpoint_lines c). plain_text l"
proof -
  have "plain_line RESUME_MAGIC" "plain_text RESUME_MAGIC"
    by (simp_all add: plain_line_def plain_text_def RESUME_MAGIC_def lit_def)
  moreover have "\<forall>(k, v) \<in> set (checkpoint_fields c). plain_text v" by (simp add: checkpoint_fields_def to_hex_encode_hex)
  ultimately show "list_all plain_line (checkpoint_lines c)" "\<forall>l \<in> set (checkpoint_lines c). plain_text l"
    using field_names_plain [of c] plain_field_line by (force simp: checkpoint_lines_def list_all_iff)+
qed

lemma checkpoint_ascii: "b \<in> set (checkpoint_encode c) \<Longrightarrow> b \<le> 0x7f"
  using checkpoint_lines_plain(2) [of c] unfolding checkpoint_encode_unlines unlines_def plain_text_def by (auto split: if_splits)

definition own_fields :: "checkpoint \<Rightarrow> str \<Rightarrow> str \<Rightarrow> str option" where
  "own_fields c v = put_fields Map.empty (butlast (checkpoint_fields c) @ [(''boundary_cache'', v)])"

lemma own_fields_get:
  "own_fields c v (lit ''version'') = Some (nat_to_dec (c_version c))"
  "own_fields c v (lit ''info_hash'') = Some (to_hex (c_info_hash c))"
  "own_fields c v (lit ''total_length'') = Some (nat_to_dec (c_total_length c))"
  "own_fields c v (lit ''piece_length'') = Some (nat_to_dec (c_piece_length c))"
  "own_fields c v (lit ''piece_count'') = Some (nat_to_dec (c_piece_count c))"
  "own_fields c v (lit ''file_count'') = Some (nat_to_dec (c_file_count c))"
  "own_fields c v (lit ''generation'') = Some (nat_to_dec (c_generation c))"
  "own_fields c v (lit ''priorities'') = Some (map priority_char (c_priorities c))"
  "own_fields c v (lit ''owned_files'') = Some (encode_hex (bm_bytes (c_owned_files c)))"
  "own_fields c v (lit ''verified'') = Some (encode_hex (bm_bytes (c_verified c)))"
  "own_fields c v (lit ''boundary_cache'') = Some v"
  by (simp_all add: own_fields_def checkpoint_fields_def)

lemma own_fields_read:
  assumes "checkpoint_wf m c"
  shows "checkpoint_of_fields (own_fields c v) m =
    rbind (rbind (decode_hex v) (bitmap_from_bytes (c_piece_count c))) (\<lambda>b.
      let d = c\<lparr>c_boundary_cache := b\<rparr> in rbind (validate_against d m) (\<lambda>_. Inr d))"
proof -
  have v: "c_version c = RESUME_FORMAT_VERSION" "RESUME_FORMAT_VERSION < u32_limit"
    using assms by (auto simp: checkpoint_wf_def validate_against_iff RESUME_FORMAT_VERSION_def u32_limit_def)
  have "bitmap_from_bytes (c_file_count c) (bm_bytes (c_owned_files c)) = Inr (c_owned_files c)"
    "bitmap_from_bytes (c_piece_count c) (bm_bytes (c_verified c)) = Inr (c_verified c)"
    using assms by (simp_all add: bitmap_from_bytes_iff checkpoint_wf_def)
  then show ?thesis
    using assms v
    by (cases c) (simp add: checkpoint_of_fields_def parse_field_def required_def bitmap_field_def decode_info_hash_def
        own_fields_get parse_unsigned_nat_to_dec to_hex_encode_hex checkpoint_wf_def Let_def)
qed

lemma lines_fields:
  assumes "plain_text v"
  shows "fields_loop Map.empty (map field_line (butlast (checkpoint_fields c)) @ [field_line (''boundary_cache'', v)])
    = Inr (own_fields c v)"
proof -
  let ?kvs = "butlast (checkpoint_fields c) @ [(''boundary_cache'', v)]"
  have "map fst ?kvs = map fst (checkpoint_fields c)" by (simp add: checkpoint_fields_def)
  then have "fields_loop Map.empty (map field_line ?kvs @ []) = fields_loop (put_fields Map.empty ?kvs) []"
    using field_names_plain [of c] field_names_distinct [of c] by (intro fields_loop_lines) simp_all
  then show ?thesis by (simp add: own_fields_def)
qed

lemma checkpoint_lines_split:
  "checkpoint_lines c = RESUME_MAGIC # map field_line (butlast (checkpoint_fields c))
     @ [field_line (''boundary_cache'', encode_hex (bm_bytes (c_boundary_cache c)))]"
  by (simp add: checkpoint_lines_def checkpoint_fields_def)

lemma checkpoint_roundtrip:
  assumes "checkpoint_wf m c"
  shows "checkpoint_parse (checkpoint_encode c) m = Inr c"
proof -
  have "bitmap_from_bytes (c_piece_count c) (bm_bytes (c_boundary_cache c)) = Inr (c_boundary_cache c)"
    using assms by (simp add: bitmap_from_bytes_iff checkpoint_wf_def)
  then show ?thesis
    using assms own_fields_read [OF assms] lines_fields
      str_lines_unlines [OF checkpoint_lines_plain(1) [of c], unfolded checkpoint_lines_split]
    by (simp add: checkpoint_parse_def checkpoint_encode_unlines checkpoint_lines_split checkpoint_wf_def Let_def)
qed

lemma key_of_take: "key_of (take n l) = take n (key_of l)"
  by (induction l arbitrary: n) (auto simp: take_Cons split: nat.splits)

text \<open>No other line, and no beginning of one, can pass for the last field.\<close>

lemma take_key_hd: "take n x = y \<Longrightarrow> y \<noteq> [] \<Longrightarrow> x \<noteq> [] \<and> hd x = hd y"
  by (cases x; cases n) auto

lemma boundary_key_unique:
  assumes "l \<in> set (RESUME_MAGIC # map field_line (butlast (checkpoint_fields c)))"
  shows "key_of (take n l) \<noteq> lit ''boundary_cache''"
proof
  assume "key_of (take n l) = lit ''boundary_cache''"
  then have "take n (key_of l) = lit ''boundary_cache''" by (simp add: key_of_take)
  then have "hd (key_of l) = 0x62" by (drule_tac take_key_hd) (simp_all add: lit_def)
  moreover have "hd (key_of l) \<noteq> 0x62"
    using assms by (auto simp: checkpoint_fields_def field_line_def RESUME_MAGIC_def lit_def)
  ultimately show False by simp
qed

lemma own_fields_needs_boundary: "checkpoint_of_fields flds m = Inr d \<Longrightarrow> flds (lit ''boundary_cache'') \<noteq> None"
  by (auto simp: checkpoint_of_fields_def bitmap_field_def required_def Let_def split: if_splits)

lemma take_past: "length a < k \<Longrightarrow> take k (a @ x # b) = a @ x # take (k - Suc (length a)) b"
proof -
  assume "length a < k"
  then obtain j where "k = Suc (length a) + j" using less_iff_Suc_add by auto
  then show ?thesis by simp
qed

lemma checkpoint_cut_last:
  fixes c k
  defines "part \<equiv> take k (field_line (''boundary_cache'', encode_hex (bm_bytes (c_boundary_cache c))))"
  assumes wf: "checkpoint_wf m c" and eq: "0x3d \<in> set part"
    and f: "fields_loop Map.empty (map field_line (butlast (checkpoint_fields c)) @ [part]) = Inr flds"
    and d: "checkpoint_of_fields flds m = Inr d"
  shows "part = field_line (''boundary_cache'', encode_hex (bm_bytes (c_boundary_cache c)))"
proof -
  let ?hex = "encode_hex (bm_bytes (c_boundary_cache c))" and ?key = "lit ''boundary_cache''"
  have "length ?key < k"
  proof (rule ccontr)
    assume "\<not> length ?key < k"
    then have "part = take k ?key" by (simp add: part_def field_line_def)
    then show False using eq set_take_subset [of k ?key] by (auto simp: lit_def)
  qed
  define v where "v = take (k - Suc (length ?key)) ?hex"
  have cut: "part = field_line (''boundary_cache'', v)"
    using take_past [OF \<open>length ?key < k\<close>, of "0x3d" ?hex] by (simp only: v_def part_def field_line_def fst_conv snd_conv append_Cons append_Nil)
  have "plain_text v" using plain_encode_hex set_take_subset by (fastforce simp: plain_text_def v_def)
  from lines_fields [OF this, of c] have "flds = own_fields c v" using f cut by simp
  then have "rbind (rbind (decode_hex v) (bitmap_from_bytes (c_piece_count c))) (\<lambda>b.
      let d = c\<lparr>c_boundary_cache := b\<rparr> in rbind (validate_against d m) (\<lambda>_. Inr d)) = Inr d"
    using d own_fields_read [OF wf, of v] by simp
  then obtain bs b where bs: "decode_hex v = Inr bs" "bitmap_from_bytes (c_piece_count c) bs = Inr b" by auto
  then have "length v = length ?hex"
    using wf decode_hex_length [OF bs(1)] by (simp add: bitmap_from_bytes_iff bitmap_wf_def checkpoint_wf_def)
  then have "v = ?hex" by (simp add: v_def)
  then show ?thesis using cut by simp
qed

lemma cut_reaches_last:
  assumes cut: "ls = take k (xs @ [y]) \<or> k < Suc (length xs) \<and> (\<exists>m. ls = take k (xs @ [y]) @ [take m ((xs @ [y]) ! k)])"
    and "l \<in> set ls" "P l" and no: "\<And>x m. x \<in> set xs \<Longrightarrow> \<not> P (take m x)"
  shows "\<exists>m. ls = xs @ [take m y]"
proof -
  have "\<not> P x" if "x \<in> set xs" for x using no [OF that, of "length x"] by simp
  then have out: "l \<notin> set (take k xs)" using assms(3) by (meson in_set_takeD)
  consider "k < length xs" | "k = length xs" | "length xs < k" by linarith
  then show ?thesis
  proof cases
    case 1
    then have "l \<noteq> take m (xs ! k)" for m using no assms(3) by (metis nth_mem)
    with cut out assms(2) 1 show ?thesis by (auto simp: nth_append)
  next
    case 2
    with cut out assms(2) show ?thesis by auto
  next
    case 3
    with cut show ?thesis by (auto intro: exI [of _ "length y"])
  qed
qed

lemma checkpoint_parse_steps:
  assumes "checkpoint_parse s m = Inr d"
  obtains ls flds where "str_lines s = RESUME_MAGIC # ls" "fields_loop Map.empty ls = Inr flds"
    "checkpoint_of_fields flds m = Inr d"
proof (cases "str_lines s")
  case Nil
  with assms show ?thesis by (simp add: checkpoint_parse_def)
next
  case (Cons magic ls)
  with assms that show ?thesis by (cases "magic = RESUME_MAGIC") (auto simp: checkpoint_parse_def)
qed

lemma checkpoint_prefix:
  assumes wf: "checkpoint_wf m c" and p: "checkpoint_parse (take n (checkpoint_encode c)) m = Inr d"
  shows "d = c"
proof -
  define y where "y = field_line (''boundary_cache'', encode_hex (bm_bytes (c_boundary_cache c)))"
  define mid where "mid = map field_line (butlast (checkpoint_fields c))"
  have L: "checkpoint_lines c = (RESUME_MAGIC # mid) @ [y]" unfolding y_def mid_def by (simp add: checkpoint_lines_split)
  obtain ls flds where ls: "str_lines (take n (checkpoint_encode c)) = RESUME_MAGIC # ls"
    and f: "fields_loop Map.empty ls = Inr flds" and d: "checkpoint_of_fields flds m = Inr d"
    using p by (rule checkpoint_parse_steps)
  obtain l where l: "l \<in> set ls" "0x3d \<in> set l" "key_of l = lit ''boundary_cache''"
    using fields_loop_dom [OF f own_fields_needs_boundary [OF d]] by auto
  obtain k where "RESUME_MAGIC # ls = take k ((RESUME_MAGIC # mid) @ [y])
      \<or> k < Suc (length (RESUME_MAGIC # mid))
        \<and> (\<exists>j. RESUME_MAGIC # ls = take k ((RESUME_MAGIC # mid) @ [y]) @ [take j (((RESUME_MAGIC # mid) @ [y]) ! k)])"
    using str_lines_take [OF checkpoint_lines_plain(1) [of c], of n] ls unfolding checkpoint_encode_unlines L by auto
  from cut_reaches_last [where P = "\<lambda>l. key_of l = lit ''boundary_cache''", OF this list.set_intros(2) [OF l(1)] l(3)]
  obtain j where j: "ls = mid @ [take j y]" using boundary_key_unique [of _ c, folded mid_def] by auto
  have "l \<notin> set mid" using boundary_key_unique [of l c "length l", folded mid_def] l(3) by auto
  then have "0x3d \<in> set (take j y)" using l(1,2) j by (metis Un_iff empty_iff empty_set set_ConsD set_append)
  then have "take j y = y"
    by (rule checkpoint_cut_last [OF wf _ _ d, of j, folded y_def mid_def]) (use f j in simp)
  then have "str_lines (take n (checkpoint_encode c)) = str_lines (checkpoint_encode c)"
    using ls j L str_lines_unlines [OF checkpoint_lines_plain(1) [of c]] by (simp add: checkpoint_encode_unlines)
  then show ?thesis using p checkpoint_roundtrip [OF wf] by (simp add: checkpoint_parse_def)
qed

lemma read_checkpoint_ascii:
  "read_checkpoint m q (take n (checkpoint_encode c)) = checkpoint_parse (take n (checkpoint_encode c)) m"
proof -
  have "from_utf8 (take n (checkpoint_encode c)) = Some (take n (checkpoint_encode c))"
    by (rule from_utf8_ascii) (meson checkpoint_ascii in_set_takeD)
  then show ?thesis by (simp add: read_checkpoint_def)
qed

interpretation resume: recoverable "read_checkpoint m" checkpoint_encode "checkpoint_wf m" for m
proof
  show "read_checkpoint m q (checkpoint_encode c) = Inr c" if "checkpoint_wf m c" for c q
    using checkpoint_roundtrip [OF that] read_checkpoint_ascii [of m q "length (checkpoint_encode c)" c] by simp
  show "d = c" if "checkpoint_wf m c" "read_checkpoint m q (take n (checkpoint_encode c)) = Inr d" for c q n d
    using checkpoint_prefix [OF that(1)] that(2) by (simp add: read_checkpoint_ascii)
  show "read_checkpoint m q' x = Inr c" if "read_checkpoint m q x = Inr c" for q q' x c
    using that by (auto simp: read_checkpoint_def)
qed

lemma load_checkpoint_quiet:
  assumes "recovered (read_checkpoint m) f p = Some c"
  shows "load_checkpoint_recovering p m (quiet f) = (Done (Some c), quiet f)"
proof -
  obtain x where "load_recovering (read_checkpoint m) Io p (quiet f) =
      (Done (case recovered (read_checkpoint m) f p of Some c \<Rightarrow> Inl c | None \<Rightarrow> Inr x), quiet f)"
    using load_recovering_quiet [of "read_checkpoint m" Io p f] by metis
  with assms show ?thesis by (simp add: load_checkpoint_recovering_def ibind_def ret_def)
qed

lemma checkpoint_new_wf:
  assumes "metainfo_wf m" "length (m_info_hash m) = 20" "piece_count m < u64_limit" "length (m_files m) < u64_limit"
    and "checkpoint_new m sel = Inr c"
  shows "checkpoint_wf m c"
proof -
  have "m_total_length m < u64_limit" "m_piece_length m < u64_limit"
    using assms(1) by (auto simp: metainfo_wf_def MAX_PIECE_LENGTH_BYTES_def u64_limit_def)
  moreover have "bm_piece_count (bitmap_new n) = n" for n by (simp add: bitmap_new_def)
  ultimately show ?thesis
    using assms by (auto simp: checkpoint_new_def checkpoint_wf_def validate_against_iff u64_limit_def split: if_splits)
qed

section \<open>Properties\<close>

definition sample_checkpoint :: checkpoint where
  "sample_checkpoint = \<lparr>c_version = 2, c_info_hash = replicate 20 7, c_total_length = 8, c_piece_length = 4,
     c_piece_count = 2, c_file_count = length (m_files sample_meta), c_generation = 3,
     c_priorities = replicate (length (m_files sample_meta)) Normal,
     c_owned_files = bitmap_new (length (m_files sample_meta)), c_verified = bitmap_new 2, c_boundary_cache = bitmap_new 2\<rparr>"

lemma sample_checkpoint_wf: "checkpoint_wf sample_meta (sample_checkpoint\<lparr>c_generation := g\<rparr>)" if "g < 2 ^ 64"
proof -
  have "length (m_files sample_meta) < 2 ^ 64" "bm_piece_count (bitmap_new n) = n" for n
    by (simp_all add: bitmap_new_def sample_meta_def)
  then show ?thesis using that
    by (simp add: checkpoint_wf_def validate_against_iff sample_checkpoint_def u64_limit_def RESUME_FORMAT_VERSION_def)
      (simp add: sample_meta_def piece_count_def)
qed

text \<open>C23: The resume file format is exact: what is written for a checkpoint that fits the torrent is read
  back as that checkpoint, and of every text that a torn write can leave (any beginning of it) the
  reader accepts only ones that still hold the whole checkpoint, so no truncated file is ever taken for
  a different state of the download.\<close>
theorem checkpoint_format_exact:
  assumes "checkpoint_wf m c"
  shows "checkpoint_parse (checkpoint_encode c) m = Inr c
    \<and> (\<forall>n d. checkpoint_parse (take n (checkpoint_encode c)) m = Inr d \<longrightarrow> d = c)"
  using checkpoint_roundtrip [OF assms] checkpoint_prefix [OF assms] by blast

theorem checkpoint_format_exact_witness:
  "checkpoint_parse (checkpoint_encode (sample_checkpoint\<lparr>c_generation := 9\<rparr>)) sample_meta
     = Inr (sample_checkpoint\<lparr>c_generation := 9\<rparr>)"
  using checkpoint_format_exact [OF sample_checkpoint_wf [of 9]] by simp

text \<open>C19: Saving a checkpoint is atomic under crashes and I/O errors: however the system calls of
  \<open>save_checkpoint_atomic\<close> proceed, fail, are cut short or are stopped, a later recovery succeeds and
  finds either the checkpoint that was there before or the new one, and the new one if the save
  returned; besides the file, its \<open>.tmp\<close> and its \<open>.bak\<close>, no path changes except missing parent
  directories that are created.\<close>
theorem resume_save_crash_safe:
  assumes "p \<noteq> []" "files w p = Some (File old)" "read_checkpoint m p old = Inr b" "checkpoint_wf m c"
    and "save_checkpoint_atomic p c w = (r, w')"
  shows "(\<exists>d. load_checkpoint_recovering p m (quiet (files w')) = (Done (Some d), quiet (files w'))
      \<and> (d = b \<or> d = c) \<and> (r = Done () \<longrightarrow> d = c))
    \<and> (\<forall>q. q \<notin> control_files p \<longrightarrow> files w' q = files w q \<or> files w q = None \<and> files w' q = Some Directory)"
proof -
  note saved = resume.save_recovered [OF assms(1-4) assms(5) [unfolded save_checkpoint_atomic_def]]
  show ?thesis using saved(1) saved(2) [of "()"] saved(3) load_checkpoint_quiet [of m "files w'" p] by auto
qed

theorem resume_save_crash_safe_witness:
  "let p = [lit ''d'', lit ''resume.state''];
       b = sample_checkpoint\<lparr>c_generation := 3\<rparr>; c = sample_checkpoint\<lparr>c_generation := 4\<rparr>;
       w = \<lparr>files = [[lit ''d''] \<mapsto> Directory, p \<mapsto> File (checkpoint_encode b)], events = [Proceed, Crash 40]\<rparr>
   in \<exists>d. fst (load_checkpoint_recovering p sample_meta (quiet (files (snd (save_checkpoint_atomic p c w))))) = Done (Some d)
      \<and> (d = b \<or> d = c)"
proof -
  let ?p = "[lit ''d'', lit ''resume.state'']"
    and ?b = "sample_checkpoint\<lparr>c_generation := 3\<rparr>" and ?c = "sample_checkpoint\<lparr>c_generation := 4\<rparr>"
  let ?w = "\<lparr>files = [[lit ''d''] \<mapsto> Directory, ?p \<mapsto> File (checkpoint_encode ?b)], events = [Proceed, Crash 40]\<rparr>"
  show ?thesis
    using resume_save_crash_safe [of ?p ?w "checkpoint_encode ?b" sample_meta ?b ?c, OF _ _ _ _ prod.collapse [symmetric]]
      resume.parse_encode [OF sample_checkpoint_wf [of 3]] sample_checkpoint_wf [of 4]
    unfolding Let_def by fastforce
qed

end
