(* ===== verification/Manifest.thy ===== *)
theory Manifest
  imports Selection Files
begin

text \<open>
  \<open>crates/nova-torrent-core/src/manifest.rs\<close>: the storage manifest, the binary copy of a torrent's
  metainfo (without its trackers) from which a download is resumed when the \<open>.torrent\<close> is gone. The
  format is shown to be exact and to meet the contract of theory \<open>Files\<close>, so that saving it survives
  crashes, and every accepted torrent of reasonable size can be stored.
\<close>

unbundle bit_operations_syntax

definition STORAGE_MANIFEST_VERSION :: nat where "STORAGE_MANIFEST_VERSION = 1"
definition MANIFEST_MAGIC :: str where "MANIFEST_MAGIC = lit ''NOVA-TORRENT-MANIFEST-1''"
definition MAX_MANIFEST_BYTES :: nat where "MAX_MANIFEST_BYTES = 64 * 1024 * 1024"
definition MAX_MANIFEST_STRING_BYTES :: nat where "MAX_MANIFEST_STRING_BYTES = 64 * 1024"
definition MAX_MANIFEST_FILES :: nat where "MAX_MANIFEST_FILES = 1000000"
definition MAX_MANIFEST_PIECES :: nat where "MAX_MANIFEST_PIECES = 4000000"

datatype ManifestError =
    UnsupportedVersion nat
  | TooLarge nat
  | TooManyFiles nat
  | TooManyPieces nat
  | StringTooLarge nat
  | InvalidMagic
  | Truncated
  | TrailingBytes
  | InvalidUtf8
  | InvalidFlags u8
  | InvalidGeometry
  | UnsafeName str
  | UnsafePath str
  | Io path

record storage_manifest =
  sm_metainfo :: torrent_metainfo
  sm_had_trackers :: bool

definition from_metainfo :: "torrent_metainfo \<Rightarrow> storage_manifest" where
  "from_metainfo m =
     \<lparr>sm_metainfo = m\<lparr>m_trackers := [], m_tracker_tiers := []\<rparr>,
      sm_had_trackers = (m_trackers m \<noteq> [] \<or> m_tracker_tiers m \<noteq> [])\<rparr>"

subsection \<open>Validation\<close>

definition manifest_reserved_component :: "str \<Rightarrow> bool" where
  "manifest_reserved_component value =
     (let stem = map to_ascii_uppercase (takeWhile (\<lambda>b. b \<noteq> 0x2e) value) in
      List.member [lit ''CON'', lit ''PRN'', lit ''AUX'', lit ''NUL'', lit ''CLOCK$'',
        lit ''CONIN$'', lit ''CONOUT$''] stem
      \<or> (length stem = 4 \<and> (take 3 stem = lit ''COM'' \<or> take 3 stem = lit ''LPT'')
          \<and> 0x31 \<le> stem ! 3 \<and> stem ! 3 \<le> 0x39))"

definition bad_component :: "str \<Rightarrow> bool" where
  "bad_component component \<longleftrightarrow>
     component = [] \<or> component = lit ''.'' \<or> component = lit ''..''
     \<or> manifest_reserved_component component
     \<or> 0x3a \<in> set component \<or> 0x2f \<in> set component \<or> 0x5c \<in> set component
     \<or> last component = 0x20 \<or> last component = 0x2e
     \<or> list_ex (\<lambda>c. c = [0] \<or> is_control c) (chars component)"

fun components_loop :: "str \<Rightarrow> path_component list \<Rightarrow> nat \<Rightarrow> (ManifestError, nat) result" where
  "components_loop p [] n = Inr n"
| "components_loop p (c # cs) n =
     rbind (ok_or (ManifestError.UnsafePath p) (normal_name c)) (\<lambda>component.
     if bad_component component then Inl (ManifestError.UnsafePath p)
     else if 1024 < n + 1 then Inl (ManifestError.UnsafePath p)
     else components_loop p cs (n + 1))"

definition validate_relative_path :: "str \<Rightarrow> (ManifestError, unit) result" where
  "validate_relative_path p =
     (if p = [] \<or> MAX_MANIFEST_STRING_BYTES < length p then Inl (ManifestError.UnsafePath p)
      else if is_absolute p then Inl (ManifestError.UnsafePath p)
      else rbind (components_loop p (path_components p) 0) (\<lambda>count.
        guard (count = 0) (ManifestError.UnsafePath p)))"

fun offsets_loop :: "torrent_file list \<Rightarrow> nat \<Rightarrow> (ManifestError, nat) result" where
  "offsets_loop [] expected_offset = Inr expected_offset"
| "offsets_loop (file # rest) expected_offset =
     rbind (validate_relative_path (f_path file)) (\<lambda>_.
     if f_offset file \<noteq> expected_offset then Inl InvalidGeometry
     else rbind (ok_or InvalidGeometry (checked_add64 expected_offset (f_length file))) (offsets_loop rest))"

fun manifest_windows :: "str list \<Rightarrow> (ManifestError, unit) result" where
  "manifest_windows (previous # current # rest) =
     (if current = previous
         \<or> (case strip_prefix previous current of None \<Rightarrow> False | Some suffix \<Rightarrow> suffix \<noteq> [] \<and> hd suffix = 0x2f)
      then Inl (ManifestError.UnsafePath (lit ''colliding manifest output paths: '' @ previous @ lit '' and '' @ current))
      else manifest_windows (current # rest))"
| "manifest_windows _ = Inr ()"

definition validate_metainfo :: "(str \<Rightarrow> str) \<Rightarrow> torrent_metainfo \<Rightarrow> (ManifestError, unit) result" where
  "validate_metainfo lower m =
     (if m_name m = [] \<or> list_ex (\<lambda>c. c = [0] \<or> is_control c) (chars (m_name m))
        \<or> 0x2f \<in> set (m_name m) \<or> 0x5c \<in> set (m_name m) then Inl (UnsafeName (m_name m))
      else if m_total_length m = 0 then Inl InvalidGeometry
      else if m_piece_length m = 0 \<or> MAX_PIECE_LENGTH_BYTES < m_piece_length m then Inl InvalidGeometry
      else rbind (ok_or InvalidGeometry (checked_add64 (m_total_length m) (m_piece_length m - 1))) (\<lambda>sum.
      if sum div m_piece_length m \<noteq> length (m_piece_hashes m) \<or> m_piece_hashes m = []
        \<or> MAX_MANIFEST_PIECES < length (m_piece_hashes m) then Inl InvalidGeometry
      else if m_files m = [] \<or> MAX_MANIFEST_FILES < length (m_files m) then Inl InvalidGeometry
      else rbind (offsets_loop (m_files m) 0) (\<lambda>expected_offset.
      if expected_offset \<noteq> m_total_length m then Inl InvalidGeometry
      else manifest_windows (sort (map (\<lambda>f. lower (f_path f)) (m_files m))))))"

subsection \<open>Writing\<close>

definition put_u32 :: "nat \<Rightarrow> u8 list" where
  "put_u32 value = to_be32 (of_nat value)"

definition put_u64 :: "nat \<Rightarrow> u8 list" where
  "put_u64 value = to_be64 (of_nat value)"

definition put_string :: "str \<Rightarrow> (ManifestError, u8 list) result" where
  "put_string value =
     (if MAX_MANIFEST_STRING_BYTES < length value then Inl (StringTooLarge (length value))
      else if u32_limit \<le> length value then Inl (StringTooLarge (length value))
      else Inr (put_u32 (length value) @ value))"

definition manifest_flags :: "storage_manifest \<Rightarrow> u8" where
  "manifest_flags sm =
     (if m_private (sm_metainfo sm) then 0x01 else 0) OR (if sm_had_trackers sm then 0x02 else 0)"

definition put_file :: "torrent_file \<Rightarrow> (ManifestError, u8 list) result" where
  "put_file file = rbind (put_string (f_path file)) (\<lambda>s. Inr (put_u64 (f_length file) @ put_u64 (f_offset file) @ s))"

definition manifest_encode :: "(str \<Rightarrow> str) \<Rightarrow> storage_manifest \<Rightarrow> (ManifestError, u8 list) result" where
  "manifest_encode lower sm =
     (let m = sm_metainfo sm in
      rbind (validate_metainfo lower m) (\<lambda>_.
      rbind (put_string (m_name m)) (\<lambda>name.
      rbind (guard (u32_limit \<le> length (m_piece_hashes m)) (TooManyPieces (length (m_piece_hashes m)))) (\<lambda>_.
      rbind (guard (u32_limit \<le> length (m_files m)) (TooManyFiles (length (m_files m)))) (\<lambda>_.
      rbind (mapM_r put_file (m_files m)) (\<lambda>files.
      let output = MANIFEST_MAGIC @ put_u32 STORAGE_MANIFEST_VERSION @ m_info_hash m
            @ put_u64 (m_piece_length m) @ put_u64 (m_total_length m) @ [manifest_flags sm] @ name
            @ put_u32 (length (m_piece_hashes m)) @ concat (m_piece_hashes m)
            @ put_u32 (length (m_files m)) @ concat files
      in if MAX_MANIFEST_BYTES < length output then Inl (TooLarge (length output)) else Inr output))))))"

subsection \<open>Reading\<close>

record cursor =
  cur_bytes :: "u8 list"
  cur_position :: nat

type_synonym 'a reader = "cursor \<Rightarrow> (ManifestError, 'a \<times> cursor) result"

definition rd_return :: "'a \<Rightarrow> 'a reader" where
  "rd_return x c = Inr (x, c)"

definition rd_fail :: "ManifestError \<Rightarrow> 'a reader" where
  "rd_fail e c = Inl e"

definition rd_bind :: "'a reader \<Rightarrow> ('a \<Rightarrow> 'b reader) \<Rightarrow> 'b reader" where
  "rd_bind r g c = rbind (r c) (\<lambda>(x, c'). g x c')"

definition rd_lift :: "(ManifestError, 'a) result \<Rightarrow> 'a reader" where
  "rd_lift r = (case r of Inl e \<Rightarrow> rd_fail e | Inr x \<Rightarrow> rd_return x)"

definition cursor_take :: "nat \<Rightarrow> u8 list reader" where
  "cursor_take n c =
     rbind (ok_or Truncated (checked_add64 (cur_position c) n)) (\<lambda>stop.
     rbind (ok_or Truncated (bslice_opt (cur_bytes c) (cur_position c) stop)) (\<lambda>value.
     Inr (value, c\<lparr>cur_position := stop\<rparr>)))"

definition cursor_expect :: "u8 list \<Rightarrow> unit reader" where
  "cursor_expect expected =
     rd_bind (cursor_take (length expected)) (\<lambda>actual. if actual = expected then rd_return () else rd_fail InvalidMagic)"

definition cursor_byte :: "u8 reader" where
  "cursor_byte = rd_bind (cursor_take 1) (\<lambda>b. rd_return (b ! 0))"

definition cursor_u32 :: "nat reader" where
  "cursor_u32 = rd_bind (cursor_take 4) (\<lambda>b. rd_return (unat (read_be32 b 0)))"

definition cursor_u64 :: "nat reader" where
  "cursor_u64 = rd_bind (cursor_take 8) (\<lambda>b. rd_return (unat (read_be64 b 0)))"

definition cursor_string :: "str reader" where
  "cursor_string =
     rd_bind cursor_u32 (\<lambda>len.
     if MAX_MANIFEST_STRING_BYTES < len then rd_fail (StringTooLarge len)
     else rd_bind (cursor_take len) (\<lambda>b. rd_lift (ok_or InvalidUtf8 (from_utf8 b))))"

definition cursor_finish :: "unit reader" where
  "cursor_finish c = (if cur_position c = length (cur_bytes c) then Inr ((), c) else Inl TrailingBytes)"

definition read_file :: "torrent_file reader" where
  "read_file =
     rd_bind cursor_u64 (\<lambda>len.
     rd_bind cursor_u64 (\<lambda>offset.
     rd_bind cursor_string (\<lambda>p.
     rd_bind (rd_lift (validate_relative_path p)) (\<lambda>_.
     rd_return \<lparr>f_path = p, f_length = len, f_offset = offset\<rparr>))))"

fun read_times :: "nat \<Rightarrow> 'a reader \<Rightarrow> 'a list reader" where
  "read_times 0 r = rd_return []"
| "read_times (Suc n) r = rd_bind r (\<lambda>x. rd_bind (read_times n r) (\<lambda>xs. rd_return (x # xs)))"

definition read_body :: "storage_manifest reader" where
  "read_body =
     rd_bind (cursor_expect MANIFEST_MAGIC) (\<lambda>_.
     rd_bind cursor_u32 (\<lambda>version.
     if version \<noteq> STORAGE_MANIFEST_VERSION then rd_fail (UnsupportedVersion version)
     else rd_bind (cursor_take 20) (\<lambda>info_hash.
     rd_bind cursor_u64 (\<lambda>piece_length.
     rd_bind cursor_u64 (\<lambda>total_length.
     rd_bind cursor_byte (\<lambda>flags.
     if flags AND NOT 0x03 \<noteq> 0 then rd_fail (InvalidFlags flags)
     else rd_bind cursor_string (\<lambda>name.
     rd_bind cursor_u32 (\<lambda>pieces.
     if pieces = 0 \<or> MAX_MANIFEST_PIECES < pieces then rd_fail (TooManyPieces pieces)
     else rd_bind (read_times pieces (cursor_take 20)) (\<lambda>piece_hashes.
     rd_bind cursor_u32 (\<lambda>file_count.
     if file_count = 0 \<or> MAX_MANIFEST_FILES < file_count then rd_fail (TooManyFiles file_count)
     else rd_bind (read_times file_count read_file) (\<lambda>files.
     rd_return \<lparr>sm_metainfo = \<lparr>m_info_hash = info_hash, m_name = name, m_piece_length = piece_length,
         m_piece_hashes = piece_hashes, m_files = files, m_total_length = total_length,
         m_trackers = [], m_tracker_tiers = [], m_private = (flags AND 0x01 \<noteq> 0)\<rparr>,
       sm_had_trackers = (flags AND 0x02 \<noteq> 0)\<rparr>)))))))))))"

definition manifest_parse :: "(str \<Rightarrow> str) \<Rightarrow> u8 list \<Rightarrow> (ManifestError, storage_manifest) result" where
  "manifest_parse lower bytes =
     (if MAX_MANIFEST_BYTES < length bytes then Inl (TooLarge (length bytes))
      else rbind (rd_bind read_body (\<lambda>sm. rd_bind cursor_finish (\<lambda>_. rd_return sm))
             \<lparr>cur_bytes = bytes, cur_position = 0\<rparr>) (\<lambda>(sm, _).
      rbind (validate_metainfo lower (sm_metainfo sm)) (\<lambda>_. Inr sm)))"

subsection \<open>On disk\<close>

definition load_storage_manifest :: "(str \<Rightarrow> str) \<Rightarrow> path \<Rightarrow> (ManifestError, storage_manifest) io" where
  "load_storage_manifest lower p =
     ibind (rethrow (\<lambda>_. ManifestError.Io p) (fs_read p)) (\<lambda>bytes. lift (manifest_parse lower bytes))"

definition load_storage_manifest_recovering :: "(str \<Rightarrow> str) \<Rightarrow> path \<Rightarrow> (ManifestError, storage_manifest) io" where
  "load_storage_manifest_recovering lower p =
     ibind (load_recovering (\<lambda>_. manifest_parse lower) ManifestError.Io p) (\<lambda>r.
     case r of
       Inl sm \<Rightarrow> ret sm
     | Inr (Some e) \<Rightarrow> throw e
     | Inr None \<Rightarrow> throw (ManifestError.Io p))"

definition save_storage_manifest_atomic ::
  "(str \<Rightarrow> str) \<Rightarrow> path \<Rightarrow> storage_manifest \<Rightarrow> (ManifestError, unit) io" where
  "save_storage_manifest_atomic lower p sm =
     ibind (ensure_parent ManifestError.Io p) (\<lambda>_.
     ibind (lift (manifest_encode lower sm)) (\<lambda>payload.
     replace_file ManifestError.Io p payload))"

subsection \<open>What a reader consumes\<close>

text \<open>\<open>reads r bs x\<close>: wherever \<open>bs\<close> stands in an input of admissible size, \<open>r\<close> started there returns
  \<open>x\<close> and moves just past it.\<close>

definition reads :: "'a reader \<Rightarrow> u8 list \<Rightarrow> 'a \<Rightarrow> bool" where
  "reads r bs x \<longleftrightarrow>
     (\<forall>pre suf. length (pre @ bs @ suf) \<le> MAX_MANIFEST_BYTES \<longrightarrow>
        r \<lparr>cur_bytes = pre @ bs @ suf, cur_position = length pre\<rparr>
        = Inr (x, \<lparr>cur_bytes = pre @ bs @ suf, cur_position = length pre + length bs\<rparr>))"

lemma reads_return [simp]: "reads (rd_return x) [] x"
  by (simp add: reads_def rd_return_def)

lemma reads_bind:
  assumes "reads r a x" "reads (g x) b y"
  shows "reads (rd_bind r g) (a @ b) y"
proof -
  have "r \<lparr>cur_bytes = pre @ a @ b @ suf, cur_position = length pre\<rparr>
      = Inr (x, \<lparr>cur_bytes = pre @ a @ b @ suf, cur_position = length pre + length a\<rparr>)"
    "g x \<lparr>cur_bytes = pre @ a @ b @ suf, cur_position = length pre + length a\<rparr>
      = Inr (y, \<lparr>cur_bytes = pre @ a @ b @ suf, cur_position = length pre + length a + length b\<rparr>)"
    if "length (pre @ a @ b @ suf) \<le> MAX_MANIFEST_BYTES" for pre suf
    using assms(1) [unfolded reads_def, rule_format, of pre "b @ suf"]
      assms(2) [unfolded reads_def, rule_format, of "pre @ a" suf] that by simp_all
  then show ?thesis by (simp add: reads_def rd_bind_def add.assoc)
qed

lemma reads_guard: "\<not> q \<Longrightarrow> reads r a x \<Longrightarrow> reads (if q then rd_fail e else r) a x"
  by simp

lemma reads_bind_return: "reads r a x \<Longrightarrow> y = f x \<Longrightarrow> reads (rd_bind r (\<lambda>x. rd_return (f x))) a y"
  using reads_bind [of r a x "\<lambda>x. rd_return (f x)" "[]" y] by simp

lemma reads_take: "n = length bs \<Longrightarrow> reads (cursor_take n) bs bs"
  by (simp add: reads_def cursor_take_def checked_add64_def bslice_opt_def MAX_MANIFEST_BYTES_def u64_limit_def)

lemma reads_expect: "reads (cursor_expect bs) bs ()"
  using reads_bind [OF reads_take [OF refl], of _ _ "[]" "()"] by (simp add: cursor_expect_def)

lemma reads_byte: "reads cursor_byte [b] b"
  unfolding cursor_byte_def by (rule reads_bind_return [OF reads_take]) simp_all

lemma reads_u32: "n < u32_limit \<Longrightarrow> reads cursor_u32 (put_u32 n) n"
  unfolding cursor_u32_def put_u32_def using read_be32_head [of "of_nat n" "[]"]
  by (intro reads_bind_return [OF reads_take]) (simp_all add: unat_of_nat u32_limit_def)

lemma reads_u64: "n < u64_limit \<Longrightarrow> reads cursor_u64 (put_u64 n) n"
  unfolding cursor_u64_def put_u64_def using read_be64_at [of 0 "[]" "of_nat n" "[]"]
  by (intro reads_bind_return [OF reads_take]) (simp_all add: unat_of_nat u64_limit_def)

definition is_str :: "u8 list \<Rightarrow> bool" where
  "is_str s \<longleftrightarrow> from_utf8 s = Some s"

lemma reads_string:
  assumes "put_string v = Inr bs" "is_str v"
  shows "reads cursor_string bs v"
proof -
  have len: "length v \<le> MAX_MANIFEST_STRING_BYTES" "length v < u32_limit" and bs: "bs = put_u32 (length v) @ v"
    using assms(1) by (auto simp: put_string_def split: if_splits)
  have "reads (rd_bind (cursor_take (length v)) (\<lambda>b. rd_lift (ok_or InvalidUtf8 (from_utf8 b)))) (v @ []) v"
    using assms(2) by (intro reads_bind [OF reads_take]) (simp_all add: rd_lift_def is_str_def)
  then show ?thesis using len unfolding cursor_string_def bs by (intro reads_bind [OF reads_u32]) simp_all
qed

lemma reads_times: "list_all2 (reads r) bss xs \<Longrightarrow> reads (read_times (length xs) r) (concat bss) xs"
proof (induction rule: list_all2_induct)
  case (Cons bs bss x xs)
  have "reads (read_times (Suc (length xs)) r) (bs @ (concat bss @ [])) (x # xs)"
    using Cons by (auto intro!: reads_bind simp del: append_Nil2)
  then show ?case by simp
qed simp

lemma reads_file:
  assumes "put_file f = Inr bs" "is_str (f_path f)" "f_length f < u64_limit" "f_offset f < u64_limit"
    and "validate_relative_path (f_path f) = Inr ()"
  shows "reads read_file bs f"
proof -
  obtain s where s: "put_string (f_path f) = Inr s" and bs: "bs = put_u64 (f_length f) @ put_u64 (f_offset f) @ s"
    using assms(1) by (auto simp: put_file_def)
  have "reads read_file (put_u64 (f_length f) @ put_u64 (f_offset f) @ s @ []) f"
    unfolding read_file_def
    using assms(5) by (intro reads_bind [OF reads_u64] reads_bind [OF reads_string [OF s]] assms(2-4))
      (simp add: rd_lift_def rd_bind_def rd_return_def reads_def)
  then show ?thesis by (simp add: bs)
qed

text \<open>A reader that succeeds does so on every longer input, and leaves the input as it is.\<close>

definition prefix_stable :: "'a reader \<Rightarrow> bool" where
  "prefix_stable r \<longleftrightarrow>
     (\<forall>b i x c ext. r \<lparr>cur_bytes = b, cur_position = i\<rparr> = Inr (x, c) \<longrightarrow>
        cur_bytes c = b \<and> r \<lparr>cur_bytes = b @ ext, cur_position = i\<rparr> = Inr (x, c\<lparr>cur_bytes := b @ ext\<rparr>))"

named_theorems stable_intros "readers that do not look ahead"

lemma stable_return [stable_intros]: "prefix_stable (rd_return x)"
  by (simp add: prefix_stable_def rd_return_def)

lemma stable_fail [stable_intros]: "prefix_stable (rd_fail e)"
  by (simp add: prefix_stable_def rd_fail_def)

lemma stable_lift [stable_intros]: "prefix_stable (rd_lift r)"
  by (cases r) (simp_all add: rd_lift_def stable_intros)

lemma stable_if [stable_intros]: "prefix_stable a \<Longrightarrow> prefix_stable b \<Longrightarrow> prefix_stable (if q then a else b)"
  by simp

lemma stable_bind [stable_intros]:
  assumes "prefix_stable r" "\<And>x. prefix_stable (g x)"
  shows "prefix_stable (rd_bind r g)"
  unfolding prefix_stable_def
proof (intro allI impI)
  fix b i x c ext
  assume "rd_bind r g \<lparr>cur_bytes = b, cur_position = i\<rparr> = Inr (x, c)"
  then obtain y c1 where 1: "r \<lparr>cur_bytes = b, cur_position = i\<rparr> = Inr (y, c1)" and 2: "g y c1 = Inr (x, c)"
    by (auto simp: rd_bind_def)
  have r: "cur_bytes c1 = b" "r \<lparr>cur_bytes = b @ ext, cur_position = i\<rparr> = Inr (y, c1\<lparr>cur_bytes := b @ ext\<rparr>)"
    using assms(1) 1 by (auto simp: prefix_stable_def)
  then have "c1 = \<lparr>cur_bytes = b, cur_position = cur_position c1\<rparr>" by (cases c1) simp
  with 2 assms(2) [of y] have "cur_bytes c = b"
    "g y \<lparr>cur_bytes = b @ ext, cur_position = cur_position c1\<rparr> = Inr (x, c\<lparr>cur_bytes := b @ ext\<rparr>)"
    unfolding prefix_stable_def by metis+
  with r show "cur_bytes c = b \<and> rd_bind r g \<lparr>cur_bytes = b @ ext, cur_position = i\<rparr> = Inr (x, c\<lparr>cur_bytes := b @ ext\<rparr>)"
    by (cases c1) (simp add: rd_bind_def)
qed

lemma stable_take [stable_intros]: "prefix_stable (cursor_take n)"
  by (auto simp: prefix_stable_def cursor_take_def bslice_opt_def bslice_def split: if_splits)

lemma stable_times [stable_intros]: "prefix_stable r \<Longrightarrow> prefix_stable (read_times n r)"
  by (induction n) (auto intro!: stable_intros)

lemma stable_body: "prefix_stable read_body"
  unfolding read_body_def cursor_expect_def cursor_u32_def cursor_u64_def cursor_byte_def cursor_string_def read_file_def
  by (intro stable_intros)

subsection \<open>The format is exact\<close>

definition manifest_typed :: "storage_manifest \<Rightarrow> bool" where
  "manifest_typed sm \<longleftrightarrow>
     (let m = sm_metainfo sm in
      length (m_info_hash m) = 20 \<and> is_str (m_name m) \<and> (\<forall>h \<in> set (m_piece_hashes m). length h = 20)
      \<and> (\<forall>f \<in> set (m_files m). is_str (f_path f)) \<and> m_trackers m = [] \<and> m_tracker_tiers m = [])"

definition manifest_payload :: "(str \<Rightarrow> str) \<Rightarrow> storage_manifest \<Rightarrow> u8 list" where
  "manifest_payload lower sm = (case manifest_encode lower sm of Inl _ \<Rightarrow> [] | Inr bs \<Rightarrow> bs)"

definition manifest_wf :: "(str \<Rightarrow> str) \<Rightarrow> storage_manifest \<Rightarrow> bool" where
  "manifest_wf lower sm \<longleftrightarrow> manifest_typed sm \<and> manifest_encode lower sm = Inr (manifest_payload lower sm)"

lemma offsets_loop_ok:
  "offsets_loop fs off = Inr e \<Longrightarrow> f \<in> set fs \<Longrightarrow>
     validate_relative_path (f_path f) = Inr () \<and> f_offset f < u64_limit \<and> f_length f < u64_limit"
proof (induction fs arbitrary: off)
  case (Cons g fs)
  then show ?case by (cases "f = g") (auto simp: opt_iffs split: if_splits)
qed simp

lemma validate_metainfo_iff:
  "validate_metainfo lower m = Inr () \<longleftrightarrow>
     m_name m \<noteq> [] \<and> \<not> list_ex (\<lambda>c. c = [0] \<or> is_control c) (chars (m_name m))
     \<and> 0x2f \<notin> set (m_name m) \<and> 0x5c \<notin> set (m_name m)
     \<and> 0 < m_total_length m \<and> 0 < m_piece_length m \<and> m_piece_length m \<le> MAX_PIECE_LENGTH_BYTES
     \<and> m_total_length m + (m_piece_length m - 1) < u64_limit
     \<and> (m_total_length m + (m_piece_length m - 1)) div m_piece_length m = length (m_piece_hashes m)
     \<and> m_piece_hashes m \<noteq> [] \<and> length (m_piece_hashes m) \<le> MAX_MANIFEST_PIECES
     \<and> m_files m \<noteq> [] \<and> length (m_files m) \<le> MAX_MANIFEST_FILES
     \<and> offsets_loop (m_files m) 0 = Inr (m_total_length m)
     \<and> manifest_windows (sort (map (\<lambda>f. lower (f_path f)) (m_files m))) = Inr ()"
  by (auto simp: validate_metainfo_def opt_iffs)

lemma manifest_flags_bits:
  "manifest_flags sm AND NOT 0x03 = 0" "manifest_flags sm AND 0x01 \<noteq> 0 \<longleftrightarrow> m_private (sm_metainfo sm)"
  "manifest_flags sm AND 0x02 \<noteq> 0 \<longleftrightarrow> sm_had_trackers sm"
  by (simp_all add: manifest_flags_def)

lemma manifest_encode_ok:
  assumes "manifest_encode lower sm = Inr bs" "manifest_typed sm"
  shows "reads read_body bs sm \<and> length bs \<le> MAX_MANIFEST_BYTES \<and> validate_metainfo lower (sm_metainfo sm) = Inr ()"
proof -
  define m where "m = sm_metainfo sm"
  obtain name fls where v: "validate_metainfo lower m = Inr ()" and name: "put_string (m_name m) = Inr name"
    and fls: "mapM_r put_file (m_files m) = Inr fls"
    and cnt: "length (m_piece_hashes m) < u32_limit" "length (m_files m) < u32_limit"
    and bs: "bs = MANIFEST_MAGIC @ put_u32 STORAGE_MANIFEST_VERSION @ m_info_hash m
            @ put_u64 (m_piece_length m) @ put_u64 (m_total_length m) @ [manifest_flags sm] @ name
            @ put_u32 (length (m_piece_hashes m)) @ concat (m_piece_hashes m)
            @ put_u32 (length (m_files m)) @ concat fls"
    and size: "length bs \<le> MAX_MANIFEST_BYTES"
    using assms(1) unfolding manifest_encode_def Let_def m_def by (auto simp: not_less split: if_splits)
  have ty: "length (m_info_hash m) = 20" "is_str (m_name m)" "\<forall>h \<in> set (m_piece_hashes m). length h = 20"
    "\<forall>f \<in> set (m_files m). is_str (f_path f)" "m_trackers m = []" "m_tracker_tiers m = []"
    using assms(2) by (auto simp: manifest_typed_def m_def Let_def)
  have nums: "m_piece_length m < u64_limit" "m_total_length m < u64_limit" "STORAGE_MANIFEST_VERSION < u32_limit"
    using v by (auto simp: validate_metainfo_iff MAX_PIECE_LENGTH_BYTES_def u64_limit_def u32_limit_def STORAGE_MANIFEST_VERSION_def)
  have lens: "length (m_piece_hashes m) \<noteq> 0" "length (m_piece_hashes m) \<le> MAX_MANIFEST_PIECES"
    "length (m_files m) \<noteq> 0" "length (m_files m) \<le> MAX_MANIFEST_FILES"
    using v by (auto simp: validate_metainfo_iff)
  have hashes: "reads (read_times (length (m_piece_hashes m)) (cursor_take 20)) (concat (m_piece_hashes m)) (m_piece_hashes m)"
    using ty(3) by (intro reads_times) (simp add: list_all2_same reads_take)
  have off: "offsets_loop (m_files m) 0 = Inr (m_total_length m)" using v by (simp add: validate_metainfo_iff)
  have "list_all2 (\<lambda>f b. put_file f = Inr b) (m_files m) fls" using fls by (simp add: mapM_r_Inr_iff)
  then have "list_all2 (reads read_file) fls (m_files m)"
    using ty(4) offsets_loop_ok [OF off] by (auto simp: list_all2_conv_all_nth intro!: reads_file)
  from reads_times [OF this]
  have fl: "reads (read_times (length (m_files m)) read_file) (concat fls) (m_files m)" .
  have "reads read_body (bs @ []) sm"
    unfolding read_body_def bs append_assoc
    using lens manifest_flags_bits [of sm] ty(5,6)
    by (intro reads_bind [OF reads_expect] reads_bind [OF reads_byte] reads_bind [OF hashes] reads_bind [OF fl]
        reads_bind [OF reads_string [OF name ty(2)]] reads_bind [OF reads_take [OF ty(1) [symmetric]]]
        reads_bind [OF reads_u32 [OF nums(3)]] reads_bind [OF reads_u32 [OF cnt(1)]] reads_bind [OF reads_u32 [OF cnt(2)]]
        reads_bind [OF reads_u64 [OF nums(1)]] reads_bind [OF reads_u64 [OF nums(2)]] reads_guard)
      (auto simp: reads_def rd_return_def m_def)
  then show ?thesis using size v by (simp add: m_def)
qed

lemma manifest_roundtrip:
  assumes "manifest_wf lower sm"
  shows "manifest_parse lower (manifest_payload lower sm) = Inr sm"
proof -
  have "reads read_body (manifest_payload lower sm) sm" "length (manifest_payload lower sm) \<le> MAX_MANIFEST_BYTES"
    "validate_metainfo lower (sm_metainfo sm) = Inr ()"
    using assms manifest_encode_ok by (auto simp: manifest_wf_def)
  moreover from this have "read_body \<lparr>cur_bytes = manifest_payload lower sm, cur_position = 0\<rparr>
      = Inr (sm, \<lparr>cur_bytes = manifest_payload lower sm, cur_position = length (manifest_payload lower sm)\<rparr>)"
    unfolding reads_def by (metis append_Nil append_Nil2 list.size(3) add_0)
  ultimately show ?thesis by (simp add: manifest_parse_def rd_bind_def cursor_finish_def rd_return_def)
qed

lemma manifest_prefix:
  assumes wf: "manifest_wf lower sm" and p: "manifest_parse lower (take n (manifest_payload lower sm)) = Inr d"
  shows "d = sm"
proof -
  let ?bs = "manifest_payload lower sm"
  have r: "reads read_body ?bs sm" "length ?bs \<le> MAX_MANIFEST_BYTES"
    using wf manifest_encode_ok by (auto simp: manifest_wf_def)
  then have full: "read_body \<lparr>cur_bytes = ?bs, cur_position = 0\<rparr> = Inr (sm, \<lparr>cur_bytes = ?bs, cur_position = length ?bs\<rparr>)"
    unfolding reads_def by (metis append_Nil append_Nil2 list.size(3) add_0)
  obtain x c where c: "read_body \<lparr>cur_bytes = take n ?bs, cur_position = 0\<rparr> = Inr (x, c)"
    "cur_position c = length (cur_bytes c)"
    using p by (auto simp: manifest_parse_def rd_bind_def cursor_finish_def split: if_splits prod.splits)
  have "cur_bytes c = take n ?bs"
    "read_body \<lparr>cur_bytes = take n ?bs @ drop n ?bs, cur_position = 0\<rparr> = Inr (x, c\<lparr>cur_bytes := take n ?bs @ drop n ?bs\<rparr>)"
    using stable_body c(1) unfolding prefix_stable_def by blast+
  with full c(2) have "length (take n ?bs) = length ?bs" by (cases c) force
  then have "take n ?bs = ?bs" by simp
  with p manifest_roundtrip [OF wf] show ?thesis by simp
qed

interpretation manifest: recoverable "\<lambda>_. manifest_parse lower" "manifest_payload lower" "manifest_wf lower" for lower
  by unfold_locales (auto intro: manifest_roundtrip manifest_prefix)

subsection \<open>Accepted torrents can be stored\<close>

lemma split_join:
  "cs \<noteq> [] \<Longrightarrow> \<forall>c \<in> set cs. 0x2f \<notin> set c \<Longrightarrow> split_byte 0x2f (join cs) = cs"
  by (induction cs rule: join.induct) (simp_all add: split_byte_single split_byte_part)

lemma join_nonempty: "cs \<noteq> [] \<Longrightarrow> hd cs \<noteq> [] \<Longrightarrow> join cs \<noteq> [] \<and> hd (join cs) = hd (hd cs)"
  by (induction cs rule: join.induct) simp_all

lemma is_str_join: "\<forall>c \<in> set cs. is_str c \<Longrightarrow> is_str (join cs)"
proof (induction cs rule: join.induct)
  case (3 x y ys)
  have "is_str [0x2f]" unfolding is_str_def by (rule from_utf8_ascii) simp
  with 3 show ?case unfolding is_str_def join.simps by (intro from_utf8_append) auto
qed (simp_all add: is_str_def from_utf8_def)

lemma safe_component_not_bad: "safe_component c \<Longrightarrow> \<not> bad_component c"
proof -
  have "c = [0] \<or> is_control c \<longleftrightarrow> is_control c" for c by (auto simp: is_control_def)
  then show "safe_component c \<Longrightarrow> \<not> bad_component c"
    by (auto simp: safe_component_def unsafe_component_def bad_component_def manifest_reserved_component_def
        is_windows_reserved_component_def)
qed

lemma components_safe:
  assumes "cs \<noteq> []" "\<forall>c \<in> set cs. safe_component c"
  shows "path_components (join cs) = map NormalComp cs" "\<not> is_absolute (join cs)"
proof -
  have c: "c \<noteq> [] \<and> c \<noteq> lit ''.'' \<and> c \<noteq> lit ''..'' \<and> 0x2f \<notin> set c" if "c \<in> set cs" for c
    using assms(2) that by (auto simp: safe_component_def unsafe_component_def)
  have hd: "hd cs \<noteq> []" "hd cs \<noteq> lit ''.''" "hd (hd cs) \<noteq> 0x2f" using c [OF hd_in_set [OF assms(1)]] by (metis hd_in_set)+
  have keep: "filter (\<lambda>x. x \<noteq> [] \<and> x \<noteq> lit ''.'') cs = cs" using c by (auto intro: filter_True)
  have "map component_of cs = map NormalComp cs" using c by (auto simp: component_of_def)
  then show "path_components (join cs) = map NormalComp cs"
    using split_join [OF assms(1)] c hd keep by (simp add: path_components_def Let_def)
  show "\<not> is_absolute (join cs)" using join_nonempty [OF assms(1) hd(1)] hd(3) by (simp add: is_absolute_def)
qed

lemma components_loop_safe:
  "\<forall>c \<in> set cs. safe_component c \<Longrightarrow> n + length cs \<le> 1024 \<Longrightarrow>
     components_loop p (map NormalComp cs) n = Inr (n + length cs)"
  by (induction cs arbitrary: n) (simp_all add: safe_component_not_bad)

lemma safe_path_valid:
  assumes "safe_path p" "length p \<le> MAX_MANIFEST_STRING_BYTES" "length (path_components p) \<le> 1024"
  shows "validate_relative_path p = Inr ()" "is_str p"
proof -
  obtain cs where cs: "cs \<noteq> []" "p = join cs" "\<forall>c \<in> set cs. safe_component c" using assms(1) by (auto simp: safe_path_def)
  have "hd cs \<noteq> []" using cs(1,3) hd_in_set by (fastforce simp: safe_component_def unsafe_component_def)
  then have "p \<noteq> []" using join_nonempty [OF cs(1)] cs(2) by simp
  then show "validate_relative_path p = Inr ()"
    using assms(2,3) components_safe [OF cs(1,3)] components_loop_safe [OF cs(3), of 0 p] cs(1,2)
    by (simp add: validate_relative_path_def)
  show "is_str p" unfolding cs(2) by (rule is_str_join) (use cs(3) in \<open>auto simp: safe_component_def is_str_def\<close>)
qed

lemma offsets_loop_layout:
  "layout_from off fs tot \<Longrightarrow> tot < u64_limit \<Longrightarrow> \<forall>f \<in> set fs. validate_relative_path (f_path f) = Inr () \<Longrightarrow>
     offsets_loop fs off = Inr tot"
proof (induction fs arbitrary: off)
  case (Cons f fs)
  have "off + f_length f \<le> tot" using Cons.prems(1) layout_from_le by fastforce
  with Cons show ?case by (simp add: checked_add64_def)
qed simp

lemma manifest_windows_eq: "manifest_windows ps = Inr () \<longleftrightarrow> check_windows ps = Inr ()"
  by (induction ps rule: check_windows.induct) (simp_all add: colliding_def)

definition manifest_size :: "torrent_metainfo \<Rightarrow> nat" where
  "manifest_size m =
     76 + length (m_name m) + 20 * piece_count m + (\<Sum>f\<leftarrow>m_files m. 20 + length (f_path f))"

definition manifest_sized :: "torrent_metainfo \<Rightarrow> bool" where
  "manifest_sized m \<longleftrightarrow>
     manifest_size m \<le> MAX_MANIFEST_BYTES \<and> length (m_name m) \<le> MAX_MANIFEST_STRING_BYTES
     \<and> (\<forall>f \<in> set (m_files m). length (f_path f) \<le> MAX_MANIFEST_STRING_BYTES \<and> length (path_components (f_path f)) \<le> 1024)"

lemma parsed_validates:
  assumes p: "metainfo_parse sha1 url_parse lower bytes = Inr m" and "manifest_sized m"
  shows "validate_metainfo lower (sm_metainfo (from_metainfo m)) = Inr ()" "is_str (m_name m)"
proof -
  have name: "safe_component (m_name m)" and win: "check_windows (sort (map (\<lambda>f. lower (f_path f)) (m_files m))) = Inr ()"
    using metainfo_parse_steps [OF p] by (metis validate_output_paths_def)+
  note wf = metainfo_parse_wf [OF p]
  then have lay: "layout_from 0 (m_files m) (m_total_length m)" "0 < m_total_length m" by (auto simp: metainfo_wf_def)
  have "length (m_piece_hashes m) \<le> MAX_MANIFEST_PIECES"
    using metainfo_piece_limit [OF p] by (simp add: MAX_METAINFO_BYTES_def MAX_MANIFEST_PIECES_def piece_count_def)
  moreover have "length (m_files m) \<le> MAX_MANIFEST_FILES"
    using metainfo_file_limit [OF p] by (simp add: MAX_CONTAINER_ITEMS_def MAX_MANIFEST_FILES_def)
  moreover have "m_files m \<noteq> []" using lay by auto
  moreover have "offsets_loop (m_files m) 0 = Inr (m_total_length m)"
    using wf assms(2) by (intro offsets_loop_layout) (auto simp: metainfo_wf_def manifest_sized_def intro: safe_path_valid(1))
  moreover have "length (m_piece_hashes m) = (m_total_length m + (m_piece_length m - 1)) div m_piece_length m"
    using metainfo_parse_steps [OF p] by metis
  moreover from this have "m_piece_hashes m \<noteq> []" using wf less_div_ceil_iff [of "m_piece_length m" 0 "m_total_length m"]
    by (auto simp: metainfo_wf_def piece_count_def)
  ultimately show "validate_metainfo lower (sm_metainfo (from_metainfo m)) = Inr ()"
    using wf win safe_component_not_bad [OF name]
    by (auto simp: validate_metainfo_iff from_metainfo_def manifest_windows_eq metainfo_wf_def bad_component_def)
  show "is_str (m_name m)" using name by (simp add: safe_component_def is_str_def)
qed

lemma put_string_short: "length v \<le> MAX_MANIFEST_STRING_BYTES \<Longrightarrow> put_string v = Inr (put_u32 (length v) @ v)"
  by (simp add: put_string_def MAX_MANIFEST_STRING_BYTES_def u32_limit_def)

lemma length_put [simp]: "length (put_u32 n) = 4" "length (put_u64 n) = 8"
  by (simp_all add: put_u32_def put_u64_def)

lemma parsed_encodes:
  assumes p: "metainfo_parse sha1 url_parse lower bytes = Inr m" and s: "manifest_sized m"
    and h: "length (m_info_hash m) = 20"
  shows "manifest_encode lower (from_metainfo m) = Inr (manifest_payload lower (from_metainfo m))"
proof -
  let ?file = "\<lambda>f. put_u64 (f_length f) @ put_u64 (f_offset f) @ put_u32 (length (f_path f)) @ f_path f"
  have fls: "mapM_r put_file (m_files m) = Inr (map ?file (m_files m))"
    using s by (intro mapM_r_all_ok) (simp add: put_file_def put_string_short manifest_sized_def)
  have "length (m_piece_hashes m) < u32_limit" "length (m_files m) < u32_limit"
    using metainfo_piece_limit [OF p] metainfo_file_limit [OF p]
    by (simp_all add: MAX_METAINFO_BYTES_def MAX_CONTAINER_ITEMS_def u32_limit_def piece_count_def)
  moreover have "length (concat (m_piece_hashes m)) = 20 * piece_count m"
    using metainfo_parse_wf [OF p] by (simp add: metainfo_wf_def piece_count_def length_concat sum_list_triv cong: map_cong)
  moreover have "length (concat (map ?file (m_files m))) = (\<Sum>f\<leftarrow>m_files m. 20 + length (f_path f))"
    by (simp add: length_concat comp_def)
  ultimately show ?thesis
    using parsed_validates(1) [OF p s] s fls h
    by (auto simp: manifest_payload_def manifest_encode_def Let_def from_metainfo_def manifest_sized_def manifest_size_def
        put_string_short MANIFEST_MAGIC_def simp del: length_concat)
qed

lemma parsed_manifest_wf:
  assumes "metainfo_parse sha1 url_parse lower bytes = Inr m" "\<forall>x. length (sha1 x) = 20" "manifest_sized m"
  shows "manifest_wf lower (from_metainfo m)"
proof -
  have hash: "length (m_info_hash m) = 20" using metainfo_parse_steps [OF assms(1)] assms(2) by metis
  moreover have "\<forall>f \<in> set (m_files m). is_str (f_path f)"
    using metainfo_parse_wf [OF assms(1)] assms(3) by (auto simp: metainfo_wf_def manifest_sized_def intro: safe_path_valid(2))
  ultimately have "manifest_typed (from_metainfo m)"
    using metainfo_parse_wf [OF assms(1)] parsed_validates(2) [OF assms(1,3)]
    by (simp add: manifest_typed_def from_metainfo_def metainfo_wf_def Let_def)
  then show ?thesis using parsed_encodes [OF assms(1,3) hash] by (simp add: manifest_wf_def)
qed

lemma sample_sized: "manifest_sized sample_meta"
  by (simp add: manifest_sized_def manifest_size_def sample_meta_def MAX_MANIFEST_STRING_BYTES_def MAX_MANIFEST_BYTES_def
      path_components_def piece_count_def lit_def Let_def)

section \<open>Properties\<close>

text \<open>C24: Whatever torrent the parser accepts can be stored and restored: when its name, its paths and
  the total stay within the manifest's limits (64 KiB, 1024 components, 64 MiB), \<open>encode\<close> of its
  manifest succeeds, \<open>parse\<close> returns exactly the manifest that was encoded (the metainfo without its
  trackers and the flag that it had some), and no beginning of the encoding is read as any other
  manifest.\<close>
theorem parsed_torrent_storable:
  assumes "metainfo_parse sha1 url_parse lower bytes = Inr m" "\<forall>x. length (sha1 x) = 20" "manifest_sized m"
  shows "\<exists>payload. manifest_encode lower (from_metainfo m) = Inr payload
    \<and> manifest_parse lower payload = Inr (from_metainfo m)
    \<and> (\<forall>n sm. manifest_parse lower (take n payload) = Inr sm \<longrightarrow> sm = from_metainfo m)"
  using parsed_manifest_wf [OF assms] manifest_roundtrip manifest_prefix unfolding manifest_wf_def by metis

theorem parsed_torrent_storable_witness:
  "\<exists>payload. manifest_encode (\<lambda>s. s) (from_metainfo sample_meta) = Inr payload
     \<and> manifest_parse (\<lambda>s. s) payload = Inr (from_metainfo sample_meta)"
  using parsed_torrent_storable [OF sample_parse] sample_sized by auto

end
