(* ===== verification/Storage.thy ===== *)
theory Storage
  imports Resume Manifest Scheduler
begin

text \<open>
  \<open>crates/nova-torrent-core/src/storage.rs\<close>: the files of a download on disk, its control directory
  with checkpoint, manifest and boundary cache, and the operations on them. A method that takes
  \<open>&mut self\<close> passes the storage record along and returns it with its result; when it fails, the error
  carries the record as the failed call leaves it, so that what a caller still holds after an error
  is part of the model. A stopped process keeps nothing but the file system.
\<close>

definition CONTROL_DIR_NAME :: str where "CONTROL_DIR_NAME = lit ''.nova-torrent''"
definition RESUME_FILE_NAME :: str where "RESUME_FILE_NAME = lit ''resume.state''"
definition MANIFEST_FILE_NAME :: str where "MANIFEST_FILE_NAME = lit ''manifest.bin''"
definition BOUNDARY_DIR_NAME :: str where "BOUNDARY_DIR_NAME = lit ''boundary''"
definition FULL_ALLOCATION_CHUNK :: nat where "FULL_ALLOCATION_CHUNK = 1024 * 1024"

datatype AllocationMode = NoAllocation | Sparse | Full

datatype RecheckMode = CheckpointOnly | FullRecheck

record piece_commit =
  pc_piece_index :: nat
  pc_selected_bytes_written :: nat
  pc_boundary_cached :: bool

record recheck_report =
  rr_checked_pieces :: nat
  rr_valid_pieces :: nat
  rr_invalid_pieces :: nat
  rr_recovered_pieces :: nat
  rr_verified_piece_bytes :: nat
  rr_selected_verified_bytes :: nat

record torrent_storage =
  st_root :: path
  st_control_dir :: path
  st_boundary_dir :: path
  st_checkpoint_path :: path
  st_manifest_path :: path
  st_meta :: torrent_metainfo
  st_selection :: torrent_selection
  st_checkpoint :: checkpoint
  st_had_trackers :: bool

datatype StorageError =
    Resume ResumeError
  | Manifest ManifestError
  | Selection SelectionError
  | Metainfo TorrentMetainfoError
  | SelectionMismatch nat nat
  | FileIndexOutOfRange nat
  | PieceOutOfRange nat
  | PieceNotSelected nat
  | PieceNotVerified nat
  | InvalidUploadBlockLength u32 nat
  | UploadBlockOutsidePiece nat u32 u32 nat
  | PieceHashMismatch nat
  | PieceSliceOutsideBuffer nat
  | MissingBoundaryCache nat
  | CachedPieceLengthMismatch nat nat nat
  | LengthOverflow
  | ManifestIdentityMismatch
  | StaleGeneration nat nat
  | SelectionIncomplete
  | UnsafePath str
  | UnsafePathAt path
  | ReservedPathCollision str
  | ExistingTarget path
  | ExistingResumeState path
  | MissingResumeState path
  | SymlinkOrNonDirectory path
  | SymlinkOrNonFile path
  | Io path

text \<open>\<open>UnsafePathAt\<close> is the source's \<open>UnsafePath\<close> where its text is a displayed path.\<close>

type_synonym 'a smethod = "(StorageError \<times> torrent_storage, 'a \<times> torrent_storage) io"

abbreviation storage_io :: "path \<Rightarrow> (unit, 'a) io \<Rightarrow> (StorageError, 'a) io" where
  "storage_io p m \<equiv> rethrow (\<lambda>_. StorageError.Io p) m"

text \<open>A fallible step of a method, at the point where the record is \<open>st\<close>.\<close>

definition at :: "torrent_storage \<Rightarrow> (StorageError, 'a) io \<Rightarrow> (StorageError \<times> torrent_storage, 'a) io" where
  "at st m = rethrow (\<lambda>e. (e, st)) m"

definition set_checkpoint :: "torrent_storage \<Rightarrow> checkpoint \<Rightarrow> torrent_storage" where
  "set_checkpoint st c = st\<lparr>st_checkpoint := c\<rparr>"

subsection \<open>Paths and directories\<close>

definition control_dir :: "path \<Rightarrow> str \<Rightarrow> path" where
  "control_dir root info_hash = root @ [CONTROL_DIR_NAME, info_hash]"

definition target_path :: "path \<Rightarrow> str \<Rightarrow> (StorageError, path) result" where
  "target_path root relative =
     (if is_absolute relative then Inl (StorageError.UnsafePath relative)
      else rbind (mapM_r (\<lambda>c. ok_or (StorageError.UnsafePath relative) (normal_name c)) (path_components relative)) (\<lambda>names.
        Inr (root @ names)))"

definition ensure_component :: "path \<Rightarrow> (StorageError, unit) io" where
  "ensure_component current =
     ibind (path_exists current) (\<lambda>there.
     if there then
       ibind (storage_io current (fs_symlink_metadata current)) (\<lambda>metadata.
       if metadata \<noteq> Directory then throw (SymlinkOrNonDirectory current) else ret ())
     else storage_io current (fs_create_dir current))"

definition ensure_safe_directory :: "path \<Rightarrow> path \<Rightarrow> (StorageError, unit) io" where
  "ensure_safe_directory root directory =
     (if \<not> starts_with root directory then throw (UnsafePathAt directory)
      else
        ibind (each ensure_component (map (\<lambda>n. take n directory) [Suc (length root)..<Suc (length directory)])) (\<lambda>_.
        ibind (storage_io directory (fs_canonicalize directory)) (\<lambda>canonical.
        if \<not> starts_with root canonical then throw (UnsafePathAt directory) else ret ())))"

definition ensure_existing_safe_directory :: "path \<Rightarrow> path \<Rightarrow> (StorageError, unit) io" where
  "ensure_existing_safe_directory root directory =
     ibind (path_exists directory) (\<lambda>there.
     if \<not> there then throw (MissingResumeState directory) else ensure_safe_directory root directory)"

definition ensure_target_not_symlink :: "path \<Rightarrow> (StorageError, unit) io" where
  "ensure_target_not_symlink p =
     ibind (path_exists p) (\<lambda>there.
     if \<not> there then ret ()
     else
       ibind (storage_io p (fs_symlink_metadata p)) (\<lambda>metadata.
       if file_data (Some metadata) = None then throw (SymlinkOrNonFile p) else ret ()))"

definition prepare_root :: "path \<Rightarrow> (StorageError, path) io" where
  "prepare_root root =
     ibind (storage_io root (fs_create_dir_all root)) (\<lambda>_. storage_io root (fs_canonicalize root))"

definition reserved_path :: "str \<Rightarrow> bool" where
  "reserved_path p =
     (case path_components p of
        NormalComp value # _ \<Rightarrow> eq_ignore_ascii_case value CONTROL_DIR_NAME
      | _ \<Rightarrow> False)"

fun reject_reserved :: "torrent_file list \<Rightarrow> (StorageError, unit) result" where
  "reject_reserved [] = Inr ()"
| "reject_reserved (f # fs) =
     (if reserved_path (f_path f) then Inl (ReservedPathCollision (f_path f)) else reject_reserved fs)"

definition reject_reserved_collision :: "torrent_metainfo \<Rightarrow> (StorageError, unit) result" where
  "reject_reserved_collision m = reject_reserved (m_files m)"

text \<open>\<open>{:08x}\<close>.\<close>

fun nat_to_hex :: "nat \<Rightarrow> str" where
  "nat_to_hex n = (if n < 16 then [HEX ! n] else nat_to_hex (n div 16) @ [HEX ! (n mod 16)])"

declare nat_to_hex.simps [simp del]

definition pad_hex8 :: "nat \<Rightarrow> str" where
  "pad_hex8 n = replicate (8 - length (nat_to_hex n)) 0x30 @ nat_to_hex n"

definition boundary_piece_path :: "torrent_storage \<Rightarrow> nat \<Rightarrow> path" where
  "boundary_piece_path st i = st_boundary_dir st @ [pad_hex8 i @ lit ''.piece'']"

definition remove_boundary_cache :: "torrent_storage \<Rightarrow> nat \<Rightarrow> ('e, unit) io" where
  "remove_boundary_cache st i =
     ibind (ignore (fs_remove_file (boundary_piece_path st i))) (\<lambda>_.
     ignore (fs_remove_file (append_suffix (boundary_piece_path st i) ''.tmp'')))"

subsection \<open>Selections\<close>

text \<open>The slices of a piece, as the storage computes them.\<close>

definition storage_slices :: "torrent_metainfo \<Rightarrow> nat \<Rightarrow> (StorageError, nat \<times> nat \<times> file_slice list) result" where
  "storage_slices m i =
     rbind (ok_or StorageError.LengthOverflow (checked_mul64 i (m_piece_length m))) (\<lambda>piece_start.
     rbind (ok_or (StorageError.PieceOutOfRange i) (piece_size m i)) (\<lambda>size.
     rbind (map_err StorageError.Metainfo (map_range m piece_start size)) (\<lambda>slices.
     Inr (piece_start, size, slices))))"

definition slice_selected :: "torrent_selection \<Rightarrow> file_slice \<Rightarrow> bool" where
  "slice_selected sel s = (case file_priority sel (s_file_index s) of None \<Rightarrow> False | Some p \<Rightarrow> is_selected p)"

definition piece_selected_files ::
  "torrent_metainfo \<Rightarrow> torrent_selection \<Rightarrow> nat \<Rightarrow> (StorageError, nat list) result" where
  "piece_selected_files m sel i =
     rbind (storage_slices m i) (\<lambda>(_, _, slices).
     Inr (remdups_adj (sort (map s_file_index (filter (slice_selected sel) slices)))))"

definition validate_selection :: "torrent_metainfo \<Rightarrow> torrent_selection \<Rightarrow> (StorageError, unit) result" where
  "validate_selection m sel =
     (if length (priorities sel) \<noteq> length (m_files m)
      then Inl (SelectionMismatch (length (m_files m)) (length (priorities sel)))
      else rbind (map_err StorageError.Selection (selected_bytes sel m)) (\<lambda>_. Inr ()))"

fun sum_selected :: "torrent_selection \<Rightarrow> file_slice list \<Rightarrow> nat \<Rightarrow> (StorageError, nat) result" where
  "sum_selected sel [] acc = Inr acc"
| "sum_selected sel (s # ss) acc =
     (if slice_selected sel s
      then rbind (ok_or StorageError.LengthOverflow (checked_add64 acc (s_length s))) (sum_selected sel ss)
      else sum_selected sel ss acc)"

definition selected_bytes_in_piece :: "torrent_storage \<Rightarrow> nat \<Rightarrow> (StorageError, nat) result" where
  "selected_bytes_in_piece st i =
     rbind (storage_slices (st_meta st) i) (\<lambda>(_, _, slices). sum_selected (st_selection st) slices 0)"

definition storage_priority :: "torrent_storage \<Rightarrow> nat \<Rightarrow> (StorageError, FilePriority) result" where
  "storage_priority st i = map_err StorageError.Selection (piece_priority (st_selection st) (st_meta st) i)"

definition storage_boundary :: "torrent_storage \<Rightarrow> nat \<Rightarrow> (StorageError, bool) result" where
  "storage_boundary st i = map_err StorageError.Selection (piece_is_boundary (st_selection st) (st_meta st) i)"

subsection \<open>Payload files\<close>

definition enumerate_files :: "torrent_metainfo \<Rightarrow> (nat \<times> torrent_file) list" where
  "enumerate_files m = zip [0..<length (m_files m)] (m_files m)"

definition check_ancestor :: "path \<Rightarrow> (StorageError, unit) io" where
  "check_ancestor current =
     ibind (path_exists current) (\<lambda>there.
     if \<not> there then ret ()
     else
       ibind (storage_io current (fs_symlink_metadata current)) (\<lambda>metadata.
       if metadata \<noteq> Directory then throw (SymlinkOrNonDirectory current) else ret ()))"

definition preflight_file :: "path \<Rightarrow> torrent_selection \<Rightarrow> nat \<times> torrent_file \<Rightarrow> (StorageError, unit) io" where
  "preflight_file root sel = (\<lambda>(index, file).
     ibind (lift (ok_or (StorageError.FileIndexOutOfRange index) (file_priority sel index))) (\<lambda>priority.
     if \<not> is_selected priority then ret ()
     else
       ibind (lift (target_path root (f_path file))) (\<lambda>p.
       ibind (path_exists p) (\<lambda>there.
       if there then ibind (ensure_target_not_symlink p) (\<lambda>_. throw (ExistingTarget p))
       else if p = [] then ret ()
       else if \<not> starts_with root (butlast p) then throw (UnsafePathAt (butlast p))
       else each check_ancestor (map (\<lambda>n. take n (butlast p)) [Suc (length root)..<Suc (length (butlast p))])))))"

definition preflight_selected_files ::
  "path \<Rightarrow> torrent_metainfo \<Rightarrow> torrent_selection \<Rightarrow> (StorageError, unit) io" where
  "preflight_selected_files root m sel = each (preflight_file root sel) (enumerate_files m)"

function write_zeroes :: "path \<Rightarrow> nat \<Rightarrow> nat \<Rightarrow> (unit, unit) io" where
  "write_zeroes p off remaining =
     (if remaining = 0 then ret ()
      else
        (let n = min remaining FULL_ALLOCATION_CHUNK in
         ibind (fs_write_all p off (replicate n 0)) (\<lambda>_. write_zeroes p (off + n) (remaining - n))))"
  by pat_completeness auto
termination
  by (relation "measure (\<lambda>(p, off, remaining). remaining)") (auto simp: FULL_ALLOCATION_CHUNK_def)

declare write_zeroes.simps [simp del]

definition allocate_file :: "path \<Rightarrow> nat \<Rightarrow> AllocationMode \<Rightarrow> (unit, unit) io" where
  "allocate_file p len allocation =
     (case allocation of
        NoAllocation \<Rightarrow> ret ()
      | Sparse \<Rightarrow> ibind (fs_set_len p len) (\<lambda>_. fs_sync p)
      | Full \<Rightarrow> ibind (fs_set_len p 0) (\<lambda>_. ibind (write_zeroes p 0 len) (\<lambda>_. fs_sync p)))"

text \<open>One file: \<open>None\<close> when nothing is to be recorded, otherwise the checkpoint with the new owned bit.\<close>

definition prepare_target ::
  "path \<Rightarrow> torrent_selection \<Rightarrow> AllocationMode \<Rightarrow> nat \<Rightarrow> torrent_file \<Rightarrow> checkpoint
   \<Rightarrow> (StorageError, checkpoint option) io" where
  "prepare_target root sel allocation index file c =
     ibind (lift (ok_or (StorageError.FileIndexOutOfRange index) (file_priority sel index))) (\<lambda>priority.
     if \<not> is_selected priority then ret None
     else
       ibind (lift (target_path root (f_path file))) (\<lambda>p.
       ibind (if p = [] then throw (StorageError.UnsafePath (f_path file)) else ret (butlast p)) (\<lambda>parent.
       ibind (ensure_safe_directory root parent) (\<lambda>_.
       ibind (ensure_target_not_symlink p) (\<lambda>_.
       ibind (lift (map_err StorageError.Resume (bitmap_is_set (c_owned_files c) index))) (\<lambda>owned.
       ibind (path_exists p) (\<lambda>there.
       if there then (if \<not> owned then throw (ExistingTarget p) else ret None)
       else
         ibind (storage_io p (fs_create_new p)) (\<lambda>_.
         ibind (storage_io p (allocate_file p (f_length file) allocation)) (\<lambda>_.
         ibind (lift (map_err StorageError.Resume (bitmap_set (c_owned_files c) index True))) (\<lambda>b.
         ret (Some (c\<lparr>c_owned_files := b\<rparr>))))))))))))"

definition prepare_file ::
  "path \<Rightarrow> torrent_selection \<Rightarrow> AllocationMode \<Rightarrow> path \<Rightarrow> nat \<times> torrent_file \<Rightarrow> checkpoint
   \<Rightarrow> (StorageError \<times> checkpoint, checkpoint) io" where
  "prepare_file root sel allocation checkpoint_path = (\<lambda>(index, file) c.
     ibind (rethrow (\<lambda>e. (e, c)) (prepare_target root sel allocation index file c)) (\<lambda>changed.
     case changed of
       None \<Rightarrow> ret c
     | Some c' \<Rightarrow>
         ibind (rethrow (\<lambda>e. (StorageError.Resume e, c')) (save_checkpoint_atomic checkpoint_path c')) (\<lambda>_. ret c')))"

fun fold_io :: "('a \<Rightarrow> 's \<Rightarrow> ('e, 's) io) \<Rightarrow> 'a list \<Rightarrow> 's \<Rightarrow> ('e, 's) io" where
  "fold_io g [] s = ret s"
| "fold_io g (x # xs) s = ibind (g x s) (fold_io g xs)"

definition prepare_selected_files_owned ::
  "path \<Rightarrow> torrent_metainfo \<Rightarrow> torrent_selection \<Rightarrow> AllocationMode \<Rightarrow> checkpoint \<Rightarrow> path
   \<Rightarrow> (StorageError \<times> checkpoint, checkpoint) io" where
  "prepare_selected_files_owned root m sel allocation c checkpoint_path =
     fold_io (prepare_file root sel allocation checkpoint_path) (enumerate_files m) c"

subsection \<open>Opening a storage\<close>

definition storage_create ::
  "(str \<Rightarrow> str) \<Rightarrow> path \<Rightarrow> torrent_metainfo \<Rightarrow> torrent_selection \<Rightarrow> AllocationMode \<Rightarrow> (StorageError, torrent_storage) io" where
  "storage_create lower root0 m sel allocation =
     ibind (lift (validate_selection m sel)) (\<lambda>_.
     ibind (prepare_root root0) (\<lambda>root.
     ibind (lift (reject_reserved_collision m)) (\<lambda>_.
     let control = control_dir root (to_hex (m_info_hash m)) in
     ibind (path_exists control) (\<lambda>there.
     if there then throw (ExistingResumeState control)
     else
       ibind (preflight_selected_files root m sel) (\<lambda>_.
       let boundary = control @ [BOUNDARY_DIR_NAME];
           checkpoint_path = control @ [RESUME_FILE_NAME];
           manifest_path = control @ [MANIFEST_FILE_NAME];
           manifest = from_metainfo m
       in
       ibind (ensure_safe_directory root control) (\<lambda>_.
       ibind (ensure_safe_directory root boundary) (\<lambda>_.
       ibind (lift (map_err StorageError.Resume (checkpoint_new m sel))) (\<lambda>c.
       ibind (rethrow StorageError.Resume (save_checkpoint_atomic checkpoint_path c)) (\<lambda>_.
       ibind (rethrow StorageError.Manifest (save_storage_manifest_atomic lower manifest_path manifest)) (\<lambda>_.
       ibind (rethrow fst (prepare_selected_files_owned root m sel allocation c checkpoint_path)) (\<lambda>c'.
       ret \<lparr>st_root = root, st_control_dir = control, st_boundary_dir = boundary,
         st_checkpoint_path = checkpoint_path, st_manifest_path = manifest_path, st_meta = m,
         st_selection = sel, st_checkpoint = c', st_had_trackers = sm_had_trackers manifest\<rparr>)))))))))))"

definition resume_manifest ::
  "(str \<Rightarrow> str) \<Rightarrow> path \<Rightarrow> torrent_metainfo \<Rightarrow> (StorageError, storage_manifest) io" where
  "resume_manifest lower manifest_path m =
     ibind (path_exists manifest_path) (\<lambda>there.
     if there then
       ibind (rethrow StorageError.Manifest (load_storage_manifest_recovering lower manifest_path)) (\<lambda>manifest.
       if m_info_hash (sm_metainfo manifest) \<noteq> m_info_hash m then throw ManifestIdentityMismatch else ret manifest)
     else
       ibind (rethrow StorageError.Manifest (save_storage_manifest_atomic lower manifest_path (from_metainfo m))) (\<lambda>_.
       ret (from_metainfo m)))"

definition storage_resume :: "(str \<Rightarrow> str) \<Rightarrow> path \<Rightarrow> torrent_metainfo \<Rightarrow> (StorageError, torrent_storage) io" where
  "storage_resume lower root0 m =
     ibind (prepare_root root0) (\<lambda>root.
     ibind (lift (reject_reserved_collision m)) (\<lambda>_.
     let control = control_dir root (to_hex (m_info_hash m));
         boundary = control @ [BOUNDARY_DIR_NAME];
         checkpoint_path = control @ [RESUME_FILE_NAME];
         manifest_path = control @ [MANIFEST_FILE_NAME]
     in
     ibind (ensure_existing_safe_directory root control) (\<lambda>_.
     ibind (path_exists boundary) (\<lambda>there.
     ibind (if there then ensure_existing_safe_directory root boundary else ensure_safe_directory root boundary) (\<lambda>_.
     ibind (rethrow StorageError.Resume (load_checkpoint_recovering checkpoint_path m)) (\<lambda>loaded.
     ibind (lift (ok_or (MissingResumeState checkpoint_path) loaded)) (\<lambda>c.
     ibind (lift (map_err StorageError.Resume (checkpoint_selection c m))) (\<lambda>sel.
     ibind (resume_manifest lower manifest_path m) (\<lambda>manifest.
     ibind (rethrow fst (prepare_selected_files_owned root m sel Sparse c checkpoint_path)) (\<lambda>c'.
     ret \<lparr>st_root = root, st_control_dir = control, st_boundary_dir = boundary,
       st_checkpoint_path = checkpoint_path, st_manifest_path = manifest_path, st_meta = m,
       st_selection = sel, st_checkpoint = c', st_had_trackers = sm_had_trackers manifest\<rparr>))))))))))"

definition resume_from_manifest :: "(str \<Rightarrow> str) \<Rightarrow> path \<Rightarrow> info_hash \<Rightarrow> (StorageError, torrent_storage) io" where
  "resume_from_manifest lower root0 info_hash =
     ibind (prepare_root root0) (\<lambda>root.
     let control = control_dir root (to_hex info_hash) in
     ibind (ensure_existing_safe_directory root control) (\<lambda>_.
     ibind (rethrow StorageError.Manifest (load_storage_manifest_recovering lower (control @ [MANIFEST_FILE_NAME]))) (\<lambda>manifest.
     if m_info_hash (sm_metainfo manifest) \<noteq> info_hash then throw ManifestIdentityMismatch
     else storage_resume lower root (sm_metainfo manifest))))"

definition open_or_create ::
  "(str \<Rightarrow> str) \<Rightarrow> path \<Rightarrow> torrent_metainfo \<Rightarrow> torrent_selection \<Rightarrow> AllocationMode \<Rightarrow> (StorageError, torrent_storage) io" where
  "open_or_create lower root0 m sel allocation =
     ibind (prepare_root root0) (\<lambda>root.
     ibind (lift (reject_reserved_collision m)) (\<lambda>_.
     let checkpoint_path = control_dir root (to_hex (m_info_hash m)) @ [RESUME_FILE_NAME] in
     ibind (path_exists checkpoint_path) (\<lambda>there.
     ibind (path_exists (append_suffix checkpoint_path ''.tmp'')) (\<lambda>tmp.
     ibind (path_exists (append_suffix checkpoint_path ''.bak'')) (\<lambda>bak.
     if there \<or> tmp \<or> bak then storage_resume lower root m else storage_create lower root m sel allocation)))))"

subsection \<open>Runs and selections\<close>

definition save_at :: "torrent_storage \<Rightarrow> (StorageError \<times> torrent_storage, unit) io" where
  "save_at st = at st (rethrow StorageError.Resume (save_checkpoint_atomic (st_checkpoint_path st) (st_checkpoint st)))"

definition startrun :: "torrent_storage \<Rightarrow> nat smethod" where
  "startrun st =
     ibind (at st (lift (map_err StorageError.Resume (next_generation (st_checkpoint st))))) (\<lambda>c.
     let st' = set_checkpoint st c in
     ibind (save_at st') (\<lambda>_. ret (c_generation c, st')))"

definition invalidate_run :: "torrent_storage \<Rightarrow> nat smethod" where
  "invalidate_run st = startrun st"

definition ensure_generation :: "torrent_storage \<Rightarrow> nat \<Rightarrow> (StorageError, unit) result" where
  "ensure_generation st generation =
     guard (c_generation (st_checkpoint st) \<noteq> generation) (StaleGeneration (c_generation (st_checkpoint st)) generation)"

definition put_verified :: "torrent_storage \<Rightarrow> nat \<Rightarrow> bool \<Rightarrow> (StorageError, torrent_storage) result" where
  "put_verified st i v =
     rbind (map_err StorageError.Resume (bitmap_set (c_verified (st_checkpoint st)) i v)) (\<lambda>b.
     Inr (set_checkpoint st (st_checkpoint st\<lparr>c_verified := b\<rparr>)))"

definition put_boundary :: "torrent_storage \<Rightarrow> nat \<Rightarrow> bool \<Rightarrow> (StorageError, torrent_storage) result" where
  "put_boundary st i v =
     rbind (map_err StorageError.Resume (bitmap_set (c_boundary_cache (st_checkpoint st)) i v)) (\<lambda>b.
     Inr (set_checkpoint st (st_checkpoint st\<lparr>c_boundary_cache := b\<rparr>)))"

definition is_verified :: "torrent_storage \<Rightarrow> nat \<Rightarrow> (StorageError, bool) result" where
  "is_verified st i = map_err StorageError.Resume (bitmap_is_set (c_verified (st_checkpoint st)) i)"

definition has_boundary :: "torrent_storage \<Rightarrow> nat \<Rightarrow> (StorageError, bool) result" where
  "has_boundary st i = map_err StorageError.Resume (bitmap_is_set (c_boundary_cache (st_checkpoint st)) i)"

definition reselect_piece ::
  "torrent_selection \<Rightarrow> nat \<Rightarrow> torrent_storage \<Rightarrow> (StorageError \<times> torrent_storage, torrent_storage) io" where
  "reselect_piece sel i st =
     ibind (at st (lift (piece_selected_files (st_meta st) (st_selection st) i))) (\<lambda>before.
     ibind (at st (lift (piece_selected_files (st_meta st) sel i))) (\<lambda>after.
     if before = after then ret st
     else
       ibind (at st (lift (put_verified st i False))) (\<lambda>st1.
       ibind (at st1 (lift (put_boundary st1 i False))) (\<lambda>st2.
       ibind (remove_boundary_cache st2 i) (\<lambda>_. ret st2)))))"

definition update_selection :: "torrent_storage \<Rightarrow> torrent_selection \<Rightarrow> nat smethod" where
  "update_selection st sel =
     ibind (at st (lift (validate_selection (st_meta st) sel))) (\<lambda>_.
     ibind (rethrow (\<lambda>(e, c). (e, set_checkpoint st c))
       (prepare_selected_files_owned (st_root st) (st_meta st) sel Sparse (st_checkpoint st) (st_checkpoint_path st))) (\<lambda>c.
     ibind (fold_io (reselect_piece sel) [0..<piece_count (st_meta st)] (set_checkpoint st c)) (\<lambda>st1.
     let st2 = st1\<lparr>st_selection := sel, st_checkpoint := (st_checkpoint st1)\<lparr>c_priorities := priorities sel\<rparr>\<rparr> in
     startrun st2)))"

subsection \<open>Writing and reading pieces\<close>

definition write_file_slice :: "torrent_storage \<Rightarrow> nat \<Rightarrow> nat \<Rightarrow> u8 list \<Rightarrow> (StorageError, unit) io" where
  "write_file_slice st file_index offset bytes =
     ibind (lift (ok_or (StorageError.FileIndexOutOfRange file_index) (get_opt (m_files (st_meta st)) file_index))) (\<lambda>file.
     ibind (lift (target_path (st_root st) (f_path file))) (\<lambda>p.
     ibind (ensure_target_not_symlink p) (\<lambda>_.
     ibind (storage_io p (fs_open p)) (\<lambda>_.
     storage_io p (
       ibind (fs_seek p) (\<lambda>_. ibind (fs_write_all p offset bytes) (\<lambda>_. fs_sync p)))))))"

definition write_boundary_cache :: "torrent_storage \<Rightarrow> nat \<Rightarrow> u8 list \<Rightarrow> (StorageError, unit) io" where
  "write_boundary_cache st i bytes =
     (let p = boundary_piece_path st i; tmp = append_suffix p ''.tmp'' in
      ibind (ensure_safe_directory (st_root st) (st_boundary_dir st)) (\<lambda>_.
      ibind (write_synced StorageError.Io tmp bytes) (\<lambda>_.
      ibind (path_exists p) (\<lambda>there.
      ibind (do_if there (
        ibind (ensure_target_not_symlink p) (\<lambda>_. storage_io p (fs_remove_file p)))) (\<lambda>_.
      ibind (storage_io p (fs_rename tmp p)) (\<lambda>_.
      sync_parent p))))))"

definition write_slice ::
  "torrent_storage \<Rightarrow> nat \<Rightarrow> nat \<Rightarrow> u8 list \<Rightarrow> file_slice \<Rightarrow> nat \<Rightarrow> (StorageError, nat) io" where
  "write_slice st i piece_start bytes s written =
     ibind (lift (ok_or (StorageError.FileIndexOutOfRange (s_file_index s)) (file_priority (st_selection st) (s_file_index s)))) (\<lambda>priority.
     if \<not> is_selected priority then ret written
     else
       ibind (lift (ok_or StorageError.LengthOverflow (checked_sub (s_data_offset s) piece_start))) (\<lambda>start.
       ibind (lift (ok_or StorageError.LengthOverflow (checked_add64 start (s_length s)))) (\<lambda>stop.
       ibind (lift (ok_or (PieceSliceOutsideBuffer i) (bslice_opt bytes start stop))) (\<lambda>data.
       ibind (write_file_slice st (s_file_index s) (s_file_offset s) data) (\<lambda>_.
       lift (ok_or StorageError.LengthOverflow (checked_add64 written (s_length s))))))))"

text \<open>The part of \<open>write_verified_piece\<close> before the checkpoint changes.\<close>

definition store_piece ::
  "(u8 list \<Rightarrow> u8 list) \<Rightarrow> torrent_storage \<Rightarrow> nat \<Rightarrow> nat \<Rightarrow> u8 list \<Rightarrow> (StorageError, nat \<times> bool) io" where
  "store_piece sha1 st generation i bytes =
     ibind (lift (ensure_generation st generation)) (\<lambda>_.
     ibind (lift (storage_priority st i)) (\<lambda>priority.
     if \<not> is_selected priority then throw (PieceNotSelected i)
     else
       ibind (lift (map_err StorageError.Metainfo (verify_piece sha1 (st_meta st) i bytes))) (\<lambda>valid.
       if \<not> valid then throw (PieceHashMismatch i)
       else
         ibind (lift (storage_slices (st_meta st) i)) (\<lambda>(piece_start, _, slices).
         ibind (fold_io (write_slice st i piece_start bytes) slices 0) (\<lambda>written.
         ibind (lift (storage_boundary st i)) (\<lambda>boundary_cached.
         ibind (if boundary_cached then write_boundary_cache st i bytes else remove_boundary_cache st i) (\<lambda>_.
         ibind (lift (ensure_generation st generation)) (\<lambda>_.
         ret (written, boundary_cached)))))))))"

definition write_verified_piece ::
  "(u8 list \<Rightarrow> u8 list) \<Rightarrow> torrent_storage \<Rightarrow> nat \<Rightarrow> nat \<Rightarrow> u8 list \<Rightarrow> piece_commit smethod" where
  "write_verified_piece sha1 st generation i bytes =
     ibind (at st (store_piece sha1 st generation i bytes)) (\<lambda>(written, boundary_cached).
     ibind (at st (lift (put_verified st i True))) (\<lambda>st1.
     ibind (at st1 (lift (put_boundary st1 i boundary_cached))) (\<lambda>st2.
     ibind (save_at st2) (\<lambda>_.
     ret (\<lparr>pc_piece_index = i, pc_selected_bytes_written = written, pc_boundary_cached = boundary_cached\<rparr>, st2)))))"

definition read_slice :: "torrent_storage \<Rightarrow> nat \<Rightarrow> nat \<Rightarrow> file_slice \<Rightarrow> u8 list \<Rightarrow> (StorageError, u8 list) io" where
  "read_slice st i piece_start s piece =
     ibind (lift (ok_or (StorageError.FileIndexOutOfRange (s_file_index s)) (file_priority (st_selection st) (s_file_index s)))) (\<lambda>priority.
     if \<not> is_selected priority then throw (MissingBoundaryCache i)
     else
       ibind (lift (ok_or (StorageError.FileIndexOutOfRange (s_file_index s)) (get_opt (m_files (st_meta st)) (s_file_index s)))) (\<lambda>file.
       ibind (lift (target_path (st_root st) (f_path file))) (\<lambda>p.
       ibind (ensure_target_not_symlink p) (\<lambda>_.
       ibind (storage_io p (fs_open p)) (\<lambda>_.
       ibind (storage_io p (fs_seek p)) (\<lambda>_.
       ibind (lift (ok_or StorageError.LengthOverflow (checked_sub (s_data_offset s) piece_start))) (\<lambda>start.
       ibind (lift (ok_or StorageError.LengthOverflow (checked_add64 start (s_length s)))) (\<lambda>stop.
       ibind (lift (guard (length piece < stop) (PieceSliceOutsideBuffer i))) (\<lambda>_.
       ibind (storage_io p (fs_read_exact p (s_file_offset s) (s_length s))) (\<lambda>data.
       ret (take start piece @ data @ drop stop piece)))))))))))"

definition read_materialized_piece :: "torrent_storage \<Rightarrow> nat \<Rightarrow> (StorageError, u8 list) io" where
  "read_materialized_piece st i =
     ibind (lift (ok_or (StorageError.PieceOutOfRange i) (piece_size (st_meta st) i))) (\<lambda>piece_len.
     ibind (lift (storage_boundary st i)) (\<lambda>boundary.
     if boundary then
       (let p = boundary_piece_path st i in
        ibind (ensure_target_not_symlink p) (\<lambda>_.
        ibind (storage_io p (fs_read p)) (\<lambda>bytes.
        if length bytes \<noteq> piece_len then throw (CachedPieceLengthMismatch i piece_len (length bytes))
        else ret bytes)))
     else
       ibind (lift (storage_slices (st_meta st) i)) (\<lambda>(piece_start, _, slices).
       fold_io (read_slice st i piece_start) slices (replicate piece_len 0))))"

definition piece_valid :: "(u8 list \<Rightarrow> u8 list) \<Rightarrow> torrent_metainfo \<Rightarrow> nat \<Rightarrow> u8 list \<Rightarrow> bool" where
  "piece_valid sha1 m i bytes = (case verify_piece sha1 m i bytes of Inl _ \<Rightarrow> False | Inr v \<Rightarrow> v)"

definition read_verified_block ::
  "(u8 list \<Rightarrow> u8 list) \<Rightarrow> torrent_storage \<Rightarrow> nat \<Rightarrow> u32 \<Rightarrow> u32 \<Rightarrow> u8 list smethod" where
  "read_verified_block sha1 st i start len =
     ibind (at st (
       if len = 0 \<or> DEFAULT_BLOCK_SIZE < unat len then throw (InvalidUploadBlockLength len DEFAULT_BLOCK_SIZE)
       else
         ibind (lift (is_verified st i)) (\<lambda>verified.
         if \<not> verified then throw (PieceNotVerified i)
         else
           ibind (lift (ok_or (StorageError.PieceOutOfRange i) (piece_size (st_meta st) i))) (\<lambda>size.
           ibind (lift (ok_or StorageError.LengthOverflow (checked_add64 (unat start) (unat len)))) (\<lambda>stop.
           if size < stop then throw (UploadBlockOutsidePiece i start len size)
           else read_materialized_piece st i))))) (\<lambda>piece.
     if \<not> piece_valid sha1 (st_meta st) i piece then
       ibind (at st (lift (put_verified st i False))) (\<lambda>st1.
       ibind (at st1 (lift (put_boundary st1 i False))) (\<lambda>st2.
       ibind (remove_boundary_cache st2 i) (\<lambda>_.
       ibind (save_at st2) (\<lambda>_. throw (PieceHashMismatch i, st2)))))
     else
       ibind (at st (lift (ok_or StorageError.LengthOverflow (checked_add64 (unat start) (unat len))))) (\<lambda>stop.
       ibind (at st (lift (ok_or (PieceSliceOutsideBuffer i) (bslice_opt piece (unat start) stop)))) (\<lambda>block.
       ret (block, st))))"

subsection \<open>Recheck\<close>

type_synonym recheck_state = "torrent_storage \<times> recheck_report \<times> bool"

text \<open>A piece outside the selection keeps neither its verified bit nor its cache.\<close>

definition recheck_unselected ::
  "nat \<Rightarrow> bool \<Rightarrow> recheck_state \<Rightarrow> (StorageError \<times> torrent_storage, recheck_state) io" where
  "recheck_unselected i was_verified = (\<lambda>(st, report, changed).
     ibind (at st (if was_verified then lift (put_verified st i False) else ret st)) (\<lambda>st1.
     ibind (at st1 (lift (has_boundary st1 i))) (\<lambda>cached.
     if cached then
       ibind (at st1 (lift (put_boundary st1 i False))) (\<lambda>st2.
       ibind (remove_boundary_cache st2 i) (\<lambda>_. ret (st2, report, True)))
     else ret (st1, report, changed \<or> was_verified))))"

definition recheck_unreadable ::
  "nat \<Rightarrow> bool \<Rightarrow> recheck_state \<Rightarrow> (StorageError \<times> torrent_storage, recheck_state) io" where
  "recheck_unreadable i was_verified = (\<lambda>(st, report, changed).
     let report' = report\<lparr>rr_invalid_pieces := rr_invalid_pieces report + 1\<rparr> in
     if was_verified then
       ibind (at st (lift (put_verified st i False))) (\<lambda>st1.
       ibind (at st1 (lift (put_boundary st1 i False))) (\<lambda>st2. ret (st2, report', True)))
     else ret (st, report', changed))"

definition recheck_valid ::
  "nat \<Rightarrow> bool \<Rightarrow> recheck_state \<Rightarrow> (StorageError \<times> torrent_storage, recheck_state) io" where
  "recheck_valid i was_verified = (\<lambda>(st, report, changed).
     ibind (at st (if was_verified then ret st else lift (put_verified st i True))) (\<lambda>st1.
     ibind (at st1 (lift (storage_boundary st1 i))) (\<lambda>boundary.
     ibind (at st1 (lift (has_boundary st1 i))) (\<lambda>had_boundary.
     ibind (at st1 (if boundary \<noteq> had_boundary then lift (put_boundary st1 i boundary) else ret st1)) (\<lambda>st2.
     ibind (at st2 (lift (ok_or (StorageError.PieceOutOfRange i) (piece_size (st_meta st2) i)))) (\<lambda>size.
     ibind (at st2 (lift (ok_or StorageError.LengthOverflow (checked_add64 (rr_verified_piece_bytes report) size)))) (\<lambda>piece_bytes.
     ibind (at st2 (lift (selected_bytes_in_piece st2 i))) (\<lambda>n.
     ibind (at st2 (lift (ok_or StorageError.LengthOverflow (checked_add64 (rr_selected_verified_bytes report) n)))) (\<lambda>selected.
     ret (st2, report\<lparr>rr_valid_pieces := rr_valid_pieces report + 1,
           rr_recovered_pieces := rr_recovered_pieces report + (if was_verified then 0 else 1),
           rr_verified_piece_bytes := piece_bytes, rr_selected_verified_bytes := selected\<rparr>,
         changed \<or> \<not> was_verified \<or> boundary \<noteq> had_boundary))))))))))"

definition recheck_invalid ::
  "nat \<Rightarrow> bool \<Rightarrow> recheck_state \<Rightarrow> (StorageError \<times> torrent_storage, recheck_state) io" where
  "recheck_invalid i was_verified = (\<lambda>(st, report, changed).
     ibind (at st (if was_verified then lift (put_verified st i False) else ret st)) (\<lambda>st1.
     ibind (at st1 (lift (has_boundary st1 i))) (\<lambda>cached.
     ibind (at st1 (if cached then lift (put_boundary st1 i False) else ret st1)) (\<lambda>st2.
     ibind (remove_boundary_cache st2 i) (\<lambda>_.
     ret (st2, report\<lparr>rr_invalid_pieces := rr_invalid_pieces report + 1\<rparr>, changed \<or> was_verified \<or> cached))))))"

definition recheck_piece ::
  "(u8 list \<Rightarrow> u8 list) \<Rightarrow> RecheckMode \<Rightarrow> nat \<Rightarrow> recheck_state \<Rightarrow> (StorageError \<times> torrent_storage, recheck_state) io" where
  "recheck_piece sha1 mode i = (\<lambda>(st, report, changed).
     ibind (at st (lift (storage_priority st i))) (\<lambda>priority.
     ibind (at st (lift (is_verified st i))) (\<lambda>was_verified.
     if \<not> is_selected priority then recheck_unselected i was_verified (st, report, changed)
     else if \<not> was_verified \<and> mode \<noteq> FullRecheck then ret (st, report, changed)
     else
       (let report1 = report\<lparr>rr_checked_pieces := rr_checked_pieces report + 1\<rparr> in
        ibind (attempt (read_materialized_piece st i)) (\<lambda>r.
        case r of
          Inl _ \<Rightarrow> recheck_unreadable i was_verified (st, report1, changed)
        | Inr piece \<Rightarrow>
            if piece_valid sha1 (st_meta st) i piece then recheck_valid i was_verified (st, report1, changed)
            else recheck_invalid i was_verified (st, report1, changed))))))"

definition empty_report :: recheck_report where
  "empty_report = \<lparr>rr_checked_pieces = 0, rr_valid_pieces = 0, rr_invalid_pieces = 0, rr_recovered_pieces = 0,
     rr_verified_piece_bytes = 0, rr_selected_verified_bytes = 0\<rparr>"

definition startup_recheck ::
  "(u8 list \<Rightarrow> u8 list) \<Rightarrow> torrent_storage \<Rightarrow> RecheckMode \<Rightarrow> recheck_report smethod" where
  "startup_recheck sha1 st mode =
     ibind (fold_io (recheck_piece sha1 mode) [0..<piece_count (st_meta st)] (st, empty_report, False)) (\<lambda>(st', report, changed).
     ibind (do_if changed (save_at st')) (\<lambda>_. ret (report, st')))"

subsection \<open>Completion\<close>

fun completed_loop :: "torrent_storage \<Rightarrow> nat list \<Rightarrow> nat \<Rightarrow> (StorageError, nat) result" where
  "completed_loop st [] acc = Inr acc"
| "completed_loop st (i # is) acc =
     rbind (is_verified st i) (\<lambda>verified.
     rbind (if verified then rbind (storage_priority st i) (\<lambda>p. Inr (is_selected p)) else Inr False) (\<lambda>counts.
     if counts then
       rbind (selected_bytes_in_piece st i) (\<lambda>n.
       rbind (ok_or StorageError.LengthOverflow (checked_add64 acc n)) (completed_loop st is))
     else completed_loop st is acc))"

definition selected_completed_bytes :: "torrent_storage \<Rightarrow> (StorageError, nat) result" where
  "selected_completed_bytes st = completed_loop st [0..<piece_count (st_meta st)] 0"

definition selected_total_bytes :: "torrent_storage \<Rightarrow> (StorageError, nat) result" where
  "selected_total_bytes st = map_err StorageError.Selection (selected_bytes (st_selection st) (st_meta st))"

fun complete_loop :: "torrent_storage \<Rightarrow> nat list \<Rightarrow> (StorageError, bool) result" where
  "complete_loop st [] = Inr True"
| "complete_loop st (i # is) =
     rbind (storage_priority st i) (\<lambda>p.
     rbind (if is_selected p then rbind (is_verified st i) (\<lambda>v. Inr (\<not> v)) else Inr False) (\<lambda>missing.
     if missing then Inr False else complete_loop st is))"

definition is_selected_complete :: "torrent_storage \<Rightarrow> (StorageError, bool) result" where
  "is_selected_complete st = complete_loop st [0..<piece_count (st_meta st)]"

definition finalize_file :: "torrent_storage \<Rightarrow> nat \<times> torrent_file \<Rightarrow> (StorageError, unit) io" where
  "finalize_file st = (\<lambda>(index, file).
     ibind (lift (ok_or (StorageError.FileIndexOutOfRange index) (file_priority (st_selection st) index))) (\<lambda>priority.
     if \<not> is_selected priority then ret ()
     else
       ibind (lift (target_path (st_root st) (f_path file))) (\<lambda>p.
       ibind (ensure_target_not_symlink p) (\<lambda>_.
       ibind (storage_io p (fs_open p)) (\<lambda>_.
       storage_io p (ibind (fs_set_len p (f_length file)) (\<lambda>_. fs_sync p)))))))"

definition finalize_selected :: "torrent_storage \<Rightarrow> nat \<Rightarrow> (StorageError, unit) io" where
  "finalize_selected st generation =
     ibind (lift (ensure_generation st generation)) (\<lambda>_.
     ibind (lift (is_selected_complete st)) (\<lambda>complete.
     if \<not> complete then throw SelectionIncomplete
     else each (finalize_file st) (enumerate_files (st_meta st))))"

subsection \<open>Removal\<close>

definition remove_resume_state :: "torrent_storage \<Rightarrow> (StorageError, unit) io" where
  "remove_resume_state st =
     ibind (path_exists (st_control_dir st)) (\<lambda>there.
     do_if there (storage_io (st_control_dir st) (fs_remove_dir_all (st_control_dir st))))"

definition cleanup_resume_state :: "torrent_storage \<Rightarrow> (StorageError, unit) io" where
  "cleanup_resume_state st = remove_resume_state st"

definition delete_owned_file ::
  "nat \<times> torrent_file \<Rightarrow> torrent_storage \<times> path list \<Rightarrow> (StorageError \<times> torrent_storage, torrent_storage \<times> path list) io" where
  "delete_owned_file = (\<lambda>(index, file) (st, parents).
     ibind (at st (lift (map_err StorageError.Resume (bitmap_is_set (c_owned_files (st_checkpoint st)) index)))) (\<lambda>owned.
     if \<not> owned then ret (st, parents)
     else
       ibind (at st (lift (target_path (st_root st) (f_path file)))) (\<lambda>p.
       ibind (path_exists p) (\<lambda>there.
       ibind (do_if there (at st (
         ibind (ensure_target_not_symlink p) (\<lambda>_. storage_io p (fs_remove_file p))))) (\<lambda>_.
       ibind (at st (lift (map_err StorageError.Resume (bitmap_set (c_owned_files (st_checkpoint st)) index False)))) (\<lambda>b.
       ret (set_checkpoint st (st_checkpoint st\<lparr>c_owned_files := b\<rparr>),
            if p = [] then parents else parents @ [butlast p])))))))"

definition remove_empty_parent :: "path \<Rightarrow> path \<Rightarrow> ('e, unit) io" where
  "remove_empty_parent root directory =
     (if directory = root \<or> \<not> starts_with root directory then ret () else ignore (fs_remove_dir directory))"

definition delete_owned_payload_and_state :: "torrent_storage \<Rightarrow> unit smethod" where
  "delete_owned_payload_and_state st =
     ibind (fold_io delete_owned_file (enumerate_files (st_meta st)) (st, [])) (\<lambda>(st', parents).
     ibind (at st' (remove_resume_state st')) (\<lambda>_.
     ibind (each (remove_empty_parent (st_root st')) (remdups_adj (sort_key (\<lambda>p. - int (length p)) parents))) (\<lambda>_.
     ret ((), st'))))"

end
