(* ===== verification/Storage_Safety.thy ===== *)
theory Storage_Safety
  imports Storage
begin

text \<open>
  What the storage of theory \<open>Storage\<close> guarantees: the disk contents a piece stands for, that reading
  returns exactly them, that writing a piece leaves every other piece alone, and from these that a
  checkpoint never claims a piece whose bytes are not on disk, however the process stops.
\<close>

subsection \<open>What is on disk\<close>

definition slice_on_disk :: "path \<Rightarrow> torrent_metainfo \<Rightarrow> torrent_selection \<Rightarrow> fs \<Rightarrow> file_slice \<Rightarrow> u8 list option" where
  "slice_on_disk root m sel f s =
     (if \<not> slice_selected sel s then None
      else case target_path root (f_path (m_files m ! s_file_index s)) of
        Inl _ \<Rightarrow> None
      | Inr p \<Rightarrow> (case file_data (f p) of
          None \<Rightarrow> None
        | Some d \<Rightarrow> bslice_opt d (s_file_offset s) (s_file_offset s + s_length s)))"

fun slices_on_disk :: "path \<Rightarrow> torrent_metainfo \<Rightarrow> torrent_selection \<Rightarrow> fs \<Rightarrow> file_slice list \<Rightarrow> u8 list option" where
  "slices_on_disk root m sel f [] = Some []"
| "slices_on_disk root m sel f (s # ss) =
     Option.bind (slice_on_disk root m sel f s) (\<lambda>d. map_option ((@) d) (slices_on_disk root m sel f ss))"

definition control_of :: "path \<Rightarrow> torrent_metainfo \<Rightarrow> path" where
  "control_of root m = control_dir root (to_hex (m_info_hash m))"

definition boundary_of :: "path \<Rightarrow> torrent_metainfo \<Rightarrow> nat \<Rightarrow> path" where
  "boundary_of root m i = control_of root m @ [BOUNDARY_DIR_NAME, pad_hex8 i @ lit ''.piece'']"

definition checkpoint_of :: "path \<Rightarrow> torrent_metainfo \<Rightarrow> path" where
  "checkpoint_of root m = control_of root m @ [RESUME_FILE_NAME]"

definition piece_on_disk :: "path \<Rightarrow> torrent_metainfo \<Rightarrow> torrent_selection \<Rightarrow> fs \<Rightarrow> nat \<Rightarrow> u8 list option" where
  "piece_on_disk root m sel f i =
     (case (piece_is_boundary sel m i, storage_slices m i) of
        (Inr True, Inr (_, n, _)) \<Rightarrow>
          Option.bind (file_data (f (boundary_of root m i))) (\<lambda>d. if length d = n then Some d else None)
      | (Inr False, Inr (_, _, slices)) \<Rightarrow> slices_on_disk root m sel f slices
      | _ \<Rightarrow> None)"

text \<open>The well-formedness that opening a storage establishes and every operation keeps.\<close>

definition targets_distinct :: "path \<Rightarrow> torrent_metainfo \<Rightarrow> bool" where
  "targets_distinct root m \<longleftrightarrow>
     (\<forall>j k. j < length (m_files m) \<and> k < length (m_files m) \<and> j \<noteq> k \<longrightarrow>
        target_path root (f_path (m_files m ! j)) \<noteq> target_path root (f_path (m_files m ! k)))"

definition storage_wf :: "torrent_storage \<Rightarrow> bool" where
  "storage_wf st \<longleftrightarrow>
     (let m = st_meta st; root = st_root st in
      metainfo_wf m \<and> checkpoint_wf m (st_checkpoint st)
      \<and> c_priorities (st_checkpoint st) = priorities (st_selection st)
      \<and> reject_reserved_collision m = Inr () \<and> targets_distinct root m
      \<and> st_control_dir st = control_of root m
      \<and> st_boundary_dir st = control_of root m @ [BOUNDARY_DIR_NAME]
      \<and> st_checkpoint_path st = checkpoint_of root m)"

subsection \<open>Rules for loops and steps\<close>

lemma runs_at [runs_intros]: "runs m f Q (\<lambda>e. E (e, st)) S \<Longrightarrow> runs (at st m) f Q E S"
  unfolding at_def by (intro runs_intros)

lemma runs_if: "(b \<Longrightarrow> runs m f Q E S) \<Longrightarrow> (\<not> b \<Longrightarrow> runs n f Q E S) \<Longrightarrow> runs (if b then m else n) f Q E S"
  by simp

lemma runs_lift_bind:
  "(\<And>x. r = Inr x \<Longrightarrow> runs (g x) f Q E S) \<Longrightarrow> (\<And>e. E e f) \<Longrightarrow> runs (ibind (lift r) g) f Q E S"
  by (cases r) simp_all

lemma runs_at_lift_bind:
  "(\<And>x. r = Inr x \<Longrightarrow> runs (g x) f Q E S) \<Longrightarrow> (\<And>e. E e f) \<Longrightarrow> runs (ibind (at st (lift r)) g) f Q E S"
  by (cases r) (simp_all add: at_def)

lemma fold_io_runs:
  assumes "\<And>x s f. x \<in> set xs \<Longrightarrow> I s f \<Longrightarrow> runs (g x s) f I E S" "I s f"
  shows "runs (fold_io g xs s) f I E S"
  using assms
proof (induction xs arbitrary: s f)
  case (Cons x xs)
  have "runs (g x s) f I E S" using Cons.prems by simp
  then have "runs (g x s) f (\<lambda>s' f'. runs (fold_io g xs s') f' I E S) E S"
    by (rule runs_mono) (use Cons in auto)
  then show ?case by (simp add: runs_ibind)
qed simp

text \<open>A program that only looks: what it returns satisfies \<open>Q\<close>, and the files stay as they are.\<close>

definition looks :: "('e, 'a) io \<Rightarrow> fs \<Rightarrow> ('a \<Rightarrow> bool) \<Rightarrow> bool" where
  "looks m f Q \<longleftrightarrow> runs m f (\<lambda>x g. g = f \<and> Q x) (\<lambda>_ g. g = f) (\<lambda>g. g = f)"

named_theorems looks_intros "backward rules for looks"

lemma looks_ret [simp]: "looks (ret x) f Q \<longleftrightarrow> Q x"
  by (simp add: looks_def)

lemma looks_throw [simp]: "looks (throw e) f Q"
  by (simp add: looks_def)

lemma looks_lift [simp]: "looks (lift r) f Q \<longleftrightarrow> (\<forall>x. r = Inr x \<longrightarrow> Q x)"
  by (cases r) (simp_all add: looks_def)

lemma looks_exists [simp]: "looks (path_exists p) f Q \<longleftrightarrow> Q (node_exists f p)"
  by (simp add: looks_def)

lemma looks_ibind [looks_intros]: "looks m f (\<lambda>x. looks (g x) f Q) \<Longrightarrow> looks (ibind m g) f Q"
  unfolding looks_def by (rule runs_ibind) (auto elim!: runs_mono)

lemma looks_mono: "looks m f P \<Longrightarrow> (\<And>x. P x \<Longrightarrow> Q x) \<Longrightarrow> looks m f Q"
  unfolding looks_def by (erule runs_mono) auto

lemma looks_rethrow [looks_intros]: "looks m f Q \<Longrightarrow> looks (rethrow h m) f Q"
  unfolding looks_def by (rule runs_rethrow)

lemma looks_at [looks_intros]: "looks m f Q \<Longrightarrow> looks (at st m) f Q"
  unfolding looks_def by (rule runs_at)

lemma looks_call:
  "(\<And>x g. act f = Some (x, g) \<Longrightarrow> g = f \<and> Q x) \<Longrightarrow> looks (call act) f Q"
  by (auto simp: looks_def split: option.splits)

lemma looks_open [looks_intros]: "(file_data (f p) \<noteq> None \<Longrightarrow> Q ()) \<Longrightarrow> looks (fs_open p) f Q"
  unfolding fs_open_def by (rule looks_call) auto

lemma looks_seek [looks_intros]: "Q () \<Longrightarrow> looks (fs_seek p) f Q"
  unfolding fs_seek_def by (rule looks_call) auto

lemma looks_read [looks_intros]: "(\<And>d. file_data (f p) = Some d \<Longrightarrow> Q d) \<Longrightarrow> looks (fs_read p) f Q"
  unfolding fs_read_def by (rule looks_call) auto

lemma looks_read_exact [looks_intros]:
  "(\<And>d. file_data (f p) = Some d \<Longrightarrow> off + n \<le> length d \<Longrightarrow> Q (bslice d off (off + n))) \<Longrightarrow> looks (fs_read_exact p off n) f Q"
  unfolding fs_read_exact_def by (rule looks_call) (auto split: option.splits if_splits)

lemma looks_metadata [looks_intros]: "(\<And>n. f p = Some n \<Longrightarrow> Q n) \<Longrightarrow> looks (fs_symlink_metadata p) f Q"
  unfolding fs_symlink_metadata_def by (rule looks_call) auto

lemma looks_canonicalize [looks_intros]: "Q p \<Longrightarrow> looks (fs_canonicalize p) f Q"
  unfolding fs_canonicalize_def by (rule looks_call) (auto split: if_splits)

lemma looks_not_symlink [looks_intros]:
  "(file_data (f p) \<noteq> None \<or> \<not> node_exists f p \<Longrightarrow> Q ()) \<Longrightarrow> looks (ensure_target_not_symlink p) f Q"
  unfolding ensure_target_not_symlink_def by (intro looks_intros) (auto intro!: looks_intros)

lemma runs_looks:
  "looks m f P \<Longrightarrow> (\<And>x. P x \<Longrightarrow> Q x f) \<Longrightarrow> (\<And>e. E e f) \<Longrightarrow> S f \<Longrightarrow> runs m f Q E S"
  unfolding looks_def by (erule runs_mono) auto

subsection \<open>Reading a piece\<close>

lemma storage_slices_wf:
  assumes "metainfo_wf m" "i < piece_count m"
  obtains n ss where "storage_slices m i = Inr (i * m_piece_length m, n, ss)" "piece_size m i = Some n"
    "slices_tile (m_files m) (i * m_piece_length m) ss (i * m_piece_length m + n)"
    "i * m_piece_length m + n \<le> m_total_length m" "n \<le> m_piece_length m"
proof -
  obtain n where n: "piece_size m i = Some n" using piece_size_wf(1) [OF assms] by blast
  note range = piece_range_in_payload [OF assms(1) n]
  have lay: "layout_from 0 (m_files m) (m_total_length m)" and lim: "m_total_length m < u64_limit"
    using assms(1) by (auto simp: metainfo_wf_def)
  obtain ss where ss: "map_range m (i * m_piece_length m) n = Inr ss"
    "slices_tile (m_files m) (i * m_piece_length m) ss (i * m_piece_length m + n)"
    using map_range_tiles [OF lay lim range(2)] by blast
  have "checked_mul64 i (m_piece_length m) = Some (i * m_piece_length m)" using range(2) lim by (simp add: opt_iffs)
  with n ss range show ?thesis by (intro that) (simp_all add: storage_slices_def)
qed

lemma piece_index_bound: "storage_slices m i = Inr r \<Longrightarrow> i < piece_count m"
  by (auto simp: storage_slices_def piece_size_def split: if_splits)

lemma read_slice_looks:
  assumes "s_data_offset s = start + length got" "0 < s_length s" "s_file_index s < length (m_files (st_meta st))"
    and "\<And>d. slice_on_disk (st_root st) (st_meta st) (st_selection st) f s = Some d \<Longrightarrow> length d = s_length s \<Longrightarrow>
           Q (got @ d @ replicate rest 0)"
  shows "looks (read_slice st i start s (got @ replicate (s_length s + rest) 0)) f Q"
  unfolding read_slice_def
  using assms
  by (intro looks_intros)
    (auto simp: opt_iffs slice_on_disk_def slice_selected_def intro!: looks_intros split: option.splits)

lemma read_slices_looks:
  assumes "slices_tile (m_files (st_meta st)) a ss b" "a = start + length got"
  shows "looks (fold_io (read_slice st i start) ss (got @ replicate (b - a) 0)) f
    (\<lambda>x. \<exists>d. slices_on_disk (st_root st) (st_meta st) (st_selection st) f ss = Some d \<and> x = got @ d)"
  using assms
proof (induction ss arbitrary: a got)
  case (Cons s ss)
  let ?b = "a + s_length s"
  have t: "slices_tile (m_files (st_meta st)) ?b ss b" and s: "s_data_offset s = a" "0 < s_length s"
    "s_file_index s < length (m_files (st_meta st))" using Cons.prems by auto
  have split: "b - a = s_length s + (b - ?b)" using slices_tile_le [OF t] by simp
  have "looks (read_slice st i start s (got @ replicate (s_length s + (b - ?b)) 0)) f
      (\<lambda>buf. looks (fold_io (read_slice st i start) ss buf) f
        (\<lambda>x. \<exists>d. slices_on_disk (st_root st) (st_meta st) (st_selection st) f (s # ss) = Some d \<and> x = got @ d))"
  proof (rule read_slice_looks)
    fix d
    assume d: "slice_on_disk (st_root st) (st_meta st) (st_selection st) f s = Some d" "length d = s_length s"
    have "looks (fold_io (read_slice st i start) ss ((got @ d) @ replicate (b - ?b) 0)) f
        (\<lambda>x. \<exists>e. slices_on_disk (st_root st) (st_meta st) (st_selection st) f ss = Some e \<and> x = (got @ d) @ e)"
      using Cons.IH [OF t, of "got @ d"] Cons.prems(2) d(2) by simp
    then show "looks (fold_io (read_slice st i start) ss (got @ d @ replicate (b - ?b) 0)) f
        (\<lambda>x. \<exists>d. slices_on_disk (st_root st) (st_meta st) (st_selection st) f (s # ss) = Some d \<and> x = got @ d)"
      unfolding append_assoc by (rule looks_mono) (use d in auto)
  qed (use s Cons.prems(2) in auto)
  then show ?case unfolding split by (simp add: looks_ibind)
qed simp

lemma storage_wf_paths:
  assumes "storage_wf st"
  shows "boundary_piece_path st i = boundary_of (st_root st) (st_meta st) i"
    "st_checkpoint_path st = checkpoint_of (st_root st) (st_meta st)"
    "metainfo_wf (st_meta st)"
  using assms by (auto simp: storage_wf_def boundary_piece_path_def boundary_of_def Let_def)

lemma read_materialized_looks:
  assumes "storage_wf st"
  shows "looks (read_materialized_piece st i) f (\<lambda>b. piece_on_disk (st_root st) (st_meta st) (st_selection st) f i = Some b)"
proof (cases "i < piece_count (st_meta st)")
  case True
  obtain n ss where ss: "storage_slices (st_meta st) i = Inr (i * m_piece_length (st_meta st), n, ss)"
    "piece_size (st_meta st) i = Some n"
    "slices_tile (m_files (st_meta st)) (i * m_piece_length (st_meta st)) ss (i * m_piece_length (st_meta st) + n)"
    using storage_slices_wf [OF storage_wf_paths(3) [OF assms] True] by metis
  show ?thesis
    unfolding read_materialized_piece_def Let_def
    using read_slices_looks [OF ss(3), of "i * m_piece_length (st_meta st)" "[]" i f] ss
    by (intro looks_intros)
      (auto simp: piece_on_disk_def storage_boundary_def storage_wf_paths(1) [OF assms] intro!: looks_intros split: bool.splits)
next
  case False
  then have "piece_size (st_meta st) i = None" by (simp add: piece_size_def)
  then show ?thesis unfolding read_materialized_piece_def by (intro looks_intros) simp
qed

lemma runs_any: "(\<And>x g. Q x g) \<Longrightarrow> (\<And>e g. E e g) \<Longrightarrow> (\<And>g. S g) \<Longrightarrow> runs m f Q E S"
  by (auto simp: runs_def split: outcome.splits prod.splits)

lemma bitmap_set_get: "bitmap_set b i v = Inr b' \<Longrightarrow> bitmap_wf n b \<Longrightarrow>
    i < n \<and> bitmap_wf n b' \<and> (\<forall>j. bm_get b' j = (if i = j then v else bm_get b j))"
proof -
  assume set: "bitmap_set b i v = Inr b'" and wf: "bitmap_wf n b"
  then have "i < n" by (auto simp: bitmap_set_def bitmap_validate_def bitmap_wf_def)
  with bitmap_set_wf [OF wf this, of v] set show ?thesis by (metis sum.inject(2))
qed

lemma put_verified_ok:
  assumes "storage_wf st" "i < piece_count (st_meta st)"
  obtains b where "put_verified st i v = Inr (set_checkpoint st ((st_checkpoint st)\<lparr>c_verified := b\<rparr>))"
    "storage_wf (set_checkpoint st ((st_checkpoint st)\<lparr>c_verified := b\<rparr>))"
    "\<And>j. bm_get b j = (if i = j then v else bm_get (c_verified (st_checkpoint st)) j)"
proof -
  have "bitmap_wf (piece_count (st_meta st)) (c_verified (st_checkpoint st))"
    using assms(1) by (auto simp: storage_wf_def checkpoint_wf_def validate_against_iff Let_def)
  from bitmap_set_wf [OF this assms(2), of v] obtain b where b: "bitmap_set (c_verified (st_checkpoint st)) i v = Inr b"
    "bitmap_wf (piece_count (st_meta st)) b" "\<And>j. bm_get b j = (if i = j then v else bm_get (c_verified (st_checkpoint st)) j)"
    by metis
  have "storage_wf (set_checkpoint st ((st_checkpoint st)\<lparr>c_verified := b\<rparr>))"
    using assms(1) b(2) by (auto simp: set_checkpoint_def storage_wf_def checkpoint_wf_def validate_against_iff bitmap_wf_def Let_def)
  with b that show ?thesis by (simp add: put_verified_def)
qed

lemma put_boundary_ok:
  assumes "storage_wf st" "i < piece_count (st_meta st)"
  obtains b where "put_boundary st i v = Inr (set_checkpoint st ((st_checkpoint st)\<lparr>c_boundary_cache := b\<rparr>))"
    "storage_wf (set_checkpoint st ((st_checkpoint st)\<lparr>c_boundary_cache := b\<rparr>))"
proof -
  have "bitmap_wf (piece_count (st_meta st)) (c_boundary_cache (st_checkpoint st))"
    using assms(1) by (auto simp: storage_wf_def checkpoint_wf_def validate_against_iff Let_def)
  from bitmap_set_wf [OF this assms(2), of v] obtain b where b: "bitmap_set (c_boundary_cache (st_checkpoint st)) i v = Inr b"
    "bitmap_wf (piece_count (st_meta st)) b"
    by metis
  have "storage_wf (set_checkpoint st ((st_checkpoint st)\<lparr>c_boundary_cache := b\<rparr>))"
    using assms(1) b(2) by (auto simp: set_checkpoint_def storage_wf_def checkpoint_wf_def validate_against_iff bitmap_wf_def Let_def)
  with b that show ?thesis by (simp add: put_boundary_def)
qed

lemma set_checkpoint_simps [simp]:
  "st_checkpoint (set_checkpoint st c) = c" "st_meta (set_checkpoint st c) = st_meta st"
  "st_root (set_checkpoint st c) = st_root st" "st_selection (set_checkpoint st c) = st_selection st"
  "st_checkpoint_path (set_checkpoint st c) = st_checkpoint_path st" "st_boundary_dir (set_checkpoint st c) = st_boundary_dir st"
  "set_checkpoint (set_checkpoint st c) d = set_checkpoint st d" "boundary_piece_path (set_checkpoint st c) i = boundary_piece_path st i"
  by (simp_all add: set_checkpoint_def boundary_piece_path_def)

lemma at_simps [simp]: "at st (ret x) = ret x" "at st (throw e) = throw (e, st)"
  by (simp_all add: at_def)

text \<open>Both bits of a piece changed: the record that results.\<close>

lemma put_bits_ok:
  assumes "storage_wf st" "i < piece_count (st_meta st)"
  obtains c b where "put_verified st i v = Inr (set_checkpoint st ((st_checkpoint st)\<lparr>c_verified := b\<rparr>))"
    "put_boundary (set_checkpoint st ((st_checkpoint st)\<lparr>c_verified := b\<rparr>)) i u = Inr (set_checkpoint st c)"
    "storage_wf (set_checkpoint st c)" "storage_wf (set_checkpoint st ((st_checkpoint st)\<lparr>c_verified := b\<rparr>))"
    "c_verified c = b" "c_priorities c = c_priorities (st_checkpoint st)"
    "\<And>j. bm_get b j = (if i = j then v else bm_get (c_verified (st_checkpoint st)) j)"
proof -
  from put_verified_ok [OF assms, of v] obtain b where b:
    "put_verified st i v = Inr (set_checkpoint st ((st_checkpoint st)\<lparr>c_verified := b\<rparr>))"
    "storage_wf (set_checkpoint st ((st_checkpoint st)\<lparr>c_verified := b\<rparr>))"
    "\<And>j. bm_get b j = (if i = j then v else bm_get (c_verified (st_checkpoint st)) j)" by metis
  from put_boundary_ok [OF b(2), of i u] assms(2) obtain d where
    "put_boundary (set_checkpoint st ((st_checkpoint st)\<lparr>c_verified := b\<rparr>)) i u
       = Inr (set_checkpoint st ((st_checkpoint st)\<lparr>c_verified := b, c_boundary_cache := d\<rparr>))"
    "storage_wf (set_checkpoint st ((st_checkpoint st)\<lparr>c_verified := b, c_boundary_cache := d\<rparr>))" by auto
  with b show ?thesis by (intro that [of b "(st_checkpoint st)\<lparr>c_verified := b, c_boundary_cache := d\<rparr>"]) simp_all
qed

lemma is_verified_wf: "storage_wf st \<Longrightarrow> is_verified st i = Inr v \<Longrightarrow>
    i < piece_count (st_meta st) \<and> v = bm_get (c_verified (st_checkpoint st)) i"
  by (auto simp: is_verified_def bitmap_is_set_def bitmap_validate_def storage_wf_def checkpoint_wf_def
      validate_against_iff bitmap_wf_def Let_def)

lemma piece_valid_iff: "piece_valid sha1 m i b \<longleftrightarrow> verify_piece sha1 m i b = Inr True"
  by (cases "verify_piece sha1 m i b") (auto simp: piece_valid_def)

lemma remove_boundary_runs:
  "runs (remove_boundary_cache st i) f
     (\<lambda>_. same_outside {boundary_piece_path st i, tmp_of (boundary_piece_path st i)} f) (\<lambda>_ _. False)
     (same_outside {boundary_piece_path st i, tmp_of (boundary_piece_path st i)} f)"
  unfolding remove_boundary_cache_def fs_remove_file_def
  by (intro runs_intros) (auto intro!: runs_intros split: option.splits node.splits)

lemma save_at_any: "runs (save_at st) f (\<lambda>_ _. True) (\<lambda>(e, st') _. st' = st \<and> (\<exists>x. e = StorageError.Resume x)) (\<lambda>_. True)"
  unfolding save_at_def by (intro runs_at runs_rethrow runs_any) simp_all

lemma read_verified_block_runs:
  assumes "storage_wf st"
  shows "runs (read_verified_block sha1 st i start len) f
    (\<lambda>(block, st') g. st' = st \<and> g = f \<and> bm_get (c_verified (st_checkpoint st)) i
       \<and> (\<exists>piece. piece_on_disk (st_root st) (st_meta st) (st_selection st) f i = Some piece
            \<and> verify_piece sha1 (st_meta st) i piece = Inr True
            \<and> unat start + unat len \<le> length piece \<and> block = bslice piece (unat start) (unat start + unat len)))
    (\<lambda>(e, st') g. st' = st \<or> \<not> bm_get (c_verified (st_checkpoint st')) i) (\<lambda>_. True)"
    (is "runs _ _ ?Q ?E ?S")
proof -
  let ?disk = "\<lambda>b. i < piece_count (st_meta st) \<and> bm_get (c_verified (st_checkpoint st)) i
    \<and> piece_on_disk (st_root st) (st_meta st) (st_selection st) f i = Some b"
  have revoke: "runs (ibind (at st (lift (put_verified st i False))) (\<lambda>st1.
       ibind (at st1 (lift (put_boundary st1 i False))) (\<lambda>st2.
       ibind (remove_boundary_cache st2 i) (\<lambda>_.
       ibind (save_at st2) (\<lambda>_. throw (PieceHashMismatch i, st2)))))) f ?Q ?E ?S"
    if i: "i < piece_count (st_meta st)"
  proof -
    obtain c b where "put_verified st i False = Inr (set_checkpoint st ((st_checkpoint st)\<lparr>c_verified := b\<rparr>))"
      "put_boundary (set_checkpoint st ((st_checkpoint st)\<lparr>c_verified := b\<rparr>)) i False = Inr (set_checkpoint st c)"
      "\<not> bm_get (c_verified c) i"
      using put_bits_ok [OF assms i, of False False] by (metis (full_types))
    then show ?thesis
      by (auto intro!: runs_ibind runs_mono [OF remove_boundary_runs] runs_mono [OF save_at_any])
  qed
  have "looks (if len = 0 \<or> DEFAULT_BLOCK_SIZE < unat len then throw (InvalidUploadBlockLength len DEFAULT_BLOCK_SIZE)
       else
         ibind (lift (is_verified st i)) (\<lambda>verified.
         if \<not> verified then throw (PieceNotVerified i)
         else
           ibind (lift (ok_or (StorageError.PieceOutOfRange i) (piece_size (st_meta st) i))) (\<lambda>size.
           ibind (lift (ok_or StorageError.LengthOverflow (checked_add64 (unat start) (unat len)))) (\<lambda>stop.
           if size < stop then throw (UploadBlockOutsidePiece i start len size)
           else read_materialized_piece st i)))) f ?disk"
    using is_verified_wf [OF assms]
    by (auto intro!: looks_intros looks_mono [OF read_materialized_looks [OF assms]])
  moreover have serve: "runs (ibind (at st (lift (ok_or StorageError.LengthOverflow (checked_add64 (unat start) (unat len))))) (\<lambda>stop.
       ibind (at st (lift (ok_or (PieceSliceOutsideBuffer i) (bslice_opt piece (unat start) stop)))) (\<lambda>block.
       ret (block, st)))) f ?Q ?E ?S" if "?disk piece" "piece_valid sha1 (st_meta st) i piece" for piece
    using that
    by (auto simp: piece_valid_iff opt_iffs bslice_opt_def intro!: runs_intros split: sum.splits)
  ultimately show ?thesis unfolding read_verified_block_def
  proof (intro runs_ibind runs_at, elim runs_looks)
    fix piece assume d: "?disk piece"
    then have i: "i < piece_count (st_meta st)" by blast
    show "runs (if \<not> piece_valid sha1 (st_meta st) i piece then
       ibind (at st (lift (put_verified st i False))) (\<lambda>st1.
       ibind (at st1 (lift (put_boundary st1 i False))) (\<lambda>st2.
       ibind (remove_boundary_cache st2 i) (\<lambda>_.
       ibind (save_at st2) (\<lambda>_. throw (PieceHashMismatch i, st2)))))
     else
       ibind (at st (lift (ok_or StorageError.LengthOverflow (checked_add64 (unat start) (unat len))))) (\<lambda>stop.
       ibind (at st (lift (ok_or (PieceSliceOutsideBuffer i) (bslice_opt piece (unat start) stop)))) (\<lambda>block.
       ret (block, st)))) f ?Q ?E ?S"
      by (intro runs_if revoke [OF i] serve [OF d]) simp
  qed simp_all
qed

subsection \<open>Frames\<close>

definition targets :: "path \<Rightarrow> torrent_metainfo \<Rightarrow> path set" where
  "targets root m = {p. \<exists>k<length (m_files m). target_path root (f_path (m_files m ! k)) = Inr p}"

text \<open>Outside \<open>X\<close>, nothing happens but the creation of directories.\<close>

definition extends :: "path set \<Rightarrow> fs \<Rightarrow> fs \<Rightarrow> bool" where
  "extends X f g \<longleftrightarrow> (\<forall>q. q \<notin> X \<longrightarrow> g q = f q \<or> f q = None \<and> g q = Some Directory)"

lemma extends_refl [simp]: "extends X f f"
  by (simp add: extends_def)

lemma extends_trans: "extends X f g \<Longrightarrow> extends X g h \<Longrightarrow> extends X f h"
  unfolding extends_def by metis

lemma extends_mono: "extends X f g \<Longrightarrow> X \<subseteq> Y \<Longrightarrow> extends Y f g"
  by (auto simp: extends_def)

lemma extends_made_dirs: "made_dirs p f g \<Longrightarrow> extends X f g"
  by (auto simp: extends_def made_dirs_def)

lemma extends_same_outside: "same_outside X f g \<Longrightarrow> extends X f g"
  by (auto simp: extends_def same_outside_def)

lemma extends_file: "extends X f g \<Longrightarrow> q \<notin> X \<Longrightarrow> file_data (f q) = Some d \<Longrightarrow> g q = f q"
  unfolding extends_def by (metis file_data.simps(2) option.distinct(1))

lemma slice_on_disk_extends:
  assumes "extends X f g" "X \<inter> targets root m = {}" "s_file_index s < length (m_files m)"
    and "slice_on_disk root m sel f s = Some d"
  shows "slice_on_disk root m sel g s = Some d"
proof -
  obtain p x where p: "target_path root (f_path (m_files m ! s_file_index s)) = Inr p" and x: "file_data (f p) = Some x"
    using assms(4) by (auto simp: slice_on_disk_def split: if_splits sum.splits option.splits)
  have "p \<in> targets root m" using p assms(3) by (auto simp: targets_def)
  then have "g p = f p" using extends_file [OF assms(1) _ x] assms(2) by auto
  with assms(4) p show ?thesis by (auto simp: slice_on_disk_def split: if_splits)
qed

lemma slices_on_disk_cong:
  assumes "\<And>s d. s \<in> set ss \<Longrightarrow> slice_on_disk root m sel f s = Some d \<Longrightarrow> slice_on_disk root m sel g s = Some d"
    and "slices_on_disk root m sel f ss = Some d"
  shows "slices_on_disk root m sel g ss = Some d"
  using assms
proof (induction ss arbitrary: d)
  case (Cons s ss)
  then show ?case by (fastforce simp: bind_eq_Some_conv)
qed simp

lemma piece_on_disk_extends:
  assumes "extends X f g" "X \<inter> targets root m = {}" "boundary_of root m i \<notin> X \<or> piece_is_boundary sel m i = Inr False"
    and "metainfo_wf m" and d: "piece_on_disk root m sel f i = Some d"
  shows "piece_on_disk root m sel g i = Some d"
proof -
  obtain r where "storage_slices m i = Inr r" using d by (auto simp: piece_on_disk_def split: sum.splits bool.splits)
  then obtain n ss where ss: "storage_slices m i = Inr (i * m_piece_length m, n, ss)"
    "slices_tile (m_files m) (i * m_piece_length m) ss (i * m_piece_length m + n)"
    using storage_slices_wf [OF assms(4) piece_index_bound] by metis
  have sl: "slices_on_disk root m sel f ss = Some d \<Longrightarrow> slices_on_disk root m sel g ss = Some d"
    using slice_on_disk_extends [OF assms(1,2)] slices_tile_member [OF ss(2)] by (auto elim!: slices_on_disk_cong [rotated])
  have "piece_is_boundary sel m i = Inr True \<Longrightarrow> file_data (f (boundary_of root m i)) = Some d \<Longrightarrow>
      g (boundary_of root m i) = f (boundary_of root m i)"
    using extends_file [OF assms(1)] assms(3) by auto
  with sl d show ?thesis
    by (auto simp: piece_on_disk_def ss(1) bind_eq_Some_conv split: sum.splits bool.splits if_splits)
qed

subsection \<open>Writing slices\<close>

lemma length_overwrite: "length (overwrite old off new) = max (length old) (off + length new)"
  by (simp add: overwrite_def)

lemma bslice_nth: "k < j - i \<Longrightarrow> j \<le> length xs \<Longrightarrow> bslice xs i j ! k = xs ! (i + k)"
  by (simp add: bslice_def)

lemma overwrite_nth_other: "k < length old \<Longrightarrow> k < off \<or> off + length new \<le> k \<Longrightarrow> overwrite old off new ! k = old ! k"
  by (auto simp: overwrite_def nth_append min_def)

lemma bslice_overwrite_other:
  assumes "b \<le> length old" "b \<le> off \<or> off + length new \<le> a"
  shows "bslice (overwrite old off new) a b = bslice old a b"
proof (rule nth_equalityI)
  have "b \<le> length (overwrite old off new)" using assms(1) by (simp add: length_overwrite)
  then show "length (bslice (overwrite old off new) a b) = length (bslice old a b)" using assms(1) by simp
  fix k assume "k < length (bslice (overwrite old off new) a b)"
  then have "k < b - a" by simp
  then show "bslice (overwrite old off new) a b ! k = bslice old a b ! k"
    using assms \<open>b \<le> length (overwrite old off new)\<close> by (auto intro!: overwrite_nth_other simp: bslice_nth)
qed

lemma bslice_overwrite_same: "bslice (overwrite old off new) off (off + length new) = new"
  by (simp add: overwrite_def bslice_def min_def)

definition preserves :: "path \<Rightarrow> torrent_metainfo \<Rightarrow> torrent_selection \<Rightarrow> nat \<Rightarrow> nat \<Rightarrow> fs \<Rightarrow> fs \<Rightarrow> bool" where
  "preserves root m sel lo hi f g \<longleftrightarrow>
     (\<forall>s d. s_file_index s < length (m_files m) \<and> f_offset (m_files m ! s_file_index s) + s_file_offset s = s_data_offset s
        \<and> (s_data_offset s + s_length s \<le> lo \<or> hi \<le> s_data_offset s) \<and> slice_on_disk root m sel f s = Some d
        \<longrightarrow> slice_on_disk root m sel g s = Some d)
     \<and> (\<forall>q. q \<notin> targets root m \<longrightarrow> g q = f q)"

lemma preserves_refl [simp]: "preserves root m sel lo hi f f"
  by (simp add: preserves_def)

lemma preserves_trans:
  "preserves root m sel lo hi f g \<Longrightarrow> preserves root m sel lo hi g h \<Longrightarrow> preserves root m sel lo hi f h"
  unfolding preserves_def by metis

lemma preserves_mono:
  "preserves root m sel lo hi f g \<Longrightarrow> lo' \<le> lo \<Longrightarrow> hi \<le> hi' \<Longrightarrow> preserves root m sel lo' hi' f g"
  unfolding preserves_def by (meson order_trans)

lemma write_at_preserves:
  assumes dist: "targets_distinct root m" and k: "k < length (m_files m)" "target_path root (f_path (m_files m ! k)) = Inr p"
  shows "preserves root m sel (f_offset (m_files m ! k) + off) (f_offset (m_files m ! k) + off + length new) f (write_at p off new f)"
  unfolding preserves_def
proof (intro conjI allI impI, elim conjE)
  fix s d
  assume s: "s_file_index s < length (m_files m)" "f_offset (m_files m ! s_file_index s) + s_file_offset s = s_data_offset s"
    "s_data_offset s + s_length s \<le> f_offset (m_files m ! k) + off
       \<or> f_offset (m_files m ! k) + off + length new \<le> s_data_offset s"
    "slice_on_disk root m sel f s = Some d"
  obtain q x where q: "target_path root (f_path (m_files m ! s_file_index s)) = Inr q" and x: "file_data (f q) = Some x"
    using s(4) by (auto simp: slice_on_disk_def split: if_splits sum.splits option.splits)
  show "slice_on_disk root m sel (write_at p off new f) s = Some d"
  proof (cases "s_file_index s = k")
    case True
    with q k(2) have "q = p" by simp
    with s True q x show ?thesis
      by (auto simp: slice_on_disk_def write_at_def bslice_opt_def length_overwrite bslice_overwrite_other split: if_splits)
  next
    case False
    with dist s(1) k q have "q \<noteq> p" unfolding targets_distinct_def by metis
    with s(4) q show ?thesis by (auto simp: slice_on_disk_def split: if_splits)
  qed
next
  fix q
  assume "q \<notin> targets root m"
  with k have "q \<noteq> p" by (auto simp: targets_def)
  then show "write_at p off new f q = f q" by simp
qed

lemma write_at_slice:
  assumes "slice_selected sel s" "target_path root (f_path (m_files m ! s_file_index s)) = Inr p"
    and "file_data (f p) \<noteq> None" "length new = s_length s" "0 < s_length s"
  shows "slice_on_disk root m sel (write_at p (s_file_offset s) new f) s = Some new"
  using assms bslice_overwrite_same [of _ "s_file_offset s" new]
  by (auto simp: slice_on_disk_def write_at_def bslice_opt_def length_overwrite)

lemma write_file_slice_runs:
  fixes st k off new f
  defines "wrote \<equiv> \<lambda>g. \<exists>p j. target_path (st_root st) (f_path (m_files (st_meta st) ! k)) = Inr p \<and> g = write_at p off (take j new) f"
  shows "runs (write_file_slice st k off new) f
    (\<lambda>_ g. \<exists>p. target_path (st_root st) (f_path (m_files (st_meta st) ! k)) = Inr p \<and> file_data (f p) \<noteq> None
       \<and> g = write_at p off new f)
    (\<lambda>_ g. g = f \<or> wrote g) (\<lambda>g. g = f \<or> wrote g)"
proof -
  have full: "wrote (write_at p off new f)"
    if "target_path (st_root st) (f_path (m_files (st_meta st) ! k)) = Inr p" for p
    using that unfolding wrote_def by (intro exI [of _ p] exI [of _ "length new"]) simp
  have part: "wrote (write_at p off (take j new) f)"
    if "target_path (st_root st) (f_path (m_files (st_meta st) ! k)) = Inr p" for p j
    using that unfolding wrote_def by blast
  show ?thesis
    unfolding write_file_slice_def fs_write_all_def fs_sync_def fs_open_def fs_seek_def
    by (intro runs_lift_bind runs_ibind runs_looks [OF looks_not_symlink [where Q = "\<lambda>_. True"]])
      (auto simp: opt_iffs full part intro!: runs_intros split: option.splits)
qed

lemma write_slice_runs:
  fixes st s f
  defines "P \<equiv> preserves (st_root st) (st_meta st) (st_selection st) (s_data_offset s) (s_data_offset s + s_length s) f"
  assumes dist: "targets_distinct (st_root st) (st_meta st)"
    and s: "s_file_index s < length (m_files (st_meta st))" "0 < s_length s" "start \<le> s_data_offset s"
      "f_offset (m_files (st_meta st) ! s_file_index s) + s_file_offset s = s_data_offset s"
  shows "runs (write_slice st i start bytes s n) f
    (\<lambda>_ g. P g \<and> (slice_selected (st_selection st) s \<longrightarrow>
       slice_on_disk (st_root st) (st_meta st) (st_selection st) g s
         = Some (bslice bytes (s_data_offset s - start) (s_data_offset s - start + s_length s))))
    (\<lambda>_. P) P"
    (is "runs _ _ ?Q _ _")
proof -
  let ?new = "bslice bytes (s_data_offset s - start) (s_data_offset s - start + s_length s)"
  have part: "P (write_at p (s_file_offset s) (take j ?new) f)"
    if "target_path (st_root st) (f_path (m_files (st_meta st) ! s_file_index s)) = Inr p" for p j
    unfolding P_def s(4) [symmetric]
    by (rule preserves_mono [OF write_at_preserves [OF dist s(1) that]]) (simp_all add: s(4))
  from part [where j = "length ?new"] have all: "P (write_at p (s_file_offset s) ?new f)"
    if "target_path (st_root st) (f_path (m_files (st_meta st) ! s_file_index s)) = Inr p" for p
    using that by (metis take_all order_refl)
  have P: "P f" by (simp add: P_def)
  have "runs (ibind (write_file_slice st (s_file_index s) (s_file_offset s) ?new) (\<lambda>_.
      lift (ok_or StorageError.LengthOverflow (checked_add64 n (s_length s))))) f ?Q (\<lambda>_. P) P"
    if "s_data_offset s - start + s_length s \<le> length bytes"
  proof -
    have "length ?new = s_length s" using that by simp
    then show ?thesis
      using P s(2)
      by (intro runs_ibind runs_mono [OF write_file_slice_runs])
        (auto simp: part all intro!: write_at_slice split: sum.splits)
  qed
  then show ?thesis
    unfolding write_slice_def
    by (intro runs_lift_bind runs_if) (auto simp: opt_iffs P slice_selected_def bslice_opt_def split: if_splits)
qed

lemma write_slices_runs:
  assumes dist: "targets_distinct (st_root st) (st_meta st)"
    and "slices_tile (m_files (st_meta st)) a ss b" "start \<le> a"
  shows "runs (fold_io (write_slice st i start bytes) ss n) f
    (\<lambda>_ g. preserves (st_root st) (st_meta st) (st_selection st) a b f g
       \<and> (\<forall>s \<in> set ss. slice_selected (st_selection st) s \<longrightarrow>
           slice_on_disk (st_root st) (st_meta st) (st_selection st) g s
             = Some (bslice bytes (s_data_offset s - start) (s_data_offset s - start + s_length s))))
    (\<lambda>_. preserves (st_root st) (st_meta st) (st_selection st) a b f)
    (preserves (st_root st) (st_meta st) (st_selection st) a b f)"
  using assms(2,3)
proof (induction ss arbitrary: a n f)
  case (Cons s ss)
  let ?pre = "preserves (st_root st) (st_meta st) (st_selection st)"
  have t: "slices_tile (m_files (st_meta st)) (a + s_length s) ss b" and s: "s_data_offset s = a" "0 < s_length s"
    "s_file_index s < length (m_files (st_meta st))"
    "f_offset (m_files (st_meta st) ! s_file_index s) + s_file_offset s = s_data_offset s" using Cons.prems by auto
  have le: "a + s_length s \<le> b" using slices_tile_le [OF t] .
  have wide: "?pre a b f g" if "?pre a (a + s_length s) f g" for g using preserves_mono [OF that] le by simp
  have "?pre a b f h" if "?pre a (a + s_length s) f g" "?pre (a + s_length s) b g h" for g h
    using preserves_trans [OF wide [OF that(1)]] preserves_mono [OF that(2)] by simp
  moreover have "slice_on_disk (st_root st) (st_meta st) (st_selection st) h s = Some d"
    if "?pre (a + s_length s) b g h" "slice_on_disk (st_root st) (st_meta st) (st_selection st) g s = Some d" for g h d
    using that s unfolding preserves_def by auto
  ultimately show ?case
    unfolding fold_io.simps using Cons.prems(2)
    by (intro runs_ibind runs_mono [OF write_slice_runs [OF dist s(3,2) _ s(4), unfolded s(1)]])
      (auto simp: s(1) wide intro!: runs_mono [OF Cons.IH [OF t]])
qed simp

lemma slices_written:
  assumes "slices_tile (m_files m) a ss b" "start \<le> a" "b - start \<le> length bytes"
    and "\<And>s. s \<in> set ss \<Longrightarrow>
      slice_on_disk root m sel g s = Some (bslice bytes (s_data_offset s - start) (s_data_offset s - start + s_length s))"
  shows "slices_on_disk root m sel g ss = Some (bslice bytes (a - start) (b - start))"
  using assms
proof (induction ss arbitrary: a)
  case (Cons s ss)
  have le: "a + s_length s \<le> b" using Cons.prems(1) slices_tile_le by fastforce
  have "slices_on_disk root m sel g ss = Some (bslice bytes (a + s_length s - start) (b - start))"
    using Cons.prems by (intro Cons.IH) auto
  moreover have "bslice bytes (a - start) (b - start)
      = bslice bytes (a - start) (a + s_length s - start) @ bslice bytes (a + s_length s - start) (b - start)"
    using le Cons.prems(2,3) by (intro bslice_split) auto
  ultimately show ?case using Cons.prems by auto
qed (simp add: bslice_def)

subsection \<open>The control directory is apart from the payload\<close>

lemma reject_reserved_iff: "reject_reserved fs = Inr () \<longleftrightarrow> (\<forall>f \<in> set fs. \<not> reserved_path (f_path f))"
  by (induction fs) auto

lemma control_not_target:
  assumes "reject_reserved_collision m = Inr ()"
  shows "root @ CONTROL_DIR_NAME # rest \<notin> targets root m"
proof
  assume "root @ CONTROL_DIR_NAME # rest \<in> targets root m"
  then obtain k names where k: "k < length (m_files m)" "root @ CONTROL_DIR_NAME # rest = root @ names"
    and n: "mapM_r (\<lambda>c. ok_or (StorageError.UnsafePath (f_path (m_files m ! k))) (normal_name c))
      (path_components (f_path (m_files m ! k))) = Inr names"
    by (auto simp: targets_def target_path_def split: if_splits)
  from n k(2) obtain c cs where "path_components (f_path (m_files m ! k)) = c # cs" "normal_name c = Some CONTROL_DIR_NAME"
    by (auto simp: mapM_r_Inr_iff list_all2_Cons2)
  then have "reserved_path (f_path (m_files m ! k))"
    by (cases c) (simp_all add: reserved_path_def eq_ignore_ascii_case_def)
  with assms k(1) show False by (auto simp: reject_reserved_collision_def reject_reserved_iff)
qed

definition hex_value :: "str \<Rightarrow> nat" where
  "hex_value ds = foldl (\<lambda>acc b. acc * 16 + (case resume_hex_nibble b of None \<Rightarrow> 0 | Some v \<Rightarrow> unat v)) 0 ds"

lemma hex_value_HEX: "n < 16 \<Longrightarrow> (case resume_hex_nibble (HEX ! n) of None \<Rightarrow> 0 | Some v \<Rightarrow> unat v) = n"
  by (simp add: resume_hex_nibble_HEX unat_of_nat)

lemma hex_value_nat_to_hex: "hex_value (nat_to_hex n) = n"
proof (induction n rule: nat_to_hex.induct)
  case (1 n)
  then show ?case by (subst nat_to_hex.simps) (simp add: hex_value_def hex_value_HEX)
qed

lemma hex_value_pad: "hex_value (replicate k 0x30 @ ds) = hex_value ds"
proof -
  have "foldl (\<lambda>acc b. acc * 16 + (case resume_hex_nibble b of None \<Rightarrow> 0 | Some v \<Rightarrow> unat v)) 0 (replicate k 0x30) = 0"
    by (induction k) (simp_all add: resume_hex_nibble_def)
  then show ?thesis by (simp add: hex_value_def)
qed

lemma pad_hex8_inject: "pad_hex8 i = pad_hex8 j \<longleftrightarrow> i = j"
  by (metis pad_hex8_def hex_value_pad hex_value_nat_to_hex)

lemma boundary_distinct:
  "boundary_of root m i = boundary_of root m j \<longleftrightarrow> i = j" "boundary_of root m i \<noteq> tmp_of (boundary_of root m j)"
proof -
  show "boundary_of root m i = boundary_of root m j \<longleftrightarrow> i = j" by (simp add: boundary_of_def pad_hex8_inject)
  have "last (pad_hex8 i @ lit ''.piece'') \<noteq> last ((pad_hex8 j @ lit ''.piece'') @ lit ''.tmp'')"
    by (simp add: lit_def)
  then show "boundary_of root m i \<noteq> tmp_of (boundary_of root m j)" by (auto simp: boundary_of_def append_suffix_def dest: arg_cong [of _ _ last])
qed

lemma boundary_not_control: "boundary_of root m i \<notin> control_files (checkpoint_of root m)"
  by (auto simp: boundary_of_def checkpoint_of_def control_files_def append_suffix_def dest: arg_cong [of _ _ length])

lemma control_paths_apart:
  assumes "reject_reserved_collision m = Inr ()"
  shows "{boundary_of root m i, tmp_of (boundary_of root m i)} \<inter> targets root m = {}"
    "control_files (checkpoint_of root m) \<inter> targets root m = {}"
  using control_not_target [OF assms, of root]
  by (auto simp: boundary_of_def checkpoint_of_def control_of_def control_dir_def control_files_def append_suffix_def butlast_append)

subsection \<open>The boundary cache\<close>

lemma ensure_component_runs: "extends X f g \<Longrightarrow> runs (ensure_component p) g (\<lambda>_. extends X f) (\<lambda>_. extends X f) (extends X f)"
proof -
  assume e: "extends X f g"
  have "extends X f (g(p := Some Directory))" if "g p = None"
    using e that by (auto simp: extends_def dest: spec [of _ p])
  with e show ?thesis
    unfolding ensure_component_def fs_symlink_metadata_def fs_create_dir_def
    by (intro runs_intros) (auto intro!: runs_intros split: option.splits)
qed

lemma ensure_safe_directory_runs:
  assumes "extends X f g"
  shows "runs (ensure_safe_directory root d) g (\<lambda>_. extends X f) (\<lambda>_. extends X f) (extends X f)"
proof -
  have comps: "runs (each ensure_component ps) g (\<lambda>_. extends X f) (\<lambda>_. extends X f) (extends X f)" for ps
    using assms by (intro each_runs ensure_component_runs)
  show ?thesis
    unfolding ensure_safe_directory_def
    using assms
    by (intro runs_if runs_ibind runs_mono [OF comps])
      (auto simp: fs_canonicalize_def intro!: runs_intros split: if_splits)
qed

lemma write_synced_extends:
  assumes "extends X f g" "tmp \<in> X"
  shows "runs (write_synced io_error tmp bytes) g
    (\<lambda>_ h. extends X f h \<and> h tmp = Some (File bytes)) (\<lambda>_. extends X f) (extends X f)"
proof -
  have upd: "extends X f (h(tmp := x))" if "extends X f h" for h x using that assms(2) by (auto simp: extends_def)
  have wr: "extends X f (write_at tmp off d h)" if "extends X f h" for h off d
    using that upd by (auto simp: write_at_def split: option.splits)
  show ?thesis
    unfolding write_synced_def fs_open_truncate_def fs_write_all_def fs_sync_def
    using assms by (intro runs_intros) (auto intro!: runs_intros upd wr split: option.splits)
qed

lemma write_boundary_cache_runs:
  fixes st i
  assumes "storage_wf st"
  defines "p \<equiv> boundary_of (st_root st) (st_meta st) i"
  defines "X \<equiv> {p, tmp_of p}"
  shows "runs (write_boundary_cache st i bytes) f
    (\<lambda>_ g. extends X f g \<and> g p = Some (File bytes)) (\<lambda>_. extends X f) (extends X f)"
proof -
  have bp: "boundary_piece_path st i = p" using storage_wf_paths(1) [OF assms(1)] by (simp add: p_def)
  have ne: "p \<noteq> []" by (simp add: p_def boundary_of_def)
  have upd: "extends X f (h(q := x))" if "extends X f h" "q \<in> X" for h q x using that by (auto simp: extends_def)
  have last: "runs (ibind (storage_io p (fs_rename (tmp_of p) p)) (\<lambda>_. sync_parent p)) h
      (\<lambda>_ g. extends X f g \<and> g p = Some (File bytes)) (\<lambda>_. extends X f) (extends X f)"
    if "extends X f h" "h (tmp_of p) = Some (File bytes)" for h
    unfolding fs_rename_def using that
    by (intro runs_intros) (auto simp: X_def ne intro!: upd [unfolded X_def] sync_parent_runs)
  have rm: "runs (do_if there (
        ibind (ensure_target_not_symlink p) (\<lambda>_. storage_io p (fs_remove_file p)))) h
      (\<lambda>_ g. extends X f g \<and> g (tmp_of p) = Some (File bytes)) (\<lambda>_. extends X f) (extends X f)"
    if "extends X f h" "h (tmp_of p) = Some (File bytes)" for h there
    using that ne
    by (auto simp: fs_remove_file_def X_def intro!: upd [unfolded X_def] runs_intros
        runs_looks [OF looks_not_symlink [where Q = "\<lambda>_. True"]] split: option.splits node.splits)
  have "runs (ibind (do_if there (
        ibind (ensure_target_not_symlink p) (\<lambda>_. storage_io p (fs_remove_file p)))) (\<lambda>_.
      ibind (storage_io p (fs_rename (tmp_of p) p)) (\<lambda>_. sync_parent p))) h
      (\<lambda>_ g. extends X f g \<and> g p = Some (File bytes)) (\<lambda>_. extends X f) (extends X f)"
    if "extends X f h" "h (tmp_of p) = Some (File bytes)" for h there
    by (rule runs_ibind, rule runs_mono [OF rm [OF that]]) (simp_all add: last)
  then show ?thesis
    unfolding write_boundary_cache_def Let_def bp
    by (intro runs_ibind runs_mono [OF ensure_safe_directory_runs [OF extends_refl]] runs_mono [OF write_synced_extends])
      (auto simp: X_def)
qed

subsection \<open>Storing a piece leaves the others alone\<close>

definition keeps :: "torrent_storage \<Rightarrow> nat \<Rightarrow> fs \<Rightarrow> fs \<Rightarrow> bool" where
  "keeps st i f g \<longleftrightarrow>
     (\<forall>j d. j \<noteq> i \<and> piece_on_disk (st_root st) (st_meta st) (st_selection st) f j = Some d
        \<longrightarrow> piece_on_disk (st_root st) (st_meta st) (st_selection st) g j = Some d)
     \<and> (\<forall>d. file_data (f (st_checkpoint_path st)) = Some d \<longrightarrow> g (st_checkpoint_path st) = f (st_checkpoint_path st))"

lemma keeps_refl [simp]: "keeps st i f f"
  by (simp add: keeps_def)

lemma keeps_trans: "keeps st i f g \<Longrightarrow> keeps st i g h \<Longrightarrow> keeps st i f h"
  unfolding keeps_def by metis

lemma checkpoint_not_boundary: "checkpoint_of root m \<notin> {boundary_of root m i, tmp_of (boundary_of root m i)}"
  by (auto simp: boundary_of_def checkpoint_of_def append_suffix_def dest: arg_cong [of _ _ length])

lemma extends_keeps:
  assumes "storage_wf st" "extends {boundary_of (st_root st) (st_meta st) i, tmp_of (boundary_of (st_root st) (st_meta st) i)} f g"
  shows "keeps st i f g"
proof -
  let ?m = "st_meta st" and ?root = "st_root st"
  have wf: "metainfo_wf ?m" "reject_reserved_collision ?m = Inr ()" "st_checkpoint_path st = checkpoint_of ?root ?m"
    using assms(1) by (auto simp: storage_wf_def Let_def)
  have "piece_on_disk ?root ?m (st_selection st) g j = Some d"
    if "j \<noteq> i" "piece_on_disk ?root ?m (st_selection st) f j = Some d" for j d
    using piece_on_disk_extends [OF assms(2) control_paths_apart(1) [OF wf(2)] _ wf(1) that(2)] that(1)
      boundary_distinct [of ?root ?m] by auto
  moreover have "g (checkpoint_of ?root ?m) = f (checkpoint_of ?root ?m)" if "file_data (f (checkpoint_of ?root ?m)) = Some d" for d
    using extends_file [OF assms(2) checkpoint_not_boundary that] .
  ultimately show ?thesis by (auto simp: keeps_def wf(3))
qed

lemma preserves_keeps:
  assumes "storage_wf st" "n \<le> m_piece_length (st_meta st)"
    and p: "preserves (st_root st) (st_meta st) (st_selection st) (i * m_piece_length (st_meta st)) (i * m_piece_length (st_meta st) + n) f g"
  shows "keeps st i f g"
proof -
  let ?m = "st_meta st" and ?root = "st_root st" and ?pl = "m_piece_length (st_meta st)"
  have wf: "metainfo_wf ?m" "reject_reserved_collision ?m = Inr ()" "st_checkpoint_path st = checkpoint_of ?root ?m"
    using assms(1) by (auto simp: storage_wf_def Let_def)
  have same: "g q = f q" if "q \<notin> targets ?root ?m" for q using p that by (simp add: preserves_def)
  have "piece_on_disk ?root ?m (st_selection st) g j = Some d"
    if j: "j \<noteq> i" and d: "piece_on_disk ?root ?m (st_selection st) f j = Some d" for j d
  proof -
    obtain r where "storage_slices ?m j = Inr r" using d by (auto simp: piece_on_disk_def split: sum.splits bool.splits)
    then obtain k ss where ss: "storage_slices ?m j = Inr (j * ?pl, k, ss)" "k \<le> ?pl"
      "slices_tile (m_files ?m) (j * ?pl) ss (j * ?pl + k)"
      using storage_slices_wf [OF wf(1) piece_index_bound] by metis
    have apart: "j * ?pl + k \<le> i * ?pl \<or> i * ?pl + n \<le> j * ?pl"
    proof (cases "j < i")
      case True
      then have "Suc j * ?pl \<le> i * ?pl" by (intro mult_le_mono1) simp
      with ss(2) show ?thesis by simp
    next
      case False
      with j have "Suc i * ?pl \<le> j * ?pl" by (intro mult_le_mono1) simp
      with assms(2) show ?thesis by simp
    qed
    have "slice_on_disk ?root ?m (st_selection st) g s = Some x"
      if "s \<in> set ss" "slice_on_disk ?root ?m (st_selection st) f s = Some x" for s x
      using p that slices_tile_member [OF ss(3) that(1)] apart unfolding preserves_def by auto
    then have "slices_on_disk ?root ?m (st_selection st) f ss = Some d \<Longrightarrow> slices_on_disk ?root ?m (st_selection st) g ss = Some d"
      by (auto elim!: slices_on_disk_cong [rotated])
    moreover have "g (boundary_of ?root ?m j) = f (boundary_of ?root ?m j)"
      using control_paths_apart(1) [OF wf(2), of ?root j] by (intro same) auto
    ultimately show ?thesis using d by (auto simp: piece_on_disk_def ss(1) split: sum.splits bool.splits)
  qed
  moreover have "g (checkpoint_of ?root ?m) = f (checkpoint_of ?root ?m)"
    using control_paths_apart(2) [OF wf(2), of ?root] by (intro same) (auto simp: control_files_def)
  ultimately show ?thesis by (auto simp: keeps_def wf(3))
qed

lemma nonboundary_selected:
  assumes "storage_slices m i = Inr (start, n, ss)" "length (priorities sel) = length (m_files m)"
    and "slices_tile (m_files m) a ss b" "piece_priority sel m i = Inr p" "is_selected p" "piece_is_boundary sel m i = Inr False"
    and "s \<in> set ss"
  shows "slice_selected sel s"
proof -
  have "piece_slices sel m i = Inr ss"
    using assms(1,2) by (auto simp: piece_slices_def storage_slices_def selection_validate_def)
  then have "\<not> list_ex (\<lambda>s. case file_priority sel (s_file_index s) of None \<Rightarrow> False | Some p \<Rightarrow> \<not> is_selected p) ss"
    using assms(4-6) by (simp add: piece_is_boundary_def piece_has_skipped_slice_def)
  moreover have "s_file_index s < length (m_files m)" using slices_tile_member [OF assms(3,7)] by blast
  ultimately show ?thesis
    using assms(2,7) by (fastforce simp: list_ex_iff slice_selected_def file_priority_def get_opt_def split: option.splits)
qed

lemma storage_wf_selection: "storage_wf st \<Longrightarrow> length (priorities (st_selection st)) = length (m_files (st_meta st))"
  by (metis storage_wf_def checkpoint_wf_def validate_against_iff)

lemma store_piece_runs:
  assumes wf: "storage_wf st"
  shows "runs (store_piece sha1 st generation i bytes) f
    (\<lambda>_ g. keeps st i f g \<and> i < piece_count (st_meta st) \<and> verify_piece sha1 (st_meta st) i bytes = Inr True
       \<and> piece_on_disk (st_root st) (st_meta st) (st_selection st) g i = Some bytes)
    (\<lambda>_. keeps st i f) (keeps st i f)"
    (is "runs _ _ ?Q ?E ?S")
proof -
  let ?m = "st_meta st" and ?root = "st_root st" and ?sel = "st_selection st" and ?pl = "m_piece_length (st_meta st)"
  have m: "metainfo_wf ?m" "reject_reserved_collision ?m = Inr ()" "targets_distinct ?root ?m"
    using wf by (auto simp: storage_wf_def Let_def)
  have bp: "boundary_piece_path st i = boundary_of ?root ?m i" using storage_wf_paths(1) [OF wf] .
  have tail: "runs (ibind (if bc then write_boundary_cache st i bytes else remove_boundary_cache st i) (\<lambda>_.
         ibind (lift (ensure_generation st generation)) (\<lambda>_. ret (written, bc)))) g ?Q ?E ?S"
    if v: "verify_piece sha1 ?m i bytes = Inr True" and sl: "storage_slices ?m i = Inr (i * ?pl, n, ss)" "piece_size ?m i = Some n"
      "slices_tile (m_files ?m) (i * ?pl) ss (i * ?pl + n)" and p: "piece_priority ?sel ?m i = Inr p" "is_selected p"
      and bc: "piece_is_boundary ?sel ?m i = Inr bc" and k: "keeps st i f g"
      and d: "\<forall>s \<in> set ss. slice_selected ?sel s \<longrightarrow> slice_on_disk ?root ?m ?sel g s
             = Some (bslice bytes (s_data_offset s - i * ?pl) (s_data_offset s - i * ?pl + s_length s))"
    for g bc n ss p written
  proof -
    have i: "i < piece_count ?m" using piece_index_bound [OF sl(1)] .
    have len: "length bytes = n" using v sl(2) by (auto simp: verify_piece_def split: if_splits)
    have k2: "keeps st i f h" if "extends {boundary_of ?root ?m i, tmp_of (boundary_of ?root ?m i)} g h" for h
      using keeps_trans [OF k extends_keeps [OF wf that]] .
    show ?thesis
    proof (cases bc)
      case True
      have "piece_on_disk ?root ?m ?sel h i = Some bytes" if "h (boundary_of ?root ?m i) = Some (File bytes)" for h
        using that bc True sl(1) len by (simp add: piece_on_disk_def)
      then show ?thesis
        using True i v k2
        by (simp, intro runs_ibind runs_mono [OF write_boundary_cache_runs [OF wf]]) (auto intro!: runs_intros split: sum.splits)
    next
      case False
      have "slices_on_disk ?root ?m ?sel g ss = Some (bslice bytes (i * ?pl - i * ?pl) (i * ?pl + n - i * ?pl))"
        using d nonboundary_selected [OF sl(1) storage_wf_selection [OF wf] sl(3) p] bc False len
        by (intro slices_written [OF sl(3)]) auto
      then have "piece_on_disk ?root ?m ?sel g i = Some bytes"
        using bc False sl(1) len by (simp add: piece_on_disk_def bslice_def)
      then have "piece_on_disk ?root ?m ?sel h i = Some bytes"
        if "extends {boundary_of ?root ?m i, tmp_of (boundary_of ?root ?m i)} g h" for h
        using piece_on_disk_extends [OF that control_paths_apart(1) [OF m(2)] _ m(1)] bc False by simp
      then show ?thesis
        using False i v k2 extends_same_outside
        by (simp, intro runs_ibind runs_mono [OF remove_boundary_runs])
          (fastforce simp: bp intro!: runs_intros split: sum.splits)+
    qed
  qed
  have "runs (ibind (fold_io (write_slice st i start bytes) ss 0) (\<lambda>written.
         ibind (lift (storage_boundary st i)) (\<lambda>bc.
         ibind (if bc then write_boundary_cache st i bytes else remove_boundary_cache st i) (\<lambda>_.
         ibind (lift (ensure_generation st generation)) (\<lambda>_. ret (written, bc)))))) f ?Q ?E ?S"
    if v: "verify_piece sha1 ?m i bytes = Inr True" and sl: "storage_slices ?m i = Inr (start, n, ss)"
      and p: "piece_priority ?sel ?m i = Inr p" "is_selected p" for start n ss p
  proof -
    have st: "start = i * ?pl" "piece_size ?m i = Some n" "slices_tile (m_files ?m) (i * ?pl) ss (i * ?pl + n)" "n \<le> ?pl"
      using storage_slices_wf [OF m(1) piece_index_bound [OF sl]] sl by (metis Pair_inject sum.inject(2))+
    show ?thesis
      unfolding st(1)
    proof (rule runs_ibind, rule runs_mono [OF write_slices_runs [OF m(3) st(3) order_refl]], elim conjE)
      fix written g
      assume pre: "preserves ?root ?m ?sel (i * ?pl) (i * ?pl + n) f g"
        and d: "\<forall>s \<in> set ss. slice_selected ?sel s \<longrightarrow> slice_on_disk ?root ?m ?sel g s
             = Some (bslice bytes (s_data_offset s - i * ?pl) (s_data_offset s - i * ?pl + s_length s))"
      note k = preserves_keeps [OF wf st(4) pre]
      show "runs (ibind (lift (storage_boundary st i)) (\<lambda>bc.
         ibind (if bc then write_boundary_cache st i bytes else remove_boundary_cache st i) (\<lambda>_.
         ibind (lift (ensure_generation st generation)) (\<lambda>_. ret (written, bc))))) g ?Q ?E ?S"
        by (rule runs_lift_bind, rule tail [OF v sl [unfolded st(1)] st(2,3) p _ k d]) (simp_all add: storage_boundary_def k)
    qed (auto intro: preserves_keeps [OF wf st(4)])
  qed
  then show ?thesis
    unfolding store_piece_def
    by (intro runs_lift_bind runs_if) (auto simp: storage_priority_def split: prod.splits)
qed

subsection \<open>Checkpoints that tell the truth\<close>

definition sound :: "(u8 list \<Rightarrow> u8 list) \<Rightarrow> path \<Rightarrow> torrent_metainfo \<Rightarrow> checkpoint \<Rightarrow> fs \<Rightarrow> bool" where
  "sound sha1 root m c f \<longleftrightarrow>
     (\<forall>i. i < piece_count m \<and> bm_get (c_verified c) i \<longrightarrow>
        (\<exists>bytes. piece_on_disk root m \<lparr>priorities = c_priorities c\<rparr> f i = Some bytes
           \<and> verify_piece sha1 m i bytes = Inr True))"

lemma sound_keeps:
  assumes "sound sha1 (st_root st) (st_meta st) c f" "keeps st i f g" "\<not> bm_get (c_verified c) i"
    and "c_priorities c = priorities (st_selection st)"
  shows "sound sha1 (st_root st) (st_meta st) c g"
  unfolding sound_def
proof (intro allI impI, elim conjE)
  fix j assume j: "j < piece_count (st_meta st)" "bm_get (c_verified c) j"
  have sel: "\<lparr>priorities = c_priorities c\<rparr> = st_selection st" using assms(4) by simp
  have "j \<noteq> i" using j(2) assms(3) by auto
  with assms(1,2) j show "\<exists>bytes. piece_on_disk (st_root st) (st_meta st) \<lparr>priorities = c_priorities c\<rparr> g j = Some bytes
      \<and> verify_piece sha1 (st_meta st) j bytes = Inr True"
    unfolding sel sound_def keeps_def by metis
qed

lemma sound_extends:
  assumes "sound sha1 root m c f" "extends (control_files (checkpoint_of root m)) f g"
    and "metainfo_wf m" "reject_reserved_collision m = Inr ()"
  shows "sound sha1 root m c g"
  using assms(1) piece_on_disk_extends [OF assms(2) control_paths_apart(2) [OF assms(4)] _ assms(3)]
    boundary_not_control [of root m]
  unfolding sound_def by meson

lemma save_checkpoint_runs:
  assumes "p \<noteq> []" "f p = Some (File old)" "read_checkpoint m p old = Inr b" "checkpoint_wf m c"
  shows "runs (save_checkpoint_atomic p c) f
    (\<lambda>_ g. recovered (read_checkpoint m) g p = Some c \<and> extends (control_files p) f g)
    (\<lambda>_ g. (recovered (read_checkpoint m) g p = Some b \<or> recovered (read_checkpoint m) g p = Some c) \<and> extends (control_files p) f g)
    (\<lambda>g. (recovered (read_checkpoint m) g p = Some b \<or> recovered (read_checkpoint m) g p = Some c) \<and> extends (control_files p) f g)"
  unfolding runs_def
proof (intro allI impI)
  fix w :: world assume w: "files w = f"
  obtain r w' where sv: "save_checkpoint_atomic p c w = (r, w')" by fastforce
  note saved = resume.save_recovered [OF assms(1) assms(2) [folded w] assms(3,4) sv [unfolded save_checkpoint_atomic_def]]
  have "extends (control_files p) f (files w')" using saved(3) w by (auto simp: extends_def)
  with saved(1) saved(2) show "case save_checkpoint_atomic p c w of
      (Done x, w') \<Rightarrow> recovered (read_checkpoint m) (files w') p = Some c \<and> extends (control_files p) f (files w')
    | (Err e, w') \<Rightarrow> (recovered (read_checkpoint m) (files w') p = Some b \<or> recovered (read_checkpoint m) (files w') p = Some c)
        \<and> extends (control_files p) f (files w')
    | (Stopped, w') \<Rightarrow> (recovered (read_checkpoint m) (files w') p = Some b \<or> recovered (read_checkpoint m) (files w') p = Some c)
        \<and> extends (control_files p) f (files w')"
    unfolding sv by (auto split: outcome.splits)
qed

lemma save_at_frame:
  assumes "storage_wf st"
  shows "runs (save_at st) f (\<lambda>_. extends (control_files (checkpoint_of (st_root st) (st_meta st))) f) (\<lambda>_ _. True) (\<lambda>_. True)"
proof -
  let ?p = "checkpoint_of (st_root st) (st_meta st)"
  have ne: "?p \<noteq> []" by (simp add: checkpoint_of_def)
  have "runs (replace_file ResumeError.Io ?p (checkpoint_encode c)) g (\<lambda>_. extends (control_files ?p) f) (\<lambda>_ _. True) (\<lambda>_. True)"
    if "made_dirs ?p f g" for c g
    by (rule runs_mono [OF replace_file_frame [OF ne same_outside_refl]])
      (use that extends_trans [OF extends_made_dirs [OF that] extends_same_outside] in auto)
  then show ?thesis
    unfolding save_at_def save_checkpoint_atomic_def storage_wf_paths(2) [OF assms]
    by (intro runs_at runs_rethrow runs_ibind runs_mono [OF ensure_parent_runs]) auto
qed

text \<open>The disk holds a checkpoint that tells the truth.\<close>

definition disk_sound :: "(u8 list \<Rightarrow> u8 list) \<Rightarrow> path \<Rightarrow> torrent_metainfo \<Rightarrow> fs \<Rightarrow> bool" where
  "disk_sound sha1 root m f \<longleftrightarrow>
     (\<exists>d. recovered (read_checkpoint m) f (checkpoint_of root m) = Some d \<and> sound sha1 root m d f)"

definition storage_sound :: "(u8 list \<Rightarrow> u8 list) \<Rightarrow> torrent_storage \<Rightarrow> fs \<Rightarrow> bool" where
  "storage_sound sha1 st f \<longleftrightarrow> storage_wf st \<and> sound sha1 (st_root st) (st_meta st) (st_checkpoint st) f"

lemma storage_sound_saved:
  assumes "storage_sound sha1 st f" "extends (control_files (checkpoint_of (st_root st) (st_meta st))) f g"
  shows "storage_sound sha1 st g"
  using assms sound_extends [of sha1 "st_root st" "st_meta st" "st_checkpoint st" f g]
  by (auto simp: storage_sound_def storage_wf_def Let_def)

lemma write_piece_runs:
  fixes st
  defines "root \<equiv> st_root st" and "m \<equiv> st_meta st"
  assumes st: "storage_sound sha1 st f" and p: "f (checkpoint_of root m) = Some (File old)"
    and b: "read_checkpoint m (checkpoint_of root m) old = Inr b" "sound sha1 root m b f"
      "c_priorities b = priorities (st_selection st)"
    and i: "\<not> bm_get (c_verified b) i" "\<not> bm_get (c_verified (st_checkpoint st)) i"
  shows "runs (write_verified_piece sha1 st generation i bytes) f
    (\<lambda>(_, st') g. storage_sound sha1 st' g \<and> (\<exists>c. st' = set_checkpoint st c) \<and> bm_get (c_verified (st_checkpoint st')) i
       \<and> recovered (read_checkpoint m) g (checkpoint_of root m) = Some (st_checkpoint st'))
    (\<lambda>(_, st') g. storage_sound sha1 st' g \<and> disk_sound sha1 root m g) (disk_sound sha1 root m)"
    (is "runs _ _ ?Q ?E ?S")
proof -
  have wf: "storage_wf st" "metainfo_wf m" "reject_reserved_collision m = Inr ()" "st_checkpoint_path st = checkpoint_of root m"
    and pr: "c_priorities (st_checkpoint st) = priorities (st_selection st)"
    and sst: "sound sha1 root m (st_checkpoint st) f"
    using st by (auto simp: storage_sound_def storage_wf_def Let_def root_def m_def)
  have kept: "sound sha1 root m b g" "sound sha1 root m (st_checkpoint st) g" "g (checkpoint_of root m) = Some (File old)"
    if "keeps st i f g" for g
    using sound_keeps [OF _ that i(1) b(3)] b(2) sound_keeps [OF _ that i(2) pr] sst that p wf(4)
    by (auto simp: root_def m_def keeps_def)
  have before: "?E (e, st) g \<and> ?S g" if "keeps st i f g" for e g
    using kept [OF that] b(1) wf(1)
    by (auto simp: disk_sound_def storage_sound_def recovered_def candidate_value_def root_def m_def)
  have commit: "runs (ibind (at st (lift (put_verified st i True))) (\<lambda>st1.
     ibind (at st1 (lift (put_boundary st1 i bc))) (\<lambda>st2. ibind (save_at st2) (\<lambda>_. ret (pc, st2))))) g ?Q ?E ?S"
    if k: "keeps st i f g" and cnt: "i < piece_count m" and v: "verify_piece sha1 m i bytes = Inr True"
      and d: "piece_on_disk root m (st_selection st) g i = Some bytes" for g bc pc
  proof -
    obtain c bm where st1: "put_verified st i True = Inr (set_checkpoint st ((st_checkpoint st)\<lparr>c_verified := bm\<rparr>))"
      and st2: "put_boundary (set_checkpoint st ((st_checkpoint st)\<lparr>c_verified := bm\<rparr>)) i bc = Inr (set_checkpoint st c)"
      and wf2: "storage_wf (set_checkpoint st c)" and c: "c_verified c = bm" "c_priorities c = c_priorities (st_checkpoint st)"
      and get: "\<And>j. bm_get bm j = (if i = j then True else bm_get (c_verified (st_checkpoint st)) j)"
      using put_bits_ok [OF wf(1) cnt [unfolded m_def], of True bc] by metis
    have "\<lparr>priorities = c_priorities c\<rparr> = st_selection st" using c(2) pr by simp
    then have snd: "sound sha1 root m c g"
      using kept(2) [OF k] d v pr unfolding sound_def c(1) by (metis get c(2))
    have cw: "checkpoint_wf m c" using wf2 by (simp add: storage_wf_def Let_def m_def)
    have ne: "checkpoint_of root m \<noteq> []" by (simp add: checkpoint_of_def)
    have after: "sound sha1 root m b h \<and> sound sha1 root m c h" if "extends (control_files (checkpoint_of root m)) g h" for h
      using sound_extends [OF _ that wf(2,3)] kept(1) [OF k] snd by blast
    have "runs (save_at (set_checkpoint st c)) g
        (\<lambda>_ h. storage_sound sha1 (set_checkpoint st c) h \<and> recovered (read_checkpoint m) h (checkpoint_of root m) = Some c)
        (\<lambda>(_, st') h. st' = set_checkpoint st c \<and> storage_sound sha1 st' h \<and> disk_sound sha1 root m h) ?S"
      unfolding save_at_def set_checkpoint_simps wf(4)
      by (intro runs_at runs_rethrow runs_mono [OF save_checkpoint_runs [of "checkpoint_of root m" g old m b c, OF ne kept(3) [OF k] b(1) cw]])
        (use wf2 after in \<open>auto simp: storage_sound_def disk_sound_def root_def m_def\<close>)
    then show ?thesis
      unfolding st1 st2 lift_simps at_simps ibind_ret
      by (intro runs_ibind) (erule runs_mono; auto simp: st2 c(1) get)
  qed
  show ?thesis
    unfolding write_verified_piece_def
    by (intro runs_ibind runs_at runs_mono [OF store_piece_runs [OF wf(1)]])
      (use before commit in \<open>auto simp: root_def m_def\<close>)
qed

subsection \<open>Recheck\<close>

lemma fold_io_upto:
  assumes "\<And>k s f. k < n \<Longrightarrow> I k s f \<Longrightarrow> runs (g k s) f (I (Suc k)) E S" "I 0 s f"
  shows "runs (fold_io g [0..<n] s) f (I n) E S"
proof -
  have "runs (fold_io g [k..<n] s) f (I n) E S" if "k \<le> n" "I k s f" for k s f
    using that
  proof (induction "n - k" arbitrary: k s f)
    case (Suc d)
    then have k: "k < n" by simp
    have "runs (g k s) f (\<lambda>s' f'. runs (fold_io g [Suc k..<n] s') f' (I n) E S) E S"
      by (rule runs_mono [OF assms(1) [OF k Suc.prems(2)]]) (use Suc k in auto)
    then show ?case using k by (simp add: upt_rec runs_ibind)
  qed simp
  from this [OF _ assms(2)] show ?thesis by simp
qed

text \<open>\<open>upd st k v st'\<close>: of the verified bits only that of piece \<open>k\<close> may have changed, to \<open>v\<close>.\<close>

definition upd :: "torrent_storage \<Rightarrow> nat \<Rightarrow> bool \<Rightarrow> torrent_storage \<Rightarrow> bool" where
  "upd st k v st' \<longleftrightarrow>
     storage_wf st' \<and> (\<exists>c. st' = set_checkpoint st c)
     \<and> (\<forall>j. bm_get (c_verified (st_checkpoint st')) j = (if j = k then v else bm_get (c_verified (st_checkpoint st)) j))"

lemma upd_refl: "storage_wf st \<Longrightarrow> v = bm_get (c_verified (st_checkpoint st)) k \<Longrightarrow> upd st k v st"
  by (auto simp: upd_def set_checkpoint_def intro: exI [of _ "st_checkpoint st"])

lemma upd_trans: "upd st k v st1 \<Longrightarrow> upd st1 k u st2 \<Longrightarrow> upd st k u st2"
  by (auto simp: upd_def)

lemma put_verified_upd: "storage_wf st \<Longrightarrow> put_verified st k v = Inr st' \<Longrightarrow> upd st k v st'"
proof -
  assume wf: "storage_wf st" and p: "put_verified st k v = Inr st'"
  then have "k < piece_count (st_meta st)"
    by (auto simp: put_verified_def bitmap_set_def bitmap_validate_def storage_wf_def checkpoint_wf_def
        validate_against_iff Let_def)
  then obtain b where b: "put_verified st k v = Inr (set_checkpoint st ((st_checkpoint st)\<lparr>c_verified := b\<rparr>))"
    "storage_wf (set_checkpoint st ((st_checkpoint st)\<lparr>c_verified := b\<rparr>))"
    "\<And>j. bm_get b j = (if k = j then v else bm_get (c_verified (st_checkpoint st)) j)"
    by (rule put_verified_ok [OF wf, of k v]) blast
  have "st' = set_checkpoint st ((st_checkpoint st)\<lparr>c_verified := b\<rparr>)" using p b(1) by simp
  with b(2,3) show "upd st k v st'" by (auto simp: upd_def)
qed

lemma put_boundary_upd:
  "storage_wf st \<Longrightarrow> put_boundary st k v = Inr st' \<Longrightarrow> upd st k (bm_get (c_verified (st_checkpoint st)) k) st'"
proof -
  assume wf: "storage_wf st" and p: "put_boundary st k v = Inr st'"
  then have "k < piece_count (st_meta st)"
    by (auto simp: put_boundary_def bitmap_set_def bitmap_validate_def storage_wf_def checkpoint_wf_def
        validate_against_iff Let_def)
  then obtain b where b: "put_boundary st k v = Inr (set_checkpoint st ((st_checkpoint st)\<lparr>c_boundary_cache := b\<rparr>))"
    "storage_wf (set_checkpoint st ((st_checkpoint st)\<lparr>c_boundary_cache := b\<rparr>))"
    by (rule put_boundary_ok [OF wf, of k v]) blast
  have "st' = set_checkpoint st ((st_checkpoint st)\<lparr>c_boundary_cache := b\<rparr>)" using p b(1) by simp
  with b(2) show "upd st k (bm_get (c_verified (st_checkpoint st)) k) st'" by (auto simp: upd_def)
qed

lemma upd_simps:
  assumes "upd st k v st'"
  shows "st_meta st' = st_meta st" "st_root st' = st_root st" "st_selection st' = st_selection st" "storage_wf st'"
    "bm_get (c_verified (st_checkpoint st')) k = v"
  using assms by (auto simp: upd_def)

lemma remove_boundary_keeps:
  assumes "upd st k v st'" "storage_wf st"
  shows "runs (remove_boundary_cache st' i) f (\<lambda>_. keeps st i f) (\<lambda>_ _. False) (keeps st i f)"
proof -
  have "boundary_piece_path st' i = boundary_of (st_root st) (st_meta st) i"
    using storage_wf_paths(1) [OF upd_simps(4) [OF assms(1)]] upd_simps(1,2) [OF assms(1)] by simp
  then show ?thesis
    using extends_keeps [OF assms(2) extends_same_outside] by (intro runs_mono [OF remove_boundary_runs]) auto
qed

abbreviation rechecked :: "torrent_storage \<Rightarrow> nat \<Rightarrow> bool \<Rightarrow> fs \<Rightarrow> recheck_state \<Rightarrow> fs \<Rightarrow> bool" where
  "rechecked st k v f r g \<equiv> upd st k v (fst r) \<and> keeps st k f g"

lemma runs_maybe_put:
  assumes "storage_wf st" "b \<longrightarrow> v = u" "\<not> b \<longrightarrow> v = bm_get (c_verified (st_checkpoint st)) k"
    and "\<And>st'. upd st k v st' \<Longrightarrow> runs (g st') f Q E S" "\<And>e. E e f" "S f"
  shows "runs (ibind (at st (if b then lift (put_verified st k u) else ret st)) g) f Q E S"
  using assms put_verified_upd [OF assms(1), of k u] upd_refl [OF assms(1), of v k]
  by (cases b; cases "put_verified st k u") auto

lemma recheck_unselected_runs:
  assumes "storage_wf st" "v = bm_get (c_verified (st_checkpoint st)) k"
  shows "runs (recheck_unselected k v (st, report, changed)) f (rechecked st k False f) (\<lambda>_ _. True) (\<lambda>_. True)"
  unfolding recheck_unselected_def prod.case
proof (rule runs_maybe_put [OF assms(1), of _ False])
  fix st1 assume u: "upd st k False st1"
  show "runs (ibind (at st1 (lift (has_boundary st1 k))) (\<lambda>cached.
     if cached then
       ibind (at st1 (lift (put_boundary st1 k False))) (\<lambda>st2.
       ibind (remove_boundary_cache st2 k) (\<lambda>_. ret (st2, report, True)))
     else ret (st1, report, changed \<or> v))) f (rechecked st k False f) (\<lambda>_ _. True) (\<lambda>_. True)"
  proof (cases "has_boundary st1 k"; cases "put_boundary st1 k False")
    fix c st2 assume b: "put_boundary st1 k False = Inr st2" "has_boundary st1 k = Inr c"
    have "upd st k False st2"
      using upd_trans [OF u put_boundary_upd [OF upd_simps(4) [OF u] b(1)]] upd_simps(5) [OF u] by simp
    with u b show ?thesis by (auto intro!: runs_ibind runs_mono [OF remove_boundary_keeps [OF _ assms(1)]])
  qed (use u in auto)
qed (use assms in auto)

lemma recheck_unreadable_runs:
  assumes "storage_wf st" "v = bm_get (c_verified (st_checkpoint st)) k"
  shows "runs (recheck_unreadable k v (st, report, changed)) f (rechecked st k False f) (\<lambda>_ _. True) (\<lambda>_. True)"
proof (cases v)
  case True
  show ?thesis
  proof (cases "put_verified st k False")
    case (Inr st1)
    note u = put_verified_upd [OF assms(1) Inr]
    then show ?thesis
      using Inr True put_boundary_upd [OF upd_simps(4) [OF u], of k False] upd_trans [OF u] upd_simps(5) [OF u]
      by (cases "put_boundary st1 k False") (auto simp: recheck_unreadable_def)
  qed (simp add: recheck_unreadable_def True)
qed (use assms in \<open>auto simp: recheck_unreadable_def intro!: upd_refl\<close>)

lemma recheck_invalid_runs:
  assumes "storage_wf st" "v = bm_get (c_verified (st_checkpoint st)) k"
  shows "runs (recheck_invalid k v (st, report, changed)) f (rechecked st k False f) (\<lambda>_ _. True) (\<lambda>_. True)"
  unfolding recheck_invalid_def prod.case
proof (rule runs_maybe_put [OF assms(1), of _ False])
  fix st1 assume u: "upd st k False st1"
  have "upd st k False st2" if "put_boundary st1 k False = Inr st2" for st2
    using upd_trans [OF u put_boundary_upd [OF upd_simps(4) [OF u] that]] upd_simps(5) [OF u] by simp
  with u show "runs (ibind (at st1 (lift (has_boundary st1 k))) (\<lambda>cached.
     ibind (at st1 (if cached then lift (put_boundary st1 k False) else ret st1)) (\<lambda>st2.
     ibind (remove_boundary_cache st2 k) (\<lambda>_.
     ret (st2, report\<lparr>rr_invalid_pieces := rr_invalid_pieces report + 1\<rparr>, changed \<or> v \<or> cached)))))
     f (rechecked st k False f) (\<lambda>_ _. True) (\<lambda>_. True)"
    by (cases "has_boundary st1 k"; cases "put_boundary st1 k False")
      (auto intro!: runs_ibind runs_mono [OF remove_boundary_keeps [OF _ assms(1)]])
qed (use assms in auto)

lemma recheck_valid_runs:
  assumes "storage_wf st" "v = bm_get (c_verified (st_checkpoint st)) k"
  shows "runs (recheck_valid k v (st, report, changed)) f (\<lambda>r g. upd st k True (fst r) \<and> g = f) (\<lambda>_ _. True) (\<lambda>_. True)"
proof -
  have flip: "(if v then ret st else lift (put_verified st k True)) = (if \<not> v then lift (put_verified st k True) else ret st)"
    by simp
  have u2: "upd st k True st2" if "upd st k True st1" "put_boundary st1 k b = Inr st2" for st1 st2 b
    using upd_trans [OF that(1) put_boundary_upd [OF upd_simps(4) [OF that(1)] that(2)]] upd_simps(5) [OF that(1)] by simp
  show ?thesis
    unfolding recheck_valid_def prod.case flip
    by (rule runs_maybe_put [OF assms(1), of _ True])
      (use assms u2 in \<open>auto intro!: runs_ibind runs_at simp: looks_def split: sum.splits option.splits\<close>)
qed

text \<open>The loop has dealt with the pieces below \<open>n\<close>: of these, every verified one is on disk and valid.\<close>

definition checked_below :: "(u8 list \<Rightarrow> u8 list) \<Rightarrow> torrent_storage \<Rightarrow> nat \<Rightarrow> recheck_state \<Rightarrow> fs \<Rightarrow> bool" where
  "checked_below sha1 st0 n r f \<longleftrightarrow>
     storage_wf (fst r) \<and> (\<exists>c. fst r = set_checkpoint st0 c)
     \<and> (\<forall>j<n. bm_get (c_verified (st_checkpoint (fst r))) j \<longrightarrow>
          (\<exists>b. piece_on_disk (st_root st0) (st_meta st0) (st_selection st0) f j = Some b
             \<and> verify_piece sha1 (st_meta st0) j b = Inr True))"

lemma checked_step:
  assumes "checked_below sha1 st0 k (st, report, changed) f" "upd st k v (fst r)" "keeps st k f g"
    and "v \<Longrightarrow> \<exists>b. piece_on_disk (st_root st) (st_meta st) (st_selection st) g k = Some b
      \<and> verify_piece sha1 (st_meta st) k b = Inr True"
  shows "checked_below sha1 st0 (Suc k) r g"
proof -
  obtain c where c: "st = set_checkpoint st0 c" using assms(1) by (auto simp: checked_below_def)
  obtain d where d: "fst r = set_checkpoint st0 d" using assms(2) c by (auto simp: upd_def)
  have "\<exists>b. piece_on_disk (st_root st0) (st_meta st0) (st_selection st0) g j = Some b \<and> verify_piece sha1 (st_meta st0) j b = Inr True"
    if "j < Suc k" "bm_get (c_verified (st_checkpoint (fst r))) j" for j
  proof (cases "j = k")
    case True
    then show ?thesis using assms(2,4) that(2) c by (auto simp: upd_def)
  next
    case False
    then have "bm_get (c_verified (st_checkpoint st)) j" "j < k" using assms(2) that by (auto simp: upd_def)
    with assms(1) obtain b where "piece_on_disk (st_root st0) (st_meta st0) (st_selection st0) f j = Some b"
      "verify_piece sha1 (st_meta st0) j b = Inr True" by (auto simp: checked_below_def)
    with assms(3) False c show ?thesis by (auto simp: keeps_def)
  qed
  with assms(2) d show ?thesis by (auto simp: checked_below_def upd_def)
qed

lemma recheck_piece_runs:
  assumes "checked_below sha1 st0 k r f"
  shows "runs (recheck_piece sha1 mode k r) f (checked_below sha1 st0 (Suc k)) (\<lambda>_ _. True) (\<lambda>_. True)"
proof -
  obtain st report changed where r: "r = (st, report, changed)" by (cases r) auto
  have wf: "storage_wf st" using assms r by (simp add: checked_below_def)
  note step = checked_step [OF assms [unfolded r]]
  have cleared: "runs x f (checked_below sha1 st0 (Suc k)) (\<lambda>_ _. True) (\<lambda>_. True)"
    if "runs x f (rechecked st k False f) (\<lambda>_ _. True) (\<lambda>_. True)" for x :: "(StorageError \<times> torrent_storage, recheck_state) io"
    using that by (rule runs_mono) (auto intro: step)
  have valid: "runs (recheck_valid k v (st, rep, changed)) f (checked_below sha1 st0 (Suc k)) (\<lambda>_ _. True) (\<lambda>_. True)"
    if "v = bm_get (c_verified (st_checkpoint st)) k" "piece_on_disk (st_root st) (st_meta st) (st_selection st) f k = Some b"
      "piece_valid sha1 (st_meta st) k b" for v rep b
    by (rule runs_mono [OF recheck_valid_runs [OF wf that(1)]]) (use that in \<open>auto simp: piece_valid_iff intro: step\<close>)
  have unread: "checked_below sha1 st0 (Suc k) (st, report, changed) f" if "\<not> bm_get (c_verified (st_checkpoint st)) k"
    using step [of False "(st, report, changed)" f] upd_refl [OF wf, of False k] that by simp
  have body: "runs (if \<not> is_selected priority then recheck_unselected k v (st, report, changed)
     else if \<not> v \<and> mode \<noteq> FullRecheck then ret (st, report, changed)
     else
       (let report1 = report\<lparr>rr_checked_pieces := rr_checked_pieces report + 1\<rparr> in
        ibind (attempt (read_materialized_piece st k)) (\<lambda>r.
        case r of
          Inl _ \<Rightarrow> recheck_unreadable k v (st, report1, changed)
        | Inr piece \<Rightarrow>
            if piece_valid sha1 (st_meta st) k piece then recheck_valid k v (st, report1, changed)
            else recheck_invalid k v (st, report1, changed)))) f (checked_below sha1 st0 (Suc k)) (\<lambda>_ _. True) (\<lambda>_. True)"
    if "v = bm_get (c_verified (st_checkpoint st)) k" for v priority
    unfolding Let_def
    by (intro runs_if cleared [OF recheck_unselected_runs [OF wf that]] runs_ibind runs_attempt
        runs_looks [OF read_materialized_looks [OF wf]])
      (use that in \<open>auto intro!: unread valid cleared [OF recheck_unreadable_runs [OF wf]] cleared [OF recheck_invalid_runs [OF wf]]\<close>)
  show ?thesis
    unfolding recheck_piece_def r prod.case
    by (rule runs_at_lift_bind, rule runs_at_lift_bind, rule body) (use is_verified_wf [OF wf] in auto)
qed

lemma startup_recheck_runs:
  assumes "storage_wf st"
  shows "runs (startup_recheck sha1 st mode) f (\<lambda>(_, st') g. storage_sound sha1 st' g) (\<lambda>_ _. True) (\<lambda>_. True)"
proof -
  have init: "checked_below sha1 st 0 (st, empty_report, False) f"
    using assms by (auto simp: checked_below_def set_checkpoint_def intro: exI [of _ "st_checkpoint st"])
  have done_: "storage_sound sha1 (fst r) g" if c: "checked_below sha1 st (piece_count (st_meta st)) r g" for r g
  proof -
    have wf: "storage_wf (fst r)" and eq: "st_root (fst r) = st_root st" "st_meta (fst r) = st_meta st" "st_selection (fst r) = st_selection st"
      using c by (auto simp: checked_below_def)
    have "\<lparr>priorities = c_priorities (st_checkpoint (fst r))\<rparr> = st_selection st"
      using wf eq by (simp add: storage_wf_def Let_def)
    with c wf eq show ?thesis by (auto simp: storage_sound_def sound_def checked_below_def)
  qed
  have save: "runs (ibind (do_if changed (save_at st')) (\<lambda>_. ret (report, st'))) g
      (\<lambda>(_, st') g. storage_sound sha1 st' g) (\<lambda>_ _. True) (\<lambda>_. True)" if "storage_sound sha1 st' g" for st' report changed g
  proof -
    have "storage_wf st'" using that by (simp add: storage_sound_def)
    note frame = save_at_frame [OF this]
    show ?thesis
      using that by (cases changed) (auto simp: do_if_def intro!: runs_ibind runs_mono [OF frame] elim: storage_sound_saved)
  qed
  show ?thesis
    unfolding startup_recheck_def
    by (intro runs_ibind runs_mono [OF fold_io_upto [where I = "checked_below sha1 st", OF recheck_piece_runs init]])
      (auto dest!: done_ intro!: save)
qed

end
