(* ===== verification/Storage_Open.thy ===== *)
theory Storage_Open
  imports Storage_Safety
begin

text \<open>
  Opening a storage: what \<open>create\<close>, \<open>resume\<close> and \<open>open_or_create\<close> return for an accepted torrent is well
  formed in the sense of theory \<open>Storage_Safety\<close>.
\<close>

subsection \<open>What a program can return\<close>

definition yields :: "('e, 'a) io \<Rightarrow> ('a \<Rightarrow> bool) \<Rightarrow> bool" where
  "yields m Q \<longleftrightarrow> (\<forall>w x w'. m w = (Done x, w') \<longrightarrow> Q x)"

lemma yields_ret [simp]: "yields (ret x) Q \<longleftrightarrow> Q x"
  by (auto simp: yields_def ret_def)

lemma yields_throw [simp]: "yields (throw e) Q"
  by (simp add: yields_def throw_def)

lemma yields_lift: "(\<And>x. r = Inr x \<Longrightarrow> Q x) \<Longrightarrow> yields (lift r) Q"
  by (cases r) simp_all

lemma yields_ibind:
  assumes "yields m P" "\<And>x. P x \<Longrightarrow> yields (g x) Q"
  shows "yields (ibind m g) Q"
  unfolding yields_def
proof (intro allI impI)
  fix w y w'
  assume "ibind m g w = (Done y, w')"
  then obtain x w1 where "m w = (Done x, w1)" "g x w1 = (Done y, w')"
    by (auto simp: ibind_def split: prod.splits outcome.splits)
  with assms show "Q y" unfolding yields_def by blast
qed

lemma yields_any: "(\<And>x. Q x) \<Longrightarrow> yields m Q"
  by (simp add: yields_def)

lemma yields_mono: "yields m P \<Longrightarrow> (\<And>x. P x \<Longrightarrow> Q x) \<Longrightarrow> yields m Q"
  by (auto simp: yields_def)

lemma yields_bind_any: "(\<And>x. yields (g x) Q) \<Longrightarrow> yields (ibind m g) Q"
  by (rule yields_ibind [of m "\<lambda>_. True"]) (auto intro: yields_any)

lemma yields_bind_lift: "(\<And>x. r = Inr x \<Longrightarrow> yields (g x) Q) \<Longrightarrow> yields (ibind (lift r) g) Q"
  by (cases r) simp_all

lemma yields_attempt: "yields m Q \<Longrightarrow> yields (attempt m) (\<lambda>r. \<forall>x. r = Inr x \<longrightarrow> Q x)"
  unfolding yields_def attempt_def by (auto split: prod.splits outcome.splits)

lemma yields_rethrow: "yields m Q \<Longrightarrow> yields (rethrow h m) Q"
  unfolding rethrow_def by (rule yields_ibind [OF yields_attempt]) (auto intro!: yields_lift)

lemma yields_fold_io:
  assumes "\<And>x s. x \<in> set xs \<Longrightarrow> I s \<Longrightarrow> yields (g x s) I" "I s"
  shows "yields (fold_io g xs s) I"
  using assms by (induction xs arbitrary: s) (auto intro: yields_ibind)

lemma yields_if: "(b \<Longrightarrow> yields m Q) \<Longrightarrow> (\<not> b \<Longrightarrow> yields n Q) \<Longrightarrow> yields (if b then m else n) Q"
  by simp

subsection \<open>Loaded checkpoints are well formed\<close>

lemma try_candidates_yields:
  "yields (try_candidates parse io_error ps e) (\<lambda>r. \<forall>c. r = Inl c \<longrightarrow> (\<exists>q b. parse q b = Inr c))"
proof (induction ps arbitrary: e)
  case (Cons p ps)
  have "yields (attempt (ibind (rethrow (\<lambda>_. io_error p) (fs_read p)) (\<lambda>b. lift (parse p b))))
      (\<lambda>r. \<forall>c. r = Inr c \<longrightarrow> (\<exists>q b. parse q b = Inr c))"
    by (rule yields_attempt, rule yields_bind_any, rule yields_lift) blast
  then show ?case
    unfolding try_candidates.simps(2)
    by (intro yields_bind_any [of _ _ "path_exists p"] yields_if Cons) (erule yields_ibind; auto intro: Cons split: sum.splits)
qed simp

lemma decode_info_hash_length: "decode_info_hash v = Inr h \<Longrightarrow> length h = 20"
  by (auto simp: decode_info_hash_def split: if_splits)

lemma read_checkpoint_wf:
  assumes "read_checkpoint m q b = Inr c"
  shows "checkpoint_wf m c"
proof -
  obtain s where "checkpoint_parse s m = Inr c" using assms by (auto simp: read_checkpoint_def)
  then obtain flds where "checkpoint_of_fields flds m = Inr c" by (rule checkpoint_parse_steps)
  then show ?thesis
    by (auto simp: checkpoint_of_fields_def Let_def checkpoint_wf_def parse_field_def bitmap_field_def bitmap_from_bytes_iff
        dest!: parse_unsigned_bound decode_info_hash_length split: if_splits)
qed

lemma load_checkpoint_yields: "yields (load_checkpoint_recovering p m) (\<lambda>r. \<forall>c. r = Some c \<longrightarrow> checkpoint_wf m c)"
  unfolding load_checkpoint_recovering_def load_recovering_def
  by (rule yields_ibind [OF try_candidates_yields]) (auto dest: read_checkpoint_wf split: sum.splits option.splits)

subsection \<open>Owned files\<close>

lemma prepare_target_yields:
  assumes "checkpoint_wf m c"
  shows "yields (prepare_target root sel allocation index file c)
    (\<lambda>r. \<forall>c'. r = Some c' \<longrightarrow> checkpoint_wf m c' \<and> c_priorities c' = c_priorities c \<and> c_verified c' = c_verified c)"
proof -
  have own: "checkpoint_wf m (c\<lparr>c_owned_files := b\<rparr>)" if "bitmap_set (c_owned_files c) index True = Inr b" for b
  proof -
    have "bitmap_wf (c_file_count c) (c_owned_files c)" using assms by (simp add: checkpoint_wf_def)
    from bitmap_set_get [OF that this] show ?thesis
      using assms by (auto simp: checkpoint_wf_def validate_against_iff bitmap_wf_def)
  qed
  have last: "yields (ibind (lift (map_err StorageError.Resume (bitmap_set (c_owned_files c) index True))) (\<lambda>b.
      ret (Some (c\<lparr>c_owned_files := b\<rparr>))))
    (\<lambda>r. \<forall>c'. r = Some c' \<longrightarrow> checkpoint_wf m c' \<and> c_priorities c' = c_priorities c \<and> c_verified c' = c_verified c)"
    by (rule yields_bind_lift) (auto intro: own)
  show ?thesis
    unfolding prepare_target_def by (rule last yields_if yields_bind_any | simp)+
qed

lemma prepare_files_yields:
  assumes "checkpoint_wf m c"
  shows "yields (prepare_selected_files_owned root m' sel allocation c p)
    (\<lambda>c'. checkpoint_wf m c' \<and> c_priorities c' = c_priorities c \<and> c_verified c' = c_verified c)"
proof -
  let ?I = "\<lambda>c'. checkpoint_wf m c' \<and> c_priorities c' = c_priorities c \<and> c_verified c' = c_verified c"
  have "yields (prepare_file root sel allocation p x c1) ?I" if "?I c1" for x c1
    unfolding prepare_file_def
    by (cases x) (use that in \<open>auto intro!: yields_ibind [OF yields_rethrow [OF prepare_target_yields [of m c1]]]
        yields_bind_any [of _ _ "rethrow _ (save_checkpoint_atomic _ _)"] split: option.splits\<close>)
  then show ?thesis unfolding prepare_selected_files_owned_def using assms by (intro yields_fold_io) auto
qed

subsection \<open>Opened storages are well formed\<close>

definition meta_ok :: "torrent_metainfo \<Rightarrow> bool" where
  "meta_ok m \<longleftrightarrow>
     metainfo_wf m \<and> length (m_info_hash m) = 20 \<and> distinct (map f_path (m_files m))
     \<and> piece_count m < u64_limit \<and> length (m_files m) < u64_limit"

lemma parsed_meta_ok:
  assumes "metainfo_parse sha1 url_parse lower bytes = Inr m" "\<forall>x. length (sha1 x) = 20"
  shows "meta_ok m"
proof -
  have "length (m_info_hash m) = 20" using metainfo_parse_steps [OF assms(1)] assms(2) by metis
  moreover have "check_windows (sort (map (\<lambda>f. lower (f_path f)) (m_files m))) = Inr ()"
    using metainfo_parse_steps [OF assms(1)] by (metis validate_output_paths_def)
  then have "distinct (map (\<lambda>f. lower (f_path f)) (m_files m))" using check_windows_strict by fastforce
  then have "distinct (map f_path (m_files m))" by (simp add: distinct_map inj_on_def)
  moreover have "piece_count m < u64_limit" "length (m_files m) < u64_limit"
    using metainfo_piece_limit [OF assms(1)] metainfo_file_limit [OF assms(1)]
    by (simp_all add: MAX_METAINFO_BYTES_def MAX_CONTAINER_ITEMS_def u64_limit_def)
  ultimately show ?thesis using metainfo_parse_wf [OF assms(1)] by (simp add: meta_ok_def)
qed

lemma target_path_safe:
  assumes "safe_path p"
  obtains cs where "p = join cs" "target_path root p = Inr (root @ cs)"
proof -
  obtain cs where cs: "cs \<noteq> []" "p = join cs" "\<forall>c \<in> set cs. safe_component c" using assms by (auto simp: safe_path_def)
  have "mapM_r (\<lambda>c. ok_or e (normal_name c)) (map NormalComp xs) = Inr xs" for e :: StorageError and xs
    by (induction xs) simp_all
  with components_safe [OF cs(1,3)] cs(2) that show ?thesis by (simp add: target_path_def)
qed

lemma meta_targets_distinct: "meta_ok m \<Longrightarrow> targets_distinct root m"
  unfolding targets_distinct_def
proof (intro allI impI notI, elim conjE)
  fix j k
  assume m: "meta_ok m" and jk: "j < length (m_files m)" "k < length (m_files m)" "j \<noteq> k"
    and eq: "target_path root (f_path (m_files m ! j)) = target_path root (f_path (m_files m ! k))"
  have safe: "safe_path (f_path (m_files m ! i))" if "i < length (m_files m)" for i
    using m that by (simp add: meta_ok_def metainfo_wf_def)
  obtain cs where cs: "f_path (m_files m ! j) = join cs" "target_path root (f_path (m_files m ! j)) = Inr (root @ cs)"
    using target_path_safe [OF safe [OF jk(1)]] by metis
  obtain ds where ds: "f_path (m_files m ! k) = join ds" "target_path root (f_path (m_files m ! k)) = Inr (root @ ds)"
    using target_path_safe [OF safe [OF jk(2)]] by metis
  have "f_path (m_files m ! j) = f_path (m_files m ! k)" using cs ds eq by simp
  with m jk show False by (auto simp: meta_ok_def distinct_conv_nth)
qed

lemma create_yields:
  assumes "meta_ok m"
  shows "yields (storage_create lower root0 m sel allocation) (\<lambda>st. storage_wf st \<and> st_meta st = m
    \<and> (\<forall>i. \<not> bm_get (c_verified (st_checkpoint st)) i))"
proof -
  have opened: "storage_wf \<lparr>st_root = root, st_control_dir = control_dir root (to_hex (m_info_hash m)),
       st_boundary_dir = control_dir root (to_hex (m_info_hash m)) @ [BOUNDARY_DIR_NAME],
       st_checkpoint_path = control_dir root (to_hex (m_info_hash m)) @ [RESUME_FILE_NAME],
       st_manifest_path = mp, st_meta = m, st_selection = sel, st_checkpoint = c', st_had_trackers = had\<rparr>
     \<and> (\<forall>i. \<not> bm_get (c_verified c') i)"
    if "reject_reserved_collision m = Inr ()" "checkpoint_new m sel = Inr c"
      "checkpoint_wf m c' \<and> c_priorities c' = c_priorities c \<and> c_verified c' = c_verified c" for root mp c c' had
    using that assms meta_targets_distinct [OF assms]
    by (auto simp: storage_wf_def meta_ok_def control_of_def checkpoint_of_def checkpoint_new_def bitmap_new_def
        split: if_splits)
  have cwf: "checkpoint_wf m c" if "checkpoint_new m sel = Inr c" for c
    using checkpoint_new_wf [OF _ _ _ _ that] assms by (auto simp: meta_ok_def)
  show ?thesis
    unfolding storage_create_def Let_def
    by (rule yields_bind_any [of _ _ "path_exists _"] yields_bind_any [of _ _ "prepare_root _"]
          yields_bind_any [of _ _ "ensure_safe_directory _ _"] yields_bind_any [of _ _ "preflight_selected_files _ _ _"]
          yields_bind_any [of _ _ "rethrow _ (save_checkpoint_atomic _ _)"]
          yields_bind_any [of _ _ "rethrow _ (save_storage_manifest_atomic _ _ _)"]
          yields_bind_lift yields_if yields_throw
        | (rule yields_ibind, rule yields_rethrow, rule prepare_files_yields, erule cwf [OF map_err_Inr_iff [THEN iffD1]])
        | (simp, metis opened))+
qed

lemma resume_yields:
  assumes "meta_ok m"
  shows "yields (storage_resume lower root0 m) (\<lambda>st. storage_wf st \<and> st_meta st = m)"
proof -
  have opened: "storage_wf \<lparr>st_root = root, st_control_dir = control_dir root (to_hex (m_info_hash m)),
       st_boundary_dir = control_dir root (to_hex (m_info_hash m)) @ [BOUNDARY_DIR_NAME],
       st_checkpoint_path = control_dir root (to_hex (m_info_hash m)) @ [RESUME_FILE_NAME],
       st_manifest_path = mp, st_meta = m, st_selection = sel, st_checkpoint = c', st_had_trackers = had\<rparr>"
    if "reject_reserved_collision m = Inr ()" "checkpoint_selection c m = Inr sel"
      "checkpoint_wf m c' \<and> c_priorities c' = c_priorities c \<and> c_verified c' = c_verified c" for root mp sel c c' had
    using that assms meta_targets_distinct [OF assms]
    by (auto simp: storage_wf_def meta_ok_def control_of_def checkpoint_of_def checkpoint_selection_def selection_new_def
        split: if_splits)
  have tail: "yields (ibind (resume_manifest lower mp m) (\<lambda>manifest.
     ibind (rethrow fst (prepare_selected_files_owned root m sel Sparse c p)) (\<lambda>c'.
     ret \<lparr>st_root = root, st_control_dir = control_dir root (to_hex (m_info_hash m)),
       st_boundary_dir = control_dir root (to_hex (m_info_hash m)) @ [BOUNDARY_DIR_NAME],
       st_checkpoint_path = control_dir root (to_hex (m_info_hash m)) @ [RESUME_FILE_NAME],
       st_manifest_path = mp, st_meta = m,
       st_selection = sel, st_checkpoint = c', st_had_trackers = sm_had_trackers manifest\<rparr>)))
     (\<lambda>st. storage_wf st \<and> st_meta st = m)"
    if "reject_reserved_collision m = Inr ()" "checkpoint_selection c m = Inr sel" "checkpoint_wf m c" for root mp sel c p
    by (rule yields_bind_any, rule yields_ibind, rule yields_rethrow, rule prepare_files_yields, rule that(3))
      (use opened [OF that(1,2)] in auto)
  have load: "yields (ibind (rethrow StorageError.Resume (load_checkpoint_recovering p m)) (\<lambda>loaded.
      ibind (lift (ok_or e loaded)) g)) Q" if "\<And>c. checkpoint_wf m c \<Longrightarrow> yields (g c) Q" for p e g Q
    by (rule yields_ibind [OF yields_rethrow [OF load_checkpoint_yields]], rule yields_bind_lift) (use that in auto)
  show ?thesis
    unfolding storage_resume_def Let_def
    by (rule load tail yields_bind_any [of _ _ "path_exists _"] yields_bind_any [of _ _ "prepare_root _"]
          yields_bind_any [of _ _ "ensure_existing_safe_directory _ _"]
          yields_bind_any [of _ _ "if _ then _ else ensure_safe_directory _ _"] yields_bind_lift
        | assumption | simp)+
qed

lemma open_or_create_yields:
  assumes "meta_ok m"
  shows "yields (open_or_create lower root m sel allocation) (\<lambda>st. storage_wf st \<and> st_meta st = m)"
  unfolding open_or_create_def Let_def
  by (rule resume_yields [OF assms] yields_mono [OF create_yields [OF assms]] yields_if
        yields_bind_any [of _ _ "path_exists _"] yields_bind_any [of _ _ "prepare_root _"] yields_bind_lift | simp)+

end
