(* ===== verification/Storage_Progress.thy ===== *)
theory Storage_Progress
  imports Storage_Open
begin

text \<open>
  Progress of the storage operations: on a disk where no call fails, reading a piece that is on disk
  returns it, and writing a piece succeeds, so that a block of a written piece can be read back.
\<close>

subsection \<open>Undisturbed runs\<close>

definition steps :: "('e, 'a) io \<Rightarrow> fs \<Rightarrow> 'a \<Rightarrow> fs \<Rightarrow> bool" where
  "steps m f x g \<longleftrightarrow> m (quiet f) = (Done x, quiet g)"

definition fails :: "('e, 'a) io \<Rightarrow> fs \<Rightarrow> fs \<Rightarrow> bool" where
  "fails m f g \<longleftrightarrow> (\<exists>e. m (quiet f) = (Err e, quiet g))"

lemma steps_ret [simp]: "steps (ret x) f y g \<longleftrightarrow> x = y \<and> f = g"
  by (auto simp: steps_def ret_def)

lemma steps_lift [simp]: "steps (lift r) f x g \<longleftrightarrow> r = Inr x \<and> f = g"
  by (cases r) (auto simp: steps_def ret_def throw_def)

lemma steps_exists [simp]: "steps (path_exists p) f x g \<longleftrightarrow> x = node_exists f p \<and> f = g"
  by (auto simp: steps_def path_exists_def)

lemma steps_ibind: "steps m f x g \<Longrightarrow> steps (k x) g y h \<Longrightarrow> steps (ibind m k) f y h"
  by (simp add: steps_def ibind_def)

lemma steps_bind_lift: "r = Inr x \<Longrightarrow> steps (k x) f y h \<Longrightarrow> steps (ibind (lift r) k) f y h"
  by simp

lemma steps_bind_exists: "steps (k (node_exists f p)) f y h \<Longrightarrow> steps (ibind (path_exists p) k) f y h"
  by (rule steps_ibind) simp_all

lemma steps_attempt: "steps m f x g \<Longrightarrow> steps (attempt m) f (Inr x) g"
  by (simp add: steps_def attempt_def)

lemma steps_rethrow: "steps m f x g \<Longrightarrow> steps (rethrow h m) f x g"
  unfolding rethrow_def by (rule steps_ibind [OF steps_attempt]) simp_all

lemma steps_at: "steps m f x g \<Longrightarrow> steps (at st m) f x g"
  unfolding at_def by (rule steps_rethrow)

lemma steps_ignore: "steps m f x g \<or> fails m f g \<Longrightarrow> steps (ignore m) f () g"
  by (auto simp: steps_def fails_def ignore_def ibind_def attempt_def ret_def)

lemma steps_syscall [simp]: "steps (syscall partial act) f x g \<longleftrightarrow> act f = Some (x, g)"
  by (auto simp: steps_def syscall_def Let_def split: option.splits)

lemma fails_syscall [simp]: "fails (syscall partial act) f g \<longleftrightarrow> act f = None \<and> f = g"
  by (auto simp: fails_def syscall_def Let_def split: option.splits)

lemma steps_do_if: "(b \<Longrightarrow> steps m f () g) \<Longrightarrow> (\<not> b \<Longrightarrow> f = g) \<Longrightarrow> steps (do_if b m) f () g"
  by (simp add: do_if_def)

lemma steps_not_symlink:
  "file_data (f p) \<noteq> None \<or> f p = None \<Longrightarrow> steps (ensure_target_not_symlink p) f () f"
  unfolding ensure_target_not_symlink_def
  by (rule steps_bind_exists)
    (auto simp: node_exists_def fs_symlink_metadata_def intro!: steps_ibind [OF steps_rethrow] split: option.splits node.splits)

lemma steps_open: "file_data (f p) = Some d \<Longrightarrow> steps (fs_open p) f () f"
  by (simp add: fs_open_def)

lemma steps_seek: "steps (fs_seek p) f () f"
  by (simp add: fs_seek_def)

lemma steps_read: "file_data (f p) = Some d \<Longrightarrow> steps (fs_read p) f d f"
  by (simp add: fs_read_def)

lemma steps_read_exact: "file_data (f p) = Some d \<Longrightarrow> off + n \<le> length d \<Longrightarrow> steps (fs_read_exact p off n) f (bslice d off (off + n)) f"
  by (simp add: fs_read_exact_def)

subsection \<open>Reading\<close>

lemma slice_on_disk_Some:
  assumes "slice_on_disk root m sel f s = Some d"
  obtains p x pr where "file_priority sel (s_file_index s) = Some pr" "is_selected pr"
    "target_path root (f_path (m_files m ! s_file_index s)) = Inr p" "file_data (f p) = Some x"
    "s_file_offset s + s_length s \<le> length x" "d = bslice x (s_file_offset s) (s_file_offset s + s_length s)"
  using assms by (auto simp: slice_on_disk_def slice_selected_def bslice_opt_def split: if_splits sum.splits option.splits)

lemma read_slice_steps:
  assumes "slice_on_disk (st_root st) (st_meta st) (st_selection st) f s = Some d"
    and "s_file_index s < length (m_files (st_meta st))" "s_data_offset s = start + length got"
    and "length got + s_length s < u64_limit"
  shows "steps (read_slice st i start s (got @ replicate (s_length s + rest) 0)) f (got @ d @ replicate rest 0) f"
proof -
  obtain p x pr where *: "file_priority (st_selection st) (s_file_index s) = Some pr" "is_selected pr"
    "target_path (st_root st) (f_path (m_files (st_meta st) ! s_file_index s)) = Inr p" "file_data (f p) = Some x"
    "s_file_offset s + s_length s \<le> length x" "d = bslice x (s_file_offset s) (s_file_offset s + s_length s)"
    using slice_on_disk_Some [OF assms(1)] .
  have "checked_sub (s_data_offset s) start = Some (length got)" "get_opt (m_files (st_meta st)) (s_file_index s)
      = Some (m_files (st_meta st) ! s_file_index s)"
    "checked_add64 (length got) (s_length s) = Some (length got + s_length s)"
    using assms(2-4) by (simp_all add: opt_iffs)
  with * show ?thesis
    unfolding read_slice_def
    by (auto intro!: steps_ibind [OF steps_not_symlink] steps_ibind [OF steps_rethrow [OF steps_open]]
        steps_ibind [OF steps_rethrow [OF steps_seek]] steps_ibind [OF steps_rethrow [OF steps_read_exact]])
qed

lemma read_slices_steps:
  assumes "slices_tile (m_files (st_meta st)) a ss b" "a = start + length got" "b - start < u64_limit"
    and "slices_on_disk (st_root st) (st_meta st) (st_selection st) f ss = Some d"
  shows "steps (fold_io (read_slice st i start) ss (got @ replicate (b - a) 0)) f (got @ d) f"
  using assms
proof (induction ss arbitrary: a got d)
  case (Cons s ss)
  let ?b = "a + s_length s"
  have t: "slices_tile (m_files (st_meta st)) ?b ss b" and s: "s_data_offset s = a"
    "s_file_index s < length (m_files (st_meta st))" using Cons.prems by auto
  obtain x y where xy: "slice_on_disk (st_root st) (st_meta st) (st_selection st) f s = Some x"
    "slices_on_disk (st_root st) (st_meta st) (st_selection st) f ss = Some y" "d = x @ y"
    using Cons.prems(4) by (auto simp: bind_eq_Some_conv)
  have le: "?b \<le> b" using slices_tile_le [OF t] .
  have len: "length x = s_length s" using xy(1) by (auto elim!: slice_on_disk_Some)
  have split: "b - a = s_length s + (b - ?b)" using le by simp
  have "steps (read_slice st i start s (got @ replicate (s_length s + (b - ?b)) 0)) f (got @ x @ replicate (b - ?b) 0) f"
    using s Cons.prems(2,3) le by (intro read_slice_steps [OF xy(1)]) auto
  moreover have "steps (fold_io (read_slice st i start) ss ((got @ x) @ replicate (b - ?b) 0)) f ((got @ x) @ y) f"
    using Cons.prems len by (intro Cons.IH [OF t _ _ xy(2)]) auto
  ultimately show ?case unfolding split xy(3) by (auto intro: steps_ibind)
qed simp

lemma read_materialized_steps:
  assumes wf: "storage_wf st" and d: "piece_on_disk (st_root st) (st_meta st) (st_selection st) f i = Some piece"
  shows "steps (read_materialized_piece st i) f piece f"
proof -
  let ?m = "st_meta st" and ?pl = "m_piece_length (st_meta st)"
  have m: "metainfo_wf ?m" using storage_wf_paths(3) [OF wf] .
  obtain r where "storage_slices ?m i = Inr r" using d by (auto simp: piece_on_disk_def split: sum.splits bool.splits)
  then obtain n ss where ss: "storage_slices ?m i = Inr (i * ?pl, n, ss)" "piece_size ?m i = Some n"
    "slices_tile (m_files ?m) (i * ?pl) ss (i * ?pl + n)" "i * ?pl + n \<le> m_total_length ?m"
    using storage_slices_wf [OF m piece_index_bound] by metis
  have n: "n < u64_limit" using ss(4) m by (auto simp: metainfo_wf_def)
  obtain bc where bc: "piece_is_boundary (st_selection st) ?m i = Inr bc"
    using d by (auto simp: piece_on_disk_def split: sum.splits bool.splits)
  show ?thesis
  proof (cases bc)
    case True
    then have "file_data (f (boundary_of (st_root st) ?m i)) = Some piece" "length piece = n"
      using d bc ss(1) by (auto simp: piece_on_disk_def bind_eq_Some_conv split: if_splits)
    then show ?thesis
      unfolding read_materialized_piece_def Let_def storage_wf_paths(1) [OF wf] storage_boundary_def
      using True bc ss(2)
      by (auto intro!: steps_ibind [OF steps_not_symlink] steps_ibind [OF steps_rethrow [OF steps_read]])
  next
    case False
    then have "slices_on_disk (st_root st) ?m (st_selection st) f ss = Some piece"
      using d bc ss(1) by (simp add: piece_on_disk_def)
    from read_slices_steps [OF ss(3) _ _ this, of "i * ?pl" "[]" i] n show ?thesis
      unfolding read_materialized_piece_def using False bc ss by (simp add: storage_boundary_def)
  qed
qed

lemma read_verified_block_steps:
  assumes wf: "storage_wf st" and v: "bm_get (c_verified (st_checkpoint st)) i" "i < piece_count (st_meta st)"
    and d: "piece_on_disk (st_root st) (st_meta st) (st_selection st) f i = Some piece"
      "verify_piece sha1 (st_meta st) i piece = Inr True"
    and len: "len \<noteq> 0" "unat len \<le> DEFAULT_BLOCK_SIZE" "unat start + unat len \<le> length piece"
  shows "steps (read_verified_block sha1 st i start len) f (bslice piece (unat start) (unat start + unat len), st) f"
proof -
  have n: "piece_size (st_meta st) i = Some (length piece)"
    using d(2) by (auto simp: verify_piece_def split: if_splits)
  have iv: "is_verified st i = Inr True"
    using wf v by (simp add: is_verified_def bitmap_is_set_def bitmap_validate_def storage_wf_def checkpoint_wf_def
        validate_against_iff Let_def)
  have add: "checked_add64 (unat start) (unat len) = Some (unat start + unat len)"
  proof -
    have "unat start < 2 ^ 32" "unat len < 2 ^ 32" using unsigned_less [of start] unsigned_less [of len] by simp_all
    then show ?thesis by (simp add: checked_add64_def u64_limit_def)
  qed
  show ?thesis
    unfolding read_verified_block_def
    using read_materialized_steps [OF wf d(1)] len n iv add d(2)
    by (auto simp: piece_valid_iff bslice_opt_def intro!: steps_ibind steps_at)
qed

subsection \<open>Writing\<close>

definition proceeds :: "('e, 'a) io \<Rightarrow> fs \<Rightarrow> ('a \<Rightarrow> fs \<Rightarrow> bool) \<Rightarrow> bool" where
  "proceeds m f Q \<longleftrightarrow> (\<exists>x g. steps m f x g \<and> Q x g)"

lemma proceeds_steps: "steps m f x g \<Longrightarrow> Q x g \<Longrightarrow> proceeds m f Q"
  by (auto simp: proceeds_def)

lemma proceeds_ret [simp]: "proceeds (ret x) f Q \<longleftrightarrow> Q x f"
  by (simp add: proceeds_def)

lemma proceeds_lift [simp]: "proceeds (lift r) f Q \<longleftrightarrow> (\<exists>x. r = Inr x \<and> Q x f)"
  by (auto simp: proceeds_def)

lemma proceeds_ibind: "proceeds m f (\<lambda>x g. proceeds (k x) g Q) \<Longrightarrow> proceeds (ibind m k) f Q"
  unfolding proceeds_def by (meson steps_ibind)

lemma proceeds_bind: "proceeds m f P \<Longrightarrow> (\<And>x g. P x g \<Longrightarrow> proceeds (k x) g Q) \<Longrightarrow> proceeds (ibind m k) f Q"
  by (rule proceeds_ibind) (unfold proceeds_def, blast)

lemma proceeds_rethrow: "proceeds m f Q \<Longrightarrow> proceeds (rethrow h m) f Q"
  unfolding proceeds_def by (meson steps_rethrow)

lemma proceeds_at: "proceeds m f Q \<Longrightarrow> proceeds (at st m) f Q"
  unfolding at_def by (rule proceeds_rethrow)

lemma proceeds_mono: "proceeds m f P \<Longrightarrow> (\<And>x g. P x g \<Longrightarrow> Q x g) \<Longrightarrow> proceeds m f Q"
  by (auto simp: proceeds_def)

text \<open>A run that comes to an end undisturbed ends as every run does.\<close>

lemma proceeds_runs: "proceeds m f P \<Longrightarrow> runs m f Q E S \<Longrightarrow> proceeds m f (\<lambda>x g. P x g \<and> Q x g)"
  unfolding proceeds_def steps_def using runsD [of m "quiet f" Q E S] by fastforce

definition plain_node :: "node option \<Rightarrow> bool" where
  "plain_node x \<longleftrightarrow> x = None \<or> file_data x \<noteq> None"

definition storage_ready :: "torrent_storage \<Rightarrow> fs \<Rightarrow> bool" where
  "storage_ready st f \<longleftrightarrow>
     (\<forall>n. 0 < n \<and> n \<le> length (st_boundary_dir st) \<longrightarrow> f (take n (st_boundary_dir st)) = Some Directory)
     \<and> (\<forall>k<length (m_files (st_meta st)). \<exists>p. target_path (st_root st) (f_path (m_files (st_meta st) ! k)) = Inr p
          \<and> (is_selected (priorities (st_selection st) ! k) \<longrightarrow> file_data (f p) \<noteq> None))
     \<and> file_data (f (st_checkpoint_path st)) \<noteq> None \<and> plain_node (f (tmp_of (st_checkpoint_path st)))
     \<and> (\<forall>i. plain_node (f (boundary_piece_path st i)) \<and> plain_node (f (tmp_of (boundary_piece_path st i))))"

lemma file_data_Some: "file_data x = Some d \<longleftrightarrow> x = Some (File d)"
  by (cases x rule: file_data.cases) auto

text \<open>Only what kind of node a path holds matters.\<close>

lemma storage_ready_kind:
  assumes "storage_ready st f"
    and "\<And>q. f q = Some Directory \<Longrightarrow> g q = Some Directory" "\<And>q. file_data (f q) \<noteq> None \<Longrightarrow> q \<notin> X \<Longrightarrow> file_data (g q) \<noteq> None"
    and "\<And>q. q \<in> X \<Longrightarrow> plain_node (g q)" "\<And>q. f q = None \<Longrightarrow> q \<notin> X \<Longrightarrow> g q = None"
    and "X \<inter> targets (st_root st) (st_meta st) = {}" "st_checkpoint_path st \<in> X \<Longrightarrow> file_data (g (st_checkpoint_path st)) \<noteq> None"
  shows "storage_ready st g"
proof -
  have plain: "plain_node (g q)" if "plain_node (f q)" for q
    using that assms(3,4,5) unfolding plain_node_def by metis
  have "file_data (g p) \<noteq> None"
    if "k < length (m_files (st_meta st))" "target_path (st_root st) (f_path (m_files (st_meta st) ! k)) = Inr p" "file_data (f p) \<noteq> None" for k p
    using that assms(3) [of p] assms(6) by (auto simp: targets_def)
  then show ?thesis
    using assms(1,2,7) assms(3) [of "st_checkpoint_path st"] plain unfolding storage_ready_def by metis
qed

lemma storage_ready_upd2:
  assumes "storage_ready st f" "plain_node (f a)" "plain_node (f b)" "plain_node x" "plain_node y"
    and "a \<notin> targets (st_root st) (st_meta st)" "b \<notin> targets (st_root st) (st_meta st)"
    and ck: "file_data ((f(a := x, b := y)) (st_checkpoint_path st)) \<noteq> None"
  shows "storage_ready st (f(a := x, b := y))"
proof (rule storage_ready_kind [of st f _ "{a, b}"])
  fix q assume "f q = Some Directory"
  moreover from this have "q \<noteq> a" "q \<noteq> b" using assms(2,3) by (auto simp: plain_node_def)
  ultimately show "(f(a := x, b := y)) q = Some Directory" by simp
next
  show "plain_node ((f(a := x, b := y)) q)" if "q \<in> {a, b}" for q using that assms(4,5) by auto
qed (use assms in auto)

lemma storage_ready_write_at: "storage_ready st f \<Longrightarrow> file_data (f p) \<noteq> None \<Longrightarrow> storage_ready st (write_at p off d f)"
  by (rule storage_ready_kind [of st f _ "{}"]) (auto simp: write_at_def file_data_Some split: option.splits if_splits)

lemma write_slice_proceeds:
  assumes r: "storage_ready st f" and s: "s_file_index s < length (m_files (st_meta st))" "start \<le> s_data_offset s"
    "s_data_offset s - start + s_length s \<le> length bytes" "length bytes < u64_limit" "n + s_length s < u64_limit"
    and sel: "length (priorities (st_selection st)) = length (m_files (st_meta st))"
  shows "proceeds (write_slice st i start bytes s n) f (\<lambda>n' g. storage_ready st g \<and> n' \<le> n + s_length s)"
proof (cases "is_selected (priorities (st_selection st) ! s_file_index s)")
  case True
  obtain p x where p: "target_path (st_root st) (f_path (m_files (st_meta st) ! s_file_index s)) = Inr p" "file_data (f p) = Some x"
    using r s(1) True unfolding storage_ready_def by blast
  have "steps (ibind (fs_seek p) (\<lambda>_. ibind (fs_write_all p off d) (\<lambda>_. fs_sync p))) f () (write_at p off d f)" for off d
    by (rule steps_ibind [OF steps_seek], rule steps_ibind [of _ _ "()"]) (simp_all add: fs_write_all_def fs_sync_def)
  then have "steps (write_file_slice st (s_file_index s) (s_file_offset s) d) f () (write_at p (s_file_offset s) d f)" for d
    unfolding write_file_slice_def using p s(1)
    by (auto simp: get_opt_def intro!: steps_ibind [OF steps_not_symlink] steps_ibind [OF steps_rethrow [OF steps_open]] steps_rethrow)
  then show ?thesis
    unfolding write_slice_def using True s sel storage_ready_write_at [OF r] p(2)
    by (auto simp: file_priority_def get_opt_def checked_sub_def checked_add64_def bslice_opt_def
        intro!: proceeds_ibind [OF proceeds_steps])
next
  case False
  then show ?thesis using r s(1) sel by (simp add: write_slice_def file_priority_def get_opt_def)
qed

lemma write_slices_proceeds:
  assumes "storage_ready st f" "slices_tile (m_files (st_meta st)) a ss b" "start \<le> a" "b - start \<le> length bytes"
    "length bytes < u64_limit" "n + (b - a) < u64_limit"
    and sel: "length (priorities (st_selection st)) = length (m_files (st_meta st))"
  shows "proceeds (fold_io (write_slice st i start bytes) ss n) f (\<lambda>_. storage_ready st)"
  using assms(1-6)
proof (induction ss arbitrary: a n f)
  case (Cons s ss)
  have t: "slices_tile (m_files (st_meta st)) (a + s_length s) ss b" and s: "s_data_offset s = a"
    "s_file_index s < length (m_files (st_meta st))" using Cons.prems(2) by auto
  have le: "a + s_length s \<le> b" using slices_tile_le [OF t] .
  show ?case
    unfolding fold_io.simps
    by (rule proceeds_bind [OF write_slice_proceeds [OF Cons.prems(1)]]) (use Cons s t le sel in auto)
qed simp

lemma fun_upd_absent: "f p = None \<Longrightarrow> f(p := None) = f"
  by (rule ext) simp

lemma write_synced_steps:
  assumes "tmp \<noteq> []" "butlast tmp = [] \<or> f (butlast tmp) = Some Directory" "plain_node (f tmp)"
  shows "steps (write_synced io_error tmp bytes) f () (f(tmp := Some (File bytes)))"
proof -
  have w: "write_at tmp 0 bytes (f(tmp := Some (File []))) = f(tmp := Some (File bytes))"
    by (simp add: write_at_def overwrite_def)
  have "steps (fs_open_truncate tmp) f () (f(tmp := Some (File [])))"
    using assms by (auto simp: fs_open_truncate_def parent_ok_def plain_node_def)
  moreover have "steps (ibind (fs_write_all tmp 0 bytes) (\<lambda>_. fs_sync tmp)) (f(tmp := Some (File []))) () (f(tmp := Some (File bytes)))"
    by (rule steps_ibind [of _ _ "()"]) (simp_all add: fs_write_all_def fs_sync_def w)
  ultimately show ?thesis unfolding write_synced_def by (meson steps_ibind steps_rethrow)
qed

lemma sync_parent_steps: "steps (sync_parent p) f () f"
  unfolding sync_parent_def by (rule steps_do_if, rule steps_ignore [of _ _ "()"]) (simp_all add: fs_sync_def)

lemma remove_file_ignored: "plain_node (f p) \<Longrightarrow> steps (ignore (fs_remove_file p)) f () (f(p := None))"
  by (rule steps_ignore [of _ _ "()"]) (auto simp: fs_remove_file_def plain_node_def file_data_Some fun_upd_absent)

lemma ensure_safe_directory_steps:
  assumes "starts_with root d" "\<And>n. 0 < n \<Longrightarrow> n \<le> length d \<Longrightarrow> f (take n d) = Some Directory"
  shows "steps (ensure_safe_directory root d) f () f"
proof -
  have comp: "steps (ensure_component p) f () f" if "f p = Some Directory" for p
    unfolding ensure_component_def using that
    by (auto simp: node_exists_def fs_symlink_metadata_def intro!: steps_bind_exists steps_ibind [OF steps_rethrow])
  have comps: "steps (each ensure_component ps) f () f" if "\<forall>p \<in> set ps. f p = Some Directory" for ps
    using that by (induction ps) (auto intro: steps_ibind comp)
  have "\<forall>p \<in> set (map (\<lambda>n. take n d) [Suc (length root)..<Suc (length d)]). f p = Some Directory"
    unfolding set_map set_upt by (intro ballI, elim imageE) (use assms(2) in simp)
  then have "steps (each ensure_component (map (\<lambda>n. take n d) [Suc (length root)..<Suc (length d)])) f () f" by (rule comps)
  moreover have "steps (storage_io d (fs_canonicalize d)) f d f"
    using assms(2) assms(2) [of "length d"] by (intro steps_rethrow) (auto simp: fs_canonicalize_def list_all_iff)
  ultimately show ?thesis
    unfolding ensure_safe_directory_def using assms(1) by (auto intro!: steps_ibind)
qed

text \<open>Where the control paths stand.\<close>

lemma ready_paths:
  assumes "storage_wf st" "storage_ready st f"
  shows "starts_with (st_root st) (st_boundary_dir st)"
    "butlast (boundary_piece_path st i) = st_boundary_dir st" "boundary_piece_path st i \<noteq> []"
    "f (st_boundary_dir st) = Some Directory" "butlast (st_checkpoint_path st) = st_control_dir st" "st_checkpoint_path st \<noteq> []"
    "st_control_dir st \<noteq> []" "\<And>n. 0 < n \<Longrightarrow> n \<le> length (st_control_dir st) \<Longrightarrow> f (take n (st_control_dir st)) = Some Directory"
proof -
  have eq: "st_boundary_dir st = st_control_dir st @ [BOUNDARY_DIR_NAME]" "st_control_dir st = st_root st @ [CONTROL_DIR_NAME, to_hex (m_info_hash (st_meta st))]"
    "st_checkpoint_path st = st_control_dir st @ [RESUME_FILE_NAME]"
    using assms(1) by (auto simp: storage_wf_def Let_def control_of_def control_dir_def checkpoint_of_def)
  have dir: "f (take n (st_boundary_dir st)) = Some Directory" if "0 < n" "n \<le> length (st_boundary_dir st)" for n
    using assms(2) that by (simp add: storage_ready_def)
  show "starts_with (st_root st) (st_boundary_dir st)" by (simp add: starts_with_def eq)
  show "butlast (boundary_piece_path st i) = st_boundary_dir st" "boundary_piece_path st i \<noteq> []"
    by (simp_all add: boundary_piece_path_def)
  show "f (st_boundary_dir st) = Some Directory" using dir [of "length (st_boundary_dir st)"] by (simp add: eq)
  show "butlast (st_checkpoint_path st) = st_control_dir st" "st_checkpoint_path st \<noteq> []" "st_control_dir st \<noteq> []"
    by (simp_all add: eq butlast_append)
  show "f (take n (st_control_dir st)) = Some Directory" if "0 < n" "n \<le> length (st_control_dir st)" for n
    using dir [of n] that by (simp add: eq(1))
qed

lemma butlast_append_suffix [simp]: "p \<noteq> [] \<Longrightarrow> butlast (append_suffix p s) = butlast p" "p \<noteq> [] \<Longrightarrow> append_suffix p s \<noteq> []"
  by (simp_all add: append_suffix_def)

lemma boundary_paths_apart:
  assumes "storage_wf st"
  shows "{boundary_piece_path st i, tmp_of (boundary_piece_path st i)} \<inter> targets (st_root st) (st_meta st) = {}"
    "st_checkpoint_path st \<notin> {boundary_piece_path st i, tmp_of (boundary_piece_path st i)}"
  using control_paths_apart(1) [of "st_meta st" "st_root st" i] checkpoint_not_boundary [of "st_root st" "st_meta st" i] assms
  by (auto simp: storage_wf_paths(1,2) [OF assms] storage_wf_def Let_def)

lemma checkpoint_paths_apart:
  assumes "storage_wf st"
  shows "{st_checkpoint_path st, tmp_of (st_checkpoint_path st)} \<inter> targets (st_root st) (st_meta st) = {}"
  using control_paths_apart(2) [of "st_meta st" "st_root st"] assms
  by (auto simp: storage_wf_paths(2) [OF assms] storage_wf_def control_files_def Let_def)

lemma write_boundary_proceeds:
  assumes "storage_wf st" "storage_ready st f"
  shows "proceeds (write_boundary_cache st i bytes) f (\<lambda>_. storage_ready st)"
proof -
  let ?p = "boundary_piece_path st i"
  note paths = ready_paths [OF assms]
  have pl: "plain_node (f ?p)" "plain_node (f (tmp_of ?p))" using assms(2) by (simp_all add: storage_ready_def)
  let ?f1 = "f(tmp_of ?p := Some (File bytes))"
  have parent: "parent_ok h ?p" if "h (st_boundary_dir st) = Some Directory" for h using that paths by (simp add: parent_ok_def)
  have ne: "st_boundary_dir st \<noteq> ?p" "st_boundary_dir st \<noteq> tmp_of ?p" by (simp_all add: boundary_piece_path_def append_suffix_def)
  have s1: "steps (ensure_safe_directory (st_root st) (st_boundary_dir st)) f () f"
    using assms(2) by (intro ensure_safe_directory_steps paths) (auto simp: storage_ready_def)
  have s2: "steps (write_synced StorageError.Io (tmp_of ?p) bytes) f () ?f1"
    using paths pl(2) by (intro write_synced_steps) simp_all
  have s3: "steps (do_if (node_exists ?f1 ?p) (
        ibind (ensure_target_not_symlink ?p) (\<lambda>_. storage_io ?p (fs_remove_file ?p)))) ?f1 () (?f1(?p := None))"
    using pl(1) paths
    by (intro steps_do_if steps_ibind [OF steps_not_symlink] steps_rethrow)
      (auto simp: fs_remove_file_def plain_node_def file_data_Some node_exists_def fun_upd_absent)
  have s4: "steps (storage_io ?p (fs_rename (tmp_of ?p) ?p)) (?f1(?p := None)) () (?f1(?p := None, tmp_of ?p := None, ?p := Some (File bytes)))"
    using paths parent ne by (intro steps_rethrow) (simp add: fs_rename_def)
  have "steps (write_boundary_cache st i bytes) f () (?f1(?p := None, tmp_of ?p := None, ?p := Some (File bytes)))"
    unfolding write_boundary_cache_def Let_def
    by (rule steps_ibind [OF s1], rule steps_ibind [OF s2], rule steps_bind_exists, rule steps_ibind [OF s3],
        rule steps_ibind [OF s4], rule sync_parent_steps)
  moreover have "?f1(?p := None, tmp_of ?p := None, ?p := Some (File bytes)) = f(tmp_of ?p := None, ?p := Some (File bytes))"
    by (rule ext) simp
  moreover have "storage_ready st (f(tmp_of ?p := None, ?p := Some (File bytes)))"
    using assms(2) pl boundary_paths_apart [OF assms(1), of i]
    by (intro storage_ready_upd2) (simp_all add: plain_node_def storage_ready_def)
  ultimately show ?thesis by (auto intro: proceeds_steps)
qed

lemma remove_boundary_proceeds:
  assumes "storage_wf st" "storage_ready st f"
  shows "proceeds (remove_boundary_cache st i) f (\<lambda>_. storage_ready st)"
proof -
  let ?p = "boundary_piece_path st i"
  have pl: "plain_node (f ?p)" "plain_node (f (tmp_of ?p))" using assms(2) by (simp_all add: storage_ready_def)
  have ne: "?p \<noteq> []" by (simp add: boundary_piece_path_def)
  have "steps (remove_boundary_cache st i) f () (f(?p := None, tmp_of ?p := None))"
    unfolding remove_boundary_cache_def
    by (rule steps_ibind [OF remove_file_ignored [of f ?p, OF pl(1)]], rule remove_file_ignored) (simp add: pl ne)
  moreover have "storage_ready st (f(?p := None, tmp_of ?p := None))"
    using assms(2) pl boundary_paths_apart [OF assms(1), of i]
    by (intro storage_ready_upd2) (simp_all add: plain_node_def storage_ready_def)
  ultimately show ?thesis by (auto intro: proceeds_steps)
qed

lemma save_at_proceeds:
  assumes "storage_wf st" "storage_ready st f"
  shows "proceeds (save_at st) f (\<lambda>_. storage_ready st)"
proof -
  let ?p = "st_checkpoint_path st" and ?new = "checkpoint_encode (st_checkpoint st)"
  note paths = ready_paths [OF assms]
  have ck: "file_data (f ?p) \<noteq> None" "plain_node (f (tmp_of ?p))" using assms(2) by (simp_all add: storage_ready_def)
  let ?f1 = "f(tmp_of ?p := Some (File ?new))"
  have dir: "f (st_control_dir st) = Some Directory" using paths(8) [of "length (st_control_dir st)"] paths(7) by simp
  have each: "steps (each (\<lambda>q. ibind (path_exists q) (\<lambda>e. do_if (\<not> e) (fs_create_dir q))) ps) f () f"
    if "\<forall>q \<in> set ps. f q = Some Directory" for ps
    using that by (induction ps) (auto simp: node_exists_def do_if_def intro!: steps_ibind [where x = "()"] steps_bind_exists)
  have s1: "steps (ensure_parent ResumeError.Io ?p) f () f"
    unfolding ensure_parent_def fs_create_dir_all_def paths(5)
    using paths(7,8) by (intro steps_do_if steps_rethrow each) auto
  have s2: "steps (write_synced ResumeError.Io (tmp_of ?p) ?new) f () ?f1"
    using paths dir ck(2) by (intro write_synced_steps) simp_all
  have "length (tmp_of ?p) = Suc (length (st_control_dir st))" using paths(5,6) by (simp flip: paths(5))
  then have ne: "st_control_dir st \<noteq> tmp_of ?p" by auto
  have s3: "steps (attempt (fs_rename (tmp_of ?p) ?p)) ?f1 (Inr ()) (?f1(tmp_of ?p := None, ?p := Some (File ?new)))"
    using paths dir ck(1) ne by (intro steps_attempt) (auto simp: fs_rename_def parent_ok_def)
  have "steps (save_at st) f () (?f1(tmp_of ?p := None, ?p := Some (File ?new)))"
    unfolding save_at_def save_checkpoint_atomic_def replace_file_def Let_def
    by (rule steps_at, rule steps_rethrow, rule steps_ibind [OF s1], rule steps_ibind [OF s2], rule steps_ibind [OF s3])
      (simp add: sync_parent_steps)
  moreover have "storage_ready st (f(tmp_of ?p := None, ?p := Some (File ?new)))"
    using assms(2) ck checkpoint_paths_apart [OF assms(1)] by (intro storage_ready_upd2) (simp_all add: plain_node_def)
  ultimately show ?thesis by (auto intro: proceeds_steps)
qed

lemma storage_ready_set_checkpoint [simp]: "storage_ready (set_checkpoint st c) f \<longleftrightarrow> storage_ready st f"
  by (simp add: storage_ready_def)

lemma boundary_total:
  assumes "storage_wf st" "i < piece_count (st_meta st)"
  obtains bc where "storage_boundary st i = Inr bc"
proof -
  have wf: "metainfo_wf (st_meta st)" using storage_wf_paths(3) [OF assms(1)] .
  note len = storage_wf_selection [OF assms(1)]
  obtain p b where "piece_priority (st_selection st) (st_meta st) i = Inr p"
    "piece_has_skipped_slice (st_selection st) (st_meta st) i = Inr b"
    using piece_priority_wf [OF wf len assms(2)] piece_has_skipped_wf [OF wf len assms(2)] by blast
  with that show ?thesis by (cases "is_selected p") (simp_all add: storage_boundary_def piece_is_boundary_def)
qed

lemma store_piece_proceeds:
  assumes wf: "storage_wf st" and r: "storage_ready st f" and g: "c_generation (st_checkpoint st) = generation"
    and i: "i < piece_count (st_meta st)" "piece_priority (st_selection st) (st_meta st) i = Inr p" "is_selected p"
    and v: "verify_piece sha1 (st_meta st) i bytes = Inr True"
  shows "proceeds (store_piece sha1 st generation i bytes) f (\<lambda>_. storage_ready st)"
proof -
  let ?m = "st_meta st" and ?pl = "m_piece_length (st_meta st)"
  have m: "metainfo_wf ?m" using storage_wf_paths(3) [OF wf] .
  obtain n ss where ss: "storage_slices ?m i = Inr (i * ?pl, n, ss)" "piece_size ?m i = Some n"
    "slices_tile (m_files ?m) (i * ?pl) ss (i * ?pl + n)" "i * ?pl + n \<le> m_total_length ?m"
    using storage_slices_wf [OF m i(1)] by metis
  have n: "length bytes = n" "n < u64_limit"
    using v ss(2,4) m by (auto simp: verify_piece_def metainfo_wf_def split: if_splits)
  obtain bc where bc: "storage_boundary st i = Inr bc" using boundary_total [OF wf i(1)] .
  have fold: "proceeds (fold_io (write_slice st i (i * ?pl) bytes) ss 0) f (\<lambda>_. storage_ready st)"
    using n by (intro write_slices_proceeds [OF r ss(3)] storage_wf_selection [OF wf]) auto
  show ?thesis
    unfolding store_piece_def
    using i v ss(1) bc g
    by (auto simp: ensure_generation_def storage_priority_def
        intro!: proceeds_bind [OF fold] proceeds_bind [OF write_boundary_proceeds [OF wf]] proceeds_bind [OF remove_boundary_proceeds [OF wf]])
qed

lemma write_verified_piece_proceeds:
  assumes wf: "storage_wf st" and r: "storage_ready st f" and g: "c_generation (st_checkpoint st) = generation"
    and i: "i < piece_count (st_meta st)" "piece_priority (st_selection st) (st_meta st) i = Inr p" "is_selected p"
    and v: "verify_piece sha1 (st_meta st) i bytes = Inr True"
  shows "proceeds (write_verified_piece sha1 st generation i bytes) f
    (\<lambda>(_, st') g. (\<exists>c. st' = set_checkpoint st c) \<and> storage_wf st' \<and> storage_ready st' g
       \<and> bm_get (c_verified (st_checkpoint st')) i
       \<and> piece_on_disk (st_root st) (st_meta st) (st_selection st) g i = Some bytes)"
    (is "proceeds _ _ ?Q")
proof -
  let ?disk = "\<lambda>g. piece_on_disk (st_root st) (st_meta st) (st_selection st) g i = Some bytes"
  have store: "proceeds (at st (store_piece sha1 st generation i bytes)) f (\<lambda>_ g. storage_ready st g \<and> ?disk g)"
    by (rule proceeds_at, rule proceeds_mono [OF proceeds_runs [OF store_piece_proceeds [OF assms] store_piece_runs [OF wf]]]) auto
  have commit: "proceeds (ibind (at st (lift (put_verified st i True))) (\<lambda>st1.
     ibind (at st1 (lift (put_boundary st1 i bc))) (\<lambda>st2. ibind (save_at st2) (\<lambda>_. ret (pc, st2))))) h ?Q"
    if h: "storage_ready st h" "?disk h" for h bc pc
  proof -
    obtain c bm where st1: "put_verified st i True = Inr (set_checkpoint st ((st_checkpoint st)\<lparr>c_verified := bm\<rparr>))"
      and st2: "put_boundary (set_checkpoint st ((st_checkpoint st)\<lparr>c_verified := bm\<rparr>)) i bc = Inr (set_checkpoint st c)"
      and wf2: "storage_wf (set_checkpoint st c)" and c: "c_verified c = bm"
      and get: "\<And>j. bm_get bm j = (if i = j then True else bm_get (c_verified (st_checkpoint st)) j)"
      using put_bits_ok [OF wf i(1), of True bc] by metis
    have apart: "control_files (checkpoint_of (st_root st) (st_meta st)) \<inter> targets (st_root st) (st_meta st) = {}"
      "metainfo_wf (st_meta st)"
      using control_paths_apart(2) wf by (auto simp: storage_wf_def Let_def)
    have "proceeds (save_at (set_checkpoint st c)) h (\<lambda>_ g. storage_ready st g
        \<and> extends (control_files (checkpoint_of (st_root st) (st_meta st))) h g)"
      using proceeds_runs [OF save_at_proceeds [OF wf2] save_at_frame [OF wf2]] h(1) by simp
    then have "proceeds (save_at (set_checkpoint st c)) h (\<lambda>_ g. storage_ready st g \<and> ?disk g)"
      by (rule proceeds_mono) (use piece_on_disk_extends [OF _ apart(1) _ apart(2) h(2)] boundary_not_control in auto)
    then show ?thesis
      unfolding st1 st2 lift_simps at_simps ibind_ret
      by (rule proceeds_bind) (use wf2 c get in auto)
  qed
  show ?thesis
    unfolding write_verified_piece_def by (rule proceeds_bind [OF store]) (use commit in \<open>auto split: prod.splits\<close>)
qed

end
