(* ===== verification/Storage_Properties.thy ===== *)
theory Storage_Properties
  imports Storage_Progress
begin

text \<open>
  The promises of the torrent storage as a whole, each shown on a sample storage: what a crash leaves behind, what a
  reader gets, what a recheck establishes, and what opening a storage yields.
\<close>

subsection \<open>Reopening a storage\<close>

text \<open>The disk holds the storage as its operations leave it: directories, files, checkpoint and manifest.\<close>

definition at_rest :: "(str \<Rightarrow> str) \<Rightarrow> torrent_storage \<Rightarrow> fs \<Rightarrow> bool" where
  "at_rest lower st f \<longleftrightarrow>
     storage_ready st f
     \<and> f (st_checkpoint_path st) = Some (File (checkpoint_encode (st_checkpoint st)))
     \<and> st_manifest_path st = st_control_dir st @ [MANIFEST_FILE_NAME]
     \<and> (\<exists>sm. manifest_wf lower sm \<and> f (st_manifest_path st) = Some (File (manifest_payload lower sm))
          \<and> m_info_hash (sm_metainfo sm) = m_info_hash (st_meta st) \<and> sm_had_trackers sm = st_had_trackers st)
     \<and> list_ex is_selected (priorities (st_selection st))
     \<and> (\<forall>k<length (m_files (st_meta st)). is_selected (priorities (st_selection st) ! k) \<longrightarrow>
          bm_get (c_owned_files (st_checkpoint st)) k
          \<and> (\<forall>p. target_path (st_root st) (f_path (m_files (st_meta st) ! k)) = Inr p \<longrightarrow>
               p \<noteq> [] \<and> starts_with (st_root st) (butlast p)
               \<and> (\<forall>n. 0 < n \<and> n < length p \<longrightarrow> f (take n p) = Some Directory)))"

lemma prepare_root_steps:
  assumes "\<And>n. 0 < n \<Longrightarrow> n \<le> length root \<Longrightarrow> f (take n root) = Some Directory"
  shows "steps (prepare_root root) f root f"
proof -
  have each: "steps (each (\<lambda>q. ibind (path_exists q) (\<lambda>e. do_if (\<not> e) (fs_create_dir q))) ps) f () f"
    if "\<forall>q \<in> set ps. f q = Some Directory" for ps
    using that by (induction ps) (auto simp: node_exists_def do_if_def intro!: steps_ibind [where x = "()"] steps_bind_exists)
  have "steps (fs_create_dir_all root) f () f"
    unfolding fs_create_dir_all_def
    by (rule each) (use assms assms [of "length root"] in \<open>auto simp del: upt_Suc intro!: assms\<close>)
  moreover have "steps (fs_canonicalize root) f root f"
    using assms assms [of "length root"] by (cases "root = []") (auto simp: fs_canonicalize_def list_all_iff)
  ultimately show ?thesis unfolding prepare_root_def by (auto intro: steps_ibind steps_rethrow)
qed

lemma existing_directory_steps:
  assumes "starts_with root d" "d \<noteq> []" "\<And>n. 0 < n \<Longrightarrow> n \<le> length d \<Longrightarrow> f (take n d) = Some Directory"
  shows "steps (ensure_existing_safe_directory root d) f () f"
  unfolding ensure_existing_safe_directory_def
  using ensure_safe_directory_steps [of root d f] assms(1,3) assms(2) assms(3) [of "length d"]
  by (intro steps_bind_exists) (simp add: node_exists_def)

lemma load_manifest_steps:
  assumes "manifest_wf lower sm" "f p = Some (File (manifest_payload lower sm))"
  shows "steps (load_storage_manifest_recovering lower p) f sm f"
proof -
  have "recovered (\<lambda>_. manifest_parse lower) f p = Some sm"
    using assms manifest.parse_encode [of lower sm] by (simp add: recovered_def candidate_value_def)
  moreover obtain x where "load_recovering (\<lambda>_. manifest_parse lower) ManifestError.Io p (quiet f) =
      (Done (case recovered (\<lambda>_. manifest_parse lower) f p of Some c \<Rightarrow> Inl c | None \<Rightarrow> Inr x), quiet f)"
    using load_recovering_quiet [of "\<lambda>_. manifest_parse lower" ManifestError.Io p f] by metis
  ultimately show ?thesis
    unfolding load_storage_manifest_recovering_def by (intro steps_ibind) (auto simp: steps_def ret_def)
qed

lemma load_checkpoint_steps:
  assumes "checkpoint_wf m c" "f p = Some (File (checkpoint_encode c))"
  shows "steps (load_checkpoint_recovering p m) f (Some c) f"
proof -
  have "recovered (read_checkpoint m) f p = Some c"
    using assms resume.parse_encode [of m c p] by (simp add: recovered_def candidate_value_def)
  from load_checkpoint_quiet [OF this] show ?thesis by (simp add: steps_def)
qed

lemma fold_io_steps: "(\<And>x. x \<in> set xs \<Longrightarrow> steps (g x s) f s f) \<Longrightarrow> steps (fold_io g xs s) f s f"
  by (induction xs) (auto intro: steps_ibind)

text \<open>A file that is there and owned needs no work.\<close>

lemma prepare_owned_steps:
  assumes wf: "storage_wf st" and r: "at_rest lower st f" and k: "k < length (m_files (st_meta st))"
  shows "steps (prepare_file (st_root st) (st_selection st) allocation cp (k, m_files (st_meta st) ! k) (st_checkpoint st))
    f (st_checkpoint st) f"
proof -
  let ?pr = "priorities (st_selection st) ! k"
  have pr: "file_priority (st_selection st) k = Some ?pr" using storage_wf_selection [OF wf] k by (simp add: file_priority_def get_opt_def)
  have "steps (prepare_target (st_root st) (st_selection st) allocation k (m_files (st_meta st) ! k) (st_checkpoint st)) f None f"
  proof (cases "is_selected ?pr")
    case True
    then obtain p x where p: "target_path (st_root st) (f_path (m_files (st_meta st) ! k)) = Inr p" "file_data (f p) = Some x"
      using r k unfolding at_rest_def storage_ready_def by blast
    then have *: "p \<noteq> []" "starts_with (st_root st) (butlast p)" "\<And>n. 0 < n \<Longrightarrow> n < length p \<Longrightarrow> f (take n p) = Some Directory"
      "bm_get (c_owned_files (st_checkpoint st)) k" using r k True unfolding at_rest_def by blast+
    have own: "bitmap_is_set (c_owned_files (st_checkpoint st)) k = Inr True"
      using wf k *(4) by (auto simp: storage_wf_def Let_def checkpoint_wf_def validate_against_iff bitmap_is_set_wf)
    have dir: "steps (ensure_safe_directory (st_root st) (butlast p)) f () f"
      using * by (intro ensure_safe_directory_steps) (auto simp: take_butlast)
    show ?thesis
      unfolding prepare_target_def using pr True p *(1) own
      by (auto simp: node_exists_def file_data_Some intro!: steps_ibind [OF dir] steps_ibind [OF steps_not_symlink] steps_bind_exists)
  qed (simp add: prepare_target_def pr)
  then show ?thesis unfolding prepare_file_def by (auto intro: steps_ibind [OF steps_rethrow])
qed

lemma resume_manifest_steps:
  assumes "manifest_wf lower sm" "f p = Some (File (manifest_payload lower sm))" "m_info_hash (sm_metainfo sm) = m_info_hash m"
  shows "steps (resume_manifest lower p m) f sm f"
  unfolding resume_manifest_def
  using assms load_manifest_steps [of lower sm f p]
  by (intro steps_bind_exists) (auto simp: node_exists_def intro!: steps_ibind [OF steps_rethrow])

lemma open_or_create_steps:
  assumes wf: "storage_wf st" and r: "at_rest lower st f"
  shows "steps (open_or_create lower (st_root st) (st_meta st) sel allocation) f st f"
proof -
  let ?m = "st_meta st" and ?root = "st_root st" and ?c = "st_checkpoint st"
  have ready: "storage_ready st f" using r by (simp add: at_rest_def)
  note paths = ready_paths [OF wf ready]
  have eq: "control_dir ?root (to_hex (m_info_hash ?m)) = st_control_dir st" "st_boundary_dir st = st_control_dir st @ [BOUNDARY_DIR_NAME]"
    "st_checkpoint_path st = st_control_dir st @ [RESUME_FILE_NAME]" "reject_reserved_collision ?m = Inr ()"
    "checkpoint_wf ?m ?c" "c_priorities ?c = priorities (st_selection st)"
    using wf by (auto simp: storage_wf_def Let_def control_of_def checkpoint_of_def)
  have control: "st_control_dir st = ?root @ [CONTROL_DIR_NAME, to_hex (m_info_hash ?m)]" using eq(1) by (simp add: control_dir_def)
  then have root: "f (take n ?root) = Some Directory" if "0 < n" "n \<le> length ?root" for n
    using paths(8) [of n] that by simp
  have bdir: "f (take n (st_boundary_dir st)) = Some Directory" if "0 < n" "n \<le> length (st_boundary_dir st)" for n
    using ready that by (simp add: storage_ready_def)
  have sel: "checkpoint_selection ?c ?m = Inr (st_selection st)"
    using eq(5,6) r storage_wf_selection [OF wf]
    by (simp add: checkpoint_selection_def checkpoint_wf_def selection_new_def at_rest_def)
  obtain sm where sm: "manifest_wf lower sm" "f (st_manifest_path st) = Some (File (manifest_payload lower sm))"
    "m_info_hash (sm_metainfo sm) = m_info_hash ?m" "sm_had_trackers sm = st_had_trackers st"
    and mp: "st_manifest_path st = st_control_dir st @ [MANIFEST_FILE_NAME]"
    and ck: "f (st_checkpoint_path st) = Some (File (checkpoint_encode ?c))"
    using r by (auto simp: at_rest_def)
  have files: "steps (prepare_selected_files_owned ?root ?m (st_selection st) Sparse ?c (st_checkpoint_path st)) f ?c f"
    unfolding prepare_selected_files_owned_def
    by (rule fold_io_steps) (auto simp: enumerate_files_def set_zip intro: prepare_owned_steps [OF wf r])
  have control: "steps (ensure_existing_safe_directory ?root (st_control_dir st)) f () f"
    by (rule existing_directory_steps) (use paths control in \<open>auto simp: starts_with_def\<close>)
  have boundary: "steps (if there then ensure_existing_safe_directory ?root (st_boundary_dir st)
      else ensure_safe_directory ?root (st_boundary_dir st)) f () f" for there
    using existing_directory_steps [OF paths(1), of f] ensure_safe_directory_steps [OF paths(1), of f] bdir eq(2) by auto
  have st: "\<lparr>st_root = ?root, st_control_dir = st_control_dir st, st_boundary_dir = st_boundary_dir st,
       st_checkpoint_path = st_checkpoint_path st, st_manifest_path = st_manifest_path st, st_meta = ?m,
       st_selection = st_selection st, st_checkpoint = ?c, st_had_trackers = sm_had_trackers sm\<rparr> = st"
    using sm(4) by simp
  have prep: "steps (prepare_root ?root) f ?root f" using root by (rule prepare_root_steps)
  have load: "steps (load_checkpoint_recovering (st_checkpoint_path st) ?m) f (Some ?c) f"
    using eq(5) ck by (rule load_checkpoint_steps)
  have manifest: "steps (resume_manifest lower (st_manifest_path st) ?m) f sm f"
    using sm(1-3) by (rule resume_manifest_steps)
  have "steps (storage_resume lower ?root ?m) f st f"
    unfolding storage_resume_def Let_def eq(1) eq(2,3) [symmetric] mp [symmetric]
    by (rule steps_ibind [OF prep], rule steps_bind_lift [OF eq(4)], unfold eq(1) eq(2,3) [symmetric] mp [symmetric],
        rule steps_ibind [OF control], rule steps_bind_exists, rule steps_ibind [OF boundary],
        rule steps_ibind [OF steps_rethrow [OF load]], rule steps_bind_lift, simp, rule steps_bind_lift, simp add: sel,
        rule steps_ibind [OF manifest], rule steps_ibind [OF steps_rethrow [OF files]]) (simp add: st)
  then show ?thesis
    unfolding open_or_create_def Let_def
    by (intro steps_ibind [OF prep] steps_bind_lift [OF eq(4)])
      (simp add: eq(1) eq(3) [symmetric] node_exists_def ck steps_bind_exists)
qed

subsection \<open>A storage on a disk\<close>

definition owned_checkpoint :: checkpoint where
  "owned_checkpoint = sample_checkpoint\<lparr>c_owned_files := \<lparr>bm_piece_count = 2, bm_bytes = [0xc0]\<rparr>\<rparr>"

definition sample_storage :: torrent_storage where
  "sample_storage =
     \<lparr>st_root = [lit ''d''], st_control_dir = control_of [lit ''d''] sample_meta,
      st_boundary_dir = control_of [lit ''d''] sample_meta @ [BOUNDARY_DIR_NAME],
      st_checkpoint_path = checkpoint_of [lit ''d''] sample_meta,
      st_manifest_path = control_of [lit ''d''] sample_meta @ [MANIFEST_FILE_NAME], st_meta = sample_meta,
      st_selection = \<lparr>priorities = [Normal, Normal]\<rparr>, st_checkpoint = owned_checkpoint,
      st_had_trackers = sm_had_trackers (from_metainfo sample_meta)\<rparr>"

definition sample_disk :: fs where
  "sample_disk q =
     (if q = st_checkpoint_path sample_storage then Some (File (checkpoint_encode owned_checkpoint))
      else if q = st_manifest_path sample_storage
      then Some (File (manifest_payload (\<lambda>s. s) (from_metainfo sample_meta)))
      else if q = [lit ''d'', lit ''n'', lit ''a''] then Some (File (replicate 3 0))
      else if q = [lit ''d'', lit ''n'', lit ''b''] then Some (File (replicate 5 0))
      else if q = [lit ''d'', lit ''n''] \<or> q \<noteq> [] \<and> q = take (length q) (st_boundary_dir sample_storage)
      then Some Directory else None)"

lemma sample_storage_simps [simp]:
  "st_meta sample_storage = sample_meta" "st_root sample_storage = [lit ''d'']" "st_checkpoint sample_storage = owned_checkpoint"
  "st_selection sample_storage = \<lparr>priorities = [Normal, Normal]\<rparr>" "piece_count sample_meta = 2"
  by (simp_all add: sample_storage_def piece_count_def sample_meta_def)

lemma sample_paths: "path_components (lit ''n/a'') = [NormalComp (lit ''n''), NormalComp (lit ''a'')]"
  "path_components (lit ''n/b'') = [NormalComp (lit ''n''), NormalComp (lit ''b'')]"
  by (simp_all add: path_components_def component_of_def lit_def)

lemma sample_files: "m_files sample_meta = [\<lparr>f_path = lit ''n/a'', f_length = 3, f_offset = 0\<rparr>, \<lparr>f_path = lit ''n/b'', f_length = 5, f_offset = 3\<rparr>]"
  by (simp add: sample_meta_def)

lemma owned_bits: "bm_get (c_owned_files owned_checkpoint) k \<longleftrightarrow> k < 2" "\<not> bm_get (c_verified owned_checkpoint) k"
proof -
  have "[0xc0] = put_bit (put_bit [0] 0 True) 1 True" by (simp add: put_bit_def set_bit_def get_opt_def)
  moreover have "\<not> bit_is_set [0] k" using bit_is_set_zeros [of 1 k] by simp
  ultimately show "bm_get (c_owned_files owned_checkpoint) k \<longleftrightarrow> k < 2"
    by (auto simp: owned_checkpoint_def bit_is_set_put_bit)
  show "\<not> bm_get (c_verified owned_checkpoint) k" by (simp add: owned_checkpoint_def sample_checkpoint_def bitmap_new_def)
qed

lemma sample_priorities: "c_priorities owned_checkpoint = [Normal, Normal]"
  by (simp add: owned_checkpoint_def sample_checkpoint_def sample_files)

lemma owned_checkpoint_wf: "checkpoint_wf sample_meta owned_checkpoint"
proof -
  have "checkpoint_wf sample_meta sample_checkpoint" using sample_checkpoint_wf [of 3] by (simp add: sample_checkpoint_def)
  moreover have "c_file_count sample_checkpoint = 2" by (simp add: sample_checkpoint_def sample_files)
  moreover have "bitmap_wf 2 \<lparr>bm_piece_count = 2, bm_bytes = [0xc0]\<rparr>"
    using owned_bits(1) by (auto simp: bitmap_wf_def owned_checkpoint_def div_ceil_def)
  ultimately show ?thesis by (auto simp: checkpoint_wf_def validate_against_iff owned_checkpoint_def sample_files)
qed

lemma sample_storage_wf: "storage_wf sample_storage"
proof -
  have ok: "meta_ok sample_meta" by (rule parsed_meta_ok [OF sample_parse]) simp
  have "\<not> reserved_path (lit ''n/a'')" "\<not> reserved_path (lit ''n/b'')"
    unfolding reserved_path_def sample_paths by (simp_all add: eq_ignore_ascii_case_def CONTROL_DIR_NAME_def lit_def)
  then have "reject_reserved_collision sample_meta = Inr ()"
    by (simp add: reject_reserved_collision_def sample_files)
  then show ?thesis
    using ok sample_priorities meta_targets_distinct [OF ok] owned_checkpoint_wf
    by (simp add: storage_wf_def Let_def meta_ok_def) (simp add: sample_storage_def)
qed

lemma sample_targets:
  "target_path [lit ''d''] (lit ''n/a'') = Inr [lit ''d'', lit ''n'', lit ''a'']"
  "target_path [lit ''d''] (lit ''n/b'') = Inr [lit ''d'', lit ''n'', lit ''b'']"
  using sample_paths by (simp_all add: target_path_def is_absolute_def lit_def)

lemma sample_control:
  "st_control_dir sample_storage = [lit ''d'', CONTROL_DIR_NAME, to_hex (m_info_hash sample_meta)]"
  "st_boundary_dir sample_storage = [lit ''d'', CONTROL_DIR_NAME, to_hex (m_info_hash sample_meta), BOUNDARY_DIR_NAME]"
  "st_checkpoint_path sample_storage = [lit ''d'', CONTROL_DIR_NAME, to_hex (m_info_hash sample_meta), RESUME_FILE_NAME]"
  "st_manifest_path sample_storage = [lit ''d'', CONTROL_DIR_NAME, to_hex (m_info_hash sample_meta), MANIFEST_FILE_NAME]"
  by (simp_all add: sample_storage_def control_of_def control_dir_def checkpoint_of_def)

lemma sample_names: "CONTROL_DIR_NAME \<noteq> lit ''n''" "lit ''n'' \<noteq> CONTROL_DIR_NAME" "BOUNDARY_DIR_NAME \<noteq> RESUME_FILE_NAME"
  "BOUNDARY_DIR_NAME \<noteq> MANIFEST_FILE_NAME" "MANIFEST_FILE_NAME \<noteq> RESUME_FILE_NAME"
  by (simp_all add: CONTROL_DIR_NAME_def BOUNDARY_DIR_NAME_def RESUME_FILE_NAME_def MANIFEST_FILE_NAME_def)

lemma sample_directory:
  "sample_disk q = Some Directory \<Longrightarrow> q = [lit ''d'', lit ''n''] \<or> q = take (length q) (st_boundary_dir sample_storage)"
  by (auto simp: sample_disk_def split: if_splits)

lemma plain_sample: "plain_node (sample_disk q) \<longleftrightarrow> sample_disk q \<noteq> Some Directory"
  by (auto simp: plain_node_def sample_disk_def)

lemma sample_disk_files:
  "sample_disk [lit ''d'', lit ''n'', lit ''a''] = Some (File (replicate 3 0))"
  "sample_disk [lit ''d'', lit ''n'', lit ''b''] = Some (File (replicate 5 0))"
  "sample_disk (st_checkpoint_path sample_storage) = Some (File (checkpoint_encode owned_checkpoint))"
  "sample_disk (st_manifest_path sample_storage) = Some (File (manifest_payload (\<lambda>s. s) (from_metainfo sample_meta)))"
  unfolding sample_disk_def sample_control by (simp_all add: lit_def sample_names)

lemma sample_disk_dirs:
  "0 < n \<Longrightarrow> n \<le> length (st_boundary_dir sample_storage) \<Longrightarrow> sample_disk (take n (st_boundary_dir sample_storage)) = Some Directory"
  "sample_disk [lit ''d''] = Some Directory" "sample_disk [lit ''d'', lit ''n''] = Some Directory"
proof -
  show *: "sample_disk (take n (st_boundary_dir sample_storage)) = Some Directory"
    if n: "0 < n" "n \<le> length (st_boundary_dir sample_storage)" for n
  proof -
    have "take n (st_boundary_dir sample_storage) \<noteq> [lit ''d'', lit ''n'', x]" for x
      by (auto simp: sample_control sample_names take_Cons split: nat.splits)
    moreover have "take n (st_boundary_dir sample_storage) \<noteq> butlast (st_boundary_dir sample_storage) @ [x]"
      if "x \<noteq> BOUNDARY_DIR_NAME" for x
      using that n by (auto simp: sample_control take_Cons split: nat.splits)
    ultimately show ?thesis using n sample_names by (simp add: sample_disk_def sample_control)
  qed
  show "sample_disk [lit ''d''] = Some Directory" using * [of 1] by (simp add: sample_control)
  show "sample_disk [lit ''d'', lit ''n''] = Some Directory" by (simp add: sample_disk_def sample_control)
qed

lemma sample_storage_ready: "storage_ready sample_storage sample_disk"
  unfolding storage_ready_def
proof (intro conjI allI impI)
  fix n assume n: "0 < n \<and> n \<le> length (st_boundary_dir sample_storage)"
  then show "sample_disk (take n (st_boundary_dir sample_storage)) = Some Directory" by (simp add: sample_disk_dirs)
next
  fix k assume "k < length (m_files (st_meta sample_storage))"
  then have "k = 0 \<or> k = 1" by (auto simp: sample_files)
  then show "\<exists>p. target_path (st_root sample_storage) (f_path (m_files (st_meta sample_storage) ! k)) = Inr p
      \<and> (is_selected (priorities (st_selection sample_storage) ! k) \<longrightarrow> file_data (sample_disk p) \<noteq> None)"
    by (auto simp: sample_files sample_targets sample_disk_files)
next
  show "file_data (sample_disk (st_checkpoint_path sample_storage)) \<noteq> None" by (simp add: sample_disk_files)
next
  have "last (tmp_of (st_checkpoint_path sample_storage)) \<noteq> BOUNDARY_DIR_NAME"
    by (simp add: sample_control append_suffix_def RESUME_FILE_NAME_def BOUNDARY_DIR_NAME_def lit_def)
  then show "plain_node (sample_disk (tmp_of (st_checkpoint_path sample_storage)))"
    by (auto dest!: sample_directory simp: plain_sample sample_control append_suffix_def)
next
  fix i
  show "plain_node (sample_disk (boundary_piece_path sample_storage i))"
    by (auto dest!: sample_directory dest: arg_cong [of _ _ length] simp: plain_sample sample_control boundary_piece_path_def)
  show "plain_node (sample_disk (tmp_of (boundary_piece_path sample_storage i)))"
    by (auto dest!: sample_directory dest: arg_cong [of _ _ length] simp: plain_sample sample_control boundary_piece_path_def append_suffix_def)
qed

lemma sample_at_rest: "at_rest (\<lambda>s. s) sample_storage sample_disk"
proof -
  have "manifest_wf (\<lambda>s. s) (from_metainfo sample_meta)" using parsed_manifest_wf [OF sample_parse _ sample_sized] by simp
  moreover have "m_info_hash (sm_metainfo (from_metainfo sample_meta)) = m_info_hash sample_meta"
    by (simp add: from_metainfo_def)
  ultimately have "\<exists>sm. manifest_wf (\<lambda>s. s) sm
      \<and> sample_disk (st_manifest_path sample_storage) = Some (File (manifest_payload (\<lambda>s. s) sm))
      \<and> m_info_hash (sm_metainfo sm) = m_info_hash sample_meta \<and> sm_had_trackers sm = st_had_trackers sample_storage"
    by (intro exI [of _ "from_metainfo sample_meta"]) (simp add: sample_disk_files, simp add: sample_storage_def)
  moreover have "\<forall>k<length (m_files sample_meta). is_selected ([Normal, Normal] ! k) \<longrightarrow>
      bm_get (c_owned_files owned_checkpoint) k
      \<and> (\<forall>p. target_path [lit ''d''] (f_path (m_files sample_meta ! k)) = Inr p \<longrightarrow>
           p \<noteq> [] \<and> starts_with [lit ''d''] (butlast p) \<and> (\<forall>n. 0 < n \<and> n < length p \<longrightarrow> sample_disk (take n p) = Some Directory))"
  proof (intro allI impI)
    fix k assume "k < length (m_files sample_meta)"
    then have "k = 0 \<or> k = 1" by (auto simp: sample_files)
    moreover have "sample_disk (take n [lit ''d'', lit ''n'', x]) = Some Directory" if "0 < n" "n < 3" for n x
      using that by (auto simp: sample_disk_dirs take_Cons split: nat.splits)
    ultimately show "bm_get (c_owned_files owned_checkpoint) k
      \<and> (\<forall>p. target_path [lit ''d''] (f_path (m_files sample_meta ! k)) = Inr p \<longrightarrow>
           p \<noteq> [] \<and> starts_with [lit ''d''] (butlast p) \<and> (\<forall>n. 0 < n \<and> n < length p \<longrightarrow> sample_disk (take n p) = Some Directory))"
      by (auto simp: owned_bits sample_files sample_targets starts_with_def)
  qed
  moreover have "st_manifest_path sample_storage = st_control_dir sample_storage @ [MANIFEST_FILE_NAME]"
    by (simp add: sample_control)
  ultimately show ?thesis
    using sample_storage_ready by (simp add: at_rest_def sample_disk_files is_selected_def)
qed

lemma run_ibind: "steps m f x g \<Longrightarrow> k x (quiet g) = r \<Longrightarrow> ibind m k (quiet f) = r"
  by (simp add: steps_def ibind_def)

subsection \<open>Allocation\<close>

lemma write_zeroes_steps:
  "file_data (f p) = Some (replicate off 0) \<Longrightarrow> steps (write_zeroes p off remaining) f () (f(p := Some (File (replicate (off + remaining) 0))))"
proof (induction p off remaining arbitrary: f rule: write_zeroes.induct)
  case (1 p off remaining)
  show ?case
  proof (cases "remaining = 0")
    case True
    with 1(2) show ?thesis by (simp add: write_zeroes.simps [of p off] file_data_Some fun_upd_idem)
  next
    case False
    define n where "n = min remaining FULL_ALLOCATION_CHUNK"
    let ?g = "f(p := Some (File (replicate (off + n) 0)))"
    have n: "n \<noteq> 0" "n \<le> remaining" using False by (auto simp: n_def FULL_ALLOCATION_CHUNK_def)
    have "write_at p off (replicate n 0) f = ?g"
      using 1(2) n(1) by (simp add: write_at_def overwrite_def replicate_add)
    then have "steps (fs_write_all p off (replicate n 0)) f () ?g" by (simp add: fs_write_all_def)
    moreover have "steps (write_zeroes p (off + n) (remaining - n)) ?g () (?g(p := Some (File (replicate (off + n + (remaining - n)) 0))))"
      using False by (intro 1(1)) (simp_all add: n_def)
    ultimately show ?thesis
      using False n(2) by (subst write_zeroes.simps) (auto simp: Let_def simp flip: n_def intro!: steps_ibind)
  qed
qed

lemma allocate_steps:
  assumes "file_data (f p) = Some d"
  shows "steps (allocate_file p len Full) f () (f(p := Some (File (replicate len 0))))"
    "d = [] \<Longrightarrow> steps (allocate_file p len Sparse) f () (f(p := Some (File (replicate len 0))))"
proof -
  let ?g = "f(p := Some (File []))"
  have "steps (fs_set_len p 0) f () ?g" using assms by (simp add: fs_set_len_def)
  moreover have "steps (write_zeroes p 0 len) ?g () (f(p := Some (File (replicate len 0))))"
    using write_zeroes_steps [of ?g p 0 len] by simp
  ultimately show "steps (allocate_file p len Full) f () (f(p := Some (File (replicate len 0))))"
    by (auto simp: allocate_file_def fs_sync_def intro!: steps_ibind)
  assume "d = []"
  then have "steps (fs_set_len p len) f () (f(p := Some (File (replicate len 0))))" using assms by (simp add: fs_set_len_def)
  then show "steps (allocate_file p len Sparse) f () (f(p := Some (File (replicate len 0))))"
    by (auto simp: allocate_file_def fs_sync_def intro!: steps_ibind)
qed

lemma torn_save_stops:
  assumes "\<And>n. 0 < n \<Longrightarrow> n \<le> length (butlast p) \<Longrightarrow> f (take n (butlast p)) = Some Directory" "p \<noteq> []"
    and "f (append_suffix p ''.tmp'') = None"
  shows "save_checkpoint_atomic p c \<lparr>files = f, events = [Proceed, Crash 0]\<rparr>
    = (Stopped, \<lparr>files = f(append_suffix p ''.tmp'' := Some (File [])), events = []\<rparr>)"
proof -
  have each: "each (\<lambda>q. ibind (path_exists q) (\<lambda>e. do_if (\<not> e) (fs_create_dir q))) ps w = (Done (), w)"
    if "\<forall>q \<in> set ps. files w q = Some Directory" for ps and w :: world
    using that by (induction ps) (auto simp: node_exists_def do_if_def ibind_def path_exists_def ret_def)
  have "ensure_parent ResumeError.Io p w = (Done (), w)" if "files w = f" for w
    unfolding ensure_parent_def fs_create_dir_all_def rethrow_def
    using assms(1) that by (subst do_if_def) (simp add: ibind_def attempt_def each ret_def del: upt_Suc length_butlast)
  moreover have "parent_ok f (append_suffix p ''.tmp'')"
    using assms(1) [of "length (butlast p)"] assms(2) by (auto simp: parent_ok_def simp del: length_butlast)
  ultimately show ?thesis
    using assms(3) by (simp add: save_checkpoint_atomic_def replace_file_def write_synced_def fs_open_truncate_def fs_write_all_def
        write_at_def io_defs)
qed

lemma torn_open_fails:
  assumes reserved: "reject_reserved_collision m = Inr ()"
    and p: "dir = control_dir root (to_hex (m_info_hash m))" "p = dir @ [RESUME_FILE_NAME]"
    and dirs: "\<And>n. 0 < n \<Longrightarrow> n \<le> length (dir @ [BOUNDARY_DIR_NAME]) \<Longrightarrow> g (take n (dir @ [BOUNDARY_DIR_NAME])) = Some Directory"
    and torn: "g p = None" "g (append_suffix p ''.tmp'') = Some (File [])" "g (append_suffix p ''.bak'') = None"
  shows "open_or_create lower root m sel allocation (quiet g) = (Err (StorageError.Resume (InvalidFormat BadMagic)), quiet g)"
proof -
  have dir: "g (take n dir) = Some Directory" if "0 < n" "n \<le> length dir" for n using dirs [OF that(1)] that(2) by simp
  have "g (take n root) = Some Directory" if "0 < n" "n \<le> length root" for n
    using dir [OF that(1)] that(2) p(1) by (simp add: control_dir_def)
  then have prep: "steps (prepare_root root) g root g" by (rule prepare_root_steps)
  have in_root: "starts_with root dir" "starts_with root (dir @ [BOUNDARY_DIR_NAME])" "dir \<noteq> []" "p \<noteq> []"
    using p by (simp_all add: control_dir_def starts_with_def)
  have control: "steps (ensure_existing_safe_directory root dir) g () g"
    by (rule existing_directory_steps [OF in_root(1,3)]) (rule dir)
  have "steps (ensure_safe_directory root (dir @ [BOUNDARY_DIR_NAME])) g () g"
    by (rule ensure_safe_directory_steps [OF in_root(2)]) (rule dirs)
  moreover have "steps (ensure_existing_safe_directory root (dir @ [BOUNDARY_DIR_NAME])) g () g"
    by (rule existing_directory_steps [OF in_root(2)], simp) (rule dirs)
  ultimately have boundary: "steps (if there then ensure_existing_safe_directory root (dir @ [BOUNDARY_DIR_NAME])
      else ensure_safe_directory root (dir @ [BOUNDARY_DIR_NAME])) g () g" for there by simp
  have "read_checkpoint m q [] = Inl (InvalidFormat BadMagic)" for q
    by (simp add: read_checkpoint_def checkpoint_parse_def from_utf8_def)
  then have load: "load_checkpoint_recovering p m (quiet g) = (Err (InvalidFormat BadMagic), quiet g)"
    using torn in_root(4)
    by (simp add: load_checkpoint_recovering_def load_recovering_def try_candidates.simps node_exists_def fs_read_def io_defs)
  have "storage_resume lower root m (quiet g) = (Err (StorageError.Resume (InvalidFormat BadMagic)), quiet g)"
    unfolding storage_resume_def Let_def
    by (rule run_ibind [OF prep], rule run_ibind [of _ _ "()" g], simp add: reserved, unfold p [symmetric],
        rule run_ibind [OF control], rule run_ibind [of _ _ _ g], simp, rule run_ibind [OF boundary])
      (simp add: ibind_def rethrow_def attempt_def load throw_def)
  then show ?thesis
    unfolding open_or_create_def Let_def
    by (intro run_ibind [OF prep]) (simp add: reserved torn p [symmetric] ibind_def path_exists_def node_exists_def)
qed

section \<open>Properties\<close>

text \<open>C21: For every torrent the parser accepts, whatever \<open>open_or_create\<close> returns is a well-formed storage
  of that torrent, whether it resumed or created it: the checkpoint fits the torrent's geometry and
  the selection, its bitmaps have the right lengths and no padding bits, the output files have
  pairwise different paths, none of which lies in the control directory, and the control paths are
  derived from the root and the info hash.\<close>
theorem open_or_create_well_formed:
  assumes "metainfo_parse sha1 url_parse lower bytes = Inr m" "\<forall>x. length (sha1 x) = 20"
    and "open_or_create lower root m sel allocation w = (Done st, w')"
  shows "storage_wf st \<and> st_meta st = m"
  using open_or_create_yields [OF parsed_meta_ok [OF assms(1,2)], of lower root sel allocation] assms(3)
  by (auto simp: yields_def)

theorem open_or_create_well_formed_witness:
  "\<exists>st. open_or_create (\<lambda>s. s) [lit ''d''] sample_meta \<lparr>priorities = [Normal, Skip]\<rparr> Full (quiet sample_disk) = (Done st, quiet sample_disk)
     \<and> storage_wf st \<and> st_meta st = sample_meta"
  using open_or_create_steps [OF sample_storage_wf sample_at_rest, of "\<lparr>priorities = [Normal, Skip]\<rparr>" Full]
    open_or_create_well_formed [OF sample_parse]
  by (simp add: steps_def)

text \<open>C22: A storage that was left on disk is found again: whenever its directories, files, checkpoint
  and manifest are there and every selected file is recorded as owned, \<open>open_or_create\<close> under the same
  root succeeds with exactly the checkpoint, selection and paths it had, whatever selection and
  allocation mode the caller passes, and without touching the disk.\<close>
theorem storage_reopens:
  assumes "storage_wf st" "at_rest lower st f"
  shows "open_or_create lower (st_root st) (st_meta st) sel allocation (quiet f) = (Done st, quiet f)"
  using open_or_create_steps [OF assms] by (simp add: steps_def)

theorem storage_reopens_witness:
  "open_or_create (\<lambda>s. s) [lit ''d''] sample_meta \<lparr>priorities = [Skip, High]\<rparr> Sparse (quiet sample_disk)
     = (Done sample_storage, quiet sample_disk)"
  using storage_reopens [OF sample_storage_wf sample_at_rest] by simp

lemma sample_sound: "storage_sound sha1 sample_storage sample_disk" "sound sha1 [lit ''d''] sample_meta owned_checkpoint f"
  by (simp_all add: storage_sound_def sound_def sample_storage_wf owned_bits)

lemma sample_piece:
  "verify_piece (\<lambda>_. replicate 20 0) sample_meta 0 [1, 2, 3, 4] = Inr True"
  "i < 2 \<Longrightarrow> piece_priority \<lparr>priorities = [Normal, Normal]\<rparr> sample_meta i = Inr Normal"
proof -
  have m: "metainfo_wf sample_meta" using storage_wf_paths(3) [OF sample_storage_wf] by simp
  show "verify_piece (\<lambda>_. replicate 20 0) sample_meta 0 [1, 2, 3, 4] = Inr True"
    by (simp add: verify_piece_def piece_size_def get_opt_def checked_mul64_def u64_limit_def) (simp add: sample_meta_def)
  show "piece_priority \<lparr>priorities = [Normal, Normal]\<rparr> sample_meta i = Inr Normal" if "i < 2"
  proof -
    have "overlaps sample_meta i 1" using that by (auto simp: overlaps_def sample_meta_def)
    moreover have "[Normal, Normal] ! k = Normal" if "overlaps sample_meta i k" for k
      using that by (auto simp: overlaps_def sample_files less_Suc_eq)
    ultimately have "(!) [Normal, Normal] ` {k. overlaps sample_meta i k} = {Normal}" by force
    then show ?thesis using piece_priority_wf [OF m _, of "\<lparr>priorities = [Normal, Normal]\<rparr>" i] that
      by (simp add: sample_files max_def less_eq_FilePriority_def)
  qed
qed

lemma written_readable:
  assumes "storage_wf st" "storage_ready st f" "c_generation (st_checkpoint st) = generation"
    and "i < piece_count (st_meta st)" "piece_priority (st_selection st) (st_meta st) i = Inr p" "is_selected p"
    and v: "verify_piece sha1 (st_meta st) i bytes = Inr True"
    and len: "len \<noteq> 0" "unat len \<le> DEFAULT_BLOCK_SIZE" "unat start + unat len \<le> length bytes"
  shows "\<exists>commit st' g. steps (write_verified_piece sha1 st generation i bytes) f (commit, st') g
    \<and> storage_wf st' \<and> storage_ready st' g \<and> bm_get (c_verified (st_checkpoint st')) i
    \<and> steps (read_verified_block sha1 st' i start len) g (bslice bytes (unat start) (unat start + unat len), st') g"
proof -
  obtain commit st' g c where w: "steps (write_verified_piece sha1 st generation i bytes) f (commit, st') g"
    "st' = set_checkpoint st c" "storage_wf st'" "storage_ready st' g" "bm_get (c_verified (st_checkpoint st')) i"
    "piece_on_disk (st_root st) (st_meta st) (st_selection st) g i = Some bytes"
    using write_verified_piece_proceeds [OF assms(1-7)] by (auto simp: proceeds_def)
  then show ?thesis
    using read_verified_block_steps [OF w(3), of i g bytes sha1 len start] assms(4) v len
    by (intro exI [of _ commit] exI [of _ st'] exI [of _ g]) simp
qed

lemma sample_generation: "c_generation owned_checkpoint = 3"
  by (simp add: owned_checkpoint_def sample_checkpoint_def)

lemma sample_read:
  obtains st f where "storage_wf st" "steps (read_verified_block (\<lambda>_. replicate 20 0) st 0 1 3) f ([2, 3, 4], st) f"
  using written_readable [OF sample_storage_wf sample_storage_ready, of 3 0 Normal "\<lambda>_. replicate 20 0" "[1, 2, 3, 4]" 3 1] sample_piece(1) sample_piece(2) [of 0] that
  by (auto simp: is_selected_def DEFAULT_BLOCK_SIZE_def bslice_def sample_generation)

lemma sample_recheck:
  "steps (startup_recheck (\<lambda>_. replicate 20 0) sample_storage CheckpointOnly) sample_disk (empty_report, sample_storage) sample_disk"
proof -
  have v: "is_verified sample_storage i = Inr False" if "i < 2" for i
    using that owned_checkpoint_wf owned_bits(2)
    by (auto simp: is_verified_def bitmap_is_set_wf checkpoint_wf_def validate_against_iff)
  have "steps (fold_io (recheck_piece (\<lambda>_. replicate 20 0) CheckpointOnly) [0..<2] (sample_storage, empty_report, False)) sample_disk
      (sample_storage, empty_report, False) sample_disk"
    by (rule fold_io_steps) (auto simp: recheck_piece_def v storage_priority_def sample_piece(2) is_selected_def)
  then show ?thesis unfolding startup_recheck_def by (auto simp: do_if_def intro!: steps_ibind)
qed

text \<open>C2: Writing a piece is crash-consistent: if every piece the checkpoint on disk marks as verified is
  in the output files with its right hash, then after \<open>write_verified_piece\<close> of a missing piece, however its
  system calls proceed, fail, are cut short or are stopped, recovery still finds a checkpoint, and
  every piece that checkpoint marks as verified is on disk with its right hash. When the call
  returns, that checkpoint is the one in memory and has the piece; when it fails, the storage in
  memory is still sound.\<close>
theorem write_verified_piece_crash_safe:
  assumes "storage_sound sha1 st (files w)" "files w (st_checkpoint_path st) = Some (File old)"
    and "read_checkpoint (st_meta st) (st_checkpoint_path st) old = Inr b"
      "sound sha1 (st_root st) (st_meta st) b (files w)" "c_priorities b = priorities (st_selection st)"
    and "\<not> bm_get (c_verified b) i" "\<not> bm_get (c_verified (st_checkpoint st)) i"
    and "write_verified_piece sha1 st generation i bytes w = (r, w')"
  shows "\<exists>d. load_checkpoint_recovering (st_checkpoint_path st) (st_meta st) (quiet (files w')) = (Done (Some d), quiet (files w'))
    \<and> sound sha1 (st_root st) (st_meta st) d (files w')
    \<and> (\<forall>pc st'. r = Done (pc, st') \<longrightarrow> d = st_checkpoint st' \<and> bm_get (c_verified d) i \<and> storage_sound sha1 st' (files w'))
    \<and> (\<forall>e st'. r = Err (e, st') \<longrightarrow> storage_sound sha1 st' (files w'))"
proof -
  have cp: "st_checkpoint_path st = checkpoint_of (st_root st) (st_meta st)"
    using storage_wf_paths(2) assms(1) by (simp add: storage_sound_def)
  note run = runsD [OF write_piece_runs [OF assms(1) assms(2) [unfolded cp] assms(3) [unfolded cp] assms(4-7)] assms(8)]
  have found: "\<exists>d. load_checkpoint_recovering (st_checkpoint_path st) (st_meta st) (quiet (files w')) = (Done (Some d), quiet (files w'))
      \<and> sound sha1 (st_root st) (st_meta st) d (files w')" if "disk_sound sha1 (st_root st) (st_meta st) (files w')"
    using that load_checkpoint_quiet unfolding cp disk_sound_def by blast
  show ?thesis
  proof (cases r)
    case (Done x)
    obtain pc st' where x: "x = (pc, st')" by (cases x)
    have *: "storage_sound sha1 st' (files w')" "bm_get (c_verified (st_checkpoint st')) i"
      "recovered (read_checkpoint (st_meta st)) (files w') (st_checkpoint_path st) = Some (st_checkpoint st')"
      "st_root st' = st_root st \<and> st_meta st' = st_meta st"
      using run Done x cp by auto
    with load_checkpoint_quiet [OF *(3)] Done x show ?thesis by (auto simp: storage_sound_def)
  next
    case (Err x)
    with run found show ?thesis by (cases x) auto
  next
    case Stopped
    with run found show ?thesis by auto
  qed
qed

theorem write_verified_piece_crash_safe_witness:
  "let w = \<lparr>files = sample_disk, events = [Proceed, Proceed, Proceed, Crash 2]\<rparr>;
       w' = snd (write_verified_piece (\<lambda>_. replicate 20 0) sample_storage 3 0 [1, 2, 3, 4] w)
   in \<exists>d. fst (load_checkpoint_recovering (st_checkpoint_path sample_storage) sample_meta (quiet (files w'))) = Done (Some d)
        \<and> sound (\<lambda>_. replicate 20 0) [lit ''d''] sample_meta d (files w')"
proof -
  let ?w = "\<lparr>files = sample_disk, events = [Proceed, Proceed, Proceed, Crash 2]\<rparr>"
  have "read_checkpoint sample_meta (st_checkpoint_path sample_storage) (checkpoint_encode owned_checkpoint) = Inr owned_checkpoint"
    by (rule resume.parse_encode [OF owned_checkpoint_wf])
  with write_verified_piece_crash_safe [of "\<lambda>_. replicate 20 0" sample_storage ?w "checkpoint_encode owned_checkpoint"
      owned_checkpoint 0, OF _ _ _ _ _ _ _ prod.collapse [symmetric]]
  obtain d where "load_checkpoint_recovering (st_checkpoint_path sample_storage) sample_meta
      (quiet (files (snd (write_verified_piece (\<lambda>_. replicate 20 0) sample_storage 3 0 [1, 2, 3, 4] ?w)))) =
        (Done (Some d), quiet (files (snd (write_verified_piece (\<lambda>_. replicate 20 0) sample_storage 3 0 [1, 2, 3, 4] ?w))))"
    "sound (\<lambda>_. replicate 20 0) [lit ''d''] sample_meta d
      (files (snd (write_verified_piece (\<lambda>_. replicate 20 0) sample_storage 3 0 [1, 2, 3, 4] ?w)))"
    by (simp add: sample_sound sample_disk_files owned_bits sample_priorities) blast
  then show ?thesis unfolding Let_def by (intro exI [of _ d]) simp
qed

text \<open>C18: What \<open>read_verified_block\<close> hands to a peer is right whatever happens on disk: if it returns, the
  block is the requested part of a piece that is marked verified and whose bytes on disk have the
  piece's hash at that moment, and nothing has changed; if it fails, the storage is unchanged or the
  piece is no longer marked as verified.\<close>
theorem read_verified_block_exact:
  assumes "storage_wf st" "read_verified_block sha1 st i start len w = (r, w')"
  shows "(\<forall>block st'. r = Done (block, st') \<longrightarrow>
      st' = st \<and> files w' = files w \<and> bm_get (c_verified (st_checkpoint st)) i
      \<and> (\<exists>piece. piece_on_disk (st_root st) (st_meta st) (st_selection st) (files w) i = Some piece
           \<and> verify_piece sha1 (st_meta st) i piece = Inr True
           \<and> unat start + unat len \<le> length piece \<and> block = bslice piece (unat start) (unat start + unat len)))
    \<and> (\<forall>e st'. r = Err (e, st') \<longrightarrow> st' = st \<or> \<not> bm_get (c_verified (st_checkpoint st')) i)"
  using runsD [OF read_verified_block_runs [OF assms(1)] assms(2)] by auto

theorem read_verified_block_exact_witness:
  "\<exists>st f block. read_verified_block (\<lambda>_. replicate 20 0) st 0 1 3 (quiet f) = (Done (block, st), quiet f)
     \<and> block = [2, 3, 4] \<and> bm_get (c_verified (st_checkpoint st)) 0
     \<and> (\<exists>piece. piece_on_disk (st_root st) (st_meta st) (st_selection st) f 0 = Some piece \<and> block = bslice piece 1 4)"
proof -
  obtain st f where st: "storage_wf st" and read: "steps (read_verified_block (\<lambda>_. replicate 20 0) st 0 1 3) f ([2, 3, 4], st) f"
    by (rule sample_read)
  then show ?thesis
    using read_verified_block_exact [OF st read [unfolded steps_def]] by (intro exI [of _ st] exI [of _ f]) (auto simp: steps_def)
qed

text \<open>C3: On a disk that serves every call, storing a piece with the right hash works and the data can
  be read back: \<open>write_verified_piece\<close> returns, the storage stays well formed and ready for the next
  piece, and every request for a part of the piece of at most 16 KiB returns exactly those bytes,
  whether the piece lies in one file, spans several, or is kept in the boundary cache because one of
  its files is skipped.\<close>
theorem write_read_roundtrip:
  assumes "storage_wf st" "storage_ready st f" "c_generation (st_checkpoint st) = generation"
    and "i < piece_count (st_meta st)" "piece_priority (st_selection st) (st_meta st) i = Inr p" "is_selected p"
    and "verify_piece sha1 (st_meta st) i bytes = Inr True"
    and "len \<noteq> 0" "unat len \<le> DEFAULT_BLOCK_SIZE" "unat start + unat len \<le> length bytes"
  shows "\<exists>commit st' g. write_verified_piece sha1 st generation i bytes (quiet f) = (Done (commit, st'), quiet g)
    \<and> storage_wf st' \<and> storage_ready st' g \<and> bm_get (c_verified (st_checkpoint st')) i
    \<and> read_verified_block sha1 st' i start len (quiet g)
        = (Done (bslice bytes (unat start) (unat start + unat len), st'), quiet g)"
  using written_readable [OF assms] unfolding steps_def by blast

theorem write_read_roundtrip_witness:
  "\<exists>commit st' g. write_verified_piece (\<lambda>_. replicate 20 0) sample_storage 3 0 [1, 2, 3, 4] (quiet sample_disk) = (Done (commit, st'), quiet g)
     \<and> read_verified_block (\<lambda>_. replicate 20 0) st' 0 1 2 (quiet g) = (Done ([2, 3], st'), quiet g)"
  using write_read_roundtrip [OF sample_storage_wf sample_storage_ready, of 3 0 Normal "\<lambda>_. replicate 20 0" "[1, 2, 3, 4]" 2 1] sample_piece(1) sample_piece(2) [of 0]
  by (auto simp: is_selected_def DEFAULT_BLOCK_SIZE_def bslice_def sample_generation)

text \<open>C20: A recheck makes the storage sound whatever was on disk before: when \<open>startup_recheck\<close> returns, in
  either mode and whatever reads failed on the way, every piece the checkpoint marks as verified is on disk
  with its right hash.\<close>
theorem startup_recheck_sound:
  assumes "storage_wf st" "startup_recheck sha1 st mode w = (Done (report, st'), w')"
  shows "storage_sound sha1 st' (files w')"
  using runsD [OF startup_recheck_runs [OF assms(1)] assms(2)] by simp

theorem startup_recheck_sound_witness:
  "\<exists>report st'. startup_recheck (\<lambda>_. replicate 20 0) sample_storage CheckpointOnly (quiet sample_disk) = (Done (report, st'), quiet sample_disk)
     \<and> storage_sound (\<lambda>_. replicate 20 0) st' sample_disk"
  using sample_recheck startup_recheck_sound [OF sample_storage_wf sample_recheck [unfolded steps_def]]
  by (auto simp: steps_def)

text \<open>C25: Full allocation always comes to an end and does what sparse allocation does: on a disk that
  serves every call, the loop of \<open>allocate_file\<close> over 1 MiB chunks, for every length, leaves a file of exactly
  that many zero bytes whatever was in it, and on a newly created file both modes leave the same
  bytes.\<close>
theorem allocation_zero_fills:
  assumes "file_data (f p) = Some d"
  shows "allocate_file p len Full (quiet f) = (Done (), quiet (f(p := Some (File (replicate len 0)))))
    \<and> (d = [] \<longrightarrow> allocate_file p len Sparse (quiet f) = allocate_file p len Full (quiet f))"
  using allocate_steps [of f p d len] assms by (auto simp: steps_def)

theorem allocation_zero_fills_witness:
  "allocate_file [lit ''x''] 3000000 Sparse (quiet [[lit ''x''] \<mapsto> File []]) =
     (Done (), quiet [[lit ''x''] \<mapsto> File (replicate 3000000 0)])"
  using allocation_zero_fills [of "[[lit ''x''] \<mapsto> File []]" "[lit ''x'']" "[]" 3000000] by simp

text \<open>If the process stops while an output file is being allocated, the storage cannot be opened
  again: the file was created but the checkpoint does not record it as owned yet, so the next
  \<open>prepare_file\<close>, and with it \<open>resume\<close>, refuses the download's own file as an unrelated existing
  target.\<close>
lemma crash_orphans_target:
  assumes "target_path root (f_path file) = Inr (root @ [name])"
    and "\<forall>n. 0 < n \<and> n \<le> length root \<longrightarrow> f (take n root) = Some Directory" "f (root @ [name]) = None"
    and "file_priority sel k = Some pr" "is_selected pr" "bitmap_is_set (c_owned_files c) k = Inr False"
  shows "\<exists>w'. prepare_file root sel Sparse cp (k, file) c \<lparr>files = f, events = [Proceed, Proceed, Crash n]\<rparr> = (Stopped, w')
    \<and> files w' = f(root @ [name] := Some (File []))
    \<and> prepare_file root sel Sparse cp (k, file) c (quiet (files w'))
        = (Err (ExistingTarget (root @ [name]), c), quiet (files w'))"
proof -
  let ?p = "root @ [name]" and ?g = "f(root @ [name] := Some (File []))"
  let ?w = "\<lparr>files = f, events = [Proceed, Proceed, Crash n]\<rparr>"
  have dirs: "list_all (\<lambda>n. h (take n root) = Some Directory) [1..<length root]" "root = [] \<or> h root = Some Directory"
    if "h = f \<or> h = ?g" for h
  proof -
    have "length (take n root) \<noteq> length (root @ [name])" for n by simp
    then have "take n root \<noteq> root @ [name]" for n by metis
    then have "h (take n root) = Some Directory" if "0 < n" "n \<le> length root" for n
      using that \<open>h = f \<or> h = ?g\<close> assms(2) by auto
    from this this [of "length root"] show "list_all (\<lambda>n. h (take n root) = Some Directory) [1..<length root]" "root = [] \<or> h root = Some Directory"
      by (auto simp: list_all_iff)
  qed
  have up: "[Suc (length root)..<Suc (length root)] = []" by simp
  have parent: "parent_ok f ?p" using dirs(2) [of f] by (auto simp: parent_ok_def)
  have "prepare_file root sel Sparse cp (k, file) c ?w = (Stopped, \<lparr>files = ?g, events = []\<rparr>)"
    using assms parent dirs [of f]
    by (simp add: prepare_file_def prepare_target_def ensure_safe_directory_def up starts_with_def ensure_target_not_symlink_def
        node_exists_def fs_canonicalize_def fs_create_new_def allocate_file_def fs_set_len_def io_defs del: upt_Suc) blast
  moreover have "prepare_file root sel Sparse cp (k, file) c (quiet ?g) = (Err (ExistingTarget ?p, c), quiet ?g)"
    using assms dirs [of ?g]
    by (simp add: prepare_file_def prepare_target_def ensure_safe_directory_def up starts_with_def ensure_target_not_symlink_def
        node_exists_def fs_canonicalize_def fs_symlink_metadata_def io_defs del: upt_Suc) blast
  ultimately show ?thesis by simp
qed

text \<open>If the process stops while the very first checkpoint of a download is being written, the
  download cannot be opened or created any more: the torn temporary file makes \<open>open_or_create\<close> choose to
  resume, and every resume then fails on that file with a format error, for every selection and
  allocation mode, although no payload has been written yet.\<close>
lemma torn_first_checkpoint_blocks:
  assumes "reject_reserved_collision m = Inr ()"
    and "dir = control_dir root (to_hex (m_info_hash m))" "p = dir @ [RESUME_FILE_NAME]"
    and "\<forall>n. 0 < n \<and> n \<le> length dir + 1 \<longrightarrow> f (take n (dir @ [BOUNDARY_DIR_NAME])) = Some Directory"
    and "f p = None" "f (append_suffix p ''.tmp'') = None" "f (append_suffix p ''.bak'') = None"
  shows "\<exists>w'. save_checkpoint_atomic p c \<lparr>files = f, events = [Proceed, Crash 0]\<rparr> = (Stopped, w')
    \<and> (\<forall>sel allocation. open_or_create lower root m sel allocation (quiet (files w'))
         = (Err (StorageError.Resume (InvalidFormat BadMagic)), quiet (files w')))"
proof -
  let ?g = "f(append_suffix p ''.tmp'' := Some (File []))"
  have ne: "p \<noteq> []" "butlast p = dir" and len: "length (append_suffix p ''.tmp'') = Suc (length dir)"
    and last: "last (append_suffix p ''.tmp'') \<noteq> BOUNDARY_DIR_NAME"
    using assms(2,3)
    by (simp_all add: control_dir_def append_suffix_def butlast_append RESUME_FILE_NAME_def BOUNDARY_DIR_NAME_def lit_def)
  have dirs: "?g (take n (dir @ [BOUNDARY_DIR_NAME])) = Some Directory" if n: "0 < n" "n \<le> length (dir @ [BOUNDARY_DIR_NAME])" for n
  proof -
    have "take n (dir @ [BOUNDARY_DIR_NAME]) \<noteq> append_suffix p ''.tmp''"
    proof
      assume eq: "take n (dir @ [BOUNDARY_DIR_NAME]) = append_suffix p ''.tmp''"
      from arg_cong [OF this, of length] n(2) len have "n = length (dir @ [BOUNDARY_DIR_NAME])" by simp
      with eq last show False by (metis last_snoc take_all_iff order_refl)
    qed
    with n assms(4) show ?thesis by simp
  qed
  have "f (take n (butlast p)) = Some Directory" if "0 < n" "n \<le> length (butlast p)" for n
    using assms(4) that ne(2) by (metis le_add1 order_trans take_append append_Nil2 diff_is_0_eq take_0)
  then have "save_checkpoint_atomic p c \<lparr>files = f, events = [Proceed, Crash 0]\<rparr> = (Stopped, \<lparr>files = ?g, events = []\<rparr>)"
    by (rule torn_save_stops) (use ne(1) assms(6) in auto)
  moreover have "open_or_create lower root m sel allocation (quiet ?g) = (Err (StorageError.Resume (InvalidFormat BadMagic)), quiet ?g)"
    for sel allocation by (rule torn_open_fails [OF assms(1-3)], rule dirs) (use assms(5,7) ne(1) in auto)
  ultimately show ?thesis by simp
qed

end
