(* ===== verification/Faults.thy ===== *)
theory Faults
  imports Files
begin

text \<open>
  Runs under a restricted set of events: \<open>runs_on A m f Q E S\<close> describes what \<open>m\<close>, started on the file
  system \<open>f\<close>, leaves behind when only events in \<open>A\<close> happen, for instance when the process may stop anywhere
  but the operating system does not refuse a call. With every event allowed it is \<open>runs\<close>.
\<close>

definition runs_on ::
  "(io_event \<Rightarrow> bool) \<Rightarrow> ('e, 'a) io \<Rightarrow> fs \<Rightarrow> ('a \<Rightarrow> fs \<Rightarrow> bool) \<Rightarrow> ('e \<Rightarrow> fs \<Rightarrow> bool) \<Rightarrow> (fs \<Rightarrow> bool) \<Rightarrow> bool" where
  "runs_on A m f Q E S \<longleftrightarrow>
     (\<forall>w. files w = f \<and> list_all A (events w) \<longrightarrow>
        list_all A (events (snd (m w)))
        \<and> (case m w of (Done x, w') \<Rightarrow> Q x (files w') | (Err e, w') \<Rightarrow> E e (files w') | (Stopped, w') \<Rightarrow> S (files w')))"

text \<open>The process may stop at any call, but no call is refused by a fault of the system.\<close>

fun no_fault :: "io_event \<Rightarrow> bool" where
  "no_fault (Fail _) = False"
| "no_fault _ = True"

lemma runs_onD:
  assumes "runs_on A m (files w) Q E S" "list_all A (events w)" "m w = (r, w')"
  shows "list_all A (events w')"
    "case r of Done x \<Rightarrow> Q x (files w') | Err e \<Rightarrow> E e (files w') | Stopped \<Rightarrow> S (files w')"
  using assms by (auto simp: runs_on_def split: outcome.splits)

named_theorems on_intros "backward rules for runs_on"

lemma runs_on_ret [simp]: "runs_on A (ret x) f Q E S \<longleftrightarrow> Q x f"
  by (auto simp: runs_on_def ret_def intro: exI [of _ "quiet f"])

lemma runs_on_throw [simp]: "runs_on A (throw e) f Q E S \<longleftrightarrow> E e f"
  by (auto simp: runs_on_def throw_def intro: exI [of _ "quiet f"])

lemma runs_on_lift [simp]: "runs_on A (lift r) f Q E S \<longleftrightarrow> (case r of Inl e \<Rightarrow> E e f | Inr x \<Rightarrow> Q x f)"
  by (cases r) simp_all

lemma runs_on_exists [simp]: "runs_on A (path_exists p) f Q E S \<longleftrightarrow> Q (node_exists f p) f"
  by (auto simp: runs_on_def path_exists_def intro: exI [of _ "quiet f"])

lemma runs_on_ibind [on_intros]:
  assumes "runs_on A m f (\<lambda>x f'. runs_on A (g x) f' Q E S) E S"
  shows "runs_on A (ibind m g) f Q E S"
  unfolding runs_on_def
proof (intro allI impI, elim conjE)
  fix w :: world assume w: "files w = f" "list_all A (events w)"
  show "list_all A (events (snd (ibind m g w)))
    \<and> (case ibind m g w of (Done x, w') \<Rightarrow> Q x (files w') | (Err e, w') \<Rightarrow> E e (files w') | (Stopped, w') \<Rightarrow> S (files w'))"
  proof (cases "m w")
    case (Pair r w')
    have "list_all A (events w')"
      "case r of Done x \<Rightarrow> runs_on A (g x) (files w') Q E S | Err e \<Rightarrow> E e (files w') | Stopped \<Rightarrow> S (files w')"
      using runs_onD [OF assms [folded w(1)] w(2) Pair] by simp_all
    with Pair show ?thesis
      by (cases r) (auto simp: ibind_def runs_on_def split: outcome.splits)
  qed
qed

lemma runs_on_attempt [on_intros]:
  assumes "runs_on A m f (\<lambda>x. Q (Inr x)) (\<lambda>e. Q (Inl e)) S"
  shows "runs_on A (attempt m) f Q E S"
  using assms by (force simp: runs_on_def attempt_def split: outcome.splits prod.splits)

lemma runs_on_rethrow [on_intros]: "runs_on A m f Q (\<lambda>e. E (h e)) S \<Longrightarrow> runs_on A (rethrow h m) f Q E S"
  unfolding rethrow_def by (intro on_intros) simp

lemma runs_on_ignore [on_intros]: "runs_on A m f (\<lambda>_. Q ()) (\<lambda>_. Q ()) S \<Longrightarrow> runs_on A (ignore m) f Q E S"
  unfolding ignore_def by (intro on_intros) simp

lemma runs_on_do_if [simp]: "runs_on A (do_if b m) f Q E S \<longleftrightarrow> (if b then runs_on A m f Q E S else Q () f)"
  by (simp add: do_if_def)

lemma runs_on_mono:
  assumes "runs_on A m f Q' E' S'"
    and "\<And>x f. Q' x f \<Longrightarrow> Q x f" "\<And>e f. E' e f \<Longrightarrow> E e f" "\<And>f. S' f \<Longrightarrow> S f"
  shows "runs_on A m f Q E S"
  using assms by (auto simp: runs_on_def split: outcome.splits prod.splits)

lemma runs_on_syscall [simp]:
  "runs_on A (syscall partial act) f Q E S \<longleftrightarrow>
     (\<forall>n. A (Fail n) \<longrightarrow> E () (partial n f)) \<and> (\<forall>n. A (Crash n) \<longrightarrow> S (partial n f))
     \<and> (case act f of None \<Rightarrow> E () f | Some (x, f') \<Rightarrow> Q x f')" (is "?L \<longleftrightarrow> ?R")
proof
  assume r: ?L
  have "E () (partial n f)" if "A (Fail n)" for n
    using r [unfolded runs_on_def, rule_format, of "\<lparr>files = f, events = [Fail n]\<rparr>"] that by (simp add: syscall_def)
  moreover have "S (partial n f)" if "A (Crash n)" for n
    using r [unfolded runs_on_def, rule_format, of "\<lparr>files = f, events = [Crash n]\<rparr>"] that by (simp add: syscall_def)
  moreover have "case act f of None \<Rightarrow> E () f | Some (x, f') \<Rightarrow> Q x f'"
    using r [unfolded runs_on_def, rule_format, of "quiet f"] by (auto simp: syscall_def split: option.splits)
  ultimately show ?R by blast
next
  assume r: ?R
  show ?L
    unfolding runs_on_def
  proof (intro allI impI, elim conjE)
    fix w :: world assume w: "files w = f" "list_all A (events w)"
    then have "list_all A (tl (events w))" by (cases "events w") simp_all
    with r w show "list_all A (events (snd (syscall partial act w)))
      \<and> (case syscall partial act w of (Done x, w') \<Rightarrow> Q x (files w') | (Err e, w') \<Rightarrow> E e (files w') | (Stopped, w') \<Rightarrow> S (files w'))"
      by (cases "events w") (auto simp: syscall_def Let_def split: io_event.splits option.splits)
  qed
qed

lemma runs_on_if: "(b \<Longrightarrow> runs_on A m f Q E S) \<Longrightarrow> (\<not> b \<Longrightarrow> runs_on A n f Q E S) \<Longrightarrow> runs_on A (if b then m else n) f Q E S"
  by simp

lemma runs_on_bind_lift:
  "(\<And>x. r = Inr x \<Longrightarrow> runs_on A (g x) f Q E S) \<Longrightarrow> (\<And>e. r = Inl e \<Longrightarrow> E e f) \<Longrightarrow> runs_on A (ibind (lift r) g) f Q E S"
  by (cases r) simp_all

lemma runs_on_conj:
  "runs_on A m f Q E S \<Longrightarrow> runs_on A m f Q' E' S' \<Longrightarrow>
     runs_on A m f (\<lambda>x g. Q x g \<and> Q' x g) (\<lambda>e g. E e g \<and> E' e g) (\<lambda>g. S g \<and> S' g)"
  by (auto simp: runs_on_def split: outcome.splits prod.splits)

end
