(* ===== verification/Core_Model.thy ===== *)
theory Core_Model
  imports Text Complex_Main
begin

text \<open>
  \<open>crates/nova-core-model/src/lib.rs\<close>: the lifecycle of a task, the range planner shared by the hosts
  (with the one of \<open>crates/nova-download-core/src/lib.rs\<close>, which takes the host's ceiling), the identity
  of a representation, recovery checkpoints, and the decision to append to a partial file.

  Byte counts are naturals below \<open>2 ^ 64\<close>; where a sum can leave that range it wraps, as in a release build.
  The \<open>f64\<close> progress of a segment is the exact quotient.
\<close>

subsection \<open>The lifecycle of a task\<close>

datatype TaskState =
    Queued | Preparing | Probing | Downloading | Pausing | Paused | Retrying | Recovering | Verifying | Finalizing
  | Completed | Failed | Interrupted

definition TASK_LIFECYCLE_WIRE_STATES :: "str list" where
  "TASK_LIFECYCLE_WIRE_STATES = map lit
     [''queued'', ''preparing'', ''probing'', ''downloading'', ''pausing'', ''paused'', ''retrying'', ''recovering'',
      ''verifying'', ''finalizing'', ''completed'', ''error'', ''interrupted'']"

fun as_status :: "TaskState \<Rightarrow> str" where
  "as_status Queued = lit ''queued''"
| "as_status Preparing = lit ''preparing''"
| "as_status Probing = lit ''probing''"
| "as_status Downloading = lit ''downloading''"
| "as_status Pausing = lit ''pausing''"
| "as_status Paused = lit ''paused''"
| "as_status Retrying = lit ''retrying''"
| "as_status Recovering = lit ''recovering''"
| "as_status Verifying = lit ''verifying''"
| "as_status Finalizing = lit ''finalizing''"
| "as_status Completed = lit ''completed''"
| "as_status Failed = lit ''error''"
| "as_status Interrupted = lit ''interrupted''"

definition from_status :: "str \<Rightarrow> TaskState option" where
  "from_status status =
     (let s = map to_ascii_lowercase (trim status) in
      if s = lit ''queued'' \<or> s = lit ''waiting'' then Some Queued
      else if s = lit ''preparing'' \<or> s = lit ''starting'' then Some Preparing
      else if s = lit ''probing'' \<or> s = lit ''resolving'' \<or> s = lit ''resolving-url'' then Some Probing
      else if s = lit ''downloading'' then Some Downloading
      else if s = lit ''pausing'' \<or> s = lit ''stopping'' then Some Pausing
      else if s = lit ''paused'' then Some Paused
      else if s = lit ''retrying'' then Some Retrying
      else if s = lit ''recovering'' then Some Recovering
      else if s = lit ''verifying'' then Some Verifying
      else if s = lit ''finalizing'' \<or> s = lit ''merging'' then Some Finalizing
      else if s = lit ''completed'' then Some Completed
      else if s = lit ''error'' \<or> s = lit ''failed'' then Some Failed
      else if s = lit ''interrupted'' then Some Interrupted
      else None)"

definition is_active :: "TaskState \<Rightarrow> bool" where
  "is_active s = List.member
     [Preparing, Probing, Downloading, Pausing, Retrying, Recovering, Verifying, Finalizing] s"

fun next_states :: "TaskState \<Rightarrow> TaskState list" where
  "next_states Queued = [Preparing, Paused, Failed]"
| "next_states Preparing = [Probing, Downloading, Pausing, Paused, Failed]"
| "next_states Probing = [Downloading, Pausing, Paused, Retrying, Recovering, Failed]"
| "next_states Downloading = [Pausing, Paused, Retrying, Recovering, Verifying, Failed]"
| "next_states Pausing = [Paused, Failed]"
| "next_states Paused = [Queued, Failed]"
| "next_states Retrying = [Probing, Downloading, Recovering, Pausing, Paused, Failed]"
| "next_states Recovering = [Probing, Downloading, Retrying, Pausing, Paused, Failed]"
| "next_states Verifying = [Finalizing, Pausing, Paused, Failed]"
| "next_states Finalizing = [Completed, Pausing, Paused, Failed]"
| "next_states Completed = []"
| "next_states Failed = [Queued, Paused]"
| "next_states Interrupted = [Paused, Queued, Failed]"

definition can_transition_to :: "TaskState \<Rightarrow> TaskState \<Rightarrow> bool" where
  "can_transition_to s t = (s = t \<or> List.member (next_states s) t)"

definition can_restart_to :: "TaskState \<Rightarrow> TaskState \<Rightarrow> bool" where
  "can_restart_to s t = (t = Queued)"

subsection \<open>Tasks and segments\<close>

record segment =
  sg_id :: nat
  sg_progress :: rat
  sg_downloaded_bytes :: nat
  sg_total_bytes :: nat
  sg_active :: bool
  sg_speed :: nat
  sg_start_byte :: nat
  sg_end_byte :: nat

record task =
  tk_id :: str
  tk_name :: str
  tk_url :: str
  tk_file_type :: str
  tk_status :: str
  tk_size_bytes :: nat
  tk_downloaded_bytes :: nat
  tk_speed_bytes_per_sec :: nat
  tk_time_left_seconds :: nat
  tk_elapsed_seconds :: nat
  tk_date_added :: str
  tk_category :: str
  tk_queue_id :: str
  tk_connections :: nat
  tk_resumable :: bool
  tk_save_path :: str
  tk_description :: str
  tk_segments :: "segment list"
  tk_referer :: "str option"
  tk_engine :: str
  tk_engine_id :: str
  tk_engine_status :: "str option"
  tk_error_message :: "str option"

subsection \<open>Range plans\<close>

definition MAX_PARALLEL_SEGMENTS :: nat where "MAX_PARALLEL_SEGMENTS = 32"

record byte_range =
  br_start :: nat
  br_end :: nat

definition range_is_empty :: "byte_range \<Rightarrow> bool" where
  "range_is_empty r \<longleftrightarrow> br_end r < br_start r"

definition segment_range :: "nat \<Rightarrow> nat \<Rightarrow> nat" where
  "segment_range start stop = (stop - start + 1) mod 2 ^ 64"

definition range_len :: "byte_range \<Rightarrow> nat" where
  "range_len r = (if range_is_empty r then 0 else segment_range (br_start r) (br_end r))"

definition planned_range :: "nat \<Rightarrow> nat \<Rightarrow> nat \<Rightarrow> byte_range" where
  "planned_range base_len remainder index =
     (let start = index * base_len + min index remainder;
          len = base_len + (if index < remainder then 1 else 0)
      in \<lparr>br_start = start, br_end = start + len - 1\<rparr>)"

definition plan_transfer_ranges_with_limit :: "nat \<Rightarrow> nat \<Rightarrow> nat \<Rightarrow> byte_range list" where
  "plan_transfer_ranges_with_limit total_bytes requested_connections max_segments =
     (if total_bytes = 0 then []
      else
        (let requested = min (max requested_connections 1) (max max_segments 1);
             segment_count = min requested total_bytes
         in map (planned_range (total_bytes div segment_count) (total_bytes mod segment_count)) [0..<segment_count]))"

definition plan_transfer_ranges :: "nat \<Rightarrow> nat \<Rightarrow> byte_range list" where
  "plan_transfer_ranges total_bytes requested_connections =
     plan_transfer_ranges_with_limit total_bytes requested_connections MAX_PARALLEL_SEGMENTS"

definition plan_byte_ranges :: "nat \<Rightarrow> nat \<Rightarrow> byte_range list" where
  "plan_byte_ranges total_bytes requested_connections =
     (if total_bytes = 0 then []
      else
        (let requested = max 1 (min requested_connections MAX_PARALLEL_SEGMENTS);
             segment_count = min requested total_bytes
         in map (planned_range (total_bytes div segment_count) (total_bytes mod segment_count)) [0..<segment_count]))"

subsection \<open>Representations\<close>

record resource_identity =
  id_effective_url :: "str option"
  id_etag :: "str option"
  id_last_modified :: "str option"
  id_content_length :: "nat option"

text \<open>\<open>etag.trim_start().starts_with("W/")\<close>.\<close>

definition is_weak :: "str \<Rightarrow> bool" where
  "is_weak etag \<longleftrightarrow> take 2 (concat (dropWhile is_whitespace (chars etag))) = lit ''W/''"

definition if_range_value :: "resource_identity \<Rightarrow> str option" where
  "if_range_value i =
     (case id_etag i of Some e \<Rightarrow> if is_weak e then id_last_modified i else Some e | None \<Rightarrow> id_last_modified i)"

definition has_identity_evidence :: "resource_identity \<Rightarrow> bool" where
  "has_identity_evidence i \<longleftrightarrow> id_etag i \<noteq> None \<or> id_last_modified i \<noteq> None \<or> id_content_length i \<noteq> None"

datatype ResourceContinuity = Confirmed | Changed | Unknown

definition compare_modified :: "str option \<Rightarrow> str option \<Rightarrow> ResourceContinuity" where
  "compare_modified old new =
     (case old of
        None \<Rightarrow> Unknown
      | Some a \<Rightarrow> (case new of None \<Rightarrow> Unknown | Some b \<Rightarrow> if b = a then Confirmed else Changed))"

definition compare_resource_identity :: "resource_identity \<Rightarrow> resource_identity \<Rightarrow> ResourceContinuity" where
  "compare_resource_identity previous current =
     (if (case (id_content_length previous, id_content_length current) of (Some a, Some b) \<Rightarrow> a \<noteq> b | _ \<Rightarrow> False)
      then Changed
      else
        (let modified = compare_modified (id_last_modified previous) (id_last_modified current) in
         case id_etag previous of
           None \<Rightarrow> modified
         | Some old_etag \<Rightarrow>
             (case id_etag current of
                None \<Rightarrow> Unknown
              | Some new_etag \<Rightarrow>
                  if new_etag \<noteq> old_etag then Changed
                  else if \<not> is_weak old_etag then Confirmed
                  else modified)))"

subsection \<open>Recovery checkpoints\<close>

definition RECOVERY_SCHEMA_VERSION :: nat where "RECOVERY_SCHEMA_VERSION = 1"

record recovery_segment =
  rv_id :: nat
  rv_start_byte :: nat
  rv_end_byte :: nat
  rv_total_bytes :: nat
  rv_downloaded_bytes :: nat

record recovery_checkpoint =
  rc_schema_version :: nat
  rc_task_id :: str
  rc_downloaded_bytes :: nat
  rc_size_bytes :: nat
  rc_segments :: "recovery_segment list"
  rc_resource :: resource_identity

definition checkpoint_segment :: "segment \<Rightarrow> recovery_segment" where
  "checkpoint_segment s =
     (let range_len = (if sg_start_byte s \<le> sg_end_byte s then segment_range (sg_start_byte s) (sg_end_byte s)
                       else sg_total_bytes s);
          total_bytes = (if 0 < sg_total_bytes s then sg_total_bytes s else range_len)
      in \<lparr>rv_id = sg_id s, rv_start_byte = sg_start_byte s, rv_end_byte = sg_end_byte s, rv_total_bytes = total_bytes,
          rv_downloaded_bytes =
            (if 0 < total_bytes then min (sg_downloaded_bytes s) total_bytes else sg_downloaded_bytes s)\<rparr>)"

definition from_task :: "task \<Rightarrow> resource_identity \<Rightarrow> recovery_checkpoint" where
  "from_task t resource =
     \<lparr>rc_schema_version = RECOVERY_SCHEMA_VERSION, rc_task_id = tk_id t,
      rc_downloaded_bytes =
        min (tk_downloaded_bytes t) (if 0 < tk_size_bytes t then tk_size_bytes t else tk_downloaded_bytes t),
      rc_size_bytes = tk_size_bytes t, rc_segments = map checkpoint_segment (tk_segments t), rc_resource = resource\<rparr>"

definition restore_segment :: "recovery_segment \<Rightarrow> segment" where
  "restore_segment s =
     (let range_total = (if rv_start_byte s \<le> rv_end_byte s then segment_range (rv_start_byte s) (rv_end_byte s) else 0);
          t = (if 0 < rv_total_bytes s then rv_total_bytes s else range_total);
          downloaded = min (rv_downloaded_bytes s) t
      in \<lparr>sg_id = rv_id s, sg_progress = (if 0 < t then of_nat downloaded / of_nat t else 0),
          sg_downloaded_bytes = downloaded, sg_total_bytes = t, sg_active = False, sg_speed = 0,
          sg_start_byte = rv_start_byte s, sg_end_byte = rv_end_byte s\<rparr>)"

definition apply_to_task :: "recovery_checkpoint \<Rightarrow> task \<Rightarrow> bool \<times> task" where
  "apply_to_task c t =
     (if rc_schema_version c \<noteq> RECOVERY_SCHEMA_VERSION \<or> rc_task_id c \<noteq> tk_id t then (False, t)
      else
        (let t1 = (if 0 < rc_size_bytes c then t\<lparr>tk_size_bytes := rc_size_bytes c\<rparr> else t);
             t2 = t1\<lparr>tk_downloaded_bytes :=
                       if 0 < tk_size_bytes t1 then min (rc_downloaded_bytes c) (tk_size_bytes t1) else rc_downloaded_bytes c,
                     tk_speed_bytes_per_sec := 0, tk_time_left_seconds := 0\<rparr>;
             t3 = (if rc_segments c \<noteq> [] then t2\<lparr>tk_segments := map restore_segment (rc_segments c)\<rparr> else t2)
         in (True, t3)))"

subsection \<open>The decision to append\<close>

datatype ResumeAction = Append | Restart

definition plan_http_resume :: "nat \<Rightarrow> nat \<Rightarrow> nat option \<Rightarrow> ResumeAction" where
  "plan_http_resume existing_bytes status content_range_start =
     (if existing_bytes = 0 then Append
      else if status = 206 \<and> content_range_start = Some existing_bytes then Append
      else Restart)"

definition plan_http_recovery ::
  "nat \<Rightarrow> nat \<Rightarrow> nat option \<Rightarrow> resource_identity \<Rightarrow> resource_identity \<Rightarrow> ResumeAction" where
  "plan_http_recovery existing_bytes status content_range_start previous current =
     (if 0 < existing_bytes \<and> has_identity_evidence previous \<and> compare_resource_identity previous current \<noteq> Confirmed
      then Restart
      else plan_http_resume existing_bytes status content_range_start)"

subsection \<open>Plans cover the payload\<close>

text \<open>Where range \<open>i\<close> starts; it ends where the next one starts.\<close>

definition plan_offset :: "nat \<Rightarrow> nat \<Rightarrow> nat \<Rightarrow> nat" where
  "plan_offset amount n i = i * (amount div n) + min i (amount mod n)"

lemma plan_offset_mono: "i \<le> j \<Longrightarrow> plan_offset amount n i \<le> plan_offset amount n j"
  by (auto simp: plan_offset_def intro!: add_mono mult_le_mono)

lemma plan_offset_step:
  assumes "0 < n" "n \<le> amount"
  shows "plan_offset amount n i < plan_offset amount n (Suc i)"
    "plan_offset amount n (Suc i) - plan_offset amount n i \<in> {amount div n, Suc (amount div n)}"
proof -
  have "0 < amount div n" using assms by (simp add: div_greater_zero_iff)
  then show "plan_offset amount n i < plan_offset amount n (Suc i)"
    "plan_offset amount n (Suc i) - plan_offset amount n i \<in> {amount div n, Suc (amount div n)}"
    by (auto simp: plan_offset_def min_def)
qed

lemma plan_offset_ends [simp]: "plan_offset amount n 0 = 0" "0 < n \<Longrightarrow> plan_offset amount n n = amount"
proof -
  show "plan_offset amount n n = amount" if "0 < n"
    using mod_less_divisor [OF that, of amount] by (simp add: plan_offset_def min_def)
qed (simp add: plan_offset_def)

lemma planned_range_bounds:
  assumes "0 < n" "n \<le> amount" "amount < 2 ^ 64" "i < n"
  shows "br_start (planned_range (amount div n) (amount mod n) i) = plan_offset amount n i"
    "Suc (br_end (planned_range (amount div n) (amount mod n) i)) = plan_offset amount n (Suc i)"
    "range_len (planned_range (amount div n) (amount mod n) i) = plan_offset amount n (Suc i) - plan_offset amount n i"
    "\<not> range_is_empty (planned_range (amount div n) (amount mod n) i)"
proof -
  let ?r = "planned_range (amount div n) (amount mod n) i"
  show s: "br_start ?r = plan_offset amount n i"
    by (simp add: planned_range_def plan_offset_def Let_def)
  have "0 < amount div n" using assms by (simp add: div_greater_zero_iff)
  then show e: "Suc (br_end ?r) = plan_offset amount n (Suc i)"
    by (auto simp: planned_range_def plan_offset_def Let_def)
  show ne: "\<not> range_is_empty ?r"
    using s e plan_offset_step(1) [OF assms(1,2), of i] by (simp add: range_is_empty_def)
  have "Suc (br_end ?r) \<le> amount" using e plan_offset_mono [of "Suc i" n amount n] assms by simp
  then have "br_end ?r - br_start ?r + 1 < 2 ^ 64" using assms(3) by linarith
  then show "range_len ?r = plan_offset amount n (Suc i) - plan_offset amount n i"
    using s e ne by (simp add: range_len_def segment_range_def range_is_empty_def)
qed

lemma tile_upt:
  assumes "\<And>i. g i \<le> g (Suc i)"
  shows "concat (map (\<lambda>i. [g i ..< g (Suc i)]) [0..<n]) = [g 0 ..< g n]"
proof (induction n)
  case (Suc n)
  have "g 0 \<le> g n" by (rule lift_Suc_mono_le [of g, OF assms]) simp
  with Suc show ?case using assms [of n] upt_add_eq_append [of "g 0" "g n" "g (Suc n) - g n"] by simp
qed simp

abbreviation covered :: "byte_range list \<Rightarrow> nat list" where
  "covered rs \<equiv> concat (map (\<lambda>r. [br_start r ..< Suc (br_end r)]) rs)"

definition segment_total :: "nat \<Rightarrow> nat \<Rightarrow> nat \<Rightarrow> nat" where
  "segment_total amount c m = min (min (max c 1) (max m 1)) amount"

lemma plan_unfold:
  "0 < amount \<Longrightarrow> plan_transfer_ranges_with_limit amount c m =
     map (planned_range (amount div segment_total amount c m) (amount mod segment_total amount c m)) [0..<segment_total amount c m]"
  by (simp add: plan_transfer_ranges_with_limit_def segment_total_def Let_def)

lemma segment_total_bounds: "0 < amount \<Longrightarrow> 0 < segment_total amount c m" "segment_total amount c m \<le> amount"
  by (auto simp: segment_total_def)

lemma plan_facts:
  assumes "amount < 2 ^ 64" "rs = plan_transfer_ranges_with_limit amount c m"
  shows "covered rs = [0..<amount]"
    "r \<in> set rs \<Longrightarrow> \<not> range_is_empty r \<and> br_end r < amount
       \<and> (range_len r = amount div length rs \<or> range_len r = amount div length rs + 1)"
    "length rs = min (min (max c 1) (max m 1)) amount"
proof -
  have "covered rs = [0..<amount] \<and> (r \<in> set rs \<longrightarrow> \<not> range_is_empty r \<and> br_end r < amount
       \<and> (range_len r = amount div length rs \<or> range_len r = amount div length rs + 1))
     \<and> length rs = min (min (max c 1) (max m 1)) amount"
  proof (cases "amount = 0")
    case True
    then show ?thesis using assms(2) by (simp add: plan_transfer_ranges_with_limit_def)
  next
    case False
    let ?n = "segment_total amount c m"
    have n: "0 < ?n" "?n \<le> amount" using False segment_total_bounds by simp_all
    note b = planned_range_bounds [OF n assms(1)]
    have rs: "rs = map (planned_range (amount div ?n) (amount mod ?n)) [0..<?n]"
      using False assms(2) by (simp add: plan_unfold)
    have "covered rs = concat (map (\<lambda>i. [plan_offset amount ?n i ..< plan_offset amount ?n (Suc i)]) [0..<?n])"
      unfolding rs by (auto simp: b comp_def simp del: upt_Suc intro!: arg_cong [of _ _ concat])
    then have cov: "covered rs = [0..<amount]"
      using tile_upt [of "plan_offset amount ?n" ?n] plan_offset_step(1) [OF n] n by (simp add: less_imp_le)
    have each: "\<not> range_is_empty x \<and> br_end x < amount \<and> (range_len x = amount div ?n \<or> range_len x = amount div ?n + 1)"
      if "i < ?n" "x = planned_range (amount div ?n) (amount mod ?n) i" for i x
      using b(2-4) [OF that(1), folded that(2)] plan_offset_step(2) [OF n, of i] plan_offset_mono [of "Suc i" ?n amount ?n] n(1) that(1)
      by auto
    have len: "length rs = ?n" by (simp add: rs)
    have "\<not> range_is_empty r \<and> br_end r < amount \<and> (range_len r = amount div ?n \<or> range_len r = amount div ?n + 1)"
      if r: "r \<in> set rs"
    proof -
      obtain i where "i < ?n" "r = planned_range (amount div ?n) (amount mod ?n) i" using r unfolding rs by auto
      then show ?thesis by (rule each)
    qed
    then show ?thesis unfolding len using cov by (simp add: segment_total_def)
  qed
  then show "covered rs = [0..<amount]"
    "r \<in> set rs \<Longrightarrow> \<not> range_is_empty r \<and> br_end r < amount
       \<and> (range_len r = amount div length rs \<or> range_len r = amount div length rs + 1)"
    "length rs = min (min (max c 1) (max m 1)) amount"
    by blast+
qed

text \<open>C11: The range planner tiles the representation: in order, the planned inclusive ranges list every
  byte offset below the length exactly once, none is empty, none is more than one byte longer than another, there are as
  many as asked for within the host's ceiling and the length, and no sum formed on the way exceeds the length.\<close>
theorem plan_tiles:
  assumes "amount < 2 ^ 64"
  shows "let rs = plan_transfer_ranges_with_limit amount c m in
     covered rs = [0..<amount]
     \<and> list_all (\<lambda>r. \<not> range_is_empty r \<and> br_end r < amount
           \<and> (range_len r = amount div length rs \<or> range_len r = amount div length rs + 1)) rs
     \<and> length rs = min (min (max c 1) (max m 1)) amount"
  using plan_facts [OF assms refl] by (simp add: Let_def list_all_iff)

theorem plan_tiles_witness:
  "plan_transfer_ranges_with_limit 10 3 32 =
     [\<lparr>br_start = 0, br_end = 3\<rparr>, \<lparr>br_start = 4, br_end = 6\<rparr>, \<lparr>br_start = 7, br_end = 9\<rparr>]
   \<and> covered (plan_transfer_ranges_with_limit 10 3 32) = [0..<10]"
proof
  show "plan_transfer_ranges_with_limit 10 3 32 =
     [\<lparr>br_start = 0, br_end = 3\<rparr>, \<lparr>br_start = 4, br_end = 6\<rparr>, \<lparr>br_start = 7, br_end = 9\<rparr>]" by code_simp
  show "covered (plan_transfer_ranges_with_limit 10 3 32) = [0..<10]"
    using plan_tiles [of 10 3 32] by (simp add: Let_def)
qed

text \<open>The two planners agree: the planner of the core model, which hosts without the download core
  use, gives the plan of the download core's planner under the shared ceiling.\<close>
lemma planners_agree: "plan_byte_ranges amount c = plan_transfer_ranges amount c"
proof -
  have "max 1 (min c MAX_PARALLEL_SEGMENTS) = min (max c 1) (max MAX_PARALLEL_SEGMENTS 1)"
    by (auto simp: MAX_PARALLEL_SEGMENTS_def)
  then show ?thesis
    by (simp only: plan_byte_ranges_def plan_transfer_ranges_def plan_transfer_ranges_with_limit_def Let_def)
qed

subsection \<open>Appending is justified\<close>

text \<open>C13: The decision to append to a non-empty partial file is made exactly when the server confirms the
  offset with a 206 answer and what the checkpoint knows of the representation is confirmed by the fresh probe: no
  known length differs, and either the same strong entity tag came back, or no recorded tag is missing or different and the
  recorded modification date came back. A checkpoint that knows nothing adds no condition.\<close>
theorem recovery_appends_iff:
  "plan_http_recovery existing status offset previous current = Append \<longleftrightarrow>
     existing = 0
     \<or> status = 206 \<and> offset = Some existing
       \<and> (\<not> has_identity_evidence previous
          \<or> \<not> (\<exists>a b. id_content_length previous = Some a \<and> id_content_length current = Some b \<and> a \<noteq> b)
            \<and> ((\<exists>e. id_etag previous = Some e \<and> id_etag current = Some e \<and> \<not> is_weak e)
               \<or> (id_etag previous = None \<or> id_etag previous = id_etag current)
                 \<and> id_last_modified previous \<noteq> None \<and> id_last_modified current = id_last_modified previous))"
  by (auto simp: plan_http_recovery_def plan_http_resume_def compare_resource_identity_def compare_modified_def
      has_identity_evidence_def Let_def split: option.splits if_splits)

theorem recovery_appends_iff_witness:
  "plan_http_recovery 100 206 (Some 100)
     \<lparr>id_effective_url = None, id_etag = Some (lit ''v1''), id_last_modified = None, id_content_length = Some 200\<rparr>
     \<lparr>id_effective_url = None, id_etag = Some (lit ''v1''), id_last_modified = None, id_content_length = None\<rparr> = Append"
proof -
  have "\<not> is_weak (lit ''v1'')"
    by (simp add: is_weak_def chars_ascii lit_def is_whitespace_def)
  then show ?thesis unfolding recovery_appends_iff by simp
qed

subsection \<open>Checkpoints restore tasks\<close>

definition clear_segment :: "segment \<Rightarrow> segment" where
  "clear_segment s = s\<lparr>sg_progress := of_nat (sg_downloaded_bytes s) / of_nat (sg_total_bytes s), sg_active := False, sg_speed := 0\<rparr>"

definition clear_runtime :: "task \<Rightarrow> task" where
  "clear_runtime t = t\<lparr>tk_speed_bytes_per_sec := 0, tk_time_left_seconds := 0, tk_segments := map clear_segment (tk_segments t)\<rparr>"

definition counted :: "segment \<Rightarrow> bool" where
  "counted s \<longleftrightarrow> 0 < sg_total_bytes s \<and> sg_downloaded_bytes s \<le> sg_total_bytes s"

lemma restore_checkpoint_segment: "counted s \<Longrightarrow> restore_segment (checkpoint_segment s) = clear_segment s"
  by (cases s) (simp add: counted_def restore_segment_def checkpoint_segment_def clear_segment_def Let_def)

text \<open>A checkpoint restores its task: for a task within its size whose segments have known lengths,
  taking a checkpoint and applying it returns the task with every durable field intact and only speeds, estimates, activity
  flags and progress recomputed; and the checkpoint of the restored task is the same checkpoint.\<close>
lemma task_checkpoint_roundtrip:
  assumes "tk_size_bytes t = 0 \<or> tk_downloaded_bytes t \<le> tk_size_bytes t" "list_all counted (tk_segments t)"
  shows "apply_to_task (from_task t resource) t = (True, clear_runtime t)
    \<and> from_task (clear_runtime t) resource = from_task t resource"
proof
  have seg: "map restore_segment (map checkpoint_segment (tk_segments t)) = map clear_segment (tk_segments t)"
    using assms(2) by (simp add: list_all_iff restore_checkpoint_segment)
  show "apply_to_task (from_task t resource) t = (True, clear_runtime t)"
    using assms(1) seg by (cases t) (auto simp: apply_to_task_def from_task_def clear_runtime_def Let_def)
  have "map checkpoint_segment (map clear_segment (tk_segments t)) = map checkpoint_segment (tk_segments t)"
    by (simp add: checkpoint_segment_def clear_segment_def Let_def)
  then show "from_task (clear_runtime t) resource = from_task t resource"
    by (simp add: from_task_def clear_runtime_def)
qed

definition sample_task :: "segment list \<Rightarrow> task" where
  "sample_task segments =
     \<lparr>tk_id = lit ''task-1'', tk_name = lit ''payload.bin'', tk_url = lit ''https://example.com/payload.bin'',
      tk_file_type = lit ''other'', tk_status = lit ''downloading'', tk_size_bytes = 100, tk_downloaded_bytes = 50,
      tk_speed_bytes_per_sec = 999, tk_time_left_seconds = 9, tk_elapsed_seconds = 3, tk_date_added = lit ''2026-09-24'',
      tk_category = lit ''other'', tk_queue_id = lit ''main'', tk_connections = 1, tk_resumable = True,
      tk_save_path = lit ''payload.bin'', tk_description = [], tk_segments = segments, tk_referer = None,
      tk_engine = lit ''libcurl-multi'', tk_engine_id = lit ''e'', tk_engine_status = None, tk_error_message = None\<rparr>"

definition sample_resource :: resource_identity where
  "sample_resource = \<lparr>id_effective_url = None, id_etag = None, id_last_modified = None, id_content_length = Some 100\<rparr>"

definition sample_segment :: segment where
  "sample_segment =
     \<lparr>sg_id = 0, sg_progress = 0, sg_downloaded_bytes = 50, sg_total_bytes = 100, sg_active = True, sg_speed = 7,
      sg_start_byte = 0, sg_end_byte = 99\<rparr>"

text \<open>Whatever a stored checkpoint says, applying it leaves a consistent task: either the task is
  untouched, or the received bytes are within a known size and every restored segment is idle, within its length,
  with a progress between 0 and 1.\<close>
lemma restored_task_consistent:
  assumes "apply_to_task c t = (applied, t')"
  shows "if applied
    then (tk_size_bytes t' = 0 \<or> tk_downloaded_bytes t' \<le> tk_size_bytes t') \<and> tk_speed_bytes_per_sec t' = 0
      \<and> tk_id t' = tk_id t \<and> tk_status t' = tk_status t
      \<and> (if rc_segments c = [] then tk_segments t' = tk_segments t
         else list_all (\<lambda>s. sg_downloaded_bytes s \<le> sg_total_bytes s \<and> 0 \<le> sg_progress s \<and> sg_progress s \<le> 1
                \<and> \<not> sg_active s \<and> sg_speed s = 0) (tk_segments t'))
    else t' = t \<and> (rc_schema_version c \<noteq> RECOVERY_SCHEMA_VERSION \<or> rc_task_id c \<noteq> tk_id t)"
proof -
  have idle: "sg_downloaded_bytes s \<le> sg_total_bytes s \<and> 0 \<le> sg_progress s \<and> sg_progress s \<le> 1 \<and> \<not> sg_active s \<and> sg_speed s = 0"
    if "s = restore_segment r" for s r
    unfolding that by (auto simp: restore_segment_def Let_def divide_le_eq_1)
  show ?thesis
  proof (cases "rc_schema_version c \<noteq> RECOVERY_SCHEMA_VERSION \<or> rc_task_id c \<noteq> tk_id t")
    case True
    then show ?thesis using assms by (auto simp: apply_to_task_def)
  next
    case False
    then have t': "applied" "t' = snd (apply_to_task c t)" using assms by (auto simp: apply_to_task_def Let_def)
    have "list_all (\<lambda>s. sg_downloaded_bytes s \<le> sg_total_bytes s \<and> 0 \<le> sg_progress s \<and> sg_progress s \<le> 1
        \<and> \<not> sg_active s \<and> sg_speed s = 0) (map restore_segment (rc_segments c))"
      using idle [OF refl] by (simp add: list_all_iff)
    with t' False show ?thesis by (simp add: apply_to_task_def Let_def)
  qed
qed

text \<open>
  \<open>build_segments\<close> of \<open>src-tauri/src/daemon/utils.rs\<close> gives a transfer whose length is unknown a single
  segment without a length and with an empty range.
\<close>

definition build_segment :: "nat \<Rightarrow> nat \<Rightarrow> nat \<Rightarrow> nat \<Rightarrow> nat \<Rightarrow> segment" where
  "build_segment connections amount downloaded speed i =
     (let per_seg = amount div max connections 1;
          seg_start = i * per_seg;
          seg_end = (if i = connections - 1 then amount else seg_start + per_seg);
          seg_done = min (downloaded - seg_start) (seg_end - seg_start)
      in \<lparr>sg_id = i, sg_progress = (if seg_start < seg_end then of_nat seg_done / of_nat (seg_end - seg_start) else 0),
          sg_downloaded_bytes = seg_done, sg_total_bytes = seg_end - seg_start, sg_active = True,
          sg_speed = speed div max connections 1, sg_start_byte = seg_start, sg_end_byte = seg_end\<rparr>)"

definition build_segments :: "nat \<Rightarrow> nat \<Rightarrow> nat \<Rightarrow> nat \<Rightarrow> segment list" where
  "build_segments connections amount downloaded speed =
     (if amount = 0
      then [\<lparr>sg_id = 0, sg_progress = 0, sg_downloaded_bytes = downloaded, sg_total_bytes = 0, sg_active = True,
             sg_speed = speed, sg_start_byte = 0, sg_end_byte = 0\<rparr>]
      else map (build_segment connections amount downloaded speed) [0..<connections])"

text \<open>C28: An unknown length does not survive a checkpoint: the segment of a transfer whose length is
  unknown is recorded as one byte long, because its empty range is read as the inclusive range of byte 0; its received bytes
  are cut to that one byte, and a restored task shows the segment as complete.\<close>
theorem checkpoint_loses_unknown_segment:
  assumes "tk_segments t = build_segments connections 0 received speed" "0 < received"
  shows "rc_segments (from_task t resource) =
      [\<lparr>rv_id = 0, rv_start_byte = 0, rv_end_byte = 0, rv_total_bytes = 1, rv_downloaded_bytes = 1\<rparr>]
    \<and> map sg_progress (tk_segments (snd (apply_to_task (from_task t resource) t))) = [1]"
  using assms
  by (simp add: build_segments_def from_task_def checkpoint_segment_def segment_range_def apply_to_task_def
      restore_segment_def Let_def)

theorem checkpoint_loses_unknown_segment_witness:
  "rc_segments (from_task (sample_task (build_segments 4 0 5000 7)) sample_resource) =
     [\<lparr>rv_id = 0, rv_start_byte = 0, rv_end_byte = 0, rv_total_bytes = 1, rv_downloaded_bytes = 1\<rparr>]"
  using checkpoint_loses_unknown_segment [of "sample_task (build_segments 4 0 5000 7)" 4 5000 7 sample_resource]
  by (simp add: sample_task_def)

subsection \<open>Every completion is verified\<close>

text \<open>\<open>lifecycle s p t\<close>: a task in state \<open>s\<close> goes through the states \<open>p\<close>, the last of which is \<open>t\<close>.\<close>

inductive lifecycle :: "TaskState \<Rightarrow> TaskState list \<Rightarrow> TaskState \<Rightarrow> bool" where
  start: "lifecycle s [] s"
| step: "lifecycle s p t \<Longrightarrow> can_transition_to t u \<Longrightarrow> lifecycle s (p @ [u]) u"

lemma into_Finalizing: "can_transition_to t Finalizing \<longleftrightarrow> t = Verifying \<or> t = Finalizing"
  by (cases t) (simp_all add: can_transition_to_def)

lemma into_Completed: "can_transition_to t Completed \<longleftrightarrow> t = Finalizing \<or> t = Completed"
  by (cases t) (simp_all add: can_transition_to_def)

lemma from_Completed: "can_transition_to Completed t \<longleftrightarrow> t = Completed"
  by (auto simp: can_transition_to_def)

abbreviation runs_of :: "nat \<Rightarrow> 'a \<Rightarrow> 'a list" where "runs_of n x \<equiv> replicate (Suc n) x"

lemma runs_of_snoc: "runs_of n x @ [x] = runs_of (Suc n) x"
  by (simp add: replicate_append_same)

lemma lifecycle_phases:
  assumes "lifecycle s p t" "s \<notin> {Verifying, Finalizing, Completed}"
  shows "(t = Verifying \<longrightarrow> (\<exists>us a. p = us @ runs_of a Verifying))
    \<and> (t = Finalizing \<longrightarrow> (\<exists>us a b. p = us @ runs_of a Verifying @ runs_of b Finalizing))
    \<and> (t = Completed \<longrightarrow> (\<exists>us a b c. p = us @ runs_of a Verifying @ runs_of b Finalizing @ runs_of c Completed))"
  using assms
proof (induction rule: lifecycle.induct)
  case (step s p t u)
  note IH = step.IH [OF step.prems]
  have v: "\<exists>us a. p @ [u] = us @ runs_of a Verifying" if "u = Verifying"
    by (rule exI [of _ p], rule exI [of _ 0]) (simp add: that)
  have f: "\<exists>us a b. p @ [u] = us @ runs_of a Verifying @ runs_of b Finalizing" if u: "u = Finalizing"
  proof -
    have "t = Verifying \<or> t = Finalizing" using step.hyps(2) u into_Finalizing by simp
    then show ?thesis
    proof
      assume "t = Verifying"
      then obtain us a where "p = us @ runs_of a Verifying" using IH by blast
      then have "p @ [u] = us @ runs_of a Verifying @ runs_of 0 Finalizing" using u by simp
      then show ?thesis by blast
    next
      assume "t = Finalizing"
      then obtain us a b where "p = us @ runs_of a Verifying @ runs_of b Finalizing" using IH by blast
      then have "p @ [u] = us @ runs_of a Verifying @ runs_of (Suc b) Finalizing"
        using u runs_of_snoc [of b Finalizing] by (simp del: replicate_Suc)
      then show ?thesis by blast
    qed
  qed
  have "\<exists>us a b c. p @ [u] = us @ runs_of a Verifying @ runs_of b Finalizing @ runs_of c Completed" if u: "u = Completed"
  proof -
    have "t = Finalizing \<or> t = Completed" using step.hyps(2) u into_Completed by simp
    then show ?thesis
    proof
      assume "t = Finalizing"
      then obtain us a b where "p = us @ runs_of a Verifying @ runs_of b Finalizing" using IH by blast
      then have "p @ [u] = us @ runs_of a Verifying @ runs_of b Finalizing @ runs_of 0 Completed" using u by simp
      then show ?thesis by blast
    next
      assume "t = Completed"
      then obtain us a b c where "p = us @ runs_of a Verifying @ runs_of b Finalizing @ runs_of c Completed" using IH by blast
      then have "p @ [u] = us @ runs_of a Verifying @ runs_of b Finalizing @ runs_of (Suc c) Completed"
        using u runs_of_snoc [of c Completed] by (simp del: replicate_Suc)
      then show ?thesis by blast
    qed
  qed
  with v f show ?case by blast
qed auto

text \<open>C10: No task completes unverified: however a task that is not yet past the download moves through the
  ordinary transitions to \<open>Completed\<close>, the end of its way is a stay in \<open>Verifying\<close>, then a stay in
  \<open>Finalizing\<close>, then \<open>Completed\<close>, with nothing in between.\<close>
theorem completion_is_verified:
  assumes "lifecycle s p Completed" "s \<notin> {Verifying, Finalizing, Completed}"
  shows "\<exists>us a b c. p = us @ replicate (Suc a) Verifying @ replicate (Suc b) Finalizing @ replicate (Suc c) Completed"
  using lifecycle_phases [OF assms] by blast

theorem completion_is_verified_witness:
  "\<exists>us a b c. [Preparing, Downloading, Verifying, Finalizing, Completed] =
     us @ replicate (Suc a) Verifying @ replicate (Suc b) Finalizing @ replicate (Suc c) Completed"
proof -
  have "lifecycle Queued ([] @ [Preparing] @ [Downloading] @ [Verifying] @ [Finalizing] @ [Completed]) Completed"
    unfolding append_assoc [symmetric]
    by (rule lifecycle.step, rule lifecycle.step, rule lifecycle.step, rule lifecycle.step, rule lifecycle.step,
        rule lifecycle.start) (simp_all add: can_transition_to_def)
  then show ?thesis using completion_is_verified [of Queued] by simp
qed

fun walk :: "TaskState \<Rightarrow> TaskState list \<Rightarrow> bool" where
  "walk s [] = True"
| "walk s (u # p) = (can_transition_to s u \<and> walk u p)"

lemma walk_snoc: "walk s (p @ [u]) \<longleftrightarrow> walk s p \<and> can_transition_to (last (s # p)) u"
  by (induction p arbitrary: s) simp_all

lemma walk_lifecycle: "walk s p \<Longrightarrow> lifecycle s p (last (s # p))"
proof (induction p rule: rev_induct)
  case (snoc u p)
  then show ?case using lifecycle.step [of s p "last (s # p)" u] by (simp add: walk_snoc)
qed (simp add: lifecycle.start)

fun route :: "TaskState \<Rightarrow> TaskState list" where
  "route Queued = [Preparing, Downloading, Verifying, Finalizing, Completed]"
| "route Preparing = [Downloading, Verifying, Finalizing, Completed]"
| "route Downloading = [Verifying, Finalizing, Completed]"
| "route Verifying = [Finalizing, Completed]"
| "route Finalizing = [Completed]"
| "route Completed = []"
| "route Pausing = Paused # Queued # [Preparing, Downloading, Verifying, Finalizing, Completed]"
| "route s = (if s = Probing \<or> s = Retrying \<or> s = Recovering then [Downloading, Verifying, Finalizing, Completed]
              else [Queued, Preparing, Downloading, Verifying, Finalizing, Completed])"

lemma lifecycle_Completed: "lifecycle s p t \<Longrightarrow> s = Completed \<Longrightarrow> t = Completed"
  by (induction rule: lifecycle.induct) (auto simp: from_Completed)

text \<open>C27: A task is never stuck and never resurrected: from every state ordinary transitions lead to
  \<open>Completed\<close>, and from \<open>Completed\<close> they lead nowhere else, so that a finished task returns to the queue only by the explicit restart, which
  leads nowhere but to the queue.\<close>
theorem lifecycle_live_and_final:
  "(\<exists>p. lifecycle s p Completed) \<and> \<not> (lifecycle Completed p t \<and> t \<noteq> Completed)
   \<and> (can_restart_to Completed t \<longleftrightarrow> t = Queued)"
proof -
  have "walk s (route s) \<and> last (s # route s) = Completed"
    by (cases s) (simp_all add: can_transition_to_def)
  then have "\<exists>p. lifecycle s p Completed" using walk_lifecycle [of s "route s"] by auto
  then show ?thesis using lifecycle_Completed by (auto simp: can_restart_to_def)
qed

subsection \<open>Status strings\<close>

definition task_states :: "TaskState list" where
  "task_states = [Queued, Preparing, Probing, Downloading, Pausing, Paused, Retrying, Recovering, Verifying, Finalizing,
     Completed, Failed, Interrupted]"

lemma wire_states: "TASK_LIFECYCLE_WIRE_STATES = map as_status task_states"
  by (simp add: TASK_LIFECYCLE_WIRE_STATES_def task_states_def)

lemma trim_word:
  assumes "\<forall>b \<in> set s. b \<le> 0x7f \<and> \<not> is_whitespace [b]"
  shows "trim s = s"
proof -
  have c: "chars s = map (\<lambda>b. [b]) s" using assms by (simp add: chars_ascii)
  have "dropWhile is_whitespace xs = xs" if "set xs \<subseteq> set (chars s)" for xs
    using that assms c by (cases xs) auto
  then have "trim s = concat (chars s)" by (simp add: trim_def)
  then show ?thesis by simp
qed

lemma as_status_trim: "map to_ascii_lowercase (trim (as_status s)) = as_status s"
proof -
  have "\<forall>b \<in> set (as_status s). b \<le> 0x7f \<and> \<not> is_whitespace [b]" "map to_ascii_lowercase (as_status s) = as_status s"
    by (cases s; simp add: lit_def is_whitespace_def to_ascii_lowercase_def is_ascii_upper_def)+
  then show ?thesis by (simp add: trim_word)
qed

text \<open>The status strings of the public schema and of stored snapshots denote the lifecycle states
  one to one: every state is read back from the string it is written as, and the strings are the declared list of wire
  states.\<close>
lemma status_roundtrip:
  "from_status (as_status s) = Some s
   \<and> map (\<lambda>w. map_option as_status (from_status w)) TASK_LIFECYCLE_WIRE_STATES = map Some TASK_LIFECYCLE_WIRE_STATES
   \<and> List.member TASK_LIFECYCLE_WIRE_STATES (as_status s)"
proof -
  have each: "from_status (as_status s) = Some s" for s
    unfolding from_status_def as_status_trim Let_def by (cases s) simp_all
  have "s \<in> set task_states" by (cases s) (simp_all add: task_states_def)
  then show ?thesis by (simp add: each wire_states)
qed

end
