(* ===== verification/Http.thy ===== *)
theory Http
  imports Faults Core_Model "HOL-Library.Sublist"
begin

text \<open>
  \<open>crates/nova-download-core/src/lib.rs\<close>, the transport part: request contexts, response headers, and
  the callbacks that guard what a response may write.

  libcurl is a parameter \<open>curl\<close>: for a request it gives the calls it makes to the callbacks, in order,
  and what its accessors report afterwards, or \<open>None\<close> if one of its setters fails. A callback can end
  the transfer, after which no further call is made and \<open>perform\<close> fails. The answers of the
  caller's \<open>control\<close> closure are part of the calls to the progress callback. Messages inside errors
  are kept as constructors of \<open>request_fault\<close>.
\<close>

subsection \<open>Errors\<close>

datatype TransferControl = Continue | Pause | Cancel

datatype request_fault =
    CurlFailed | MissingScheme | UnsupportedScheme str | MissingAuthority | NotSuccessful "nat option" | FetchStatus nat
  | CounterOverflow | PayloadExceeded nat | SinkFailed | FileFailed path | WrongLength nat nat | SegmentFailed nat | Aborted

datatype context_fault = BadHeaderName str | OwnedHeader str | ForbiddenControl string | ZeroLimit

datatype TransportError =
    RequestFailed request_fault
  | InvalidStatus nat
  | InvalidRange nat nat
  | RangeResponseRejected
  | InvalidRequestContext context_fault
  | ResponseTooLarge nat
  | Paused
  | Cancelled

subsection \<open>Request contexts\<close>

record request_context =
  ctx_headers :: "(str \<times> str) list"
  ctx_referer :: "str option"
  ctx_cookie :: "str option"
  ctx_user_agent :: "str option"

definition validate_request_value :: "str \<Rightarrow> string \<Rightarrow> (TransportError, unit) result" where
  "validate_request_value value label =
     guard (list_ex (\<lambda>b. b = 0x0d \<or> b = 0x0a \<or> b = 0) value) (InvalidRequestContext (ForbiddenControl label))"

definition owned_headers :: "str list" where
  "owned_headers = map lit [''host'', ''content-length'', ''transfer-encoding'', ''range'', ''if-range'', ''accept-encoding'',
     ''connection'', ''user-agent'', ''referer'', ''cookie'']"

definition validate_header :: "str \<times> str \<Rightarrow> (TransportError, unit) result" where
  "validate_header = (\<lambda>(name, value).
     if name = [] \<or> \<not> list_all (\<lambda>b. is_ascii_alphanumeric b \<or> b = 0x2d) name
     then Inl (InvalidRequestContext (BadHeaderName name))
     else if List.member owned_headers (map to_ascii_lowercase name)
     then Inl (InvalidRequestContext (OwnedHeader name))
     else validate_request_value value ''header value'')"

definition validate_optional :: "str option \<Rightarrow> string \<Rightarrow> (TransportError, unit) result" where
  "validate_optional v label = (case v of None \<Rightarrow> Inr () | Some value \<Rightarrow> validate_request_value value label)"

definition context_validate :: "request_context \<Rightarrow> (TransportError, unit) result" where
  "context_validate ctx =
     rbind (mapM_r validate_header (ctx_headers ctx)) (\<lambda>_.
     rbind (validate_optional (ctx_referer ctx) ''referer'') (\<lambda>_.
     rbind (validate_optional (ctx_cookie ctx) ''cookie header'') (\<lambda>_.
     validate_optional (ctx_user_agent ctx) ''user-agent'')))"

definition header_line :: "str \<Rightarrow> str \<Rightarrow> str" where
  "header_line name value = name @ lit '': '' @ value"

text \<open>\<open>List::append\<close> refuses a line with an inner NUL.\<close>

definition append_header :: "str \<Rightarrow> (TransportError, str) result" where
  "append_header line = (if 0 \<in> set line then Inl (RequestFailed CurlFailed) else Inr line)"

definition context_lines :: "request_context \<Rightarrow> (str \<times> str) list \<Rightarrow> str list" where
  "context_lines ctx extra =
     map (\<lambda>(n, v). header_line n v) (ctx_headers ctx)
     @ (case ctx_referer ctx of None \<Rightarrow> [] | Some r \<Rightarrow> [header_line (lit ''Referer'') r])
     @ (case ctx_cookie ctx of None \<Rightarrow> [] | Some c \<Rightarrow> [header_line (lit ''Cookie'') c])
     @ map (\<lambda>(n, v). header_line n v) extra"

definition apply_request_context ::
  "str \<Rightarrow> request_context \<Rightarrow> (str \<times> str) list \<Rightarrow> (TransportError, str \<times> str list) result" where
  "apply_request_context version ctx extra =
     rbind (context_validate ctx) (\<lambda>_.
     rbind (mapM_r append_header (context_lines ctx extra)) (\<lambda>lines.
     Inr (case ctx_user_agent ctx of None \<Rightarrow> lit ''NOVA/'' @ version | Some a \<Rightarrow> a, lines)))"

definition ensure_http_url :: "str \<Rightarrow> (TransportError, unit) result" where
  "ensure_http_url url =
     (case split_once 0x3a (trim url) of
        None \<Rightarrow> Inl (RequestFailed MissingScheme)
      | Some (scheme, rest) \<Rightarrow>
          if \<not> eq_ignore_ascii_case scheme (lit ''http'') \<and> \<not> eq_ignore_ascii_case scheme (lit ''https'')
          then Inl (RequestFailed (UnsupportedScheme scheme))
          else guard (rest = []) (RequestFailed MissingAuthority))"

subsection \<open>Response headers\<close>

definition parse_http_status :: "u8 list \<Rightarrow> nat option" where
  "parse_http_status header =
     Option.bind (from_utf8 header) (\<lambda>s.
     let line = trim s in
     if take 5 line \<noteq> lit ''HTTP/'' then None
     else Option.bind (get_opt (split_whitespace line) 1) (parse_unsigned (2 ^ 16)))"

definition parse_header_value :: "u8 list \<Rightarrow> string \<Rightarrow> str option" where
  "parse_header_value header expected_name =
     Option.bind (from_utf8 header) (\<lambda>s.
     Option.bind (split_once 0x3a (trim s)) (\<lambda>(name, value).
     if \<not> eq_ignore_ascii_case name (lit expected_name) then None else Some (trim value)))"

definition parse_content_range :: "u8 list \<Rightarrow> (nat \<times> nat) option" where
  "parse_content_range header =
     Option.bind (from_utf8 header) (\<lambda>s.
     Option.bind (split_once 0x3a (trim s)) (\<lambda>(name, value).
     if \<not> eq_ignore_ascii_case name (lit ''content-range'') then None
     else Option.bind (split_once 0x20 (trim value)) (\<lambda>(unit_name, value).
     if \<not> eq_ignore_ascii_case unit_name (lit ''bytes'') then None
     else Option.bind (split_once 0x2f value) (\<lambda>(bounds, _).
     Option.bind (split_once 0x2d bounds) (\<lambda>(start, stop).
     Option.bind (parse_unsigned u64_limit start) (\<lambda>a.
     Option.bind (parse_unsigned u64_limit stop) (\<lambda>b. Some (a, b))))))))"

definition is_blank_header :: "u8 list \<Rightarrow> bool" where
  "is_blank_header h \<longleftrightarrow> h = [0x0d, 0x0a] \<or> h = [0x0a]"

subsection \<open>The transport\<close>

datatype http_method = Head | Get | Post "u8 list"

record curl_request =
  rq_method :: http_method
  rq_url :: str
  rq_range :: "(nat \<times> nat) option"
  rq_agent :: str
  rq_headers :: "str list"

datatype curl_call = HeaderCall "u8 list" | DataCall "u8 list" | ProgressCall TransferControl

text \<open>
  \<open>cr_ok\<close>: what \<open>perform\<close> returns when no callback ends the transfer. The accessors are \<open>None\<close> when
  they fail; \<open>cr_length\<close> is the reported length, negative when unknown.
\<close>

record curl_run =
  cr_calls :: "curl_call list"
  cr_ok :: bool
  cr_status :: "nat option"
  cr_length :: "int option"
  cr_url :: "str option option"

type_synonym curl = "curl_request \<Rightarrow> curl_run option"

text \<open>\<open>Easy::url\<close> refuses an inner NUL; the other setters are \<open>curl\<close>'s.\<close>

definition easy_url :: "str \<Rightarrow> (TransportError, unit) result" where
  "easy_url url = guard (0 \<in> set url) (RequestFailed CurlFailed)"

definition request_run ::
  "curl \<Rightarrow> str \<Rightarrow> http_method \<Rightarrow> str \<Rightarrow> (nat \<times> nat) option \<Rightarrow> request_context \<Rightarrow> (str \<times> str) list
   \<Rightarrow> (TransportError, curl_run) result" where
  "request_run curl version mth url rng ctx extra =
     rbind (easy_url url) (\<lambda>_.
     rbind (apply_request_context version ctx extra) (\<lambda>(agent, lines).
     ok_or (RequestFailed CurlFailed)
       (curl \<lparr>rq_method = mth, rq_url = url, rq_range = rng, rq_agent = agent, rq_headers = lines\<rparr>)))"

definition response_status :: "curl_run \<Rightarrow> (TransportError, nat) result" where
  "response_status run =
     rbind (ok_or (RequestFailed CurlFailed) (cr_status run)) (\<lambda>s. if s < 2 ^ 16 then Inr s else Inl (InvalidStatus s))"

definition effective_url :: "curl_run \<Rightarrow> str \<Rightarrow> (TransportError, str) result" where
  "effective_url run url =
     rbind (ok_or (RequestFailed CurlFailed) (cr_url run)) (\<lambda>u. Inr (case u of None \<Rightarrow> url | Some e \<Rightarrow> e))"

definition is_success :: "nat \<Rightarrow> bool" where
  "is_success status \<longleftrightarrow> 200 \<le> status \<and> status < 300"

text \<open>The calls up to the first callback that ends the transfer.\<close>

fun perform_calls :: "('c \<Rightarrow> 's \<Rightarrow> ('e, bool \<times> 's) io) \<Rightarrow> 'c list \<Rightarrow> 's \<Rightarrow> ('e, bool \<times> 's) io" where
  "perform_calls step [] s = ret (True, s)"
| "perform_calls step (c # cs) s =
     ibind (step c s) (\<lambda>(go, s'). if go then perform_calls step cs s' else ret (False, s'))"

subsection \<open>Probes\<close>

record http_probe =
  pr_status :: nat
  pr_content_length :: "nat option"
  pr_effective_url :: str
  pr_etag :: "str option"
  pr_last_modified :: "str option"

fun probe_headers :: "curl_call list \<Rightarrow> str option \<times> str option \<Rightarrow> str option \<times> str option" where
  "probe_headers [] vs = vs"
| "probe_headers (HeaderCall h # cs) vs =
     (if parse_http_status h \<noteq> None then probe_headers cs (None, None)
      else case parse_header_value h ''etag'' of
             Some e \<Rightarrow> probe_headers cs (Some e, snd vs)
           | None \<Rightarrow>
               (case parse_header_value h ''last-modified'' of
                  Some l \<Rightarrow> probe_headers cs (fst vs, Some l)
                | None \<Rightarrow> probe_headers cs vs))"
| "probe_headers (_ # cs) vs = probe_headers cs vs"

text \<open>The conversion of the reported length: \<open>u64::MAX as f64\<close> is \<open>2 ^ 64\<close>, and the cast saturates.\<close>

definition reported_length :: "int \<Rightarrow> nat option" where
  "reported_length n = (if 0 \<le> n \<and> n \<le> 2 ^ 64 then Some (min (nat n) (2 ^ 64 - 1)) else None)"

definition probe_http_resource ::
  "curl \<Rightarrow> str \<Rightarrow> str \<Rightarrow> request_context \<Rightarrow> (TransportError, http_probe) result" where
  "probe_http_resource curl version url ctx =
     rbind (ensure_http_url url) (\<lambda>_.
     rbind (request_run curl version Head url None ctx []) (\<lambda>run.
     rbind (if cr_ok run then Inr () else Inl (RequestFailed CurlFailed)) (\<lambda>_.
     rbind (response_status run) (\<lambda>status.
     rbind (ok_or (RequestFailed CurlFailed) (cr_length run)) (\<lambda>n.
     rbind (effective_url run url) (\<lambda>eff.
     let (etag, last_modified) = probe_headers (cr_calls run) (None, None) in
     Inr \<lparr>pr_status = status, pr_content_length = reported_length n, pr_effective_url = eff,
           pr_etag = etag, pr_last_modified = last_modified\<rparr>))))))"

definition strong_etag :: "http_probe \<Rightarrow> str option" where
  "strong_etag p = (case pr_etag p of None \<Rightarrow> None | Some e \<Rightarrow> if is_weak e then None else Some e)"

definition if_range_validator :: "http_probe \<Rightarrow> str option" where
  "if_range_validator p = (case strong_etag p of Some e \<Rightarrow> Some e | None \<Rightarrow> pr_last_modified p)"

subsection \<open>Responses in memory\<close>

record http_buffer =
  hb_status :: nat
  hb_effective_url :: str
  hb_content_type :: "str option"
  hb_body :: "u8 list"

record buffer_state =
  bs_status :: "nat option"
  bs_valid :: bool
  bs_type :: "str option"
  bs_body :: "u8 list"
  bs_exceeded :: bool

fun buffer_call :: "nat \<Rightarrow> curl_call \<Rightarrow> buffer_state \<Rightarrow> ('e, bool \<times> buffer_state) io" where
  "buffer_call max_bytes (HeaderCall h) s =
     ret (True,
       case parse_http_status h of
         Some status \<Rightarrow> s\<lparr>bs_status := Some status, bs_valid := False, bs_type := None\<rparr>
       | None \<Rightarrow>
           if is_blank_header h
           then s\<lparr>bs_valid := (case bs_status s of None \<Rightarrow> False | Some st \<Rightarrow> is_success st)\<rparr>
           else (case parse_header_value h ''content-type'' of Some v \<Rightarrow> s\<lparr>bs_type := Some v\<rparr> | None \<Rightarrow> s))"
| "buffer_call max_bytes (DataCall d) s =
     ret (if \<not> bs_valid s then (True, s)
          else if max_bytes < min (u64_limit - 1) (length (bs_body s) + length d) then (d = [], s\<lparr>bs_exceeded := True\<rparr>)
          else (True, s\<lparr>bs_body := bs_body s @ d\<rparr>))"
| "buffer_call max_bytes (ProgressCall _) s = ret (True, s)"

definition buffer_start :: buffer_state where
  "buffer_start = \<lparr>bs_status = None, bs_valid = False, bs_type = None, bs_body = [], bs_exceeded = False\<rparr>"

definition collect_response :: "curl_run \<Rightarrow> str \<Rightarrow> nat \<Rightarrow> (TransportError, http_buffer) io" where
  "collect_response run url max_bytes =
     ibind (perform_calls (buffer_call max_bytes) (cr_calls run) buffer_start) (\<lambda>(finished, s).
     if bs_exceeded s then throw (ResponseTooLarge max_bytes)
     else if \<not> (finished \<and> cr_ok run) then throw (RequestFailed CurlFailed)
     else
       ibind (lift (response_status run)) (\<lambda>status.
       if \<not> is_success status then throw (RequestFailed (FetchStatus status))
       else
         ibind (lift (effective_url run url)) (\<lambda>eff.
         ret \<lparr>hb_status = status, hb_effective_url = eff, hb_content_type = bs_type s, hb_body = bs_body s\<rparr>)))"

definition fetch_http_bytes ::
  "curl \<Rightarrow> str \<Rightarrow> str \<Rightarrow> request_context \<Rightarrow> nat \<Rightarrow> (TransportError, http_buffer) io" where
  "fetch_http_bytes curl version url ctx max_bytes =
     ibind (lift (ensure_http_url url)) (\<lambda>_.
     if max_bytes = 0 then throw (InvalidRequestContext ZeroLimit)
     else
       ibind (lift (request_run curl version Get url None ctx [])) (\<lambda>run.
       collect_response run url max_bytes))"

definition post_http_bytes ::
  "curl \<Rightarrow> str \<Rightarrow> str \<Rightarrow> request_context \<Rightarrow> str \<Rightarrow> u8 list \<Rightarrow> nat \<Rightarrow> (TransportError, http_buffer) io" where
  "post_http_bytes curl version url ctx content_type body max_bytes =
     ibind (lift (ensure_http_url url)) (\<lambda>_.
     if max_bytes = 0 then throw (InvalidRequestContext ZeroLimit)
     else
       ibind (lift (validate_request_value content_type ''content-type'')) (\<lambda>_.
       ibind (lift (request_run curl version (Post body) url None ctx [(lit ''Content-Type'', content_type)])) (\<lambda>run.
       collect_response run url max_bytes)))"

subsection \<open>Range transfers\<close>

text \<open>Where the sink of a stream puts the next bytes, given how many the stream has written.\<close>

type_synonym sink = "nat \<Rightarrow> u8 list \<Rightarrow> (unit, unit) io"

record range_state =
  rs_status :: "nat option"
  rs_range :: "(nat \<times> nat) option"
  rs_valid :: bool
  rs_received :: nat
  rs_error :: "request_fault option"
  rs_stop :: TransferControl

definition range_header :: "nat \<Rightarrow> nat \<Rightarrow> u8 list \<Rightarrow> range_state \<Rightarrow> range_state" where
  "range_header start stop h s =
     (case parse_http_status h of
        Some status \<Rightarrow> s\<lparr>rs_status := Some status, rs_range := None, rs_valid := False\<rparr>
      | None \<Rightarrow>
          if is_blank_header h
          then s\<lparr>rs_valid := (rs_status s = Some 206 \<and> rs_range s = Some (start, stop))\<rparr>
          else (case parse_content_range h of Some r \<Rightarrow> s\<lparr>rs_range := Some r\<rparr> | None \<Rightarrow> s))"

fun range_call ::
  "sink \<Rightarrow> nat \<Rightarrow> nat \<Rightarrow> nat \<Rightarrow> curl_call \<Rightarrow> range_state \<Rightarrow> ('e, bool \<times> range_state) io" where
  "range_call sink start stop expected (ProgressCall c) s = ret (c = Continue, s\<lparr>rs_stop := c\<rparr>)"
| "range_call sink start stop expected (HeaderCall h) s = ret (True, range_header start stop h s)"
| "range_call sink start stop expected (DataCall d) s =
     (if \<not> rs_valid s then ret (True, s)
      else case checked_add64 (rs_received s) (length d) of
             None \<Rightarrow> ret (d = [], s\<lparr>rs_error := Some CounterOverflow\<rparr>)
           | Some next_total \<Rightarrow>
               if expected < next_total then ret (d = [], s\<lparr>rs_error := Some (PayloadExceeded expected)\<rparr>)
               else
                 ibind (attempt (sink (rs_received s) d)) (\<lambda>r.
                 case r of
                   Inl _ \<Rightarrow> ret (d = [], s\<lparr>rs_error := Some SinkFailed\<rparr>)
                 | Inr _ \<Rightarrow> ret (True, s\<lparr>rs_received := next_total\<rparr>)))"

definition range_start :: range_state where
  "range_start = \<lparr>rs_status = None, rs_range = None, rs_valid = False, rs_received = 0, rs_error = None, rs_stop = Continue\<rparr>"

record range_result =
  rg_status :: nat
  rg_start :: nat
  rg_end :: nat
  rg_bytes :: nat
  rg_url :: str

definition range_outcome ::
  "curl_run \<Rightarrow> str \<Rightarrow> nat \<Rightarrow> nat \<Rightarrow> nat \<Rightarrow> bool \<Rightarrow> range_state \<Rightarrow> (TransportError, range_result) result" where
  "range_outcome run url start stop expected finished s =
     (if rs_stop s = Pause then Inl Paused
      else if rs_stop s = Cancel then Inl Cancelled
      else if \<not> rs_valid s then Inl RangeResponseRejected
      else case rs_error s of
        Some e \<Rightarrow> Inl (RequestFailed e)
      | None \<Rightarrow>
          if \<not> (finished \<and> cr_ok run) then Inl (RequestFailed CurlFailed)
          else
            rbind (response_status run) (\<lambda>status.
            if status \<noteq> 206 then Inl RangeResponseRejected
            else if rs_range s \<noteq> Some (start, stop) then Inl RangeResponseRejected
            else if rs_received s \<noteq> expected then Inl RangeResponseRejected
            else
              rbind (effective_url run url) (\<lambda>eff.
              Inr \<lparr>rg_status = status, rg_start = start, rg_end = stop, rg_bytes = rs_received s, rg_url = eff\<rparr>)))"

definition range_length :: "nat \<Rightarrow> nat \<Rightarrow> (TransportError, nat) result" where
  "range_length start stop =
     (if stop < start then Inl (InvalidRange start stop)
      else ok_or (InvalidRange start stop) (Option.bind (checked_sub stop start) (\<lambda>n. checked_add64 n 1)))"

definition if_range_header :: "str option \<Rightarrow> (str \<times> str) list" where
  "if_range_header v = (case v of None \<Rightarrow> [] | Some validator \<Rightarrow> [(lit ''If-Range'', validator)])"

definition stream_http_range ::
  "curl \<Rightarrow> str \<Rightarrow> str \<Rightarrow> nat \<Rightarrow> nat \<Rightarrow> sink \<Rightarrow> request_context \<Rightarrow> str option \<Rightarrow> (TransportError, range_result) io" where
  "stream_http_range curl version url start stop sink ctx if_range =
     ibind (lift (ensure_http_url url)) (\<lambda>_.
     ibind (lift (range_length start stop)) (\<lambda>expected.
     ibind (lift (request_run curl version Get url (Some (start, stop)) ctx (if_range_header if_range))) (\<lambda>run.
     ibind (perform_calls (range_call sink start stop expected) (cr_calls run) range_start) (\<lambda>(finished, s).
     lift (range_outcome run url start stop expected finished s)))))"

subsection \<open>Whole-body transfers\<close>

record full_state =
  ft_status :: "nat option"
  ft_valid :: bool
  ft_received :: nat
  ft_error :: "request_fault option"
  ft_stop :: TransferControl

definition full_header :: "u8 list \<Rightarrow> full_state \<Rightarrow> full_state" where
  "full_header h s =
     (case parse_http_status h of
        Some status \<Rightarrow> s\<lparr>ft_status := Some status, ft_valid := False\<rparr>
      | None \<Rightarrow>
          if is_blank_header h
          then s\<lparr>ft_valid := (case ft_status s of None \<Rightarrow> False | Some st \<Rightarrow> is_success st)\<rparr>
          else s)"

fun full_call :: "sink \<Rightarrow> curl_call \<Rightarrow> full_state \<Rightarrow> ('e, bool \<times> full_state) io" where
  "full_call sink (ProgressCall c) s = ret (c = Continue, s\<lparr>ft_stop := c\<rparr>)"
| "full_call sink (HeaderCall h) s = ret (True, full_header h s)"
| "full_call sink (DataCall d) s =
     (if \<not> ft_valid s then ret (True, s)
      else
        ibind (attempt (sink (ft_received s) d)) (\<lambda>r.
        case r of
          Inl _ \<Rightarrow> ret (d = [], s\<lparr>ft_error := Some SinkFailed\<rparr>)
        | Inr _ \<Rightarrow>
            (case checked_add64 (ft_received s) (length d) of
               None \<Rightarrow> ret (d = [], s\<lparr>ft_error := Some CounterOverflow\<rparr>)
             | Some next_total \<Rightarrow> ret (True, s\<lparr>ft_received := next_total\<rparr>))))"

definition full_start :: full_state where
  "full_start = \<lparr>ft_status = None, ft_valid = False, ft_received = 0, ft_error = None, ft_stop = Continue\<rparr>"

definition full_outcome ::
  "curl_run \<Rightarrow> str \<Rightarrow> bool \<Rightarrow> full_state \<Rightarrow> (TransportError, nat \<times> nat \<times> str) result" where
  "full_outcome run url finished s =
     (if ft_stop s = Pause then Inl Paused
      else if ft_stop s = Cancel then Inl Cancelled
      else if \<not> ft_valid s then Inl (RequestFailed (NotSuccessful (ft_status s)))
      else case ft_error s of
        Some e \<Rightarrow> Inl (RequestFailed e)
      | None \<Rightarrow>
          if \<not> (finished \<and> cr_ok run) then Inl (RequestFailed CurlFailed)
          else
            rbind (response_status run) (\<lambda>status.
            rbind (effective_url run url) (\<lambda>eff. Inr (status, ft_received s, eff))))"

definition stream_http_full ::
  "curl \<Rightarrow> str \<Rightarrow> str \<Rightarrow> sink \<Rightarrow> request_context \<Rightarrow> (TransportError, nat \<times> nat \<times> str) io" where
  "stream_http_full curl version url sink ctx =
     ibind (lift (ensure_http_url url)) (\<lambda>_.
     ibind (lift (request_run curl version Get url None ctx [])) (\<lambda>run.
     ibind (perform_calls (full_call sink) (cr_calls run) full_start) (\<lambda>(finished, s).
     lift (full_outcome run url finished s))))"

subsection \<open>What a stream writes\<close>

text \<open>The bytes the callbacks let through: those that come while the last header block is the one asked for.\<close>

fun range_body :: "nat \<Rightarrow> nat \<Rightarrow> curl_call list \<Rightarrow> range_state \<Rightarrow> u8 list" where
  "range_body start stop [] s = []"
| "range_body start stop (HeaderCall h # cs) s = range_body start stop cs (range_header start stop h s)"
| "range_body start stop (DataCall d # cs) s = (if rs_valid s then d else []) @ range_body start stop cs s"
| "range_body start stop (ProgressCall c # cs) s = range_body start stop cs s"

fun full_body :: "curl_call list \<Rightarrow> full_state \<Rightarrow> u8 list" where
  "full_body [] s = []"
| "full_body (HeaderCall h # cs) s = full_body cs (full_header h s)"
| "full_body (DataCall d # cs) s = (if ft_valid s then d else []) @ full_body cs s"
| "full_body (ProgressCall c # cs) s = full_body cs s"

lemma range_header_rest [simp]:
  "rs_received (range_header start stop h s) = rs_received s" "rs_error (range_header start stop h s) = rs_error s"
  by (simp_all add: range_header_def split: option.splits)

lemma full_header_rest [simp]:
  "ft_received (full_header h s) = ft_received s" "ft_error (full_header h s) = ft_error s"
  by (simp_all add: full_header_def split: option.splits)

text \<open>Counters and verdicts do not matter for what is let through.\<close>

lemma range_header_cong:
  assumes "rs_status s = rs_status t" "rs_range s = rs_range t" "rs_valid s = rs_valid t"
  shows "rs_status (range_header a b h s) = rs_status (range_header a b h t)"
    "rs_range (range_header a b h s) = rs_range (range_header a b h t)"
    "rs_valid (range_header a b h s) = rs_valid (range_header a b h t)"
  using assms by (simp_all add: range_header_def split: option.splits)

lemma range_body_cong:
  "rs_status s = rs_status t \<Longrightarrow> rs_range s = rs_range t \<Longrightarrow> rs_valid s = rs_valid t \<Longrightarrow> range_body a b cs s = range_body a b cs t"
proof (induction a b cs s arbitrary: t rule: range_body.induct)
  case (2 a b h cs s)
  show ?case using "2.IH" [OF range_header_cong [OF "2.prems"]] by simp
next
  case (3 a b d cs s)
  show ?case using "3.IH" [OF "3.prems"] "3.prems"(3) by simp
next
  case (4 a b c cs s)
  show ?case using "4.IH" [OF "4.prems"] by simp
qed simp

lemma full_header_cong:
  assumes "ft_status s = ft_status t" "ft_valid s = ft_valid t"
  shows "ft_status (full_header h s) = ft_status (full_header h t)" "ft_valid (full_header h s) = ft_valid (full_header h t)"
  using assms by (simp_all add: full_header_def split: option.splits)

lemma full_body_cong:
  "ft_status s = ft_status t \<Longrightarrow> ft_valid s = ft_valid t \<Longrightarrow> full_body cs s = full_body cs t"
proof (induction cs s arbitrary: t rule: full_body.induct)
  case (2 h cs s)
  show ?case using "2.IH" [OF full_header_cong [OF "2.prems"]] by simp
next
  case (3 d cs s)
  show ?case using "3.IH" [OF "3.prems"] "3.prems"(2) by simp
next
  case (4 c cs s)
  show ?case using "4.IH" [OF "4.prems"] by simp
qed simp

lemma range_body_updates [simp]:
  "range_body a b cs (s\<lparr>rs_received := n\<rparr>) = range_body a b cs s" "range_body a b cs (s\<lparr>rs_error := e\<rparr>) = range_body a b cs s"
  "range_body a b cs (s\<lparr>rs_stop := c\<rparr>) = range_body a b cs s"
  by (rule range_body_cong; simp)+

lemma full_body_updates [simp]:
  "full_body cs (s\<lparr>ft_received := n\<rparr>) = full_body cs s" "full_body cs (s\<lparr>ft_error := e\<rparr>) = full_body cs s"
  "full_body cs (s\<lparr>ft_stop := c\<rparr>) = full_body cs s"
  by (rule full_body_cong; simp)+

lemma start_simps [simp]: "rs_received range_start = 0" "ft_received full_start = 0"
  by (simp_all add: range_start_def full_start_def)

lemma range_outcome_Inr:
  "range_outcome run url start stop expected finished s = Inr r \<Longrightarrow>
     rs_error s = None \<and> rs_received s = expected \<and> rg_bytes r = expected"
  by (auto simp: range_outcome_def rbind_def split: if_splits option.splits sum.splits)

lemma full_outcome_Inr:
  "full_outcome run url finished s = Inr (status, n, eff) \<Longrightarrow> ft_error s = None \<and> finished \<and> n = ft_received s"
  by (auto simp: full_outcome_def rbind_def split: if_splits option.splits sum.splits)

text \<open>
  A sink that keeps what a stream has written: \<open>holds got f\<close> says that exactly \<open>got\<close> has arrived. A write that
  fails or is cut off may have stored a beginning of its bytes.
\<close>

locale stream_sink =
  fixes allowed :: "io_event \<Rightarrow> bool" and sink :: sink and holds :: "u8 list \<Rightarrow> fs \<Rightarrow> bool"
  assumes sink_write: "holds got f \<Longrightarrow> runs_on allowed (sink (length got) d) f (\<lambda>_. holds (got @ d))
    (\<lambda>_ g. \<exists>k. holds (got @ take k d) g) (\<lambda>g. \<exists>k. holds (got @ take k d) g)"
begin

abbreviation part :: "u8 list \<Rightarrow> nat \<Rightarrow> fs \<Rightarrow> bool" where
  "part body limit g \<equiv> \<exists>got. holds got g \<and> prefix got body \<and> length got \<le> limit"

lemma part_cut:
  assumes "holds (got @ take k d) g" "length got + length d \<le> limit"
  shows "part (got @ d @ rest) limit g"
proof -
  have "prefix (got @ take k d) (got @ d @ rest)" by (simp add: take_is_prefix prefix_prefix)
  moreover have "length (got @ take k d) \<le> limit" using assms(2) by simp
  ultimately show ?thesis using assms(1) by blast
qed

lemma range_calls:
  assumes "holds got f" "rs_received s = length got" "length got \<le> expected"
  shows "runs_on allowed (perform_calls (range_call sink start stop expected) calls s :: ('z, bool \<times> range_state) io) f
    (\<lambda>(finished, s') g. \<exists>got'. holds got' g \<and> prefix got' (got @ range_body start stop calls s) \<and> length got' \<le> expected
       \<and> (rs_error s' = None \<longrightarrow> rs_received s' = length got'))
    (\<lambda>_ _. False) (part (got @ range_body start stop calls s) expected)"
  using assms
proof (induction calls arbitrary: got s f)
  case (Cons c calls)
  show ?case
  proof (cases c)
    case (HeaderCall h)
    then show ?thesis using Cons.IH [OF Cons.prems(1), of "range_header start stop h s"] Cons.prems by simp
  next
    case (ProgressCall x)
    then show ?thesis using Cons.IH [OF Cons.prems(1), of "s\<lparr>rs_stop := x\<rparr>"] Cons.prems by (cases x) auto
  next
    case (DataCall d)
    note data = this
    let ?body = "range_body start stop calls s"
    show ?thesis
    proof (cases "rs_valid s")
      case False
      then show ?thesis using Cons.IH [OF Cons.prems] data by simp
    next
      case valid: True
      have stop: "runs_on allowed (if d = [] then perform_calls (range_call sink start stop expected) calls (s\<lparr>rs_error := Some e\<rparr>)
            else ret (False, s\<lparr>rs_error := Some e\<rparr>) :: ('z, bool \<times> range_state) io) g
          (\<lambda>(finished, s') g. \<exists>got'. holds got' g \<and> prefix got' (got @ d @ ?body) \<and> length got' \<le> expected
             \<and> (rs_error s' = None \<longrightarrow> rs_received s' = length got'))
          (\<lambda>_ _. False) (part (got @ d @ ?body) expected)"
        if "holds (got @ take k d) g" "d \<noteq> [] \<longrightarrow> length got + length d \<le> expected \<or> k = 0" for e g k
      proof (cases "d = []")
        case True
        then show ?thesis using that(1) Cons.prems Cons.IH [of got g "s\<lparr>rs_error := Some e\<rparr>"] by simp
      next
        case False
        then have "length got + length d \<le> expected \<or> k = 0" using that(2) by simp
        then have "part (got @ d @ ?body) expected g"
          using part_cut [OF that(1)] part_cut [of got 0 "[]" g expected "d @ ?body"] that(1) Cons.prems(3) by auto
        then show ?thesis using False by auto
      qed
      show ?thesis
      proof (cases "checked_add64 (rs_received s) (length d)")
        case None
        then show ?thesis using stop [of 0 f CounterOverflow] valid data Cons.prems(1) by (cases "d = []") simp_all
      next
        case (Some n)
        then have n: "n = length got + length d" using Cons.prems(2) by (simp add: opt_iffs)
        show ?thesis
        proof (cases "expected < n")
          case True
          then show ?thesis using stop [of 0 f "PayloadExceeded expected"] valid data Some Cons.prems(1) by (cases "d = []") simp_all
        next
          case False
          have cont: "runs_on allowed (perform_calls (range_call sink start stop expected) calls (s\<lparr>rs_received := n\<rparr>) :: ('z, bool \<times> range_state) io) g
              (\<lambda>(finished, s') g. \<exists>got'. holds got' g \<and> prefix got' (got @ d @ ?body) \<and> length got' \<le> expected
                 \<and> (rs_error s' = None \<longrightarrow> rs_received s' = length got'))
              (\<lambda>_ _. False) (part (got @ d @ ?body) expected)" if "holds (got @ d) g" for g
            using Cons.IH [OF that, of "s\<lparr>rs_received := n\<rparr>"] n False by simp
          have w: "runs_on allowed (attempt (sink (rs_received s) d) :: ('z, unit + unit) io) f
              (\<lambda>r g. case r of Inl _ \<Rightarrow> \<exists>k. holds (got @ take k d) g | Inr _ \<Rightarrow> holds (got @ d) g)
              (\<lambda>_ _. False) (part (got @ d @ ?body) expected)"
            unfolding Cons.prems(2)
            by (rule runs_on_attempt, rule runs_on_mono [OF sink_write [OF Cons.prems(1)]])
              (use part_cut [of got _ d _ expected ?body] n False in auto)
          show ?thesis
            unfolding perform_calls.simps data range_call.simps
            using valid Some False stop [of _ _ SinkFailed] cont n
            by (auto intro!: runs_on_ibind runs_on_mono [OF w] split: sum.splits)
        qed
      qed
    qed
  qed
qed auto

lemma full_calls:
  assumes "holds got f" "ft_received s = length got"
  shows "runs_on allowed (perform_calls (full_call sink) calls s :: ('z, bool \<times> full_state) io) f
    (\<lambda>(finished, s') g. \<exists>got'. holds got' g \<and> prefix got' (got @ full_body calls s)
       \<and> (ft_error s' = None \<longrightarrow> ft_received s' = length got' \<and> (finished \<longrightarrow> got' = got @ full_body calls s)))
    (\<lambda>_ _. False) (\<lambda>g. \<exists>got'. holds got' g \<and> prefix got' (got @ full_body calls s))"
    (is "runs_on _ _ _ (?Q got s calls) ?E (?S got s calls)")
  using assms
proof (induction calls arbitrary: got s f)
  case (Cons c calls)
  show ?case
  proof (cases c)
    case (HeaderCall h)
    then show ?thesis using Cons.IH [OF Cons.prems(1), of "full_header h s"] Cons.prems by simp
  next
    case (ProgressCall x)
    then show ?thesis using Cons.IH [OF Cons.prems(1), of "s\<lparr>ft_stop := x\<rparr>"] Cons.prems by (cases x) auto
  next
    case (DataCall d)
    note data = this
    show ?thesis
    proof (cases "ft_valid s")
      case False
      then show ?thesis using Cons.IH [OF Cons.prems] data by simp
    next
      case valid: True
      let ?B = "got @ d @ full_body calls s"
      let ?Q' = "\<lambda>(finished, s') g. \<exists>got'. holds got' g \<and> prefix got' ?B
        \<and> (ft_error s' = None \<longrightarrow> ft_received s' = length got' \<and> (finished \<longrightarrow> got' = ?B))"
      let ?S' = "\<lambda>g. \<exists>got'. holds got' g \<and> prefix got' ?B"
      have stop: "runs_on allowed (if d = [] then perform_calls (full_call sink) calls (s\<lparr>ft_error := Some e\<rparr>)
            else ret (False, s\<lparr>ft_error := Some e\<rparr>) :: ('z, bool \<times> full_state) io) g ?Q' ?E ?S'"
        if "holds (got @ take k d) g" for e g k
        using that Cons.prems Cons.IH [of got g "s\<lparr>ft_error := Some e\<rparr>"]
        by (cases "d = []") (auto simp: take_is_prefix prefix_prefix intro!: exI [of _ "got @ take k d"])
      have cont: "runs_on allowed (perform_calls (full_call sink) calls (s\<lparr>ft_received := n\<rparr>) :: ('z, bool \<times> full_state) io) g ?Q' ?E ?S'"
        if "holds (got @ d) g" "n = length got + length d" for g n
        using Cons.IH [OF that(1), of "s\<lparr>ft_received := n\<rparr>"] that(2) by simp
      have w: "runs_on allowed (attempt (sink (ft_received s) d) :: ('z, unit + unit) io) f
          (\<lambda>r g. case r of Inl _ \<Rightarrow> \<exists>k. holds (got @ take k d) g | Inr _ \<Rightarrow> holds (got @ d) g) ?E ?S'"
        unfolding Cons.prems(2)
        by (rule runs_on_attempt, rule runs_on_mono [OF sink_write [OF Cons.prems(1)]])
          (auto simp: take_is_prefix prefix_prefix)
      have over: "runs_on allowed (if d = [] then perform_calls (full_call sink) calls (s\<lparr>ft_error := Some e\<rparr>)
            else ret (False, s\<lparr>ft_error := Some e\<rparr>) :: ('z, bool \<times> full_state) io) g ?Q' ?E ?S'"
        if "holds (got @ d) g" for e g using stop [of "length d" g e] that by simp
      have B: "got @ full_body (c # calls) s = ?B" using valid data by simp
      show ?thesis
      proof (cases "checked_add64 (ft_received s) (length d)")
        case None
        show ?thesis
          unfolding B perform_calls.simps unfolding data full_call.simps
          using valid None stop [of _ _ SinkFailed] over [of _ CounterOverflow]
          by (auto intro!: runs_on_ibind runs_on_mono [OF w] split: sum.splits)
      next
        case (Some n)
        then have n: "n = length got + length d" using Cons.prems(2) by (simp add: opt_iffs)
        show ?thesis
          unfolding B perform_calls.simps unfolding data full_call.simps
          using valid Some stop [of _ _ SinkFailed] cont [OF _ n]
          by (auto intro!: runs_on_ibind runs_on_mono [OF w] split: sum.splits)
      qed
    qed
  qed
qed auto

text \<open>What a whole stream leaves behind.\<close>

lemma range_stream:
  assumes "holds [] f"
    and "\<And>run. request_run curl version Get url (Some (start, stop)) ctx (if_range_header v) = Inr run \<Longrightarrow>
      prefix (range_body start stop (cr_calls run) range_start) body"
  shows "runs_on allowed (stream_http_range curl version url start stop sink ctx v) f
    (\<lambda>r g. rg_bytes r = stop - start + 1 \<and> start \<le> stop \<and> (\<exists>got. holds got g \<and> prefix got body \<and> length got = stop - start + 1))
    (\<lambda>_ g. \<exists>got. holds got g \<and> prefix got body) (\<lambda>g. \<exists>got. holds got g \<and> prefix got body)"
proof -
  have none: "\<exists>got. holds got f \<and> prefix got body" using assms(1) by auto
  show ?thesis
    unfolding stream_http_range_def
  proof (intro runs_on_bind_lift none)
    fix expected run
    assume e: "range_length start stop = Inr expected"
      and run: "request_run curl version Get url (Some (start, stop)) ctx (if_range_header v) = Inr run"
    have len: "expected = stop - start + 1" "start \<le> stop"
      using e by (auto simp: range_length_def opt_iffs bind_eq_Some_conv split: if_splits)
    have pre: "prefix got body" if "prefix got (range_body start stop (cr_calls run) range_start)" for got
      using that assms(2) [OF run] by (rule prefix_order.trans)
    show "runs_on allowed (ibind (perform_calls (range_call sink start stop expected) (cr_calls run) range_start) (\<lambda>(finished, s).
        lift (range_outcome run url start stop expected finished s))) f
      (\<lambda>r g. rg_bytes r = stop - start + 1 \<and> start \<le> stop \<and> (\<exists>got. holds got g \<and> prefix got body \<and> length got = stop - start + 1))
      (\<lambda>_ g. \<exists>got. holds got g \<and> prefix got body) (\<lambda>g. \<exists>got. holds got g \<and> prefix got body)"
    proof (rule runs_on_ibind, rule runs_on_mono [OF range_calls [OF assms(1)]], goal_cases)
      case (3 r g)
      then obtain finished s got where r: "r = (finished, s)" and got: "holds got g" "prefix got body"
          "rs_error s = None \<longrightarrow> rs_received s = length got"
        using pre by (cases r) auto
      show ?case
      proof (cases "range_outcome run url start stop expected finished s")
        case (Inr a)
        then show ?thesis using range_outcome_Inr [OF Inr] r got len by auto
      qed (use r got in auto)
    qed (use pre in auto)
  qed
qed

lemma full_stream:
  assumes "holds [] f"
  shows "runs_on allowed (stream_http_full curl version url sink ctx) f
    (\<lambda>(status, n, eff) g. \<exists>run got. request_run curl version Get url None ctx [] = Inr run \<and> holds got g
       \<and> got = full_body (cr_calls run) full_start \<and> n = length got)
    (\<lambda>_ g. \<exists>got. holds got g) (\<lambda>g. \<exists>got. holds got g)"
proof -
  have none: "\<exists>got. holds got f" using assms(1) by auto
  show ?thesis
    unfolding stream_http_full_def
  proof (intro runs_on_bind_lift none)
    fix run assume run: "request_run curl version Get url None ctx [] = Inr run"
    show "runs_on allowed (ibind (perform_calls (full_call sink) (cr_calls run) full_start) (\<lambda>(finished, s).
        lift (full_outcome run url finished s))) f
      (\<lambda>(status, n, eff) g. \<exists>run got. request_run curl version Get url None ctx [] = Inr run \<and> holds got g
         \<and> got = full_body (cr_calls run) full_start \<and> n = length got)
      (\<lambda>_ g. \<exists>got. holds got g) (\<lambda>g. \<exists>got. holds got g)"
      by (intro runs_on_ibind runs_on_mono [OF full_calls [OF assms(1)]])
        (use run in \<open>auto dest!: full_outcome_Inr split: sum.splits\<close>)
  qed
qed

end

subsection \<open>What a request carries\<close>

definition plain_value :: "str \<Rightarrow> bool" where
  "plain_value v \<longleftrightarrow> 0x0d \<notin> set v \<and> 0x0a \<notin> set v \<and> 0 \<notin> set v"

lemma plain_value_append [simp]: "plain_value (a @ b) \<longleftrightarrow> plain_value a \<and> plain_value b"
  by (auto simp: plain_value_def)

text \<open>The name a header line gives, and whether it is one that NOVA keeps for itself.\<close>

definition owned_line :: "str \<Rightarrow> bool" where
  "owned_line l = (case split_once 0x3a l of None \<Rightarrow> False | Some (n, _) \<Rightarrow> List.member owned_headers (map to_ascii_lowercase n))"

lemma owned_line_header: "0x3a \<notin> set n \<Longrightarrow> owned_line (header_line n v) \<longleftrightarrow> List.member owned_headers (map to_ascii_lowercase n)"
  by (simp add: owned_line_def header_line_def lit_def split_once_append)

lemma plain_header_line: "plain_value (header_line n v) \<longleftrightarrow> plain_value n \<and> plain_value v"
  by (simp add: header_line_def) (simp add: plain_value_def lit_def)

lemma name_byte: "is_ascii_alphanumeric b \<or> b = 0x2d \<Longrightarrow> b \<noteq> 0x3a \<and> b \<noteq> 0x0d \<and> b \<noteq> 0x0a \<and> b \<noteq> 0"
  by (auto simp: is_ascii_alphanumeric_def is_ascii_digit_def is_ascii_upper_def is_ascii_lower_def)

lemma validate_request_value_ok [simp]: "validate_request_value v label = Inr u \<longleftrightarrow> plain_value v"
  by (auto simp: validate_request_value_def plain_value_def list_ex_iff)

lemma validate_header_ok:
  assumes "validate_header (n, v) = Inr u"
  shows "plain_value (header_line n v)" "\<not> owned_line (header_line n v)"
proof -
  have n: "\<forall>b \<in> set n. is_ascii_alphanumeric b \<or> b = 0x2d" and o: "\<not> List.member owned_headers (map to_ascii_lowercase n)"
    and v: "plain_value v"
    using assms by (auto simp: validate_header_def list_all_iff split: if_splits)
  have "0x3a \<notin> set n" "plain_value n" using n name_byte unfolding plain_value_def by blast+
  with o v show "plain_value (header_line n v)" "\<not> owned_line (header_line n v)"
    by (simp_all add: plain_header_line owned_line_header)
qed

lemma append_header_lines: "mapM_r append_header ls = Inr lines \<Longrightarrow> lines = ls \<and> (\<forall>l \<in> set ls. 0 \<notin> set l)"
  unfolding mapM_r_Inr_iff by (induction ls lines rule: list_all2_induct) (auto simp: append_header_def split: if_splits)

lemma apply_request_context_ok:
  assumes "apply_request_context version ctx extra = Inr (agent, lines)"
  shows "lines = context_lines ctx extra" "\<forall>l \<in> set lines. 0 \<notin> set l"
    "\<forall>h \<in> set (ctx_headers ctx). validate_header h = Inr ()"
    "case ctx_referer ctx of None \<Rightarrow> True | Some r \<Rightarrow> plain_value r" "case ctx_cookie ctx of None \<Rightarrow> True | Some c \<Rightarrow> plain_value c"
    "case ctx_user_agent ctx of None \<Rightarrow> agent = lit ''NOVA/'' @ version | Some a \<Rightarrow> agent = a \<and> plain_value a"
proof -
  have m: "lines = ls" "\<forall>l \<in> set lines. 0 \<notin> set l" if "mapM_r append_header ls = Inr lines" for ls
    using append_header_lines [OF that] by simp_all
  have h: "\<forall>h \<in> set hs. validate_header h = Inr ()" if "mapM_r validate_header hs = Inr us" for hs us
    using that by (simp add: mapM_r_Inr_iff list_all2_conv_all_nth all_set_conv_all_nth)
  show "lines = context_lines ctx extra" "\<forall>l \<in> set lines. 0 \<notin> set l"
    "\<forall>h \<in> set (ctx_headers ctx). validate_header h = Inr ()"
    "case ctx_referer ctx of None \<Rightarrow> True | Some r \<Rightarrow> plain_value r" "case ctx_cookie ctx of None \<Rightarrow> True | Some c \<Rightarrow> plain_value c"
    "case ctx_user_agent ctx of None \<Rightarrow> agent = lit ''NOVA/'' @ version | Some a \<Rightarrow> agent = a \<and> plain_value a"
    using assms m h
    by (auto simp: apply_request_context_def context_validate_def validate_optional_def rbind_def split: sum.splits option.splits)
qed

lemma owned_lines:
  assumes "apply_request_context version ctx (if_range_header v) = Inr (agent, lines)"
  shows "filter owned_line lines =
        (case ctx_referer ctx of None \<Rightarrow> [] | Some r \<Rightarrow> [header_line (lit ''Referer'') r])
        @ (case ctx_cookie ctx of None \<Rightarrow> [] | Some c \<Rightarrow> [header_line (lit ''Cookie'') c])
        @ map (\<lambda>(n, x). header_line n x) (if_range_header v)"
proof -
  note ok = apply_request_context_ok [OF assms]
  have own: "owned_line (header_line (lit ''Referer'') x)" "owned_line (header_line (lit ''Cookie'') x)"
    "owned_line (header_line (lit ''If-Range'') x)" for x
    by (subst owned_line_header; simp add: lit_def owned_headers_def to_ascii_lowercase_def is_ascii_upper_def)+
  have "\<not> owned_line l" if "l \<in> set (map (\<lambda>(n, v). header_line n v) (ctx_headers ctx))" for l
    using that ok(3) validate_header_ok by auto
  then have f: "filter owned_line (map (\<lambda>(n, v). header_line n v) (ctx_headers ctx)) = []"
    by (simp add: filter_empty_conv)
  show ?thesis
    unfolding ok(1) context_lines_def filter_append f using own
    by (auto simp: if_range_header_def split: option.splits)
qed

text \<open>C12: A caller's context cannot change what NOVA asks: when a request is built, none of its header lines
  has a carriage return, a line feed or a NUL, so that no line smuggles in another, and the lines whose names NOVA keeps for
  itself are exactly the referer and the cookie from their own fields and NOVA's own If-Range. In particular no context header sets a
  range, a length or a host. The validator sent in If-Range is taken to be free of carriage returns and line feeds, as those of
  \<open>identity_from_probe\<close> are.\<close>
theorem request_headers_safe:
  assumes "apply_request_context version ctx (if_range_header v) = Inr (agent, lines)"
    and "case v of None \<Rightarrow> True | Some validator \<Rightarrow> 0x0d \<notin> set validator \<and> 0x0a \<notin> set validator"
  shows "list_all plain_value lines
    \<and> filter owned_line lines =
        (case ctx_referer ctx of None \<Rightarrow> [] | Some r \<Rightarrow> [header_line (lit ''Referer'') r])
        @ (case ctx_cookie ctx of None \<Rightarrow> [] | Some c \<Rightarrow> [header_line (lit ''Cookie'') c])
        @ map (\<lambda>(n, x). header_line n x) (if_range_header v)"
proof -
  note ok = apply_request_context_ok [OF assms(1)]
  have names: "plain_value (lit ''Referer'')" "plain_value (lit ''Cookie'')" "plain_value (lit ''If-Range'')"
    by (simp_all add: plain_value_def lit_def)
  have "list_all plain_value (map (\<lambda>(n, v). header_line n v) (ctx_headers ctx))"
    using ok(3) validate_header_ok by (auto simp: list_all_iff)
  moreover have "plain_value x" if "v = Some x" for x
    using assms(2) ok(1,2) that by (auto simp: plain_value_def context_lines_def if_range_header_def header_line_def)
  ultimately have "list_all plain_value lines"
    unfolding ok(1) context_lines_def using ok(4,5) names
    by (auto simp: plain_header_line if_range_header_def split: option.splits)
  with owned_lines [OF assms(1)] show ?thesis by simp
qed

theorem request_headers_safe_witness:
  "(let ctx = \<lparr>ctx_headers = [(lit ''X-Token'', lit ''7'')], ctx_referer = None, ctx_cookie = Some (lit ''a=b''), ctx_user_agent = None\<rparr>
    in filter owned_line (context_lines ctx (if_range_header (Some (lit ''v1'')))) =
       [header_line (lit ''Cookie'') (lit ''a=b''), header_line (lit ''If-Range'') (lit ''v1'')])"
proof -
  let ?ctx = "\<lparr>ctx_headers = [(lit ''X-Token'', lit ''7'')], ctx_referer = None, ctx_cookie = Some (lit ''a=b''), ctx_user_agent = None\<rparr>"
  have "apply_request_context (lit ''1'') ?ctx (if_range_header (Some (lit ''v1''))) =
      Inr (lit ''NOVA/1'', context_lines ?ctx (if_range_header (Some (lit ''v1''))))" by code_simp
  from request_headers_safe [OF this] show ?thesis
    by (simp add: if_range_header_def Let_def) (simp add: lit_def)
qed

end
