(* ===== verification/Download.thy ===== *)
theory Download
  imports Http
begin

text \<open>
  \<open>crates/nova-download-core/src/lib.rs\<close>: the resumable single-stream download, with the identity
  sidecar that says which representation a partial file belongs to.

  \<open>flush\<close> on a file does nothing; the destination is a file or absent.
\<close>

subsection \<open>Identities\<close>

record resume_identity =
  ri_length :: nat
  ri_kind :: str
  ri_validator :: str

definition identity_from_probe :: "http_probe \<Rightarrow> resume_identity option" where
  "identity_from_probe p =
     Option.bind (pr_content_length p) (\<lambda>n.
     Option.bind (case strong_etag p of
                    Some e \<Rightarrow> Some (lit ''etag'', e)
                  | None \<Rightarrow> map_option (Pair (lit ''last-modified'')) (pr_last_modified p)) (\<lambda>(kind, v).
     if 0x0d \<in> set v \<or> 0x0a \<in> set v then None
     else Some \<lparr>ri_length = n, ri_kind = kind, ri_validator = v\<rparr>))"

definition resume_identity_path :: "path \<Rightarrow> path" where
  "resume_identity_path destination = append_suffix destination ''.nova-identity''"

definition identity_payload :: "resume_identity \<Rightarrow> str" where
  "identity_payload i =
     unlines [lit ''NOVA-IDENTITY-1'', nat_to_dec (ri_length i), ri_kind i, ri_validator i]"

abbreviation file_io :: "path \<Rightarrow> (unit, 'a) io \<Rightarrow> (TransportError, 'a) io" where
  "file_io p \<equiv> rethrow (\<lambda>_. RequestFailed (FileFailed p))"

text \<open>Sidecars are replaced by removing the old one and renaming the new one into place.\<close>

definition replace_sidecar :: "path \<Rightarrow> str \<Rightarrow> (TransportError, unit) io" where
  "replace_sidecar p payload =
     (let tmp = append_suffix p ''.tmp'' in
      ibind (write_synced (\<lambda>q. RequestFailed (FileFailed q)) tmp payload) (\<lambda>_.
      ibind (path_exists p) (\<lambda>there.
      ibind (do_if there (file_io p (fs_remove_file p))) (\<lambda>_.
      file_io p (fs_rename tmp p)))))"

definition write_resume_identity :: "path \<Rightarrow> resume_identity \<Rightarrow> (TransportError, unit) io" where
  "write_resume_identity destination i = replace_sidecar (resume_identity_path destination) (identity_payload i)"

definition parse_identity :: "str \<Rightarrow> resume_identity option" where
  "parse_identity payload =
     (case str_lines payload of
        magic # len # kind # validator # _ \<Rightarrow>
          if magic \<noteq> lit ''NOVA-IDENTITY-1'' then None
          else Option.bind (parse_unsigned u64_limit len) (\<lambda>n.
            if kind \<noteq> lit ''etag'' \<and> kind \<noteq> lit ''last-modified'' then None
            else if validator = [] \<or> 0x0d \<in> set validator \<or> 0x0a \<in> set validator then None
            else Some \<lparr>ri_length = n, ri_kind = kind, ri_validator = validator\<rparr>)
      | _ \<Rightarrow> None)"

text \<open>\<open>read_to_string(..).ok()\<close>.\<close>

definition read_text :: "path \<Rightarrow> ('e, str option) io" where
  "read_text p =
     ibind (attempt (fs_read p)) (\<lambda>r. ret (case r of Inl _ \<Rightarrow> None | Inr b \<Rightarrow> from_utf8 b))"

definition read_resume_identity :: "path \<Rightarrow> ('e, resume_identity option) io" where
  "read_resume_identity destination =
     ibind (read_text (resume_identity_path destination)) (\<lambda>t. ret (Option.bind t parse_identity))"

definition remove_resume_identity :: "path \<Rightarrow> ('e, unit) io" where
  "remove_resume_identity destination = ignore (fs_remove_file (resume_identity_path destination))"

subsection \<open>The staging file\<close>

text \<open>\<open>metadata\<close> on a file or an absent path; appending; \<open>OpenOptions\<close> with \<open>append\<close> and \<open>create\<close>.\<close>

definition fs_metadata_len :: "path \<Rightarrow> (unit, nat option) io" where
  "fs_metadata_len p =
     call (\<lambda>f. case f p of None \<Rightarrow> Some (None, f) | Some n \<Rightarrow> map_option (\<lambda>d. (Some (length d), f)) (file_data (Some n)))"

definition append_at :: "path \<Rightarrow> u8 list \<Rightarrow> fs \<Rightarrow> fs" where
  "append_at p new f = (case file_data (f p) of None \<Rightarrow> f | Some old \<Rightarrow> f(p := Some (File (old @ new))))"

definition fs_append :: "path \<Rightarrow> u8 list \<Rightarrow> (unit, unit) io" where
  "fs_append p bytes = syscall (\<lambda>n. append_at p (take n bytes)) (\<lambda>f. Some ((), append_at p bytes f))"

definition fs_open_append :: "path \<Rightarrow> (unit, unit) io" where
  "fs_open_append p =
     call (\<lambda>f. if file_data (f p) \<noteq> None then Some ((), f)
               else if f p = None \<and> parent_ok f p then Some ((), f(p := Some (File [])))
               else None)"

definition existing_length :: "path \<Rightarrow> (TransportError, nat) io" where
  "existing_length p =
     ibind (file_io p (fs_metadata_len p)) (\<lambda>n. ret (case n of None \<Rightarrow> 0 | Some k \<Rightarrow> k))"

definition reset_staging :: "path \<Rightarrow> (TransportError, nat) io" where
  "reset_staging destination =
     ibind (file_io destination (fs_open_truncate destination)) (\<lambda>_.
     ibind (file_io destination (fs_sync destination)) (\<lambda>_.
     ibind (remove_resume_identity destination) (\<lambda>_. ret 0)))"

definition open_staging :: "path \<Rightarrow> nat \<Rightarrow> (TransportError, unit) io" where
  "open_staging p existing = file_io p (if 0 < existing then fs_open_append p else fs_open_truncate p)"

definition staging_sink :: "path \<Rightarrow> nat \<Rightarrow> sink" where
  "staging_sink p existing written d = (if 0 < existing then fs_append p d else fs_write_all p written d)"

subsection \<open>The download\<close>

record file_transfer =
  tr_status :: nat
  tr_final_bytes :: nat
  tr_total_bytes :: "nat option"
  tr_resumed_from :: nat
  tr_url :: str

definition download_full ::
  "curl \<Rightarrow> str \<Rightarrow> http_probe \<Rightarrow> path \<Rightarrow> request_context \<Rightarrow> nat option \<Rightarrow> (TransportError, file_transfer) io" where
  "download_full curl version probe destination ctx usable_length =
     ibind (remove_resume_identity destination) (\<lambda>_.
     ibind (file_io destination (fs_open_truncate destination)) (\<lambda>_.
     ibind (stream_http_full curl version (pr_effective_url probe) (staging_sink destination 0) ctx) (\<lambda>(status, final_bytes, eff).
     ibind (file_io destination (fs_sync destination)) (\<lambda>_.
     ret \<lparr>tr_status = status, tr_final_bytes = final_bytes,
          tr_total_bytes = (case usable_length of None \<Rightarrow> Some final_bytes | Some n \<Rightarrow> Some n),
          tr_resumed_from = 0, tr_url = eff\<rparr>))))"

definition finish_range ::
  "path \<Rightarrow> nat \<Rightarrow> nat \<Rightarrow> range_result \<Rightarrow> (TransportError, file_transfer) io" where
  "finish_range destination existing total_bytes rng =
     ibind (file_io destination (fs_sync destination)) (\<lambda>_.
     ibind (lift (ok_or (RequestFailed CounterOverflow) (checked_add64 existing (rg_bytes rng)))) (\<lambda>final_bytes.
     if final_bytes \<noteq> total_bytes then throw (RequestFailed (WrongLength final_bytes total_bytes))
     else
       ibind (remove_resume_identity destination) (\<lambda>_.
       ret \<lparr>tr_status = rg_status rng, tr_final_bytes = final_bytes, tr_total_bytes = Some total_bytes,
            tr_resumed_from = existing, tr_url = rg_url rng\<rparr>)))"

definition download_range ::
  "curl \<Rightarrow> str \<Rightarrow> http_probe \<Rightarrow> path \<Rightarrow> request_context \<Rightarrow> resume_identity \<Rightarrow> nat \<Rightarrow> nat
   \<Rightarrow> (TransportError, file_transfer) io" where
  "download_range curl version probe destination ctx identity total_bytes existing =
     ibind (do_if (existing = 0) (write_resume_identity destination identity)) (\<lambda>_.
     ibind (open_staging destination existing) (\<lambda>_.
     ibind (attempt (stream_http_range curl version (pr_effective_url probe) existing (total_bytes - 1)
              (staging_sink destination existing) ctx (Some (ri_validator identity)))) (\<lambda>r.
     case r of
       Inr rng \<Rightarrow> finish_range destination existing total_bytes rng
     | Inl RangeResponseRejected \<Rightarrow>
         ibind (remove_resume_identity destination) (\<lambda>_.
         download_full curl version probe destination ctx (Some total_bytes))
     | Inl e \<Rightarrow> ibind (ignore (fs_sync destination)) (\<lambda>_. throw e))))"

definition download_missing ::
  "curl \<Rightarrow> str \<Rightarrow> http_probe \<Rightarrow> path \<Rightarrow> request_context \<Rightarrow> nat \<Rightarrow> nat \<Rightarrow> (TransportError, file_transfer) io" where
  "download_missing curl version probe destination ctx total_bytes existing =
     (if existing = total_bytes \<and> 0 < total_bytes then
       ibind (remove_resume_identity destination) (\<lambda>_.
       ret \<lparr>tr_status = pr_status probe, tr_final_bytes = total_bytes, tr_total_bytes = Some total_bytes,
            tr_resumed_from = existing, tr_url = pr_effective_url probe\<rparr>)
     else
       (case identity_from_probe probe of
          Some identity \<Rightarrow>
            if 0 < total_bytes then download_range curl version probe destination ctx identity total_bytes existing
            else download_full curl version probe destination ctx (Some total_bytes)
        | None \<Rightarrow> download_full curl version probe destination ctx (Some total_bytes)))"

definition download_sized ::
  "curl \<Rightarrow> str \<Rightarrow> http_probe \<Rightarrow> path \<Rightarrow> request_context \<Rightarrow> nat \<Rightarrow> nat \<Rightarrow> (TransportError, file_transfer) io" where
  "download_sized curl version probe destination ctx total_bytes existing =
     ibind (if total_bytes < existing then reset_staging destination else ret existing)
       (download_missing curl version probe destination ctx total_bytes)"

definition download_into ::
  "curl \<Rightarrow> str \<Rightarrow> http_probe \<Rightarrow> path \<Rightarrow> request_context \<Rightarrow> nat \<Rightarrow> (TransportError, file_transfer) io" where
  "download_into curl version probe destination ctx existing =
     (case (if is_success (pr_status probe) then pr_content_length probe else None) of
        None \<Rightarrow> download_full curl version probe destination ctx None
      | Some total_bytes \<Rightarrow> download_sized curl version probe destination ctx total_bytes existing)"

definition download_probed ::
  "curl \<Rightarrow> str \<Rightarrow> path \<Rightarrow> request_context \<Rightarrow> http_probe \<Rightarrow> (TransportError, file_transfer) io" where
  "download_probed curl version destination ctx probe =
     ibind (read_resume_identity destination) (\<lambda>stored.
     ibind (existing_length destination) (\<lambda>existing.
     ibind (if 0 < existing \<and> (identity_from_probe probe = None \<or> stored \<noteq> identity_from_probe probe)
            then reset_staging destination else ret existing)
       (download_into curl version probe destination ctx)))"

definition download_http_to_path ::
  "curl \<Rightarrow> str \<Rightarrow> str \<Rightarrow> path \<Rightarrow> request_context \<Rightarrow> (TransportError, file_transfer) io" where
  "download_http_to_path curl version url destination ctx =
     ibind (ensure_parent (\<lambda>q. RequestFailed (FileFailed q)) destination) (\<lambda>_.
     ibind (lift (probe_http_resource curl version url ctx)) (download_probed curl version destination ctx))"

end
