(* ===== verification/Segments.thy ===== *)
theory Segments
  imports Download
begin

text \<open>
  \<open>crates/nova-download-core/src/lib.rs\<close>: the segmented download, which fetches the planned ranges into part files
  and merges them.

  The workers are run one after the other: each touches only its own part and marker, and what they share, the
  abort flag, reaches a worker as an answer of its progress callback, so that every state the parallel workers can
  leave is left by some run here. \<open>later\<close> is libcurl for the single-stream download that the segmented one falls back
  on, which makes its own requests. The host's answers outside transfers are \<open>segment_control\<close>. Progress reports are
  dropped.
\<close>

subsection \<open>Artifacts\<close>

definition segment_manifest_path :: "path \<Rightarrow> path" where
  "segment_manifest_path destination = append_suffix destination ''.nova-segments''"

definition range_text :: "byte_range \<Rightarrow> str" where
  "range_text r = nat_to_dec (br_start r) @ 0x2d # nat_to_dec (br_end r)"

definition manifest_payload :: "byte_range list \<Rightarrow> str" where
  "manifest_payload ranges = unlines (lit ''NOVA-SEGMENTS-1'' # nat_to_dec (length ranges) # map range_text ranges)"

definition write_segment_manifest :: "path \<Rightarrow> byte_range list \<Rightarrow> (TransportError, unit) io" where
  "write_segment_manifest destination ranges =
     replace_sidecar (segment_manifest_path destination) (manifest_payload ranges)"

definition parse_range_text :: "str \<Rightarrow> byte_range option" where
  "parse_range_text line =
     Option.bind (split_once 0x2d line) (\<lambda>(start, stop).
     Option.bind (parse_unsigned u64_limit start) (\<lambda>a.
     Option.bind (parse_unsigned u64_limit stop) (\<lambda>b.
     if b < a then None else Some \<lparr>br_start = a, br_end = b\<rparr>)))"

fun parse_ranges :: "nat \<Rightarrow> str list \<Rightarrow> byte_range list option" where
  "parse_ranges 0 lines = Some []"
| "parse_ranges (Suc n) [] = None"
| "parse_ranges (Suc n) (line # lines) =
     Option.bind (parse_range_text line) (\<lambda>r. Option.bind (parse_ranges n lines) (\<lambda>rs. Some (r # rs)))"

definition parse_segment_manifest :: "str \<Rightarrow> byte_range list option" where
  "parse_segment_manifest payload =
     (case str_lines payload of
        magic # count # lines \<Rightarrow>
          if magic \<noteq> lit ''NOVA-SEGMENTS-1'' then None
          else Option.bind (parse_unsigned u64_limit count) (\<lambda>n.
            if n = 0 \<or> MAX_PARALLEL_SEGMENTS < n then None else parse_ranges n lines)
      | _ \<Rightarrow> None)"

definition read_segment_manifest :: "path \<Rightarrow> ('e, byte_range list option) io" where
  "read_segment_manifest destination =
     ibind (read_text (segment_manifest_path destination)) (\<lambda>t. ret (Option.bind t parse_segment_manifest))"

definition remove_segment_manifest :: "path \<Rightarrow> ('e, unit) io" where
  "remove_segment_manifest destination = ignore (fs_remove_file (segment_manifest_path destination))"

text \<open>\<open>{index:04}\<close>.\<close>

definition pad4 :: "str \<Rightarrow> str" where
  "pad4 s = replicate (4 - length s) 0x30 @ s"

definition segment_part_path :: "path \<Rightarrow> nat \<Rightarrow> path" where
  "segment_part_path destination index =
     butlast destination @ [last destination @ lit ''.nova-seg-'' @ pad4 (nat_to_dec index)]"

definition segment_done_path :: "path \<Rightarrow> nat \<Rightarrow> path" where
  "segment_done_path destination index = append_suffix (segment_part_path destination index) ''.done''"

definition segment_merge_path :: "path \<Rightarrow> path" where
  "segment_merge_path destination = append_suffix destination ''.nova-merge''"

definition discard_segment :: "path \<Rightarrow> nat \<Rightarrow> ('e, unit) io" where
  "discard_segment destination index =
     ibind (ignore (fs_remove_file (segment_part_path destination index))) (\<lambda>_.
     ignore (fs_remove_file (segment_done_path destination index)))"

definition cleanup_segment_artifacts :: "path \<Rightarrow> nat \<Rightarrow> ('e, unit) io" where
  "cleanup_segment_artifacts destination segment_count =
     ibind (each (discard_segment destination) [0..<segment_count]) (\<lambda>_.
     ibind (ignore (fs_remove_file (segment_merge_path destination))) (\<lambda>_.
     remove_segment_manifest destination))"

fun any_exists :: "path list \<Rightarrow> ('e, bool) io" where
  "any_exists [] = ret False"
| "any_exists (p # ps) = ibind (path_exists p) (\<lambda>there. if there then ret True else any_exists ps)"

definition segment_artifacts :: "path \<Rightarrow> nat \<Rightarrow> path list" where
  "segment_artifacts destination n =
     concat (map (\<lambda>k. [segment_part_path destination k, segment_done_path destination k]) [0..<n])"

definition segment_artifacts_exist :: "path \<Rightarrow> nat \<Rightarrow> ('e, bool) io" where
  "segment_artifacts_exist destination segment_count = any_exists (segment_artifacts destination segment_count)"

subsection \<open>One segment\<close>

text \<open>\<open>Path::is_file\<close>; and \<open>metadata(..).map(len).unwrap_or(0)\<close>.\<close>

definition path_is_file :: "path \<Rightarrow> ('e, bool) io" where
  "path_is_file p w = (Done (file_data (files w p) \<noteq> None), w)"

definition length_or_zero :: "path \<Rightarrow> ('e, nat) io" where
  "length_or_zero p =
     ibind (attempt (fs_metadata_len p)) (\<lambda>r. ret (case r of Inr (Some n) \<Rightarrow> n | _ \<Rightarrow> 0))"

definition reset_part :: "path \<Rightarrow> (TransportError, unit) io" where
  "reset_part part =
     ibind (path_exists part) (\<lambda>there.
     do_if there (ibind (file_io part (fs_open_truncate part)) (\<lambda>_. file_io part (fs_sync part))))"

definition prepare_segment_part :: "path \<Rightarrow> nat \<Rightarrow> nat \<Rightarrow> (TransportError, nat \<times> bool) io" where
  "prepare_segment_part destination index expected_bytes =
     (let part = segment_part_path destination index in
      ibind (existing_length part) (\<lambda>actual.
      ibind (path_is_file (segment_done_path destination index)) (\<lambda>marked.
      if actual = expected_bytes \<and> marked then ret (actual, True)
      else
        ibind (if expected_bytes \<le> actual then ibind (reset_part part) (\<lambda>_. ret 0) else ret actual) (\<lambda>existing.
        ibind (ignore (fs_remove_file (segment_done_path destination index))) (\<lambda>_.
        ret (existing, False))))))"

definition mark_segment_complete :: "path \<Rightarrow> nat \<Rightarrow> (TransportError, unit) io" where
  "mark_segment_complete destination index =
     write_synced (\<lambda>q. RequestFailed (FileFailed q)) (segment_done_path destination index)
       (lit ''NOVA-SEGMENT-DONE-1'' @ [0x0a])"

text \<open>A worker's result, and whether it has raised the abort flag.\<close>

type_synonym worker_result = "(TransportError, unit) result \<times> bool"

definition check_segment :: "path \<Rightarrow> nat \<Rightarrow> nat \<Rightarrow> ('e, worker_result) io" where
  "check_segment destination index expected =
     ibind (length_or_zero (segment_part_path destination index)) (\<lambda>actual.
     if actual \<noteq> expected then ret (Inl (RequestFailed (WrongLength actual expected)), True)
     else ibind (attempt (mark_segment_complete destination index)) (\<lambda>m. ret (m, False)))"

definition segment_worker ::
  "curl \<Rightarrow> str \<Rightarrow> str \<Rightarrow> path \<Rightarrow> request_context \<Rightarrow> str \<Rightarrow> nat \<times> byte_range \<times> nat \<Rightarrow> ('e, worker_result) io" where
  "segment_worker curl version url destination ctx validator = (\<lambda>(index, range, existing).
     let part = segment_part_path destination index in
     ibind (attempt (open_staging part existing)) (\<lambda>opened.
     case opened of
       Inl e \<Rightarrow> ret (Inl e, False)
     | Inr _ \<Rightarrow>
         ibind (attempt (stream_http_range curl version url (br_start range + existing) (br_end range)
                  (staging_sink part existing) ctx (Some validator))) (\<lambda>streamed.
         ibind (attempt (file_io part (fs_sync part))) (\<lambda>synced.
         case synced of
           Inl e \<Rightarrow> ret (Inl e, True)
         | Inr _ \<Rightarrow>
             (case streamed of
                Inl e \<Rightarrow> ret (Inl e, True)
              | Inr _ \<Rightarrow> check_segment destination index (br_end range - br_start range + 1))))))"

subsection \<open>All segments\<close>

fun prepare_segments ::
  "path \<Rightarrow> (nat \<times> byte_range) list \<Rightarrow> nat \<Rightarrow> (TransportError, (nat \<times> byte_range \<times> nat \<times> bool) list \<times> nat) io" where
  "prepare_segments destination [] resumed_from = ret ([], resumed_from)"
| "prepare_segments destination ((index, rng) # rest) resumed_from =
     ibind (prepare_segment_part destination index (br_end rng - br_start rng + 1)) (\<lambda>(existing, complete).
     ibind (lift (ok_or (RequestFailed CounterOverflow) (checked_add64 resumed_from existing))) (\<lambda>total.
     ibind (prepare_segments destination rest total) (\<lambda>(prepared, resumed).
     ret ((index, rng, existing, complete) # prepared, resumed))))"

fun run_workers :: "('w \<Rightarrow> ('e, worker_result) io) \<Rightarrow> 'w list \<Rightarrow> ('e, worker_result list) io" where
  "run_workers worker [] = ret []"
| "run_workers worker (x # xs) =
     ibind (worker x) (\<lambda>r. ibind (run_workers worker xs) (\<lambda>rs. ret (r # rs)))"

definition incomplete :: "(nat \<times> byte_range \<times> nat \<times> bool) list \<Rightarrow> (nat \<times> byte_range \<times> nat) list" where
  "incomplete prepared = map (\<lambda>(k, r, e, _). (k, r, e)) (filter (\<lambda>(_, _, _, complete). \<not> complete) prepared)"

record segment_control =
  sc_after :: TransferControl
  sc_merge :: "nat \<Rightarrow> TransferControl"

definition continue_or :: "TransferControl \<Rightarrow> (TransportError, 'a) io \<Rightarrow> (TransportError, 'a) io" where
  "continue_or c m = (case c of Pause \<Rightarrow> throw Paused | Cancel \<Rightarrow> throw Cancelled | Continue \<Rightarrow> m)"

fun merge_parts :: "segment_control \<Rightarrow> path \<Rightarrow> nat list \<Rightarrow> nat \<Rightarrow> (TransportError, nat) io" where
  "merge_parts ctl destination [] written = ret written"
| "merge_parts ctl destination (index # rest) written =
     continue_or (sc_merge ctl index)
       (let part = segment_part_path destination index in
        ibind (file_io part (fs_open part)) (\<lambda>_.
        ibind (file_io part (fs_read part)) (\<lambda>data.
        ibind (file_io part (fs_write_all (segment_merge_path destination) written data)) (\<lambda>_.
        merge_parts ctl destination rest (written + length data)))))"

definition merge_segments :: "segment_control \<Rightarrow> path \<Rightarrow> nat \<Rightarrow> nat \<Rightarrow> (TransportError, unit) io" where
  "merge_segments ctl destination count total_bytes =
     (let merge = segment_merge_path destination in
      ibind (file_io merge (fs_open_truncate merge)) (\<lambda>_.
      ibind (merge_parts ctl destination [0..<count] 0) (\<lambda>_.
      ibind (file_io merge (fs_sync merge)) (\<lambda>_.
      ibind (length_or_zero merge) (\<lambda>merged_bytes.
      if merged_bytes \<noteq> total_bytes then throw (RequestFailed (WrongLength merged_bytes total_bytes)) else ret ())))))"

definition drop_segments :: "path \<Rightarrow> ('e, unit) io" where
  "drop_segments destination =
     ibind (cleanup_segment_artifacts destination MAX_PARALLEL_SEGMENTS) (\<lambda>_. remove_resume_identity destination)"

definition commit_merge :: "path \<Rightarrow> file_transfer \<Rightarrow> (TransportError, file_transfer) io" where
  "commit_merge destination transfer =
     ibind (path_exists destination) (\<lambda>there.
     ibind (do_if there (file_io destination (fs_remove_file destination))) (\<lambda>_.
     ibind (file_io destination (fs_rename (segment_merge_path destination) destination)) (\<lambda>_.
     ibind (drop_segments destination) (\<lambda>_. ret transfer))))"

definition merge_and_commit ::
  "segment_control \<Rightarrow> path \<Rightarrow> nat \<Rightarrow> nat \<Rightarrow> file_transfer \<Rightarrow> (TransportError, file_transfer) io" where
  "merge_and_commit ctl destination count total_bytes transfer =
     ibind (attempt (merge_segments ctl destination count total_bytes)) (\<lambda>m.
     case m of
       Inl e \<Rightarrow>
         ibind (ignore (fs_remove_file (segment_merge_path destination))) (\<lambda>_.
         ibind (do_if (e = Cancelled) (drop_segments destination)) (\<lambda>_. throw e))
     | Inr _ \<Rightarrow> commit_merge destination transfer)"

fun first_error :: "worker_result list \<Rightarrow> TransportError option" where
  "first_error [] = None"
| "first_error ((Inl e, _) # rs) = Some e"
| "first_error ((Inr _, _) # rs) = first_error rs"

definition rejected :: "worker_result list \<Rightarrow> bool" where
  "rejected results \<longleftrightarrow> list_ex (\<lambda>(r, _). r = Inl RangeResponseRejected) results"

definition settle_segments ::
  "segment_control \<Rightarrow> path \<Rightarrow> (TransportError, file_transfer) io \<Rightarrow> nat \<Rightarrow> nat \<Rightarrow> file_transfer \<Rightarrow> worker_result list
   \<Rightarrow> (TransportError, file_transfer) io" where
  "settle_segments ctl destination fallback count total_bytes transfer results =
     (case sc_after ctl of
        Pause \<Rightarrow> throw Paused
      | Cancel \<Rightarrow> ibind (drop_segments destination) (\<lambda>_. throw Cancelled)
      | Continue \<Rightarrow>
          if rejected results then
            ibind (drop_segments destination) (\<lambda>_.
            ibind (ignore (fs_remove_file destination)) (\<lambda>_. fallback))
          else
            (case first_error results of
               Some e \<Rightarrow>
                 throw (if e = Cancelled \<and> list_ex snd results then RequestFailed Aborted else e)
             | None \<Rightarrow> merge_and_commit ctl destination count total_bytes transfer))"

text \<open>The sidecars are brought up to date, and artifacts that belong to something else removed.\<close>

definition claim_segments ::
  "path \<Rightarrow> resume_identity \<Rightarrow> byte_range list \<Rightarrow> bool \<Rightarrow> (TransportError, unit) io" where
  "claim_segments destination identity ranges has_segments =
     ibind (read_resume_identity destination) (\<lambda>stored_identity.
     ibind (read_segment_manifest destination) (\<lambda>stored_ranges.
     ibind (do_if (has_segments \<and> \<not> (stored_identity = Some identity \<and> stored_ranges = Some ranges)) (drop_segments destination)) (\<lambda>_.
     ibind (read_resume_identity destination) (\<lambda>i.
     ibind (do_if (i \<noteq> Some identity) (write_resume_identity destination identity)) (\<lambda>_.
     ibind (read_segment_manifest destination) (\<lambda>m.
     do_if (m \<noteq> Some ranges) (write_segment_manifest destination ranges)))))))"

definition fetch_segments ::
  "curl \<Rightarrow> str \<Rightarrow> path \<Rightarrow> request_context \<Rightarrow> segment_control \<Rightarrow> (TransportError, file_transfer) io \<Rightarrow> http_probe
   \<Rightarrow> resume_identity \<Rightarrow> byte_range list \<Rightarrow> (TransportError, file_transfer) io" where
  "fetch_segments curl version destination ctx ctl fallback probe identity ranges =
     ibind (prepare_segments destination (enumerate 0 ranges) 0) (\<lambda>(prepared, resumed_from).
     ibind (run_workers (segment_worker curl version (pr_effective_url probe) destination ctx (ri_validator identity))
              (incomplete prepared)) (\<lambda>results.
     settle_segments ctl destination fallback (length ranges) (ri_length identity)
       \<lparr>tr_status = 206, tr_final_bytes = ri_length identity, tr_total_bytes = Some (ri_length identity),
        tr_resumed_from = resumed_from, tr_url = pr_effective_url probe\<rparr> results))"

definition download_segments ::
  "curl \<Rightarrow> str \<Rightarrow> path \<Rightarrow> request_context \<Rightarrow> segment_control \<Rightarrow> (TransportError, file_transfer) io \<Rightarrow> http_probe
   \<Rightarrow> resume_identity \<Rightarrow> byte_range list \<Rightarrow> (TransportError, file_transfer) io" where
  "download_segments curl version destination ctx ctl fallback probe identity ranges =
     ibind (length_or_zero destination) (\<lambda>existing_destination.
     ibind (segment_artifacts_exist destination MAX_PARALLEL_SEGMENTS) (\<lambda>has_segments.
     if 0 < existing_destination \<and> \<not> has_segments then fallback
     else
       ibind (claim_segments destination identity ranges has_segments) (\<lambda>_.
       fetch_segments curl version destination ctx ctl fallback probe identity ranges)))"

definition download_http_to_path_segmented ::
  "curl \<Rightarrow> curl \<Rightarrow> str \<Rightarrow> str \<Rightarrow> path \<Rightarrow> nat \<Rightarrow> request_context \<Rightarrow> segment_control \<Rightarrow> (TransportError, file_transfer) io" where
  "download_http_to_path_segmented curl later version url destination requested_connections ctx ctl =
     (let fallback = download_http_to_path later version url destination ctx in
      ibind (ensure_parent (\<lambda>q. RequestFailed (FileFailed q)) destination) (\<lambda>_.
      ibind (lift (probe_http_resource curl version url ctx)) (\<lambda>probe.
      case identity_from_probe probe of
        None \<Rightarrow> fallback
      | Some identity \<Rightarrow>
          let ranges = plan_transfer_ranges (ri_length identity) requested_connections in
          if length ranges \<le> 1 then fallback
          else download_segments curl version destination ctx ctl fallback probe identity ranges)))"

definition discard_http_resume_artifacts :: "path \<Rightarrow> ('e, unit) io" where
  "discard_http_resume_artifacts destination =
     ibind (remove_resume_identity destination) (\<lambda>_.
     cleanup_segment_artifacts destination MAX_PARALLEL_SEGMENTS)"

definition discard_http_download_artifacts :: "path \<Rightarrow> ('e, unit) io" where
  "discard_http_download_artifacts destination =
     ibind (ignore (fs_remove_file destination)) (\<lambda>_. discard_http_resume_artifacts destination)"

end
