(* ===== verification/Download_Safety.thy ===== *)
theory Download_Safety
  imports Download
begin

text \<open>
  A resumed download never mixes two representations: the link between the identity sidecar and the
  bytes staged in the destination, what every step of a download does to it, and what a finished download
  has written, over any number of sessions that may each stop anywhere.
\<close>

subsection \<open>The origin\<close>

text \<open>
  \<open>rep v\<close> is the representation with the validator \<open>v\<close>. An origin is faithful when it serves a range that is
  conditional on \<open>v\<close> only with bytes of \<open>rep v\<close> (RFC 9110, section 13.1.5), and when a probe that gives a
  validator gives the length of its representation.
\<close>

definition line_name :: "str \<Rightarrow> str" where
  "line_name l = map to_ascii_lowercase (takeWhile (\<lambda>b. b \<noteq> 0x3a) l)"

definition conditional_on :: "str \<Rightarrow> curl_request \<Rightarrow> bool" where
  "conditional_on v rq \<longleftrightarrow>
     filter (\<lambda>l. owned_line l \<and> line_name l = lit ''if-range'') (rq_headers rq) = [header_line (lit ''If-Range'') v]"

definition faithful :: "(str \<Rightarrow> u8 list) \<Rightarrow> curl \<Rightarrow> bool" where
  "faithful rep curl \<longleftrightarrow>
     (\<forall>rq run start stop v. curl rq = Some run \<and> rq_method rq = Get \<and> rq_range rq = Some (start, stop) \<and> conditional_on v rq \<longrightarrow>
        prefix (range_body start stop (cr_calls run) range_start) (bslice (rep v) start (stop + 1)))
     \<and> (\<forall>version url ctx p i. probe_http_resource curl version url ctx = Inr p \<and> identity_from_probe p = Some i \<longrightarrow>
          length (rep (ri_validator i)) = ri_length i)"

lemma takeWhile_name: "c \<notin> set k \<Longrightarrow> takeWhile (\<lambda>b. b \<noteq> c) (k @ c # r) = k"
  by (induction k) auto

lemma request_conditional:
  assumes "request_run curl version Get url (Some (start, stop)) ctx (if_range_header (Some v)) = Inr run"
  obtains rq where "curl rq = Some run" "rq_method rq = Get" "rq_range rq = Some (start, stop)" "conditional_on v rq"
proof -
  obtain agent lines where a: "apply_request_context version ctx (if_range_header (Some v)) = Inr (agent, lines)"
    and c: "curl \<lparr>rq_method = Get, rq_url = url, rq_range = Some (start, stop), rq_agent = agent, rq_headers = lines\<rparr> = Some run"
    using assms(1) by (auto simp: request_run_def rbind_def ok_or_def split: sum.splits option.splits)
  have tw: "line_name (header_line (lit n) x) = map to_ascii_lowercase (lit n)" if "0x3a \<notin> set (lit n)" for n x
    using that takeWhile_name [OF that] by (simp add: line_name_def header_line_def) (simp add: lit_def)
  have names: "line_name (header_line (lit ''Referer'') x) \<noteq> lit ''if-range''"
    "line_name (header_line (lit ''Cookie'') x) \<noteq> lit ''if-range''"
    "line_name (header_line (lit ''If-Range'') x) = lit ''if-range''" for x
    by (subst tw; simp add: lit_def to_ascii_lowercase_def is_ascii_upper_def)+
  have "filter (\<lambda>l. owned_line l \<and> line_name l = lit ''if-range'') lines =
      filter (\<lambda>l. line_name l = lit ''if-range'') (filter owned_line lines)"
    by (simp add: conj_commute)
  also have "\<dots> = [header_line (lit ''If-Range'') v]"
    using owned_lines [OF a] names by (auto simp: if_range_header_def split: option.splits)
  finally show ?thesis using that [OF c] by (simp add: conditional_on_def)
qed

subsection \<open>The staged prefix\<close>

text \<open>
  \<open>identity_at f d\<close> is what the sidecar of the destination \<open>d\<close> says. The destination is \<open>staged\<close> when a sidecar that
  can be read names a representation that the staged bytes are a beginning of.
\<close>

definition identity_at :: "fs \<Rightarrow> path \<Rightarrow> resume_identity option" where
  "identity_at f d = Option.bind (Option.bind (file_data (f (resume_identity_path d))) from_utf8) parse_identity"

definition staged :: "(str \<Rightarrow> u8 list) \<Rightarrow> path \<Rightarrow> fs \<Rightarrow> bool" where
  "staged rep d f \<longleftrightarrow>
     (\<forall>i b. identity_at f d = Some i \<and> file_data (f d) = Some b \<longrightarrow> prefix b (rep (ri_validator i)))"

lemma staged_no_identity [simp]: "identity_at f d = None \<Longrightarrow> staged rep d f"
  by (simp add: staged_def)

lemma staged_empty [simp]: "file_data (f d) = None \<or> file_data (f d) = Some [] \<Longrightarrow> staged rep d f"
  by (auto simp: staged_def)

lemma sidecar_distinct [simp]:
  assumes "d \<noteq> []"
  shows "resume_identity_path d \<noteq> d" "d \<noteq> resume_identity_path d" "resume_identity_path d \<noteq> []"
    "tmp_of (resume_identity_path d) \<noteq> d" "d \<noteq> tmp_of (resume_identity_path d)"
proof -
  obtain q x where "d = q @ [x]" using assms by (cases d rule: rev_cases) auto
  then show "resume_identity_path d \<noteq> d" "d \<noteq> resume_identity_path d" "resume_identity_path d \<noteq> []"
    "tmp_of (resume_identity_path d) \<noteq> d" "d \<noteq> tmp_of (resume_identity_path d)"
    by (auto simp: resume_identity_path_def append_suffix_def)
qed

lemma identity_at_other [simp]: "q \<noteq> resume_identity_path d \<Longrightarrow> identity_at (f(q := x)) d = identity_at f d"
  by (simp add: identity_at_def)

lemma identity_at_removed [simp]: "identity_at (f(resume_identity_path d := None)) d = None"
  by (simp add: identity_at_def)

text \<open>What a sidecar that was written says.\<close>

lemma str_lines_blank: "str_lines (0x0a # s) = [] # str_lines s"
  by (simp add: str_lines_def strip_cr_def Let_def)

lemma plain_number: "plain_line (nat_to_dec n)"
proof -
  have "\<forall>b \<in> set (nat_to_dec n). is_ascii_digit b" using nat_to_dec_digits [of n] by (simp add: list_all_iff)
  moreover have "nat_to_dec n \<noteq> []" by (subst nat_to_dec.simps) simp
  moreover have "\<not> is_ascii_digit 0x0a" "\<not> is_ascii_digit 0x0d" by (simp_all add: is_ascii_digit_def)
  ultimately show ?thesis using last_in_set [of "nat_to_dec n"] unfolding plain_line_def by metis
qed

lemma payload_lines:
  assumes "ri_kind i = lit ''etag'' \<or> ri_kind i = lit ''last-modified''" "0x0d \<notin> set (ri_validator i)" "0x0a \<notin> set (ri_validator i)"
  shows "str_lines (identity_payload i) = [lit ''NOVA-IDENTITY-1'', nat_to_dec (ri_length i), ri_kind i, ri_validator i]"
proof -
  have "plain_line (lit ''NOVA-IDENTITY-1'')" "plain_line (ri_kind i)" using assms(1) by (auto simp: plain_line_def lit_def)
  moreover have "str_lines (ri_validator i @ [0x0a]) = [ri_validator i]"
  proof (cases "ri_validator i = []")
    case False
    then have "plain_line (ri_validator i)" using assms(2,3) last_in_set [OF False] unfolding plain_line_def by metis
    then show ?thesis by (simp add: str_lines_line)
  qed (simp add: str_lines_blank)
  ultimately show ?thesis by (simp add: identity_payload_def str_lines_line plain_number)
qed

definition sound_identity :: "resume_identity \<Rightarrow> bool" where
  "sound_identity i \<longleftrightarrow> (ri_kind i = lit ''etag'' \<or> ri_kind i = lit ''last-modified'')
     \<and> 0x0d \<notin> set (ri_validator i) \<and> 0x0a \<notin> set (ri_validator i)"

lemma probe_identity_sound: "identity_from_probe p = Some i \<Longrightarrow> sound_identity i \<and> pr_content_length p = Some (ri_length i)"
  by (auto simp: identity_from_probe_def sound_identity_def bind_eq_Some_conv split: option.splits if_splits)

lemma parse_payload_validator:
  "sound_identity i \<Longrightarrow> parse_identity (identity_payload i) = Some j \<Longrightarrow> ri_validator j = ri_validator i"
  using payload_lines [of i] by (auto simp: sound_identity_def parse_identity_def bind_eq_Some_conv split: if_splits)

text \<open>A sidecar gives back the identity it was written for.\<close>

lemma identity_roundtrip:
  assumes "sound_identity i" "ri_validator i \<noteq> []" "ri_length i < 2 ^ 64"
  shows "parse_identity (identity_payload i) = Some i"
  using payload_lines [of i] assms
  by (cases i) (auto simp: sound_identity_def parse_identity_def u64_limit_def parse_unsigned_nat_to_dec)

subsection \<open>What each step leaves\<close>

text \<open>
  Runs with any set \<open>A\<close> of events; \<open>kept\<close> says that the destination is staged, provided no call is refused by a fault of
  the system: the removal of a sidecar may then be relied on.
\<close>

definition kept :: "(io_event \<Rightarrow> bool) \<Rightarrow> (str \<Rightarrow> u8 list) \<Rightarrow> path \<Rightarrow> fs \<Rightarrow> bool" where
  "kept A rep d f \<longleftrightarrow> (\<forall>n. \<not> A (Fail n)) \<longrightarrow> staged rep d f"

lemma keptI [simp]: "staged rep d f \<Longrightarrow> kept A rep d f"
  by (simp add: kept_def)

definition unread :: "path \<Rightarrow> fs \<Rightarrow> fs \<Rightarrow> bool" where
  "unread d f g \<longleftrightarrow> g d = f d \<and> g (resume_identity_path d) = f (resume_identity_path d)"

lemma unread_refl [simp]: "unread d f f"
  by (simp add: unread_def)

lemma unread_trans: "unread d f g \<Longrightarrow> unread d g h \<Longrightarrow> unread d f h"
  by (simp add: unread_def)

lemma unread_staged: "unread d f g \<Longrightarrow> staged rep d g \<longleftrightarrow> staged rep d f"
  by (simp add: unread_def staged_def identity_at_def)

lemma runs_on_each:
  assumes "\<And>x f. x \<in> set xs \<Longrightarrow> R f0 f \<Longrightarrow> runs_on A (m x) f (\<lambda>_. R f0) (\<lambda>_. R f0) (R f0)" "R f0 f"
  shows "runs_on A (each m xs) f (\<lambda>_. R f0) (\<lambda>_. R f0) (R f0)"
  using assms
proof (induction xs arbitrary: f)
  case (Cons x xs)
  have "runs_on A (m x) f (\<lambda>_. R f0) (\<lambda>_. R f0) (R f0)" using Cons.prems by simp
  then show ?case using Cons.IH Cons.prems(1) by (auto intro!: runs_on_ibind elim!: runs_on_mono)
qed simp

lemma on_ensure_parent:
  assumes "d \<noteq> []"
  shows "runs_on A (ensure_parent io d) f (\<lambda>_. unread d f) (\<lambda>_. unread d f) (unread d f)"
proof -
  have len: "length (resume_identity_path d) = length d" using assms by (simp add: resume_identity_path_def)
  have "runs_on A (ibind (path_exists q) (\<lambda>e. do_if (\<not> e) (fs_create_dir q))) g (\<lambda>_. unread d f) (\<lambda>_. unread d f) (unread d f)"
    if "length q < length d" "unread d f g" for q g
  proof -
    have "q \<noteq> d" "q \<noteq> resume_identity_path d" using that(1) len by auto
    then show ?thesis using that(2) by (intro runs_on_ibind) (auto simp: fs_create_dir_def unread_def)
  qed
  then have "runs_on A (fs_create_dir_all (butlast d)) f (\<lambda>_. unread d f) (\<lambda>_. unread d f) (unread d f)"
    unfolding fs_create_dir_all_def using assms by (intro runs_on_each [where R = "unread d"]) auto
  then show ?thesis unfolding ensure_parent_def by (auto intro!: runs_on_rethrow)
qed

lemma on_read_identity:
  "runs_on A (read_resume_identity d) f (\<lambda>x g. g = f \<and> (x = None \<or> x = identity_at f d)) (\<lambda>_ _. False) (\<lambda>g. g = f)"
  unfolding read_resume_identity_def read_text_def identity_at_def
  by (intro on_intros) (auto simp: fs_read_def split: option.splits)

lemma on_existing_length:
  "runs_on A (existing_length d) f
     (\<lambda>n g. g = f \<and> (f d = None \<and> n = 0 \<or> (\<exists>b. f d = Some (File b) \<and> n = length b))) (\<lambda>_ g. g = f) (\<lambda>g. g = f)"
proof -
  have "f d = Some (File b)" if "file_data (f d) = Some b" for b using that by (cases "f d" rule: file_data.cases) auto
  then show ?thesis
    unfolding existing_length_def by (intro on_intros) (auto simp: fs_metadata_len_def split: option.splits)
qed

lemma on_truncate:
  "runs_on A (fs_open_truncate d) f (\<lambda>_ g. g = f(d := Some (File []))) (\<lambda>_ g. g = f) (\<lambda>g. g = f)"
  by (auto simp: fs_open_truncate_def)

lemma on_sync: "runs_on A (fs_sync d) f (\<lambda>_ g. g = f) (\<lambda>_ g. g = f) (\<lambda>g. g = f)"
  by (simp add: fs_sync_def)

lemma on_remove:
  "runs_on A (remove_resume_identity d) f
     (\<lambda>_ g. (g = f \<or> g = f(resume_identity_path d := None)) \<and> ((\<forall>n. \<not> A (Fail n)) \<longrightarrow> identity_at g d = None))
     (\<lambda>_ _. False) (\<lambda>g. g = f)"
  unfolding remove_resume_identity_def
  by (intro on_intros) (auto simp: fs_remove_file_def identity_at_def split: option.splits node.splits)

lemma on_reset:
  assumes "staged rep d f" "d \<noteq> []"
  shows "runs_on A (reset_staging d) f (\<lambda>n g. n = 0 \<and> g d = Some (File []) \<and> staged rep d g)
    (\<lambda>_. staged rep d) (staged rep d)"
  unfolding reset_staging_def
  by (intro on_intros runs_on_mono [OF on_truncate] runs_on_mono [OF on_sync] runs_on_mono [OF on_remove])
    (use assms in auto)

lemma on_write_synced:
  assumes "tmp \<noteq> d"
  shows "runs_on A (write_synced io tmp payload) f (\<lambda>_ g. g d = f d \<and> g tmp = Some (File payload))
    (\<lambda>_ g. g d = f d) (\<lambda>g. g d = f d)"
proof -
  have *: "write_at tmp 0 x (f(tmp := Some (File []))) tmp = Some (File x)" for x by (rule write_at_fresh) simp
  show ?thesis
    unfolding write_synced_def
    by (intro on_intros runs_on_mono [OF on_truncate]) (use assms in \<open>auto simp: fs_write_all_def fs_sync_def * intro!: on_intros\<close>)
qed

lemma on_write_identity:
  assumes "d \<noteq> []" "sound_identity i"
  shows "runs_on A (write_resume_identity d i) f
    (\<lambda>_ g. g d = f d \<and> (\<forall>j. identity_at g d = Some j \<longrightarrow> ri_validator j = ri_validator i))
    (\<lambda>_ g. g d = f d) (\<lambda>g. g d = f d)"
proof -
  let ?p = "resume_identity_path d"
  have ne: "?p \<noteq> d" "d \<noteq> ?p" "tmp_of ?p \<noteq> d" "d \<noteq> tmp_of ?p" "tmp_of ?p \<noteq> ?p" "?p \<noteq> tmp_of ?p" using assms(1) by simp_all
  have removed: "runs_on A (do_if there (file_io ?p (fs_remove_file ?p))) g (\<lambda>_ h. h d = g d \<and> h (tmp_of ?p) = g (tmp_of ?p))
      (\<lambda>_ h. h d = g d) (\<lambda>h. h d = g d)" for g there
    using ne by (auto simp: fs_remove_file_def intro!: on_intros split: option.splits node.splits)
  have renamed: "runs_on A (fs_rename (tmp_of ?p) ?p) g
      (\<lambda>_ h. h d = g d \<and> h ?p = g (tmp_of ?p)) (\<lambda>_ h. h d = g d) (\<lambda>h. h d = g d)" if "g (tmp_of ?p) = Some (File x)" for g x
    using ne that by (auto simp: fs_rename_def)
  have said: "ri_validator j = ri_validator i" if "g ?p = Some (File (identity_payload i))" "identity_at g d = Some j" for g j
    using that parse_payload_validator [OF assms(2)] by (auto simp: identity_at_def bind_eq_Some_conv from_utf8_Some_iff)
  show ?thesis
    unfolding write_resume_identity_def replace_sidecar_def Let_def
    by (intro on_intros runs_on_mono [OF on_write_synced [OF ne(3)]])
      (auto intro!: on_intros runs_on_mono [OF removed] runs_on_mono [OF renamed] dest: said)
qed

lemma on_open_staging:
  assumes "existing = 0 \<or> f d = Some (File old)"
  shows "runs_on A (open_staging d existing) f
    (\<lambda>_ g. g = f(d := Some (File (if existing = 0 then [] else old)))) (\<lambda>_ g. g = f) (\<lambda>g. g = f)"
  unfolding open_staging_def using assms
  by (auto intro!: on_intros runs_on_mono [OF on_truncate] simp: fs_open_append_def fun_upd_idem)

subsection \<open>Streams into the destination\<close>

lemma overwrite_end [simp]: "overwrite b (length b) d = b @ d"
  by (simp add: overwrite_def)

lemma write_at_end [simp]:
  "write_at d (length got) x (base(d := Some (File got))) = base(d := Some (File (got @ x)))"
  by (simp add: write_at_def)

interpretation fresh: stream_sink A "staging_sink d 0" "\<lambda>got g. g = base(d := Some (File got))"
  for A d base
  by unfold_locales (auto simp: staging_sink_def fs_write_all_def)

interpretation resumed: stream_sink A "staging_sink d (Suc n)" "\<lambda>got g. g = base(d := Some (File (old @ got)))"
  for A d n base old
  by unfold_locales (auto simp: staging_sink_def fs_append_def append_at_def)

lemma range_staged:
  assumes "f d = Some (File old)"
    and served: "\<And>run. request_run curl version Get url (Some (start, stop)) ctx (if_range_header v) = Inr run \<Longrightarrow>
      prefix (range_body start stop (cr_calls run) range_start) body"
  shows "runs_on A (stream_http_range curl version url start stop (staging_sink d (length old)) ctx v) f
    (\<lambda>r g. rg_bytes r = stop - start + 1 \<and> start \<le> stop
       \<and> (\<exists>got. g = f(d := Some (File (old @ got))) \<and> prefix got body \<and> length got = stop - start + 1))
    (\<lambda>_ g. \<exists>got. g = f(d := Some (File (old @ got))) \<and> prefix got body)
    (\<lambda>g. \<exists>got. g = f(d := Some (File (old @ got))) \<and> prefix got body)"
proof (cases old)
  case Nil
  have base: "f = f(d := Some (File []))" using assms(1) Nil by (simp add: fun_upd_idem)
  show ?thesis
    using fresh.range_stream [where base = f and d = d and A = A, OF base served] Nil by simp
next
  case (Cons x xs)
  have base: "f = f(d := Some (File (old @ [])))" using assms(1) by (simp add: fun_upd_idem)
  show ?thesis
    using resumed.range_stream [where base = f and d = d and A = A and old = old and n = "length xs", OF base served] Cons by simp
qed

lemma range_into:
  assumes "faithful rep curl"
    and old: "f d = Some (File old)" "prefix old (rep v)" "length old < length (rep v)"
  shows "runs_on A (stream_http_range curl version url (length old) (length (rep v) - 1) (staging_sink d (length old)) ctx (Some v)) f
    (\<lambda>r g. g = f(d := Some (File (rep v))) \<and> length old + rg_bytes r = length (rep v))
    (\<lambda>_ g. \<exists>b. g = f(d := Some (File b)) \<and> prefix b (rep v)) (\<lambda>g. \<exists>b. g = f(d := Some (File b)) \<and> prefix b (rep v))"
proof -
  let ?rest = "drop (length old) (rep v)"
  have r: "rep v = old @ ?rest" using old(2) by (metis append_eq_conv_conj prefix_def)
  have served: "prefix (range_body (length old) (length (rep v) - 1) (cr_calls run) range_start) ?rest"
    if req: "request_run curl version Get url (Some (length old, length (rep v) - 1)) ctx (if_range_header (Some v)) = Inr run" for run
  proof -
    obtain rq where rq: "curl rq = Some run" "rq_method rq = Get" "rq_range rq = Some (length old, length (rep v) - 1)" "conditional_on v rq"
      using request_conditional [OF req] .
    then have "prefix (range_body (length old) (length (rep v) - 1) (cr_calls run) range_start)
        (bslice (rep v) (length old) (length (rep v) - 1 + 1))"
      using assms(1) unfolding faithful_def by blast
    then show ?thesis using old(3) by (simp add: bslice_def)
  qed
  have whole: "got = ?rest" if g: "prefix got ?rest" "length got = length (rep v) - 1 - length old + 1" for got
  proof -
    obtain zs where z: "?rest = got @ zs" using g(1) by (auto simp: prefix_def)
    have "length ?rest = length got" using g(2) old(3) by simp
    with z show ?thesis by simp
  qed
  have all: "old @ got = rep v" if "prefix got ?rest" "length got = length (rep v) - 1 - length old + 1" for got
    using whole [OF that] r by simp
  have part: "prefix (old @ got) (rep v)" if "prefix got ?rest" for got
    using that r by (metis same_prefix_prefix)
  show ?thesis
    by (rule runs_on_mono [OF range_staged [where body = ?rest and f = f and d = d and v = "Some v"
      and start = "length old" and stop = "length (rep v) - 1", OF old(1) served]])
      (use all part old(3) in \<open>auto simp: fun_upd_idem_iff\<close>)
qed

subsection \<open>Downloads\<close>

text \<open>
  What a finished download has put into the destination: the whole representation its probe named, or the whole body of a
  successful response.
\<close>

definition delivered :: "(str \<Rightarrow> u8 list) \<Rightarrow> curl \<Rightarrow> str \<Rightarrow> request_context \<Rightarrow> http_probe \<Rightarrow> u8 list \<Rightarrow> bool" where
  "delivered rep curl version ctx p b \<longleftrightarrow>
     (\<exists>i. identity_from_probe p = Some i \<and> b = rep (ri_validator i))
     \<or> (\<exists>run. request_run curl version Get (pr_effective_url p) None ctx [] = Inr run \<and> b = full_body (cr_calls run) full_start)"

definition finished :: "(str \<Rightarrow> u8 list) \<Rightarrow> curl \<Rightarrow> str \<Rightarrow> request_context \<Rightarrow> http_probe \<Rightarrow> path \<Rightarrow> file_transfer \<Rightarrow> fs \<Rightarrow> bool" where
  "finished rep curl version ctx p d r g \<longleftrightarrow>
     (\<exists>b. g d = Some (File b) \<and> length b = tr_final_bytes r \<and> delivered rep curl version ctx p b)"

abbreviation completes ::
  "(io_event \<Rightarrow> bool) \<Rightarrow> (TransportError, file_transfer) io \<Rightarrow> fs \<Rightarrow> (str \<Rightarrow> u8 list) \<Rightarrow> curl \<Rightarrow> str \<Rightarrow> request_context \<Rightarrow> http_probe \<Rightarrow> path \<Rightarrow> bool"
  where "completes A m f rep curl version ctx p d \<equiv>
     runs_on A m f (\<lambda>r g. finished rep curl version ctx p d r g \<and> kept A rep d g) (\<lambda>_. kept A rep d) (kept A rep d)"

lemma on_full:
  assumes "d \<noteq> []" "kept A rep d f"
  shows "completes A (download_full curl version p d ctx u) f rep curl version ctx p d"
proof -
  define I where "I g \<longleftrightarrow> (\<forall>n. \<not> A (Fail n)) \<longrightarrow> identity_at g d = None" for g
  have I: "kept A rep d g" if "I g" for g using that by (simp add: kept_def I_def)
  have removed: "runs_on A (remove_resume_identity d) f (\<lambda>_. I) (\<lambda>_ _. False) (kept A rep d)"
    by (rule runs_on_mono [OF on_remove]) (use assms(2) in \<open>auto simp: I_def\<close>)
  have emptied: "runs_on A (fs_open_truncate d) g (\<lambda>_ h. I h \<and> h d = Some (File [])) (\<lambda>_. I) I" if "I g" for g
    by (rule runs_on_mono [OF on_truncate]) (use that assms(1) in \<open>auto simp: I_def\<close>)
  have stream: "runs_on A (stream_http_full curl version url (staging_sink d 0) ctx) g
      (\<lambda>(status, n, eff) h. I h \<and> (\<exists>run got. request_run curl version Get url None ctx [] = Inr run \<and> h d = Some (File got)
         \<and> got = full_body (cr_calls run) full_start \<and> n = length got))
      (\<lambda>_. I) I" if "I g" "g d = Some (File [])" for g url
    by (rule runs_on_mono [OF fresh.full_stream [where base = g and A = A and d = d]])
      (use that assms(1) in \<open>auto simp: I_def fun_upd_idem_iff\<close>)
  show ?thesis
    unfolding download_full_def
    by (intro on_intros runs_on_mono [OF removed])
      (auto intro!: on_intros runs_on_mono [OF emptied] runs_on_mono [OF stream] runs_on_mono [OF on_sync] intro: I
         simp: finished_def delivered_def)
qed

text \<open>When a ranged download may go on from what is staged.\<close>

definition resumable :: "(str \<Rightarrow> u8 list) \<Rightarrow> path \<Rightarrow> resume_identity \<Rightarrow> nat \<Rightarrow> fs \<Rightarrow> bool" where
  "resumable rep d i existing f \<longleftrightarrow>
     (if existing = 0 then f d = None \<or> f d = Some (File [])
      else identity_at f d = Some i \<and> (\<exists>old. f d = Some (File old) \<and> length old = existing \<and> prefix old (rep (ri_validator i))))"

lemma resumable_staged: "resumable rep d i existing f \<Longrightarrow> staged rep d f"
  by (auto simp: resumable_def staged_def split: if_splits)

lemma on_finish_range:
  assumes "d \<noteq> []" "f d = Some (File b)" "staged rep d f" "delivered rep curl version ctx p b" "length b = n" "existing + rg_bytes r = n"
  shows "completes A (finish_range d existing n r) f rep curl version ctx p d"
  unfolding finish_range_def
  by (intro on_intros runs_on_mono [OF on_sync])
    (use assms in \<open>auto simp: finished_def checked_add64_def intro!: on_intros runs_on_mono [OF on_remove]\<close>)

lemma on_range:
  assumes faithful: "faithful rep curl" and d: "d \<noteq> []" and i: "identity_from_probe p = Some i" "length (rep (ri_validator i)) = ri_length i"
    and ready: "resumable rep d i existing f" "existing < ri_length i"
  shows "completes A (download_range curl version p d ctx i (ri_length i) existing) f rep curl version ctx p d"
proof -
  let ?v = "ri_validator i"
  define old where "old = (if existing = 0 then [] else the (file_data (f d)))"
  have old: "length old = existing" "prefix old (rep ?v)" "existing = 0 \<or> f d = Some (File old)"
    using ready(1) by (auto simp: old_def resumable_def split: if_splits)
  define V where "V g \<longleftrightarrow> (\<forall>j. identity_at g d = Some j \<longrightarrow> ri_validator j = ?v)" for g
  have V: "kept A rep d g" if "V g" "g d = Some (File b)" "prefix b (rep ?v)" for g b
    using that by (auto simp: V_def staged_def)
  have sound: "sound_identity i" using probe_identity_sound [OF i(1)] by simp
  have empty: "kept A rep d g" if "g d = f d" "existing = 0" for g
    using that ready(1) by (intro keptI staged_empty) (auto simp: resumable_def)
  have written: "runs_on A (do_if (existing = 0) (write_resume_identity d i)) f (\<lambda>_ g. g d = f d \<and> V g) (\<lambda>_. kept A rep d) (kept A rep d)"
  proof (cases "existing = 0")
    case True
    then show ?thesis
      using runs_on_mono [OF on_write_identity [OF d sound, where f = f and A = A]] empty by (simp add: V_def)
  next
    case False
    then show ?thesis using ready(1) by (auto simp: resumable_def V_def)
  qed
  have kept: "kept A rep d g" if "V g" "g d = f d" for g
  proof (cases "existing = 0")
    case False
    then show ?thesis using V [OF that(1), of old] that old by auto
  qed (use that empty in auto)
  have opened: "runs_on A (open_staging d existing) g (\<lambda>_ h. V h \<and> h d = Some (File old)) (\<lambda>_. kept A rep d) (kept A rep d)"
    if "g d = f d" "V g" for g
    by (rule runs_on_mono [OF on_open_staging [of existing g d old]])
      (use that old kept d in \<open>auto simp: V_def\<close>)
  have delivered: "delivered rep curl version ctx p (rep ?v)" using i(1) by (auto simp: delivered_def)
  have finish: "completes A (finish_range d existing (ri_length i) r) g rep curl version ctx p d"
    if "V g" "g d = Some (File (rep ?v))" "existing + rg_bytes r = ri_length i" for g r
    using that delivered i(2) by (intro on_finish_range [where b = "rep ?v"] d) (auto simp: V_def staged_def)
  have full: "completes A (ibind (remove_resume_identity d) (\<lambda>_. download_full curl version p d ctx u)) g rep curl version ctx p d"
    if "kept A rep d g" for g u
    by (intro on_intros runs_on_mono [OF on_remove]) (use that on_full [OF d] in \<open>auto simp: kept_def\<close>)
  have failed: "runs_on A (ibind (ignore (fs_sync d)) (\<lambda>_. throw e)) g Q (\<lambda>_. kept A rep d) (kept A rep d)"
    if "kept A rep d g" for g e and Q :: "file_transfer \<Rightarrow> fs \<Rightarrow> bool"
    by (intro on_intros runs_on_mono [OF on_sync]) (use that in auto)
  have after: "completes A (case r of Inr rng \<Rightarrow> finish_range d existing (ri_length i) rng
       | Inl RangeResponseRejected \<Rightarrow> ibind (remove_resume_identity d) (\<lambda>_. download_full curl version p d ctx (Some (ri_length i)))
       | Inl e \<Rightarrow> ibind (ignore (fs_sync d)) (\<lambda>_. throw e)) h rep curl version ctx p d"
    if "V h" "case r of Inl _ \<Rightarrow> \<exists>b. h d = Some (File b) \<and> prefix b (rep ?v)
       | Inr rng \<Rightarrow> h d = Some (File (rep ?v)) \<and> existing + rg_bytes rng = ri_length i" for r h
  proof (cases r)
    case (Inl e)
    then have "kept A rep d h" using that V by auto
    with Inl show ?thesis using full failed by (cases e) auto
  next
    case (Inr rng)
    with that show ?thesis using finish by simp
  qed
  have streamed: "runs_on A (attempt (stream_http_range curl version (pr_effective_url p) existing (ri_length i - 1)
        (staging_sink d existing) ctx (Some ?v))) g
      (\<lambda>r h. V h \<and> (case r of Inl _ \<Rightarrow> \<exists>b. h d = Some (File b) \<and> prefix b (rep ?v)
         | Inr rng \<Rightarrow> h d = Some (File (rep ?v)) \<and> existing + rg_bytes rng = ri_length i))
      (\<lambda>_ _. False) (kept A rep d)" if "V g" "g d = Some (File old)" for g
  proof (rule runs_on_attempt, rule runs_on_mono [OF range_into [OF faithful, where f = g and d = d and old = old and v = ?v, unfolded old(1) i(2)]])
    show "g d = Some (File old)" "prefix old (rep ?v)" "existing < ri_length i" using that(2) old(2) ready(2) by simp_all
  next
    show "kept A rep d h" if "\<exists>b. h = g(d := Some (File b)) \<and> prefix b (rep ?v)" for h
      using that \<open>V g\<close> d by (auto simp: V_def staged_def intro!: keptI)
  qed (use that(1) d in \<open>auto simp: V_def\<close>)
  show ?thesis
    unfolding download_range_def
  proof (rule runs_on_ibind, rule runs_on_mono [OF written], elim conjE, rule runs_on_ibind, rule runs_on_mono [OF opened],
      assumption, assumption, elim conjE, rule runs_on_ibind, rule runs_on_mono [OF streamed], assumption, assumption)
  qed (erule conjE, erule (1) after, erule FalseE, assumption+)
qed

definition fits :: "(str \<Rightarrow> u8 list) \<Rightarrow> path \<Rightarrow> http_probe \<Rightarrow> nat \<Rightarrow> fs \<Rightarrow> bool" where
  "fits rep d p n f \<longleftrightarrow>
     (case identity_from_probe p of
        None \<Rightarrow> n = 0 \<and> (f d = None \<or> f d = Some (File []))
      | Some i \<Rightarrow> resumable rep d i n f)"

lemma fits_fresh: "f d = None \<or> f d = Some (File []) \<Longrightarrow> fits rep d p 0 f"
  by (auto simp: fits_def resumable_def split: option.splits)

lemma fits_staged: "fits rep d p n f \<Longrightarrow> staged rep d f"
  by (auto simp: fits_def resumable_staged split: option.splits)

lemma on_sized:
  assumes "faithful rep curl" "d \<noteq> []" "fits rep d p n f" "pr_content_length p = Some amount"
    and honest: "\<And>i. identity_from_probe p = Some i \<Longrightarrow> length (rep (ri_validator i)) = ri_length i"
  shows "completes A (download_sized curl version p d ctx amount n) f rep curl version ctx p d"
proof -
  have sized: "completes A (download_missing curl version p d ctx amount m) g rep curl version ctx p d"
    if m: "fits rep d p m g" "m \<le> amount" for m g
  proof -
    have full: "completes A (download_full curl version p d ctx u) g rep curl version ctx p d" for u
      using on_full [OF assms(2)] fits_staged [OF m(1)] by simp
    show ?thesis
    proof (cases "identity_from_probe p")
      case None
      then have "m = 0" using m(1) by (simp add: fits_def)
      with None full show ?thesis by (auto simp: download_missing_def)
    next
      case (Some i)
      then have i: "ri_length i = amount" "length (rep (ri_validator i)) = amount" and r: "resumable rep d i m g"
        using probe_identity_sound [OF Some] assms(4) honest m(1) by (auto simp: fits_def)
      show ?thesis
      proof (cases "m = amount \<and> 0 < amount")
        case True
        then obtain b where b: "g d = Some (File b)" "length b = amount" "prefix b (rep (ri_validator i))"
          using r by (auto simp: resumable_def)
        then have "b = rep (ri_validator i)" using i(2) by (auto simp: prefix_def)
        then have "finished rep curl version ctx p d
            \<lparr>tr_status = pr_status p, tr_final_bytes = amount, tr_total_bytes = Some amount,
             tr_resumed_from = m, tr_url = pr_effective_url p\<rparr> h" if "h d = g d" for h
          using b that Some by (auto simp: finished_def delivered_def)
        then show ?thesis
          using True fits_staged [OF m(1)] assms(2) by (auto simp: download_missing_def intro!: on_intros runs_on_mono [OF on_remove])
      next
        case False
        then have "0 < amount \<Longrightarrow> m < ri_length i" using m(2) i by auto
        with Some False full i r on_range [OF assms(1,2) Some _ r] show ?thesis by (auto simp: download_missing_def)
      qed
    qed
  qed
  show ?thesis
    unfolding download_sized_def
    by (cases "amount < n")
      (auto intro!: on_intros runs_on_mono [OF on_reset [OF fits_staged [OF assms(3)] assms(2)]] sized fits_fresh assms(3))
qed

text \<open>What a download does, whatever happens, and what it keeps when the system refuses no call.\<close>

lemma on_into:
  assumes "faithful rep curl" "d \<noteq> []" "fits rep d p n f"
    and "\<And>i. identity_from_probe p = Some i \<Longrightarrow> length (rep (ri_validator i)) = ri_length i"
  shows "completes A (download_into curl version p d ctx n) f rep curl version ctx p d"
  unfolding download_into_def
  using on_sized [OF assms(1-3) _ assms(4)] on_full [OF assms(2)] fits_staged [OF assms(3)]
  by (auto split: option.splits if_splits)

lemma on_probed:
  assumes "faithful rep curl" "d \<noteq> []" "staged rep d f" and p: "probe_http_resource curl version url ctx = Inr p"
  shows "completes A (download_probed curl version d ctx p) f rep curl version ctx p d"
proof -
  have honest: "length (rep (ri_validator i)) = ri_length i" if "identity_from_probe p = Some i" for i
    using assms(1) p that unfolding faithful_def by blast
  note into = on_into [OF assms(1,2) _ honest]
  have reused: "completes A (ibind (if 0 < n \<and> (identity_from_probe p = None \<or> stored \<noteq> identity_from_probe p)
        then reset_staging d else ret n) (download_into curl version p d ctx)) f rep curl version ctx p d"
    if "stored = None \<or> stored = identity_at f d" "f d = None \<and> n = 0 \<or> (\<exists>b. f d = Some (File b) \<and> n = length b)" for stored n
  proof (cases "0 < n \<and> (identity_from_probe p = None \<or> stored \<noteq> identity_from_probe p)")
    case True
    then show ?thesis
      using assms(2,3) by (auto intro!: runs_on_ibind runs_on_mono [OF on_reset] into intro: fits_fresh)
  next
    case False
    then have "fits rep d p n f"
      using that assms(3) by (auto simp: fits_def resumable_def staged_def split: option.splits)
    then show ?thesis unfolding if_not_P [OF False] by (simp add: into)
  qed
  show ?thesis
    unfolding download_probed_def
  proof (rule runs_on_ibind, rule runs_on_mono [OF on_read_identity], clarify)
    fix stored assume stored: "stored = None \<or> stored = identity_at f d"
    show "completes A (ibind (existing_length d) (\<lambda>n. ibind (if 0 < n \<and> (identity_from_probe p = None \<or> stored \<noteq> identity_from_probe p)
        then reset_staging d else ret n) (download_into curl version p d ctx))) f rep curl version ctx p d"
      by (rule runs_on_ibind, rule runs_on_mono [OF on_existing_length], clarify, rule reused [OF stored], assumption)
        (use assms(3) in simp_all)
  qed (use assms(3) in simp_all)
qed

lemma on_download:
  assumes "faithful rep curl" "d \<noteq> []" "staged rep d f"
  shows "runs_on A (download_http_to_path curl version url d ctx) f
    (\<lambda>r g. (\<exists>p. probe_http_resource curl version url ctx = Inr p \<and> finished rep curl version ctx p d r g) \<and> kept A rep d g)
    (\<lambda>_. kept A rep d) (kept A rep d)"
  unfolding download_http_to_path_def
proof (intro runs_on_ibind runs_on_mono [OF on_ensure_parent [OF assms(2)]])
  fix g assume "unread d f g"
  then have g: "staged rep d g" using assms(3) by (simp add: unread_staged)
  show "runs_on A (lift (probe_http_resource curl version url ctx)) g
      (\<lambda>p h. runs_on A (download_probed curl version d ctx p) h
        (\<lambda>r g. (\<exists>p. probe_http_resource curl version url ctx = Inr p \<and> finished rep curl version ctx p d r g) \<and> kept A rep d g)
        (\<lambda>_. kept A rep d) (kept A rep d))
      (\<lambda>_. kept A rep d) (kept A rep d)"
    using g by (cases "probe_http_resource curl version url ctx")
      (auto intro: runs_on_mono [OF on_probed [OF assms(1,2) g]])
qed (use assms(3) in \<open>auto simp: unread_staged\<close>)

subsection \<open>Sessions\<close>

text \<open>
  The file systems that sessions of downloads into one destination can leave: it starts without a readable sidecar, and each
  session, for whatever address and with whatever faithful origin, may be paused, fail or stop anywhere, but the system refuses none of its calls.
\<close>

inductive download_history :: "(str \<Rightarrow> u8 list) \<Rightarrow> path \<Rightarrow> fs \<Rightarrow> bool" for rep :: "str \<Rightarrow> u8 list" and d :: path where
  fresh: "identity_at f d = None \<Longrightarrow> download_history rep d f"
| session: "download_history rep d f \<Longrightarrow> faithful rep curl \<Longrightarrow> list_all no_fault es \<Longrightarrow>
    download_history rep d (files (snd (download_http_to_path curl version url d ctx \<lparr>files = f, events = es\<rparr>)))"

lemma session_staged:
  assumes "faithful rep curl" "d \<noteq> []" "staged rep d f" "list_all no_fault es"
  shows "staged rep d (files (snd (download_http_to_path curl version url d ctx \<lparr>files = f, events = es\<rparr>)))"
proof -
  obtain r w where w: "download_http_to_path curl version url d ctx \<lparr>files = f, events = es\<rparr> = (r, w)" by fastforce
  have "runs_on no_fault (download_http_to_path curl version url d ctx) (files \<lparr>files = f, events = es\<rparr>)
      (\<lambda>_. kept no_fault rep d) (\<lambda>_. kept no_fault rep d) (kept no_fault rep d)"
    unfolding world.select_convs by (rule runs_on_mono [OF on_download [OF assms(1-3)]]) auto
  from runs_onD(2) [OF this _ w] have "kept no_fault rep d (files w)" using assms(4) by (cases r) simp_all
  with w show ?thesis by (simp add: kept_def)
qed

lemma history_staged: "download_history rep d f \<Longrightarrow> d \<noteq> [] \<Longrightarrow> staged rep d f"
  by (induction rule: download_history.induct) (auto intro: session_staged)

text \<open>C5: Whatever became of earlier sessions, each of which may have been paused, have failed on the network or have
  stopped in the middle of any call, as long as the system refused none of their calls, the bytes staged in the destination are a
  beginning of the representation that the sidecar names, so that resuming them is never a mixture. (A refused removal of the sidecar
  goes unnoticed by the code, so that the condition cannot be dropped.)\<close>
theorem staging_never_mixes:
  assumes "download_history rep d f" "d \<noteq> []"
    and "identity_at f d = Some i" "f d = Some (File b)"
  shows "prefix b (rep (ri_validator i))"
  using history_staged [OF assms(1,2)] assms(3,4) by (simp add: staged_def)

text \<open>C4: A download that reports success has written exactly the bytes it reports: either the whole
  representation that its probe named, part of which may have come from earlier sessions, or the whole body of one successful
  response. This holds after any sessions that were paused, failed on the network or stopped in the middle of any call, as long
  as the system refused none of their calls, and whatever calls of this session the system refuses.\<close>
theorem download_exact:
  assumes "download_history rep d f" "d \<noteq> []" "faithful rep curl"
    and "download_http_to_path curl version url d ctx \<lparr>files = f, events = es\<rparr> = (Done r, w)"
  shows "\<exists>p b. probe_http_resource curl version url ctx = Inr p \<and> files w d = Some (File b) \<and> length b = tr_final_bytes r
    \<and> ((\<exists>i. identity_from_probe p = Some i \<and> b = rep (ri_validator i))
       \<or> (\<exists>run. request_run curl version Get (pr_effective_url p) None ctx [] = Inr run
            \<and> b = full_body (cr_calls run) full_start))"
proof -
  have "runs_on (\<lambda>_. True) (download_http_to_path curl version url d ctx) (files \<lparr>files = f, events = es\<rparr>)
      (\<lambda>r g. \<exists>p. probe_http_resource curl version url ctx = Inr p \<and> finished rep curl version ctx p d r g) (\<lambda>_ _. True) (\<lambda>_. True)"
    unfolding world.select_convs by (rule runs_on_mono [OF on_download [OF assms(3,2) history_staged [OF assms(1,2)]]]) auto
  from runs_onD(2) [OF this _ assms(4)] show ?thesis
    by (auto simp: finished_def delivered_def list_all_iff)
qed

end
