(* ===== verification/Segments_Safety.thy ===== *)
theory Segments_Safety
  imports Segments Download_Safety
begin

text \<open>
  The segmented download: the link between the sidecars and the bytes in the parts, what each step does to it,
  and what a finished download has merged.
\<close>

subsection \<open>Artifacts are different files\<close>

definition beside :: "path \<Rightarrow> str \<Rightarrow> path" where
  "beside d s = butlast d @ [last d @ s]"

lemma beside_inject: "beside d s = beside d t \<longleftrightarrow> s = t"
  by (simp add: beside_def)

lemma beside_self: "d \<noteq> [] \<Longrightarrow> d = beside d []"
  by (simp add: beside_def)

lemma beside_suffix: "append_suffix (beside d s) x = beside d (s @ lit x)"
  by (simp add: beside_def append_suffix_def)

lemma artifact_paths:
  "resume_identity_path d = beside d (lit ''.nova-identity'')"
  "segment_manifest_path d = beside d (lit ''.nova-segments'')"
  "segment_merge_path d = beside d (lit ''.nova-merge'')"
  "segment_part_path d k = beside d (lit ''.nova-seg-'' @ pad4 (nat_to_dec k))"
  "segment_done_path d k = beside d (lit ''.nova-seg-'' @ pad4 (nat_to_dec k) @ lit ''.done'')"
  by (simp_all add: beside_def resume_identity_path_def segment_manifest_path_def segment_merge_path_def segment_part_path_def
      segment_done_path_def append_suffix_def)

lemma dec_value_zeros: "dec_value (replicate m 0x30 @ s) = dec_value s"
proof -
  have "foldl (\<lambda>acc b. acc * 10 + dec_digit b) 0 (replicate m 0x30) = 0"
    by (induction m) (simp_all add: dec_digit_def)
  then show ?thesis by (simp add: dec_value_def)
qed

lemma pad4_inject: "pad4 (nat_to_dec j) = pad4 (nat_to_dec k) \<longleftrightarrow> j = k"
proof
  assume "pad4 (nat_to_dec j) = pad4 (nat_to_dec k)"
  then have "dec_value (pad4 (nat_to_dec j)) = dec_value (pad4 (nat_to_dec k))" by simp
  then show "j = k" by (simp only: pad4_def dec_value_zeros dec_value_nat_to_dec)
qed simp

lemma pad4_digits: "0x2e \<notin> set (pad4 (nat_to_dec k))"
proof -
  have "\<forall>b \<in> set (pad4 (nat_to_dec k)). is_ascii_digit b"
    using nat_to_dec_digits [of k] by (auto simp: pad4_def list_all_iff is_ascii_digit_def)
  moreover have "\<not> is_ascii_digit 0x2e" by (simp add: is_ascii_digit_def)
  ultimately show ?thesis by metis
qed

lemma pad4_done: "pad4 (nat_to_dec j) \<noteq> pad4 (nat_to_dec k) @ lit ''.done''"
  using pad4_digits [of j] by (auto simp: lit_def dest!: arg_cong [of _ _ set])

lemma part_done_inject [simp]:
  "segment_part_path d j = segment_part_path d k \<longleftrightarrow> j = k" "segment_done_path d j = segment_done_path d k \<longleftrightarrow> j = k"
  "segment_part_path d j \<noteq> segment_done_path d k" "segment_done_path d k \<noteq> segment_part_path d j"
  using pad4_done [of j k] by (simp_all add: artifact_paths beside_inject pad4_inject)

lemma part_apart [simp]:
  "segment_part_path d k \<noteq> resume_identity_path d" "resume_identity_path d \<noteq> segment_part_path d k"
  "segment_part_path d k \<noteq> segment_manifest_path d" "segment_manifest_path d \<noteq> segment_part_path d k"
  "segment_part_path d k \<noteq> segment_merge_path d" "segment_merge_path d \<noteq> segment_part_path d k"
  "segment_part_path d k \<noteq> tmp_of (resume_identity_path d)" "segment_part_path d k \<noteq> tmp_of (segment_manifest_path d)"
  by (simp_all add: artifact_paths beside_inject beside_suffix) (simp_all add: lit_def)

lemma done_apart [simp]:
  "segment_done_path d k \<noteq> resume_identity_path d" "resume_identity_path d \<noteq> segment_done_path d k"
  "segment_done_path d k \<noteq> segment_manifest_path d" "segment_manifest_path d \<noteq> segment_done_path d k"
  "segment_done_path d k \<noteq> segment_merge_path d" "segment_merge_path d \<noteq> segment_done_path d k"
  "segment_done_path d k \<noteq> tmp_of (resume_identity_path d)" "segment_done_path d k \<noteq> tmp_of (segment_manifest_path d)"
  by (simp_all add: artifact_paths beside_inject beside_suffix) (simp_all add: lit_def)

lemma sidecars_apart [simp]:
  "resume_identity_path d \<noteq> segment_manifest_path d" "segment_manifest_path d \<noteq> resume_identity_path d"
  "resume_identity_path d \<noteq> segment_merge_path d" "segment_merge_path d \<noteq> resume_identity_path d"
  "segment_manifest_path d \<noteq> segment_merge_path d" "segment_merge_path d \<noteq> segment_manifest_path d"
  "tmp_of (resume_identity_path d) \<noteq> segment_manifest_path d" "tmp_of (segment_manifest_path d) \<noteq> resume_identity_path d"
  "tmp_of (resume_identity_path d) \<noteq> resume_identity_path d" "tmp_of (segment_manifest_path d) \<noteq> segment_manifest_path d"
  "tmp_of (resume_identity_path d) \<noteq> segment_merge_path d" "tmp_of (segment_manifest_path d) \<noteq> segment_merge_path d"
  "segment_manifest_path d \<noteq> tmp_of (resume_identity_path d)" "resume_identity_path d \<noteq> tmp_of (segment_manifest_path d)"
  by (simp_all add: artifact_paths beside_inject beside_suffix) (simp_all add: lit_def)

lemma destination_apart [simp]:
  assumes "d \<noteq> []"
  shows "segment_part_path d k \<noteq> d" "d \<noteq> segment_part_path d k" "segment_done_path d k \<noteq> d" "d \<noteq> segment_done_path d k"
    "segment_manifest_path d \<noteq> d" "d \<noteq> segment_manifest_path d" "segment_merge_path d \<noteq> d" "d \<noteq> segment_merge_path d"
    "tmp_of (segment_manifest_path d) \<noteq> d" "d \<noteq> tmp_of (segment_manifest_path d)"
proof -
  have ne: "beside d s \<noteq> d" "d \<noteq> beside d s" if "s \<noteq> []" for s
    using beside_inject [of d s "[]"] beside_self [OF assms] that by simp_all
  then show "segment_part_path d k \<noteq> d" "d \<noteq> segment_part_path d k" "segment_done_path d k \<noteq> d" "d \<noteq> segment_done_path d k"
    "segment_manifest_path d \<noteq> d" "d \<noteq> segment_manifest_path d" "segment_merge_path d \<noteq> d" "d \<noteq> segment_merge_path d"
    "tmp_of (segment_manifest_path d) \<noteq> d" "d \<noteq> tmp_of (segment_manifest_path d)"
    by (simp_all add: artifact_paths beside_suffix ne)
qed

subsection \<open>Files that a download leaves alone\<close>

definition leaves :: "path \<Rightarrow> ('e, 'a) io \<Rightarrow> bool" where
  "leaves q m \<longleftrightarrow> (\<forall>A f. runs_on A m f (\<lambda>_ g. g q = f q) (\<lambda>_ g. g q = f q) (\<lambda>g. g q = f q))"

lemma leavesD: "leaves q m \<Longrightarrow> runs_on A m f (\<lambda>_ g. g q = f q) (\<lambda>_ g. g q = f q) (\<lambda>g. g q = f q)"
  by (simp add: leaves_def)

named_theorems leaves_intros "files that programs leave alone"

lemma leaves_simple [leaves_intros]: "leaves q (ret x)" "leaves q (throw e)" "leaves q (path_exists p)" "leaves q (lift r)"
  by (simp_all add: leaves_def split: sum.splits)

lemma leaves_ibind [leaves_intros]:
  assumes "leaves q m" "\<And>x. leaves q (g x)"
  shows "leaves q (ibind m g)"
  unfolding leaves_def
proof (intro allI runs_on_ibind)
  fix A f
  show "runs_on A m f (\<lambda>x f'. runs_on A (g x) f' (\<lambda>_ g. g q = f q) (\<lambda>_ g. g q = f q) (\<lambda>g. g q = f q))
      (\<lambda>_ g. g q = f q) (\<lambda>g. g q = f q)"
    by (rule runs_on_mono [OF leavesD [OF assms(1)]]) (auto intro!: runs_on_mono [OF leavesD [OF assms(2)]])
qed

lemma leaves_attempt [leaves_intros]: "leaves q m \<Longrightarrow> leaves q (attempt m)"
  by (simp add: leaves_def runs_on_attempt)

lemma leaves_rethrow [leaves_intros]: "leaves q m \<Longrightarrow> leaves q (rethrow h m)"
  by (simp add: leaves_def runs_on_rethrow)

lemma leaves_ignore [leaves_intros]: "leaves q m \<Longrightarrow> leaves q (ignore m)"
  by (simp add: leaves_def runs_on_ignore)

lemma leaves_do_if [leaves_intros]: "leaves q m \<Longrightarrow> leaves q (do_if b m)"
  by (simp add: leaves_def)

lemma leaves_if [leaves_intros]: "leaves q m \<Longrightarrow> leaves q n \<Longrightarrow> leaves q (if b then m else n)"
  by simp

lemma leaves_case [leaves_intros]:
  "leaves q m \<Longrightarrow> (\<And>x. leaves q (n x)) \<Longrightarrow> leaves q (case y of None \<Rightarrow> m | Some x \<Rightarrow> n x)"
  "(\<And>x. leaves q (l x)) \<Longrightarrow> (\<And>x. leaves q (n x)) \<Longrightarrow> leaves q (case z of Inl x \<Rightarrow> l x | Inr x \<Rightarrow> n x)"
  "(\<And>a b. leaves q (c a b)) \<Longrightarrow> leaves q (case w of (a, b) \<Rightarrow> c a b)"
  by (simp_all split: option.splits sum.splits prod.splits)

lemma leaves_each [leaves_intros]: "(\<And>x. x \<in> set xs \<Longrightarrow> leaves q (m x)) \<Longrightarrow> leaves q (each m xs)"
  by (induction xs) (auto intro: leaves_intros)

lemma leaves_call:
  "(\<And>n f. partial n f q = f q) \<Longrightarrow> (\<And>f x g. act f = Some (x, g) \<Longrightarrow> g q = f q) \<Longrightarrow> leaves q (syscall partial act)"
  by (auto simp: leaves_def split: option.splits)

lemma append_at_other [simp]: "q \<noteq> p \<Longrightarrow> append_at p d f q = f q"
  by (simp add: append_at_def split: option.splits)

lemma leaves_calls [leaves_intros]:
  "leaves q (fs_read p)" "leaves q (fs_metadata_len p)" "leaves q (fs_sync p)" "leaves q (fs_open p)"
  "q \<noteq> p \<Longrightarrow> leaves q (fs_open_truncate p)" "q \<noteq> p \<Longrightarrow> leaves q (fs_remove_file p)" "q \<noteq> p \<Longrightarrow> leaves q (fs_write_all p n d)"
  "q \<noteq> p \<Longrightarrow> leaves q (fs_append p d)" "q \<noteq> p \<Longrightarrow> leaves q (fs_open_append p)" "q \<noteq> p \<Longrightarrow> leaves q (fs_create_dir p)"
  "q \<noteq> p \<Longrightarrow> q \<noteq> r \<Longrightarrow> leaves q (fs_rename p r)"
  unfolding fs_read_def fs_metadata_len_def fs_sync_def fs_open_def fs_open_truncate_def fs_remove_file_def fs_write_all_def
    fs_append_def fs_open_append_def fs_create_dir_def fs_rename_def
  by (rule leaves_call; auto split: option.splits node.splits if_splits)+

text \<open>A transfer leaves alone what its sink leaves alone.\<close>

interpretation elsewhere: stream_sink A "\<lambda>n b. if q = p then throw () else staging_sink p existing n b" "\<lambda>_ f. f q = x"
  for A p q x existing
proof unfold_locales
  fix got f d assume "f q = x"
  then show "runs_on A (if q = p then throw () else staging_sink p existing (length got) d) f (\<lambda>_ g. g q = x)
      (\<lambda>_ g. \<exists>k. g q = x) (\<lambda>g. \<exists>k. g q = x)"
    by (auto simp: staging_sink_def fs_append_def fs_write_all_def)
qed

lemma leaves_streams [leaves_intros]:
  assumes "q \<noteq> p"
  shows "leaves q (stream_http_range curl version url start stop (staging_sink p existing) ctx v)"
    "leaves q (stream_http_full curl version url (staging_sink p existing) ctx)"
proof -
  have sink: "(\<lambda>n b. if q = p then throw () else staging_sink p existing n b) = staging_sink p existing"
    using assms by simp
  show "leaves q (stream_http_range curl version url start stop (staging_sink p existing) ctx v)"
    unfolding leaves_def
  proof (intro allI)
    fix A f
    let ?body = "case request_run curl version Get url (Some (start, stop)) ctx (if_range_header v) of
        Inl _ \<Rightarrow> [] | Inr run \<Rightarrow> range_body start stop (cr_calls run) range_start"
    show "runs_on A (stream_http_range curl version url start stop (staging_sink p existing) ctx v) f
      (\<lambda>_ g. g q = f q) (\<lambda>_ g. g q = f q) (\<lambda>g. g q = f q)"
      by (rule runs_on_mono [OF elsewhere.range_stream
            [where p = p and q = q and existing = existing and x = "f q" and body = ?body, unfolded sink]]) auto
  qed
  show "leaves q (stream_http_full curl version url (staging_sink p existing) ctx)"
    unfolding leaves_def
  proof (intro allI)
    fix A f
    show "runs_on A (stream_http_full curl version url (staging_sink p existing) ctx) f
      (\<lambda>_ g. g q = f q) (\<lambda>_ g. g q = f q) (\<lambda>g. g q = f q)"
      by (rule runs_on_mono [OF elsewhere.full_stream [where p = p and q = q and existing = existing and x = "f q", unfolded sink]]) auto
  qed
qed

lemma leaves_ensure_parent:
  assumes "d \<noteq> []" "length q = length d"
  shows "leaves q (ensure_parent io d)"
proof -
  have "length (take n (butlast d)) < length q" for n using assms by (cases d rule: rev_cases) simp_all
  then have ne: "q \<noteq> take n (butlast d)" for n by (metis less_irrefl)
  then have ne: "q \<noteq> p" if "p \<in> set (map (\<lambda>n. take n (butlast d)) [1..<Suc (length (butlast d))])" for p
    using that by auto
  show ?thesis
    unfolding ensure_parent_def fs_create_dir_all_def by (intro leaves_intros ne)
qed

text \<open>A single-stream download touches its destination and the identity sidecar, and nothing else beside them.\<close>

definition stream_files :: "path \<Rightarrow> path set" where
  "stream_files d = {d, resume_identity_path d, tmp_of (resume_identity_path d)}"

lemma leaves_download:
  assumes "d \<noteq> []" "length q = length d" "q \<notin> stream_files d"
  shows "leaves q (download_http_to_path curl version url d ctx)"
proof -
  have q: "q \<noteq> d" "q \<noteq> resume_identity_path d" "q \<noteq> tmp_of (resume_identity_path d)" using assms(3) by (auto simp: stream_files_def)
  have remove: "leaves q (remove_resume_identity d)"
    unfolding remove_resume_identity_def by (intro leaves_intros q)
  have full: "leaves q (download_full curl version p d ctx u)" for p u
    unfolding download_full_def by (intro leaves_intros q remove)
  have reset: "leaves q (reset_staging d)"
    unfolding reset_staging_def by (intro leaves_intros q remove)
  have range: "leaves q (download_range curl version p d ctx i n e)" for p i n e
    unfolding download_range_def write_resume_identity_def replace_sidecar_def write_synced_def open_staging_def finish_range_def Let_def
    by (intro leaves_intros q remove full; simp split: TransportError.split)+
      (auto intro!: leaves_intros q remove full split: TransportError.split)
  have into: "leaves q (download_into curl version p d ctx n)" for p n
    unfolding download_into_def download_sized_def download_missing_def
    by (intro leaves_intros full range remove reset)
  show ?thesis
    unfolding download_http_to_path_def download_probed_def read_resume_identity_def read_text_def existing_length_def
    by (intro leaves_intros leaves_ensure_parent assms(1,2) reset into)
qed

subsection \<open>The bytes in the parts\<close>

definition manifest_at :: "fs \<Rightarrow> path \<Rightarrow> byte_range list option" where
  "manifest_at f d = Option.bind (Option.bind (file_data (f (segment_manifest_path d))) from_utf8) parse_segment_manifest"

abbreviation range_slice :: "u8 list \<Rightarrow> byte_range \<Rightarrow> u8 list" where
  "range_slice b r \<equiv> bslice b (br_start r) (Suc (br_end r))"

definition parts_ok :: "u8 list \<Rightarrow> path \<Rightarrow> byte_range list \<Rightarrow> fs \<Rightarrow> bool" where
  "parts_ok whole d rs f \<longleftrightarrow>
     (\<forall>k<length rs. \<forall>b. file_data (f (segment_part_path d k)) = Some b \<longrightarrow> prefix b (range_slice whole (rs ! k)))"

definition tags :: "resume_identity \<Rightarrow> path \<Rightarrow> byte_range list \<Rightarrow> fs \<Rightarrow> bool" where
  "tags i d rs f \<longleftrightarrow> (\<forall>j. identity_at f d = Some j \<longrightarrow> ri_validator j = ri_validator i) \<and> (\<forall>m. manifest_at f d = Some m \<longrightarrow> m = rs)"

text \<open>The parts are beginnings of the ranges that the two sidecars name.\<close>

definition sharded :: "(str \<Rightarrow> u8 list) \<Rightarrow> path \<Rightarrow> fs \<Rightarrow> bool" where
  "sharded rep d f \<longleftrightarrow>
     (\<forall>i rs. identity_at f d = Some i \<and> manifest_at f d = Some rs \<longrightarrow> parts_ok (rep (ri_validator i)) d rs f)"

definition gone :: "path \<Rightarrow> fs \<Rightarrow> bool" where
  "gone d f \<longleftrightarrow> (\<forall>k<MAX_PARALLEL_SEGMENTS. file_data (f (segment_part_path d k)) = None)"

definition erased :: "fs \<Rightarrow> fs \<Rightarrow> bool" where
  "erased f g \<longleftrightarrow> (\<forall>q. g q = f q \<or> g q = None)"

definition removed :: "path \<Rightarrow> fs \<Rightarrow> fs" where
  "removed p f = (if f p = Some Directory then f else f(p := None))"

lemma erased_refl [simp]: "erased f f"
  by (simp add: erased_def)

lemma erased_trans: "erased f g \<Longrightarrow> erased g h \<Longrightarrow> erased f h"
  unfolding erased_def by metis

lemma erased_removed [simp]: "erased f (removed p f)"
  by (simp add: erased_def removed_def)

lemma removed_at [simp]: "file_data (removed p f p) = None" "q \<noteq> p \<Longrightarrow> removed p f q = f q"
  by (simp_all add: removed_def)

lemma erased_data: "erased f g \<Longrightarrow> file_data (g q) = Some b \<Longrightarrow> file_data (f q) = Some b"
  unfolding erased_def by (metis file_data.simps(2) option.distinct(1))

lemma erased_none: "erased f g \<Longrightarrow> file_data (f q) = None \<Longrightarrow> file_data (g q) = None"
  using erased_data by (metis not_None_eq)

lemma erased_tags:
  assumes "erased f g"
  shows "identity_at g d = Some i \<Longrightarrow> identity_at f d = Some i" "manifest_at g d = Some rs \<Longrightarrow> manifest_at f d = Some rs"
    "parts_ok whole d rs f \<Longrightarrow> parts_ok whole d rs g"
  using erased_data [OF assms] by (fastforce simp: identity_at_def manifest_at_def parts_ok_def bind_eq_Some_conv)+

lemma erased_sharded: "erased f g \<Longrightarrow> sharded rep d f \<Longrightarrow> sharded rep d g"
  unfolding sharded_def using erased_tags by metis

lemma erased_gone: "erased f g \<Longrightarrow> gone d f \<Longrightarrow> gone d g"
  unfolding gone_def using erased_none by blast

lemma parse_ranges_length: "parse_ranges n ls = Some rs \<Longrightarrow> length rs = n"
  by (induction n ls arbitrary: rs rule: parse_ranges.induct) (auto simp: bind_eq_Some_conv)

lemma parse_manifest_limit:
  assumes "parse_segment_manifest payload = Some rs"
  shows "length rs \<le> MAX_PARALLEL_SEGMENTS"
proof -
  obtain magic count ls where l: "str_lines payload = magic # count # ls"
    using assms by (cases "str_lines payload"; cases "tl (str_lines payload)") (auto simp: parse_segment_manifest_def)
  show ?thesis
    using assms by (auto simp: parse_segment_manifest_def l bind_eq_Some_conv dest!: parse_ranges_length split: if_splits)
qed

lemma manifest_limit: "manifest_at f d = Some rs \<Longrightarrow> length rs \<le> MAX_PARALLEL_SEGMENTS"
  using parse_manifest_limit by (auto simp: manifest_at_def bind_eq_Some_conv)

lemma gone_parts_ok: "gone d f \<Longrightarrow> length rs \<le> MAX_PARALLEL_SEGMENTS \<Longrightarrow> parts_ok whole d rs f"
  by (simp add: gone_def parts_ok_def)

lemma gone_sharded: "gone d f \<Longrightarrow> sharded rep d f"
  using gone_parts_ok manifest_limit unfolding sharded_def by blast

lemma tagged_sharded: "tags i d rs f \<Longrightarrow> parts_ok (rep (ri_validator i)) d rs f \<Longrightarrow> sharded rep d f"
  unfolding sharded_def tags_def by metis

text \<open>Sidecars depend only on their files.\<close>

lemma tags_cong:
  assumes "g (resume_identity_path d) = f (resume_identity_path d)" "g (segment_manifest_path d) = f (segment_manifest_path d)"
  shows "tags i d rs g \<longleftrightarrow> tags i d rs f"
  by (simp add: tags_def identity_at_def manifest_at_def assms)

text \<open>A manifest gives back the plan it was written for.\<close>

definition plan_text_ok :: "byte_range \<Rightarrow> bool" where
  "plan_text_ok r \<longleftrightarrow> br_start r \<le> br_end r \<and> br_end r < 2 ^ 64"

lemma digits_not_dash: "0x2d \<notin> set (nat_to_dec n)"
proof -
  have "\<forall>b \<in> set (nat_to_dec n). is_ascii_digit b" using nat_to_dec_digits [of n] by (simp add: list_all_iff)
  moreover have "\<not> is_ascii_digit 0x2d" by (simp add: is_ascii_digit_def)
  ultimately show ?thesis by metis
qed

lemma parse_range_text_back: "plan_text_ok r \<Longrightarrow> parse_range_text (range_text r) = Some r"
  by (cases r) (simp add: plan_text_ok_def parse_range_text_def range_text_def split_once_append digits_not_dash
      parse_unsigned_nat_to_dec u64_limit_def)

lemma range_text_plain: "plain_line (range_text r)"
  using plain_number [of "br_start r"] plain_number [of "br_end r"] by (auto simp: range_text_def plain_line_def)

lemma parse_ranges_back: "list_all plan_text_ok rs \<Longrightarrow> parse_ranges (length rs) (map range_text rs) = Some rs"
  by (induction rs) (simp_all add: parse_range_text_back)

lemma manifest_back:
  assumes "list_all plan_text_ok rs" "rs \<noteq> []" "length rs \<le> MAX_PARALLEL_SEGMENTS"
  shows "parse_segment_manifest (manifest_payload rs) = Some rs"
proof -
  have "plain_line (lit ''NOVA-SEGMENTS-1'')" by (simp add: plain_line_def lit_def)
  then have "str_lines (manifest_payload rs) = lit ''NOVA-SEGMENTS-1'' # nat_to_dec (length rs) # map range_text rs"
    unfolding manifest_payload_def
    by (intro str_lines_unlines) (simp add: plain_number list_all_iff range_text_plain)
  moreover have "length rs < u64_limit" using assms(3) by (simp add: MAX_PARALLEL_SEGMENTS_def u64_limit_def)
  ultimately show ?thesis
    using assms by (simp add: parse_segment_manifest_def parse_unsigned_nat_to_dec parse_ranges_back)
qed

lemma manifest_at_written:
  assumes "list_all plan_text_ok rs" "rs \<noteq> []" "length rs \<le> MAX_PARALLEL_SEGMENTS"
    and "g (segment_manifest_path d) = Some (File (manifest_payload rs))" "manifest_at g d = Some m"
  shows "m = rs"
  using assms(4,5) manifest_back [OF assms(1-3)] by (auto simp: manifest_at_def bind_eq_Some_conv from_utf8_Some_iff)

lemma identity_at_written:
  assumes "sound_identity i" "g (resume_identity_path d) = Some (File (identity_payload i))" "identity_at g d = Some j"
  shows "ri_validator j = ri_validator i"
  using assms(2,3) parse_payload_validator [OF assms(1)] by (auto simp: identity_at_def bind_eq_Some_conv from_utf8_Some_iff)

end
