(* ===== verification/Segments_Steps.thy ===== *)
theory Segments_Steps
  imports Segments_Safety
begin

text \<open>
  What each step of a segmented download does, for runs in which the system refuses no call: the process may still
  stop in the middle of any of them.
\<close>

subsection \<open>Slices\<close>

lemma nths_upt_map: "b \<le> length xs \<Longrightarrow> map ((!) xs) [a..<b] = bslice xs a b"
  by (cases "a \<le> b") (auto simp: bslice_def list_eq_iff_nth_eq)

lemma slices_cover:
  assumes "covered rs = [0..<length whole]"
  shows "concat (map (range_slice whole) rs) = whole"
proof -
  have "range_slice whole r = map ((!) whole) [br_start r..<Suc (br_end r)]" if "r \<in> set rs" for r
  proof -
    have "set [br_start r..<Suc (br_end r)] \<subseteq> set (covered rs)" using that by auto
    then have "[br_start r..<Suc (br_end r)] = [] \<or> Suc (br_end r) \<le> length whole"
      unfolding assms by (cases "br_start r \<le> br_end r") auto
    then show ?thesis
      by (elim disjE) (simp_all add: nths_upt_map bslice_def del: upt_Suc)
  qed
  then have "concat (map (range_slice whole) rs) = concat (map (\<lambda>r. map ((!) whole) [br_start r..<Suc (br_end r)]) rs)"
    by (simp cong: map_cong)
  also have "\<dots> = map ((!) whole) (covered rs)" by (simp add: map_concat comp_def del: upt_Suc)
  also have "\<dots> = whole" by (simp only: assms map_nth)
  finally show ?thesis .
qed

lemma runs_on_exists_bind: "runs_on A (g (node_exists f p)) f Q E S \<Longrightarrow> runs_on A (ibind (path_exists p) g) f Q E S"
  by (intro on_intros) simp

subsection \<open>Removals\<close>

text \<open>Files of \<open>P\<close> are gone, nothing else is touched; or some of them are gone.\<close>

definition dusted :: "path set \<Rightarrow> fs \<Rightarrow> fs \<Rightarrow> bool" where
  "dusted P f g \<longleftrightarrow> erased f g \<and> same_outside P f g"

definition swept :: "path set \<Rightarrow> fs \<Rightarrow> fs \<Rightarrow> bool" where
  "swept P f g \<longleftrightarrow> dusted P f g \<and> (\<forall>p \<in> P. file_data (g p) = None)"

definition clears :: "(io_event \<Rightarrow> bool) \<Rightarrow> path set \<Rightarrow> ('e, 'a) io \<Rightarrow> bool" where
  "clears A P m \<longleftrightarrow> (\<forall>f. runs_on A m f (\<lambda>_. swept P f) (\<lambda>_ _. False) (dusted P f))"

lemma dusted_trans: "dusted P f g \<Longrightarrow> dusted Q g h \<Longrightarrow> dusted (P \<union> Q) f h"
  using erased_trans [of f g h] by (auto simp: dusted_def same_outside_def)

lemma dusted_mono: "dusted P f g \<Longrightarrow> dusted (P \<union> Q) f g"
  by (auto simp: dusted_def same_outside_def)

lemma swept_trans: "swept P f g \<Longrightarrow> swept Q g h \<Longrightarrow> swept (P \<union> Q) f h"
  using dusted_trans [of P f g Q h] erased_none [of g h] by (auto simp: swept_def dusted_def)

lemma clears_ibind:
  assumes "clears A P m" "\<And>x. clears A Q (n x)"
  shows "clears A (P \<union> Q) (ibind m n)"
  unfolding clears_def
proof (intro allI runs_on_ibind)
  fix f
  have "runs_on A m f (\<lambda>_. swept P f) (\<lambda>_ _. False) (dusted P f)" using assms(1) by (simp add: clears_def)
  then show "runs_on A m f (\<lambda>x g. runs_on A (n x) g (\<lambda>_. swept (P \<union> Q) f) (\<lambda>_ _. False) (dusted (P \<union> Q) f))
      (\<lambda>_ _. False) (dusted (P \<union> Q) f)"
  proof (rule runs_on_mono)
    fix x g assume g: "swept P f g"
    have "runs_on A (n x) g (\<lambda>_. swept Q g) (\<lambda>_ _. False) (dusted Q g)" using assms(2) by (simp add: clears_def)
    then show "runs_on A (n x) g (\<lambda>_. swept (P \<union> Q) f) (\<lambda>_ _. False) (dusted (P \<union> Q) f)"
    proof (rule runs_on_mono)
      show "swept (P \<union> Q) f h" if "swept Q g h" for h by (rule swept_trans [OF g that])
      show "dusted (P \<union> Q) f h" if "dusted Q g h" for h using dusted_trans [OF _ that, of P f] g by (simp add: swept_def)
    qed
  qed (auto simp: dusted_mono)
qed

lemma clears_each: "(\<And>x. clears A (P x) (m x)) \<Longrightarrow> clears A (\<Union>x \<in> set xs. P x) (each m xs)"
proof (induction xs)
  case (Cons x xs)
  then show ?case using clears_ibind [of A "P x" "m x" "\<Union>x \<in> set xs. P x" "\<lambda>_. each m xs"] by simp
qed (simp add: clears_def swept_def dusted_def same_outside_def)

text \<open>Every file of the segmented download of \<open>d\<close>.\<close>

definition segment_files :: "path \<Rightarrow> path set" where
  "segment_files d = set (segment_artifacts d MAX_PARALLEL_SEGMENTS)
     \<union> {segment_merge_path d, segment_manifest_path d, resume_identity_path d}"

lemma segment_files_apart [simp]: "d \<noteq> [] \<Longrightarrow> d \<notin> segment_files d"
  by (auto simp: segment_files_def segment_artifacts_def)

lemma dusted_destination: "dusted (segment_files d) f g \<Longrightarrow> d \<noteq> [] \<Longrightarrow> g d = f d"
  by (simp add: dusted_def same_outside_def)

lemma swept_segments:
  assumes "swept (segment_files d) f g"
  shows "gone d g" "identity_at g d = None" "manifest_at g d = None"
proof -
  have "file_data (g p) = None" if "p \<in> segment_files d" for p using assms that by (simp add: swept_def)
  then show "gone d g" "identity_at g d = None" "manifest_at g d = None"
    by (auto simp: gone_def identity_at_def manifest_at_def segment_files_def segment_artifacts_def)
qed

subsection \<open>Order\<close>

text \<open>What every session keeps, and what holds while the segments of the identity \<open>i\<close> are fetched.\<close>

definition in_order :: "(str \<Rightarrow> u8 list) \<Rightarrow> path \<Rightarrow> fs \<Rightarrow> bool" where
  "in_order rep d f \<longleftrightarrow> staged rep d f \<and> sharded rep d f"

definition begun :: "u8 list \<Rightarrow> path \<Rightarrow> fs \<Rightarrow> bool" where
  "begun whole d f \<longleftrightarrow> (\<forall>b. file_data (f d) = Some b \<longrightarrow> prefix b whole)"

definition ready :: "(str \<Rightarrow> u8 list) \<Rightarrow> path \<Rightarrow> resume_identity \<Rightarrow> byte_range list \<Rightarrow> fs \<Rightarrow> bool" where
  "ready rep d i rs f \<longleftrightarrow> tags i d rs f \<and> parts_ok (rep (ri_validator i)) d rs f \<and> begun (rep (ri_validator i)) d f"

lemma erased_in_order: "erased f g \<Longrightarrow> in_order rep d f \<Longrightarrow> in_order rep d g"
  unfolding in_order_def staged_def using erased_sharded erased_tags(1) erased_data by metis

lemma begun_staged: "begun (rep v) d f \<Longrightarrow> (\<And>j. identity_at f d = Some j \<Longrightarrow> ri_validator j = v) \<Longrightarrow> staged rep d f"
  by (simp add: begun_def staged_def)

lemma ready_in_order [simp]: "ready rep d i rs f \<Longrightarrow> in_order rep d f"
  by (auto simp: ready_def in_order_def tags_def intro: tagged_sharded begun_staged)
    (metis tags_def tagged_sharded)

text \<open>A state that is ready stays so when other files change, and when a part is a beginning of its range.\<close>

definition segment_extras :: "path \<Rightarrow> path set" where
  "segment_extras d = insert (segment_merge_path d) (range (segment_done_path d))"

lemma ready_part:
  assumes "ready rep d i rs f" "same_outside (insert (segment_part_path d k) (segment_extras d)) f g" "d \<noteq> []"
    and part: "\<And>b. k < length rs \<Longrightarrow> file_data (g (segment_part_path d k)) = Some b \<Longrightarrow> prefix b (range_slice (rep (ri_validator i)) (rs ! k))"
  shows "ready rep d i rs g"
proof -
  have same: "g q = f q" if "q \<noteq> segment_part_path d k" "q \<notin> segment_extras d" for q
    using assms(2) that by (simp add: same_outside_def)
  have "g (segment_part_path d j) = f (segment_part_path d j)" if "j \<noteq> k" for j
    using that by (intro same) (auto simp: segment_extras_def)
  then have "prefix b (range_slice (rep (ri_validator i)) (rs ! j))"
    if "j < length rs" "file_data (g (segment_part_path d j)) = Some b" for j b
    using that part assms(1) by (cases "j = k") (auto simp: ready_def parts_ok_def)
  moreover have "g d = f d" "g (resume_identity_path d) = f (resume_identity_path d)" "g (segment_manifest_path d) = f (segment_manifest_path d)"
    using assms(3) by (auto intro!: same simp: segment_extras_def)
  ultimately show ?thesis
    using assms(1) tags_cong [of g d f i rs] by (simp add: ready_def parts_ok_def begun_def)
qed

text \<open>How far the sidecars are: brought in line with the artifacts, or with the identity as well.\<close>

definition matched :: "path \<Rightarrow> resume_identity \<Rightarrow> byte_range list \<Rightarrow> fs \<Rightarrow> bool" where
  "matched d i rs f \<longleftrightarrow> identity_at f d = Some i \<and> manifest_at f d = Some rs"

definition cleaned :: "(str \<Rightarrow> u8 list) \<Rightarrow> path \<Rightarrow> resume_identity \<Rightarrow> byte_range list \<Rightarrow> fs \<Rightarrow> bool" where
  "cleaned rep d i rs f \<longleftrightarrow> in_order rep d f \<and> begun (rep (ri_validator i)) d f \<and> (matched d i rs f \<or> gone d f)"

definition named :: "(str \<Rightarrow> u8 list) \<Rightarrow> path \<Rightarrow> resume_identity \<Rightarrow> byte_range list \<Rightarrow> fs \<Rightarrow> bool" where
  "named rep d i rs f \<longleftrightarrow> cleaned rep d i rs f \<and> (\<forall>j. identity_at f d = Some j \<longrightarrow> ri_validator j = ri_validator i)"

lemma gone_in_order: "gone d f \<Longrightarrow> staged rep d f \<Longrightarrow> in_order rep d f"
  by (simp add: in_order_def gone_sharded)

lemma matched_ready:
  assumes "matched d i rs f" "cleaned rep d i rs f"
  shows "ready rep d i rs f"
  using assms by (auto simp: matched_def cleaned_def ready_def tags_def in_order_def sharded_def)

lemma gone_same: "gone d f \<Longrightarrow> (\<And>k. g (segment_part_path d k) = f (segment_part_path d k)) \<Longrightarrow> gone d g"
  by (simp add: gone_def)

lemma begun_same: "g d = f d \<Longrightarrow> begun whole d g \<longleftrightarrow> begun whole d f"
  by (simp add: begun_def)

text \<open>Writing a sidecar where no part is.\<close>

lemma identity_replaced:
  assumes "cleaned rep d i rs f" "gone d f" "sound_identity i" "d \<noteq> []"
    and "g (resume_identity_path d) \<in> {f (resume_identity_path d), None, Some (File (identity_payload i))}"
    and "same_outside {resume_identity_path d, tmp_of (resume_identity_path d)} f g"
  shows "cleaned rep d i rs g"
    "g (resume_identity_path d) = Some (File (identity_payload i)) \<Longrightarrow> named rep d i rs g"
proof -
  have same: "g d = f d" "\<And>k. g (segment_part_path d k) = f (segment_part_path d k)"
    using assms(4,6) by (simp_all add: same_outside_def)
  have b: "begun (rep (ri_validator i)) d g" and gone: "gone d g"
    using assms(1,2) same gone_same [of d f g] begun_same [of g d f] by (auto simp: cleaned_def)
  have "staged rep d f" using assms(1) by (simp add: cleaned_def in_order_def)
  then have "staged rep d g"
    using assms(5) same(1) identity_at_written [OF assms(3), of g d] b by (auto simp: staged_def begun_def identity_at_def)
  then show c: "cleaned rep d i rs g" using b gone gone_in_order by (auto simp: cleaned_def)
  show "named rep d i rs g" if "g (resume_identity_path d) = Some (File (identity_payload i))"
    using c identity_at_written [of i g d] assms(3) that by (auto simp: named_def)
qed

lemma manifest_replaced:
  assumes "named rep d i rs f" "gone d f" "d \<noteq> []" "length rs \<le> MAX_PARALLEL_SEGMENTS"
    and "same_outside {segment_manifest_path d, tmp_of (segment_manifest_path d)} f g"
  shows "in_order rep d g" "(\<And>m. manifest_at g d = Some m \<Longrightarrow> m = rs) \<Longrightarrow> ready rep d i rs g"
proof -
  have same: "g d = f d" "identity_at g d = identity_at f d" "\<And>k. g (segment_part_path d k) = f (segment_part_path d k)"
    using assms(3,5) by (simp_all add: same_outside_def identity_at_def)
  have b: "begun (rep (ri_validator i)) d g" and gone: "gone d g"
    using assms(1,2) same gone_same [of d f g] begun_same [of g d f] by (auto simp: named_def cleaned_def)
  have v: "\<And>j. identity_at g d = Some j \<Longrightarrow> ri_validator j = ri_validator i" using assms(1) same(2) by (simp add: named_def)
  show "in_order rep d g" using gone_in_order [OF gone] begun_staged [of rep "ri_validator i" d g] b v by blast
  show "ready rep d i rs g" if "\<And>m. manifest_at g d = Some m \<Longrightarrow> m = rs"
    using that v b gone_parts_ok [OF gone assms(4)] by (auto simp: ready_def tags_def)
qed

text \<open>A sidecar is there as it was, gone, or new.\<close>

lemma replaces:
  assumes "p \<noteq> []"
  shows "runs_on A (replace_sidecar p payload) f
    (\<lambda>_ g. g p = Some (File payload) \<and> same_outside {p, tmp_of p} f g)
    (\<lambda>_ g. g p \<in> {f p, None, Some (File payload)} \<and> same_outside {p, tmp_of p} f g)
    (\<lambda>g. g p \<in> {f p, None, Some (File payload)} \<and> same_outside {p, tmp_of p} f g)"
proof -
  define L where "L g \<longleftrightarrow> g p \<in> {f p, None, Some (File payload)} \<and> same_outside {p, tmp_of p} f g" for g
  have written: "runs_on A (write_synced io (tmp_of p) payload) f
      (\<lambda>_ g. g (tmp_of p) = Some (File payload) \<and> L g) (\<lambda>_. L) L" for io :: "path \<Rightarrow> TransportError"
    unfolding write_synced_def
    by (intro on_intros runs_on_mono [OF on_truncate])
      (use assms in \<open>auto simp: fs_write_all_def fs_sync_def L_def same_outside_def intro!: on_intros\<close>)
  have removed: "runs_on A (do_if b (file_io p (fs_remove_file p))) g (\<lambda>_ h. h (tmp_of p) = Some (File payload) \<and> L h) (\<lambda>_. L) L"
    if "g (tmp_of p) = Some (File payload)" "L g" for g b
    using that assms by (auto simp: fs_remove_file_def L_def same_outside_def intro!: on_intros split: option.splits node.splits)
  have renamed: "runs_on A (fs_rename (tmp_of p) p) g (\<lambda>_ h. h p = Some (File payload) \<and> L h) (\<lambda>_. L) L"
    if "g (tmp_of p) = Some (File payload)" "L g" for g
    using that assms by (auto simp: fs_rename_def L_def same_outside_def)
  have "runs_on A (replace_sidecar p payload) f (\<lambda>_ g. g p = Some (File payload) \<and> L g) (\<lambda>_. L) L"
    unfolding replace_sidecar_def Let_def
    by (intro on_intros runs_on_mono [OF written])
      (auto intro!: on_intros runs_on_mono [OF removed] runs_on_mono [OF renamed])
  then show ?thesis by (rule runs_on_mono) (simp_all add: L_def)
qed

subsection \<open>Steps without faults\<close>

locale unrefused =
  fixes allowed :: "io_event \<Rightarrow> bool"
  assumes unrefused [simp]: "\<not> allowed (Fail n)"
begin

lemma removes: "runs_on allowed (ignore (fs_remove_file p)) f (\<lambda>_ g. g = removed p f) E (\<lambda>g. g = f)"
  by (intro on_intros) (auto simp: fs_remove_file_def removed_def split: option.splits node.splits)

lemma reads: "runs_on allowed (read_text p) f (\<lambda>t g. g = f \<and> t = Option.bind (file_data (f p)) from_utf8) E (\<lambda>g. g = f)"
  unfolding read_text_def by (intro on_intros) (auto simp: fs_read_def split: option.splits)

lemma reads_identity: "runs_on allowed (read_resume_identity d) f (\<lambda>i g. g = f \<and> i = identity_at f d) E (\<lambda>g. g = f)"
  unfolding read_resume_identity_def by (intro on_intros runs_on_mono [OF reads]) (auto simp: identity_at_def)

lemma reads_manifest: "runs_on allowed (read_segment_manifest d) f (\<lambda>m g. g = f \<and> m = manifest_at f d) E (\<lambda>g. g = f)"
  unfolding read_segment_manifest_def by (intro on_intros runs_on_mono [OF reads]) (auto simp: manifest_at_def)

lemma measures:
  "runs_on allowed (length_or_zero p) f (\<lambda>n g. g = f \<and> n = (case file_data (f p) of None \<Rightarrow> 0 | Some b \<Rightarrow> length b)) E (\<lambda>g. g = f)"
  unfolding length_or_zero_def by (intro on_intros) (auto simp: fs_metadata_len_def split: option.splits)

lemma looks: "runs_on allowed (any_exists ps) f (\<lambda>x g. g = f \<and> x = list_ex (node_exists f) ps) E (\<lambda>g. g = f)"
proof (induction ps)
  case (Cons p ps)
  then show ?case by (cases "node_exists f p") (auto intro!: runs_on_exists_bind)
qed simp

lemma clears_remove: "clears allowed {p} (ignore (fs_remove_file p))"
proof -
  have d: "dusted {p} f (removed p f)" "dusted {p} f f" for f by (simp_all add: dusted_def same_outside_def)
  show ?thesis
    unfolding clears_def by (rule allI, rule runs_on_mono [OF removes [where E = "\<lambda>_ _. False"]]) (simp_all add: swept_def d)
qed

lemma clears_drop: "clears allowed (segment_files d) (drop_segments d)"
proof -
  have "clears allowed (\<Union>k \<in> set [0..<MAX_PARALLEL_SEGMENTS]. {segment_part_path d k} \<union> {segment_done_path d k})
      (each (discard_segment d) [0..<MAX_PARALLEL_SEGMENTS])"
    unfolding discard_segment_def by (intro clears_each clears_ibind clears_remove)
  then have "clears allowed ((\<Union>k \<in> set [0..<MAX_PARALLEL_SEGMENTS]. {segment_part_path d k} \<union> {segment_done_path d k})
      \<union> ({segment_merge_path d} \<union> {segment_manifest_path d}) \<union> {resume_identity_path d}) (drop_segments d)"
    unfolding drop_segments_def cleanup_segment_artifacts_def remove_segment_manifest_def remove_resume_identity_def
    by (intro clears_ibind clears_remove)
  moreover have "(\<Union>k \<in> set [0..<MAX_PARALLEL_SEGMENTS]. {segment_part_path d k} \<union> {segment_done_path d k})
      \<union> ({segment_merge_path d} \<union> {segment_manifest_path d}) \<union> {resume_identity_path d} = segment_files d"
    by (auto simp: segment_files_def segment_artifacts_def)
  ultimately show ?thesis by simp
qed

lemma drops:
  assumes "d \<noteq> []"
  shows "runs_on allowed (drop_segments d) f (\<lambda>_ g. swept (segment_files d) f g \<and> g d = f d) E (\<lambda>g. erased f g \<and> g d = f d)"
  by (rule runs_on_mono [OF clears_drop [unfolded clears_def, rule_format]])
    (use dusted_destination [OF _ assms] in \<open>auto simp: swept_def dusted_def\<close>)

lemma claims:
  assumes d: "d \<noteq> []" and f: "in_order rep d f" "begun (rep (ri_validator i)) d f" and i: "sound_identity i"
    and rs: "list_all plan_text_ok rs" "rs \<noteq> []" "length rs \<le> MAX_PARALLEL_SEGMENTS"
    and has: "\<not> has \<Longrightarrow> gone d f"
  shows "runs_on allowed (claim_segments d i rs has) f (\<lambda>_. ready rep d i rs) (\<lambda>_. in_order rep d) (in_order rep d)"
proof -
  have c: "in_order rep d g" if "cleaned rep d i rs g" for g using that by (simp add: cleaned_def)
  have dropped: "runs_on allowed (do_if (has \<and> \<not> (identity_at f d = Some i \<and> manifest_at f d = Some rs)) (drop_segments d)) f
      (\<lambda>_. cleaned rep d i rs) (\<lambda>_. in_order rep d) (in_order rep d)"
  proof (cases "has \<and> \<not> matched d i rs f")
    case True
    have "cleaned rep d i rs g" if "swept (segment_files d) f g" "g d = f d" for g
      using f that swept_segments [OF that(1)] begun_same [of g d f] erased_in_order [of f g] by (auto simp: cleaned_def swept_def dusted_def)
    with True show ?thesis
      using erased_in_order f(1) by (auto simp: matched_def intro!: runs_on_mono [OF drops [OF d]])
  next
    case False
    then show ?thesis using f has by (auto simp: matched_def cleaned_def)
  qed
  have identified: "runs_on allowed (do_if (identity_at g d \<noteq> Some i) (write_resume_identity d i)) g
      (\<lambda>_. named rep d i rs) (\<lambda>_. in_order rep d) (in_order rep d)" if g: "cleaned rep d i rs g" for g
  proof (cases "identity_at g d = Some i")
    case False
    then have gone: "gone d g" using g by (auto simp: cleaned_def matched_def)
    show ?thesis
      using False identity_replaced [OF g gone i d] c d
      by (auto simp: write_resume_identity_def intro!: runs_on_mono [OF replaces])
  qed (use g in \<open>auto simp: named_def\<close>)
  have planned: "runs_on allowed (do_if (manifest_at g d \<noteq> Some rs) (write_segment_manifest d rs)) g
      (\<lambda>_. ready rep d i rs) (\<lambda>_. in_order rep d) (in_order rep d)" if g: "named rep d i rs g" for g
  proof (cases "manifest_at g d = Some rs \<and> matched d i rs g")
    case True
    then show ?thesis using g matched_ready by (auto simp: named_def)
  next
    case False
    then have gone: "gone d g" using g by (auto simp: named_def cleaned_def matched_def)
    have p: "segment_manifest_path d \<noteq> []" by (simp add: segment_manifest_path_def append_suffix_def)
    show ?thesis
    proof (cases "manifest_at g d = Some rs")
      case True
      then show ?thesis
        using manifest_replaced(2) [OF g gone d rs(3), of g] by simp
    next
      case False
      then show ?thesis
        using manifest_replaced [OF g gone d rs(3)] manifest_at_written [OF rs]
        by (auto simp: write_segment_manifest_def intro!: runs_on_mono [OF replaces [OF p]])
    qed
  qed
  show ?thesis
    unfolding claim_segments_def
    by (rule runs_on_ibind, rule runs_on_mono [OF reads_identity [where E = "\<lambda>_ _. False"]], elim conjE, hypsubst,
        rule runs_on_ibind, rule runs_on_mono [OF reads_manifest [where E = "\<lambda>_ _. False"]], elim conjE, hypsubst,
        rule runs_on_ibind, rule runs_on_mono [OF dropped],
        rule runs_on_ibind, rule runs_on_mono [OF reads_identity [where E = "\<lambda>_ _. False"]], elim conjE, hypsubst,
        rule runs_on_ibind, rule runs_on_mono [OF identified], assumption,
        rule runs_on_ibind, rule runs_on_mono [OF reads_manifest [where E = "\<lambda>_ _. False"]], elim conjE, hypsubst,
        rule planned, assumption)
      (use f(1) c in \<open>auto simp: named_def\<close>)
qed

end

end
