(* ===== verification/Segments_Fetch.thy ===== *)
theory Segments_Fetch
  imports Segments_Steps
begin

text \<open>
  Fetching and merging: prepared parts, the workers, the merge and its commit, for runs in which the system refuses
  no call.
\<close>

lemma runs_on_is_file [simp]: "runs_on A (path_is_file p) f Q E S \<longleftrightarrow> Q (file_data (f p) \<noteq> None) f"
  by (auto simp: runs_on_def path_is_file_def intro: exI [of _ "quiet f"])

lemma leaves_is_file [leaves_intros]: "leaves q (path_is_file p)"
  by (simp add: leaves_def)

lemma prefix_full: "prefix b xs \<Longrightarrow> length b = length xs \<Longrightarrow> b = xs"
  by (auto simp: prefix_def)

lemma extras [simp]: "segment_part_path d k \<notin> segment_extras d" "segment_done_path d k \<in> segment_extras d"
  "segment_merge_path d \<in> segment_extras d"
  by (auto simp: segment_extras_def)

subsection \<open>Parts\<close>

definition full_part :: "u8 list \<Rightarrow> path \<Rightarrow> byte_range list \<Rightarrow> nat \<Rightarrow> fs \<Rightarrow> bool" where
  "full_part whole d rs k f \<longleftrightarrow> f (segment_part_path d k) = Some (File (range_slice whole (rs ! k)))"

definition startable :: "path \<Rightarrow> nat \<Rightarrow> nat \<Rightarrow> fs \<Rightarrow> bool" where
  "startable d k existing f \<longleftrightarrow>
     existing = 0 \<or> (\<exists>old. f (segment_part_path d k) = Some (File old) \<and> length old = existing)"

text \<open>What is known of a part once it is prepared.\<close>

definition prepared_part :: "u8 list \<Rightarrow> path \<Rightarrow> byte_range list \<Rightarrow> nat \<times> byte_range \<times> nat \<times> bool \<Rightarrow> fs \<Rightarrow> bool" where
  "prepared_part whole d rs = (\<lambda>(k, r, existing, complete) f.
     if complete then full_part whole d rs k f else startable d k existing f)"

lemma full_part_same: "g (segment_part_path d k) = f (segment_part_path d k) \<Longrightarrow> full_part whole d rs k g = full_part whole d rs k f"
  by (simp add: full_part_def)

lemma prepared_part_same:
  "g (segment_part_path d k) = f (segment_part_path d k) \<Longrightarrow>
     prepared_part whole d rs (k, r, e, c) g = prepared_part whole d rs (k, r, e, c) f"
  by (simp add: prepared_part_def full_part_def startable_def)

lemma ready_full:
  assumes "ready rep d i rs f" "k < length rs" "f (segment_part_path d k) = Some (File b)"
    "length b = length (range_slice (rep (ri_validator i)) (rs ! k))"
  shows "full_part (rep (ri_validator i)) d rs k f"
proof -
  have "prefix b (range_slice (rep (ri_validator i)) (rs ! k))" using assms(1-3) by (simp add: ready_def parts_ok_def)
  then have "b = range_slice (rep (ri_validator i)) (rs ! k)" by (rule prefix_full [OF _ assms(4)])
  with assms(3) show ?thesis by (simp add: full_part_def)
qed

lemma ready_update:
  assumes "ready rep d i rs f" "d \<noteq> []" "k < length rs \<Longrightarrow> prefix b (range_slice (rep (ri_validator i)) (rs ! k))"
  shows "ready rep d i rs (f(segment_part_path d k := Some (File b)))"
  by (rule ready_part [OF assms(1) _ assms(2), of k]) (use assms(3) in \<open>auto simp: same_outside_def\<close>)

lemma ready_extra:
  assumes "ready rep d i rs f" "d \<noteq> []" "same_outside (segment_extras d) f g"
  shows "ready rep d i rs g"
proof (rule ready_part [OF assms(1) _ assms(2), of 0])
  have "segment_part_path d 0 \<notin> segment_extras d" by (auto simp: segment_extras_def)
  then have "g (segment_part_path d 0) = f (segment_part_path d 0)" using assms(3) by (simp add: same_outside_def)
  then show "prefix b (range_slice (rep (ri_validator i)) (rs ! 0))"
    if "0 < length rs" "file_data (g (segment_part_path d 0)) = Some b" for b
    using that assms(1) by (simp add: ready_def parts_ok_def)
qed (use assms(3) in \<open>auto simp: same_outside_def\<close>)

lemma leaves_prepare:
  assumes "j \<noteq> k"
  shows "leaves (segment_part_path d j) (prepare_segment_part d k n)"
proof -
  have "segment_part_path d j \<noteq> segment_part_path d k" "segment_part_path d j \<noteq> segment_done_path d k" using assms by simp_all
  then show ?thesis
    unfolding prepare_segment_part_def existing_length_def reset_part_def Let_def
    by (intro leaves_intros)
qed

lemma leaves_prepare_all: "j \<notin> fst ` set xs \<Longrightarrow> leaves (segment_part_path d j) (prepare_segments d xs t)"
proof (induction xs arbitrary: t)
  case (Cons x xs)
  then show ?case by (cases x) (auto intro!: leaves_intros leaves_prepare)
qed (simp add: leaves_intros)

lemma leaves_worker: "j \<noteq> fst x \<Longrightarrow> leaves (segment_part_path d j) (segment_worker curl version url d ctx v x)"
  unfolding segment_worker_def open_staging_def check_segment_def mark_segment_complete_def write_synced_def length_or_zero_def Let_def
  by (cases x) (auto intro!: leaves_intros)

lemma leaves_workers:
  "j \<notin> fst ` set xs \<Longrightarrow> leaves (segment_part_path d j) (run_workers (segment_worker curl version url d ctx v) xs)"
  by (induction xs) (auto intro!: leaves_intros leaves_worker)

lemma leaves_all:
  assumes "runs_on A m f Q E S" "\<And>q. q \<in> P \<Longrightarrow> leaves q m"
  shows "runs_on A m f (\<lambda>x g. Q x g \<and> (\<forall>q \<in> P. g q = f q)) (\<lambda>e g. E e g \<and> (\<forall>q \<in> P. g q = f q)) (\<lambda>g. S g \<and> (\<forall>q \<in> P. g q = f q))"
  unfolding runs_on_def
proof (intro allI impI, elim conjE)
  fix w :: world assume w: "files w = f" "list_all A (events w)"
  obtain r w' where m: "m w = (r, w')" by fastforce
  have "files w' q = f q" if "q \<in> P" for q
    using runs_onD(2) [OF leavesD [OF assms(2) [OF that], of A "files w"] w(2) m] w(1) by (cases r) simp_all
  then show "list_all A (events (snd (m w)))
      \<and> (case m w of (Done x, w') \<Rightarrow> Q x (files w') \<and> (\<forall>q \<in> P. files w' q = f q)
         | (Err e, w') \<Rightarrow> E e (files w') \<and> (\<forall>q \<in> P. files w' q = f q)
         | (Stopped, w') \<Rightarrow> S (files w') \<and> (\<forall>q \<in> P. files w' q = f q))"
    using runs_onD [OF assms(1) [folded w(1)] w(2) m] m w(1) by (cases r) auto
qed

text \<open>The ranges lie within the representation.\<close>

definition bounded :: "u8 list \<Rightarrow> byte_range list \<Rightarrow> bool" where
  "bounded whole rs \<longleftrightarrow> list_all (\<lambda>r. br_start r \<le> br_end r \<and> br_end r < length whole) rs"

lemma bounded_slice:
  "bounded whole rs \<Longrightarrow> k < length rs \<Longrightarrow> length (range_slice whole (rs ! k)) = br_end (rs ! k) - br_start (rs ! k) + 1"
  by (auto simp: bounded_def list_all_length bslice_def)

context unrefused
begin

lemma prepares:
  assumes d: "d \<noteq> []" and f: "ready rep d i rs f" and k: "k < length rs" "length (range_slice (rep (ri_validator i)) (rs ! k)) = n"
    and pos: "0 < n"
  shows "runs_on allowed (prepare_segment_part d k n) f
    (\<lambda>(e, c) g. ready rep d i rs g \<and> prepared_part (rep (ri_validator i)) d rs (k, r, e, c) g)
    (\<lambda>_. ready rep d i rs) (ready rep d i rs)"
proof -
  let ?p = "segment_part_path d k" and ?D = "segment_done_path d k" and ?R = "ready rep d i rs"
  have reset: "runs_on allowed (if n \<le> a then ibind (reset_part ?p) (\<lambda>_. ret 0) else ret a) f
      (\<lambda>e g. ?R g \<and> startable d k e g) (\<lambda>_. ?R) ?R"
    if "f ?p = None \<and> a = 0 \<or> (\<exists>b. f ?p = Some (File b) \<and> a = length b)" for a
  proof (cases "n \<le> a")
    case True
    have "?R (f(?p := Some (File [])))" by (rule ready_update [OF f d]) simp
    with True f show ?thesis
      by (auto simp: reset_part_def startable_def intro!: on_intros runs_on_mono [OF on_truncate] runs_on_mono [OF on_sync])
  qed (use that f in \<open>auto simp: startable_def\<close>)
  have unmarked: "runs_on allowed (ibind (ignore (fs_remove_file ?D)) (\<lambda>_. ret (e, False))) g
      (\<lambda>(e, c) h. ?R h \<and> prepared_part (rep (ri_validator i)) d rs (k, r, e, c) h) (\<lambda>_. ?R) ?R"
    if "?R g" "startable d k e g" for e g
  proof -
    have "?R (removed ?D g)"
      by (rule ready_extra [OF that(1) d]) (auto simp: same_outside_def segment_extras_def removed_def)
    moreover have "startable d k e (removed ?D g)" using that(2) by (simp add: startable_def)
    ultimately show ?thesis
      using that(1) by (intro on_intros runs_on_mono [OF removes]) (simp_all add: prepared_part_def)
  qed
  have whole: "?R f \<and> prepared_part (rep (ri_validator i)) d rs (k, r, a, True) f"
    if "f ?p = None \<and> a = 0 \<or> (\<exists>b. f ?p = Some (File b) \<and> a = length b)" "a = n" "0 < n" for a
    using that f k ready_full [OF f k(1)] by (auto simp: prepared_part_def)
  show ?thesis
    unfolding prepare_segment_part_def Let_def
    by (rule runs_on_ibind, rule runs_on_mono [OF on_existing_length], elim conjE, hypsubst, rule runs_on_ibind,
        simp only: runs_on_is_file, rule runs_on_if, simp only: runs_on_ret prod.case, rule whole, assumption, simp, rule pos,
        rule runs_on_ibind, rule runs_on_mono [OF reset], assumption, elim conjE, rule unmarked)
      (use f in simp_all)
qed

lemma prepares_all:
  assumes d: "d \<noteq> []" and rs: "bounded (rep (ri_validator i)) rs"
    and "ready rep d i rs f" "distinct (map fst xs)" "\<And>k r. (k, r) \<in> set xs \<Longrightarrow> k < length rs \<and> r = rs ! k"
  shows "runs_on allowed (prepare_segments d xs t) f
    (\<lambda>(ps, _) g. ready rep d i rs g \<and> map (\<lambda>(k, r, _). (k, r)) ps = xs
       \<and> (\<forall>p \<in> set ps. prepared_part (rep (ri_validator i)) d rs p g))
    (\<lambda>_. ready rep d i rs) (ready rep d i rs)"
  using assms(3-5)
proof (induction xs arbitrary: f t)
  case (Cons x xs)
  obtain k r where x: "x = (k, r)" by fastforce
  have k: "k < length rs" "r = rs ! k" using Cons.prems(3) x by auto
  have apart: "k \<notin> fst ` set xs" using Cons.prems(2) x by auto
  note slice = bounded_slice [OF rs k(1)]
  have rest: "runs_on allowed (ibind (prepare_segments d xs total) (\<lambda>(ps, n). ret ((k, r, e, c) # ps, n))) g
      (\<lambda>(ps, _) h. ready rep d i rs h \<and> map (\<lambda>(k, r, _). (k, r)) ps = x # xs
         \<and> (\<forall>p \<in> set ps. prepared_part (rep (ri_validator i)) d rs p h))
      (\<lambda>_. ready rep d i rs) (ready rep d i rs)"
    if g: "ready rep d i rs g" "prepared_part (rep (ri_validator i)) d rs (k, r, e, c) g" for g e c total
  proof -
    have "runs_on allowed (prepare_segments d xs total) g
        (\<lambda>(ps, _) h. ready rep d i rs h \<and> map (\<lambda>(k, r, _). (k, r)) ps = xs
          \<and> (\<forall>p \<in> set ps. prepared_part (rep (ri_validator i)) d rs p h)) (\<lambda>_. ready rep d i rs) (ready rep d i rs)"
      by (rule Cons.IH [OF g(1)]) (use Cons.prems in auto)
    from runs_on_conj [OF this leavesD [OF leaves_prepare_all [OF apart]]]
    have "runs_on allowed (prepare_segments d xs total) g
        (\<lambda>(ps, _) h. ready rep d i rs h \<and> map (\<lambda>(k, r, _). (k, r)) ps = xs
          \<and> (\<forall>p \<in> set ps. prepared_part (rep (ri_validator i)) d rs p h)
          \<and> prepared_part (rep (ri_validator i)) d rs (k, r, e, c) h) (\<lambda>_. ready rep d i rs) (ready rep d i rs)"
      by (rule runs_on_mono) (auto simp: prepared_part_same [of _ _ _ g] g(2))
    then show ?thesis
      by (intro runs_on_ibind) (erule runs_on_mono, auto simp: x)
  qed
  show ?case
    unfolding x prepare_segments.simps
    by (rule runs_on_ibind, rule runs_on_mono [OF prepares [OF d Cons.prems(1) k(1) slice, unfolded k(2) [symmetric]]])
      (auto intro!: runs_on_bind_lift rest [unfolded x])
qed simp

lemma marks:
  assumes "d \<noteq> []"
  shows "runs_on allowed (mark_segment_complete d k) f (\<lambda>_. same_outside (segment_extras d) f)
    (\<lambda>_. same_outside (segment_extras d) f) (same_outside (segment_extras d) f)"
  unfolding mark_segment_complete_def write_synced_def
  by (intro on_intros runs_on_mono [OF on_truncate])
    (auto simp: fs_write_all_def fs_sync_def extras intro!: on_intros)

lemma checks:
  assumes d: "d \<noteq> []" and f: "ready rep d i rs f" "full_part (rep (ri_validator i)) d rs k f"
  shows "runs_on allowed (check_segment d k n) f
    (\<lambda>_ g. ready rep d i rs g \<and> full_part (rep (ri_validator i)) d rs k g) E (ready rep d i rs)"
proof -
  have kept: "ready rep d i rs g \<and> full_part (rep (ri_validator i)) d rs k g" if "same_outside (segment_extras d) f g" for g
    using ready_extra [OF f(1) d that] f(2) that by (simp add: full_part_def same_outside_def extras)
  show ?thesis
    unfolding check_segment_def
    by (rule runs_on_ibind, rule runs_on_mono [OF measures [where E = E]], elim conjE, hypsubst, rule runs_on_if, simp add: f,
        intro on_intros runs_on_mono [OF marks [OF d]])
      (use f kept in auto)
qed

text \<open>One worker: whatever the transfer does, the part stays a beginning of its range, and it is the whole range when
  the worker reports no error.\<close>

lemma works:
  assumes curl: "faithful rep curl" and d: "d \<noteq> []" and rs: "bounded (rep (ri_validator i)) rs" and k: "k < length rs" "r = rs ! k"
    and f: "ready rep d i rs f" "startable d k e f"
  shows "runs_on allowed (segment_worker curl version url d ctx (ri_validator i) (k, r, e)) f
    (\<lambda>(res, _) g. ready rep d i rs g \<and> (res = Inr () \<longrightarrow> full_part (rep (ri_validator i)) d rs k g)) E (ready rep d i rs)"
proof -
  let ?p = "segment_part_path d k" and ?R = "ready rep d i rs" and ?w = "rep (ri_validator i)"
  let ?slice = "range_slice ?w r"
  obtain old where old: "e = 0 \<or> f ?p = Some (File old)" "length old = e" "prefix old ?slice"
  proof (cases "e = 0")
    case False
    then obtain old where "f ?p = Some (File old)" "length old = e" using f(2) by (auto simp: startable_def)
    moreover have "prefix old (range_slice ?w (rs ! k))"
      using f(1) k(1) calculation by (simp add: ready_def parts_ok_def)
    ultimately show ?thesis using that k(2) by blast
  qed (use that in auto)
  have base: "(if e = 0 then [] else old) = old" using old(2) by auto
  have within: "?R (f(?p := Some (File (old @ got))))" if "prefix got (drop e ?slice)" for got
  proof -
    have "?slice = old @ drop e ?slice" using old(2,3) by (metis append_eq_conv_conj prefix_def)
    then have "prefix (old @ got) ?slice" using that by (metis same_prefix_prefix)
    then show ?thesis using ready_update [OF f(1) d] k by simp
  qed
  have served: "prefix (range_body (br_start r + e) (br_end r) (cr_calls run) range_start) (drop e ?slice)"
    if req: "request_run curl version Get url (Some (br_start r + e, br_end r)) ctx (if_range_header (Some (ri_validator i))) = Inr run" for run
  proof -
    obtain rq where "curl rq = Some run" "rq_method rq = Get" "rq_range rq = Some (br_start r + e, br_end r)" "conditional_on (ri_validator i) rq"
      using request_conditional [OF req] .
    then have "prefix (range_body (br_start r + e) (br_end r) (cr_calls run) range_start) (bslice ?w (br_start r + e) (br_end r + 1))"
      using curl unfolding faithful_def by blast
    then show ?thesis by (simp add: bslice_def drop_take add.commute)
  qed
  have full: "full_part ?w d rs k (f(?p := Some (File (old @ got))))"
    if "prefix got (drop e ?slice)" "length got = br_end r - (br_start r + e) + 1" "br_start r + e \<le> br_end r" for got
    using ready_full [OF within [OF that(1)] k(1)] bounded_slice [OF rs k(1)] that(2,3) old(2) k(2) by simp
  have after: "runs_on allowed (ibind (attempt (file_io ?p (fs_sync ?p))) (\<lambda>synced.
         case synced of
           Inl e \<Rightarrow> ret (Inl e, True)
         | Inr _ \<Rightarrow>
             (case streamed of
                Inl e \<Rightarrow> ret (Inl e, True)
              | Inr _ \<Rightarrow> check_segment d k n))) g
      (\<lambda>(res, _) h. ?R h \<and> (res = Inr () \<longrightarrow> full_part ?w d rs k h)) E ?R"
    if "?R g" "\<And>x. streamed = Inr x \<Longrightarrow> full_part ?w d rs k g" for streamed :: "(TransportError, range_result) result" and g n
    by (intro on_intros runs_on_mono [OF on_sync])
      (use that in \<open>auto split: sum.split intro!: runs_on_mono [OF checks [OF d that(1), where E = E]]\<close>)
  have opened: "runs_on allowed (open_staging ?p e) f (\<lambda>_ g. g = f(?p := Some (File old))) (\<lambda>_ g. g = f) (\<lambda>g. g = f)"
    using on_open_staging [of e f ?p old allowed, OF old(1)] unfolding base .
  have stream: "runs_on allowed (attempt (stream_http_range curl version url (br_start r + e) (br_end r) (staging_sink ?p e) ctx (Some (ri_validator i))))
      (f(?p := Some (File old)))
      (\<lambda>streamed g. ?R g \<and> (\<forall>x. streamed = Inr x \<longrightarrow> full_part ?w d rs k g)) E ?R"
    by (rule runs_on_attempt, rule runs_on_mono [OF range_staged [where body = "drop e ?slice" and old = old and d = ?p, unfolded old(2), OF _ served]])
      (use within full in auto)
  show ?thesis
    unfolding segment_worker_def prod.case Let_def
    by (rule runs_on_ibind, rule runs_on_attempt, rule runs_on_mono [OF opened], hypsubst, unfold sum.case,
        rule runs_on_ibind, rule runs_on_mono [OF stream], elim conjE, rule after)
      (use f(1) in auto)
qed

lemma works_all:
  assumes curl: "faithful rep curl" and d: "d \<noteq> []" and rs: "bounded (rep (ri_validator i)) rs"
    and "ready rep d i rs f" "distinct (map fst xs)"
    and "\<And>k r e. (k, r, e) \<in> set xs \<Longrightarrow> k < length rs \<and> r = rs ! k \<and> startable d k e f"
  shows "runs_on allowed (run_workers (segment_worker curl version url d ctx (ri_validator i)) xs) f
    (\<lambda>res g. ready rep d i rs g \<and> list_all2 (\<lambda>x y. fst y = Inr () \<longrightarrow> full_part (rep (ri_validator i)) d rs (fst x) g) xs res)
    E (ready rep d i rs)"
  using assms(4-6)
proof (induction xs arbitrary: f)
  case (Cons x xs)
  let ?w = "rep (ri_validator i)" and ?work = "segment_worker curl version url d ctx (ri_validator i)" and ?R = "ready rep d i rs"
  obtain k r e where x: "x = (k, r, e)" by (cases x) auto
  have k: "k < length rs" "r = rs ! k" "startable d k e f" using Cons.prems(3) x by auto
  have apart: "k \<notin> fst ` set xs" using Cons.prems(2) x by auto
  have others: "leaves q (?work (k, r, e))" if "q \<in> segment_part_path d ` (- {k})" for q
    using that by (auto intro: leaves_worker)
  have first: "runs_on allowed (?work x) f (\<lambda>y g. ?R g \<and> (fst y = Inr () \<longrightarrow> full_part ?w d rs k g)
      \<and> (\<forall>j. j \<noteq> k \<longrightarrow> g (segment_part_path d j) = f (segment_part_path d j))) E ?R"
    unfolding x
    by (rule runs_on_mono [OF leaves_all [OF works [OF curl d rs k(1,2) Cons.prems(1) k(3), where E = E]
          others]]) auto
  have rest: "runs_on allowed (run_workers ?work xs) g
      (\<lambda>res h. ?R h \<and> list_all2 (\<lambda>x y. fst y = Inr () \<longrightarrow> full_part ?w d rs (fst x) h) xs res
         \<and> (full_part ?w d rs k g \<longrightarrow> full_part ?w d rs k h)) E ?R"
    if g: "?R g" "\<forall>j. j \<noteq> k \<longrightarrow> g (segment_part_path d j) = f (segment_part_path d j)" for g
  proof -
    have "j < length rs \<and> r' = rs ! j \<and> startable d j e' g" if "(j, r', e') \<in> set xs" for j r' e'
    proof -
      have "j \<noteq> k" using that apart by force
      then show ?thesis using g(2) Cons.prems(3) [of j r' e'] that by (simp add: startable_def)
    qed
    then have "runs_on allowed (run_workers ?work xs) g
        (\<lambda>res h. ?R h \<and> list_all2 (\<lambda>x y. fst y = Inr () \<longrightarrow> full_part ?w d rs (fst x) h) xs res) E ?R"
      using Cons.prems by (intro Cons.IH [OF g(1)]) auto
    from runs_on_conj [OF this leavesD [OF leaves_workers [OF apart]]]
    show ?thesis by (rule runs_on_mono) (simp_all add: full_part_def)
  qed
  show ?case
    unfolding run_workers.simps
    by (rule runs_on_ibind, rule runs_on_mono [OF first], elim conjE, rule runs_on_ibind, rule runs_on_mono [OF rest])
      (auto simp: x)
qed simp

lemma merges_parts:
  assumes "\<And>k. k \<in> set ks \<Longrightarrow> f (segment_part_path d k) = Some (File (s k))" "f (segment_merge_path d) = Some (File got)" "length got = n"
  shows "runs_on allowed (merge_parts ctl d ks n) f
    (\<lambda>_ g. g = f(segment_merge_path d := Some (File (got @ concat (map s ks)))))
    (\<lambda>_. same_outside {segment_merge_path d} f) (same_outside {segment_merge_path d} f)"
  using assms
proof (induction ks arbitrary: f got n)
  case (Cons k ks)
  let ?p = "segment_part_path d k" and ?m = "segment_merge_path d" and ?s = "s k"
  have p: "f ?p = Some (File ?s)" using Cons.prems(1) by simp
  let ?f = "f(?m := Some (File (got @ ?s)))"
  have written: "write_at ?m n ?s f = ?f"
    using Cons.prems(2) by (simp add: write_at_def Cons.prems(3) [symmetric] fun_upd_idem)
  have later: "runs_on allowed (merge_parts ctl d ks (n + length ?s)) ?f
      (\<lambda>_ g. g = f(?m := Some (File (got @ concat (map s (k # ks))))))
      (\<lambda>_. same_outside {?m} f) (same_outside {?m} f)"
    by (rule runs_on_mono [OF Cons.IH [of ?f "got @ ?s" "n + length ?s"]])
      (use Cons.prems in \<open>auto simp: same_outside_def\<close>)
  show ?case
    unfolding merge_parts.simps continue_or_def Let_def
    by (auto intro!: on_intros runs_on_mono [OF later] simp: fs_open_def fs_read_def p fs_write_all_def written fun_eq_iff split: TransferControl.split)
qed (simp add: fun_upd_idem)

lemma merges:
  assumes "\<And>k. k < length rs \<Longrightarrow> full_part whole d rs k f" "covered rs = [0..<length whole]"
  shows "runs_on allowed (merge_segments ctl d (length rs) n) f
    (\<lambda>_ g. g = f(segment_merge_path d := Some (File whole)))
    (\<lambda>_. same_outside {segment_merge_path d} f) (same_outside {segment_merge_path d} f)"
proof -
  let ?m = "segment_merge_path d"
  let ?f = "f(?m := Some (File []))"
  have all: "concat (map (\<lambda>k. range_slice whole (rs ! k)) [0..<length rs]) = whole"
  proof -
    have "map (\<lambda>k. range_slice whole (rs ! k)) [0..<length rs] = map (range_slice whole) rs" by (rule nth_equalityI) simp_all
    then show ?thesis by (simp only: slices_cover [OF assms(2)])
  qed
  have parts: "runs_on allowed (merge_parts ctl d [0..<length rs] 0) ?f (\<lambda>_ g. g = f(?m := Some (File whole)))
      (\<lambda>_. same_outside {?m} f) (same_outside {?m} f)"
    by (rule runs_on_mono [OF merges_parts [where s = "\<lambda>k. range_slice whole (rs ! k)" and got = "[]"]])
      (use assms(1) all in \<open>simp_all add: full_part_def same_outside_def\<close>)
  show ?thesis
    unfolding merge_segments_def Let_def
    by (intro on_intros runs_on_mono [OF on_truncate] runs_on_mono [OF on_sync])
      (auto intro!: on_intros runs_on_mono [OF parts] runs_on_mono [OF on_sync] runs_on_mono [OF measures] simp: same_outside_def)
qed

end

end
