(* ===== verification/Download_Samples.thy ===== *)
theory Download_Samples
  imports Download_Safety
begin

text \<open>
  A faithful origin with one representation, and downloads from it that the properties are applied to.
\<close>

definition sample_body :: "u8 list" where "sample_body = lit ''hello''"

definition sample_tag :: str where "sample_tag = [0x22, 0x76, 0x22]"

definition sample_rep :: "str \<Rightarrow> u8 list" where
  "sample_rep v = (if v = sample_tag then sample_body else [])"

definition crlf :: "string \<Rightarrow> u8 list" where "crlf s = lit s @ [0x0d, 0x0a]"

definition range_line :: "nat \<Rightarrow> u8 list" where
  "range_line start = lit ''Content-Range: bytes '' @ nat_to_dec start @ crlf ''-4/5''"

definition sample_run :: "curl_call list \<Rightarrow> nat \<Rightarrow> curl_run" where
  "sample_run calls status = \<lparr>cr_calls = calls, cr_ok = True, cr_status = Some status, cr_length = Some 5, cr_url = Some None\<rparr>"

definition sample_origin :: curl where
  "sample_origin rq =
     (case (rq_method rq, rq_range rq) of
        (Head, _) \<Rightarrow> Some (sample_run [HeaderCall (crlf ''HTTP/1.1 200 OK''), HeaderCall (lit ''ETag: '' @ sample_tag), HeaderCall (crlf [])] 200)
      | (Get, Some (start, stop)) \<Rightarrow>
          if conditional_on sample_tag rq
          then Some (sample_run
                 [HeaderCall (crlf ''HTTP/1.1 206 Partial''),
                  HeaderCall (range_line start), HeaderCall (crlf []), DataCall (bslice sample_body start (stop + 1))] 206)
          else None
      | (Get, None) \<Rightarrow> Some (sample_run [HeaderCall (crlf ''HTTP/1.1 200 OK''), HeaderCall (crlf []), DataCall sample_body] 200)
      | _ \<Rightarrow> None)"

lemma ibind_assoc: "ibind (ibind m g) h = ibind m (\<lambda>x. ibind (g x) h)"
  by (auto simp: ibind_def fun_eq_iff split: outcome.splits prod.splits)

lemma ascii_trim: "\<forall>b \<in> set s. b \<le> 0x7f \<Longrightarrow>
    trim s = concat (rev (dropWhile is_whitespace (rev (dropWhile is_whitespace (map (\<lambda>b. [b]) s)))))"
  by (simp add: trim_def chars_ascii)

lemma white_byte: "is_whitespace [b] \<longleftrightarrow> b = 0x09 \<or> b = 0x0a \<or> b = 0x0b \<or> b = 0x0c \<or> b = 0x0d \<or> b = 0x20"
  by (auto simp: is_whitespace_def)

lemmas header_eval = from_utf8_ascii ascii_trim white_byte split_whitespace_def chars_ascii crlf_def lit_def
  parse_http_status_def parse_header_value_def parse_content_range_def split_once_def eq_ignore_ascii_case_def
  to_ascii_lowercase_def is_ascii_upper_def get_opt_def sample_tag_def
  parse_unsigned_def dec_value_def u64_limit_def is_ascii_digit_def dec_digit_def Let_def

lemma small_numbers: "nat_to_dec 0 = [0x30]" "nat_to_dec 2 = [0x32]"
  by (subst nat_to_dec.simps; simp)+

lemma blank_line [simp]: "is_blank_header (crlf [])" "parse_http_status (crlf []) = None" "parse_header_value (crlf []) n = None"
  by (simp_all add: is_blank_header_def header_eval)

lemma status_lines [simp]:
  "parse_http_status (crlf ''HTTP/1.1 200 OK'') = Some 200"
  "parse_http_status (crlf ''HTTP/1.1 206 Partial'') = Some 206"
  by (simp_all add: header_eval)

lemma tag_line [simp]:
  "parse_http_status (lit ''ETag: '' @ sample_tag) = None" "parse_header_value (lit ''ETag: '' @ sample_tag) ''etag'' = Some sample_tag"
  by (simp_all add: header_eval)

lemma sample_probe_headers:
  "probe_headers [HeaderCall (crlf ''HTTP/1.1 200 OK''), HeaderCall (lit ''ETag: '' @ sample_tag), HeaderCall (crlf [])] (None, None)
     = (Some sample_tag, None)"
  by simp

lemma strong_tag [simp]: "\<not> is_weak sample_tag"
  by (simp add: is_weak_def header_eval)

lemma range_lines [simp]:
  "parse_http_status (range_line 0) = None" "parse_http_status (range_line 2) = None"
  "is_blank_header (range_line n) = False"
  "parse_content_range (range_line 0) = Some (0, 4)" "parse_content_range (range_line 2) = Some (2, 4)"
  by (simp_all add: range_line_def is_blank_header_def header_eval small_numbers)

lemma sample_faithful: "faithful sample_rep sample_origin"
  unfolding faithful_def
proof (intro conjI allI impI, elim conjE)
  fix rq run start stop v
  assume a: "sample_origin rq = Some run" "rq_method rq = Get" "rq_range rq = Some (start, stop)" "conditional_on v rq"
  then have c: "conditional_on sample_tag rq" by (auto simp: sample_origin_def split: if_splits)
  then have "header_line (lit ''If-Range'') v = header_line (lit ''If-Range'') sample_tag"
    using a(4) by (simp add: conditional_on_def)
  then have v: "sample_rep v = sample_body" by (simp add: header_line_def sample_rep_def)
  obtain h where "cr_calls run = [HeaderCall (crlf ''HTTP/1.1 206 Partial''), HeaderCall h, HeaderCall (crlf []),
      DataCall (bslice sample_body start (stop + 1))]"
    using a(1-3) c by (auto simp: sample_origin_def sample_run_def)
  then show "prefix (range_body start stop (cr_calls run) range_start) (bslice (sample_rep v) start (stop + 1))"
    using v by simp
next
  fix version url ctx p i
  assume "probe_http_resource sample_origin version url ctx = Inr p \<and> identity_from_probe p = Some i"
  then have "pr_content_length p = Some 5" "pr_etag p = Some sample_tag" and i: "identity_from_probe p = Some i"
    using sample_probe_headers
    by (auto simp: probe_http_resource_def request_run_def rbind_def ok_or_def sample_origin_def sample_run_def reported_length_def
        split: sum.splits)
  then have "ri_validator i = sample_tag" "ri_length i = 5"
    by (auto simp: identity_from_probe_def strong_etag_def split: if_splits)
  then show "length (sample_rep (ri_validator i)) = ri_length i" by (simp add: sample_rep_def sample_body_def)
qed

definition sample_context :: request_context where
  "sample_context = \<lparr>ctx_headers = [], ctx_referer = None, ctx_cookie = None, ctx_user_agent = None\<rparr>"

definition sample_download :: "io_event list \<Rightarrow> fs \<Rightarrow> (TransportError, file_transfer) outcome \<times> world" where
  "sample_download es f =
     download_http_to_path sample_origin (lit ''1'') (lit ''http://h/f'') [lit ''f''] sample_context \<lparr>files = f, events = es\<rparr>"

abbreviation sample_path :: path where "sample_path \<equiv> [lit ''f'']"

abbreviation sample_sidecar :: path where "sample_sidecar \<equiv> resume_identity_path sample_path"

definition sample_identity :: resume_identity where
  "sample_identity = \<lparr>ri_length = 5, ri_kind = lit ''etag'', ri_validator = sample_tag\<rparr>"

definition sample_probe :: http_probe where
  "sample_probe = \<lparr>pr_status = 200, pr_content_length = Some 5, pr_effective_url = lit ''http://h/f'',
     pr_etag = Some sample_tag, pr_last_modified = None\<rparr>"

lemma sample_request:
  "request_run sample_origin (lit ''1'') mth (lit ''http://h/f'') rng sample_context extra =
     rbind (mapM_r append_header (map (\<lambda>(n, v). header_line n v) extra)) (\<lambda>lines.
     ok_or (RequestFailed CurlFailed)
       (sample_origin \<lparr>rq_method = mth, rq_url = lit ''http://h/f'', rq_range = rng, rq_agent = lit ''NOVA/1'', rq_headers = lines\<rparr>))"
  by (simp add: request_run_def easy_url_def apply_request_context_def context_validate_def validate_optional_def
      sample_context_def context_lines_def rbind_def lit_def guard_def split: sum.splits)

lemma sample_url [simp]: "ensure_http_url (lit ''http://h/f'') = Inr ()"
  by (simp add: ensure_http_url_def header_eval guard_def)

lemma sample_probed: "probe_http_resource sample_origin (lit ''1'') (lit ''http://h/f'') sample_context = Inr sample_probe"
  by (simp add: sample_request probe_http_resource_def sample_origin_def sample_run_def response_status_def effective_url_def
      reported_length_def sample_probe_def rbind_def ok_or_def)

lemma sample_identified: "identity_from_probe sample_probe = Some sample_identity"
  by (simp add: identity_from_probe_def strong_etag_def sample_probe_def sample_identity_def) (simp add: sample_tag_def)

lemma sample_conditional: "conditional_on sample_tag \<lparr>rq_method = m, rq_url = u, rq_range = r, rq_agent = a,
     rq_headers = [header_line (lit ''If-Range'') sample_tag]\<rparr>"
  by (simp add: conditional_on_def owned_line_def line_name_def header_line_def owned_headers_def header_eval)

lemma sample_range_request:
  "request_run sample_origin (lit ''1'') Get (lit ''http://h/f'') (Some (start, 4)) sample_context (if_range_header (Some sample_tag)) =
     Inr (sample_run [HeaderCall (crlf ''HTTP/1.1 206 Partial''), HeaderCall (range_line start), HeaderCall (crlf []),
       DataCall (bslice sample_body start 5)] 206)"
  using sample_conditional
  by (simp add: sample_request if_range_header_def append_header_def rbind_def ok_or_def sample_origin_def)
    (simp add: header_line_def header_eval)

lemma sample_range_stream:
  assumes "start = 0 \<or> start = 2"
  shows "stream_http_range sample_origin (lit ''1'') (lit ''http://h/f'') start 4 sink sample_context (Some sample_tag) =
    ibind (attempt (sink 0 (bslice sample_body start 5))) (\<lambda>r.
      case r of
        Inl _ \<Rightarrow> throw (RequestFailed SinkFailed)
      | Inr _ \<Rightarrow> ret \<lparr>rg_status = 206, rg_start = start, rg_end = 4, rg_bytes = 5 - start, rg_url = lit ''http://h/f''\<rparr>)"
proof -
  let ?d = "bslice sample_body start 5"
  let ?s = "\<lparr>rs_status = Some 206, rs_range = Some (start, 4), rs_valid = True, rs_received = 0, rs_error = None, rs_stop = Continue\<rparr>"
  have d: "length ?d = 5 - start" "?d \<noteq> []" using assms by (auto simp: sample_body_def bslice_def lit_def)
  have len: "range_length start 4 = Inr (5 - start)"
    using assms by (auto simp: range_length_def checked_sub_def checked_add64_def ok_or_def u64_limit_def)
  have calls: "perform_calls (range_call sink start 4 (5 - start)) [HeaderCall (crlf ''HTTP/1.1 206 Partial''), HeaderCall (range_line start),
      HeaderCall (crlf []), DataCall ?d] range_start =
    ibind (attempt (sink 0 ?d)) (\<lambda>r. case r of Inl _ \<Rightarrow> ret (False, ?s\<lparr>rs_error := Some SinkFailed\<rparr>)
      | Inr _ \<Rightarrow> ret (True, ?s\<lparr>rs_received := 5 - start\<rparr>))"
    using assms d
    by (auto simp: range_start_def range_header_def checked_add64_def u64_limit_def ibind_assoc intro!: arg_cong2 [of _ _ _ _ ibind]
        split: sum.splits)
  have run: "cr_calls (sample_run cs n) = cs" for cs n by (simp add: sample_run_def)
  show ?thesis
    unfolding stream_http_range_def sample_url len sample_range_request lift_simps ibind_ret run calls ibind_assoc
    by (auto simp: sample_run_def range_outcome_def response_status_def effective_url_def rbind_def ok_or_def intro!: arg_cong2 [of _ _ _ _ ibind]
        split: sum.splits)
qed

subsection \<open>Two sessions\<close>

lemma sample_parents [simp]:
  "parent_ok f sample_path" "parent_ok f sample_sidecar" "parent_ok f (tmp_of sample_sidecar)"
  by (simp_all add: parent_ok_def resume_identity_path_def append_suffix_def)

lemma sample_fields [simp]:
  "pr_status sample_probe = 200" "pr_content_length sample_probe = Some 5" "pr_effective_url sample_probe = lit ''http://h/f''"
  "ri_validator sample_identity = sample_tag"
  by (simp_all add: sample_probe_def sample_identity_def)

lemmas session_defs = download_http_to_path_def download_probed_def download_into_def download_sized_def download_missing_def
  download_range_def finish_range_def ensure_parent_def do_if_def is_success_def existing_length_def fs_metadata_len_def
  read_resume_identity_def read_text_def fs_read_def open_staging_def staging_sink_def remove_resume_identity_def ignore_def

lemma sample_pieces: "bslice sample_body 0 5 = sample_body" "take 2 sample_body = lit ''he''" "sample_body \<noteq> []"
  "lit ''he'' @ bslice sample_body (Suc (Suc 0)) 5 = sample_body"
  by (simp_all add: sample_body_def bslice_def lit_def)

lemma sample_sidecar_read:
  "f sample_sidecar = Some (File (identity_payload sample_identity)) \<Longrightarrow> identity_at f sample_path = Some sample_identity"
proof -
  assume f: "f sample_sidecar = Some (File (identity_payload sample_identity))"
  have "from_utf8 (identity_payload sample_identity) = Some (identity_payload sample_identity)"
    by (rule from_utf8_ascii) (simp add: identity_payload_def sample_identity_def header_eval nat_to_dec.simps)
  moreover have "parse_identity (identity_payload sample_identity) = Some sample_identity"
    by (rule identity_roundtrip) (simp_all add: sound_identity_def sample_identity_def sample_tag_def)
  ultimately show ?thesis using f by (simp add: identity_at_def)
qed

text \<open>The first session stops two bytes into the body; the second asks for the rest.\<close>

lemma sample_interrupted:
  fixes w defines "w \<equiv> sample_download [Proceed, Proceed, Proceed, Proceed, Proceed, Proceed, Proceed, Crash 2] (\<lambda>_. None)"
  shows "fst w = Stopped" "files (snd w) sample_path = Some (File (lit ''he''))"
    "files (snd w) sample_sidecar = Some (File (identity_payload sample_identity))"
  unfolding w_def sample_download_def download_http_to_path_def sample_probed
  by (simp_all add: session_defs sample_identified sample_range_stream io_defs write_resume_identity_def
      replace_sidecar_def write_synced_def fs_open_truncate_def fs_write_all_def fs_sync_def fs_rename_def node_exists_def sample_pieces)

lemma sample_resumed:
  assumes "f sample_path = Some (File (lit ''he''))" "f sample_sidecar = Some (File (identity_payload sample_identity))"
  shows "sample_download [] f =
    (Done \<lparr>tr_status = 206, tr_final_bytes = 5, tr_total_bytes = Some 5, tr_resumed_from = 2, tr_url = lit ''http://h/f''\<rparr>,
     \<lparr>files = f(sample_path := Some (File sample_body), sample_sidecar := None), events = []\<rparr>)"
  using sample_sidecar_read [of f, OF assms(2)] assms unfolding sample_download_def download_http_to_path_def sample_probed
  by (simp add: session_defs sample_identified sample_range_stream io_defs fs_open_append_def fs_append_def append_at_def
      fs_sync_def fs_remove_file_def identity_at_def checked_add64_def u64_limit_def sample_pieces)

definition sample_left :: fs where
  "sample_left = files (snd (sample_download [Proceed, Proceed, Proceed, Proceed, Proceed, Proceed, Proceed, Crash 2] (\<lambda>_. None)))"

lemma sample_history: "download_history sample_rep sample_path sample_left"
  unfolding sample_left_def sample_download_def
  by (rule download_history.session [OF download_history.fresh sample_faithful]) (simp_all add: identity_at_def)

lemma sample_left:
  "sample_left sample_path = Some (File (lit ''he''))" "sample_left sample_sidecar = Some (File (identity_payload sample_identity))"
  unfolding sample_left_def by (rule sample_interrupted)+

theorem staging_never_mixes_witness: "prefix (lit ''he'') sample_body"
  using staging_never_mixes [OF sample_history _ sample_sidecar_read [of sample_left] sample_left(1)] sample_left(2)
  by (simp add: sample_rep_def)

theorem download_exact_witness:
  "\<exists>b. files (snd (sample_download [] sample_left)) sample_path = Some (File b) \<and> length b = 5"
  using download_exact [OF sample_history _ sample_faithful
      sample_resumed [of sample_left, OF sample_left, unfolded sample_download_def]]
  by (auto simp: sample_resumed [of sample_left, OF sample_left])

end
