(* ===== verification/Segments_Sessions.thy ===== *)
theory Segments_Sessions
  imports Segments_Fetch Download_Samples
begin

text \<open>
  Sessions of segmented downloads: what a session keeps, and what a finished one has delivered.
\<close>

lemma part_path_nonempty [simp]: "segment_part_path d k \<noteq> []" "segment_done_path d k \<noteq> []"
  by (simp_all add: segment_part_path_def segment_done_path_def append_suffix_def)

subsection \<open>Invariants of programs\<close>

definition keeps :: "(fs \<Rightarrow> bool) \<Rightarrow> ('e, 'a) io \<Rightarrow> bool" where
  "keeps I m \<longleftrightarrow> (\<forall>A f. I f \<longrightarrow> runs_on A m f (\<lambda>_. I) (\<lambda>_. I) I)"

named_theorems keeps_intros "what programs keep"

lemma keeps_simple [keeps_intros]: "keeps I (ret x)" "keeps I (throw e)" "keeps I (path_exists p)" "keeps I (lift r)"
  by (simp_all add: keeps_def split: sum.splits)

lemma keeps_ibind [keeps_intros]: "keeps I m \<Longrightarrow> (\<And>x. keeps I (g x)) \<Longrightarrow> keeps I (ibind m g)"
  unfolding keeps_def
proof (intro allI impI runs_on_ibind)
  fix A f
  assume a: "\<forall>A f. I f \<longrightarrow> runs_on A m f (\<lambda>_. I) (\<lambda>_. I) I" "\<And>x. \<forall>A f. I f \<longrightarrow> runs_on A (g x) f (\<lambda>_. I) (\<lambda>_. I) I" "I f"
  then have "runs_on A m f (\<lambda>_. I) (\<lambda>_. I) I" by simp
  then show "runs_on A m f (\<lambda>x f'. runs_on A (g x) f' (\<lambda>_. I) (\<lambda>_. I) I) (\<lambda>_. I) I"
    by (rule runs_on_mono) (use a(2) in simp_all)
qed

lemma keeps_wrapped [keeps_intros]:
  "keeps I m \<Longrightarrow> keeps I (attempt m)" "keeps I m \<Longrightarrow> keeps I (rethrow h m)" "keeps I u \<Longrightarrow> keeps I (ignore u)" "keeps I v \<Longrightarrow> keeps I (do_if b v)"
  by (simp_all add: keeps_def runs_on_attempt runs_on_rethrow runs_on_ignore)

lemma keeps_branches [keeps_intros]:
  "keeps I m \<Longrightarrow> keeps I n \<Longrightarrow> keeps I (if b then m else n)"
  "keeps I m \<Longrightarrow> (\<And>x. keeps I (k x)) \<Longrightarrow> keeps I (case y of None \<Rightarrow> m | Some x \<Rightarrow> k x)"
  "(\<And>x. keeps I (l x)) \<Longrightarrow> (\<And>x. keeps I (r x)) \<Longrightarrow> keeps I (case z of Inl x \<Rightarrow> l x | Inr x \<Rightarrow> r x)"
  "(\<And>a b. keeps I (c a b)) \<Longrightarrow> keeps I (case w of (a, b) \<Rightarrow> c a b)"
  by (simp_all split: option.splits sum.splits prod.splits)

lemma keeps_each [keeps_intros]: "(\<And>x. keeps I (m x)) \<Longrightarrow> keeps I (each m xs)"
  by (induction xs) (auto intro: keeps_intros)

subsection \<open>What a single-stream session writes into the sidecar\<close>

definition known :: "path \<Rightarrow> str set \<Rightarrow> fs \<Rightarrow> bool" where
  "known d vs f \<longleftrightarrow> (\<forall>j. identity_at f d = Some j \<longrightarrow> ri_validator j \<in> vs)"

lemma keeps_leaves: "leaves (resume_identity_path d) m \<Longrightarrow> keeps (known d vs) m"
  unfolding keeps_def
proof (intro allI impI)
  fix A f assume "leaves (resume_identity_path d) m" "known d vs f"
  then show "runs_on A m f (\<lambda>_. known d vs) (\<lambda>_. known d vs) (known d vs)"
    by (intro runs_on_mono [OF leavesD]) (auto simp: known_def identity_at_def)
qed

lemma keeps_remove: "keeps (known d vs) (remove_resume_identity d)"
  unfolding keeps_def by (intro allI impI runs_on_mono [OF on_remove]) (auto simp: known_def identity_at_def)

lemma keeps_write:
  assumes "sound_identity i" "ri_validator i \<in> vs" "d \<noteq> []"
  shows "keeps (known d vs) (write_resume_identity d i)"
  unfolding keeps_def
proof (intro allI impI)
  fix A f assume f: "known d vs f"
  let ?p = "resume_identity_path d"
  have "known d vs g" if "g ?p \<in> {f ?p, None, Some (File (identity_payload i))}" for g
    using that f assms(2) identity_at_written [OF assms(1), of g d] by (auto simp: known_def identity_at_def)
  then show "runs_on A (write_resume_identity d i) f (\<lambda>_. known d vs) (\<lambda>_. known d vs) (known d vs)"
    unfolding write_resume_identity_def
    by (intro runs_on_mono [OF replaces]) (use assms(3) in auto)
qed

lemma keeps_download:
  assumes "d \<noteq> []" "\<And>p i. probe_http_resource curl version url ctx = Inr p \<Longrightarrow> identity_from_probe p = Some i \<Longrightarrow> ri_validator i \<in> vs"
  shows "keeps (known d vs) (download_http_to_path curl version url d ctx)"
proof -
  let ?I = "known d vs" and ?q = "resume_identity_path d"
  have q: "?q \<noteq> d" using assms(1) by simp
  have len: "length ?q = length d" using assms(1) by (simp add: resume_identity_path_def)
  have full: "keeps ?I (download_full curl version p d ctx u)" for p u
    unfolding download_full_def by (intro keeps_intros keeps_remove keeps_leaves leaves_intros q)
  have reset: "keeps ?I (reset_staging d)"
    unfolding reset_staging_def by (intro keeps_intros keeps_remove keeps_leaves leaves_intros q)
  have finish: "keeps ?I (finish_range d e n r)" for e n r
    unfolding finish_range_def by (intro keeps_intros keeps_remove keeps_leaves leaves_intros q)
  have opened: "keeps ?I (open_staging d e)" "keeps ?I (ignore (fs_sync d))" for e
    unfolding open_staging_def by (intro keeps_leaves leaves_intros q)+
  have streamed: "keeps ?I (attempt (stream_http_range curl version u a b (staging_sink d e) ctx v))" for u a b e v
    by (intro keeps_leaves leaves_intros q)
  have range: "keeps ?I (download_range curl version p d ctx i n e)" if "ri_validator i \<in> vs" "sound_identity i" for p i n e
    unfolding download_range_def
    by (intro keeps_intros keeps_write that assms(1) opened streamed)
      (auto intro!: keeps_intros keeps_remove full finish opened split: sum.split TransportError.split)
  have probed: "keeps ?I (download_probed curl version d ctx p)" if p: "probe_http_resource curl version url ctx = Inr p" for p
  proof -
    have i: "ri_validator i \<in> vs" "sound_identity i" if "identity_from_probe p = Some i" for i
      using that p assms(2) probe_identity_sound by simp_all
    have "keeps ?I (download_missing curl version p d ctx n e)" for n e
      unfolding download_missing_def
      by (cases "identity_from_probe p") (auto intro!: keeps_intros keeps_remove full range dest: i)
    then have "keeps ?I (download_into curl version p d ctx n)" for n
      unfolding download_into_def download_sized_def by (intro keeps_intros reset full)
    moreover have "keeps ?I (read_resume_identity d)" "keeps ?I (existing_length d)"
      unfolding read_resume_identity_def read_text_def existing_length_def by (intro keeps_leaves leaves_intros)+
    ultimately show ?thesis
      unfolding download_probed_def by (intro keeps_intros reset)
  qed
  have parents: "keeps ?I (ensure_parent io d)" for io :: "path \<Rightarrow> TransportError"
    by (intro keeps_leaves leaves_ensure_parent assms(1) len)
  show ?thesis
    unfolding download_http_to_path_def
    by (cases "probe_http_resource curl version url ctx") (auto intro!: keeps_intros parents probed)
qed

subsection \<open>Order is kept\<close>

text \<open>No artifact of a segment is there.\<close>

definition bare :: "path \<Rightarrow> fs \<Rightarrow> bool" where
  "bare d f \<longleftrightarrow> \<not> list_ex (node_exists f) (segment_artifacts d MAX_PARALLEL_SEGMENTS)"

lemma bare_gone: "bare d f \<Longrightarrow> gone d f"
  unfolding gone_def
proof (intro allI impI)
  fix k assume "bare d f" "k < MAX_PARALLEL_SEGMENTS"
  then have "\<not> node_exists f (segment_part_path d k)" by (auto simp: bare_def segment_artifacts_def list_ex_iff)
  then show "file_data (f (segment_part_path d k)) = None" by (auto simp: node_exists_def split: option.splits node.splits)
qed

lemma segment_files_beside:
  assumes "q \<in> segment_files d - {resume_identity_path d}" "d \<noteq> []"
  shows "length q = length d" "q \<notin> stream_files d"
proof -
  show "length q = length d"
    using assms by (auto simp: segment_files_def segment_artifacts_def artifact_paths beside_def)
  have "tmp_of (resume_identity_path d) \<noteq> segment_part_path d k" "tmp_of (resume_identity_path d) \<noteq> segment_done_path d k" for k
    using part_apart(7) [of d k] done_apart(7) [of d k] by metis+
  moreover have "segment_merge_path d \<noteq> tmp_of (resume_identity_path d)" by (metis sidecars_apart(11))
  ultimately show "q \<notin> stream_files d"
    using assms by (auto simp: segment_files_def segment_artifacts_def stream_files_def)
qed

text \<open>A single-stream session keeps the order if there are no parts, or the ones of the representation it will name.\<close>

lemma sharded_known:
  assumes "sharded rep d f" "known d vs g" "\<And>q. q \<in> segment_files d - {resume_identity_path d} \<Longrightarrow> g q = f q"
    and "gone d f \<or> (\<forall>v \<in> vs. \<exists>i. identity_at f d = Some i \<and> v = ri_validator i)"
  shows "sharded rep d g"
proof -
  have parts: "g (segment_part_path d k) = f (segment_part_path d k)" if "k < MAX_PARALLEL_SEGMENTS" for k
    using that by (intro assms(3)) (auto simp: segment_files_def segment_artifacts_def)
  have m: "manifest_at g d = manifest_at f d" using assms(3) [of "segment_manifest_path d"] by (simp add: manifest_at_def segment_files_def)
  show ?thesis
  proof (cases "gone d f")
    case True
    then have "gone d g" using parts by (simp add: gone_def)
    then show ?thesis by (rule gone_sharded)
  next
    case False
    have "parts_ok (rep (ri_validator j)) d rs g" if j: "identity_at g d = Some j" "manifest_at g d = Some rs" for j rs
    proof -
      obtain i where i: "identity_at f d = Some i" and "ri_validator j = ri_validator i"
        using False assms(2,4) j(1) by (auto simp: known_def)
      moreover have "parts_ok (rep (ri_validator i)) d rs f" using assms(1) i j(2) m by (simp add: sharded_def)
      moreover have "length rs \<le> MAX_PARALLEL_SEGMENTS" using manifest_limit [OF j(2)] .
      ultimately show ?thesis using parts by (simp add: parts_ok_def)
    qed
    then show ?thesis by (simp add: sharded_def)
  qed
qed

text \<open>A session that will name what the sidecar names, or finds no parts.\<close>

definition owns :: "curl \<Rightarrow> str \<Rightarrow> str \<Rightarrow> path \<Rightarrow> request_context \<Rightarrow> fs \<Rightarrow> bool" where
  "owns curl version url d ctx f \<longleftrightarrow>
     (\<forall>p i. probe_http_resource curl version url ctx = Inr p \<and> identity_from_probe p = Some i \<longrightarrow>
        identity_at f d = Some i \<or> bare d f)"

text \<open>What a finished session has delivered.\<close>

definition delivers ::
  "(str \<Rightarrow> u8 list) \<Rightarrow> curl \<Rightarrow> str \<Rightarrow> str \<Rightarrow> path \<Rightarrow> request_context \<Rightarrow> file_transfer \<Rightarrow> fs \<Rightarrow> bool" where
  "delivers rep curl version url d ctx r g \<longleftrightarrow>
     (\<exists>p. probe_http_resource curl version url ctx = Inr p \<and> finished rep curl version ctx p d r g)"

context unrefused
begin

lemma streams:
  assumes curl: "faithful rep curl" and d: "d \<noteq> []" and f: "in_order rep d f"
    and own: "gone d f \<or> owns curl version url d ctx f"
  shows "runs_on allowed (download_http_to_path curl version url d ctx) f
    (\<lambda>r g. delivers rep curl version url d ctx r g \<and> in_order rep d g) (\<lambda>_. in_order rep d) (in_order rep d)"
proof -
  let ?m = "download_http_to_path curl version url d ctx"
  have staged: "staged rep d f" "sharded rep d f" using f by (simp_all add: in_order_def)
  have kept: "staged rep d g" if "kept allowed rep d g" for g using that by (simp add: kept_def)
  have "runs_on allowed ?m f (\<lambda>r g. delivers rep curl version url d ctx r g \<and> kept allowed rep d g) (\<lambda>_. kept allowed rep d) (kept allowed rep d)"
    by (rule runs_on_mono [OF on_download [OF curl d staged(1)]]) (auto simp: delivers_def)
  then have one: "runs_on allowed ?m f (\<lambda>r g. delivers rep curl version url d ctx r g \<and> staged rep d g) (\<lambda>_. staged rep d) (staged rep d)"
    by (rule runs_on_mono) (auto intro: kept)
  define vs where "vs = (if gone d f then UNIV else
    {v. (\<exists>i. identity_at f d = Some i \<and> v = ri_validator i)
       \<or> (\<exists>p i. probe_http_resource curl version url ctx = Inr p \<and> identity_from_probe p = Some i \<and> v = ri_validator i)})"
  have probe: "ri_validator i \<in> vs" if "probe_http_resource curl version url ctx = Inr p" "identity_from_probe p = Some i" for p i
    using that by (auto simp: vs_def)
  have known: "known d vs f" by (auto simp: vs_def known_def)
  have two: "runs_on allowed ?m f (\<lambda>_. known d vs) (\<lambda>_. known d vs) (known d vs)"
    using keeps_download [OF d probe] known by (simp add: keeps_def)
  have leave: "leaves q ?m" if "q \<in> segment_files d - {resume_identity_path d}" for q
    using that d by (intro leaves_download segment_files_beside)
  have owned: "gone d f \<or> (\<forall>v \<in> vs. \<exists>i. identity_at f d = Some i \<and> v = ri_validator i)"
    using own bare_gone [of d f] by (auto simp: vs_def owns_def)
  have sharded: "sharded rep d g" if "known d vs g" "\<forall>q \<in> segment_files d - {resume_identity_path d}. g q = f q" for g
    using sharded_known [OF staged(2) that(1) _ owned] that(2) by blast
  show ?thesis
    by (rule runs_on_mono [OF leaves_all [where P = "segment_files d - {resume_identity_path d}", OF runs_on_conj [OF one two] leave]])
      (use sharded in \<open>auto simp: in_order_def\<close>)
qed

lemma commits:
  assumes d: "d \<noteq> []" and f: "ready rep d i rs f" "f (segment_merge_path d) = Some (File (rep (ri_validator i)))"
  shows "runs_on allowed (commit_merge d t) f
    (\<lambda>r g. r = t \<and> g d = Some (File (rep (ri_validator i))) \<and> in_order rep d g) (\<lambda>_. in_order rep d) (in_order rep d)"
proof -
  let ?m = "segment_merge_path d" and ?w = "rep (ri_validator i)"
  have stays: "ready rep d i rs (f(d := x))" if "x = None \<or> x = Some (File ?w)" for x
    using that f(1) d tags_cong [of "f(d := x)" d f i rs] by (auto simp: ready_def parts_ok_def begun_def)
  have gone: "runs_on allowed (do_if b (file_io d (fs_remove_file d))) f
      (\<lambda>_ g. g = f \<or> g = f(d := None)) (\<lambda>_ g. g = f) (\<lambda>g. g = f)" for b
    by (auto simp: fs_remove_file_def intro!: on_intros split: option.splits node.splits)
  have there: "ready rep d i rs (g(?m := None, d := Some (File ?w)))" if "g = f \<or> g = f(d := None)" for g
  proof -
    have "(g(?m := None, d := Some (File ?w))) = (f(d := Some (File ?w)))(?m := None)" using that d by (auto simp: fun_eq_iff)
    moreover have "ready rep d i rs ((f(d := Some (File ?w)))(?m := None))"
      by (rule ready_extra [OF stays [of "Some (File ?w)"] d]) simp_all
    ultimately show ?thesis by simp
  qed
  have put: "runs_on allowed (file_io d (fs_rename ?m d)) g
      (\<lambda>_ h. in_order rep d h \<and> h d = Some (File ?w)) (\<lambda>_. in_order rep d) (in_order rep d)" if "g = f \<or> g = f(d := None)" for g
    using there [OF that] stays [of None] f that d ready_in_order by (intro on_intros) (auto simp: fs_rename_def)
  have drop: "runs_on allowed (drop_segments d) g (\<lambda>_ h. h d = Some (File ?w) \<and> in_order rep d h) (\<lambda>_. in_order rep d) (in_order rep d)"
    if "in_order rep d g" "g d = Some (File ?w)" for g
    by (rule runs_on_mono [OF drops [OF d, where E = "\<lambda>_ _. False"]])
      (use that erased_in_order [of g] in \<open>auto simp: swept_def dusted_def\<close>)
  show ?thesis
    unfolding commit_merge_def
    by (rule runs_on_ibind, unfold runs_on_exists, rule runs_on_ibind, rule runs_on_mono [OF gone],
        rule runs_on_ibind, rule runs_on_mono [OF put], assumption, elim conjE, rule runs_on_ibind, rule runs_on_mono [OF drop])
      (use f in auto)
qed

lemma merge_commits:
  assumes d: "d \<noteq> []" and f: "ready rep d i rs f" "\<And>k. k < length rs \<Longrightarrow> full_part (rep (ri_validator i)) d rs k f"
    and rs: "covered rs = [0..<length (rep (ri_validator i))]"
  shows "runs_on allowed (merge_and_commit ctl d (length rs) n t) f
    (\<lambda>r g. r = t \<and> g d = Some (File (rep (ri_validator i))) \<and> in_order rep d g) (\<lambda>_. in_order rep d) (in_order rep d)"
proof -
  let ?m = "segment_merge_path d" and ?w = "rep (ri_validator i)"
  have aside: "ready rep d i rs g" if "same_outside {?m} f g" for g
    by (intro ready_extra [OF f(1) d] same_outside_mono [OF that]) simp
  have failed: "runs_on allowed (ibind (ignore (fs_remove_file ?m)) (\<lambda>_. ibind (do_if b (drop_segments d)) (\<lambda>_. throw e))) g
      Q (\<lambda>_. in_order rep d) (in_order rep d)" if "in_order rep d g" for g b e and Q :: "file_transfer \<Rightarrow> fs \<Rightarrow> bool"
  proof -
    have "in_order rep d (removed ?m g)" by (rule erased_in_order [OF erased_removed that])
    then show ?thesis
      using that erased_in_order
      by (intro on_intros runs_on_mono [OF removes [where E = "\<lambda>_ _. False"]])
        (auto intro!: on_intros runs_on_mono [OF drops [OF d, where E = "\<lambda>_ _. False"]] simp: swept_def dusted_def)
  qed
  have commit: "runs_on allowed (commit_merge d t) (f(?m := Some (File ?w)))
      (\<lambda>r g. r = t \<and> g d = Some (File ?w) \<and> in_order rep d g) (\<lambda>_. in_order rep d) (in_order rep d)"
    by (rule commits [OF d aside]) simp_all
  have merged: "runs_on allowed (attempt (merge_segments ctl d (length rs) n)) f
      (\<lambda>m g. case m of Inl _ \<Rightarrow> in_order rep d g | Inr _ \<Rightarrow> g = f(?m := Some (File ?w))) (\<lambda>_ _. False) (in_order rep d)"
    by (intro on_intros runs_on_mono [OF merges [OF f(2) rs]]) (auto dest: aside)
  show ?thesis
    unfolding merge_and_commit_def
    by (rule runs_on_ibind, rule runs_on_mono [OF merged]) (auto split: sum.splits intro!: failed commit)
qed

lemma settles:
  assumes d: "d \<noteq> []" and f: "ready rep d i rs f" and rs: "covered rs = [0..<length (rep (ri_validator i))]"
    and full: "first_error res = None \<Longrightarrow> (\<forall>k < length rs. full_part (rep (ri_validator i)) d rs k f)"
    and arrived: "\<And>g. g d = Some (File (rep (ri_validator i))) \<Longrightarrow> D t g"
    and fallback: "\<And>g. in_order rep d g \<Longrightarrow> gone d g \<Longrightarrow>
      runs_on allowed fallback g (\<lambda>r g. D r g \<and> in_order rep d g) (\<lambda>_. in_order rep d) (in_order rep d)"
  shows "runs_on allowed (settle_segments ctl d fallback (length rs) n t res) f
    (\<lambda>r g. D r g \<and> in_order rep d g) (\<lambda>_. in_order rep d) (in_order rep d)"
proof -
  have order: "in_order rep d f" using f by simp
  have dropped: "runs_on allowed (drop_segments d :: (TransportError, unit) io) f (\<lambda>_ g. in_order rep d g \<and> gone d g) (\<lambda>_ _. False) (in_order rep d)"
    by (rule runs_on_mono [OF drops [OF d, where E = "\<lambda>_ _. False"]])
      (use order erased_in_order swept_segments in \<open>auto simp: swept_def dusted_def\<close>)
  have removed: "runs_on allowed (ignore (fs_remove_file d) :: (TransportError, unit) io) g
      (\<lambda>_ h. in_order rep d h \<and> gone d h) (\<lambda>_ _. False) (in_order rep d)" if "in_order rep d g" "gone d g" for g
    by (rule runs_on_mono [OF removes [where E = "\<lambda>_ _. False"]])
      (use that erased_in_order [OF erased_removed] erased_gone [OF erased_removed] in auto)
  have merged: "runs_on allowed (merge_and_commit ctl d (length rs) n t) f
      (\<lambda>r g. D r g \<and> in_order rep d g) (\<lambda>_. in_order rep d) (in_order rep d)" if "first_error res = None"
    by (rule runs_on_mono [OF merge_commits [OF d f _ rs]]) (use full [OF that] arrived in auto)
  have again: "runs_on allowed (ibind (drop_segments d) (\<lambda>_. ibind (ignore (fs_remove_file d)) (\<lambda>_. fallback))) f
      (\<lambda>r g. D r g \<and> in_order rep d g) (\<lambda>_. in_order rep d) (in_order rep d)"
    by (rule runs_on_ibind, rule runs_on_mono [OF dropped], elim conjE,
        rule runs_on_ibind, rule runs_on_mono [OF removed], assumption, assumption, elim conjE, rule fallback)
      simp_all
  have stopped: "runs_on allowed (ibind (drop_segments d) (\<lambda>_. throw e)) f
      (\<lambda>r g. D r g \<and> in_order rep d g) (\<lambda>_. in_order rep d) (in_order rep d)" for e :: TransportError
    by (rule runs_on_ibind, rule runs_on_mono [OF dropped]) simp_all
  show ?thesis
    unfolding settle_segments_def
    using order again stopped merged by (auto split: TransferControl.split option.split)
qed

lemma list_all2_set_ex: "list_all2 P xs ys \<Longrightarrow> x \<in> set xs \<Longrightarrow> \<exists>y \<in> set ys. P x y"
  by (induction rule: list_all2_induct) auto

lemma first_error_none: "first_error res = None \<Longrightarrow> y \<in> set res \<Longrightarrow> fst y = Inr ()"
  by (induction res rule: first_error.induct) auto

lemma fetches:
  assumes curl: "faithful rep curl" and d: "d \<noteq> []" and f: "ready rep d i rs f"
    and rs: "covered rs = [0..<length (rep (ri_validator i))]" "bounded (rep (ri_validator i)) rs"
    and amount: "length (rep (ri_validator i)) = ri_length i"
    and arrived: "\<And>(r :: file_transfer) g. tr_final_bytes r = ri_length i \<Longrightarrow> g d = Some (File (rep (ri_validator i))) \<Longrightarrow> D r g"
    and fallback: "\<And>g. in_order rep d g \<Longrightarrow> gone d g \<Longrightarrow>
      runs_on allowed fallback g (\<lambda>r g. D r g \<and> in_order rep d g) (\<lambda>_. in_order rep d) (in_order rep d)"
  shows "runs_on allowed (fetch_segments curl version d ctx ctl fallback p i rs) f
    (\<lambda>r g. D r g \<and> in_order rep d g) (\<lambda>_. in_order rep d) (in_order rep d)"
proof -
  let ?w = "rep (ri_validator i)" and ?R = "ready rep d i rs"
  have prepared: "runs_on allowed (prepare_segments d (enumerate 0 rs) 0) f
      (\<lambda>(ps, _) g. ?R g \<and> map (\<lambda>(k, r, _). (k, r)) ps = enumerate 0 rs \<and> (\<forall>p \<in> set ps. prepared_part ?w d rs p g))
      (\<lambda>_. ?R) ?R"
    by (rule prepares_all [OF d rs(2) f]) (auto simp: in_set_enumerate_eq)
  have worked: "runs_on allowed (run_workers (segment_worker curl version (pr_effective_url p) d ctx (ri_validator i)) (incomplete ps)) g
      (\<lambda>res h. ?R h \<and> (first_error res = None \<longrightarrow> (\<forall>k < length rs. full_part ?w d rs k h))) (\<lambda>_ _. False) ?R"
    if ps: "?R g" "map (\<lambda>(k, r, _). (k, r)) ps = enumerate 0 rs" "\<forall>p \<in> set ps. prepared_part ?w d rs p g" for ps g
  proof -
    define xs where "xs = incomplete ps"
    have keys: "map fst ps = [0..<length rs]"
    proof -
      have "map fst ps = map fst (map (\<lambda>(k, r, _). (k, r)) ps)" by (simp add: comp_def split_def)
      then show ?thesis unfolding ps(2) by (simp add: map_fst_enumerate)
    qed
    have part: "k < length rs \<and> r = rs ! k" if "(k, r, e, c) \<in> set ps" for k r e c
    proof -
      have "(k, r) \<in> set (map (\<lambda>(k, r, _). (k, r)) ps)" using that by force
      then show ?thesis unfolding ps(2) by (auto simp: in_set_enumerate_eq)
    qed
    have mem: "(k, r, e) \<in> set xs \<longleftrightarrow> (k, r, e, False) \<in> set ps" for k r e
      by (force simp: xs_def incomplete_def)
    have "map fst xs = map fst (filter (\<lambda>(_, _, _, c). \<not> c) ps)" by (simp add: xs_def incomplete_def comp_def split_def)
    then have distinct: "distinct (map fst xs)"
      using keys by (simp add: distinct_map_filter)
    have once: "c = c'" if "(k, r, e, c) \<in> set ps" "(k, r', e', c') \<in> set ps" for k r e c r' e' c'
      using that keys by (metis distinct_upt eq_key_imp_eq_value prod.inject)
    have start: "startable d k e g" if "(k, r, e) \<in> set xs" for k r e
      using that ps(3) by (auto simp: mem prepared_part_def)
    let ?P = "segment_part_path d ` (- fst ` set xs)"
    have leave: "leaves q (run_workers (segment_worker curl version (pr_effective_url p) d ctx (ri_validator i)) xs)" if "q \<in> ?P" for q
      using that by (auto intro: leaves_workers)
    have all: "full_part ?w d rs k h"
      if res: "list_all2 (\<lambda>x y. fst y = Inr () \<longrightarrow> full_part ?w d rs (fst x) h) xs res" and "\<forall>q \<in> ?P. h q = g q"
        "first_error res = None" "k < length rs" for k h res
    proof -
      have "k \<in> fst ` set ps" using that(4) keys by (metis list.set_map atLeastLessThan_iff set_upt zero_le)
      then obtain r e c where m: "(k, r, e, c) \<in> set ps" by force
      show ?thesis
      proof (cases c)
        case True
        then have "k \<notin> fst ` set xs" using once [OF m] mem by force
        then have "h (segment_part_path d k) = g (segment_part_path d k)" using that(2) by blast
        then show ?thesis using ps(3) m True by (auto simp: prepared_part_def full_part_def)
      next
        case False
        then have "(k, r, e) \<in> set xs" using m mem by simp
        from list_all2_set_ex [OF res this]
        obtain y where "y \<in> set res" "fst y = Inr () \<longrightarrow> full_part ?w d rs k h" by auto
        then show ?thesis using first_error_none [OF that(3)] by blast
      qed
    qed
    have "runs_on allowed (run_workers (segment_worker curl version (pr_effective_url p) d ctx (ri_validator i)) xs) g
        (\<lambda>res h. ?R h \<and> list_all2 (\<lambda>x y. fst y = Inr () \<longrightarrow> full_part ?w d rs (fst x) h) xs res) (\<lambda>_ _. False) ?R"
      by (rule works_all [OF curl d rs(2) ps(1) distinct]) (use mem part start in blast)
    from leaves_all [where P = ?P, OF this leave]
    show ?thesis unfolding xs_def [symmetric] by (rule runs_on_mono) (use all in auto)
  qed
  show ?thesis
    unfolding fetch_segments_def
    by (rule runs_on_ibind, rule runs_on_mono [OF prepared], clarify, rule runs_on_ibind, rule runs_on_mono [OF worked],
        assumption, assumption, assumption, elim conjE, rule settles [where i = i and rep = rep], rule d, assumption, rule rs(1))
      (use arrived fallback in auto)
qed

lemma downloads:
  assumes curl: "faithful rep curl" and d: "d \<noteq> []" and f: "in_order rep d f"
    and i: "sound_identity i" "length (rep (ri_validator i)) = ri_length i"
    and own: "identity_at f d = Some i \<or> bare d f \<or> file_data (f d) = None \<or> file_data (f d) = Some []"
    and rs: "covered rs = [0..<length (rep (ri_validator i))]" "bounded (rep (ri_validator i)) rs"
      "list_all plan_text_ok rs" "rs \<noteq> []" "length rs \<le> MAX_PARALLEL_SEGMENTS"
    and arrived: "\<And>(r :: file_transfer) g. tr_final_bytes r = ri_length i \<Longrightarrow> g d = Some (File (rep (ri_validator i))) \<Longrightarrow> D r g"
    and fallback: "\<And>g. in_order rep d g \<Longrightarrow> gone d g \<Longrightarrow>
      runs_on allowed fallback g (\<lambda>r g. D r g \<and> in_order rep d g) (\<lambda>_. in_order rep d) (in_order rep d)"
  shows "runs_on allowed (download_segments curl version d ctx ctl fallback p i rs) f
    (\<lambda>r g. D r g \<and> in_order rep d g) (\<lambda>_. in_order rep d) (in_order rep d)"
proof -
  have claim: "runs_on allowed (claim_segments d i rs has) f (\<lambda>_. ready rep d i rs) (\<lambda>_. in_order rep d) (in_order rep d)"
    if has: "has \<longleftrightarrow> \<not> bare d f" and n: "\<not> (0 < (case file_data (f d) of None \<Rightarrow> 0 | Some b \<Rightarrow> length b) \<and> \<not> has)" for has
  proof (rule claims [OF d f _ i(1) rs(3-5)])
    have "identity_at f d = Some i \<or> file_data (f d) = None \<or> file_data (f d) = Some []"
      using own has n by (auto split: option.splits)
    then show "begun (rep (ri_validator i)) d f"
      using f by (auto simp: begun_def in_order_def staged_def)
  qed (use has bare_gone in auto)
  show ?thesis
    unfolding download_segments_def segment_artifacts_exist_def
    by (rule runs_on_ibind, rule runs_on_mono [OF measures [where E = "\<lambda>_ _. False"]], elim conjE, hypsubst,
        rule runs_on_ibind, rule runs_on_mono [OF looks [where E = "\<lambda>_ _. False"]], elim conjE, hypsubst,
        rule runs_on_if, rule fallback [OF f], rule bare_gone, simp add: bare_def,
        rule runs_on_ibind, rule runs_on_mono [OF claim], simp add: bare_def, assumption,
        rule fetches [where i = i and rep = rep], rule curl, rule d, assumption, rule rs, rule rs, rule i)
      (use f arrived fallback in auto)
qed

end

text \<open>The plan of a probed representation.\<close>

lemma probe_length: "probe_http_resource curl version url ctx = Inr p \<Longrightarrow> pr_content_length p = Some n \<Longrightarrow> n < 2 ^ 64"
  by (auto simp: probe_http_resource_def rbind_def ok_or_def guard_def reported_length_def Let_def split: sum.splits if_splits option.splits prod.splits)

lemma plan_usable:
  assumes "length whole < 2 ^ 64" "rs = plan_transfer_ranges (length whole) n" "1 < length rs"
  shows "covered rs = [0..<length whole]" "bounded whole rs" "list_all plan_text_ok rs" "rs \<noteq> []" "length rs \<le> MAX_PARALLEL_SEGMENTS"
proof -
  note p = plan_facts [OF assms(1) assms(2) [unfolded plan_transfer_ranges_def]]
  show "covered rs = [0..<length whole]" by (rule p(1))
  show "bounded whole rs" "list_all plan_text_ok rs"
    using p(2) less_trans [OF _ assms(1)] by (auto simp: bounded_def plan_text_ok_def list_all_iff range_is_empty_def not_less)
  show "rs \<noteq> []" using assms(3) by auto
  show "length rs \<le> MAX_PARALLEL_SEGMENTS" using p(3) by (simp add: MAX_PARALLEL_SEGMENTS_def)
qed

subsection \<open>Sessions\<close>

text \<open>
  Whether a session fetches segments, and whether it is orderly: one that streams into the destination finds no parts, or
  parts of the representation that it will fetch; one that fetches segments may also find parts of another one, if the
  destination is empty.
\<close>

definition fetches_segments :: "curl \<Rightarrow> str \<Rightarrow> str \<Rightarrow> nat \<Rightarrow> request_context \<Rightarrow> bool" where
  "fetches_segments curl version url n ctx \<longleftrightarrow>
     (\<exists>p i. probe_http_resource curl version url ctx = Inr p \<and> identity_from_probe p = Some i
        \<and> 1 < length (plan_transfer_ranges (ri_length i) n))"

definition orderly :: "curl \<Rightarrow> curl \<Rightarrow> str \<Rightarrow> str \<Rightarrow> path \<Rightarrow> nat \<Rightarrow> request_context \<Rightarrow> fs \<Rightarrow> bool" where
  "orderly curl later version url d n ctx f \<longleftrightarrow>
     (if fetches_segments curl version url n ctx
      then owns curl version url d ctx f \<or> file_data (f d) = None \<or> file_data (f d) = Some []
      else owns later version url d ctx f)"

lemma agree_order:
  assumes "\<forall>q \<in> insert d (segment_files d). g q = f q"
  shows "in_order rep d g = in_order rep d f" "orderly curl later version url d n ctx g = orderly curl later version url d n ctx f"
proof -
  have i: "identity_at g d = identity_at f d" and m: "manifest_at g d = manifest_at f d" and d: "g d = f d"
    using assms by (simp_all add: identity_at_def manifest_at_def segment_files_def)
  have a: "g q = f q" if "q \<in> set (segment_artifacts d MAX_PARALLEL_SEGMENTS)" for q using assms that by (simp add: segment_files_def)
  then have b: "bare d g = bare d f" by (auto simp: bare_def list_ex_iff node_exists_def)
  have "g (segment_part_path d k) = f (segment_part_path d k)" if "k < MAX_PARALLEL_SEGMENTS" for k
    using that by (intro a) (auto simp: segment_artifacts_def)
  then have "parts_ok whole d rs g = parts_ok whole d rs f" if "length rs \<le> MAX_PARALLEL_SEGMENTS" for whole rs
    using that by (auto simp: parts_ok_def)
  then show "in_order rep d g = in_order rep d f"
    using i m d manifest_limit [of f d] by (auto simp: in_order_def staged_def sharded_def)
  show "orderly curl later version url d n ctx g = orderly curl later version url d n ctx f"
    using i b d by (simp add: orderly_def owns_def)
qed

context unrefused
begin

lemma sessions:
  assumes curl: "faithful rep curl" "faithful rep later" and d: "d \<noteq> []" and f: "in_order rep d f" "orderly curl later version url d n ctx f"
  shows "runs_on allowed (download_http_to_path_segmented curl later version url d n ctx ctl) f
    (\<lambda>r g. (\<exists>c \<in> {curl, later}. delivers rep c version url d ctx r g) \<and> in_order rep d g) (\<lambda>_. in_order rep d) (in_order rep d)"
proof -
  let ?D = "\<lambda>r g. \<exists>c \<in> {curl, later}. delivers rep c version url d ctx r g"
  let ?fallback = "download_http_to_path later version url d ctx"
  have fallback: "runs_on allowed ?fallback g (\<lambda>r g. ?D r g \<and> in_order rep d g) (\<lambda>_. in_order rep d) (in_order rep d)"
    if "in_order rep d g" "gone d g \<or> owns later version url d ctx g" for g
    by (rule runs_on_mono [OF streams [OF curl(2) d that]]) auto
  have probed: "runs_on allowed (case identity_from_probe p of
        None \<Rightarrow> ?fallback
      | Some identity \<Rightarrow>
          let ranges = plan_transfer_ranges (ri_length identity) n in
          if length ranges \<le> 1 then ?fallback
          else download_segments curl version d ctx ctl ?fallback p identity ranges) g
      (\<lambda>r g. ?D r g \<and> in_order rep d g) (\<lambda>_. in_order rep d) (in_order rep d)"
    if g: "in_order rep d g" "orderly curl later version url d n ctx g" and p: "probe_http_resource curl version url ctx = Inr p" for p g
  proof (cases "fetches_segments curl version url n ctx")
    case False
    then have "gone d g \<or> owns later version url d ctx g" using g(2) by (simp add: orderly_def)
    then show ?thesis
      using False fallback [OF g(1)] p by (auto simp: fetches_segments_def not_le split: option.split)
  next
    case True
    then obtain i where i: "identity_from_probe p = Some i" "1 < length (plan_transfer_ranges (ri_length i) n)"
      using p by (auto simp: fetches_segments_def)
    have honest: "length (rep (ri_validator i)) = ri_length i" using curl(1) p i(1) unfolding faithful_def by blast
    have sound: "sound_identity i" "pr_content_length p = Some (ri_length i)" using probe_identity_sound [OF i(1)] by simp_all
    note plan = plan_usable [of "rep (ri_validator i)" "plan_transfer_ranges (ri_length i) n" n, unfolded honest,
        OF probe_length [OF p sound(2)] refl i(2)]
    have own: "identity_at g d = Some i \<or> bare d g \<or> file_data (g d) = None \<or> file_data (g d) = Some []"
      using g(2) True p i(1) by (auto simp: orderly_def owns_def)
    have "runs_on allowed (download_segments curl version d ctx ctl ?fallback p i (plan_transfer_ranges (ri_length i) n)) g
        (\<lambda>r g. ?D r g \<and> in_order rep d g) (\<lambda>_. in_order rep d) (in_order rep d)"
    proof (rule downloads [OF curl(1) d g(1) sound(1) honest own], unfold honest)
      fix r :: file_transfer and h assume "tr_final_bytes r = ri_length i" "h d = Some (File (rep (ri_validator i)))"
      then show "?D r h" using p i(1) honest by (auto simp: delivers_def finished_def delivered_def)
    qed (use plan fallback in auto)
    then show ?thesis using i by (simp add: Let_def)
  qed
  have len: "length q = length d" if "q \<in> insert d (segment_files d)" for q
    using that segment_files_beside(1) [of q d] d by (cases "q = resume_identity_path d") (auto simp: resume_identity_path_def)
  have parent: "runs_on allowed (ensure_parent io d) f (\<lambda>_ g. \<forall>q \<in> insert d (segment_files d). g q = f q)
      (\<lambda>_ g. \<forall>q \<in> insert d (segment_files d). g q = f q) (\<lambda>g. \<forall>q \<in> insert d (segment_files d). g q = f q)"
    for io :: "path \<Rightarrow> TransportError"
    by (rule runs_on_mono [OF leaves_all [where P = "insert d (segment_files d)", OF on_ensure_parent [OF d] leaves_ensure_parent [OF d len]]]) auto
  have agree: "in_order rep d g" "orderly curl later version url d n ctx g" if "\<forall>q \<in> insert d (segment_files d). g q = f q" for g
    using agree_order [OF that] f by blast+
  show ?thesis
    unfolding download_http_to_path_segmented_def Let_def
    by (rule runs_on_ibind, rule runs_on_mono [OF parent], rule runs_on_bind_lift, rule probed [unfolded Let_def])
      (assumption | erule agree)+
qed

end

interpretation stopping: unrefused no_fault
  by unfold_locales simp

text \<open>
  The file systems that sessions leave: each may fetch segments or stream, for whatever address, plan and faithful origin, and
  may be paused, cancelled, fail or stop anywhere, but the system refuses none of its calls.
\<close>

inductive session_history :: "(str \<Rightarrow> u8 list) \<Rightarrow> path \<Rightarrow> fs \<Rightarrow> bool" for rep :: "str \<Rightarrow> u8 list" and d :: path where
  fresh: "identity_at f d = None \<Longrightarrow> session_history rep d f"
| session: "session_history rep d f \<Longrightarrow> faithful rep curl \<Longrightarrow> faithful rep later \<Longrightarrow> orderly curl later version url d n ctx f \<Longrightarrow>
    list_all no_fault es \<Longrightarrow>
    session_history rep d (files (snd (download_http_to_path_segmented curl later version url d n ctx ctl \<lparr>files = f, events = es\<rparr>)))"

lemma session_outcome:
  assumes "faithful rep curl" "faithful rep later" "d \<noteq> []" "in_order rep d f" "orderly curl later version url d n ctx f"
    "list_all no_fault es" "download_http_to_path_segmented curl later version url d n ctx ctl \<lparr>files = f, events = es\<rparr> = (r, w)"
  shows "in_order rep d (files w)" "r = Done t \<Longrightarrow> \<exists>c \<in> {curl, later}. delivers rep c version url d ctx t (files w)"
proof -
  have "runs_on no_fault (download_http_to_path_segmented curl later version url d n ctx ctl) (files \<lparr>files = f, events = es\<rparr>)
    (\<lambda>r g. (\<exists>c \<in> {curl, later}. delivers rep c version url d ctx r g) \<and> in_order rep d g) (\<lambda>_. in_order rep d) (in_order rep d)"
    unfolding world.select_convs by (rule stopping.sessions [OF assms(1-5)])
  from runs_onD(2) [OF this _ assms(7)] assms(6)
  show "in_order rep d (files w)" "r = Done t \<Longrightarrow> \<exists>c \<in> {curl, later}. delivers rep c version url d ctx t (files w)"
    by (cases r; simp)+
qed

lemma history_in_order:
  assumes "session_history rep d f" "d \<noteq> []"
  shows "in_order rep d f"
  using assms
proof (induction rule: session_history.induct)
  case (fresh f)
  then show ?case by (simp add: in_order_def sharded_def)
next
  case (session f curl later version url n ctx es ctl)
  then show ?case
    by (cases "download_http_to_path_segmented curl later version url d n ctx ctl \<lparr>files = f, events = es\<rparr>")
      (simp add: session_outcome(1))
qed

text \<open>C6: A segmented download that reports success has written exactly the bytes it reports: the whole representation that a probe
  of the session named, merged from parts of which any may come from earlier sessions, or, when it fell back on one stream, what
  that delivered. This holds after any sessions, segmented or not, that were paused, cancelled, failed or stopped in the middle of
  any call, provided that the system refused no call of theirs or of this session, and that no session came upon the parts or the destination of another representation while it streamed
  or fetched into them.\<close>
theorem segmented_exact:
  assumes "session_history rep d f" "d \<noteq> []" "faithful rep curl" "faithful rep later"
    and "orderly curl later version url d n ctx f" "list_all no_fault es"
    and "download_http_to_path_segmented curl later version url d n ctx ctl \<lparr>files = f, events = es\<rparr> = (Done r, w)"
  shows "\<exists>c \<in> {curl, later}. \<exists>p b. probe_http_resource c version url ctx = Inr p \<and> files w d = Some (File b) \<and> length b = tr_final_bytes r
    \<and> ((\<exists>i. identity_from_probe p = Some i \<and> b = rep (ri_validator i))
       \<or> (\<exists>run. request_run c version Get (pr_effective_url p) None ctx [] = Inr run \<and> b = full_body (cr_calls run) full_start))"
  using session_outcome(2) [OF assms(3,4,2) history_in_order [OF assms(1,2)] assms(5-7) refl]
  by (simp add: delivers_def finished_def delivered_def)

end
