(* ===== verification/Segments_Samples.thy ===== *)
theory Segments_Samples
  imports Segments_Sessions
begin

text \<open>
  Segmented downloads of two representations of one resource, from faithful origins.
\<close>

subsection \<open>Two origins\<close>

definition tag_of :: "u8 \<Rightarrow> str" where "tag_of t = [0x22, t, 0x22]"

definition two_reps :: "str \<Rightarrow> u8 list" where
  "two_reps v = (if v = tag_of 0x76 then lit ''hello'' else if v = tag_of 0x77 then lit ''world'' else [])"

definition slice_line :: "nat \<Rightarrow> nat \<Rightarrow> u8 list" where
  "slice_line start stop = lit ''Content-Range: bytes '' @ nat_to_dec start @ 0x2d # nat_to_dec stop @ crlf ''/5''"

definition head_calls :: "u8 \<Rightarrow> curl_call list" where
  "head_calls t = [HeaderCall (crlf ''HTTP/1.1 200 OK''), HeaderCall (lit ''ETag: '' @ tag_of t), HeaderCall (crlf [])]"

text \<open>The origin that has the representation with the tag \<open>t\<close>; with \<open>pausing\<close>, the user pauses the transfers that follow.\<close>

definition tagged_origin :: "u8 \<Rightarrow> bool \<Rightarrow> curl" where
  "tagged_origin t pausing rq =
     (case (rq_method rq, rq_range rq) of
        (Head, _) \<Rightarrow> Some (sample_run (head_calls t) 200)
      | (Get, Some (start, stop)) \<Rightarrow>
          if conditional_on (tag_of t) rq
          then Some (sample_run
                 (if pausing then [ProgressCall Pause]
                  else [HeaderCall (crlf ''HTTP/1.1 206 Partial''), HeaderCall (slice_line start stop), HeaderCall (crlf []),
                    DataCall (bslice (two_reps (tag_of t)) start (stop + 1))]) 206)
          else None
      | _ \<Rightarrow> None)"

lemma two_tags: "t = 0x76 \<or> t = 0x77 \<Longrightarrow> parse_http_status (lit ''ETag: '' @ tag_of t) = None"
  "t = 0x76 \<or> t = 0x77 \<Longrightarrow> parse_header_value (lit ''ETag: '' @ tag_of t) ''etag'' = Some (tag_of t)"
  "t = 0x76 \<or> t = 0x77 \<Longrightarrow> \<not> is_weak (tag_of t)"
  by (auto simp: header_eval tag_of_def is_weak_def)

lemma digits5: "nat_to_dec 0 = [0x30]" "nat_to_dec 1 = [0x31]" "nat_to_dec 2 = [0x32]" "nat_to_dec 3 = [0x33]" "nat_to_dec 4 = [0x34]"
  "nat_to_dec 5 = [0x35]"
  by (subst nat_to_dec.simps; simp)+

lemma slice_lines [simp]:
  "parse_http_status (slice_line 0 2) = None" "parse_http_status (slice_line 3 4) = None" "is_blank_header (slice_line a b) = False"
  "parse_content_range (slice_line 0 2) = Some (0, 2)" "parse_content_range (slice_line 3 4) = Some (3, 4)"
  by (simp_all add: slice_line_def is_blank_header_def header_eval digits5)

lemma tagged_faithful:
  assumes "t = 0x76 \<or> t = 0x77"
  shows "faithful two_reps (tagged_origin t pausing)"
  unfolding faithful_def
proof (intro conjI allI impI, elim conjE)
  fix rq run start stop v
  assume a: "tagged_origin t pausing rq = Some run" "rq_method rq = Get" "rq_range rq = Some (start, stop)" "conditional_on v rq"
  then have c: "conditional_on (tag_of t) rq" by (auto simp: tagged_origin_def split: if_splits)
  then have "header_line (lit ''If-Range'') v = header_line (lit ''If-Range'') (tag_of t)" using a(4) by (simp add: conditional_on_def)
  then have v: "v = tag_of t" by (simp add: header_line_def)
  show "prefix (range_body start stop (cr_calls run) range_start) (bslice (two_reps v) start (stop + 1))"
    using a(1-3) c v by (auto simp: tagged_origin_def sample_run_def split: if_splits)
next
  fix version url ctx p i
  assume "probe_http_resource (tagged_origin t pausing) version url ctx = Inr p \<and> identity_from_probe p = Some i"
  then have "pr_content_length p = Some 5" "pr_etag p = Some (tag_of t)" and i: "identity_from_probe p = Some i"
    using two_tags [OF assms]
    by (auto simp: probe_http_resource_def request_run_def rbind_def ok_or_def tagged_origin_def sample_run_def reported_length_def head_calls_def
        split: sum.splits)
  then have "ri_validator i = tag_of t" "ri_length i = 5"
    using two_tags(3) [OF assms] by (auto simp: identity_from_probe_def strong_etag_def split: if_splits)
  then show "length (two_reps (ri_validator i)) = ri_length i" using assms by (auto simp: two_reps_def lit_def)
qed

definition probe_of :: "u8 \<Rightarrow> http_probe" where
  "probe_of t = \<lparr>pr_status = 200, pr_content_length = Some 5, pr_effective_url = lit ''http://h/f'',
     pr_etag = Some (tag_of t), pr_last_modified = None\<rparr>"

definition identity_of :: "u8 \<Rightarrow> resume_identity" where
  "identity_of t = \<lparr>ri_length = 5, ri_kind = lit ''etag'', ri_validator = tag_of t\<rparr>"

lemma tagged_request:
  "request_run (tagged_origin t pausing) (lit ''1'') mth (lit ''http://h/f'') rng sample_context extra =
     rbind (mapM_r append_header (map (\<lambda>(n, v). header_line n v) extra)) (\<lambda>lines.
     ok_or (RequestFailed CurlFailed)
       (tagged_origin t pausing \<lparr>rq_method = mth, rq_url = lit ''http://h/f'', rq_range = rng, rq_agent = lit ''NOVA/1'', rq_headers = lines\<rparr>))"
  by (simp add: request_run_def easy_url_def apply_request_context_def context_validate_def validate_optional_def
      sample_context_def context_lines_def rbind_def lit_def guard_def split: sum.splits)

lemma tagged_probed:
  assumes "t = 0x76 \<or> t = 0x77"
  shows "probe_http_resource (tagged_origin t pausing) (lit ''1'') (lit ''http://h/f'') sample_context = Inr (probe_of t)"
  using two_tags [OF assms]
  by (simp add: tagged_request probe_http_resource_def tagged_origin_def sample_run_def response_status_def effective_url_def
      reported_length_def probe_of_def rbind_def ok_or_def head_calls_def)

lemma tagged_identified: "t = 0x76 \<or> t = 0x77 \<Longrightarrow> identity_from_probe (probe_of t) = Some (identity_of t)"
  using two_tags(3) [of t] by (auto simp: identity_from_probe_def strong_etag_def probe_of_def identity_of_def tag_of_def)

lemma tagged_conditional: "conditional_on (tag_of t) \<lparr>rq_method = m, rq_url = u, rq_range = r, rq_agent = a,
     rq_headers = [header_line (lit ''If-Range'') (tag_of t)]\<rparr>"
  by (simp add: conditional_on_def owned_line_def line_name_def header_line_def owned_headers_def header_eval)

lemma tagged_range_request:
  assumes "t = 0x76 \<or> t = 0x77"
  shows "request_run (tagged_origin t pausing) (lit ''1'') Get (lit ''http://h/f'') (Some (start, stop)) sample_context (if_range_header (Some (tag_of t))) =
     Inr (sample_run (if pausing then [ProgressCall Pause]
       else [HeaderCall (crlf ''HTTP/1.1 206 Partial''), HeaderCall (slice_line start stop), HeaderCall (crlf []),
         DataCall (bslice (two_reps (tag_of t)) start (stop + 1))]) 206)"
  using tagged_conditional assms
  by (auto simp: tagged_request if_range_header_def append_header_def rbind_def ok_or_def tagged_origin_def)
    (auto simp: header_line_def header_eval tag_of_def)

lemma tagged_pause:
  assumes "t = 0x76 \<or> t = 0x77"
  shows "stream_http_range (tagged_origin t True) (lit ''1'') (lit ''http://h/f'') 0 4 sink sample_context (Some (tag_of t)) = throw Paused"
proof -
  have len: "range_length 0 4 = Inr 5"
    by (auto simp: range_length_def checked_sub_def checked_add64_def ok_or_def u64_limit_def)
  have run: "cr_calls (sample_run cs n) = cs" for cs n by (simp add: sample_run_def)
  show ?thesis
    unfolding stream_http_range_def sample_url len tagged_range_request [OF assms] lift_simps ibind_ret run if_True
    by (simp add: range_start_def range_outcome_def)
qed

lemma tagged_stream:
  assumes "t = 0x76 \<or> t = 0x77" "start = 0 \<and> stop = 2 \<or> start = 3 \<and> stop = 4"
  shows "stream_http_range (tagged_origin t False) (lit ''1'') (lit ''http://h/f'') start stop sink sample_context (Some (tag_of t)) =
    ibind (attempt (sink 0 (bslice (two_reps (tag_of t)) start (stop + 1)))) (\<lambda>r.
      case r of
        Inl _ \<Rightarrow> throw (RequestFailed SinkFailed)
      | Inr _ \<Rightarrow> ret \<lparr>rg_status = 206, rg_start = start, rg_end = stop, rg_bytes = stop - start + 1, rg_url = lit ''http://h/f''\<rparr>)"
proof -
  let ?d = "bslice (two_reps (tag_of t)) start (stop + 1)"
  let ?s = "\<lparr>rs_status = Some 206, rs_range = Some (start, stop), rs_valid = True, rs_received = 0, rs_error = None, rs_stop = Continue\<rparr>"
  have d: "length ?d = stop - start + 1" "?d \<noteq> []" using assms by (auto simp: two_reps_def bslice_def lit_def)
  have len: "range_length start stop = Inr (stop - start + 1)"
    using assms by (auto simp: range_length_def checked_sub_def checked_add64_def ok_or_def u64_limit_def)
  have calls: "perform_calls (range_call sink start stop (stop - start + 1)) [HeaderCall (crlf ''HTTP/1.1 206 Partial''), HeaderCall (slice_line start stop),
      HeaderCall (crlf []), DataCall ?d] range_start =
    ibind (attempt (sink 0 ?d)) (\<lambda>r. case r of Inl _ \<Rightarrow> ret (False, ?s\<lparr>rs_error := Some SinkFailed\<rparr>)
      | Inr _ \<Rightarrow> ret (True, ?s\<lparr>rs_received := stop - start + 1\<rparr>))"
    using assms(2) d
    by (elim disjE conjE; hypsubst)
      (auto simp: range_start_def range_header_def checked_add64_def u64_limit_def ibind_assoc intro!: arg_cong2 [of _ _ _ _ ibind]
        split: sum.splits)
  have run: "cr_calls (sample_run cs n) = cs" for cs n by (simp add: sample_run_def)
  show ?thesis
    unfolding stream_http_range_def sample_url len tagged_range_request [OF assms(1)] lift_simps ibind_ret run if_False calls ibind_assoc
    by (auto simp: sample_run_def range_outcome_def response_status_def effective_url_def rbind_def ok_or_def intro!: arg_cong2 [of _ _ _ _ ibind]
        split: sum.splits)
qed

subsection \<open>Steps on a disk that serves every call\<close>

lemma parent_single [simp]: "length p = 1 \<Longrightarrow> parent_ok f p"
  by (cases p) (auto simp: parent_ok_def)

lemma sample_lengths [simp]:
  "length (resume_identity_path sample_path) = 1" "length (segment_manifest_path sample_path) = 1"
  "length (segment_merge_path sample_path) = 1" "length (segment_part_path sample_path k) = 1" "length (segment_done_path sample_path k) = 1"
  "length (tmp_of (resume_identity_path sample_path)) = 1" "length (tmp_of (segment_manifest_path sample_path)) = 1"
  by (simp_all add: artifact_paths beside_suffix) (simp_all add: beside_def)

lemmas call_defs = io_defs fs_open_truncate_def fs_write_all_def fs_sync_def fs_rename_def fs_remove_file_def fs_read_def
  fs_metadata_len_def fs_open_def node_exists_def do_if_def ignore_def read_text_def

lemma write_new [simp]: "write_at p 0 d (f(p := Some (File []))) = f(p := Some (File d))"
  by (simp add: write_at_def overwrite_def)

lemma quiet_replace:
  assumes "length p = 1" "f (tmp_of p) = None" "f p = None \<or> (\<exists>b. f p = Some (File b))" "tmp_of p \<noteq> p" "length (tmp_of p) = 1"
  shows "replace_sidecar p payload (quiet f) = (Done (), quiet (f(p := Some (File payload))))"
proof -
  have "f(tmp_of p := None, p := x) = f(p := x)" for x using assms(2) by (auto simp: fun_eq_iff)
  then show ?thesis
    using assms by (auto simp: replace_sidecar_def write_synced_def call_defs fun_upd_twist [of "tmp_of p"] split: option.splits)
qed

lemma quiet_exists: "any_exists ps (quiet f) = (Done (list_ex (node_exists f) ps), quiet f)"
  by (induction ps) (auto simp: io_defs)

lemma quiet_length: "length_or_zero p (quiet f) = (Done (case file_data (f p) of None \<Rightarrow> 0 | Some b \<Rightarrow> length b), quiet f)"
  by (auto simp: length_or_zero_def call_defs split: option.splits)

lemma quiet_identity: "read_resume_identity d (quiet f) = (Done (identity_at f d), quiet f)"
  by (auto simp: read_resume_identity_def identity_at_def call_defs split: option.splits)

lemma quiet_manifest: "read_segment_manifest d (quiet f) = (Done (manifest_at f d), quiet f)"
  by (auto simp: read_segment_manifest_def manifest_at_def call_defs split: option.splits)

lemma quiet_remove: "ignore (fs_remove_file p) (quiet f) = (Done (), quiet (removed p f))"
  by (auto simp: call_defs removed_def split: option.splits node.splits)

lemma quiet_each:
  assumes "\<And>x f. \<exists>g. m x (quiet f) = (Done (), quiet g) \<and> dusted P f g"
  shows "\<exists>g. each m xs (quiet f) = (Done (), quiet g) \<and> dusted P f g"
proof (induction xs arbitrary: f)
  case (Cons x xs)
  obtain g where g: "m x (quiet f) = (Done (), quiet g)" "dusted P f g" using assms by blast
  obtain h where "each m xs (quiet g) = (Done (), quiet h)" "dusted P g h" using Cons by blast
  with g show ?case using dusted_trans [of P f g P h] by (simp add: ibind_def)
qed (simp add: ret_def dusted_def)

lemma dusted_removed: "dusted {p} f (removed p f)"
  by (simp add: dusted_def same_outside_def)

lemma quiet_then:
  assumes "\<And>g. \<exists>h. m (quiet g) = (Done (), quiet h) \<and> dusted P g h" "\<And>g. \<exists>h. n (quiet g) = (Done (), quiet h) \<and> dusted P g h"
  shows "\<exists>h. ibind m (\<lambda>_. n) (quiet g) = (Done (), quiet h) \<and> dusted P g h"
proof -
  obtain h where h: "m (quiet g) = (Done (), quiet h)" "dusted P g h" using assms(1) by blast
  obtain k where "n (quiet h) = (Done (), quiet k)" "dusted P h k" using assms(2) by blast
  with h show ?thesis using dusted_trans [of P g h P k] by (simp add: ibind_def)
qed

lemma quiet_drop:
  assumes "d \<noteq> []"
  shows "\<exists>g. drop_segments d (quiet f) = (Done (), quiet g) \<and> g d = f d"
proof -
  have one: "\<exists>h. ignore (fs_remove_file q) (quiet g) = (Done (), quiet h) \<and> dusted (- {d}) g h" if "q \<noteq> d" for q g
    using that by (simp add: quiet_remove dusted_def same_outside_def)
  have "\<exists>g. drop_segments d (quiet f) = (Done (), quiet g) \<and> dusted (- {d}) f g"
    unfolding drop_segments_def cleanup_segment_artifacts_def discard_segment_def remove_segment_manifest_def remove_resume_identity_def
    by (intro quiet_then quiet_each one) (simp_all add: assms)
  then show ?thesis by (auto simp: dusted_def same_outside_def)
qed

definition halves :: "byte_range list" where
  "halves = [\<lparr>br_start = 0, br_end = 2\<rparr>, \<lparr>br_start = 3, br_end = 4\<rparr>]"

lemma length_halves [simp]: "length halves = 2"
  by (simp add: halves_def)

lemma plans: "plan_transfer_ranges 5 2 = halves" "plan_transfer_ranges 5 1 = [\<lparr>br_start = 0, br_end = 4\<rparr>]"
  by (simp_all add: halves_def) code_simp+

lemma sidecars_read:
  "f (resume_identity_path d) = Some (File (identity_payload (identity_of t))) \<Longrightarrow> t = 0x76 \<or> t = 0x77 \<Longrightarrow> identity_at f d = Some (identity_of t)"
  "f (segment_manifest_path d) = Some (File (manifest_payload halves)) \<Longrightarrow> manifest_at f d = Some halves"
proof -
  have "from_utf8 (identity_payload (identity_of t)) = Some (identity_payload (identity_of t))" if "t = 0x76 \<or> t = 0x77"
    by (rule from_utf8_ascii) (use that in \<open>auto simp: identity_payload_def identity_of_def tag_of_def header_eval digits5\<close>)
  moreover have "parse_identity (identity_payload (identity_of t)) = Some (identity_of t)" if "t = 0x76 \<or> t = 0x77"
    by (rule identity_roundtrip) (use that in \<open>auto simp: sound_identity_def identity_of_def tag_of_def\<close>)
  ultimately show "identity_at f d = Some (identity_of t)"
    if "f (resume_identity_path d) = Some (File (identity_payload (identity_of t)))" "t = 0x76 \<or> t = 0x77"
    using that by (simp add: identity_at_def)
  have "from_utf8 (manifest_payload halves) = Some (manifest_payload halves)"
    by (rule from_utf8_ascii) (simp add: manifest_payload_def halves_def range_text_def header_eval digits5 digits5(3) [unfolded numeral_2_eq_2])
  moreover have "parse_segment_manifest (manifest_payload halves) = Some halves"
    by (rule manifest_back) (simp_all add: plan_text_ok_def halves_def MAX_PARALLEL_SEGMENTS_def)
  ultimately show "manifest_at f d = Some halves" if "f (segment_manifest_path d) = Some (File (manifest_payload halves))"
    using that by (simp add: manifest_at_def)
qed

subsection \<open>Three sessions\<close>

definition seg_session :: "u8 \<Rightarrow> bool \<Rightarrow> nat \<Rightarrow> segment_control \<Rightarrow> fs \<Rightarrow> (TransportError, file_transfer) outcome \<times> world" where
  "seg_session t pausing n ctl f =
     download_http_to_path_segmented (tagged_origin t pausing) (tagged_origin t pausing) (lit ''1'') (lit ''http://h/f'')
       sample_path n sample_context ctl (quiet f)"

definition going :: segment_control where "going = \<lparr>sc_after = Continue, sc_merge = \<lambda>_. Continue\<rparr>"
definition pausing_after :: segment_control where "pausing_after = \<lparr>sc_after = Pause, sc_merge = \<lambda>_. Continue\<rparr>"

abbreviation id_path :: path where "id_path \<equiv> resume_identity_path sample_path"
abbreviation plan_path :: path where "plan_path \<equiv> segment_manifest_path sample_path"
abbreviation part_path :: "nat \<Rightarrow> path" where "part_path \<equiv> segment_part_path sample_path"
abbreviation done_path :: "nat \<Rightarrow> path" where "done_path \<equiv> segment_done_path sample_path"

definition marker :: "node option" where "marker = Some (File (lit ''NOVA-SEGMENT-DONE-1'' @ [0x0a]))"

text \<open>What the workers have to start from: the sidecars, and no part.\<close>

definition claimed :: "u8 \<Rightarrow> fs" where
  "claimed t = (\<lambda>_. None)(id_path := Some (File (identity_payload (identity_of t))),
     plan_path := Some (File (manifest_payload halves)))"

definition fetched :: "u8 \<Rightarrow> fs" where
  "fetched t = (claimed t)(part_path 0 := Some (File (take 3 (two_reps (tag_of t)))), done_path 0 := marker,
     part_path 1 := Some (File (drop 3 (two_reps (tag_of t)))), done_path 1 := marker)"

lemma claims_fresh:
  assumes "t = 0x76 \<or> t = 0x77"
  shows "claim_segments sample_path (identity_of t) halves False (quiet (\<lambda>_. None)) = (Done (), quiet (claimed t))"
proof -
  have "identity_at (\<lambda>_. None) sample_path = None" "manifest_at (\<lambda>_. None) sample_path = None"
    by (simp_all add: identity_at_def manifest_at_def)
  moreover have "manifest_at ((\<lambda>_. None)(id_path := x)) sample_path = None" for x by (simp add: manifest_at_def)
  ultimately show ?thesis
    by (simp add: claim_segments_def ibind_def do_if_def ret_def quiet_identity quiet_manifest write_resume_identity_def
        write_segment_manifest_def quiet_replace claimed_def)
qed

lemma prepares_both:
  "prepare_segments sample_path (enumerate 0 halves) 0 (quiet (claimed t)) =
    (Done ([(0, \<lparr>br_start = 0, br_end = 2\<rparr>, 0, False), (1, \<lparr>br_start = 3, br_end = 4\<rparr>, 0, False)], 0), quiet (claimed t))"
proof -
  have none: "claimed t (part_path k) = None" "claimed t (done_path k) = None" for k by (simp_all add: claimed_def)
  have "prepare_segment_part sample_path k n (quiet (claimed t)) = (Done (0, False), quiet (claimed t))" if "0 < n" for k n
    using that by (simp add: prepare_segment_part_def existing_length_def path_is_file_def call_defs none)
  then show ?thesis by (simp add: halves_def io_defs checked_add64_def u64_limit_def ok_or_def)
qed

lemma works_one:
  assumes "t = 0x76 \<or> t = 0x77" "f (part_path k) = None" "f (done_path k) = None"
    and r: "start = 0 \<and> stop = 2 \<or> start = 3 \<and> stop = 4"
  shows "segment_worker (tagged_origin t False) (lit ''1'') (lit ''http://h/f'') sample_path sample_context (tag_of t)
      (k, \<lparr>br_start = start, br_end = stop\<rparr>, 0) (quiet f) =
    (Done (Inr (), False), quiet (f(part_path k := Some (File (bslice (two_reps (tag_of t)) start (stop + 1))), done_path k := marker)))"
proof -
  have "length (bslice (two_reps (tag_of t)) start (stop + 1)) = stop - start + 1"
    using assms by (auto simp: two_reps_def bslice_def lit_def)
  then show ?thesis
    using assms(2,3) tagged_stream [OF assms(1) r]
    by (simp add: segment_worker_def open_staging_def staging_sink_def check_segment_def mark_segment_complete_def write_synced_def
        quiet_length call_defs marker_def)
qed

lemma works_both:
  assumes "t = 0x76 \<or> t = 0x77"
  shows "run_workers (segment_worker (tagged_origin t False) (lit ''1'') (lit ''http://h/f'') sample_path sample_context (tag_of t))
      [(0, \<lparr>br_start = 0, br_end = 2\<rparr>, 0), (1, \<lparr>br_start = 3, br_end = 4\<rparr>, 0)] (quiet (claimed t)) =
    (Done [(Inr (), False), (Inr (), False)], quiet (fetched t))"
proof -
  have "bslice (two_reps (tag_of t)) 0 3 = take 3 (two_reps (tag_of t))" "bslice (two_reps (tag_of t)) 3 5 = drop 3 (two_reps (tag_of t))"
    using assms by (auto simp: two_reps_def bslice_def lit_def)
  then show ?thesis
    by (simp add: works_one [OF assms] claimed_def fetched_def io_defs)
qed

lemma sample_fields2 [simp]:
  "ri_length (identity_of t) = 5" "ri_validator (identity_of t) = tag_of t" "pr_effective_url (probe_of t) = lit ''http://h/f''"
  "pr_status (probe_of t) = 200" "pr_content_length (probe_of t) = Some 5"
  by (simp_all add: identity_of_def probe_of_def)

lemma ensured [simp]: "ensure_parent io sample_path (quiet f) = (Done (), quiet f)"
  by (simp add: ensure_parent_def fs_create_dir_all_def do_if_def ret_def)

lemma session_segments:
  assumes "t = 0x76 \<or> t = 0x77"
  shows "seg_session t pausing 2 ctl f = download_segments (tagged_origin t pausing) (lit ''1'') sample_path sample_context ctl
    (download_http_to_path (tagged_origin t pausing) (lit ''1'') (lit ''http://h/f'') sample_path sample_context)
    (probe_of t) (identity_of t) halves (quiet f)"
  unfolding seg_session_def download_http_to_path_segmented_def tagged_probed [OF assms]
  by (simp add: tagged_identified [OF assms] plans Let_def ibind_def [of "ensure_parent _ _"])

text \<open>The first session is paused when both parts are there.\<close>

lemma first_session:
  assumes "t = 0x76 \<or> t = 0x77"
  shows "seg_session t False 2 pausing_after (\<lambda>_. None) = (Err Paused, quiet (fetched t))"
proof -
  have none: "list_ex (node_exists (\<lambda>_. None)) ps = False" for ps by (induction ps) (simp_all add: node_exists_def)
  show ?thesis
    unfolding session_segments [OF assms]
    by (simp add: download_segments_def segment_artifacts_exist_def ibind_def quiet_length quiet_exists none claims_fresh [OF assms]
        fetch_segments_def prepares_both incomplete_def works_both [OF assms] settle_segments_def pausing_after_def throw_def del: run_workers.simps prepare_segments.simps One_nat_def)
qed

text \<open>A session that finds all parts of its representation merges them.\<close>

definition merged_transfer :: "file_transfer" where
  "merged_transfer = \<lparr>tr_status = 206, tr_final_bytes = 5, tr_total_bytes = Some 5, tr_resumed_from = 5, tr_url = lit ''http://h/f''\<rparr>"

lemma merging_session:
  assumes t: "t = 0x76 \<or> t = 0x77"
    and f: "f id_path = Some (File (identity_payload (identity_of t)))" "f plan_path = Some (File (manifest_payload halves))"
      "f (part_path 0) = Some (File a)" "f (part_path 1) = Some (File b)" "length a = 3" "length b = 2"
      "file_data (f (done_path 0)) \<noteq> None" "file_data (f (done_path 1)) \<noteq> None"
      "f (segment_merge_path sample_path) = None" "f sample_path = None \<or> (\<exists>x. f sample_path = Some (File x))"
  shows "\<exists>g. seg_session t p 2 going f = (Done merged_transfer, quiet g) \<and> g sample_path = Some (File (a @ b))"
proof -
  let ?curl = "tagged_origin t p" and ?m = "segment_merge_path sample_path"
  have id: "identity_at f sample_path = Some (identity_of t)" "manifest_at f sample_path = Some halves"
    using sidecars_read f(1,2) t by blast+
  have "part_path 0 \<in> set (segment_artifacts sample_path MAX_PARALLEL_SEGMENTS)"
    by (auto simp: segment_artifacts_def MAX_PARALLEL_SEGMENTS_def)
  moreover have "node_exists f (part_path 0)" using f(3) by (simp add: node_exists_def)
  ultimately have there: "list_ex (node_exists f) (segment_artifacts sample_path MAX_PARALLEL_SEGMENTS)" by (auto simp: list_ex_iff)
  have claim: "claim_segments sample_path (identity_of t) halves True (quiet f) = (Done (), quiet f)"
    by (simp add: claim_segments_def ibind_def quiet_identity quiet_manifest id do_if_def ret_def)
  have prepare: "prepare_segments sample_path (enumerate 0 halves) 0 (quiet f) =
      (Done ([(0, \<lparr>br_start = 0, br_end = 2\<rparr>, 3, True), (1, \<lparr>br_start = 3, br_end = 4\<rparr>, 2, True)], 5), quiet f)"
    using f(3-8) by (simp add: halves_def prepare_segment_part_def existing_length_def path_is_file_def call_defs
        checked_add64_def u64_limit_def ok_or_def)
  have append: "write_at ?m 3 b (f(?m := Some (File a))) = f(?m := Some (File (a @ b)))"
    using write_at_end [of ?m a b f] f(5) by simp
  have merge: "merge_segments going sample_path 2 5 (quiet f) = (Done (), quiet (f(?m := Some (File (a @ b)))))"
    using f(3-6,9) by (simp add: merge_segments_def going_def continue_or_def numeral_2_eq_2 call_defs quiet_length append)
  obtain g where drop: "drop_segments sample_path (quiet (f(?m := None, sample_path := Some (File (a @ b))))) = ((Done (), quiet g) :: (TransportError, unit) outcome \<times> world)"
    "g sample_path = Some (File (a @ b))" using quiet_drop [of sample_path] by fastforce
  have commit: "commit_merge sample_path merged_transfer (quiet (f(?m := Some (File (a @ b))))) = (Done merged_transfer, quiet g)"
  proof -
    have "(f(?m := Some (File (a @ b)), sample_path := None, ?m := None, sample_path := Some (File (a @ b)))) =
        f(?m := None, sample_path := Some (File (a @ b)))" by (simp add: fun_eq_iff)
    then show ?thesis
      using drop(1) f(10) by (auto simp: commit_merge_def call_defs)
  qed
  have "seg_session t p 2 going f = (Done merged_transfer, quiet g)"
    unfolding session_segments [OF t]
    by (simp add: download_segments_def segment_artifacts_exist_def ibind_def quiet_length quiet_exists there claim
        fetch_segments_def prepare incomplete_def settle_segments_def going_def rejected_def merge_and_commit_def
        commit [unfolded merged_transfer_def] merge [unfolded going_def] merged_transfer_def attempt_def
        ret_def del: prepare_segments.simps One_nat_def)
  with drop(2) show ?thesis by blast
qed

lemma sample_orderly:
  assumes "t = 0x76 \<or> t = 0x77" "f sample_path = None"
  shows "orderly (tagged_origin t False) (tagged_origin t False) (lit ''1'') (lit ''http://h/f'') sample_path 2 sample_context f"
proof -
  have "fetches_segments (tagged_origin t False) (lit ''1'') (lit ''http://h/f'') 2 sample_context"
    unfolding fetches_segments_def tagged_probed [OF assms(1)] using tagged_identified [OF assms(1)] by (simp add: plans)
  then show ?thesis using assms(2) by (simp add: orderly_def)
qed

theorem segmented_exact_witness:
  "files (snd (seg_session 0x76 False 2 going (fetched 0x76))) sample_path = Some (File (two_reps (tag_of 0x76)))"
proof -
  let ?curl = "tagged_origin 0x76 False" and ?f = "fetched 0x76"
  have c: "faithful two_reps ?curl" by (rule tagged_faithful) simp
  have fresh: "session_history two_reps sample_path (\<lambda>_. None)"
    by (rule session_history.fresh) (simp add: identity_at_def)
  have "session_history two_reps sample_path (files (snd (seg_session 0x76 False 2 pausing_after (\<lambda>_. None))))"
    unfolding seg_session_def by (rule session_history.session [OF fresh c c]) (simp_all add: sample_orderly)
  then have h: "session_history two_reps sample_path ?f" by (simp add: first_session)
  have none: "?f sample_path = None" by (simp add: fetched_def claimed_def)
  have "\<exists>g. seg_session 0x76 False 2 going ?f = (Done merged_transfer, quiet g)
      \<and> g sample_path = Some (File (take 3 (two_reps (tag_of 0x76)) @ drop 3 (two_reps (tag_of 0x76))))"
    by (rule merging_session) (simp_all add: fetched_def claimed_def marker_def two_reps_def tag_of_def lit_def)
  then obtain g where g: "seg_session 0x76 False 2 going ?f = (Done merged_transfer, quiet g)" by blast
  have no_body: "request_run ?curl (lit ''1'') Get u None sample_context [] \<noteq> Inr run" if "u = lit ''http://h/f''" for u run
    unfolding that tagged_request by (simp add: rbind_def ok_or_def tagged_origin_def)
  have o: "orderly ?curl ?curl (lit ''1'') (lit ''http://h/f'') sample_path 2 sample_context ?f"
    by (rule sample_orderly) (simp_all add: none)
  have p: "probe_http_resource ?curl (lit ''1'') (lit ''http://h/f'') sample_context = Inr (probe_of 0x76)"
    by (simp add: tagged_probed)
  show ?thesis
    using segmented_exact [OF h _ c c o _ g [unfolded seg_session_def]] no_body
    by (auto simp: g p tagged_identified)
qed

text \<open>The second session streams another representation, and is paused before a byte arrives.\<close>

definition renamed :: fs where
  "renamed = (fetched 0x76)(id_path := Some (File (identity_payload (identity_of 0x77))), sample_path := Some (File []))"

lemma second_session: "seg_session 0x77 True 1 going (fetched 0x76) = (Err Paused, quiet renamed)"
proof -
  let ?f = "fetched 0x76"
  have at: "?f sample_path = None" "?f (tmp_of id_path) = None" "?f id_path = Some (File (identity_payload (identity_of 0x76)))"
    by (simp_all add: fetched_def claimed_def part_apart(7) [symmetric] done_apart(7) [symmetric])
  have probe: "probe_http_resource (tagged_origin 0x77 True) (lit ''1'') (lit ''http://h/f'') sample_context = Inr (probe_of 0x77)"
    by (simp add: tagged_probed)
  have id: "identity_from_probe (probe_of 0x77) = Some (identity_of 0x77)" by (simp add: tagged_identified)
  have read: "identity_at ?f sample_path = Some (identity_of 0x76)" by (rule sidecars_read(1)) (simp_all add: at)
  have wrote: "write_resume_identity sample_path (identity_of 0x77) (quiet ?f) =
      (Done (), quiet (?f(id_path := Some (File (identity_payload (identity_of 0x77))))))"
    using at by (simp add: write_resume_identity_def quiet_replace)
  have stream: "stream_http_range (tagged_origin 0x77 True) (lit ''1'') (lit ''http://h/f'') 0 4 sink sample_context (Some (tag_of 0x77)) = throw Paused" for sink
    by (rule tagged_pause) simp
  have start: "open_staging sample_path 0 (quiet (?f(id_path := x))) = ((Done (), quiet (?f(id_path := x, sample_path := Some (File [])))) :: (TransportError, unit) outcome \<times> world)" for x
    using at(1) by (simp add: open_staging_def call_defs)
  have range: "download_range (tagged_origin 0x77 True) (lit ''1'') (probe_of 0x77) sample_path sample_context (identity_of 0x77) 5 0 (quiet ?f)
      = (Err Paused, quiet renamed)"
    using start by (simp add: download_range_def ibind_def do_if_def wrote stream attempt_def throw_def renamed_def ignore_def fs_sync_def syscall_def ret_def)
  show ?thesis
    unfolding seg_session_def download_http_to_path_segmented_def probe
    by (simp add: id plans plans(2) [simplified] Let_def ibind_def download_http_to_path_def probe download_probed_def quiet_identity read existing_length_def
        call_defs at(1) download_into_def is_success_def download_sized_def download_missing_def range)
qed

text \<open>C37: The code merges parts of a representation that is no longer there: parts of one representation are
  complete; a session with one connection, which does not look at parts, rewrites the identity sidecar for the
  representation that has replaced it and is paused; the next session with two connections takes the
  parts for parts of the new representation, merges them and reports success, although every origin was faithful, every call was
  served, and its probe named the new representation.\<close>
theorem changed_representation_merged:
  "let f1 = files (snd (seg_session 0x76 False 2 pausing_after (\<lambda>_. None)));
       f2 = files (snd (seg_session 0x77 True 1 going f1));
       (r, w) = seg_session 0x77 False 2 going f2
   in faithful two_reps (tagged_origin 0x76 False) \<and> faithful two_reps (tagged_origin 0x77 True) \<and> faithful two_reps (tagged_origin 0x77 False)
     \<and> r = Done merged_transfer \<and> files w sample_path = Some (File (two_reps (tag_of 0x76)))
     \<and> identity_from_probe (probe_of 0x77) = Some (identity_of 0x77)
     \<and> probe_http_resource (tagged_origin 0x77 False) (lit ''1'') (lit ''http://h/f'') sample_context = Inr (probe_of 0x77)
     \<and> two_reps (ri_validator (identity_of 0x77)) \<noteq> two_reps (tag_of 0x76)"
proof -
  have reps: "two_reps (tag_of 0x76) = lit ''hello''" "two_reps (tag_of 0x77) = lit ''world''" by (simp_all add: two_reps_def tag_of_def)
  have "\<exists>g. seg_session 0x77 False 2 going renamed = (Done merged_transfer, quiet g)
      \<and> g sample_path = Some (File (take 3 (two_reps (tag_of 0x76)) @ drop 3 (two_reps (tag_of 0x76))))"
    by (rule merging_session) (simp_all add: renamed_def fetched_def claimed_def marker_def reps lit_def)
  then obtain g where "seg_session 0x77 False 2 going renamed = (Done merged_transfer, quiet g)"
    "g sample_path = Some (File (two_reps (tag_of 0x76)))" by auto
  moreover have "two_reps (ri_validator (identity_of 0x77)) \<noteq> two_reps (tag_of 0x76)" by (simp add: reps lit_def)
  ultimately show ?thesis
    by (simp add: first_session second_session tagged_faithful tagged_identified tagged_probed del: One_nat_def)
qed

end
