(* ===== verification/Download_Faults.thy ===== *)
theory Download_Faults
  imports Segments_Samples
begin

text \<open>
  What a transfer that never reaches the server does to the bytes that are already staged.
\<close>

lemma quiet_unit_path: "length d = 1 \<Longrightarrow> ensure_parent io d (quiet f) = (Done (), quiet f)"
  by (cases d) (simp_all add: ensure_parent_def fs_create_dir_all_def do_if_def ret_def)

text \<open>C36: A connection that fails before any response discards the progress of a resumable download: the
  transfer reports a rejected range whenever no valid response header came, also when there was no response at all, so the
  download removes the identity sidecar and truncates the staged file in order to start over, and then fails; of the
  bytes staged by earlier sessions nothing is left to resume. This is stated for a destination in the current directory, on a
  disk that serves every call.\<close>
theorem failed_connection_discards_progress:
  assumes "length d = 1" "probe_http_resource curl version url ctx = Inr p" "is_success (pr_status p)" "identity_from_probe p = Some i"
    and "ensure_http_url (pr_effective_url p) = Inr ()"
    and "f d = Some (File b)" "0 < length b" "length b < ri_length i" "ri_length i < 2 ^ 64"
    and "identity_at f d = Some i" "\<exists>x. f (resume_identity_path d) = Some (File x)"
    and "request_run curl version Get (pr_effective_url p) (Some (length b, ri_length i - 1)) ctx (if_range_header (Some (ri_validator i))) = Inr down"
    and "request_run curl version Get (pr_effective_url p) None ctx [] = Inr down" "cr_calls down = []"
  shows "\<exists>e g. download_http_to_path curl version url d ctx (quiet f) = (Err e, quiet g)
    \<and> g d = Some (File []) \<and> identity_at g d = None"
proof -
  obtain n where d: "d = [n]" using assms(1) by (cases d) auto
  let ?s = "resume_identity_path d"
  have s: "?s \<noteq> d" "d \<noteq> ?s" using d by simp_all
  obtain x where x: "f ?s = Some (File x)" using assms(11) by blast
  have len: "range_length (length b) (ri_length i - 1) = Inr (ri_length i - length b)"
    using assms(8,9) by (auto simp: range_length_def checked_sub_def checked_add64_def ok_or_def u64_limit_def)
  have range: "stream_http_range curl version (pr_effective_url p) (length b) (ri_length i - 1) sink ctx (Some (ri_validator i))
      = throw RangeResponseRejected" for sink
    unfolding stream_http_range_def assms(5,12) len lift_simps ibind_ret assms(14)
    by (simp add: range_start_def range_outcome_def)
  have full: "stream_http_full curl version (pr_effective_url p) sink ctx = throw (RequestFailed (NotSuccessful None))" for sink
    unfolding stream_http_full_def assms(5,13) lift_simps ibind_ret assms(14)
    by (simp add: full_start_def full_outcome_def)
  have amount: "pr_content_length p = Some (ri_length i)" using probe_identity_sound [OF assms(4)] by simp
  have opened: "open_staging d (length b) (quiet f) = ((Done (), quiet f) :: (TransportError, unit) outcome \<times> world)"
    using assms(6,7) by (simp add: open_staging_def fs_open_append_def call_defs)
  let ?g = "f(?s := None, d := Some (File []))"
  have "download_full curl version p d ctx u (quiet (f(?s := None))) = (Err (RequestFailed (NotSuccessful None)), quiet ?g)" for u
    using assms(1) s by (simp add: download_full_def full remove_resume_identity_def call_defs assms(6))
  moreover have "remove_resume_identity d (quiet f) = ((Done (), quiet (f(?s := None))) :: (TransportError, unit) outcome \<times> world)"
    using x by (simp add: remove_resume_identity_def call_defs)
  ultimately have "download_range curl version p d ctx i (ri_length i) (length b) (quiet f)
      = (Err (RequestFailed (NotSuccessful None)), quiet ?g)"
    using assms(7) by (simp add: download_range_def opened range ibind_def attempt_def throw_def do_if_def ret_def del: One_nat_def)
  then have "download_http_to_path curl version url d ctx (quiet f) = (Err (RequestFailed (NotSuccessful None)), quiet ?g)"
    using assms(6-8) by (simp add: download_http_to_path_def ibind_def quiet_unit_path assms(1-4,10) download_probed_def quiet_identity
        existing_length_def call_defs download_into_def amount download_sized_def download_missing_def)
  moreover have "identity_at ?g d = None" using s by (simp add: identity_at_def)
  ultimately show ?thesis by auto
qed

text \<open>An origin that answers the probe, and is gone when the transfer starts.\<close>

definition no_answer :: curl_run where
  "no_answer = \<lparr>cr_calls = [], cr_ok = False, cr_status = None, cr_length = None, cr_url = None\<rparr>"

definition vanishing_origin :: curl where
  "vanishing_origin rq = (if rq_method rq = Head then Some (sample_run (head_calls 0x76) 200) else Some no_answer)"

definition two_bytes_staged :: fs where
  "two_bytes_staged = (\<lambda>_. None)(id_path := Some (File (identity_payload (identity_of 0x76))), sample_path := Some (File (lit ''he'')))"

lemma vanishing_request:
  "request_run vanishing_origin (lit ''1'') mth (lit ''http://h/f'') rng sample_context extra =
     rbind (mapM_r append_header (map (\<lambda>(n, v). header_line n v) extra)) (\<lambda>lines.
     ok_or (RequestFailed CurlFailed)
       (vanishing_origin \<lparr>rq_method = mth, rq_url = lit ''http://h/f'', rq_range = rng, rq_agent = lit ''NOVA/1'', rq_headers = lines\<rparr>))"
  by (simp add: request_run_def easy_url_def apply_request_context_def context_validate_def validate_optional_def
      sample_context_def context_lines_def rbind_def lit_def guard_def split: sum.splits)

theorem failed_connection_discards_progress_witness:
  "\<exists>e g. download_http_to_path vanishing_origin (lit ''1'') (lit ''http://h/f'') sample_path sample_context (quiet two_bytes_staged) = (Err e, quiet g)
    \<and> two_bytes_staged sample_path = Some (File (lit ''he'')) \<and> g sample_path = Some (File [])"
proof -
  have probe: "probe_http_resource vanishing_origin (lit ''1'') (lit ''http://h/f'') sample_context = Inr (probe_of 0x76)"
    using two_tags [of "0x76"]
    by (simp add: vanishing_request probe_http_resource_def vanishing_origin_def sample_run_def response_status_def effective_url_def
        reported_length_def probe_of_def rbind_def ok_or_def head_calls_def)
  have get: "request_run vanishing_origin (lit ''1'') Get (lit ''http://h/f'') (Some (2, 4)) sample_context (if_range_header (Some (tag_of 0x76))) = Inr no_answer"
    "request_run vanishing_origin (lit ''1'') Get (lit ''http://h/f'') None sample_context [] = Inr no_answer"
    by (simp_all add: vanishing_request vanishing_origin_def if_range_header_def append_header_def rbind_def ok_or_def)
      (simp add: header_line_def header_eval tag_of_def)
  have read: "identity_at two_bytes_staged sample_path = Some (identity_of 0x76)"
    by (rule sidecars_read(1)) (simp_all add: two_bytes_staged_def)
  have "\<exists>e g. download_http_to_path vanishing_origin (lit ''1'') (lit ''http://h/f'') sample_path sample_context (quiet two_bytes_staged) = (Err e, quiet g)
      \<and> g sample_path = Some (File []) \<and> identity_at g sample_path = None"
    by (rule failed_connection_discards_progress [where i = "identity_of 0x76" and b = "lit ''he''" and down = no_answer, OF _ probe])
      (use get(2) get(1) [unfolded numeral_2_eq_2] in \<open>simp_all add: tagged_identified is_success_def two_bytes_staged_def read [unfolded two_bytes_staged_def] no_answer_def\<close>)
  then show ?thesis by (auto simp: two_bytes_staged_def)
qed

end
