(* ===== verification/Hls.thy ===== *)
theory Hls
  imports Magnet Text
begin

text \<open>
  \<open>crates/nova-stream-core/src/hls.rs\<close> and \<open>lib.rs\<close>: recognising a stream manifest, reading an HLS playlist,
  choosing a variant, planning the transfers of a media playlist and refreshing a live one.

  URLs and floating-point numbers are the host's: \<open>Url::parse\<close>, \<open>Url::join\<close>, a URL's text, \<open>str::parse::<f64>\<close> and the rounding
  of a frame rate to thousandths are fields of \<open>hls_host\<close>, together with whether the build checks arithmetic
  overflow, as the desktop build does and the mobile one does not: with the checks the sum that numbers a segment
  panics (\<open>SequenceOverflow\<close>), without them it wraps.
\<close>

subsection \<open>Kinds of manifest\<close>

datatype StreamManifestKind = HlsManifestKind | DashManifestKind

definition trim_start :: "str \<Rightarrow> str" where
  "trim_start s = concat (dropWhile is_whitespace (chars s))"

definition starts_with :: "str \<Rightarrow> str \<Rightarrow> bool" where
  "starts_with p s \<longleftrightarrow> take (length p) s = p"

definition ends_with :: "str \<Rightarrow> str \<Rightarrow> bool" where
  "ends_with p s \<longleftrightarrow> length p \<le> length s \<and> drop (length s - length p) s = p"

fun str_contains :: "str \<Rightarrow> str \<Rightarrow> bool" where
  "str_contains p [] \<longleftrightarrow> p = []"
| "str_contains p (b # s) \<longleftrightarrow> starts_with p (b # s) \<or> str_contains p s"

definition detect_manifest_kind :: "str \<Rightarrow> str \<Rightarrow> StreamManifestKind option" where
  "detect_manifest_kind source_url body =
     (let trimmed = trim_start body in
      if starts_with (lit ''#EXTM3U'') trimmed then Some HlsManifestKind
      else if str_contains (lit ''<mpd'') (map to_ascii_lowercase (concat (take 2048 (chars trimmed))))
      then Some DashManifestKind
      else
        let path = map to_ascii_lowercase (hd (split_byte 0x3f source_url)) in
        if ends_with (lit ''.m3u8'') path then Some HlsManifestKind
        else if ends_with (lit ''.mpd'') path then Some DashManifestKind
        else None)"

subsection \<open>Playlists\<close>

datatype HlsPlaylistKind = Master | Media

datatype HlsRenditionKind = Audio | Video | Subtitles | ClosedCaptions

record hls_rendition =
  hr_kind :: HlsRenditionKind
  hr_group_id :: str
  hr_name :: str
  hr_uri :: "str option"
  hr_language :: "str option"
  hr_default :: bool
  hr_autoselect :: bool
  hr_forced :: bool
  hr_channels :: "str option"

record hls_byte_range =
  hb_length :: nat
  hb_offset :: "nat option"

record hls_init_map =
  hm_uri :: str
  hm_byte_range :: "hls_byte_range option"

datatype HlsEncryptionMethod = NoEncryption | Aes128 | SampleAes | OtherEncryption str

record hls_key =
  hk_method :: HlsEncryptionMethod
  hk_uri :: "str option"
  hk_iv :: "str option"
  hk_key_format :: "str option"

record hls_variant =
  hv_uri :: str
  hv_bandwidth :: "nat option"
  hv_average_bandwidth :: "nat option"
  hv_resolution :: "(nat \<times> nat) option"
  hv_codecs :: "str list"
  hv_frame_rate_milli :: "nat option"
  hv_audio_group :: "str option"
  hv_subtitle_group :: "str option"

record 'f hls_segment =
  hs_uri :: str
  hs_duration :: "'f option"
  hs_sequence :: nat
  hs_discontinuity :: bool
  hs_byte_range :: "hls_byte_range option"
  hs_init_map :: "hls_init_map option"
  hs_key :: "hls_key option"

record 'f hls_manifest =
  hls_kind :: HlsPlaylistKind
  hls_variants :: "hls_variant list"
  hls_renditions :: "hls_rendition list"
  hls_segments :: "'f hls_segment list"
  hls_media_sequence :: nat
  hls_target_duration :: "nat option"
  hls_end_list :: bool

datatype HlsError = EmptyManifest | MissingHeader | InvalidBaseUrl str | InvalidByteRange str

datatype hls_fault = HlsErr HlsError | SequenceOverflow

record ('u, 'f) hls_host =
  parse_url :: "str \<Rightarrow> 'u option"
  url_join :: "'u \<Rightarrow> str \<Rightarrow> 'u option"
  url_string :: "'u \<Rightarrow> str"
  parse_f64 :: "str \<Rightarrow> 'f option"
  round_milli :: "'f \<Rightarrow> nat"
  overflow_checks :: bool

subsection \<open>Attribute lists\<close>

definition unquote :: "str \<Rightarrow> str" where
  "unquote value =
     (case strip_prefix [0x22] value of
        None \<Rightarrow> value
      | Some rest \<Rightarrow> if rest \<noteq> [] \<and> last rest = 0x22 then butlast rest else value)"

definition push_attribute :: "str \<Rightarrow> (str \<times> str) list \<Rightarrow> (str \<times> str) list" where
  "push_attribute raw output =
     (case split_once 0x3d raw of None \<Rightarrow> output | Some (key, value) \<Rightarrow> output @ [(trim key, trim value)])"

text \<open>\<open>cur\<close> is \<open>input[start..index]\<close>.\<close>

fun split_attributes_loop :: "bool \<Rightarrow> str \<Rightarrow> str \<Rightarrow> (str \<times> str) list \<Rightarrow> (str \<times> str) list" where
  "split_attributes_loop quoted cur [] parts = push_attribute cur parts"
| "split_attributes_loop quoted cur (ch # s) parts =
     (if ch = 0x22 then split_attributes_loop (\<not> quoted) (cur @ [ch]) s parts
      else if ch = 0x2c \<and> \<not> quoted then split_attributes_loop quoted [] s (push_attribute cur parts)
      else split_attributes_loop quoted (cur @ [ch]) s parts)"

definition split_attributes :: "str \<Rightarrow> (str \<times> str) list" where
  "split_attributes input = split_attributes_loop False [] input []"

definition attr :: "(str \<times> str) list \<Rightarrow> string \<Rightarrow> str option" where
  "attr attrs key = map_of attrs (lit key)"

definition attr_yes :: "(str \<times> str) list \<Rightarrow> string \<Rightarrow> bool" where
  "attr_yes attrs key =
     (case attr attrs key of None \<Rightarrow> False | Some v \<Rightarrow> eq_ignore_ascii_case (unquote v) (lit ''YES''))"

definition resolve_uri :: "('u, 'f) hls_host \<Rightarrow> 'u \<Rightarrow> str \<Rightarrow> str" where
  "resolve_uri h base uri = (case url_join h base uri of None \<Rightarrow> uri | Some u \<Rightarrow> url_string h u)"

subsection \<open>Tags\<close>

definition parse_byte_range :: "str \<Rightarrow> (HlsError, hls_byte_range) result" where
  "parse_byte_range raw =
     (let value = unquote raw in
      case split_once 0x40 value of
        Some (len, offset) \<Rightarrow>
          rbind (ok_or (InvalidByteRange value) (parse_unsigned u64_limit len)) (\<lambda>n.
          rbind (ok_or (InvalidByteRange value) (parse_unsigned u64_limit offset)) (\<lambda>k.
          Inr \<lparr>hb_length = n, hb_offset = Some k\<rparr>))
      | None \<Rightarrow>
          rbind (ok_or (InvalidByteRange value) (parse_unsigned u64_limit value)) (\<lambda>n.
          Inr \<lparr>hb_length = n, hb_offset = None\<rparr>))"

definition parse_init_map :: "('u, 'f) hls_host \<Rightarrow> 'u \<Rightarrow> str \<Rightarrow> hls_init_map option" where
  "parse_init_map h base attributes =
     (let attrs = split_attributes attributes in
      Option.bind (attr attrs ''URI'') (\<lambda>uri.
      let range = Option.bind (attr attrs ''BYTERANGE'') (\<lambda>v. ok (parse_byte_range (unquote v))) in
      Some \<lparr>hm_uri = resolve_uri h base (unquote uri), hm_byte_range = range\<rparr>))"

definition encryption_method :: "str \<Rightarrow> HlsEncryptionMethod" where
  "encryption_method m =
     (if m = lit ''NONE'' then NoEncryption
      else if m = lit ''AES-128'' then Aes128
      else if m = lit ''SAMPLE-AES'' then SampleAes
      else OtherEncryption m)"

definition parse_key :: "('u, 'f) hls_host \<Rightarrow> 'u \<Rightarrow> str \<Rightarrow> hls_key option" where
  "parse_key h base attributes =
     (let attrs = split_attributes attributes in
      Option.bind (attr attrs ''METHOD'') (\<lambda>m.
      let method = encryption_method (unquote m) in
      if method = NoEncryption then None
      else Some \<lparr>hk_method = method,
                 hk_uri = map_option (\<lambda>v. resolve_uri h base (unquote v)) (attr attrs ''URI''),
                 hk_iv = map_option unquote (attr attrs ''IV''),
                 hk_key_format = map_option unquote (attr attrs ''KEYFORMAT'')\<rparr>))"

definition rendition_kind :: "str \<Rightarrow> HlsRenditionKind option" where
  "rendition_kind t =
     (if t = lit ''AUDIO'' then Some Audio
      else if t = lit ''VIDEO'' then Some Video
      else if t = lit ''SUBTITLES'' then Some Subtitles
      else if t = lit ''CLOSED-CAPTIONS'' then Some ClosedCaptions
      else None)"

definition parse_rendition :: "('u, 'f) hls_host \<Rightarrow> 'u \<Rightarrow> str \<Rightarrow> hls_rendition option" where
  "parse_rendition h base attributes =
     (let attrs = split_attributes attributes in
      Option.bind (Option.bind (attr attrs ''TYPE'') rendition_kind) (\<lambda>kind.
      Option.bind (attr attrs ''GROUP-ID'') (\<lambda>group_id.
      Option.bind (attr attrs ''NAME'') (\<lambda>name.
      Some \<lparr>hr_kind = kind, hr_group_id = unquote group_id, hr_name = unquote name,
            hr_uri = map_option (\<lambda>uri. resolve_uri h base (unquote uri)) (attr attrs ''URI''),
            hr_language = map_option unquote (attr attrs ''LANGUAGE''),
            hr_default = attr_yes attrs ''DEFAULT'', hr_autoselect = attr_yes attrs ''AUTOSELECT'',
            hr_forced = attr_yes attrs ''FORCED'',
            hr_channels = map_option unquote (attr attrs ''CHANNELS'')\<rparr>))))"

definition parse_resolution :: "str \<Rightarrow> (nat \<times> nat) option" where
  "parse_resolution value =
     Option.bind (split_once 0x78 value) (\<lambda>(width, height).
     case (parse_unsigned u32_limit width, parse_unsigned u32_limit height) of
       (Some w, Some h) \<Rightarrow> Some (w, h)
     | _ \<Rightarrow> None)"

definition variant_attribute :: "('u, 'f) hls_host \<Rightarrow> hls_variant \<Rightarrow> str \<times> str \<Rightarrow> hls_variant" where
  "variant_attribute h v kv =
     (let (key, raw) = kv; value = unquote raw in
      if key = lit ''BANDWIDTH'' then v\<lparr>hv_bandwidth := parse_unsigned u64_limit value\<rparr>
      else if key = lit ''AVERAGE-BANDWIDTH'' then v\<lparr>hv_average_bandwidth := parse_unsigned u64_limit value\<rparr>
      else if key = lit ''RESOLUTION'' then v\<lparr>hv_resolution := parse_resolution value\<rparr>
      else if key = lit ''CODECS'' then
        v\<lparr>hv_codecs := filter (\<lambda>codec. codec \<noteq> []) (map trim (split_byte 0x2c value))\<rparr>
      else if key = lit ''FRAME-RATE'' then
        v\<lparr>hv_frame_rate_milli := map_option (round_milli h) (parse_f64 h value)\<rparr>
      else if key = lit ''AUDIO'' then v\<lparr>hv_audio_group := Some value\<rparr>
      else if key = lit ''SUBTITLES'' then v\<lparr>hv_subtitle_group := Some value\<rparr>
      else v)"

definition parse_variant :: "('u, 'f) hls_host \<Rightarrow> str \<Rightarrow> str \<Rightarrow> hls_variant" where
  "parse_variant h attributes uri =
     foldl (variant_attribute h)
       \<lparr>hv_uri = uri, hv_bandwidth = None, hv_average_bandwidth = None, hv_resolution = None, hv_codecs = [],
        hv_frame_rate_milli = None, hv_audio_group = None, hv_subtitle_group = None\<rparr>
       (split_attributes attributes)"

subsection \<open>Reading a playlist\<close>

text \<open>The variables of the loop.\<close>

record 'f hls_state =
  st_variants :: "hls_variant list"
  st_renditions :: "hls_rendition list"
  st_segments :: "'f hls_segment list"
  st_media_sequence :: nat
  st_target_duration :: "nat option"
  st_end_list :: bool
  pending_variant :: "str option"
  pending_duration :: "'f option"
  pending_discontinuity :: bool
  pending_byte_range :: "hls_byte_range option"
  active_init_map :: "hls_init_map option"
  active_key :: "hls_key option"
  sequence_offset :: nat
  next_implicit_offset :: "nat option"

definition hls_start :: "'f hls_state" where
  "hls_start = \<lparr>st_variants = [], st_renditions = [], st_segments = [], st_media_sequence = 0,
     st_target_duration = None, st_end_list = False, pending_variant = None, pending_duration = None,
     pending_discontinuity = False, pending_byte_range = None, active_init_map = None, active_key = None,
     sequence_offset = 0, next_implicit_offset = None\<rparr>"

definition saturating_add64 :: "nat \<Rightarrow> nat \<Rightarrow> nat" where
  "saturating_add64 a b = min (a + b) (u64_limit - 1)"

definition add64 :: "('u, 'f) hls_host \<Rightarrow> nat \<Rightarrow> nat \<Rightarrow> (hls_fault, nat) result" where
  "add64 h a b =
     (if a + b < u64_limit then Inr (a + b)
      else if overflow_checks h then Inl SequenceOverflow
      else Inr ((a + b) mod u64_limit))"

text \<open>A line that is a URI: of the pending variant if there is one, and otherwise of a segment.\<close>

definition hls_uri_line ::
  "('u, 'f) hls_host \<Rightarrow> 'u \<Rightarrow> 'f hls_state \<Rightarrow> str \<Rightarrow> (hls_fault, 'f hls_state) result" where
  "hls_uri_line h base st line =
     (let resolved = resolve_uri h base line in
      case pending_variant st of
        Some attributes \<Rightarrow>
          Inr (st\<lparr>pending_variant := None, st_variants := st_variants st @ [parse_variant h attributes resolved]\<rparr>)
      | None \<Rightarrow>
          let byte_range = pending_byte_range st;
              next_offset = Option.bind byte_range (\<lambda>r.
                map_option (\<lambda>offset. saturating_add64 offset (hb_length r)) (hb_offset r)) in
          rbind (add64 h (st_media_sequence st) (sequence_offset st)) (\<lambda>sequence.
          Inr (st\<lparr>pending_byte_range := None, next_implicit_offset := next_offset,
                  pending_duration := None, pending_discontinuity := False,
                  st_segments := st_segments st @ [\<lparr>hs_uri = resolved, hs_duration = pending_duration st,
                    hs_sequence = sequence, hs_discontinuity = pending_discontinuity st,
                    hs_byte_range = byte_range, hs_init_map = active_init_map st, hs_key = active_key st\<rparr>],
                  sequence_offset := sequence_offset st + 1\<rparr>)))"

definition read_byte_range ::
  "'f hls_state \<Rightarrow> str \<Rightarrow> (hls_fault, 'f hls_state) result" where
  "read_byte_range st value =
     rbind (map_err HlsErr (parse_byte_range (trim value))) (\<lambda>range.
     Inr (st\<lparr>pending_byte_range :=
       Some (if hb_offset range = None then range\<lparr>hb_offset := next_implicit_offset st\<rparr> else range)\<rparr>))"

definition extinf_duration :: "('u, 'f) hls_host \<Rightarrow> str \<Rightarrow> 'f option" where
  "extinf_duration h value = parse_f64 h (trim (hd (split_byte 0x2c value)))"

definition hls_line ::
  "('u, 'f) hls_host \<Rightarrow> 'u \<Rightarrow> 'f hls_state \<Rightarrow> str \<Rightarrow> (hls_fault, 'f hls_state) result" where
  "hls_line h base st raw_line =
     (let line = trim raw_line in
      if line = [] then Inr st
      else case strip_prefix (lit ''#EXT-X-MEDIA-SEQUENCE:'') line of
        Some value \<Rightarrow>
          Inr (st\<lparr>st_media_sequence := (case parse_unsigned u64_limit (trim value) of None \<Rightarrow> 0 | Some n \<Rightarrow> n)\<rparr>)
      | None \<Rightarrow> case strip_prefix (lit ''#EXT-X-TARGETDURATION:'') line of
        Some value \<Rightarrow> Inr (st\<lparr>st_target_duration := parse_unsigned u64_limit (trim value)\<rparr>)
      | None \<Rightarrow>
      if line = lit ''#EXT-X-ENDLIST'' then Inr (st\<lparr>st_end_list := True\<rparr>)
      else if line = lit ''#EXT-X-DISCONTINUITY'' then
        Inr (st\<lparr>pending_discontinuity := True, next_implicit_offset := None\<rparr>)
      else case strip_prefix (lit ''#EXTINF:'') line of
        Some value \<Rightarrow> Inr (st\<lparr>pending_duration := extinf_duration h value\<rparr>)
      | None \<Rightarrow> case strip_prefix (lit ''#EXT-X-BYTERANGE:'') line of
        Some value \<Rightarrow> read_byte_range st value
      | None \<Rightarrow> case strip_prefix (lit ''#EXT-X-MAP:'') line of
        Some value \<Rightarrow> Inr (st\<lparr>active_init_map := parse_init_map h base value\<rparr>)
      | None \<Rightarrow> case strip_prefix (lit ''#EXT-X-KEY:'') line of
        Some value \<Rightarrow> Inr (st\<lparr>active_key := parse_key h base value\<rparr>)
      | None \<Rightarrow> case strip_prefix (lit ''#EXT-X-MEDIA:'') line of
        Some value \<Rightarrow>
          Inr (case parse_rendition h base value of
                 Some rendition \<Rightarrow> st\<lparr>st_renditions := st_renditions st @ [rendition]\<rparr>
               | None \<Rightarrow> st)
      | None \<Rightarrow> case strip_prefix (lit ''#EXT-X-STREAM-INF:'') line of
        Some value \<Rightarrow> Inr (st\<lparr>pending_variant := Some value\<rparr>)
      | None \<Rightarrow>
      if hd line = 0x23 then Inr st
      else hls_uri_line h base st line)"

fun hls_lines ::
  "('u, 'f) hls_host \<Rightarrow> 'u \<Rightarrow> 'f hls_state \<Rightarrow> str list \<Rightarrow> (hls_fault, 'f hls_state) result" where
  "hls_lines h base st [] = Inr st"
| "hls_lines h base st (line # lines) = rbind (hls_line h base st line) (\<lambda>st'. hls_lines h base st' lines)"

definition hls_finish :: "'f hls_state \<Rightarrow> 'f hls_manifest" where
  "hls_finish st =
     \<lparr>hls_kind = (if st_variants st = [] \<and> st_renditions st = [] then Media else Master),
      hls_variants = st_variants st, hls_renditions = st_renditions st, hls_segments = st_segments st,
      hls_media_sequence = st_media_sequence st, hls_target_duration = st_target_duration st,
      hls_end_list = st_end_list st\<rparr>"

definition parse_hls :: "('u, 'f) hls_host \<Rightarrow> str \<Rightarrow> str \<Rightarrow> (hls_fault, 'f hls_manifest) result" where
  "parse_hls h base_url body =
     (if trim body = [] then Inl (HlsErr EmptyManifest)
      else case filter (\<lambda>line. line \<noteq> []) (map trim (str_lines body)) of
        [] \<Rightarrow> Inl (HlsErr MissingHeader)
      | first # _ \<Rightarrow>
          if first \<noteq> lit ''#EXTM3U'' then Inl (HlsErr MissingHeader)
          else rbind (ok_or (HlsErr (InvalidBaseUrl base_url)) (parse_url h base_url)) (\<lambda>base.
            rbind (hls_lines h base hls_start (drop 1 (str_lines body))) (\<lambda>st.
            Inr (hls_finish st))))"

subsection \<open>Variants\<close>

fun max_by_key :: "('a \<Rightarrow> nat \<times> nat) \<Rightarrow> 'a option \<Rightarrow> 'a list \<Rightarrow> 'a option" where
  "max_by_key key best [] = best"
| "max_by_key key best (x # xs) =
     max_by_key key
       (case best of
          None \<Rightarrow> Some x
        | Some b \<Rightarrow> if fst (key b) < fst (key x) \<or> fst (key b) = fst (key x) \<and> snd (key b) \<le> snd (key x)
                    then Some x else Some b) xs"

definition variant_quality :: "hls_variant \<Rightarrow> nat \<times> nat" where
  "variant_quality v =
     (let (width, height) = (case hv_resolution v of None \<Rightarrow> (0, 0) | Some r \<Rightarrow> r) in
      (width * height,
       case hv_average_bandwidth v of
         Some b \<Rightarrow> b
       | None \<Rightarrow> (case hv_bandwidth v of Some b \<Rightarrow> b | None \<Rightarrow> 0)))"

definition select_best_hls_variant :: "'f hls_manifest \<Rightarrow> hls_variant option" where
  "select_best_hls_variant m = max_by_key variant_quality None (hls_variants m)"

text \<open>The choices of the daemon: a variant up to a height, and the audio rendition of a group.\<close>

definition select_hls_variant :: "'f hls_manifest \<Rightarrow> nat option \<Rightarrow> hls_variant option" where
  "select_hls_variant m max_height =
     max_by_key variant_quality None
       (filter (\<lambda>v. case max_height of
           None \<Rightarrow> True
         | Some limit \<Rightarrow> (case hv_resolution v of None \<Rightarrow> False | Some (_, height) \<Rightarrow> height \<le> limit)) (hls_variants m))"

definition select_hls_audio_rendition :: "'f hls_manifest \<Rightarrow> str \<Rightarrow> hls_rendition option" where
  "select_hls_audio_rendition m group_id =
     max_by_key (\<lambda>r. (of_bool (hr_default r), of_bool (hr_autoselect r))) None
       (filter (\<lambda>r. hr_kind r = Audio \<and> hr_group_id r = group_id \<and> hr_uri r \<noteq> None) (hls_renditions m))"

text \<open>The variant chosen is one of those offered and none is of higher quality.\<close>

definition quality_le :: "hls_variant \<Rightarrow> hls_variant \<Rightarrow> bool" where
  "quality_le v w \<longleftrightarrow> fst (variant_quality v) < fst (variant_quality w)
     \<or> fst (variant_quality v) = fst (variant_quality w) \<and> snd (variant_quality v) \<le> snd (variant_quality w)"

lemma max_by_key_best:
  "max_by_key variant_quality best vs = Some w \<Longrightarrow>
     (w \<in> set vs \<or> best = Some w) \<and> (\<forall>v \<in> set vs \<union> set_option best. quality_le v w)"
proof (induction vs arbitrary: best)
  case Nil
  then show ?case by (simp add: quality_le_def)
next
  case (Cons x xs)
  from Cons.IH [OF Cons.prems [unfolded max_by_key.simps]] show ?case
    by (cases best) (auto simp: quality_le_def split: if_splits)
qed

lemma select_best_hls_variant_best:
  "select_best_hls_variant m = Some w \<Longrightarrow> w \<in> set (hls_variants m) \<and> (\<forall>v \<in> set (hls_variants m). quality_le v w)"
  using max_by_key_best [of None "hls_variants m" w] by (simp add: select_best_hls_variant_def)

lemma select_hls_variant_best:
  "select_hls_variant m max_height = Some w \<Longrightarrow>
     w \<in> set (hls_variants m) \<and> (\<forall>h. max_height = Some h \<longrightarrow> (\<exists>x y. hv_resolution w = Some (x, y) \<and> y \<le> h))
   \<and> (max_height = None \<longrightarrow> select_best_hls_variant m = Some w)"
  using max_by_key_best [of None _ w]
  by (fastforce simp: select_hls_variant_def select_best_hls_variant_def split: option.splits)

subsection \<open>Transfer plans\<close>

datatype HlsTransferUnitKind = Initialization | MediaSegment

record hls_unit =
  hu_order :: nat
  hu_kind :: HlsTransferUnitKind
  hu_uri :: str
  hu_byte_range :: "hls_byte_range option"
  hu_sequence :: "nat option"
  hu_discontinuity :: bool
  hu_key :: "hls_key option"

record hls_plan =
  hp_units :: "hls_unit list"
  hp_end_list :: bool
  hp_target_duration :: "nat option"

datatype HlsPlanError = MasterPlaylist | EmptyMediaPlaylist

definition init_unit :: "nat \<Rightarrow> 'f hls_segment \<Rightarrow> hls_init_map \<Rightarrow> hls_unit" where
  "init_unit order s m =
     \<lparr>hu_order = order, hu_kind = Initialization, hu_uri = hm_uri m, hu_byte_range = hm_byte_range m,
      hu_sequence = None, hu_discontinuity = False, hu_key = hs_key s\<rparr>"

definition media_unit :: "nat \<Rightarrow> 'f hls_segment \<Rightarrow> hls_unit" where
  "media_unit order s =
     \<lparr>hu_order = order, hu_kind = MediaSegment, hu_uri = hs_uri s, hu_byte_range = hs_byte_range s,
      hu_sequence = Some (hs_sequence s), hu_discontinuity = hs_discontinuity s, hu_key = hs_key s\<rparr>"

fun plan_units :: "nat \<Rightarrow> hls_init_map option \<Rightarrow> 'f hls_segment list \<Rightarrow> hls_unit list" where
  "plan_units order active [] = []"
| "plan_units order active (s # ss) =
     (if hs_init_map s \<noteq> active
      then (case hs_init_map s of
              Some m \<Rightarrow>
                init_unit order s m # media_unit (order + 1) s # plan_units (order + 2) (hs_init_map s) ss
            | None \<Rightarrow> media_unit order s # plan_units (order + 1) (hs_init_map s) ss)
      else media_unit order s # plan_units (order + 1) active ss)"

definition build_hls_media_plan :: "'f hls_manifest \<Rightarrow> (HlsPlanError, hls_plan) result" where
  "build_hls_media_plan m =
     (if hls_kind m \<noteq> Media then Inl MasterPlaylist
      else if hls_segments m = [] then Inl EmptyMediaPlaylist
      else Inr \<lparr>hp_units = plan_units 0 None (hls_segments m), hp_end_list = hls_end_list m,
                hp_target_duration = hls_target_duration m\<rparr>)"

subsection \<open>Live refreshes\<close>

text \<open>A cursor is its \<open>next_sequence\<close>.\<close>

record hls_refresh =
  hf_plan :: "hls_plan option"
  hf_next_cursor :: "nat option"
  hf_reload_after :: nat
  hf_ended :: bool

definition saturating_mul64 :: "nat \<Rightarrow> nat \<Rightarrow> nat" where
  "saturating_mul64 a b = min (a * b) (u64_limit - 1)"

definition unseen :: "nat \<Rightarrow> 'f hls_segment list \<Rightarrow> 'f hls_segment list" where
  "unseen next_sequence ss = filter (\<lambda>s. next_sequence \<le> hs_sequence s) ss"

definition build_hls_live_refresh ::
  "'f hls_manifest \<Rightarrow> nat option \<Rightarrow> (HlsPlanError, hls_refresh) result" where
  "build_hls_live_refresh m cursor =
     (if hls_kind m \<noteq> Media then Inl MasterPlaylist
      else
        let next_sequence = (case cursor of None \<Rightarrow> hls_media_sequence m | Some n \<Rightarrow> n);
            selected = unseen next_sequence (hls_segments m) in
        rbind (if selected = [] then Inr None
               else rbind (build_hls_media_plan
                      \<lparr>hls_kind = Media, hls_variants = [], hls_renditions = [], hls_segments = selected,
                       hls_media_sequence = next_sequence, hls_target_duration = hls_target_duration m,
                       hls_end_list = hls_end_list m\<rparr>) (\<lambda>p. Inr (Some p))) (\<lambda>plan.
        Inr \<lparr>hf_plan = plan,
             hf_next_cursor = (if hls_segments m = [] then cursor
                               else Some (saturating_add64 (hs_sequence (last (hls_segments m))) 1)),
             hf_reload_after =
               max (saturating_mul64 (case hls_target_duration m of None \<Rightarrow> 6 | Some n \<Rightarrow> n) 1000) 1000,
             hf_ended = hls_end_list m\<rparr>))"

end
