(* ===== verification/Hls_Live.thy ===== *)
theory Hls_Live
  imports Hls Http "HOL-Library.AList"
begin

text \<open>
  Recording a live HLS stream: \<open>stage_hls_media_plan\<close> and its helpers (\<open>nova-media-core/src/hls_transfer.rs\<close>),
  \<open>stage_hls_live_stream\<close>, \<open>stage_hls_live_pair_stream\<close>, \<open>stage_hls_playlist\<close> and the live checkpoints
  (\<open>src-tauri/src/daemon/native_media.rs\<close>), and \<open>assemble_ordered_parts\<close> (\<open>nova-media-core/src/assembly.rs\<close>).

  The transport is a \<open>live_source\<close>: what the requests of one refresh answer, and the answers of the \<open>control\<close> closure. AES-128-CBC, a third-party crate, is
  the parameter \<open>dec\<close>. The units of a plan are staged in their order: the workers of the code share only the key
  cache, which holds what the key requests answered. The recording's directory is a \<open>live_disk\<close>, the contents of
  the numbered part files and the checkpoint file; writing to it is a list of \<open>live_write\<close>s, so that the process
  can die after any of them (\<open>li_halt\<close>), and it does not fail otherwise. Progress reports are dropped.
\<close>

subsection \<open>Staging a plan\<close>

datatype HlsStageError =
    EmptyPlan
  | UnsupportedEncryption str
  | MissingKeyUri
  | InvalidKeyLength nat
  | MissingInitializationIv
  | InvalidIv str
  | InvalidCiphertext
  | MissingByteRangeOffset
  | ByteRangeOverflow
  | StageTransport TransportError
  | StageCancelled
  | StagePaused

record live_source =
  get_body :: "str \<Rightarrow> (TransportError, u8 list) result"
  get_range :: "str \<Rightarrow> nat \<Rightarrow> nat \<Rightarrow> (TransportError, u8 list) result"
  get_key :: "str \<Rightarrow> (TransportError, u8 list) result"
  start_control :: TransferControl
  unit_control :: "nat \<Rightarrow> TransferControl"

type_synonym decryptor = "u8 list \<Rightarrow> u8 list \<Rightarrow> u8 list \<Rightarrow> u8 list option"
type_synonym key_cache = "str \<rightharpoonup> u8 list"

fun map_transport_error :: "TransportError \<Rightarrow> HlsStageError" where
  "map_transport_error Cancelled = StageCancelled"
| "map_transport_error Paused = StagePaused"
| "map_transport_error other = StageTransport other"

definition validate_key :: "hls_key \<Rightarrow> (HlsStageError, unit) result" where
  "validate_key key =
     rbind (case hk_key_format key of
        Some f \<Rightarrow> guard (\<not> eq_ignore_ascii_case f (lit ''identity'')) (UnsupportedEncryption (lit ''KEYFORMAT='' @ f))
      | None \<Rightarrow> Inr ()) (\<lambda>_.
     case hk_method key of
       Aes128 \<Rightarrow> Inr ()
     | NoEncryption \<Rightarrow> Inr ()
     | SampleAes \<Rightarrow> Inl (UnsupportedEncryption (lit ''SAMPLE-AES''))
     | OtherEncryption m \<Rightarrow> Inl (UnsupportedEncryption m))"

definition validate_encryption_modes :: "hls_unit list \<Rightarrow> (HlsStageError, unit) result" where
  "validate_encryption_modes units =
     rbind (mapM_r (\<lambda>u. case hu_key u of None \<Rightarrow> Inr () | Some key \<Rightarrow> validate_key key) units) (\<lambda>_. Inr ())"

definition parse_iv :: "str \<Rightarrow> (HlsStageError, u8 list) result" where
  "parse_iv value =
     (let hex = (case strip_prefix (lit ''0x'') value of
                   Some h \<Rightarrow> h
                 | None \<Rightarrow> (case strip_prefix (lit ''0X'') value of Some h \<Rightarrow> h | None \<Rightarrow> value)) in
      if hex = [] \<or> 32 < length hex \<or> \<not> list_all (\<lambda>b. hex_nibble b \<noteq> None) hex then Inl (InvalidIv value)
      else map_err (\<lambda>_. InvalidIv value) (mapM_r hex_pair (chunks_exact 2 (replicate (32 - length hex) 0x30 @ hex))))"

definition resolve_iv :: "hls_unit \<Rightarrow> hls_key \<Rightarrow> (HlsStageError, u8 list) result" where
  "resolve_iv u key =
     (case hk_iv key of
        Some iv \<Rightarrow> parse_iv iv
      | None \<Rightarrow>
          if hu_kind u = Initialization then Inl MissingInitializationIv
          else rbind (ok_or (InvalidIv (lit ''media segment is missing a sequence number'')) (hu_sequence u))
            (\<lambda>sequence. Inr (replicate 8 0 @ to_be64 (of_nat sequence))))"

definition get_aes128_key ::
  "live_source \<Rightarrow> key_cache \<Rightarrow> str \<Rightarrow> (HlsStageError, u8 list \<times> key_cache) result" where
  "get_aes128_key src cache key_uri =
     (case cache key_uri of
        Some key \<Rightarrow> Inr (key, cache)
      | None \<Rightarrow>
          rbind (map_err StageTransport (get_key src key_uri)) (\<lambda>body.
          if length body \<noteq> 16 then Inl (InvalidKeyLength (length body))
          else Inr (body, cache(key_uri \<mapsto> body))))"

definition decrypt_staged_unit ::
  "decryptor \<Rightarrow> live_source \<Rightarrow> key_cache \<Rightarrow> hls_unit \<Rightarrow> hls_key \<Rightarrow> u8 list \<Rightarrow> (HlsStageError, u8 list \<times> key_cache) result" where
  "decrypt_staged_unit dec src cache u key ciphertext =
     rbind (ok_or MissingKeyUri (hk_uri key)) (\<lambda>key_uri.
     rbind (get_aes128_key src cache key_uri) (\<lambda>(key_bytes, cache').
     rbind (resolve_iv u key) (\<lambda>iv.
     rbind (ok_or InvalidCiphertext (dec key_bytes iv ciphertext)) (\<lambda>plaintext.
     Inr (plaintext, cache')))))"

definition fetch_unit :: "live_source \<Rightarrow> hls_unit \<Rightarrow> (HlsStageError, u8 list) result" where
  "fetch_unit src u =
     (case hu_byte_range u of
        Some r \<Rightarrow>
          rbind (ok_or MissingByteRangeOffset (hb_offset r)) (\<lambda>start.
          rbind (ok_or ByteRangeOverflow
                  (Option.bind (checked_add64 start (hb_length r)) (\<lambda>v. checked_sub v 1))) (\<lambda>stop.
          map_err map_transport_error (get_range src (hu_uri u) start stop)))
      | None \<Rightarrow> map_err map_transport_error (get_body src (hu_uri u)))"

definition stage_one_unit ::
  "decryptor \<Rightarrow> live_source \<Rightarrow> key_cache \<Rightarrow> hls_unit \<Rightarrow> (HlsStageError, u8 list \<times> key_cache) result" where
  "stage_one_unit dec src cache u =
     rbind (fetch_unit src u) (\<lambda>body.
     case hu_key u of
       Some key \<Rightarrow>
         if hk_method key = Aes128 then decrypt_staged_unit dec src cache u key body else Inr (body, cache)
     | None \<Rightarrow> Inr (body, cache))"

fun check_control :: "TransferControl \<Rightarrow> (HlsStageError, unit) result" where
  "check_control Continue = Inr ()"
| "check_control Pause = Inl StagePaused"
| "check_control Cancel = Inl StageCancelled"

text \<open>The loop of a worker: the control is asked before every unit and once more when there is none left.\<close>

fun stage_units ::
  "decryptor \<Rightarrow> live_source \<Rightarrow> key_cache \<Rightarrow> nat \<Rightarrow> hls_unit list \<Rightarrow> (HlsStageError, (nat \<times> u8 list) list) result" where
  "stage_units dec src cache index [] = rbind (check_control (unit_control src index)) (\<lambda>_. Inr [])"
| "stage_units dec src cache index (u # us) =
     rbind (check_control (unit_control src index)) (\<lambda>_.
     rbind (stage_one_unit dec src cache u) (\<lambda>(bytes, cache').
     rbind (stage_units dec src cache' (index + 1) us) (\<lambda>files.
     Inr ((hu_order u, bytes) # files))))"

definition stage_hls_media_plan ::
  "decryptor \<Rightarrow> live_source \<Rightarrow> hls_unit list \<Rightarrow> (HlsStageError, (nat \<times> u8 list) list \<times> nat) result" where
  "stage_hls_media_plan dec src units =
     (if units = [] then Inl EmptyPlan
      else rbind (check_control (start_control src)) (\<lambda>_.
        rbind (validate_encryption_modes units) (\<lambda>_.
        rbind (stage_units dec src Map.empty 0 units) (\<lambda>files.
        Inr (sort_key fst files, sum_list (map (length \<circ> snd) files))))))"

subsection \<open>The recording's directory\<close>

record live_checkpoint =
  lc_cursor :: "nat option"
  lc_next_order :: nat
  lc_total_bytes :: nat
  lc_last_init :: "str option"

definition default_checkpoint :: live_checkpoint where
  "default_checkpoint = \<lparr>lc_cursor = None, lc_next_order = 0, lc_total_bytes = 0, lc_last_init = None\<rparr>"

record live_disk =
  ld_checkpoint :: "live_checkpoint option"
  ld_parts :: "(nat \<times> u8 list) list"

definition empty_disk :: live_disk where
  "empty_disk = \<lparr>ld_checkpoint = None, ld_parts = []\<rparr>"

datatype live_write = RemovePart nat | PutPart nat "u8 list" | RemoveCheckpoint | PutCheckpoint live_checkpoint

fun apply_write :: "live_write \<Rightarrow> live_disk \<Rightarrow> live_disk" where
  "apply_write (RemovePart n) d = d\<lparr>ld_parts := AList.delete n (ld_parts d)\<rparr>"
| "apply_write (PutPart n bytes) d = d\<lparr>ld_parts := AList.update n bytes (ld_parts d)\<rparr>"
| "apply_write RemoveCheckpoint d = d\<lparr>ld_checkpoint := None\<rparr>"
| "apply_write (PutCheckpoint cp) d = d\<lparr>ld_checkpoint := Some cp\<rparr>"

definition apply_writes :: "live_write list \<Rightarrow> live_disk \<Rightarrow> live_disk" where
  "apply_writes ws d = fold apply_write ws d"

text \<open>The renames of the sorted parts, and \<open>next_order\<close> after them.\<close>

fun commit_writes :: "live_disk \<Rightarrow> nat \<Rightarrow> u8 list list \<Rightarrow> live_write list" where
  "commit_writes d n [] = []"
| "commit_writes d n (bytes # parts) =
     (let ws = (if map_of (ld_parts d) n \<noteq> None then [RemovePart n] else []) @ [PutPart n bytes] in
      ws @ commit_writes (apply_writes ws d) (saturating_add64 n 1) parts)"

fun commit_order :: "nat \<Rightarrow> 'a list \<Rightarrow> nat" where
  "commit_order n [] = n"
| "commit_order n (p # parts) = commit_order (saturating_add64 n 1) parts"

definition commit_live_parts :: "live_disk \<Rightarrow> (nat \<times> u8 list) list \<Rightarrow> nat \<Rightarrow> live_write list \<times> nat" where
  "commit_live_parts d parts next_order =
     (let ordered = map snd (sort_key fst parts) in
      (commit_writes d next_order ordered, commit_order next_order ordered))"

definition committed_live_parts :: "live_disk \<Rightarrow> (nat \<times> u8 list) list" where
  "committed_live_parts d = sort_key fst (ld_parts d)"

definition read_live_checkpoint :: "live_disk \<Rightarrow> live_checkpoint" where
  "read_live_checkpoint d = (case ld_checkpoint d of None \<Rightarrow> default_checkpoint | Some cp \<Rightarrow> cp)"

definition write_live_checkpoint :: "live_disk \<Rightarrow> live_checkpoint \<Rightarrow> live_write list" where
  "write_live_checkpoint d cp = (if ld_checkpoint d \<noteq> None then [RemoveCheckpoint] else []) @ [PutCheckpoint cp]"

datatype AssemblyError = EmptyAssembly | DuplicateOrder nat

fun duplicate_order :: "(nat \<times> 'a) list \<Rightarrow> nat option" where
  "duplicate_order (p # q # ps) = (if fst p = fst q then Some (fst p) else duplicate_order (q # ps))"
| "duplicate_order ps = None"

definition assemble_ordered_parts :: "(nat \<times> u8 list) list \<Rightarrow> (AssemblyError, u8 list) result" where
  "assemble_ordered_parts parts =
     (if parts = [] then Inl EmptyAssembly
      else let ordered = sort_key fst parts in
        case duplicate_order ordered of
          Some order \<Rightarrow> Inl (DuplicateOrder order)
        | None \<Rightarrow> Inr (concat (map snd ordered)))"

subsection \<open>One refresh\<close>

datatype live_fault =
    LiveCancelled
  | PlaylistTransfer TransportError
  | PlaylistEncoding
  | PlaylistParse hls_fault
  | NotMediaPlaylist
  | PlanFailed HlsPlanError
  | StageFailed HlsStageError
  | NothingCommitted

text \<open>\<open>{:?}\<close> of the byte range.\<close>

definition debug_range :: "hls_byte_range option \<Rightarrow> str" where
  "debug_range rng =
     (case rng of
        None \<Rightarrow> lit ''None''
      | Some r \<Rightarrow> lit ''Some(HlsByteRange { length: '' @ nat_to_dec (hb_length r) @ lit '', offset: '' @
          (case hb_offset r of None \<Rightarrow> lit ''None'' | Some k \<Rightarrow> lit ''Some('' @ nat_to_dec k @ lit '')'') @ lit '' })'')"

definition init_identity :: "str \<Rightarrow> hls_byte_range option \<Rightarrow> str" where
  "init_identity uri rng = uri @ lit ''|'' @ debug_range rng"

text \<open>\<open>plan.units.retain\<close>: the units kept, and \<open>last_init\<close> after them.\<close>

fun retain_inits :: "str option \<Rightarrow> hls_unit list \<Rightarrow> hls_unit list \<times> str option" where
  "retain_inits last_init [] = ([], last_init)"
| "retain_inits last_init (u # us) =
     (if hu_kind u \<noteq> Initialization then
        (let (kept, l) = retain_inits last_init us in (u # kept, l))
      else
        let identity = init_identity (hu_uri u) (hu_byte_range u) in
        if last_init = Some identity then retain_inits last_init us
        else let (kept, l) = retain_inits (Some identity) us in (u # kept, l))"

text \<open>Staging and committing the units of a refresh, if there are any.\<close>

definition stage_refresh ::
  "decryptor \<Rightarrow> live_source \<Rightarrow> live_disk \<Rightarrow> live_checkpoint \<Rightarrow> hls_unit list \<Rightarrow>
   (live_fault, live_checkpoint \<times> live_write list) result" where
  "stage_refresh dec src d cp units =
     (if units = [] then Inr (cp, [])
      else rbind (map_err StageFailed (stage_hls_media_plan dec src units)) (\<lambda>(files, total).
        let (ws, next_order) = commit_live_parts d files (lc_next_order cp) in
        Inr (cp\<lparr>lc_next_order := next_order, lc_total_bytes := saturating_add64 (lc_total_bytes cp) total\<rparr>, ws)))"

definition live_track ::
  "decryptor \<Rightarrow> live_source \<Rightarrow> live_disk \<Rightarrow> live_checkpoint \<Rightarrow> hls_plan option \<Rightarrow>
   (live_fault, live_checkpoint \<times> live_write list) result" where
  "live_track dec src d cp plan =
     (case plan of
        None \<Rightarrow> Inr (cp, [])
      | Some p \<Rightarrow>
          let (units, last_init) = retain_inits (lc_last_init cp) (hp_units p) in
          rbind (stage_refresh dec src d cp units) (\<lambda>(cp', ws).
          Inr (if units = [] then cp' else cp'\<lparr>lc_last_init := last_init\<rparr>, ws)))"

text \<open>The body of the loop up to the checkpoint: what is written, the checkpoint and whether the stream has ended.\<close>

definition live_tick ::
  "decryptor \<Rightarrow> live_source \<Rightarrow> 'f hls_manifest \<Rightarrow> live_checkpoint \<Rightarrow> live_disk \<Rightarrow>
   (live_fault, live_checkpoint \<times> live_write list \<times> bool) result" where
  "live_tick dec src m cp d =
     rbind (map_err PlanFailed (build_hls_live_refresh m (lc_cursor cp))) (\<lambda>refresh.
     rbind (live_track dec src d cp (hf_plan refresh)) (\<lambda>(cp', ws).
     let cp'' = cp'\<lparr>lc_cursor := hf_next_cursor refresh\<rparr> in
     Inr (cp'', ws @ write_live_checkpoint (apply_writes ws d) cp'', hf_ended refresh)))"

subsection \<open>The recording loop\<close>

text \<open>
  What one turn of the loop meets: the answers of \<open>should_cancel\<close>, the playlist's response, the sources of its
  segments, how many writes are made before the process dies, the answer of \<open>should_finish\<close> and whether the
  pause before the next turn is cancelled.
\<close>

record live_input =
  li_cancel :: bool
  li_response :: "(TransportError, str \<times> u8 list) result"
  li_source :: live_source
  li_halt :: "nat option"
  li_finish :: bool
  li_interrupt :: bool

datatype live_end = Finished "(nat \<times> u8 list) list" nat | LiveFailed live_fault | Died

definition fetch_live_manifest ::
  "('u, 'f) hls_host \<Rightarrow> (TransportError, str \<times> u8 list) result \<Rightarrow> (live_fault, 'f hls_manifest) result" where
  "fetch_live_manifest h response =
     rbind (map_err PlaylistTransfer response) (\<lambda>(effective_url, bytes).
     rbind (ok_or PlaylistEncoding (from_utf8 bytes)) (\<lambda>body.
     map_err PlaylistParse (parse_hls h effective_url body)))"

definition current_manifest ::
  "('u, 'f) hls_host \<Rightarrow> 'f hls_manifest option \<Rightarrow> live_input \<Rightarrow> (live_fault, 'f hls_manifest) result" where
  "current_manifest h current i =
     (case current of Some m \<Rightarrow> Inr m | None \<Rightarrow> fetch_live_manifest h (li_response i))"

text \<open>Running out of inputs is the process stopping where it is.\<close>

fun live_loop ::
  "('u, 'f) hls_host \<Rightarrow> decryptor \<Rightarrow> 'f hls_manifest option \<Rightarrow> live_input list \<Rightarrow> live_checkpoint \<Rightarrow> live_disk \<Rightarrow>
   live_end \<times> live_disk" where
  "live_loop h dec current [] cp d = (Died, d)"
| "live_loop h dec current (i # is) cp d =
     (if li_cancel i then (LiveFailed LiveCancelled, d)
      else case rbind (current_manifest h current i) (\<lambda>m. live_tick dec (li_source i) m cp d) of
        Inl e \<Rightarrow> (LiveFailed e, d)
      | Inr (cp', ws, ended) \<Rightarrow>
          if (case li_halt i of None \<Rightarrow> False | Some k \<Rightarrow> k < length ws)
          then (Died, apply_writes (take (the (li_halt i)) ws) d)
          else
            let d' = apply_writes ws d in
            if ended \<or> li_finish i then
              (if committed_live_parts d' = [] then LiveFailed NothingCommitted
               else Finished (committed_live_parts d') (lc_total_bytes cp'), d')
            else if li_interrupt i then (LiveFailed LiveCancelled, d')
            else live_loop h dec None is cp' d')"

definition stage_hls_live_stream ::
  "('u, 'f) hls_host \<Rightarrow> decryptor \<Rightarrow> 'f hls_manifest \<Rightarrow> live_input list \<Rightarrow> live_disk \<Rightarrow> live_end \<times> live_disk" where
  "stage_hls_live_stream h dec initial is d = live_loop h dec (Some initial) is (read_live_checkpoint d) d"

text \<open>A finished playlist is staged as a whole, whatever has been recorded of it.\<close>

definition stage_hls_manifest_track ::
  "decryptor \<Rightarrow> live_source \<Rightarrow> 'f hls_manifest \<Rightarrow> (live_fault, (nat \<times> u8 list) list \<times> nat) result" where
  "stage_hls_manifest_track dec src m =
     rbind (map_err PlanFailed (build_hls_media_plan m)) (\<lambda>plan.
     map_err StageFailed (stage_hls_media_plan dec src (hp_units plan)))"

definition stage_hls_playlist ::
  "('u, 'f) hls_host \<Rightarrow> decryptor \<Rightarrow> live_source \<Rightarrow> 'f hls_manifest \<Rightarrow> live_input list \<Rightarrow> live_disk \<Rightarrow>
   live_end \<times> live_disk" where
  "stage_hls_playlist h dec src m is d =
     (if \<not> hls_end_list m then stage_hls_live_stream h dec m is d
      else (case stage_hls_manifest_track dec src m of
              Inl e \<Rightarrow> LiveFailed e
            | Inr (parts, bytes) \<Rightarrow> Finished parts bytes, d))"

subsection \<open>Two tracks\<close>

record live_pair =
  lp_video :: live_checkpoint
  lp_audio :: live_checkpoint
  lp_video_ended :: bool
  lp_audio_ended :: bool

definition default_pair :: live_pair where
  "default_pair = \<lparr>lp_video = default_checkpoint, lp_audio = default_checkpoint, lp_video_ended = False,
     lp_audio_ended = False\<rparr>"

text \<open>
  One turn of \<open>stage_hls_live_pair_stream\<close> with its two playlists: the writes to the directories of the video and of
  the audio track, and the checkpoint. Only the plan of the video is rid of the initialization maps it repeats.
\<close>

definition live_pair_tick ::
  "decryptor \<Rightarrow> live_source \<Rightarrow> live_source \<Rightarrow> 'f hls_manifest \<Rightarrow> 'f hls_manifest \<Rightarrow> live_pair \<Rightarrow>
   live_disk \<Rightarrow> live_disk \<Rightarrow> (live_fault, live_pair \<times> live_write list \<times> live_write list) result" where
  "live_pair_tick dec video_src audio_src video audio cp dv da =
     rbind (map_err PlanFailed (build_hls_live_refresh video (lc_cursor (lp_video cp)))) (\<lambda>v.
     rbind (map_err PlanFailed (build_hls_live_refresh audio (lc_cursor (lp_audio cp)))) (\<lambda>a.
     rbind (live_track dec video_src dv (lp_video cp) (hf_plan v)) (\<lambda>(cv, wv).
     rbind (stage_refresh dec audio_src da (lp_audio cp) (case hf_plan a of None \<Rightarrow> [] | Some p \<Rightarrow> hp_units p)) (\<lambda>(ca, wa).
     Inr (\<lparr>lp_video = cv\<lparr>lc_cursor := hf_next_cursor v\<rparr>, lp_audio = ca\<lparr>lc_cursor := hf_next_cursor a\<rparr>,
           lp_video_ended = (lp_video_ended cp \<or> hf_ended v), lp_audio_ended = (lp_audio_ended cp \<or> hf_ended a)\<rparr>,
          wv, wa)))))"

text \<open>Turns with playlists and sources that are all given, in the directories of the tracks.\<close>

fun live_pair_ticks ::
  "decryptor \<Rightarrow> (live_source \<times> live_source \<times> 'f hls_manifest \<times> 'f hls_manifest) list \<Rightarrow> live_pair \<Rightarrow>
   live_disk \<Rightarrow> live_disk \<Rightarrow> (live_fault, live_disk \<times> live_disk) result" where
  "live_pair_ticks dec [] cp dv da = Inr (dv, da)"
| "live_pair_ticks dec ((vs, as, v, a) # ts) cp dv da =
     rbind (live_pair_tick dec vs as v a cp dv da) (\<lambda>(cp', wv, wa).
     if lp_video_ended cp' \<and> lp_audio_ended cp' then Inr (apply_writes wv dv, apply_writes wa da)
     else live_pair_ticks dec ts cp' (apply_writes wv dv) (apply_writes wa da))"

end
