(* ===== verification/Hls_Live_Safety.thy ===== *)
theory Hls_Live_Safety
  imports Hls_Live
begin

text \<open>
  A live recording is a gap-free and duplicate-free copy of the broadcast: what the plan of a refresh keeps, what
  staging gives for a unit, what committing the parts leaves after any number of its writes, and the invariant of
  the loop over refreshes and sessions.
\<close>

subsection \<open>The broadcast\<close>

text \<open>
  The units a recorder of the segments \<open>ss\<close> owes: every segment once, and before it its initialization map where
  that is not the last one recorded.
\<close>

fun live_units :: "str option \<Rightarrow> 'f hls_segment list \<Rightarrow> hls_unit list" where
  "live_units last_init [] = []"
| "live_units last_init (s # ss) =
     (case hs_init_map s of
        None \<Rightarrow> media_unit 0 s # live_units last_init ss
      | Some m \<Rightarrow>
          let identity = init_identity (hm_uri m) (hm_byte_range m) in
          if last_init = Some identity then media_unit 0 s # live_units last_init ss
          else init_unit 0 s m # media_unit 0 s # live_units (Some identity) ss)"

fun live_last :: "str option \<Rightarrow> 'f hls_segment list \<Rightarrow> str option" where
  "live_last last_init [] = last_init"
| "live_last last_init (s # ss) =
     live_last (case hs_init_map s of None \<Rightarrow> last_init | Some m \<Rightarrow> Some (init_identity (hm_uri m) (hm_byte_range m))) ss"

lemma live_units_append: "live_units li (xs @ ys) = live_units li xs @ live_units (live_last li xs) ys"
  by (induction xs arbitrary: li) (auto simp: Let_def split: option.splits)

lemma live_last_append: "live_last li (xs @ ys) = live_last (live_last li xs) ys"
  by (induction xs arbitrary: li) auto

lemma length_live_units: "length (live_units li ss) \<le> 2 * length ss"
proof (induction ss arbitrary: li)
  case (Cons s ss)
  show ?case
  proof (cases "hs_init_map s")
    case None
    with Cons.IH [of li] show ?thesis by simp
  next
    case (Some m)
    with Cons.IH [of li] Cons.IH [of "Some (init_identity (hm_uri m) (hm_byte_range m))"]
    show ?thesis by (simp add: Let_def)
  qed
qed simp

text \<open>Planning and then dropping repeated maps leaves these units, in increasing order.\<close>

definition unordered :: "hls_unit \<Rightarrow> hls_unit" where
  "unordered u = u\<lparr>hu_order := 0\<rparr>"

lemma unordered_units [simp]:
  "unordered (media_unit n s) = media_unit 0 s" "unordered (init_unit n s m) = init_unit 0 s m"
  by (simp_all add: unordered_def media_unit_def init_unit_def)

definition map_recorded :: "str option \<Rightarrow> hls_init_map option \<Rightarrow> bool" where
  "map_recorded last_init active \<longleftrightarrow>
     (case active of None \<Rightarrow> True | Some m \<Rightarrow> last_init = Some (init_identity (hm_uri m) (hm_byte_range m)))"

lemma retain_media: "retain_inits li (media_unit n s # us) = (media_unit n s # fst (retain_inits li us), snd (retain_inits li us))"
  by (simp add: media_unit_def split_beta)

lemma retain_init:
  "retain_inits li (init_unit n s m # us) =
     (let i = init_identity (hm_uri m) (hm_byte_range m) in
      if li = Some i then retain_inits li us
      else (init_unit n s m # fst (retain_inits (Some i) us), snd (retain_inits (Some i) us)))"
  by (simp add: init_unit_def split_beta Let_def)

declare retain_inits.simps(2) [simp del]

lemma retain_plan:
  "map_recorded li active \<Longrightarrow>
     map unordered (fst (retain_inits li (plan_units n active ss))) = live_units li ss
   \<and> snd (retain_inits li (plan_units n active ss)) = live_last li ss"
proof (induction ss arbitrary: li n active)
  case (Cons s ss)
  show ?case
  proof (cases "hs_init_map s")
    case None
    then have "plan_units n active (s # ss) = media_unit n s # plan_units (n + 1) None ss" by auto
    with Cons.IH [of li None "n + 1"] None show ?thesis by (simp add: retain_media map_recorded_def)
  next
    case (Some m)
    let ?i = "Some (init_identity (hm_uri m) (hm_byte_range m))"
    have rec: "map_recorded ?i (Some m)" by (simp add: map_recorded_def)
    show ?thesis
    proof (cases "active = Some m")
      case True
      then have li: "li = ?i" using Cons.prems by (simp add: map_recorded_def)
      show ?thesis using Cons.IH [OF rec] Some by (simp add: li True retain_media Let_def)
    next
      case False
      then have "plan_units n active (s # ss) =
          init_unit n s m # media_unit (n + 1) s # plan_units (n + 2) (Some m) ss" using Some by auto
      then show ?thesis using Cons.IH [OF rec] Some by (simp add: retain_media retain_init Let_def)
    qed
  qed
qed simp

lemma retain_subset: "set (fst (retain_inits li us)) \<subseteq> set us"
  by (induction us arbitrary: li) (auto simp: retain_inits.simps split_beta Let_def split: if_splits)

lemma plan_orders_ge: "u \<in> set (plan_units n active ss) \<Longrightarrow> n \<le> hu_order u"
proof (induction ss arbitrary: n active)
  case (Cons s ss)
  then show ?case
    by (fastforce simp: media_unit_def init_unit_def split: option.splits if_splits dest: Cons.IH)
qed simp

lemma plan_orders_sorted: "sorted (map hu_order (plan_units n active ss))"
proof (induction ss arbitrary: n active)
  case (Cons s ss)
  have "\<And>k a u. u \<in> set (plan_units k a ss) \<Longrightarrow> k \<le> hu_order u" by (rule plan_orders_ge)
  then show ?case
    using Cons.IH by (fastforce simp: media_unit_def init_unit_def split: option.splits)
qed simp

lemma retain_sorted: "sorted (map hu_order us) \<Longrightarrow> sorted (map hu_order (fst (retain_inits li us)))"
proof (induction us arbitrary: li)
  case (Cons u us)
  then show ?case using retain_subset by (fastforce simp: retain_inits.simps split_beta Let_def)
qed simp

subsection \<open>Staging\<close>

text \<open>What is answered is answered as by \<open>src\<close>.\<close>

definition honest :: "live_source \<Rightarrow> live_source \<Rightarrow> bool" where
  "honest src s \<longleftrightarrow>
     (\<forall>uri bs. get_body s uri = Inr bs \<longrightarrow> get_body src uri = Inr bs)
   \<and> (\<forall>uri i j bs. get_range s uri i j = Inr bs \<longrightarrow> get_range src uri i j = Inr bs)
   \<and> (\<forall>uri bs. get_key s uri = Inr bs \<longrightarrow> get_key src uri = Inr bs)"

definition content :: "decryptor \<Rightarrow> live_source \<Rightarrow> hls_unit \<Rightarrow> u8 list" where
  "content dec src u = (case stage_one_unit dec src Map.empty u of Inl e \<Rightarrow> [] | Inr (bytes, _) \<Rightarrow> bytes)"

definition cache_ok :: "live_source \<Rightarrow> key_cache \<Rightarrow> bool" where
  "cache_ok src cache \<longleftrightarrow> (\<forall>uri k. cache uri = Some k \<longrightarrow> get_key src uri = Inr k \<and> length k = 16)"

lemma content_unordered: "content dec src (unordered u) = content dec src u"
proof -
  have *: "resolve_iv (unordered u) = resolve_iv u" "fetch_unit src (unordered u) = fetch_unit src u"
    "hu_key (unordered u) = hu_key u"
    by (simp_all add: fun_eq_iff resolve_iv_def fetch_unit_def unordered_def cong: option.case_cong)
  show ?thesis unfolding content_def stage_one_unit_def decrypt_staged_unit_def * ..
qed

lemma fetch_unit_honest: "honest src s \<Longrightarrow> fetch_unit s u = Inr bs \<Longrightarrow> fetch_unit src u = Inr bs"
  by (auto simp: honest_def fetch_unit_def split: option.splits)

lemma get_key_honest:
  "honest src s \<Longrightarrow> cache_ok src cache \<Longrightarrow> get_aes128_key s cache uri = Inr (k, cache') \<Longrightarrow>
     get_key src uri = Inr k \<and> length k = 16 \<and> cache_ok src cache'"
  by (auto simp: honest_def cache_ok_def get_aes128_key_def split: option.splits if_splits)

lemma stage_one_honest:
  assumes "honest src s" "cache_ok src cache" "stage_one_unit dec s cache u = Inr (bytes, cache')"
  shows "content dec src u = bytes \<and> cache_ok src cache'"
proof (cases "case hu_key u of None \<Rightarrow> False | Some key \<Rightarrow> hk_method key = Aes128")
  case False
  with assms show ?thesis
    by (auto simp: stage_one_unit_def content_def split: option.splits if_splits dest: fetch_unit_honest)
next
  case True
  then obtain key where key: "hu_key u = Some key" "hk_method key = Aes128" by (auto split: option.splits)
  with assms(3) obtain body uri k iv where u:
    "fetch_unit s u = Inr body" "hk_uri key = Some uri" "get_aes128_key s cache uri = Inr (k, cache')"
    "resolve_iv u key = Inr iv" "dec k iv body = Some bytes"
    by (auto simp: stage_one_unit_def decrypt_staged_unit_def)
  have "get_key src uri = Inr k" "length k = 16" "cache_ok src cache'"
    using get_key_honest [OF assms(1,2) u(3)] by auto
  moreover have "fetch_unit src u = Inr body" using fetch_unit_honest [OF assms(1) u(1)] .
  ultimately show ?thesis
    using key u by (simp add: content_def stage_one_unit_def decrypt_staged_unit_def get_aes128_key_def)
qed

lemma stage_units_honest:
  "honest src s \<Longrightarrow> cache_ok src cache \<Longrightarrow> stage_units dec s cache i us = Inr ps \<Longrightarrow>
     ps = map (\<lambda>u. (hu_order u, content dec src u)) us"
proof (induction us arbitrary: cache i ps)
  case (Cons u us)
  then obtain bytes cache' ps' where *: "stage_one_unit dec s cache u = Inr (bytes, cache')"
    "stage_units dec s cache' (i + 1) us = Inr ps'" "ps = (hu_order u, bytes) # ps'"
    by auto
  with stage_one_honest [OF Cons.prems(1,2) *(1)] Cons.IH [OF Cons.prems(1) _ *(2)] show ?case by simp
qed simp

lemma stage_plan_honest:
  assumes "honest src s" "stage_hls_media_plan dec s us = Inr (ps, n)" "sorted (map hu_order us)"
  shows "map snd (sort_key fst ps) = map (content dec src) us"
proof -
  obtain fs where fs: "stage_units dec s Map.empty 0 us = Inr fs" "ps = sort_key fst fs"
    using assms(2) by (auto simp: stage_hls_media_plan_def split: if_splits)
  have f: "fs = map (\<lambda>u. (hu_order u, content dec src u)) us"
    by (rule stage_units_honest [OF assms(1) _ fs(1)]) (simp add: cache_ok_def)
  have "sort_key fst fs = fs" by (rule sort_key_id_if_sorted) (simp add: f comp_def assms(3))
  with fs f show ?thesis by (simp add: comp_def)
qed

subsection \<open>Committing\<close>

text \<open>Every part there is is the one of the recording \<open>ex\<close>.\<close>

definition parts_ok :: "u8 list list \<Rightarrow> live_disk \<Rightarrow> bool" where
  "parts_ok ex d \<longleftrightarrow> map_of (ld_parts d) \<subseteq>\<^sub>m get_opt ex \<and> distinct (map fst (ld_parts d))"

definition present :: "nat \<Rightarrow> live_disk \<Rightarrow> bool" where
  "present n d \<longleftrightarrow> (\<forall>i < n. i \<in> dom (map_of (ld_parts d)))"

lemma apply_writes_simps [simp]:
  "apply_writes [] d = d"
  "apply_writes (w # ws) d = apply_writes ws (apply_write w d)"
  "apply_writes (ws @ vs) d = apply_writes vs (apply_writes ws d)"
  by (simp_all add: apply_writes_def)

lemma put_part:
  assumes "parts_ok ex d" "get_opt ex n = Some bytes"
  shows "parts_ok ex (apply_write (PutPart n bytes) d)"
    and "present k d \<Longrightarrow> present k (apply_write (PutPart n bytes) d)"
    and "present n d \<Longrightarrow> present (Suc n) (apply_write (PutPart n bytes) d)"
  using assms by (auto simp: parts_ok_def present_def update_conv' map_le_def distinct_update less_Suc_eq)

lemma remove_part:
  assumes "parts_ok ex d"
  shows "parts_ok ex (apply_write (RemovePart n) d)"
    and "k \<le> n \<Longrightarrow> present k d \<Longrightarrow> present k (apply_write (RemovePart n) d)"
  using assms by (auto simp: parts_ok_def present_def delete_conv' map_le_def distinct_delete)

lemma saturating_Suc: "n < u64_limit - 1 \<Longrightarrow> saturating_add64 n 1 = Suc n"
  by (simp add: saturating_add64_def)

text \<open>
  Committing the next parts of the recording: after any number of the writes all parts are right and none before
  \<open>n\<close> is gone, and after all of them the new ones are there.
\<close>

lemma commit_prefix:
  assumes "parts_ok ex d" "present n d" "take (length bs) (drop n ex) = bs" "length ex < u64_limit"
  shows "parts_ok ex (apply_writes (take k (commit_writes d n bs)) d)
    \<and> present n (apply_writes (take k (commit_writes d n bs)) d)
    \<and> present (n + length bs) (apply_writes (commit_writes d n bs) d)"
  using assms
proof (induction bs arbitrary: d n k)
  case (Cons bytes bs)
  let ?ws = "(if map_of (ld_parts d) n \<noteq> None then [RemovePart n] else []) @ [PutPart n bytes]"
  let ?d = "apply_writes ?ws d"
  have n: "n < length ex" using Cons.prems(3) by (cases "n < length ex") auto
  have ex: "get_opt ex n = Some bytes" and next_bs: "take (length bs) (drop (Suc n) ex) = bs"
    using Cons.prems(3) n by (simp_all add: get_opt_def Cons_nth_drop_Suc [symmetric])
  have removed: "parts_ok ex (apply_write (RemovePart n) d)" "present n (apply_write (RemovePart n) d)"
    using remove_part(1) [OF Cons.prems(1)] remove_part(2) [OF Cons.prems(1) order_refl Cons.prems(2)] by blast+
  have step: "parts_ok ex ?d" "present n ?d" "present (Suc n) ?d"
    using put_part [OF removed(1) ex] put_part [OF Cons.prems(1) ex] removed(2) Cons.prems(2) by auto
  have some: "parts_ok ex (apply_writes (take k ?ws) d) \<and> present n (apply_writes (take k ?ws) d)"
    using step removed Cons.prems by (cases k; cases "k - 1") auto
  have sat: "saturating_add64 n 1 = Suc n"
    using n Cons.prems(4) by (intro saturating_Suc) simp
  have split: "commit_writes d n (bytes # bs) = ?ws @ commit_writes ?d (Suc n) bs"
    by (simp only: commit_writes.simps Let_def sat)
  note rest = Cons.IH [OF step(1,3) next_bs Cons.prems(4)]
  have "present n (apply_writes (take j (commit_writes ?d (Suc n) bs)) ?d)" for j
    using rest [of j] by (simp add: present_def)
  then have after: "parts_ok ex (apply_writes (take j (commit_writes ?d (Suc n) bs)) ?d)
      \<and> present n (apply_writes (take j (commit_writes ?d (Suc n) bs)) ?d)" for j
    using rest [of j] by blast
  have "take k (?ws @ commit_writes ?d (Suc n) bs) = take k ?ws
      \<or> take k (?ws @ commit_writes ?d (Suc n) bs) = ?ws @ take (k - length ?ws) (commit_writes ?d (Suc n) bs)"
    by (cases "k \<le> length ?ws") (simp_all del: append_assoc)
  then have "parts_ok ex (apply_writes (take k (commit_writes d n (bytes # bs))) d)
      \<and> present n (apply_writes (take k (commit_writes d n (bytes # bs))) d)"
    unfolding split using some after [of "k - length ?ws"] by (elim disjE) (simp_all only: apply_writes_simps)
  then show ?case using rest [of 0] unfolding split by (simp only: apply_writes_simps) simp
qed simp

lemma commit_checkpoint: "ld_checkpoint (apply_writes (take k (commit_writes d n bs)) d) = ld_checkpoint d"
proof -
  have "\<forall>w \<in> set ws. (case w of RemovePart _ \<Rightarrow> True | PutPart _ _ \<Rightarrow> True | _ \<Rightarrow> False) \<Longrightarrow>
      ld_checkpoint (apply_writes ws d) = ld_checkpoint d" for ws d
    by (induction ws arbitrary: d) (auto split: live_write.splits)
  moreover have "\<forall>w \<in> set (commit_writes d n bs). (case w of RemovePart _ \<Rightarrow> True | PutPart _ _ \<Rightarrow> True | _ \<Rightarrow> False)"
    by (induction bs arbitrary: d n) (auto simp: Let_def)
  ultimately show ?thesis by (meson in_set_takeD)
qed

lemma commit_order: "n + length bs < u64_limit \<Longrightarrow> commit_order n bs = n + length bs"
proof (induction bs arbitrary: n)
  case (Cons b bs)
  then have "saturating_add64 n 1 = Suc n" by (intro saturating_Suc) simp
  with Cons show ?case by simp
qed simp

subsection \<open>One refresh\<close>

definition broadcast :: "(nat \<Rightarrow> 'f hls_segment) \<Rightarrow> bool" where
  "broadcast b \<longleftrightarrow> (\<forall>n. hs_sequence (b n) = n)"

text \<open>What is recorded of the segments \<open>ss\<close>.\<close>

definition recording :: "decryptor \<Rightarrow> live_source \<Rightarrow> 'f hls_segment list \<Rightarrow> u8 list list" where
  "recording dec src ss = map (content dec src) (live_units None ss)"

definition window_end :: "'f hls_manifest \<Rightarrow> nat" where
  "window_end m = hls_media_sequence m + length (hls_segments m)"

text \<open>
  A playlist is a window of the broadcast that does not end before \<open>seen\<close>, the end of those seen before, and
  starts at \<open>first\<close> if nothing has been recorded and otherwise no later than the cursor.
\<close>

definition fits :: "(nat \<Rightarrow> 'f hls_segment) \<Rightarrow> nat \<Rightarrow> nat \<Rightarrow> nat option \<Rightarrow> 'f hls_manifest \<Rightarrow> bool" where
  "fits b first seen cursor m \<longleftrightarrow>
     hls_kind m = Media \<and> hls_segments m = map b [hls_media_sequence m..<window_end m]
   \<and> seen \<le> window_end m \<and> window_end m < 2 ^ 63
   \<and> (case cursor of None \<Rightarrow> hls_media_sequence m = first | Some c \<Rightarrow> hls_media_sequence m \<le> c)"

definition position :: "nat \<Rightarrow> live_checkpoint \<Rightarrow> nat" where
  "position first cp = (case lc_cursor cp of None \<Rightarrow> first | Some c \<Rightarrow> c)"

text \<open>The invariant.\<close>

definition good ::
  "decryptor \<Rightarrow> live_source \<Rightarrow> (nat \<Rightarrow> 'f hls_segment) \<Rightarrow> nat \<Rightarrow> nat \<Rightarrow> live_checkpoint \<Rightarrow> live_disk \<Rightarrow> bool" where
  "good dec src b first seen cp d \<longleftrightarrow>
     first \<le> position first cp \<and> position first cp \<le> seen
   \<and> parts_ok (recording dec src (map b [first..<seen])) d
   \<and> lc_next_order cp = length (recording dec src (map b [first..<position first cp]))
   \<and> lc_last_init cp = live_last None (map b [first..<position first cp])
   \<and> present (lc_next_order cp) d
   \<and> read_live_checkpoint d = cp"

lemma live_units_Nil_iff [simp]: "live_units li ss = [] \<longleftrightarrow> ss = []"
  by (cases ss) (auto simp: Let_def split: option.splits)

lemma recording_append:
  "recording dec src (xs @ ys) = recording dec src xs @ map (content dec src) (live_units (live_last None xs) ys)"
  by (simp add: recording_def live_units_append)

lemma length_recording: "length (recording dec src ss) \<le> 2 * length ss"
  by (simp add: recording_def length_live_units)

lemma unseen_window:
  assumes "broadcast b" "lo \<le> c"
  shows "unseen c (map b [lo..<hi]) = map b [c..<hi]"
proof -
  have "filter (\<lambda>n. c \<le> n) [lo..<hi] = [c..<hi]" using assms(2)
    by (induction hi) (auto simp: not_le le_Suc_eq)
  then show ?thesis using assms(1) by (simp add: unseen_def filter_map comp_def broadcast_def)
qed

definition live_plan :: "'f hls_manifest \<Rightarrow> 'f hls_segment list \<Rightarrow> hls_plan option" where
  "live_plan m sel = (if sel = [] then None
     else Some \<lparr>hp_units = plan_units 0 None sel, hp_end_list = hls_end_list m,
                hp_target_duration = hls_target_duration m\<rparr>)"

lemma refresh_window:
  assumes "broadcast b" "fits b first seen (lc_cursor cp) m" "position first cp \<le> seen"
    "build_hls_live_refresh m (lc_cursor cp) = Inr r"
  shows "hf_plan r = live_plan m (map b [position first cp..<window_end m])"
    and "position first (cp'\<lparr>lc_cursor := hf_next_cursor r\<rparr>) = window_end m"
proof -
  let ?lo = "hls_media_sequence m"
  let ?hi = "window_end m"
  have m: "hls_kind m = Media" "hls_segments m = map b [?lo..<?hi]" "?hi < 2 ^ 63" "seen \<le> ?hi"
    and lo: "?lo \<le> position first cp"
    and c: "(case lc_cursor cp of None \<Rightarrow> ?lo | Some n \<Rightarrow> n) = position first cp"
    using assms(2) by (auto simp: fits_def position_def split: option.splits)
  have sel: "unseen (case lc_cursor cp of None \<Rightarrow> ?lo | Some n \<Rightarrow> n) (hls_segments m) = map b [position first cp..<?hi]"
    unfolding c m(2) using unseen_window [OF assms(1) lo] .
  show "hf_plan r = live_plan m (map b [position first cp..<?hi])"
    using assms(4) by (auto simp: build_hls_live_refresh_def live_plan_def build_hls_media_plan_def sel m(1) Let_def split: if_splits)
  have next_cursor: "hf_next_cursor r = (if hls_segments m = [] then lc_cursor cp
      else Some (saturating_add64 (hs_sequence (last (hls_segments m))) 1))"
    using assms(4) m(1) by (auto simp: build_hls_live_refresh_def Let_def split: if_splits)
  show "position first (cp'\<lparr>lc_cursor := hf_next_cursor r\<rparr>) = ?hi"
  proof (cases "?lo < ?hi")
    case True
    then have "hs_sequence (last (hls_segments m)) = ?hi - 1" "hls_segments m \<noteq> []"
      using assms(1) by (simp_all add: m(2) last_map broadcast_def)
    then show ?thesis using True m(3) by (simp add: next_cursor position_def saturating_add64_def u64_limit_def)
  next
    case False
    then have "?hi = ?lo" by (simp add: window_end_def)
    then show ?thesis using lo m(2,4) assms(2,3) by (auto simp: next_cursor position_def fits_def split: option.splits)
  qed
qed

lemma stage_refresh_spec:
  assumes "honest src s" "stage_refresh dec s d cp us = Inr (cp', ws)" "sorted (map hu_order us)"
  shows "ws = commit_writes d (lc_next_order cp) (map (content dec src) us)"
    and "lc_next_order cp' = commit_order (lc_next_order cp) (map (content dec src) us)"
    and "lc_last_init cp' = lc_last_init cp"
proof -
  have "ws = commit_writes d (lc_next_order cp) (map (content dec src) us)
      \<and> lc_next_order cp' = commit_order (lc_next_order cp) (map (content dec src) us)
      \<and> lc_last_init cp' = lc_last_init cp"
  proof (cases "us = []")
    case True
    with assms(2) show ?thesis by (auto simp: stage_refresh_def)
  next
    case False
    with assms(2) obtain ps n where ps: "stage_hls_media_plan dec s us = Inr (ps, n)"
      and out: "(ws, lc_next_order cp') = commit_live_parts d ps (lc_next_order cp)" "lc_last_init cp' = lc_last_init cp"
      by (auto simp: stage_refresh_def split_beta Let_def)
    from stage_plan_honest [OF assms(1) ps assms(3)] out show ?thesis by (simp add: commit_live_parts_def Let_def)
  qed
  then show "ws = commit_writes d (lc_next_order cp) (map (content dec src) us)"
    "lc_next_order cp' = commit_order (lc_next_order cp) (map (content dec src) us)"
    "lc_last_init cp' = lc_last_init cp" by blast+
qed

lemma live_track_spec:
  assumes "honest src s" "live_track dec s d cp (live_plan m sel) = Inr (cp', ws)"
  shows "let bs = map (content dec src) (live_units (lc_last_init cp) sel) in
     ws = commit_writes d (lc_next_order cp) bs \<and> lc_next_order cp' = commit_order (lc_next_order cp) bs
   \<and> lc_last_init cp' = live_last (lc_last_init cp) sel"
proof (cases "sel = []")
  case True
  with assms(2) show ?thesis by (simp add: live_track_def live_plan_def)
next
  case False
  define us where "us = fst (retain_inits (lc_last_init cp) (plan_units 0 None sel))"
  have plan: "map unordered us = live_units (lc_last_init cp) sel"
    "snd (retain_inits (lc_last_init cp) (plan_units 0 None sel)) = live_last (lc_last_init cp) sel"
    using retain_plan [of "lc_last_init cp" None 0 sel] by (simp_all add: us_def map_recorded_def)
  then have "us \<noteq> []" using False by (metis list.map_disc_iff live_units_Nil_iff)
  with assms(2) False plan(2) obtain cp0 where cp0: "stage_refresh dec s d cp us = Inr (cp0, ws)"
    "cp' = cp0\<lparr>lc_last_init := live_last (lc_last_init cp) sel\<rparr>"
    by (auto simp: live_track_def live_plan_def split_beta Let_def us_def)
  have sorted: "sorted (map hu_order us)"
    unfolding us_def by (rule retain_sorted [OF plan_orders_sorted])
  have "map (content dec src) us = map (content dec src) (map unordered us)"
    by (simp add: content_unordered)
  then show ?thesis using stage_refresh_spec [OF assms(1) cp0(1) sorted] cp0(2) by (simp add: plan(1))
qed

text \<open>
  A turn of the loop: its writes go on with the recording up to the end of the playlist, and dying among them is
  harmless unless the old checkpoint is removed and the new one not yet in place.
\<close>

lemma read_put [simp]: "read_live_checkpoint (d\<lparr>ld_checkpoint := Some cp\<rparr>) = cp"
  by (simp add: read_live_checkpoint_def)

lemma read_cong: "ld_checkpoint d' = ld_checkpoint d \<Longrightarrow> read_live_checkpoint d' = read_live_checkpoint d"
  by (simp add: read_live_checkpoint_def)

lemma parts_checkpoint [simp]:
  "parts_ok ex (d\<lparr>ld_checkpoint := c\<rparr>) = parts_ok ex d" "present n (d\<lparr>ld_checkpoint := c\<rparr>) = present n d"
  by (simp_all add: parts_ok_def present_def)

lemma upt_split: "i \<le> j \<Longrightarrow> j \<le> k \<Longrightarrow> [i..<k] = [i..<j] @ [j..<k]"
  using upt_add_eq_append [of i j "k - j"] by simp

lemma parts_ok_extend: "parts_ok ex d \<Longrightarrow> parts_ok (ex @ xs) d"
  by (auto simp: parts_ok_def map_le_def get_opt_def nth_append) force

lemma take_writes:
  "take k (ws @ vs) = take k ws \<or> (\<exists>j > 0. take k (ws @ vs) = ws @ take j vs)"
  by (cases "k \<le> length ws") (auto intro: exI [of _ "k - length ws"])

lemma live_tick_good:
  assumes "broadcast b" "good dec src b first seen cp d" "fits b first seen (lc_cursor cp) m" "honest src s"
    and tick: "live_tick dec s m cp d = Inr (cp', ws, ended)"
  shows "good dec src b first (window_end m) cp' (apply_writes ws d)
       \<and> position first cp' = window_end m
       \<and> (\<forall>k. let d' = apply_writes (take k ws) d in
            (ld_checkpoint d' = None \<longrightarrow> ld_checkpoint d = None) \<longrightarrow>
            good dec src b first (window_end m) (read_live_checkpoint d') d')"
proof -
  let ?hi = "window_end m"
  let ?c = "position first cp"
  let ?rec = "\<lambda>n. recording dec src (map b [first..<n])"
  have c: "first \<le> ?c" "?c \<le> seen" and ok: "parts_ok (?rec seen) d" and n: "lc_next_order cp = length (?rec ?c)"
    and li: "lc_last_init cp = live_last None (map b [first..<?c])" and pre: "present (lc_next_order cp) d"
    and cp: "read_live_checkpoint d = cp"
    using assms(2) by (auto simp: good_def)
  have hi: "seen \<le> ?hi" "?hi < 2 ^ 63" using assms(3) by (auto simp: fits_def)
  obtain r cp0 pw where r: "build_hls_live_refresh m (lc_cursor cp) = Inr r"
    and track: "live_track dec s d cp (hf_plan r) = Inr (cp0, pw)"
    and cp': "cp' = cp0\<lparr>lc_cursor := hf_next_cursor r\<rparr>"
    and ws: "ws = pw @ write_live_checkpoint (apply_writes pw d) cp'"
    using tick by (auto simp: live_tick_def Let_def)
  note window = refresh_window [OF assms(1,3) c(2) r]
  define bs where "bs = map (content dec src) (live_units (lc_last_init cp) (map b [?c..<?hi]))"
  have pw: "pw = commit_writes d (lc_next_order cp) bs" and n': "lc_next_order cp0 = commit_order (lc_next_order cp) bs"
    and li': "lc_last_init cp0 = live_last (lc_last_init cp) (map b [?c..<?hi])"
    using live_track_spec [OF assms(4) track [unfolded window(1)]] by (simp_all add: Let_def bs_def)
  have split: "map b [first..<?hi] = map b [first..<?c] @ map b [?c..<?hi]"
    using upt_split [of first ?c ?hi] c hi(1) by simp
  have rec: "?rec ?hi = ?rec ?c @ bs" by (simp only: split recording_append bs_def li)
  have seen_hi: "map b [first..<?hi] = map b [first..<seen] @ map b [seen..<?hi]"
    using upt_split [of first seen ?hi] c hi(1) by simp
  have ok_hi: "parts_ok (?rec ?hi) d" unfolding seen_hi recording_append by (rule parts_ok_extend [OF ok])
  have small: "length (?rec ?hi) < u64_limit"
    using length_recording [of dec src "map b [first..<?hi]"] hi(2) by (simp add: u64_limit_def)
  have bs: "take (length bs) (drop (lc_next_order cp) (?rec ?hi)) = bs" by (simp add: rec n)
  note commit = commit_prefix [OF ok_hi pre bs small]
  have order: "lc_next_order cp' = length (?rec ?hi)"
    using commit_order [of "lc_next_order cp" bs] small by (simp add: cp' n' rec n)
  have during: "good dec src b first ?hi cp (apply_writes (take k pw) d)" for k
    using commit [of k] c hi(1) n li read_cong [OF commit_checkpoint [of k d "lc_next_order cp" bs]]
    by (simp add: good_def pw cp)
  have finished: "good dec src b first ?hi cp' (d'\<lparr>ld_checkpoint := Some cp'\<rparr>)"
    if d': "parts_ok (?rec ?hi) d'" "present (length (?rec ?hi)) d'" for d'
    using d' c hi(1) window(2) [of cp0] order li' li by (simp add: good_def cp' split live_last_append)
  let ?d = "apply_writes pw d"
  have d: "parts_ok (?rec ?hi) ?d" "present (length (?rec ?hi)) ?d"
    using commit [of "length pw"] by (simp_all add: pw rec n)
  have same: "ld_checkpoint ?d = ld_checkpoint d"
    using commit_checkpoint [of "length pw" d "lc_next_order cp" bs] by (simp add: pw)
  have full: "apply_writes ws d = ?d\<lparr>ld_checkpoint := Some cp'\<rparr>"
    by (simp add: ws write_live_checkpoint_def)
  have dying: "good dec src b first ?hi (read_live_checkpoint (apply_writes (take k ws) d)) (apply_writes (take k ws) d)"
    if alive: "ld_checkpoint (apply_writes (take k ws) d) = None \<longrightarrow> ld_checkpoint d = None" for k
  proof -
    consider "take k ws = take k pw"
      | j where "0 < j" "take k ws = pw @ take j (write_live_checkpoint ?d cp')"
      using take_writes [of k pw "write_live_checkpoint ?d cp'"] unfolding ws by blast
    then show ?thesis
    proof cases
      case 1
      moreover have "read_live_checkpoint (apply_writes (take k pw) d) = cp"
        using during [of k] by (simp add: good_def)
      ultimately show ?thesis using during [of k] by simp
    next
      case (2 j)
      then have "apply_writes (take k ws) d = ?d\<lparr>ld_checkpoint := Some cp'\<rparr>
          \<or> ld_checkpoint (apply_writes (take k ws) d) = None \<and> ld_checkpoint d \<noteq> None"
        using same by (cases j; cases "j - 1") (auto simp: write_live_checkpoint_def)
      then show ?thesis using alive finished [OF d] by auto
    qed
  qed
  show ?thesis using finished [OF d] dying window(2) [of cp0] unfolding full by (simp add: Let_def cp')
qed

subsection \<open>Sessions\<close>

text \<open>
  \<open>watch_loop\<close> follows the loop and checks what the world has to keep to: every playlist fits the broadcast, what
  the sources answer is the broadcast's, and the process does not die between removing the old checkpoint and
  renaming the new one. It gives the end of the latest playlist, and \<open>None\<close> if one of these fails.
\<close>

fun watch_loop ::
  "('u, 'f) hls_host \<Rightarrow> decryptor \<Rightarrow> live_source \<Rightarrow> (nat \<Rightarrow> 'f hls_segment) \<Rightarrow> nat \<Rightarrow> nat \<Rightarrow>
   'f hls_manifest option \<Rightarrow> live_input list \<Rightarrow> live_checkpoint \<Rightarrow> live_disk \<Rightarrow> nat option" where
  "watch_loop h dec src b first seen current [] cp d = Some seen"
| "watch_loop h dec src b first seen current (i # is) cp d =
     (if li_cancel i then Some seen
      else case current_manifest h current i of
        Inl e \<Rightarrow> Some seen
      | Inr m \<Rightarrow>
          if \<not> (fits b first seen (lc_cursor cp) m \<and> honest src (li_source i)) then None
          else case live_tick dec (li_source i) m cp d of
            Inl e \<Rightarrow> Some (window_end m)
          | Inr (cp', ws, ended) \<Rightarrow>
              if (case li_halt i of None \<Rightarrow> False | Some k \<Rightarrow> k < length ws)
              then (if ld_checkpoint (apply_writes (take (the (li_halt i)) ws) d) = None \<and> ld_checkpoint d \<noteq> None
                    then None else Some (window_end m))
              else if ended \<or> li_finish i \<or> li_interrupt i then Some (window_end m)
              else watch_loop h dec src b first (window_end m) None is cp' (apply_writes ws d))"

text \<open>The sessions one after the other, each from what the one before left.\<close>

fun live_sessions ::
  "('u, 'f) hls_host \<Rightarrow> decryptor \<Rightarrow> ('f hls_manifest \<times> live_input list) list \<Rightarrow> live_disk \<Rightarrow> live_disk" where
  "live_sessions h dec [] d = d"
| "live_sessions h dec ((m, is) # ss) d = live_sessions h dec ss (snd (stage_hls_live_stream h dec m is d))"

fun watch_sessions ::
  "('u, 'f) hls_host \<Rightarrow> decryptor \<Rightarrow> live_source \<Rightarrow> (nat \<Rightarrow> 'f hls_segment) \<Rightarrow> nat \<Rightarrow> nat \<Rightarrow>
   ('f hls_manifest \<times> live_input list) list \<Rightarrow> live_disk \<Rightarrow> nat option" where
  "watch_sessions h dec src b first seen [] d = Some seen"
| "watch_sessions h dec src b first seen ((m, is) # ss) d =
     Option.bind (watch_loop h dec src b first seen (Some m) is (read_live_checkpoint d) d) (\<lambda>seen'.
     watch_sessions h dec src b first seen' ss (snd (stage_hls_live_stream h dec m is d)))"

definition intact :: "decryptor \<Rightarrow> live_source \<Rightarrow> (nat \<Rightarrow> 'f hls_segment) \<Rightarrow> nat \<Rightarrow> nat \<Rightarrow> live_disk \<Rightarrow> bool" where
  "intact dec src b first seen d \<longleftrightarrow> good dec src b first seen (read_live_checkpoint d) d"

lemma good_later:
  assumes "good dec src b first seen cp d" "seen \<le> hi"
  shows "good dec src b first hi cp d"
proof -
  have "first \<le> seen" using assms(1) by (auto simp: good_def)
  then have "map b [first..<hi] = map b [first..<seen] @ map b [seen..<hi]"
    using upt_split [of first seen hi] assms(2) by simp
  with assms show ?thesis by (auto simp: good_def recording_append intro: parts_ok_extend)
qed

lemma intact_empty: "intact dec src b first first empty_disk"
  by (simp add: intact_def good_def empty_disk_def read_live_checkpoint_def default_checkpoint_def position_def
      recording_def parts_ok_def present_def)

text \<open>Parts that are right, all there and none twice are the recording.\<close>

lemma enumerate_nth: "enumerate 0 xs = map (\<lambda>n. (n, xs ! n)) [0..<length xs]"
  by (rule nth_equalityI) (simp_all add: nth_enumerate_eq)

lemma committed_exact:
  assumes "parts_ok ex d" "present (length ex) d"
  shows "committed_live_parts d = enumerate 0 ex"
proof -
  let ?ps = "sort_key fst (ld_parts d)"
  have dist: "distinct (map fst (ld_parts d))" and le: "map_of (ld_parts d) \<subseteq>\<^sub>m get_opt ex"
    using assms(1) by (auto simp: parts_ok_def)
  have "dom (map_of (ld_parts d)) = {..<length ex}"
    using assms(2) map_le_implies_dom_le [OF le] by (auto simp: present_def get_opt_def split: if_splits)
  then have keys: "map fst ?ps = [0..<length ex]"
    using dist by (intro sorted_distinct_set_unique)
      (simp_all add: distinct_map dom_map_of_conv_image_fst atLeast0LessThan [symmetric])
  have "snd p = ex ! fst p" if "p \<in> set ?ps" for p
  proof -
    have "(fst p, snd p) \<in> set (ld_parts d)" using that by simp
    then have "map_of (ld_parts d) (fst p) = Some (snd p)" by (rule map_of_is_SomeI [OF dist])
    then have "get_opt ex (fst p) = Some (snd p)" using le by (metis domI map_le_def)
    then show ?thesis by (simp add: get_opt_Some_iff)
  qed
  then have "map ((\<lambda>n. (n, ex ! n)) \<circ> fst) ?ps = ?ps" by (intro map_idI) (simp add: prod_eq_iff)
  then have "?ps = map (\<lambda>n. (n, ex ! n)) [0..<length ex]" unfolding keys [symmetric] by simp
  then show ?thesis unfolding committed_live_parts_def enumerate_nth .
qed

lemma good_read: "good dec src b first seen cp d \<Longrightarrow> read_live_checkpoint d = cp"
  by (simp add: good_def)

lemma live_loop_good:
  assumes "broadcast b" "good dec src b first seen cp d"
    and "watch_loop h dec src b first seen current is cp d = Some seen'"
    and "live_loop h dec current is cp d = (r, d')"
  shows "intact dec src b first seen' d' \<and> seen \<le> seen'
    \<and> (\<forall>parts n. r = Finished parts n \<longrightarrow> parts = enumerate 0 (recording dec src (map b [first..<seen'])))"
  using assms(2-)
proof (induction "is" arbitrary: seen current cp d)
  case Nil
  then show ?case by (auto simp: intact_def good_read)
next
  case (Cons i "is")
  show ?case
  proof (cases "li_cancel i \<or> \<not> is_ok (current_manifest h current i)")
    case True
    with Cons.prems show ?thesis
      by (cases "current_manifest h current i") (auto simp: intact_def good_read split: if_splits)
  next
    case False
    then obtain m where go: "\<not> li_cancel i" and m: "current_manifest h current i = Inr m"
      by (cases "current_manifest h current i") auto
    have fits: "fits b first seen (lc_cursor cp) m" and src: "honest src (li_source i)"
      using Cons.prems(2) go m by (auto split: if_splits)
    then have later: "seen \<le> window_end m" by (simp add: fits_def)
    show ?thesis
    proof (cases "live_tick dec (li_source i) m cp d")
      case (Inl e)
      with Cons.prems(2,3) go m fits src have "d' = d" "seen' = window_end m" "\<forall>parts n. r \<noteq> Finished parts n"
        by auto
      with later good_later [OF Cons.prems(1) later] show ?thesis
        by (simp add: intact_def good_read [OF Cons.prems(1)])
    next
      case (Inr out)
      then obtain cp' ws ended where tick: "live_tick dec (li_source i) m cp d = Inr (cp', ws, ended)"
        by (cases out) auto
      note step = live_tick_good [OF assms(1) Cons.prems(1) fits src tick]
      let ?dead = "case li_halt i of None \<Rightarrow> False | Some k \<Rightarrow> k < length ws"
      note run = Cons.prems(2,3) go m fits src tick
      show ?thesis
      proof (cases ?dead)
        case True
        with run have "d' = apply_writes (take (the (li_halt i)) ws) d" "r = Died" "seen' = window_end m"
          "ld_checkpoint d' = None \<longrightarrow> ld_checkpoint d = None"
          by (auto split: if_splits)
        with step later show ?thesis by (simp add: intact_def Let_def)
      next
        case alive: False
        let ?d = "apply_writes ws d"
        have good: "good dec src b first (window_end m) cp' ?d" using step by simp
        have all: "committed_live_parts ?d = enumerate 0 (recording dec src (map b [first..<window_end m]))"
          using step by (intro committed_exact) (auto simp: good_def)
        show ?thesis
        proof (cases "ended \<or> li_finish i \<or> li_interrupt i")
          case True
          with run alive have "d' = ?d" "seen' = window_end m" "\<forall>parts n. r = Finished parts n \<longrightarrow> parts = committed_live_parts ?d"
            by (auto simp: Let_def split: if_splits)
          with good later all show ?thesis by (simp add: intact_def good_read [OF good])
        next
          case False
          with run alive have "watch_loop h dec src b first (window_end m) None is cp' ?d = Some seen'"
            "live_loop h dec None is cp' ?d = (r, d')"
            by (auto simp: Let_def split: if_splits)
          from Cons.IH [OF good this] later show ?thesis by auto
        qed
      qed
    qed
  qed
qed

lemma live_stream_good:
  assumes "broadcast b" "intact dec src b first seen d"
    and "watch_loop h dec src b first seen (Some m) is (read_live_checkpoint d) d = Some seen'"
    and "stage_hls_live_stream h dec m is d = (r, d')"
  shows "intact dec src b first seen' d' \<and> (\<forall>parts n. r = Finished parts n \<longrightarrow>
     parts = enumerate 0 (recording dec src (map b [first..<seen'])))"
  using live_loop_good [OF assms(1) assms(2) [unfolded intact_def] assms(3) assms(4) [unfolded stage_hls_live_stream_def]]
  by blast

lemma live_sessions_good:
  "broadcast b \<Longrightarrow> intact dec src b first seen d \<Longrightarrow>
     watch_sessions h dec src b first seen ss d = Some seen' \<Longrightarrow> intact dec src b first seen' (live_sessions h dec ss d)"
proof (induction ss arbitrary: seen d)
  case (Cons s ss)
  obtain m "is" where s: "s = (m, is)" by (cases s)
  obtain r d' where r: "stage_hls_live_stream h dec m is d = (r, d')" by fastforce
  obtain seen1 where seen1: "watch_loop h dec src b first seen (Some m) is (read_live_checkpoint d) d = Some seen1"
    "watch_sessions h dec src b first seen1 ss d' = Some seen'"
    using Cons.prems(3) by (auto simp: s r bind_eq_Some_conv)
  have "intact dec src b first seen1 d'" using live_stream_good [OF Cons.prems(1,2) seen1(1) r] by blast
  from Cons.IH [OF Cons.prems(1) this seen1(2)] show ?case by (simp add: s r)
qed simp

lemma recorded_sessions:
  assumes "broadcast b"
    and "watch_sessions h dec src b first first ss empty_disk = Some seen"
    and "d = live_sessions h dec ss empty_disk"
    and "watch_loop h dec src b first seen (Some m) is (read_live_checkpoint d) d = Some final"
    and "stage_hls_live_stream h dec m is d = (Finished parts n, d')"
  shows "parts = enumerate 0 (recording dec src (map b [first..<final]))"
proof -
  have "intact dec src b first seen d"
    unfolding assms(3) by (rule live_sessions_good [OF assms(1) intact_empty assms(2)])
  from live_stream_good [OF assms(1) this assms(4,5)] show ?thesis by simp
qed

text \<open>C7: A live HLS recording is the broadcast, every segment once and in order, each run of segments after its
  initialization map. Let any number of sessions have followed the stream, ended by errors, by cancellation or by
  the process dying among its disk writes, as long as every playlist shows a window that starts at the first
  segment offered while there is no checkpoint, and later reaches back to the cursor, and does not run backwards, and the process did not die between removing a checkpoint and replacing it.
  Then the session that finishes hands on, numbered from 0, exactly the contents of the units of the segments
  from the first one offered to the end of the last playlist.\<close>
theorem live_recording_exact:
  assumes "broadcast b"
    and "watch_sessions h dec src b first first ss empty_disk = Some seen"
    and "d = live_sessions h dec ss empty_disk"
    and "watch_loop h dec src b first seen (Some m) is (read_live_checkpoint d) d = Some final"
    and "stage_hls_live_stream h dec m is d = (Finished parts n, d')"
  shows "parts = enumerate 0 (map (content dec src) (live_units None (map b [first..<final])))"
  using recorded_sessions [OF assms] by (simp add: recording_def)

end
