(* ===== verification/Hls_Recording.thy ===== *)
theory Hls_Recording
  imports Hls_Live_Safety
begin

text \<open>
  Recording a stream live and downloading it when it is over give the same file: the strings by which the recorder
  tells initialization maps apart do tell them apart, so that it keeps the units a plan of the whole stream has.
\<close>

subsection \<open>Identities of initialization maps\<close>

lemma nat_to_dec_inject: "nat_to_dec m = nat_to_dec n \<Longrightarrow> m = n"
proof -
  assume eq: "nat_to_dec m = nat_to_dec n"
  have "parse_unsigned (m + n + 1) (nat_to_dec k) = (if k < m + n + 1 then Some k else None)" for k
    by (rule parse_unsigned_nat_to_dec)
  from this [of m] this [of n] show "m = n" by (simp add: eq)
qed

lemma digits_then:
  assumes "nat_to_dec m @ c # s = nat_to_dec n @ d # t" "\<not> is_ascii_digit c" "\<not> is_ascii_digit d"
  shows "m = n \<and> s = t"
proof -
  have "takeWhile is_ascii_digit (nat_to_dec k @ e # u) = nat_to_dec k" if "\<not> is_ascii_digit e" for k e u
    using that nat_to_dec_digits [of k] by (simp add: takeWhile_append list_all_iff)
  from this [OF assms(2), of m s] this [OF assms(3), of n t] assms(1) have "nat_to_dec m = nat_to_dec n" by simp
  then show ?thesis using assms(1) nat_to_dec_inject by auto
qed

lemma debug_range_inject: "debug_range r = debug_range r' \<Longrightarrow> r = r'"
proof -
  have offset: "o1 = o2"
    if "(case o1 of None \<Rightarrow> lit ''None'' | Some k \<Rightarrow> lit ''Some('' @ nat_to_dec k @ lit '')'') @ lit '' })''
      = (case o2 of None \<Rightarrow> lit ''None'' | Some k \<Rightarrow> lit ''Some('' @ nat_to_dec k @ lit '')'') @ lit '' })''"
    for o1 o2 :: "nat option"
    using that by (auto simp: lit_simps split: option.splits dest: nat_to_dec_inject)
  assume eq: "debug_range r = debug_range r'"
  show "r = r'"
  proof (cases r; cases r')
    fix a b assume r: "r = Some a" "r' = Some b"
    have "nat_to_dec (hb_length a) @ 0x2c # (lit '' offset: '' @ (case hb_offset a of None \<Rightarrow> lit ''None'' | Some k \<Rightarrow> lit ''Some('' @ nat_to_dec k @ lit '')'') @ lit '' })'')
        = nat_to_dec (hb_length b) @ 0x2c # (lit '' offset: '' @ (case hb_offset b of None \<Rightarrow> lit ''None'' | Some k \<Rightarrow> lit ''Some('' @ nat_to_dec k @ lit '')'') @ lit '' })'')"
      using eq by (simp add: r debug_range_def lit_simps)
    from digits_then [OF this] have "hb_length a = hb_length b" "hb_offset a = hb_offset b"
      using offset by (auto simp: is_ascii_digit_def)
    then show ?thesis using r by simp
  qed (use eq in \<open>auto simp: debug_range_def lit_simps\<close>)
qed

lemma debug_range_bar: "0x7c \<notin> set (debug_range r)"
proof -
  have "0x7c \<notin> set (nat_to_dec n)" for n
    using nat_to_dec_digits [of n] by (auto simp: list_all_iff is_ascii_digit_def)
  then show ?thesis by (auto simp: debug_range_def lit_simps split: option.splits)
qed

lemma init_identity_inject: "init_identity u r = init_identity v q \<Longrightarrow> u = v \<and> r = q"
proof -
  assume "init_identity u r = init_identity v q"
  then have eq: "u @ 0x7c # debug_range r = v @ 0x7c # debug_range q" by (simp add: init_identity_def lit_simps)
  have "takeWhile (\<lambda>b. b \<noteq> 0x7c) (rev (w @ 0x7c # debug_range p)) = rev (debug_range p)" for w p
    using debug_range_bar [of p] by (auto simp: takeWhile_append)
  from this [of u r] this [of v q] eq have "debug_range r = debug_range q" by (metis rev_rev_ident)
  then show "u = v \<and> r = q" using eq debug_range_inject by auto
qed

lemma same_identity:
  "init_identity (hm_uri m) (hm_byte_range m) = init_identity (hm_uri m') (hm_byte_range m') \<longleftrightarrow> m = m'"
  for m m' :: hls_init_map
  by (cases m; cases m') (auto dest: init_identity_inject)

subsection \<open>The plan of a finished stream\<close>

definition maps_throughout :: "'f hls_segment list \<Rightarrow> bool" where
  "maps_throughout ss \<longleftrightarrow> (\<forall>s \<in> set ss. hs_init_map s = None) \<or> (\<forall>s \<in> set ss. hs_init_map s \<noteq> None)"

abbreviation map_identity :: "hls_init_map \<Rightarrow> str" where
  "map_identity m \<equiv> init_identity (hm_uri m) (hm_byte_range m)"

lemma plan_without_maps:
  "\<forall>s \<in> set ss. hs_init_map s = None \<Longrightarrow> map unordered (plan_units n None ss) = live_units li ss"
  by (induction ss arbitrary: n) auto

lemma plan_with_maps:
  "\<forall>s \<in> set ss. hs_init_map s \<noteq> None \<Longrightarrow>
     map unordered (plan_units n active ss) = live_units (map_option map_identity active) ss"
proof (induction ss arbitrary: n active)
  case (Cons s ss)
  then obtain m where m: "hs_init_map s = Some m" by auto
  have ih: "map unordered (plan_units k (Some m) ss) = live_units (Some (map_identity m)) ss" for k
    using Cons.IH [of k "Some m"] Cons.prems by simp
  have "map_option map_identity active = Some (map_identity m) \<longleftrightarrow> active = Some m"
    by (cases active) (simp_all add: same_identity)
  then show ?case using ih by (auto simp: m Let_def)
qed simp

lemma plan_is_live: "maps_throughout ss \<Longrightarrow> map unordered (plan_units 0 None ss) = live_units None ss"
  using plan_without_maps [of ss 0 None] plan_with_maps [of ss 0 None] by (auto simp: maps_throughout_def)

lemma plan_orders: "map hu_order (plan_units n active ss) = [n..<n + length (plan_units n active ss)]"
proof (induction ss arbitrary: n active)
  case (Cons s ss)
  show ?case
    using Cons.IH [of "n + 1" "hs_init_map s"] Cons.IH [of "n + 2" "hs_init_map s"] Cons.IH [of "n + 1" active]
    by (auto simp: media_unit_def init_unit_def upt_conv_Cons split: option.splits)
qed simp

lemma no_duplicates: "sorted_wrt (<) (map fst ps) \<Longrightarrow> duplicate_order ps = None"
  by (induction ps rule: duplicate_order.induct) auto

lemma assemble_numbered:
  assumes "map fst ps = [0..<length ps]" "ps \<noteq> []"
  shows "assemble_ordered_parts ps = Inr (concat (map snd ps))"
proof -
  have "sort_key fst ps = ps" by (rule sort_key_id_if_sorted) (simp add: assms(1))
  moreover have "duplicate_order ps = None" by (rule no_duplicates) (simp add: assms(1))
  ultimately show ?thesis using assms(2) by (simp add: assemble_ordered_parts_def Let_def)
qed

lemma download_whole:
  assumes "honest src s" "maps_throughout (hls_segments m)" "stage_hls_manifest_track dec s m = Inr (ps, n)"
  shows "assemble_ordered_parts ps = Inr (concat (recording dec src (hls_segments m)))"
proof -
  let ?us = "plan_units 0 None (hls_segments m)"
  obtain ps' where ps': "stage_units dec s Map.empty 0 ?us = Inr ps'" "ps = sort_key fst ps'" and ne: "hls_segments m \<noteq> []"
    using assms(3) by (auto simp: stage_hls_manifest_track_def build_hls_media_plan_def stage_hls_media_plan_def split: if_splits)
  have eq: "ps' = map (\<lambda>u. (hu_order u, content dec src u)) ?us"
    by (rule stage_units_honest [OF assms(1) _ ps'(1)]) (simp add: cache_ok_def)
  have sorted: "sort_key fst ps' = ps'"
    by (rule sort_key_id_if_sorted) (simp add: eq comp_def plan_orders)
  have "?us \<noteq> []" using plan_is_live [OF assms(2)] ne by (metis list.map_disc_iff live_units_Nil_iff)
  then have "assemble_ordered_parts ps' = Inr (concat (map snd ps'))"
    by (intro assemble_numbered) (simp_all add: eq comp_def plan_orders)
  moreover have "map snd ps' = map (content dec src) (map unordered ?us)" by (simp add: eq comp_def content_unordered)
  ultimately show ?thesis by (simp add: ps'(2) sorted plan_is_live [OF assms(2)] recording_def)
qed

text \<open>C8: Recording live and downloading afterwards are the same. When the sessions of a live recording have ended as
  for the exactness of the recording, and the playlist of the whole stream, of which either every segment has an
  initialization map or none has one, is staged in one go from sources that answer as the broadcast's do, then
  assembling the recorded parts and assembling the downloaded ones gives the same file.\<close>
theorem live_recording_equals_download:
  assumes "broadcast b"
    and "watch_sessions h dec src b first first ss empty_disk = Some seen"
    and "d = live_sessions h dec ss empty_disk"
    and "watch_loop h dec src b first seen (Some m) is (read_live_checkpoint d) d = Some final"
    and "stage_hls_live_stream h dec m is d = (Finished parts n, d')"
    and "hls_segments whole = map b [first..<final]" "maps_throughout (hls_segments whole)" "honest src s"
    and "stage_hls_manifest_track dec s whole = Inr (downloaded, k)"
  shows "assemble_ordered_parts parts = assemble_ordered_parts downloaded
       \<and> is_ok (assemble_ordered_parts parts)"
proof -
  let ?r = "recording dec src (hls_segments whole)"
  have parts: "parts = enumerate 0 ?r" using recorded_sessions [OF assms(1-5)] by (simp add: assms(6))
  have "hls_segments whole \<noteq> []"
    using assms(9) by (auto simp: stage_hls_manifest_track_def build_hls_media_plan_def split: if_splits)
  then have "parts \<noteq> []" unfolding parts recording_def by (metis length_0_conv length_enumerate live_units_Nil_iff map_is_Nil_conv)
  then have "assemble_ordered_parts parts = Inr (concat ?r)"
    using assemble_numbered [of parts] by (simp add: parts)
  then show ?thesis using download_whole [OF assms(8,7,9)] by simp
qed

end
