(* ===== verification/Hls_Faults.thy ===== *)
theory Hls_Faults
  imports Hls_Live_Safety
begin

text \<open>
  Recordings that go wrong: a playlist that is out of date sets the cursor back, and a recorder that starts without
  its checkpoint writes over the parts there are. Both are stated of any broadcast and any state of the recording.
\<close>

subsection \<open>Parts as a list\<close>

text \<open>The part files are \<open>ex\<close>, numbered from 0.\<close>

definition holds :: "u8 list list \<Rightarrow> live_disk \<Rightarrow> bool" where
  "holds ex d \<longleftrightarrow> map_of (ld_parts d) = get_opt ex \<and> distinct (map fst (ld_parts d))"

lemma holds_committed: "holds ex d \<Longrightarrow> committed_live_parts d = enumerate 0 ex"
  by (intro committed_exact) (auto simp: holds_def parts_ok_def present_def get_opt_def)

lemma holds_checkpoint [simp]: "holds ex (d\<lparr>ld_checkpoint := c\<rparr>) = holds ex d"
  by (simp add: holds_def)

lemma holds_write_checkpoint [simp]: "holds ex (apply_writes (write_live_checkpoint d cp) d') = holds ex d'"
  by (simp add: write_live_checkpoint_def holds_def)

lemma put_holds:
  assumes "holds ex d" "n \<le> length ex"
  shows "holds (take n ex @ bytes # drop (Suc n) ex)
    (apply_writes ((if map_of (ld_parts d) n \<noteq> None then [RemovePart n] else []) @ [PutPart n bytes]) d)"
proof -
  have "(get_opt ex)(n \<mapsto> bytes) = get_opt (take n ex @ bytes # drop (Suc n) ex)"
  proof
    fix i
    consider "i < n" | "i = n" | j where "i = Suc (n + j)" by (metis less_iff_Suc_add linorder_neqE_nat)
    then show "((get_opt ex)(n \<mapsto> bytes)) i = get_opt (take n ex @ bytes # drop (Suc n) ex) i"
      using assms(2) by cases (auto simp: get_opt_def nth_append)
  qed
  moreover have "((get_opt ex)(n := None))(n \<mapsto> bytes) = (get_opt ex)(n \<mapsto> bytes)" by simp
  ultimately show ?thesis
    using assms(1) by (auto simp: holds_def update_conv' delete_conv' distinct_update distinct_delete)
qed

text \<open>Committing parts from number \<open>n\<close> on: those at these numbers are replaced, the others stay.\<close>

lemma commit_holds:
  assumes "holds ex d" "n \<le> length ex" "n + length bs < u64_limit"
  shows "holds (take n ex @ bs @ drop (n + length bs) ex) (apply_writes (commit_writes d n bs) d)"
  using assms
proof (induction bs arbitrary: d n ex)
  case (Cons bytes bs)
  let ?ws = "(if map_of (ld_parts d) n \<noteq> None then [RemovePart n] else []) @ [PutPart n bytes]"
  let ?ex = "take n ex @ bytes # drop (Suc n) ex"
  have "saturating_add64 n 1 = Suc n" using Cons.prems(3) by (intro saturating_Suc) simp
  then have split: "commit_writes d n (bytes # bs) = ?ws @ commit_writes (apply_writes ?ws d) (Suc n) bs"
    by (simp only: commit_writes.simps Let_def)
  have "take (Suc n) ?ex = take n ex @ [bytes]" "drop (Suc n + length bs) ?ex = drop (n + length (bytes # bs)) ex"
    using Cons.prems(2) by (simp_all add: min_def add.commute)
  moreover have "holds (take (Suc n) ?ex @ bs @ drop (Suc n + length bs) ?ex)
      (apply_writes (commit_writes (apply_writes ?ws d) (Suc n) bs) (apply_writes ?ws d))"
    using Cons.prems by (intro Cons.IH put_holds) auto
  ultimately show ?case unfolding split apply_writes_simps(3) by simp
qed simp

subsection \<open>One turn, whatever the playlist\<close>

lemma refresh_plan:
  assumes "hls_kind m = Media" "build_hls_live_refresh m c = Inr r"
  shows "hf_plan r = live_plan m (unseen (case c of None \<Rightarrow> hls_media_sequence m | Some n \<Rightarrow> n) (hls_segments m))
    \<and> hf_next_cursor r = (if hls_segments m = [] then c else Some (saturating_add64 (hs_sequence (last (hls_segments m))) 1))
    \<and> hf_ended r = hls_end_list m"
  using assms by (auto simp: build_hls_live_refresh_def live_plan_def build_hls_media_plan_def Let_def split: if_splits)

lemma live_tick_holds:
  assumes "honest src s" "hls_kind m = Media" "live_tick dec s m cp d = Inr (cp', ws, ended)"
    and "holds ex d" "lc_next_order cp \<le> length ex"
    and sel: "sel = unseen (case lc_cursor cp of None \<Rightarrow> hls_media_sequence m | Some n \<Rightarrow> n) (hls_segments m)"
    and bs: "bs = map (content dec src) (live_units (lc_last_init cp) sel)" and "lc_next_order cp + length bs < u64_limit"
  shows "let n = lc_next_order cp; ex' = take n ex @ bs @ drop (n + length bs) ex; pw = commit_writes d n bs in
      holds ex' (apply_writes pw d) \<and> ws = pw @ write_live_checkpoint (apply_writes pw d) cp' \<and> holds ex' (apply_writes ws d)
    \<and> lc_next_order cp' = n + length bs \<and> lc_last_init cp' = live_last (lc_last_init cp) sel \<and> ended = hls_end_list m
    \<and> lc_cursor cp' = (if hls_segments m = [] then lc_cursor cp else Some (saturating_add64 (hs_sequence (last (hls_segments m))) 1))
    \<and> ld_checkpoint (apply_writes pw d) = ld_checkpoint d"
proof -
  obtain r cp0 pw where r: "build_hls_live_refresh m (lc_cursor cp) = Inr r"
    and track: "live_track dec s d cp (hf_plan r) = Inr (cp0, pw)"
    and cp': "cp' = cp0\<lparr>lc_cursor := hf_next_cursor r\<rparr>" and ended: "ended = hf_ended r"
    and ws: "ws = pw @ write_live_checkpoint (apply_writes pw d) cp'"
    using assms(3) by (auto simp: live_tick_def Let_def)
  note plan = refresh_plan [OF assms(2) r]
  have pw: "pw = commit_writes d (lc_next_order cp) bs \<and> lc_next_order cp0 = commit_order (lc_next_order cp) bs
      \<and> lc_last_init cp0 = live_last (lc_last_init cp) sel"
    using live_track_spec [OF assms(1), of dec d cp m sel cp0 pw] track plan by (simp add: Let_def bs sel)
  have "holds ex' (apply_writes ws d) = holds ex' (apply_writes pw d)" for ex'
    by (simp add: ws write_live_checkpoint_def)
  moreover have "ld_checkpoint (apply_writes pw d) = ld_checkpoint d"
    using commit_checkpoint [of "length pw" d "lc_next_order cp" bs] pw by simp
  ultimately show ?thesis
    using commit_holds [OF assms(4,5) assms(8)] pw plan ws ended commit_order [OF assms(8)] by (simp add: cp')
qed

subsection \<open>Playlists and states\<close>

definition playlist_of :: "(nat \<Rightarrow> 'f hls_segment) \<Rightarrow> nat \<Rightarrow> nat \<Rightarrow> 'f hls_manifest \<Rightarrow> bool" where
  "playlist_of b lo hi m \<longleftrightarrow>
     hls_kind m = Media \<and> hls_segments m = map b [lo..<hi] \<and> hls_media_sequence m = lo \<and> lo < hi \<and> hi < 2 ^ 62"

text \<open>The segments from \<open>first\<close> to \<open>c\<close> are recorded and nothing else, and the checkpoint says so.\<close>

definition caught_up ::
  "decryptor \<Rightarrow> live_source \<Rightarrow> (nat \<Rightarrow> 'f hls_segment) \<Rightarrow> nat \<Rightarrow> nat \<Rightarrow> live_checkpoint \<Rightarrow> live_disk \<Rightarrow> bool" where
  "caught_up dec src b first c cp d \<longleftrightarrow>
     first \<le> c \<and> holds (recording dec src (map b [first..<c])) d \<and> ld_checkpoint d = Some cp
   \<and> lc_cursor cp = Some c \<and> lc_next_order cp = length (recording dec src (map b [first..<c]))
   \<and> lc_last_init cp = live_last None (map b [first..<c])"

lemma playlist_cursor:
  "broadcast b \<Longrightarrow> playlist_of b lo hi m \<Longrightarrow> saturating_add64 (hs_sequence (last (hls_segments m))) 1 = hi"
  by (auto simp: playlist_of_def broadcast_def last_map saturating_add64_def u64_limit_def)

lemma playlist_unseen: "broadcast b \<Longrightarrow> playlist_of b lo hi m \<Longrightarrow> lo \<le> c \<Longrightarrow> unseen c (hls_segments m) = map b [c..<hi]"
  by (simp add: playlist_of_def unseen_window)

lemma length_live_window: "length (live_units li (map b [lo..<hi])) \<le> 2 * hi"
  using length_live_units [of li "map b [lo..<hi]"] by simp

lemma tick_caught_up:
  assumes "broadcast b" "playlist_of b lo hi m" "lo \<le> c" "honest src s"
    and "live_tick dec s m cp d = Inr (cp', ws, ended)" "lc_cursor cp = Some c"
    and "holds ex d" "lc_next_order cp = length ex" "length ex < 2 ^ 63"
  shows "let bs = map (content dec src) (live_units (lc_last_init cp) (map b [c..<hi])) in
      holds (ex @ bs) (apply_writes ws d) \<and> lc_next_order cp' = length (ex @ bs)
    \<and> lc_cursor cp' = Some hi \<and> lc_last_init cp' = live_last (lc_last_init cp) (map b [c..<hi]) \<and> ended = hls_end_list m
    \<and> ws = commit_writes d (length ex) bs @ write_live_checkpoint (apply_writes (commit_writes d (length ex) bs) d) cp'
    \<and> holds (ex @ bs) (apply_writes (commit_writes d (length ex) bs) d)
    \<and> ld_checkpoint (apply_writes (commit_writes d (length ex) bs) d) = ld_checkpoint d"
proof -
  define bs where "bs = map (content dec src) (live_units (lc_last_init cp) (map b [c..<hi]))"
  have m: "hls_kind m = Media" "hls_segments m \<noteq> []" "hi < 2 ^ 62" using assms(2) by (auto simp: playlist_of_def)
  have "length bs < 2 ^ 63"
    using length_live_units [of "lc_last_init cp" "map b [c..<hi]"] m(3) unfolding bs_def by simp
  then have small: "lc_next_order cp + length bs < u64_limit" using assms(8,9) by (simp add: u64_limit_def)
  have sel: "map b [c..<hi] = unseen (case lc_cursor cp of None \<Rightarrow> hls_media_sequence m | Some n \<Rightarrow> n) (hls_segments m)"
    using playlist_unseen [OF assms(1-3)] by (simp add: assms(6))
  from live_tick_holds [OF assms(4) m(1) assms(5,7) _ sel bs_def small] playlist_cursor [OF assms(1,2)] m(2)
  show ?thesis unfolding bs_def [symmetric] by (simp add: Let_def assms(8))
qed

subsection \<open>A playlist that is out of date\<close>

text \<open>The last turn of a session, in which the process does not die.\<close>

lemma last_turn:
  assumes "live_loop h dec current [i] cp d = (Finished parts n, d')" "current_manifest h current i = Inr m" "li_halt i = None"
  shows "\<exists>cp' ws ended. live_tick dec (li_source i) m cp d = Inr (cp', ws, ended) \<and> parts = committed_live_parts (apply_writes ws d)"
  using assms by (cases "live_tick dec (li_source i) m cp d") (auto simp: Let_def split: if_splits)

text \<open>C38: A playlist that is out of date makes the recorder take segments twice. Let the segments of a broadcast from
  \<open>first\<close> to \<open>c\<close> be recorded, let the playlist of the next turn end at \<open>s\<close>, before \<open>c\<close>, as a copy from a cache may, and
  let the turn after that get a playlist that is up to date. Then the finished recording is what was recorded before,
  followed by the segments from \<open>s\<close> on: those from \<open>s\<close> to \<open>c\<close> are in it a second time. The cause is the cursor,
  which is set to the end of the playlist at hand even when that lies before it.\<close>
theorem stale_playlist_recorded_twice:
  assumes "broadcast b" "caught_up dec src b first c cp d" "c < 2 ^ 62"
    and "playlist_of b lo s stale" "first \<le> s" "s < c" "\<not> hls_end_list stale"
    and "playlist_of b lo' hi fresh" "lo' \<le> s"
    and "current_manifest h current i = Inr stale" "honest src (li_source i)" "li_halt i = None" "\<not> li_finish i"
    and "current_manifest h None j = Inr fresh" "honest src (li_source j)" "li_halt j = None"
    and "live_loop h dec current [i, j] cp d = (Finished parts n, d')"
  shows "parts = enumerate 0 (recording dec src (map b [first..<c])
    @ map (content dec src) (live_units (live_last None (map b [first..<c])) (map b [s..<hi])))"
proof -
  let ?old = "recording dec src (map b [first..<c])"
  note up = assms(2) [unfolded caught_up_def]
  have short: "length ?old < 2 ^ 63" using length_recording [of dec src "map b [first..<c]"] assms(3) by simp
  obtain cp1 ws1 ended1 where t1: "live_tick dec (li_source i) stale cp d = Inr (cp1, ws1, ended1)"
    using assms(10,17) by (cases "live_tick dec (li_source i) stale cp d") (auto split: if_splits)
  have lo: "lo \<le> c" using assms(4,6) by (simp add: playlist_of_def)
  have one: "holds ?old (apply_writes ws1 d)" "lc_next_order cp1 = length ?old" "lc_cursor cp1 = Some s"
    "lc_last_init cp1 = lc_last_init cp" "\<not> ended1"
    using tick_caught_up [OF assms(1,4) lo assms(11) t1, of ?old] up short assms(6,7) by (simp_all add: Let_def)
  have "live_loop h dec None [j] cp1 (apply_writes ws1 d) = (Finished parts n, d')"
    using assms(10,12,13,17) t1 one(5) by (auto simp: Let_def split: if_splits)
  from last_turn [OF this assms(14,16)] obtain cp2 ws2 ended2
    where t2: "live_tick dec (li_source j) fresh cp1 (apply_writes ws1 d) = Inr (cp2, ws2, ended2)"
      and parts: "parts = committed_live_parts (apply_writes ws2 (apply_writes ws1 d))" by blast
  show ?thesis
    using tick_caught_up [OF assms(1,8,9,15) t2 one(3,1,2) short] up
    by (simp add: parts one(4) Let_def holds_committed)
qed

subsection \<open>A checkpoint that is missing\<close>

text \<open>
  A session that finds parts and no checkpoint starts at number 0 and leaves the parts beyond its own: so it is also
  when the process died before the first checkpoint was written.
\<close>

lemma restart_overwrites:
  assumes "broadcast b" "holds ex d" "ld_checkpoint d = None" "playlist_of b lo hi m"
    and "honest src (li_source j)" "li_halt j = None" "stage_hls_live_stream h dec m [j] d = (Finished parts n, d')"
  shows "let new = recording dec src (map b [lo..<hi]) in parts = enumerate 0 (new @ drop (length new) ex)"
proof -
  have m: "hls_kind m = Media" "hi < 2 ^ 62" "hls_media_sequence m = lo" using assms(4) by (auto simp: playlist_of_def)
  have cp: "read_live_checkpoint d = default_checkpoint" using assms(3) by (simp add: read_live_checkpoint_def)
  obtain cp' ws ended where t: "live_tick dec (li_source j) m default_checkpoint d = Inr (cp', ws, ended)"
    and parts: "parts = committed_live_parts (apply_writes ws d)"
    using last_turn [of h dec "Some m" j default_checkpoint d parts n d' m] assms(6,7)
    by (auto simp: stage_hls_live_stream_def cp current_manifest_def simp del: live_loop.simps)
  let ?new = "recording dec src (map b [lo..<hi])"
  have sel: "map b [lo..<hi] = unseen (case lc_cursor default_checkpoint of None \<Rightarrow> hls_media_sequence m | Some n \<Rightarrow> n) (hls_segments m)"
    using playlist_unseen [OF assms(1,4) order_refl] by (simp add: default_checkpoint_def m(3))
  have new: "?new = map (content dec src) (live_units (lc_last_init default_checkpoint) (map b [lo..<hi]))"
    by (simp add: recording_def default_checkpoint_def)
  have "length ?new < u64_limit" using length_recording [of dec src "map b [lo..<hi]"] m(2) by (simp add: u64_limit_def)
  then have "holds (?new @ drop (length ?new) ex) (apply_writes ws d)"
    using live_tick_holds [OF assms(5) m(1) t assms(2) _ sel new] by (simp add: default_checkpoint_def Let_def)
  then show ?thesis by (simp add: parts holds_committed Let_def)
qed

text \<open>C39: The checkpoint of a recording is not replaced atomically. Let a recorder that has the segments from \<open>first\<close> to
  \<open>c\<close> take those of the next playlist, up to \<open>hi\<close>, and let the process die just before the last write of the turn, between
  removing the old checkpoint and renaming the new one into place. Then all segments up to \<open>hi\<close> are on the disk,
  but a session that follows starts over: its finished recording begins with the segments of its own playlist, written over
  those recorded before, and goes on with what is left of the old parts beyond them.\<close>
theorem checkpoint_gap_loses_recording:
  assumes "broadcast b" "caught_up dec src b first c cp d" "c < 2 ^ 62"
    and "playlist_of b lo hi m" "lo \<le> c" "c \<le> hi" "current_manifest h current i = Inr m" "honest src (li_source i)" "\<not> li_cancel i"
    and "live_tick dec (li_source i) m cp d = Inr (cp', ws, ended)" "li_halt i = Some (length ws - 1)"
    and "live_loop h dec current [i] cp d = (r, dead)"
    and "playlist_of b lo' hi' m'" "honest src (li_source j)" "li_halt j = None"
    and "stage_hls_live_stream h dec m' [j] dead = (Finished parts n, d')"
  shows "r = Died \<and> committed_live_parts dead = enumerate 0 (recording dec src (map b [first..<hi]))
    \<and> (let new = recording dec src (map b [lo'..<hi']) in
         parts = enumerate 0 (new @ drop (length new) (recording dec src (map b [first..<hi]))))"
proof -
  let ?old = "recording dec src (map b [first..<c])"
  note up = assms(2) [unfolded caught_up_def]
  have short: "length ?old < 2 ^ 63" using length_recording [of dec src "map b [first..<c]"] assms(3) by simp
  define bs where "bs = map (content dec src) (live_units (lc_last_init cp) (map b [c..<hi]))"
  define pw where "pw = commit_writes d (length ?old) bs"
  have tick: "holds (?old @ bs) (apply_writes pw d)" "ld_checkpoint (apply_writes pw d) = ld_checkpoint d"
    "ws = pw @ write_live_checkpoint (apply_writes pw d) cp'"
    using tick_caught_up [OF assms(1,4,5,8,10), of ?old] up short by (simp_all add: Let_def pw_def bs_def)
  then have ws: "ws = pw @ [RemoveCheckpoint, PutCheckpoint cp']" using up by (simp add: write_live_checkpoint_def)
  then have half: "take (length ws - 1) ws = pw @ [RemoveCheckpoint]" "length ws - 1 < length ws" by simp_all
  have dead: "r = Died" "dead = apply_writes (pw @ [RemoveCheckpoint]) d"
    using assms(7,9,10,11,12) half by (simp_all add: Let_def)
  have "map b [first..<hi] = map b [first..<c] @ map b [c..<hi]"
    using upt_split [of first c hi] up assms(6) by simp
  then have all: "recording dec src (map b [first..<hi]) = ?old @ bs"
    using up by (simp add: recording_append bs_def)
  have held: "holds (recording dec src (map b [first..<hi])) dead" "ld_checkpoint dead = None"
    using tick(1) by (simp_all add: dead all)
  show ?thesis
    using restart_overwrites [OF assms(1) held assms(13-16)] dead(1) holds_committed [OF held(1)] by blast
qed

end
