(* ===== verification/Hls_Text.thy ===== *)
theory Hls_Text
  imports Hls Core_Model
begin

text \<open>
  Reading back a media playlist. \<open>media_playlist\<close> writes the text of a list of entries as RFC 8216 lays it down,
  \<open>playlist_segments\<close> gives the segments that the text means, and reading the text gives these segments.
\<close>

subsection \<open>Text without blanks\<close>

definition graphic :: "str \<Rightarrow> bool" where
  "graphic s \<longleftrightarrow> list_all (\<lambda>b. 0x21 \<le> b \<and> b \<le> 0x7e) s"

lemma graphic_append [simp]: "graphic (s @ t) \<longleftrightarrow> graphic s \<and> graphic t"
  by (simp add: graphic_def)

lemma graphic_Cons [simp]: "graphic (b # s) \<longleftrightarrow> 0x21 \<le> b \<and> b \<le> 0x7e \<and> graphic s"
  by (auto simp: graphic_def)

lemma graphic_Nil [simp]: "graphic []"
  by (simp add: graphic_def)

lemma trim_graphic [simp]: "graphic s \<Longrightarrow> trim s = s"
proof (rule trim_word, intro ballI)
  fix b assume "graphic s" "b \<in> set s"
  then have b: "0x21 \<le> b" "b \<le> 0x7e" by (auto simp: graphic_def list_all_iff)
  then have "b \<noteq> 0x09" "b \<noteq> 0x0a" "b \<noteq> 0x0b" "b \<noteq> 0x0c" "b \<noteq> 0x0d" "b \<noteq> 0x20" by auto
  moreover have "b \<le> 0x7f" using b(2) by (rule order_trans) simp
  ultimately show "b \<le> 0x7f \<and> \<not> is_whitespace [b]" by (auto simp: is_whitespace_def)
qed

lemma digits_graphic [simp]: "graphic (nat_to_dec n)"
proof -
  have "0x21 \<le> b \<and> b \<le> 0x7e" if "is_ascii_digit b" for b :: u8
    using that order_trans [of "0x21" "0x30" b] order_trans [of b "0x39" "0x7e"] by (simp add: is_ascii_digit_def)
  then have "list_all is_ascii_digit s \<Longrightarrow> graphic s" for s
    by (induction s) auto
  then show ?thesis using nat_to_dec_digits by blast
qed

lemma digits_no: "\<not> is_ascii_digit c \<Longrightarrow> c \<notin> set (nat_to_dec n)"
  using nat_to_dec_digits [of n] by (auto simp: list_all_iff)

lemma graphic_ascii: "graphic s \<Longrightarrow> b \<in> set s \<Longrightarrow> b \<le> 0x7f"
proof -
  assume "graphic s" "b \<in> set s"
  then have "b \<le> 0x7e" by (auto simp: graphic_def list_all_iff)
  then show "b \<le> 0x7f" by (rule order_trans) simp
qed

lemma unlines_ascii: "\<forall>l \<in> set ls. graphic l \<and> l \<noteq> [] \<Longrightarrow> \<forall>b \<in> set (unlines ls). b \<le> 0x7f"
  by (induction ls) (auto intro: graphic_ascii)

lemma lines_trimmed: "\<forall>l \<in> set ls. graphic l \<and> l \<noteq> [] \<Longrightarrow> filter (\<lambda>l. l \<noteq> []) (map trim ls) = ls"
  by (induction ls) auto

lemma dropWhile_keeps: "x \<in> set xs \<Longrightarrow> \<not> P x \<Longrightarrow> x \<in> set (dropWhile P xs)"
  by (induction xs) auto

lemma trim_nonblank:
  assumes "\<forall>b \<in> set s. b \<le> 0x7f" "c \<in> set s" "\<not> is_whitespace [c]"
  shows "trim s \<noteq> []"
proof -
  have "[c] \<in> set (dropWhile is_whitespace (rev (dropWhile is_whitespace (chars s))))"
    using assms by (intro dropWhile_keeps) (simp_all add: chars_ascii dropWhile_keeps)
  then show ?thesis by (auto simp: trim_def)
qed

lemma plain_graphic: "graphic s \<Longrightarrow> s \<noteq> [] \<Longrightarrow> plain_line s"
proof -
  assume s: "graphic s" "s \<noteq> []"
  have "0x21 \<le> last s" "\<forall>b \<in> set s. 0x21 \<le> b" using s by (auto simp: graphic_def list_all_iff)
  moreover have "0x0a \<notin> set s" "last s \<noteq> 0x0d" using calculation by force+
  ultimately show "plain_line s" using s(2) by (simp add: plain_line_def)
qed

text \<open>Matching literal prefixes.\<close>

lemma strip_lit [simp]:
  "strip_prefix (lit []) s = Some s"
  "strip_prefix (lit (c # p)) (lit (d # q) @ s) = (if c = d then strip_prefix (lit p) (lit q @ s) else None)"
  "strip_prefix (lit (c # p)) (lit (d # q)) = (if c = d then strip_prefix (lit p) (lit q) else None)"
  "strip_prefix (lit (c # p)) (lit []) = None"
  by (auto simp: strip_prefix_def lit_simps)

lemma strip_nonhash: "s = [] \<or> hd s \<noteq> 0x23 \<Longrightarrow> strip_prefix (lit (CHR ''#'' # p)) s = None"
  by (cases s) (auto simp: strip_prefix_def lit_simps)

lemma nonhash_neq: "hd s \<noteq> 0x23 \<Longrightarrow> s \<noteq> lit (CHR ''#'' # p)"
  by (auto simp: lit_simps)

subsection \<open>Attribute lists\<close>

definition quoted :: "str \<Rightarrow> str" where
  "quoted s = 0x22 # s @ [0x22]"

definition attribute :: "str \<times> str \<Rightarrow> str" where
  "attribute kv = fst kv @ 0x3d # snd kv"

fun attribute_list :: "(str \<times> str) list \<Rightarrow> str" where
  "attribute_list [] = []"
| "attribute_list [kv] = attribute kv"
| "attribute_list (kv # kvs) = attribute kv @ 0x2c # attribute_list kvs"

definition bare :: "str \<Rightarrow> bool" where
  "bare s \<longleftrightarrow> graphic s \<and> 0x22 \<notin> set s \<and> 0x2c \<notin> set s"

text \<open>A value is a token without quotes and commas, or a quoted text without quotes.\<close>

definition attribute_value :: "str \<Rightarrow> bool" where
  "attribute_value v \<longleftrightarrow> bare v \<or> (\<exists>s. v = quoted s \<and> graphic s \<and> 0x22 \<notin> set s)"

definition attribute_ok :: "str \<times> str \<Rightarrow> bool" where
  "attribute_ok kv \<longleftrightarrow> bare (fst kv) \<and> 0x3d \<notin> set (fst kv) \<and> attribute_value (snd kv)"

lemma unquote_quoted [simp]: "unquote (quoted s) = s"
  by (simp add: unquote_def quoted_def strip_prefix_def)

lemma unquote_bare [simp]: "0x22 \<notin> set s \<Longrightarrow> unquote s = s"
  by (cases s) (auto simp: unquote_def strip_prefix_def)

lemma value_graphic: "attribute_value v \<Longrightarrow> graphic v"
  by (auto simp: attribute_value_def bare_def quoted_def)

lemma loop_bare:
  "0x22 \<notin> set w \<Longrightarrow> 0x2c \<notin> set w \<Longrightarrow>
     split_attributes_loop False cur (w @ s) ps = split_attributes_loop False (cur @ w) s ps"
  by (induction w arbitrary: cur) auto

lemma loop_inside:
  "0x22 \<notin> set w \<Longrightarrow> split_attributes_loop True cur (w @ s) ps = split_attributes_loop True (cur @ w) s ps"
  by (induction w arbitrary: cur) auto

lemma loop_value:
  "attribute_value v \<Longrightarrow> split_attributes_loop False cur (v @ s) ps = split_attributes_loop False (cur @ v) s ps"
  using loop_inside [of _ "cur @ [0x22]" "0x22 # s" ps]
  by (auto simp: attribute_value_def bare_def quoted_def loop_bare)

lemma loop_attribute:
  assumes "attribute_ok kv"
  shows "split_attributes_loop False [] (attribute kv @ s) ps = split_attributes_loop False (attribute kv) s ps"
proof -
  have k: "0x22 \<notin> set (fst kv @ [0x3d])" "0x2c \<notin> set (fst kv @ [0x3d])" and v: "attribute_value (snd kv)"
    using assms by (auto simp: attribute_ok_def bare_def)
  have "attribute kv @ s = (fst kv @ [0x3d]) @ snd kv @ s" by (simp add: attribute_def)
  then show ?thesis using loop_bare [OF k, of "[]"] loop_value [OF v] by (simp add: attribute_def)
qed

lemma push_written:
  assumes "attribute_ok kv"
  shows "push_attribute (attribute kv) ps = ps @ [kv]"
proof -
  have "split_once 0x3d (attribute kv) = Some kv"
    using assms split_once_append [of "0x3d" "fst kv" "snd kv"] by (simp add: attribute_ok_def attribute_def)
  moreover have "graphic (fst kv)" "graphic (snd kv)"
    using assms value_graphic by (auto simp: attribute_ok_def bare_def)
  ultimately show ?thesis by (cases kv) (simp add: push_attribute_def)
qed

lemma split_written: "list_all attribute_ok kvs \<Longrightarrow> kvs \<noteq> [] \<Longrightarrow> split_attributes (attribute_list kvs) = kvs"
proof -
  have "list_all attribute_ok kvs \<Longrightarrow> kvs \<noteq> [] \<Longrightarrow>
      split_attributes_loop False [] (attribute_list kvs) ps = ps @ kvs" for ps
  proof (induction kvs arbitrary: ps rule: attribute_list.induct)
    case (2 kv)
    then show ?case using loop_attribute [of kv "[]" ps] by (simp add: push_written)
  next
    case (3 kv kv' kvs)
    then show ?case by (simp add: loop_attribute push_written)
  qed simp
  from this [of "[]"] show "list_all attribute_ok kvs \<Longrightarrow> kvs \<noteq> [] \<Longrightarrow> split_attributes (attribute_list kvs) = kvs"
    by (simp add: split_attributes_def)
qed

lemma attributes_graphic: "list_all attribute_ok kvs \<Longrightarrow> graphic (attribute_list kvs)"
  by (induction kvs rule: attribute_list.induct)
    (auto simp: attribute_ok_def bare_def attribute_def value_graphic)

subsection \<open>Writing a media playlist\<close>

text \<open>
  A segment as its tags state it: a discontinuity before it, a new initialization map, a new key (\<open>Some None\<close> ends the
  encryption; an AES-128 key has a URI and may have an initialization vector), its byte range, duration and URI.
\<close>

record hls_entry =
  en_discontinuity :: bool
  en_map :: "(str \<times> hls_byte_range option) option"
  en_key :: "(str \<times> str option) option option"
  en_range :: "hls_byte_range option"
  en_duration :: str
  en_uri :: str

definition byte_range_text :: "hls_byte_range \<Rightarrow> str" where
  "byte_range_text r =
     nat_to_dec (hb_length r) @ (case hb_offset r of None \<Rightarrow> [] | Some k \<Rightarrow> 0x40 # nat_to_dec k)"

definition map_attributes :: "str \<times> hls_byte_range option \<Rightarrow> (str \<times> str) list" where
  "map_attributes m =
     (lit ''URI'', quoted (fst m))
     # (case snd m of None \<Rightarrow> [] | Some r \<Rightarrow> [(lit ''BYTERANGE'', quoted (byte_range_text r))])"

definition key_attributes :: "(str \<times> str option) option \<Rightarrow> (str \<times> str) list" where
  "key_attributes k =
     (case k of
        None \<Rightarrow> [(lit ''METHOD'', lit ''NONE'')]
      | Some (uri, iv) \<Rightarrow>
          [(lit ''METHOD'', lit ''AES-128''), (lit ''URI'', quoted uri)]
          @ (case iv of None \<Rightarrow> [] | Some v \<Rightarrow> [(lit ''IV'', v)]))"

definition entry_lines :: "hls_entry \<Rightarrow> str list" where
  "entry_lines e =
     (if en_discontinuity e then [lit ''#EXT-X-DISCONTINUITY''] else [])
     @ (case en_map e of None \<Rightarrow> [] | Some m \<Rightarrow> [lit ''#EXT-X-MAP:'' @ attribute_list (map_attributes m)])
     @ (case en_key e of None \<Rightarrow> [] | Some k \<Rightarrow> [lit ''#EXT-X-KEY:'' @ attribute_list (key_attributes k)])
     @ (case en_range e of None \<Rightarrow> [] | Some r \<Rightarrow> [lit ''#EXT-X-BYTERANGE:'' @ byte_range_text r])
     @ [lit ''#EXTINF:'' @ en_duration e @ [0x2c], en_uri e]"

definition playlist_lines :: "nat \<Rightarrow> nat \<Rightarrow> hls_entry list \<Rightarrow> bool \<Rightarrow> str list" where
  "playlist_lines target sequence es ended =
     [lit ''#EXTM3U'', lit ''#EXT-X-VERSION:7'', lit ''#EXT-X-TARGETDURATION:'' @ nat_to_dec target,
      lit ''#EXT-X-MEDIA-SEQUENCE:'' @ nat_to_dec sequence]
     @ concat (map entry_lines es) @ (if ended then [lit ''#EXT-X-ENDLIST''] else [])"

definition media_playlist :: "nat \<Rightarrow> nat \<Rightarrow> hls_entry list \<Rightarrow> bool \<Rightarrow> str" where
  "media_playlist target sequence es ended = unlines (playlist_lines target sequence es ended)"

text \<open>
  What the entries mean: maps and keys hold until the next ones, segments are numbered one after the other, and a
  byte range without an offset starts where the one of the segment before ends.
\<close>

definition entry_map :: "('u, 'f) hls_host \<Rightarrow> 'u \<Rightarrow> hls_init_map option \<Rightarrow> hls_entry \<Rightarrow> hls_init_map option" where
  "entry_map h base active e =
     (case en_map e of None \<Rightarrow> active
      | Some (uri, r) \<Rightarrow> Some \<lparr>hm_uri = resolve_uri h base uri, hm_byte_range = r\<rparr>)"

definition entry_key :: "('u, 'f) hls_host \<Rightarrow> 'u \<Rightarrow> hls_key option \<Rightarrow> hls_entry \<Rightarrow> hls_key option" where
  "entry_key h base active e =
     (case en_key e of
        None \<Rightarrow> active
      | Some None \<Rightarrow> None
      | Some (Some (uri, iv)) \<Rightarrow>
          Some \<lparr>hk_method = Aes128, hk_uri = Some (resolve_uri h base uri), hk_iv = iv, hk_key_format = None\<rparr>)"

definition entry_range :: "nat option \<Rightarrow> hls_entry \<Rightarrow> hls_byte_range option" where
  "entry_range next_offset e =
     map_option (\<lambda>r. if hb_offset r = None then r\<lparr>hb_offset := next_offset\<rparr> else r) (en_range e)"

definition range_end :: "hls_byte_range option \<Rightarrow> nat option" where
  "range_end r = Option.bind r (\<lambda>r. map_option (\<lambda>k. k + hb_length r) (hb_offset r))"

fun playlist_segments ::
  "('u, 'f) hls_host \<Rightarrow> 'u \<Rightarrow> nat \<Rightarrow> hls_init_map option \<Rightarrow> hls_key option \<Rightarrow> nat option \<Rightarrow> hls_entry list \<Rightarrow>
   'f hls_segment list" where
  "playlist_segments h base sequence m k next_offset [] = []"
| "playlist_segments h base sequence m k next_offset (e # es) =
     \<lparr>hs_uri = resolve_uri h base (en_uri e), hs_duration = parse_f64 h (en_duration e), hs_sequence = sequence,
      hs_discontinuity = en_discontinuity e, hs_byte_range = entry_range next_offset e,
      hs_init_map = entry_map h base m e, hs_key = entry_key h base k e\<rparr>
     # playlist_segments h base (sequence + 1) (entry_map h base m e) (entry_key h base k e)
         (range_end (entry_range next_offset e)) es"

text \<open>Entries a writer can write, and whose ranges stay below \<open>2 ^ 64\<close>.\<close>

definition range_ok :: "hls_byte_range \<Rightarrow> bool" where
  "range_ok r \<longleftrightarrow> hb_length r < u64_limit \<and> (case hb_offset r of None \<Rightarrow> True | Some k \<Rightarrow> k < u64_limit)"

definition uri_ok :: "str \<Rightarrow> bool" where
  "uri_ok uri \<longleftrightarrow> graphic uri \<and> 0x22 \<notin> set uri"

definition entry_ok :: "hls_entry \<Rightarrow> bool" where
  "entry_ok e \<longleftrightarrow>
     (case en_map e of None \<Rightarrow> True | Some (uri, r) \<Rightarrow> uri_ok uri \<and> (case r of None \<Rightarrow> True | Some r \<Rightarrow> range_ok r))
   \<and> (case en_key e of Some (Some (uri, iv)) \<Rightarrow> uri_ok uri \<and> (case iv of None \<Rightarrow> True | Some v \<Rightarrow> bare v) | _ \<Rightarrow> True)
   \<and> (case en_range e of None \<Rightarrow> True | Some r \<Rightarrow> range_ok r \<and> (en_discontinuity e \<longrightarrow> hb_offset r \<noteq> None))
   \<and> graphic (en_duration e) \<and> 0x2c \<notin> set (en_duration e)
   \<and> graphic (en_uri e) \<and> en_uri e \<noteq> [] \<and> hd (en_uri e) \<noteq> 0x23"

fun ranges_fit :: "nat option \<Rightarrow> hls_entry list \<Rightarrow> bool" where
  "ranges_fit next_offset [] \<longleftrightarrow> True"
| "ranges_fit next_offset (e # es) \<longleftrightarrow>
     (case range_end (entry_range next_offset e) of None \<Rightarrow> True | Some k \<Rightarrow> k < u64_limit)
   \<and> ranges_fit (range_end (entry_range next_offset e)) es"

subsection \<open>Tags read back\<close>

lemma parse_written_range: "range_ok r \<Longrightarrow> parse_byte_range (byte_range_text r) = Inr r"
proof -
  assume r: "range_ok r"
  have plain: "0x22 \<notin> set (byte_range_text r)"
    by (auto simp: byte_range_text_def digits_no is_ascii_digit_def split: option.splits)
  have at: "0x40 \<notin> set (nat_to_dec (hb_length r))" by (simp add: digits_no is_ascii_digit_def)
  show ?thesis
  proof (cases "hb_offset r")
    case None
    then have "split_once 0x40 (byte_range_text r) = None" using at by (simp add: byte_range_text_def split_once_def)
    then show ?thesis using r None plain
      by (simp add: parse_byte_range_def Let_def range_ok_def byte_range_text_def codec_simps)
  next
    case (Some k)
    then have "split_once 0x40 (byte_range_text r) = Some (nat_to_dec (hb_length r), nat_to_dec k)"
      using split_once_append [OF at] by (simp add: byte_range_text_def)
    then show ?thesis using r Some plain
      by (simp add: parse_byte_range_def Let_def range_ok_def codec_simps)
  qed
qed

lemma range_text_graphic [simp]: "graphic (byte_range_text r)"
  by (simp add: byte_range_text_def split: option.splits)

lemma range_text_no_quote: "0x22 \<notin> set (byte_range_text r)"
  by (auto simp: byte_range_text_def digits_no is_ascii_digit_def split: option.splits)

lemma quoted_value: "uri_ok s \<Longrightarrow> attribute_value (quoted s)"
  by (auto simp: attribute_value_def uri_ok_def)

lemma bare_value: "bare v \<Longrightarrow> attribute_value v"
  by (simp add: attribute_value_def)

lemma bare_lits: "bare (lit ''URI'')" "bare (lit ''BYTERANGE'')" "bare (lit ''METHOD'')" "bare (lit ''IV'')"
  "bare (lit ''NONE'')" "bare (lit ''AES-128'')"
  by (simp_all add: bare_def lit_simps)

lemma no_equals: "0x3d \<notin> set (lit ''URI'')" "0x3d \<notin> set (lit ''BYTERANGE'')" "0x3d \<notin> set (lit ''METHOD'')"
  "0x3d \<notin> set (lit ''IV'')"
  by (simp_all add: lit_simps)

lemma map_attributes_ok: "uri_ok (fst m) \<Longrightarrow> list_all attribute_ok (map_attributes m)"
  by (auto simp: map_attributes_def attribute_ok_def bare_lits no_equals quoted_value uri_ok_def range_text_no_quote
      split: option.splits)

lemma parse_written_map:
  assumes "uri_ok (fst m)" "case snd m of None \<Rightarrow> True | Some r \<Rightarrow> range_ok r"
  shows "parse_init_map h base (attribute_list (map_attributes m)) =
    Some \<lparr>hm_uri = resolve_uri h base (fst m), hm_byte_range = snd m\<rparr>"
proof -
  have "split_attributes (attribute_list (map_attributes m)) = map_attributes m"
    by (rule split_written [OF map_attributes_ok [OF assms(1)]]) (simp add: map_attributes_def)
  moreover have "snd m = Some r \<Longrightarrow> ok (parse_byte_range (byte_range_text r)) = Some r" for r
    using assms(2) by (simp add: parse_written_range)
  ultimately show ?thesis
    by (cases "snd m") (simp_all add: parse_init_map_def map_attributes_def attr_def Let_def)
qed

lemma key_attributes_ok:
  assumes "case k of None \<Rightarrow> True | Some (uri, iv) \<Rightarrow> uri_ok uri \<and> (case iv of None \<Rightarrow> True | Some v \<Rightarrow> bare v)"
  shows "list_all attribute_ok (key_attributes k)"
  using assms
  by (auto simp: key_attributes_def attribute_ok_def bare_lits no_equals quoted_value bare_value split: option.splits)

lemma parse_written_key:
  assumes "case k of None \<Rightarrow> True | Some (uri, iv) \<Rightarrow> uri_ok uri \<and> (case iv of None \<Rightarrow> True | Some v \<Rightarrow> bare v)"
  shows "parse_key h base (attribute_list (key_attributes k)) =
    map_option (\<lambda>(uri, iv). \<lparr>hk_method = Aes128, hk_uri = Some (resolve_uri h base uri), hk_iv = iv,
      hk_key_format = None\<rparr>) k"
proof -
  have split: "split_attributes (attribute_list (key_attributes k)) = key_attributes k"
    by (rule split_written [OF key_attributes_ok [OF assms]]) (simp add: key_attributes_def split: option.splits)
  have none: "unquote (lit ''NONE'') = lit ''NONE''" "unquote (lit ''AES-128'') = lit ''AES-128''"
    using bare_lits by (simp_all add: bare_def)
  show ?thesis
  proof (cases k)
    case None
    then show ?thesis
      by (simp add: parse_key_def split [unfolded None]) (simp add: key_attributes_def attr_def none encryption_method_def)
  next
    case (Some p)
    obtain uri iv where p: "p = (uri, iv)" by (cases p)
    have "iv = Some v \<Longrightarrow> unquote v = v" for v using assms by (simp add: Some p bare_def)
    then show ?thesis
      by (simp add: parse_key_def split [unfolded Some p] Some p Let_def)
        (cases iv; simp add: key_attributes_def attr_def none encryption_method_def)
  qed
qed

subsection \<open>Lines read back\<close>

lemma graphic_lits [simp]:
  "graphic (lit ''#EXTM3U'')" "graphic (lit ''#EXT-X-VERSION:7'')" "graphic (lit ''#EXT-X-TARGETDURATION:'')"
  "graphic (lit ''#EXT-X-MEDIA-SEQUENCE:'')" "graphic (lit ''#EXT-X-DISCONTINUITY'')" "graphic (lit ''#EXT-X-MAP:'')"
  "graphic (lit ''#EXT-X-KEY:'')" "graphic (lit ''#EXT-X-BYTERANGE:'')" "graphic (lit ''#EXTINF:'')"
  "graphic (lit ''#EXT-X-ENDLIST'')"
  by (simp_all add: lit_simps)

lemma lit_append_neq [simp]:
  "lit (c # p) @ s = lit (d # q) \<longleftrightarrow> c = d \<and> lit p @ s = lit q"
  "lit [] @ s = t \<longleftrightarrow> s = t"
  "lit (c # p) @ s \<noteq> lit []" "lit (c # p) @ s \<noteq> []"
  by (simp_all add: lit_simps)

lemma hls_line_tags:
  "hls_line h base st (lit ''#EXT-X-VERSION:7'') = Inr st"
  "hls_line h base st (lit ''#EXT-X-ENDLIST'') = Inr (st\<lparr>st_end_list := True\<rparr>)"
  "hls_line h base st (lit ''#EXT-X-DISCONTINUITY'') =
     Inr (st\<lparr>pending_discontinuity := True, next_implicit_offset := None\<rparr>)"
  by (simp_all add: hls_line_def Let_def) (simp add: lit_simps)

lemma hls_line_values:
  "graphic v \<Longrightarrow> hls_line h base st (lit ''#EXT-X-TARGETDURATION:'' @ v) =
     Inr (st\<lparr>st_target_duration := parse_unsigned u64_limit v\<rparr>)"
  "graphic v \<Longrightarrow> hls_line h base st (lit ''#EXT-X-MEDIA-SEQUENCE:'' @ v) =
     Inr (st\<lparr>st_media_sequence := (case parse_unsigned u64_limit v of None \<Rightarrow> 0 | Some n \<Rightarrow> n)\<rparr>)"
  "graphic v \<Longrightarrow> hls_line h base st (lit ''#EXT-X-MAP:'' @ v) = Inr (st\<lparr>active_init_map := parse_init_map h base v\<rparr>)"
  "graphic v \<Longrightarrow> hls_line h base st (lit ''#EXT-X-KEY:'' @ v) = Inr (st\<lparr>active_key := parse_key h base v\<rparr>)"
  "graphic v \<Longrightarrow> hls_line h base st (lit ''#EXT-X-BYTERANGE:'' @ v) = read_byte_range st v"
  "graphic v \<Longrightarrow> hls_line h base st (lit ''#EXTINF:'' @ v) = Inr (st\<lparr>pending_duration := extinf_duration h v\<rparr>)"
  by (simp_all add: hls_line_def Let_def) (simp_all add: lit_simps)

lemma hls_line_uri:
  "graphic uri \<Longrightarrow> uri \<noteq> [] \<Longrightarrow> hd uri \<noteq> 0x23 \<Longrightarrow> hls_line h base st uri = hls_uri_line h base st uri"
  by (simp add: hls_line_def Let_def strip_nonhash nonhash_neq)

lemma hls_lines_append:
  "hls_lines h base st (xs @ ys) = rbind (hls_lines h base st xs) (\<lambda>st'. hls_lines h base st' ys)"
  by (induction xs arbitrary: st) (simp_all add: rbind_assoc)

text \<open>Between segments nothing is pending.\<close>

definition at_rest :: "'f hls_state \<Rightarrow> bool" where
  "at_rest st \<longleftrightarrow> pending_variant st = None \<and> pending_discontinuity st = False \<and> pending_byte_range st = None
     \<and> pending_duration st = None"

definition entry_state :: "('u, 'f) hls_host \<Rightarrow> 'u \<Rightarrow> 'f hls_state \<Rightarrow> hls_entry \<Rightarrow> 'f hls_state" where
  "entry_state h base st e =
     (let r = entry_range (next_implicit_offset st) e;
          m = entry_map h base (active_init_map st) e;
          k = entry_key h base (active_key st) e in
      st\<lparr>st_segments := st_segments st @ [\<lparr>hs_uri = resolve_uri h base (en_uri e),
            hs_duration = parse_f64 h (en_duration e), hs_sequence = st_media_sequence st + sequence_offset st,
            hs_discontinuity = en_discontinuity e, hs_byte_range = r, hs_init_map = m, hs_key = k\<rparr>],
         active_init_map := m, active_key := k, sequence_offset := sequence_offset st + 1,
         next_implicit_offset := range_end r\<rparr>)"

lemma written_duration: "graphic d \<Longrightarrow> 0x2c \<notin> set d \<Longrightarrow> extinf_duration h (d @ [0x2c]) = parse_f64 h d"
  using split_byte_part [of "0x2c" d "[]"] by (simp add: extinf_duration_def)

lemma read_written_range:
  "range_ok r \<Longrightarrow> read_byte_range st (byte_range_text r) =
     Inr (st\<lparr>pending_byte_range :=
       Some (if hb_offset r = None then r\<lparr>hb_offset := next_implicit_offset st\<rparr> else r)\<rparr>)"
  by (simp add: read_byte_range_def parse_written_range)

lemma map_line:
  assumes "entry_ok e" "en_map e = Some m"
  shows "hls_line h base st (lit ''#EXT-X-MAP:'' @ attribute_list (map_attributes m)) =
    Inr (st\<lparr>active_init_map := entry_map h base (active_init_map st) e\<rparr>)"
proof -
  have m: "uri_ok (fst m)" "case snd m of None \<Rightarrow> True | Some r \<Rightarrow> range_ok r"
    using assms by (auto simp: entry_ok_def split: prod.splits)
  show ?thesis
    using parse_written_map [OF m, of h base]
      hls_line_values(3) [OF attributes_graphic [OF map_attributes_ok [OF m(1)]], of h base st] assms(2)
    by (cases m) (simp add: entry_map_def)
qed

lemma key_line:
  assumes "entry_ok e" "en_key e = Some k"
  shows "hls_line h base st (lit ''#EXT-X-KEY:'' @ attribute_list (key_attributes k)) =
    Inr (st\<lparr>active_key := entry_key h base (active_key st) e\<rparr>)"
proof -
  have k: "case k of None \<Rightarrow> True | Some (uri, iv) \<Rightarrow> uri_ok uri \<and> (case iv of None \<Rightarrow> True | Some v \<Rightarrow> bare v)"
    using assms by (auto simp: entry_ok_def split: option.splits)
  show ?thesis
    using parse_written_key [OF k, of h base]
      hls_line_values(4) [OF attributes_graphic [OF key_attributes_ok [OF k]], of h base st] assms(2)
    by (auto simp: entry_key_def split: option.splits)
qed

lemma entry_step:
  assumes "entry_ok e" "at_rest st" "st_media_sequence st + sequence_offset st < u64_limit"
    and "case range_end (entry_range (next_implicit_offset st) e) of None \<Rightarrow> True | Some k \<Rightarrow> k < u64_limit"
  shows "hls_lines h base st (entry_lines e) = Inr (entry_state h base st e)"
proof -
  let ?r = "entry_range (next_implicit_offset st) e"
  let ?m = "entry_map h base (active_init_map st) e"
  let ?k = "entry_key h base (active_key st) e"
  let ?off = "if en_discontinuity e then None else next_implicit_offset st"
  have e: "graphic (en_duration e)" "0x2c \<notin> set (en_duration e)" "graphic (en_uri e)" "en_uri e \<noteq> []" "hd (en_uri e) \<noteq> 0x23"
    using assms(1) by (auto simp: entry_ok_def)
  have rest: "pending_variant st = None" "pending_discontinuity st = False" "pending_byte_range st = None"
    using assms(2) by (auto simp: at_rest_def)
  define st1 where "st1 = st\<lparr>pending_discontinuity := en_discontinuity e, next_implicit_offset := ?off\<rparr>"
  define st2 where "st2 = st1\<lparr>active_init_map := ?m\<rparr>"
  define st3 where "st3 = st2\<lparr>active_key := ?k\<rparr>"
  define st4 where "st4 = st3\<lparr>pending_byte_range := ?r\<rparr>"
  define st5 where "st5 = st4\<lparr>pending_duration := parse_f64 h (en_duration e)\<rparr>"
  note states = st1_def st2_def st3_def st4_def st5_def
  have l1: "hls_lines h base st (if en_discontinuity e then [lit ''#EXT-X-DISCONTINUITY''] else []) = Inr st1"
    using rest by (simp add: st1_def hls_line_tags)
  have l2: "hls_lines h base st1 (case en_map e of None \<Rightarrow> [] | Some m \<Rightarrow> [lit ''#EXT-X-MAP:'' @ attribute_list (map_attributes m)]) = Inr st2"
    using map_line [OF assms(1), of _ h base st1] by (cases "en_map e") (simp_all add: st1_def st2_def entry_map_def)
  have l3: "hls_lines h base st2 (case en_key e of None \<Rightarrow> [] | Some k \<Rightarrow> [lit ''#EXT-X-KEY:'' @ attribute_list (key_attributes k)]) = Inr st3"
    using key_line [OF assms(1), of _ h base st2] by (cases "en_key e") (simp_all add: st1_def st2_def st3_def entry_key_def)
  have l4: "hls_lines h base st3 (case en_range e of None \<Rightarrow> [] | Some r \<Rightarrow> [lit ''#EXT-X-BYTERANGE:'' @ byte_range_text r]) = Inr st4"
  proof (cases "en_range e")
    case None
    then show ?thesis using rest by (simp add: states entry_range_def)
  next
    case (Some r)
    then have "range_ok r" "en_discontinuity e \<longrightarrow> hb_offset r \<noteq> None" using assms(1) by (auto simp: entry_ok_def)
    then show ?thesis
      using Some by (auto simp: hls_line_values read_written_range states entry_range_def)
  qed
  have l5: "hls_lines h base st4 [lit ''#EXTINF:'' @ en_duration e @ [0x2c], en_uri e] = hls_uri_line h base st5 (en_uri e)"
  proof -
    have "graphic (en_duration e @ [0x2c])" using e(1) by simp
    then have "hls_line h base st4 (lit ''#EXTINF:'' @ en_duration e @ [0x2c]) = Inr st5"
      using hls_line_values(6) [of "en_duration e @ [0x2c]" h base st4] e(1,2) by (simp add: st5_def written_duration)
    then show ?thesis using e hls_line_uri [of "en_uri e" h base st5] by (simp add: rbind_def split: sum.splits)
  qed
  have end_eq: "Option.bind ?r (\<lambda>r. map_option (\<lambda>offset. saturating_add64 offset (hb_length r)) (hb_offset r)) = range_end ?r"
    using assms(4) by (cases ?r) (auto simp: range_end_def saturating_add64_def u64_limit_def split: option.splits)
  have fields: "pending_variant st5 = None" "pending_byte_range st5 = ?r" "st_media_sequence st5 = st_media_sequence st"
    "sequence_offset st5 = sequence_offset st"
    using rest by (simp_all add: states)
  have l6: "hls_uri_line h base st5 (en_uri e) = Inr (entry_state h base st e)"
    using assms(2,3) by (simp add: hls_uri_line_def Let_def fields end_eq add64_def)
      (simp add: states entry_state_def Let_def at_rest_def)
  show ?thesis
    unfolding entry_lines_def by (simp only: hls_lines_append l1 l2 l3 l4 l5 l6 rbind_simps)
qed

lemma entry_state_facts:
  assumes "at_rest st"
  shows "at_rest (entry_state h base st e)"
    and "st_media_sequence (entry_state h base st e) = st_media_sequence st"
    and "sequence_offset (entry_state h base st e) = sequence_offset st + 1"
    and "next_implicit_offset (entry_state h base st e) = range_end (entry_range (next_implicit_offset st) e)"
  using assms by (simp_all add: entry_state_def Let_def at_rest_def)

lemma entries_read:
  "list_all entry_ok es \<Longrightarrow> at_rest st \<Longrightarrow> st_media_sequence st + sequence_offset st + length es \<le> u64_limit \<Longrightarrow>
     ranges_fit (next_implicit_offset st) es \<Longrightarrow>
   \<exists>st'. hls_lines h base st (concat (map entry_lines es)) = Inr st' \<and> at_rest st'
     \<and> st_segments st' = st_segments st @ playlist_segments h base (st_media_sequence st + sequence_offset st)
         (active_init_map st) (active_key st) (next_implicit_offset st) es
     \<and> st_variants st' = st_variants st \<and> st_renditions st' = st_renditions st
     \<and> st_media_sequence st' = st_media_sequence st \<and> st_target_duration st' = st_target_duration st
     \<and> st_end_list st' = st_end_list st"
proof (induction es arbitrary: st)
  case (Cons e es)
  let ?st = "entry_state h base st e"
  note facts = entry_state_facts [OF Cons.prems(2), of h base e]
  have step: "hls_lines h base st (entry_lines e) = Inr ?st"
    using Cons.prems by (intro entry_step) auto
  have "list_all entry_ok es" "ranges_fit (next_implicit_offset ?st) es"
    "st_media_sequence ?st + sequence_offset ?st + length es \<le> u64_limit"
    using Cons.prems by (simp_all add: facts)
  from Cons.IH [OF this(1) facts(1) this(3,2)] obtain st' where
    st': "hls_lines h base ?st (concat (map entry_lines es)) = Inr st'" "at_rest st'"
      "st_segments st' = st_segments ?st @ playlist_segments h base (st_media_sequence ?st + sequence_offset ?st)
         (active_init_map ?st) (active_key ?st) (next_implicit_offset ?st) es"
      "st_variants st' = st_variants ?st" "st_renditions st' = st_renditions ?st"
      "st_media_sequence st' = st_media_sequence ?st" "st_target_duration st' = st_target_duration ?st"
      "st_end_list st' = st_end_list ?st"
    by blast
  have "hls_lines h base st (concat (map entry_lines (e # es))) = Inr st'"
    by (simp add: hls_lines_append step st'(1))
  then show ?case using st' by (simp add: entry_state_def Let_def)
qed auto

lemma playlist_graphic:
  assumes "list_all entry_ok es"
  shows "\<forall>l \<in> set (playlist_lines target sequence es ended). graphic l \<and> l \<noteq> []"
proof -
  have graphic_entry: "\<forall>l \<in> set (entry_lines e). graphic l \<and> l \<noteq> []" if "entry_ok e" for e
  proof -
    have m: "graphic (attribute_list (map_attributes m))" if "en_map e = Some m" for m
      using that \<open>entry_ok e\<close> by (intro attributes_graphic map_attributes_ok) (auto simp: entry_ok_def split: prod.splits)
    have k: "graphic (attribute_list (key_attributes k))" if "en_key e = Some k" for k
      using that \<open>entry_ok e\<close> by (intro attributes_graphic key_attributes_ok) (auto simp: entry_ok_def split: option.splits)
    show ?thesis using \<open>entry_ok e\<close> m k
      by (auto simp: entry_lines_def entry_ok_def split: option.splits if_splits)
  qed
  show ?thesis using graphic_entry assms by (fastforce simp: playlist_lines_def list_all_iff)
qed

lemma parse_lines:
  assumes "\<forall>l \<in> set ls. graphic l \<and> l \<noteq> []" "parse_url h base_url = Some base"
  shows "parse_hls h base_url (unlines (lit ''#EXTM3U'' # ls)) =
    rbind (hls_lines h base hls_start ls) (\<lambda>st. Inr (hls_finish st))"
proof -
  let ?lines = "lit ''#EXTM3U'' # ls"
  have graphic: "\<forall>l \<in> set ?lines. graphic l \<and> l \<noteq> []" using assms(1) by simp
  then have lines: "str_lines (unlines ?lines) = ?lines"
    by (intro str_lines_unlines) (auto simp: list_all_iff plain_graphic)
  have trimmed: "filter (\<lambda>l. l \<noteq> []) (map trim ?lines) = ?lines" using graphic by (rule lines_trimmed)
  have "trim (unlines ?lines) \<noteq> []"
  proof (rule trim_nonblank)
    show "\<forall>b \<in> set (unlines ?lines). b \<le> 0x7f" using graphic by (rule unlines_ascii)
    show "0x23 \<in> set (unlines ?lines)" by (simp add: lit_simps)
    show "\<not> is_whitespace [0x23]" by (simp add: is_whitespace_def)
  qed
  then show ?thesis unfolding parse_hls_def lines trimmed using assms(2) by simp
qed

lemma playlist_read:
  assumes "parse_url h base_url = Some base" "list_all entry_ok es" "ranges_fit None es"
    and "sequence + length es \<le> u64_limit" "sequence < u64_limit" "target < u64_limit"
  shows "parse_hls h base_url (media_playlist target sequence es ended) =
    Inr \<lparr>hls_kind = Media, hls_variants = [], hls_renditions = [],
         hls_segments = playlist_segments h base sequence None None None es, hls_media_sequence = sequence,
         hls_target_duration = Some target, hls_end_list = ended\<rparr>"
proof -
  let ?ls = "drop 1 (playlist_lines target sequence es ended)"
  have lines: "playlist_lines target sequence es ended = lit ''#EXTM3U'' # ?ls" by (simp add: playlist_lines_def)
  have graphic: "\<forall>l \<in> set ?ls. graphic l \<and> l \<noteq> []"
    using playlist_graphic [OF assms(2), of target sequence ended] by (auto dest: in_set_dropD)
  let ?st = "hls_start\<lparr>st_target_duration := Some target, st_media_sequence := sequence\<rparr>"
  obtain st' where st': "hls_lines h base ?st (concat (map entry_lines es)) = Inr st'"
      "st_segments st' = playlist_segments h base sequence None None None es"
      "st_variants st' = []" "st_renditions st' = []" "st_media_sequence st' = sequence"
      "st_target_duration st' = Some target" "st_end_list st' = False"
    using entries_read [of es ?st h base] assms by (auto simp: hls_start_def at_rest_def)
  have "hls_lines h base hls_start ?ls = Inr (st'\<lparr>st_end_list := ended\<rparr>)"
    using assms st'(1,7)
    by (simp add: playlist_lines_def hls_lines_append hls_line_tags hls_line_values codec_simps)
  with parse_lines [OF graphic assms(1)] lines
  have "parse_hls h base_url (media_playlist target sequence es ended) = Inr (hls_finish (st'\<lparr>st_end_list := ended\<rparr>))"
    unfolding media_playlist_def by (metis rbind_simps(2))
  then show ?thesis using st' by (simp add: hls_finish_def)
qed

text \<open>
  The order of tags that RFC 8216 leaves open matters: a discontinuity between a segment and a byte range without an
  offset makes the reader forget where the range starts, a discontinuity after the range does not.
\<close>

lemma discontinuity_drops_offset:
  assumes "parse_url h base_url = Some base"
  defines "range1 \<equiv> lit ''#EXT-X-BYTERANGE:'' @ byte_range_text \<lparr>hb_length = 1000, hb_offset = Some 720\<rparr>"
    and "range2 \<equiv> lit ''#EXT-X-BYTERANGE:'' @ byte_range_text \<lparr>hb_length = 900, hb_offset = None\<rparr>"
  shows "\<exists>m. parse_hls h base_url (unlines [lit ''#EXTM3U'', range1, lit ''a'', lit ''#EXT-X-DISCONTINUITY'', range2, lit ''a'']) = Inr m
       \<and> map hs_byte_range (hls_segments m) =
           [Some \<lparr>hb_length = 1000, hb_offset = Some 720\<rparr>, Some \<lparr>hb_length = 900, hb_offset = None\<rparr>]"
    and "\<exists>m. parse_hls h base_url (unlines [lit ''#EXTM3U'', range1, lit ''a'', range2, lit ''#EXT-X-DISCONTINUITY'', lit ''a'']) = Inr m
       \<and> map hs_byte_range (hls_segments m) =
           [Some \<lparr>hb_length = 1000, hb_offset = Some 720\<rparr>, Some \<lparr>hb_length = 900, hb_offset = Some 1720\<rparr>]"
proof -
  have a: "graphic (lit ''a'')" "lit ''a'' \<noteq> []" "hd (lit ''a'') \<noteq> 0x23" by (simp_all add: lit_simps)
  have graphic: "graphic range1" "graphic range2" "range1 \<noteq> []" "range2 \<noteq> []"
    by (simp_all add: range1_def range2_def)
  have ranges: "hls_line h base st range1 = read_byte_range st (byte_range_text \<lparr>hb_length = 1000, hb_offset = Some 720\<rparr>)"
    "hls_line h base st range2 = read_byte_range st (byte_range_text \<lparr>hb_length = 900, hb_offset = None\<rparr>)" for st
    by (simp_all add: range1_def range2_def hls_line_values)
  have ok: "range_ok \<lparr>hb_length = 1000, hb_offset = Some 720\<rparr>" "range_ok \<lparr>hb_length = 900, hb_offset = None\<rparr>"
    by (simp_all add: range_ok_def u64_limit_def)
  note eval = hls_line_tags ranges read_written_range [OF ok(1)] read_written_range [OF ok(2)] hls_line_uri [OF a]
    hls_uri_line_def add64_def hls_start_def Let_def saturating_add64_def u64_limit_def hls_finish_def
  show "\<exists>m. parse_hls h base_url (unlines [lit ''#EXTM3U'', range1, lit ''a'', lit ''#EXT-X-DISCONTINUITY'', range2, lit ''a'']) = Inr m
       \<and> map hs_byte_range (hls_segments m) =
           [Some \<lparr>hb_length = 1000, hb_offset = Some 720\<rparr>, Some \<lparr>hb_length = 900, hb_offset = None\<rparr>]"
    by (subst parse_lines [OF _ assms(1)]) (use graphic a in simp, simp add: eval)
  show "\<exists>m. parse_hls h base_url (unlines [lit ''#EXTM3U'', range1, lit ''a'', range2, lit ''#EXT-X-DISCONTINUITY'', lit ''a'']) = Inr m
       \<and> map hs_byte_range (hls_segments m) =
           [Some \<lparr>hb_length = 1000, hb_offset = Some 720\<rparr>, Some \<lparr>hb_length = 900, hb_offset = Some 1720\<rparr>]"
    by (subst parse_lines [OF _ assms(1)]) (use graphic a in simp, simp add: eval)
qed

text \<open>Numbering the segments overflows: a build that checks arithmetic panics, another one starts again at 0.\<close>

lemma sequence_overflow:
  assumes "parse_url h base_url = Some base"
  defines "body \<equiv> unlines [lit ''#EXTM3U'', lit ''#EXT-X-MEDIA-SEQUENCE:'' @ nat_to_dec (u64_limit - 1), lit ''a'', lit ''a'']"
  shows "if overflow_checks h then parse_hls h base_url body = Inl SequenceOverflow
    else \<exists>m. parse_hls h base_url body = Inr m \<and> map hs_sequence (hls_segments m) = [u64_limit - 1, 0]"
proof -
  have a: "graphic (lit ''a'')" "lit ''a'' \<noteq> []" "hd (lit ''a'') \<noteq> 0x23" by (simp_all add: lit_simps)
  show ?thesis unfolding body_def
    by (subst (1 2) parse_lines [OF _ assms(1)]) (use a in simp, use a in simp,
      simp add: hls_line_values hls_line_uri [OF a] hls_uri_line_def add64_def hls_start_def Let_def
        codec_simps hls_finish_def u64_limit_def)
qed

text \<open>C31: A media playlist is read as it is meant. The text of any list of entries, as RFC 8216 writes it, parses to the
  manifest whose segments carry the resolved URIs, the durations, consecutive sequence numbers, the initialization
  map and key in force, and byte ranges whose missing offsets are the ends of the ranges before. An entry that
  follows a discontinuity has to state its offset.\<close>
theorem hls_media_playlist_roundtrip:
  assumes "parse_url h base_url = Some base" "list_all entry_ok es" "ranges_fit None es"
    and "sequence + length es \<le> u64_limit" "sequence < u64_limit" "target < u64_limit"
  shows "parse_hls h base_url (media_playlist target sequence es ended) =
    Inr \<lparr>hls_kind = Media, hls_variants = [], hls_renditions = [],
         hls_segments = playlist_segments h base sequence None None None es, hls_media_sequence = sequence,
         hls_target_duration = Some target, hls_end_list = ended\<rparr>"
  using playlist_read [OF assms] .

end
