(* ===== verification/Hls_Samples.thy ===== *)
theory Hls_Samples
  imports Hls_Recording Hls_Faults Hls_Text
begin

text \<open>
  A small broadcast, recorded: sessions that show that the hypotheses of the properties of the recorder can be met,
  and sessions in which it drops what it had or repeats an initialization map.
\<close>

subsection \<open>The sample broadcast\<close>

text \<open>Segment \<open>n\<close> has the URI and the content \<open>n\<close>; all have the initialization map at \<open>i\<close>.\<close>

definition sample_hls_host :: "(str, str) hls_host" where
  "sample_hls_host = \<lparr>parse_url = Some, url_join = (\<lambda>_. Some), url_string = id, parse_f64 = Some, round_milli = (\<lambda>_. 0),
     overflow_checks = True\<rparr>"

definition sample_source :: live_source where
  "sample_source = \<lparr>get_body = Inr, get_range = (\<lambda>_ _ _. Inl RangeResponseRejected), get_key = (\<lambda>_. Inr []),
     start_control = Continue, unit_control = (\<lambda>_. Continue)\<rparr>"

definition no_cipher :: decryptor where
  "no_cipher key iv text = None"

definition cast_segment :: "nat \<Rightarrow> str hls_segment" where
  "cast_segment n = \<lparr>hs_uri = nat_to_dec n, hs_duration = Some (lit ''4''), hs_sequence = n, hs_discontinuity = False,
     hs_byte_range = None, hs_init_map = Some \<lparr>hm_uri = lit ''i'', hm_byte_range = None\<rparr>, hs_key = None\<rparr>"

definition sample_window :: "nat \<Rightarrow> nat \<Rightarrow> bool \<Rightarrow> str hls_manifest" where
  "sample_window lo hi ended = \<lparr>hls_kind = Media, hls_variants = [], hls_renditions = [],
     hls_segments = map cast_segment [lo..<hi], hls_media_sequence = lo, hls_target_duration = Some 4,
     hls_end_list = ended\<rparr>"

definition sample_entry :: "nat \<Rightarrow> nat \<Rightarrow> hls_entry" where
  "sample_entry lo n = \<lparr>en_discontinuity = False, en_map = (if n = lo then Some (lit ''i'', None) else None),
     en_key = None, en_range = None, en_duration = lit ''4'', en_uri = nat_to_dec n\<rparr>"

definition sample_text :: "nat \<Rightarrow> nat \<Rightarrow> bool \<Rightarrow> str" where
  "sample_text lo hi ended = media_playlist 4 lo (map (sample_entry lo) [lo..<hi]) ended"

lemma sample_broadcast: "broadcast cast_segment"
  by (simp add: broadcast_def cast_segment_def)

lemma sample_entry_ok: "entry_ok (sample_entry lo n)"
proof -
  have "nat_to_dec n \<noteq> []" by (subst nat_to_dec.simps) simp
  moreover from this have "is_ascii_digit (hd (nat_to_dec n))"
    using nat_to_dec_digits [of n] by (cases "nat_to_dec n") auto
  ultimately show ?thesis
    by (auto simp: entry_ok_def sample_entry_def uri_ok_def lit_simps is_ascii_digit_def)
qed

lemma sample_ranges: "ranges_fit None (map (sample_entry lo) ns)"
  by (induction ns) (simp_all add: sample_entry_def entry_range_def range_end_def)

abbreviation sample_map :: "hls_init_map option" where
  "sample_map \<equiv> Some \<lparr>hm_uri = lit ''i'', hm_byte_range = None\<rparr>"

lemma sample_step:
  "m = (if k = lo then None else sample_map) \<Longrightarrow>
     playlist_segments sample_hls_host base k m None None (sample_entry lo k # es)
     = cast_segment k # playlist_segments sample_hls_host base (Suc k) sample_map None None es"
  by (simp add: sample_entry_def cast_segment_def sample_hls_host_def entry_map_def entry_key_def
      entry_range_def range_end_def resolve_uri_def)

lemma sample_tail:
  "lo < k \<Longrightarrow>
     playlist_segments sample_hls_host base k sample_map None None (map (sample_entry lo) [k..<k + m])
     = map cast_segment [k..<k + m]"
proof (induction m arbitrary: k)
  case (Suc m)
  have "[k..<k + Suc m] = k # [Suc k..<Suc k + m]" using upt_conv_Cons [of k "k + Suc m"] by simp
  with Suc.IH [of "Suc k"] sample_step [of sample_map k lo base] Suc.prems show ?case by (simp only: list.map) simp
qed simp

lemma sample_parsed:
  assumes "lo < hi" "hi < u64_limit"
  shows "parse_hls sample_hls_host url (sample_text lo hi ended) = Inr (sample_window lo hi ended)"
proof -
  have "[lo..<hi] = lo # [Suc lo..<Suc lo + (hi - Suc lo)]" using assms(1) upt_conv_Cons [of lo hi] by simp
  then have "playlist_segments sample_hls_host url lo None None None (map (sample_entry lo) [lo..<hi]) =
      map cast_segment [lo..<hi]"
    using sample_tail [of lo "Suc lo" url "hi - Suc lo"] sample_step [of None lo lo url] by (simp only: list.map) simp
  then show ?thesis
    unfolding sample_text_def
    using assms playlist_read [of sample_hls_host url url "map (sample_entry lo) [lo..<hi]" lo 4 ended]
    by (simp add: sample_entry_ok sample_ranges sample_window_def list_all_iff u64_limit_def sample_hls_host_def)
qed

lemma sample_fetched:
  assumes "lo < hi" "hi < u64_limit"
  shows "fetch_live_manifest sample_hls_host (Inr (url, sample_text lo hi ended)) = Inr (sample_window lo hi ended)"
proof -
  have "from_utf8 (sample_text lo hi ended) = Some (sample_text lo hi ended)"
    unfolding sample_text_def media_playlist_def by (intro from_utf8_ascii unlines_ascii playlist_graphic)
      (simp add: sample_entry_ok list_all_iff)
  then show ?thesis by (simp add: fetch_live_manifest_def sample_parsed [OF assms])
qed

subsection \<open>Sessions evaluated\<close>

definition sample_turn :: "nat \<Rightarrow> nat \<Rightarrow> bool \<Rightarrow> live_input" where
  "sample_turn lo hi ended = \<lparr>li_cancel = False, li_response = Inr ([], sample_text lo hi ended),
     li_source = sample_source, li_halt = None, li_finish = False, li_interrupt = False\<rparr>"

lemma sample_turn_fields:
  "li_cancel (sample_turn lo hi ended) = False" "li_source (sample_turn lo hi ended) = sample_source"
  "li_halt (sample_turn lo hi ended) = None" "li_finish (sample_turn lo hi ended) = False"
  "li_interrupt (sample_turn lo hi ended) = False"
  by (simp_all add: sample_turn_def)

lemma sample_turn_manifest:
  "lo < hi \<Longrightarrow> hi < u64_limit \<Longrightarrow>
     current_manifest sample_hls_host None (sample_turn lo hi ended) = Inr (sample_window lo hi ended)"
  by (simp add: current_manifest_def sample_turn_def sample_fetched)

lemma sample_initial: "current_manifest h (Some m) i = Inr m"
  by (simp add: current_manifest_def)

lemma sample_numbers: "nat_to_dec 5 = lit ''5''" "nat_to_dec 6 = lit ''6''" "nat_to_dec 7 = lit ''7''"
  by (simp_all add: nat_to_dec.simps lit_simps)

lemmas tick_eval = live_tick_def build_hls_live_refresh_def sample_window_def cast_segment_def unseen_def
  build_hls_media_plan_def live_track_def init_unit_def media_unit_def retain_inits.simps stage_refresh_def
  stage_hls_media_plan_def validate_encryption_modes_def stage_one_unit_def fetch_unit_def sample_source_def
  commit_live_parts_def write_live_checkpoint_def saturating_add64_def u64_limit_def default_checkpoint_def
  empty_disk_def upt_conv_Cons sample_numbers Let_def

lemmas loop_eval = stage_hls_live_stream_def read_live_checkpoint_def sample_initial sample_turn_manifest
  sample_turn_fields committed_live_parts_def

text \<open>
  A recording that is resumed after the stream has ended is dropped: the playlist is then staged as a whole, so that
  only the last window of the stream is kept and the parts on disk are not used.
\<close>

lemma ended_playlist_drops_recording:
  "\<exists>n. let d1 = snd (stage_hls_live_stream sample_hls_host no_cipher (sample_window 5 7 False)
         [sample_turn 5 7 False] empty_disk) in
       map snd (committed_live_parts d1) = [lit ''i'', lit ''5'', lit ''6'']
     \<and> stage_hls_playlist sample_hls_host no_cipher sample_source (sample_window 6 8 True) [] d1 =
       (Finished (enumerate 0 [lit ''i'', lit ''6'', lit ''7'']) n, d1)"
  by (simp add: loop_eval tick_eval stage_hls_playlist_def stage_hls_manifest_track_def)

text \<open>
  The audio track of a recording of two tracks gets its initialization map again at every refresh, the video track
  does not.
\<close>

lemma audio_map_repeated:
  "\<exists>dv da. live_pair_ticks no_cipher
      [(sample_source, sample_source, sample_window 5 6 False, sample_window 5 6 False),
       (sample_source, sample_source, sample_window 5 7 True, sample_window 5 7 True)] default_pair empty_disk empty_disk
      = Inr (dv, da)
    \<and> map snd (committed_live_parts dv) = [lit ''i'', lit ''5'', lit ''6'']
    \<and> map snd (committed_live_parts da) = [lit ''i'', lit ''5'', lit ''i'', lit ''6'']"
  by (simp add: live_pair_tick_def default_pair_def committed_live_parts_def tick_eval)

subsection \<open>Hypotheses met\<close>

lemma honest_refl [simp]: "honest s s"
  by (simp add: honest_def)

text \<open>The segments from 5 to \<open>c\<close> are recorded.\<close>

definition recorded :: "nat \<Rightarrow> u8 list list" where
  "recorded c = recording no_cipher sample_source (map cast_segment [5..<c])"

definition sample_checkpoint :: "nat \<Rightarrow> live_checkpoint" where
  "sample_checkpoint c = \<lparr>lc_cursor = Some c, lc_next_order = length (recorded c), lc_total_bytes = 0,
     lc_last_init = live_last None (map cast_segment [5..<c])\<rparr>"

definition sample_disk :: "nat \<Rightarrow> live_disk" where
  "sample_disk c = \<lparr>ld_checkpoint = Some (sample_checkpoint c), ld_parts = enumerate 0 (recorded c)\<rparr>"

lemma sample_caught_up: "5 \<le> c \<Longrightarrow> caught_up no_cipher sample_source cast_segment 5 c (sample_checkpoint c) (sample_disk c)"
proof -
  have "map_of (enumerate 0 ex) = get_opt ex" for ex :: "u8 list list"
    unfolding enumerate_nth map_of_map_restrict by (auto simp: fun_eq_iff restrict_map_def get_opt_def)
  then show "5 \<le> c \<Longrightarrow> ?thesis"
    by (simp add: caught_up_def holds_def sample_disk_def sample_checkpoint_def recorded_def)
qed

lemma sample_playlist: "lo < hi \<Longrightarrow> hi < 2 ^ 62 \<Longrightarrow> playlist_of cast_segment lo hi (sample_window lo hi ended)"
  by (simp add: playlist_of_def sample_window_def)

lemma recorded_7: "recorded 7 = [lit ''i'', lit ''5'', lit ''6'']"
  by (simp add: recorded_def recording_def upt_conv_Cons content_def stage_one_unit_def fetch_unit_def media_unit_def init_unit_def
      cast_segment_def sample_source_def Let_def sample_numbers)

lemma sample_recordings:
  "recording no_cipher sample_source (map cast_segment [5..<8]) = [lit ''i'', lit ''5'', lit ''6'', lit ''7'']"
  "recording no_cipher sample_source (map cast_segment [6..<8]) = [lit ''i'', lit ''6'', lit ''7'']"
  by (simp_all add: recording_def upt_conv_Cons content_def stage_one_unit_def fetch_unit_def media_unit_def init_unit_def
      cast_segment_def sample_source_def Let_def sample_numbers)

lemmas recorded_eval = sample_checkpoint_def sample_disk_def recorded_7 enumerate_eq_zip

theorem stale_playlist_recorded_twice_witness:
  "\<exists>parts n d. live_loop sample_hls_host no_cipher (Some (sample_window 4 6 False)) [sample_turn 4 6 False, sample_turn 5 7 True]
       (sample_checkpoint 7) (sample_disk 7) = (Finished parts n, d)
   \<and> parts = enumerate 0 (recorded 7 @ map (content no_cipher sample_source)
       (live_units (live_last None (map cast_segment [5..<7])) (map cast_segment [6..<7])))"
proof -
  obtain parts n d where loop: "live_loop sample_hls_host no_cipher (Some (sample_window 4 6 False))
      [sample_turn 4 6 False, sample_turn 5 7 True] (sample_checkpoint 7) (sample_disk 7) = (Finished parts n, d)"
    by (simp add: loop_eval tick_eval recorded_eval)
  have up: "caught_up no_cipher sample_source cast_segment 5 7 (sample_checkpoint 7) (sample_disk 7)"
    by (rule sample_caught_up) simp
  have fresh: "current_manifest sample_hls_host None (sample_turn 5 7 True) = Inr (sample_window 5 7 True)"
    by (rule sample_turn_manifest) (simp_all add: u64_limit_def)
  have windows: "playlist_of cast_segment 4 6 (sample_window 4 6 False)" "playlist_of cast_segment 5 7 (sample_window 5 7 True)"
    by (rule sample_playlist; simp)+
  have turns: "honest sample_source (li_source (sample_turn lo hi ended))" "li_halt (sample_turn lo hi ended) = None"
    "\<not> li_finish (sample_turn lo hi ended)" for lo hi ended
    by (simp_all add: sample_turn_fields)
  have "\<not> hls_end_list (sample_window 4 6 False)" by (simp add: sample_window_def)
  from stale_playlist_recorded_twice [OF sample_broadcast up _ windows(1) _ _ this windows(2) _ sample_initial turns fresh turns(1,2) loop]
  show ?thesis using loop unfolding recorded_def by auto
qed

text \<open>A session that is to record 7 as well and dies at its last write, and one that starts at 6.\<close>

definition dying_turn :: live_input where
  "dying_turn = (sample_turn 6 8 False)\<lparr>li_halt := Some 2\<rparr>"

theorem checkpoint_gap_loses_recording_witness:
  "\<exists>dead parts n d. live_loop sample_hls_host no_cipher (Some (sample_window 6 8 False)) [dying_turn] (sample_checkpoint 7) (sample_disk 7)
      = (Died, dead)
   \<and> stage_hls_live_stream sample_hls_host no_cipher (sample_window 6 8 False) [(sample_turn 6 8 False)\<lparr>li_finish := True\<rparr>] dead
      = (Finished parts n, d)
   \<and> parts = enumerate 0 [lit ''i'', lit ''6'', lit ''7'', lit ''7'']"
proof -
  let ?last = "(sample_turn 6 8 False)\<lparr>li_finish := True\<rparr>"
  obtain cp ws where tick: "live_tick no_cipher (li_source dying_turn) (sample_window 6 8 False) (sample_checkpoint 7) (sample_disk 7)
      = Inr (cp, ws, False)" and three: "length ws = 3"
    by (simp add: tick_eval recorded_eval dying_turn_def sample_turn_fields)
  let ?dead = "\<lparr>ld_checkpoint = None, ld_parts = [(0, lit ''i''), (1, lit ''5''), (2, lit ''6''), (3, lit ''7'')]\<rparr>"
  have died: "live_loop sample_hls_host no_cipher (Some (sample_window 6 8 False)) [dying_turn] (sample_checkpoint 7) (sample_disk 7)
      = (Died, ?dead)"
    by (simp add: loop_eval tick_eval recorded_eval dying_turn_def)
  obtain parts n d where restart: "stage_hls_live_stream sample_hls_host no_cipher (sample_window 6 8 False) [?last] ?dead = (Finished parts n, d)"
    by (simp add: loop_eval tick_eval)
  have up: "caught_up no_cipher sample_source cast_segment 5 7 (sample_checkpoint 7) (sample_disk 7)"
    by (rule sample_caught_up) simp
  have w: "playlist_of cast_segment 6 8 (sample_window 6 8 False)" by (rule sample_playlist) simp_all
  have turn: "honest sample_source (li_source dying_turn)" "\<not> li_cancel dying_turn" "li_halt dying_turn = Some (length ws - 1)"
    "honest sample_source (li_source ?last)" "li_halt ?last = None"
    by (simp_all add: dying_turn_def sample_turn_fields three)
  have "parts = enumerate 0 [lit ''i'', lit ''6'', lit ''7'', lit ''7'']"
    using checkpoint_gap_loses_recording [OF sample_broadcast up _ w _ _ sample_initial turn(1,2) tick turn(3) died w turn(4,5) restart]
    unfolding sample_recordings Let_def by simp
  then show ?thesis using died restart by blast
qed

text \<open>
  The first session takes 5 and 6 and dies when 7 is renamed into place but not yet in the checkpoint; the second is
  told to finish.
\<close>

definition sample_sessions :: "(str hls_manifest \<times> live_input list) list" where
  "sample_sessions = [(sample_window 5 7 False, [sample_turn 5 7 False, (sample_turn 6 8 False)\<lparr>li_halt := Some 1\<rparr>])]"

definition last_session :: "live_input list" where
  "last_session = [(sample_turn 6 8 False)\<lparr>li_finish := True\<rparr>]"

abbreviation disk_between :: live_disk where
  "disk_between \<equiv> live_sessions sample_hls_host no_cipher sample_sessions empty_disk"

lemmas watch_eval = sample_sessions_def last_session_def loop_eval tick_eval current_manifest_def sample_turn_def
  sample_fetched fits_def window_end_def

lemma sample_watched:
  "watch_sessions sample_hls_host no_cipher sample_source cast_segment 5 5 sample_sessions empty_disk = Some 8"
  by (simp add: watch_eval)

lemma sample_watched_last:
  "watch_loop sample_hls_host no_cipher sample_source cast_segment 5 8 (Some (sample_window 6 8 False)) last_session
     (read_live_checkpoint disk_between) disk_between = Some 8"
  by (simp add: watch_eval)

lemma sample_finished:
  "\<exists>parts n d. stage_hls_live_stream sample_hls_host no_cipher (sample_window 6 8 False) last_session disk_between =
     (Finished parts n, d)"
  by (simp add: watch_eval)

theorem live_recording_exact_witness:
  "\<exists>parts n d. stage_hls_live_stream sample_hls_host no_cipher (sample_window 6 8 False) last_session disk_between =
     (Finished parts n, d)
   \<and> parts = enumerate 0 (map (content no_cipher sample_source) (live_units None (map cast_segment [5..<8])))"
  using sample_finished live_recording_exact [OF sample_broadcast sample_watched refl sample_watched_last] by blast

lemma sample_download:
  "\<exists>downloaded k. stage_hls_manifest_track no_cipher sample_source (sample_window 5 8 True) = Inr (downloaded, k)"
  by (simp add: stage_hls_manifest_track_def tick_eval)

lemma sample_whole:
  "hls_segments (sample_window 5 8 True) = map cast_segment [5..<8]"
  "maps_throughout (hls_segments (sample_window 5 8 True))"
  by (simp_all add: sample_window_def maps_throughout_def cast_segment_def)

theorem live_recording_equals_download_witness:
  "\<exists>parts n d downloaded k.
     stage_hls_live_stream sample_hls_host no_cipher (sample_window 6 8 False) last_session disk_between = (Finished parts n, d)
   \<and> stage_hls_manifest_track no_cipher sample_source (sample_window 5 8 True) = Inr (downloaded, k)
   \<and> assemble_ordered_parts parts = assemble_ordered_parts downloaded \<and> is_ok (assemble_ordered_parts parts)"
proof -
  obtain parts n d where r: "stage_hls_live_stream sample_hls_host no_cipher (sample_window 6 8 False) last_session
      disk_between = (Finished parts n, d)"
    using sample_finished by blast
  obtain downloaded k where w: "stage_hls_manifest_track no_cipher sample_source (sample_window 5 8 True) = Inr (downloaded, k)"
    using sample_download by blast
  from live_recording_equals_download [OF sample_broadcast sample_watched refl sample_watched_last r sample_whole honest_refl w]
  show ?thesis using r w by blast
qed

text \<open>An encrypted playlist of ranges of one resource, with a discontinuity.\<close>

definition range_entries :: "hls_entry list" where
  "range_entries =
     [\<lparr>en_discontinuity = False, en_map = Some (lit ''init.mp4'', Some \<lparr>hb_length = 720, hb_offset = Some 0\<rparr>),
       en_key = Some (Some (lit ''key.bin'', Some (lit ''0x01''))),
       en_range = Some \<lparr>hb_length = 1000, hb_offset = Some 720\<rparr>, en_duration = lit ''5.5'', en_uri = lit ''media.mp4''\<rparr>,
      \<lparr>en_discontinuity = False, en_map = None, en_key = None,
       en_range = Some \<lparr>hb_length = 900, hb_offset = None\<rparr>, en_duration = lit ''6.0'', en_uri = lit ''media.mp4''\<rparr>,
      \<lparr>en_discontinuity = True, en_map = None, en_key = Some None, en_range = None, en_duration = lit ''6'',
       en_uri = lit ''ad.ts''\<rparr>]"

theorem hls_media_playlist_roundtrip_witness:
  "\<exists>m. parse_hls sample_hls_host (lit ''u'') (media_playlist 6 42 range_entries True) = Inr m
     \<and> map hs_byte_range (hls_segments m) =
         [Some \<lparr>hb_length = 1000, hb_offset = Some 720\<rparr>, Some \<lparr>hb_length = 900, hb_offset = Some 1720\<rparr>, None]
     \<and> map hs_sequence (hls_segments m) = [42, 43, 44]"
proof -
  have "parse_url sample_hls_host (lit ''u'') = Some (lit ''u'')" by (simp add: sample_hls_host_def)
  moreover have "list_all entry_ok range_entries"
    by (simp add: range_entries_def entry_ok_def uri_ok_def range_ok_def bare_def u64_limit_def lit_simps)
  moreover have "ranges_fit None range_entries"
    by (simp add: range_entries_def entry_range_def range_end_def u64_limit_def)
  ultimately have "parse_hls sample_hls_host (lit ''u'') (media_playlist 6 42 range_entries True) =
    Inr \<lparr>hls_kind = Media, hls_variants = [], hls_renditions = [],
         hls_segments = playlist_segments sample_hls_host (lit ''u'') 42 None None None range_entries, hls_media_sequence = 42,
         hls_target_duration = Some 6, hls_end_list = True\<rparr>"
    by (rule hls_media_playlist_roundtrip) (simp_all add: range_entries_def u64_limit_def)
  then show ?thesis by (simp add: range_entries_def entry_range_def range_end_def)
qed

end
