(* ===== verification/Dash.thy ===== *)
theory Dash
  imports Hls
begin

text \<open>
  \<open>crates/nova-stream-core/src/dash.rs\<close>: reading a DASH manifest, choosing a representation, planning its transfers
  and refreshing a live one.

  The XML reader is a third-party crate and a parameter: a body gives its events, and the error that ended them if
  there was one; names and attribute values are the raw bytes. Url::parse and Url::join are those of \<open>hls_host\<close>;
  floating-point numbers, in which durations are summed up, are the fields of \<open>f64_ops\<close>.
\<close>

subsection \<open>Manifests\<close>

record dash_timeline_entry =
  te_start_time :: "nat option"
  te_duration :: nat
  te_repeat :: int

record dash_template =
  dt_timescale :: "nat option"
  dt_duration :: "nat option"
  dt_start_number :: "nat option"
  dt_media :: "str option"
  dt_initialization :: "str option"
  dt_timeline :: "dash_timeline_entry list"

record dash_representation =
  dr_id :: "str option"
  dr_bandwidth :: "nat option"
  dr_width :: "nat option"
  dr_height :: "nat option"
  dr_frame_rate :: "str option"
  dr_codecs :: "str option"
  dr_mime_type :: "str option"
  dr_base_url :: "str option"
  dr_template :: "dash_template option"

record dash_adaptation =
  da_id :: "str option"
  da_content_type :: "str option"
  da_mime_type :: "str option"
  da_language :: "str option"
  da_codecs :: "str option"
  da_base_url :: "str option"
  da_template :: "dash_template option"
  da_representations :: "dash_representation list"

record dash_period =
  dp_id :: "str option"
  dp_start :: "str option"
  dp_duration :: "str option"
  dp_base_url :: "str option"
  dp_template :: "dash_template option"
  dp_adaptations :: "dash_adaptation list"

record dash_manifest =
  dm_is_dynamic :: bool
  dm_minimum_update_period :: "str option"
  dm_media_presentation_duration :: "str option"
  dm_base_url :: "str option"
  dm_template :: "dash_template option"
  dm_periods :: "dash_period list"

datatype DashError = DashEmptyManifest | DashXml str | MissingMpd

datatype BaseUrlTarget = ManifestUrl | PeriodUrl | AdaptationUrl | RepresentationUrl

datatype xml_event =
    XmlStart str "(str \<times> str) list"
  | XmlEmpty str "(str \<times> str) list"
  | XmlText str
  | XmlEnd str
  | XmlOther

subsection \<open>Elements\<close>

definition local_name :: "str \<Rightarrow> str" where
  "local_name name = last (split_byte 0x3a name)"

fun xml_attribute :: "(str \<times> str) list \<Rightarrow> string \<Rightarrow> str option" where
  "xml_attribute [] key = None"
| "xml_attribute ((k, v) # attrs) key =
     (if local_name k = lit key then Some (from_utf8_lossy v) else xml_attribute attrs key)"

definition number_attribute :: "nat \<Rightarrow> (str \<times> str) list \<Rightarrow> string \<Rightarrow> nat option" where
  "number_attribute limit attrs key = Option.bind (xml_attribute attrs key) (parse_unsigned limit)"

definition apply_mpd_attributes :: "(str \<times> str) list \<Rightarrow> dash_manifest \<Rightarrow> dash_manifest" where
  "apply_mpd_attributes attrs m =
     m\<lparr>dm_is_dynamic := (case xml_attribute attrs ''type'' of
          None \<Rightarrow> False | Some v \<Rightarrow> eq_ignore_ascii_case v (lit ''dynamic'')),
       dm_minimum_update_period := xml_attribute attrs ''minimumUpdatePeriod'',
       dm_media_presentation_duration := xml_attribute attrs ''mediaPresentationDuration''\<rparr>"

definition parse_period :: "(str \<times> str) list \<Rightarrow> dash_period" where
  "parse_period attrs =
     \<lparr>dp_id = xml_attribute attrs ''id'', dp_start = xml_attribute attrs ''start'',
      dp_duration = xml_attribute attrs ''duration'', dp_base_url = None, dp_template = None, dp_adaptations = []\<rparr>"

definition parse_adaptation :: "(str \<times> str) list \<Rightarrow> dash_adaptation" where
  "parse_adaptation attrs =
     \<lparr>da_id = xml_attribute attrs ''id'', da_content_type = xml_attribute attrs ''contentType'',
      da_mime_type = xml_attribute attrs ''mimeType'', da_language = xml_attribute attrs ''lang'',
      da_codecs = xml_attribute attrs ''codecs'', da_base_url = None, da_template = None, da_representations = []\<rparr>"

definition parse_representation :: "(str \<times> str) list \<Rightarrow> dash_representation" where
  "parse_representation attrs =
     \<lparr>dr_id = xml_attribute attrs ''id'', dr_bandwidth = number_attribute u64_limit attrs ''bandwidth'',
      dr_width = number_attribute u32_limit attrs ''width'', dr_height = number_attribute u32_limit attrs ''height'',
      dr_frame_rate = xml_attribute attrs ''frameRate'', dr_codecs = xml_attribute attrs ''codecs'',
      dr_mime_type = xml_attribute attrs ''mimeType'', dr_base_url = None, dr_template = None\<rparr>"

definition parse_segment_template :: "(str \<times> str) list \<Rightarrow> dash_template" where
  "parse_segment_template attrs =
     \<lparr>dt_timescale = number_attribute u64_limit attrs ''timescale'',
      dt_duration = number_attribute u64_limit attrs ''duration'',
      dt_start_number = number_attribute u64_limit attrs ''startNumber'',
      dt_media = xml_attribute attrs ''media'', dt_initialization = xml_attribute attrs ''initialization'',
      dt_timeline = []\<rparr>"

definition parse_timeline_entry :: "(str \<times> str) list \<Rightarrow> dash_timeline_entry option" where
  "parse_timeline_entry attrs =
     Option.bind (number_attribute u64_limit attrs ''d'') (\<lambda>d.
     Some \<lparr>te_start_time = number_attribute u64_limit attrs ''t'', te_duration = d,
           te_repeat = (case Option.bind (xml_attribute attrs ''r'') parse_i64 of None \<Rightarrow> 0 | Some r \<Rightarrow> r)\<rparr>)"

subsection \<open>Reading the events\<close>

record dash_state =
  ds_manifest :: dash_manifest
  ds_saw_mpd :: bool
  ds_period :: "dash_period option"
  ds_adaptation :: "dash_adaptation option"
  ds_representation :: "dash_representation option"
  ds_target :: "BaseUrlTarget option"
  ds_inside_timeline :: bool

definition dash_start :: dash_state where
  "dash_start = \<lparr>ds_manifest = \<lparr>dm_is_dynamic = False, dm_minimum_update_period = None,
       dm_media_presentation_duration = None, dm_base_url = None, dm_template = None, dm_periods = []\<rparr>,
     ds_saw_mpd = False, ds_period = None, ds_adaptation = None, ds_representation = None, ds_target = None,
     ds_inside_timeline = False\<rparr>"

definition set_active_segment_template :: "dash_template \<Rightarrow> dash_state \<Rightarrow> dash_state" where
  "set_active_segment_template t st =
     (case ds_representation st of
        Some r \<Rightarrow> st\<lparr>ds_representation := Some (r\<lparr>dr_template := Some t\<rparr>)\<rparr>
      | None \<Rightarrow> case ds_adaptation st of
        Some a \<Rightarrow> st\<lparr>ds_adaptation := Some (a\<lparr>da_template := Some t\<rparr>)\<rparr>
      | None \<Rightarrow> case ds_period st of
        Some p \<Rightarrow> st\<lparr>ds_period := Some (p\<lparr>dp_template := Some t\<rparr>)\<rparr>
      | None \<Rightarrow> st\<lparr>ds_manifest := (ds_manifest st)\<lparr>dm_template := Some t\<rparr>\<rparr>)"

definition push_entry :: "dash_timeline_entry \<Rightarrow> dash_template \<Rightarrow> dash_template" where
  "push_entry e t = t\<lparr>dt_timeline := dt_timeline t @ [e]\<rparr>"

text \<open>Pushing onto the template that \<open>active_segment_template_mut\<close> finds.\<close>

definition push_timeline :: "dash_timeline_entry \<Rightarrow> dash_state \<Rightarrow> dash_state" where
  "push_timeline e st =
     (case Option.bind (ds_representation st) dr_template of
        Some t \<Rightarrow> st\<lparr>ds_representation := map_option (\<lambda>r. r\<lparr>dr_template := Some (push_entry e t)\<rparr>) (ds_representation st)\<rparr>
      | None \<Rightarrow> case Option.bind (ds_adaptation st) da_template of
        Some t \<Rightarrow> st\<lparr>ds_adaptation := map_option (\<lambda>a. a\<lparr>da_template := Some (push_entry e t)\<rparr>) (ds_adaptation st)\<rparr>
      | None \<Rightarrow> case Option.bind (ds_period st) dp_template of
        Some t \<Rightarrow> st\<lparr>ds_period := map_option (\<lambda>p. p\<lparr>dp_template := Some (push_entry e t)\<rparr>) (ds_period st)\<rparr>
      | None \<Rightarrow>
        st\<lparr>ds_manifest := (ds_manifest st)\<lparr>dm_template := map_option (push_entry e) (dm_template (ds_manifest st))\<rparr>\<rparr>)"

definition timeline_element :: "(str \<times> str) list \<Rightarrow> dash_state \<Rightarrow> dash_state" where
  "timeline_element attrs st = (case parse_timeline_entry attrs of None \<Rightarrow> st | Some e \<Rightarrow> push_timeline e st)"

definition mpd_element :: "(str \<times> str) list \<Rightarrow> dash_state \<Rightarrow> dash_state" where
  "mpd_element attrs st = st\<lparr>ds_saw_mpd := True, ds_manifest := apply_mpd_attributes attrs (ds_manifest st)\<rparr>"

definition start_element :: "str \<Rightarrow> (str \<times> str) list \<Rightarrow> dash_state \<Rightarrow> dash_state" where
  "start_element name attrs st =
     (if name = lit ''MPD'' then mpd_element attrs st
      else if name = lit ''Period'' then st\<lparr>ds_period := Some (parse_period attrs)\<rparr>
      else if name = lit ''AdaptationSet'' then st\<lparr>ds_adaptation := Some (parse_adaptation attrs)\<rparr>
      else if name = lit ''Representation'' then st\<lparr>ds_representation := Some (parse_representation attrs)\<rparr>
      else if name = lit ''SegmentTemplate'' then set_active_segment_template (parse_segment_template attrs) st
      else if name = lit ''SegmentTimeline'' then st\<lparr>ds_inside_timeline := True\<rparr>
      else if name = lit ''S'' \<and> ds_inside_timeline st then timeline_element attrs st
      else if name = lit ''BaseURL'' then
        st\<lparr>ds_target := Some (if ds_representation st \<noteq> None then RepresentationUrl
                             else if ds_adaptation st \<noteq> None then AdaptationUrl
                             else if ds_period st \<noteq> None then PeriodUrl else ManifestUrl)\<rparr>
      else st)"

definition push_representation :: "dash_representation \<Rightarrow> dash_state \<Rightarrow> dash_state" where
  "push_representation r st =
     st\<lparr>ds_adaptation := map_option (\<lambda>a. a\<lparr>da_representations := da_representations a @ [r]\<rparr>) (ds_adaptation st)\<rparr>"

definition push_adaptation :: "dash_adaptation \<Rightarrow> dash_state \<Rightarrow> dash_state" where
  "push_adaptation a st =
     st\<lparr>ds_period := map_option (\<lambda>p. p\<lparr>dp_adaptations := dp_adaptations p @ [a]\<rparr>) (ds_period st)\<rparr>"

definition push_period :: "dash_period \<Rightarrow> dash_state \<Rightarrow> dash_state" where
  "push_period p st =
     st\<lparr>ds_manifest := (ds_manifest st)\<lparr>dm_periods := dm_periods (ds_manifest st) @ [p]\<rparr>\<rparr>"

definition empty_element :: "str \<Rightarrow> (str \<times> str) list \<Rightarrow> dash_state \<Rightarrow> dash_state" where
  "empty_element name attrs st =
     (if name = lit ''SegmentTemplate'' then set_active_segment_template (parse_segment_template attrs) st
      else if name = lit ''Representation'' then push_representation (parse_representation attrs) st
      else if name = lit ''S'' \<and> ds_inside_timeline st then timeline_element attrs st
      else if name = lit ''MPD'' then mpd_element attrs st
      else if name = lit ''Period'' then push_period (parse_period attrs) st
      else if name = lit ''AdaptationSet'' then push_adaptation (parse_adaptation attrs) st
      else st)"

definition base_url_text :: "str \<Rightarrow> dash_state \<Rightarrow> dash_state" where
  "base_url_text raw st =
     (let value = trim (from_utf8_lossy raw) in
      if value = [] then st
      else case ds_target st of
        None \<Rightarrow> st
      | Some RepresentationUrl \<Rightarrow>
          st\<lparr>ds_representation := map_option (\<lambda>r. r\<lparr>dr_base_url := Some value\<rparr>) (ds_representation st)\<rparr>
      | Some PeriodUrl \<Rightarrow> st\<lparr>ds_period := map_option (\<lambda>p. p\<lparr>dp_base_url := Some value\<rparr>) (ds_period st)\<rparr>
      | Some AdaptationUrl \<Rightarrow>
          st\<lparr>ds_adaptation := map_option (\<lambda>a. a\<lparr>da_base_url := Some value\<rparr>) (ds_adaptation st)\<rparr>
      | Some ManifestUrl \<Rightarrow> st\<lparr>ds_manifest := (ds_manifest st)\<lparr>dm_base_url := Some value\<rparr>\<rparr>)"

text \<open>An element that ends is taken out of the state, and kept if there is one around it.\<close>

definition end_element :: "str \<Rightarrow> dash_state \<Rightarrow> dash_state" where
  "end_element name st =
     (if name = lit ''BaseURL'' then st\<lparr>ds_target := None\<rparr>
      else if name = lit ''SegmentTimeline'' then st\<lparr>ds_inside_timeline := False\<rparr>
      else if name = lit ''Representation'' then
        (case ds_representation st of
           None \<Rightarrow> st
         | Some r \<Rightarrow> push_representation r (st\<lparr>ds_representation := None\<rparr>))
      else if name = lit ''AdaptationSet'' then
        (case ds_adaptation st of
           None \<Rightarrow> st
         | Some a \<Rightarrow> push_adaptation a (st\<lparr>ds_adaptation := None\<rparr>))
      else if name = lit ''Period'' then
        (case ds_period st of
           None \<Rightarrow> st
         | Some p \<Rightarrow> push_period p (st\<lparr>ds_period := None\<rparr>))
      else st)"

fun dash_event :: "xml_event \<Rightarrow> dash_state \<Rightarrow> dash_state" where
  "dash_event (XmlStart name attrs) st = start_element (local_name name) attrs st"
| "dash_event (XmlEmpty name attrs) st = empty_element (local_name name) attrs st"
| "dash_event (XmlText raw) st = base_url_text raw st"
| "dash_event (XmlEnd name) st = end_element (local_name name) st"
| "dash_event XmlOther st = st"

definition parse_dash :: "(str \<Rightarrow> xml_event list \<times> str option) \<Rightarrow> str \<Rightarrow> (DashError, dash_manifest) result" where
  "parse_dash xml body =
     (if trim body = [] then Inl DashEmptyManifest
      else case xml body of
        (events, Some e) \<Rightarrow> Inl (DashXml e)
      | (events, None) \<Rightarrow>
          let st = fold dash_event events dash_start in
          if \<not> ds_saw_mpd st then Inl MissingMpd else Inr (ds_manifest st))"

subsection \<open>Durations\<close>

record 'f f64_ops =
  f64_of_nat :: "nat \<Rightarrow> 'f"
  f64_add :: "'f \<Rightarrow> 'f \<Rightarrow> 'f"
  f64_mul :: "'f \<Rightarrow> 'f \<Rightarrow> 'f"
  f64_less :: "'f \<Rightarrow> 'f \<Rightarrow> bool"
  f64_is_finite :: "'f \<Rightarrow> bool"
  f64_round_u64 :: "'f \<Rightarrow> nat"

text \<open>\<open>number\<close> is the number read so far, \<open>total\<close> the seconds.\<close>

fun duration_loop :: "('u, 'f) hls_host \<Rightarrow> 'f f64_ops \<Rightarrow> str \<Rightarrow> 'f \<Rightarrow> str \<Rightarrow> (str \<times> 'f) option" where
  "duration_loop h fl number seconds [] = Some (number, seconds)"
| "duration_loop h fl number seconds (c # s) =
     (if is_ascii_digit c \<or> c = 0x2e then duration_loop h fl (number @ [c]) seconds s
      else Option.bind (parse_f64 h number) (\<lambda>value.
        if c = 0x48 then duration_loop h fl [] (f64_add fl seconds (f64_mul fl value (f64_of_nat fl 3600))) s
        else if c = 0x4d then duration_loop h fl [] (f64_add fl seconds (f64_mul fl value (f64_of_nat fl 60))) s
        else if c = 0x53 then duration_loop h fl [] (f64_add fl seconds value) s
        else None))"

definition parse_iso8601_duration_millis :: "('u, 'f) hls_host \<Rightarrow> 'f f64_ops \<Rightarrow> str \<Rightarrow> nat option" where
  "parse_iso8601_duration_millis h fl value =
     Option.bind (strip_prefix (lit ''PT'') value) (\<lambda>rest.
     if rest = [] then None
     else Option.bind (duration_loop h fl [] (f64_of_nat fl 0) rest) (\<lambda>(number, seconds).
       if number \<noteq> [] \<or> \<not> f64_is_finite fl seconds \<or> f64_less fl seconds (f64_of_nat fl 0) then None
       else let millis = f64_mul fl seconds (f64_of_nat fl 1000) in
         if f64_less fl (f64_of_nat fl (u64_limit - 1)) millis then None else Some (f64_round_u64 fl millis)))"

type_synonym duration_reader = "str \<Rightarrow> nat option"

definition dash_period_duration_millis :: "duration_reader \<Rightarrow> dash_manifest \<Rightarrow> nat \<Rightarrow> nat option" where
  "dash_period_duration_millis dur m i =
     Option.bind (get_opt (dm_periods m) i) (\<lambda>period.
     case Option.bind (dp_duration period) dur of
       Some d \<Rightarrow> Some d
     | None \<Rightarrow>
         Option.bind (case Option.bind (dp_start period) dur of
             Some n \<Rightarrow> Some n | None \<Rightarrow> if i = 0 then Some 0 else None) (\<lambda>start.
         Option.bind (case Option.bind (get_opt (dm_periods m) (i + 1)) (\<lambda>q. Option.bind (dp_start q) dur) of
             Some n \<Rightarrow> Some n
           | None \<Rightarrow> if i + 1 = length (dm_periods m)
                     then Option.bind (dm_media_presentation_duration m) dur else None) (\<lambda>stop.
         checked_sub stop start)))"

subsection \<open>Planning\<close>

definition the_default :: "'a \<Rightarrow> 'a option \<Rightarrow> 'a" where
  "the_default d x = (case x of None \<Rightarrow> d | Some v \<Rightarrow> v)"

definition MAX_DASH_TRANSFER_UNITS :: nat where "MAX_DASH_TRANSFER_UNITS = 50000"

datatype DashTrackKind = VideoTrack | AudioTrack | OtherTrack

record dash_unit =
  du_order :: nat
  du_url :: str
  du_initialization :: bool
  du_number :: "nat option"
  du_time :: "nat option"

record dash_plan =
  dpl_representation_id :: "str option"
  dpl_track_kind :: DashTrackKind
  dpl_bandwidth :: "nat option"
  dpl_units :: "dash_unit list"

datatype DashPlanError =
    DynamicManifest | TooManyTransferUnits | InvalidTimelineRepeat | MissingAdaptation | MissingRepresentation
  | InvalidManifestUrl | MissingMediaTemplate | MissingSegmentTiming | MissingPresentationDuration
  | InvalidPresentationDuration str | MissingRepresentationId | MissingBandwidth | UnsupportedTemplateToken str

definition select_best_dash_representation :: "dash_adaptation \<Rightarrow> dash_representation option" where
  "select_best_dash_representation a =
     max_by_key (\<lambda>r. (the_default 0 (dr_width r) * the_default 0 (dr_height r), the_default 0 (dr_bandwidth r)))
       None (da_representations a)"

definition template_or :: "'a option \<Rightarrow> 'a option \<Rightarrow> 'a option" where
  "template_or x y = (case x of None \<Rightarrow> y | Some v \<Rightarrow> Some v)"

definition overlay_template :: "dash_template \<Rightarrow> dash_template \<Rightarrow> dash_template" where
  "overlay_template t e =
     \<lparr>dt_timescale = template_or (dt_timescale t) (dt_timescale e),
      dt_duration = template_or (dt_duration t) (dt_duration e),
      dt_start_number = template_or (dt_start_number t) (dt_start_number e),
      dt_media = template_or (dt_media t) (dt_media e),
      dt_initialization = template_or (dt_initialization t) (dt_initialization e),
      dt_timeline = (if dt_timeline t \<noteq> [] then dt_timeline t else dt_timeline e)\<rparr>"

definition empty_template :: dash_template where
  "empty_template = \<lparr>dt_timescale = None, dt_duration = None, dt_start_number = None, dt_media = None,
     dt_initialization = None, dt_timeline = []\<rparr>"

definition effective_segment_template ::
  "dash_manifest \<Rightarrow> dash_period \<Rightarrow> dash_adaptation \<Rightarrow> dash_representation \<Rightarrow> dash_template option" where
  "effective_segment_template m p a r =
     (let ts = List.map_filter id [dm_template m, dp_template p, da_template a, dr_template r] in
      if ts = [] then None else Some (fold overlay_template ts empty_template))"

definition dash_track_kind :: "dash_adaptation \<Rightarrow> dash_representation \<Rightarrow> DashTrackKind" where
  "dash_track_kind a r =
     (let kind = map to_ascii_lowercase (the_default []
            (template_or (da_content_type a) (template_or (da_mime_type a) (dr_mime_type r)))) in
      if starts_with (lit ''video'') kind then VideoTrack
      else if starts_with (lit ''audio'') kind then AudioTrack
      else OtherTrack)"

definition zero_padded :: "nat \<Rightarrow> nat \<Rightarrow> str" where
  "zero_padded width n = replicate (width - length (nat_to_dec n)) 0x30 @ nat_to_dec n"

definition padded_width :: "str \<Rightarrow> nat option" where
  "padded_width token =
     Option.bind (strip_prefix (lit ''Number%0'') token) (\<lambda>value.
     if value \<noteq> [] \<and> last value = 0x64 then parse_unsigned u64_limit (butlast value) else None)"

definition render_token ::
  "dash_representation \<Rightarrow> nat option \<Rightarrow> nat option \<Rightarrow> str \<Rightarrow> (DashPlanError, str) result" where
  "render_token r number time token =
     (if token = lit ''RepresentationID'' then ok_or MissingRepresentationId (dr_id r)
      else if token = lit ''Bandwidth'' then ok_or MissingBandwidth (map_option nat_to_dec (dr_bandwidth r))
      else if token = lit ''Number'' then ok_or (UnsupportedTemplateToken token) (map_option nat_to_dec number)
      else if token = lit ''Time'' then ok_or (UnsupportedTemplateToken token) (map_option nat_to_dec time)
      else if starts_with (lit ''Number%0'') token \<and> ends_with (lit ''d'') token then
        rbind (ok_or (UnsupportedTemplateToken token) (padded_width token)) (\<lambda>width.
        ok_or (UnsupportedTemplateToken token) (map_option (zero_padded width) number))
      else Inl (UnsupportedTemplateToken token))"

lemma split_once_shorter: "split_once c s = Some (a, b) \<Longrightarrow> length b < length s"
proof -
  assume "split_once c s = Some (a, b)"
  then have "a @ c # b = s" by (rule split_once_SomeD(3))
  then show ?thesis by (metis add_Suc_right length_Cons length_append less_add_Suc2)
qed

function render_loop ::
  "dash_representation \<Rightarrow> nat option \<Rightarrow> nat option \<Rightarrow> str \<Rightarrow> str \<Rightarrow> (DashPlanError, str) result" where
  "render_loop r number time out rest =
     (case split_once 0x24 rest of
        None \<Rightarrow> Inr (out @ rest)
      | Some (before, rest1) \<Rightarrow>
          if rest1 \<noteq> [] \<and> hd rest1 = 0x24 then render_loop r number time (out @ before @ [0x24]) (tl rest1)
          else case split_once 0x24 rest1 of
            None \<Rightarrow> Inl (UnsupportedTemplateToken rest1)
          | Some (token, rest2) \<Rightarrow>
              rbind (render_token r number time token) (\<lambda>text.
              render_loop r number time (out @ before @ text) rest2))"
  by pat_completeness auto
termination
  by (relation "measure (\<lambda>(r, number, time, out, rest). length rest)")
    (auto dest!: split_once_shorter)

declare render_loop.simps [simp del]

definition render_dash_template ::
  "str \<Rightarrow> dash_representation \<Rightarrow> nat option \<Rightarrow> nat option \<Rightarrow> (DashPlanError, str) result" where
  "render_dash_template template r number time = render_loop r number time [] template"

text \<open>Rendering a template and joining it to the base, which every unit does.\<close>

definition unit_url ::
  "('u, 'f) hls_host \<Rightarrow> 'u \<Rightarrow> dash_representation \<Rightarrow> str \<Rightarrow> nat option \<Rightarrow> nat option \<Rightarrow> (DashPlanError, str) result" where
  "unit_url h base r template number time =
     rbind (render_dash_template template r number time) (\<lambda>rendered.
     rbind (ok_or InvalidManifestUrl (url_join h base rendered)) (\<lambda>url. Inr (url_string h url)))"

definition join_bases :: "('u, 'f) hls_host \<Rightarrow> 'u \<Rightarrow> str list \<Rightarrow> (DashPlanError, 'u) result" where
  "join_bases h base urls =
     fold (\<lambda>u acc. rbind acc (\<lambda>b. ok_or InvalidManifestUrl (url_join h b u))) urls (Inr base)"

text \<open>
  The inner loop of a timeline entry: \<open>n\<close> units from \<open>number\<close> and \<open>time\<close> on, with \<open>count\<close> made before. It gives
  the units and the three counters after them.
\<close>

fun repeat_units ::
  "(nat \<Rightarrow> nat \<Rightarrow> (DashPlanError, str) result) \<Rightarrow> nat \<Rightarrow> nat \<Rightarrow> nat \<Rightarrow> nat \<Rightarrow> nat \<Rightarrow>
   (DashPlanError, dash_unit list \<times> nat \<times> nat \<times> nat) result" where
  "repeat_units url d 0 count number time = Inr ([], count, number, time)"
| "repeat_units url d (Suc n) count number time =
     (if MAX_DASH_TRANSFER_UNITS \<le> count then Inl TooManyTransferUnits
      else rbind (url number time) (\<lambda>u.
        rbind (repeat_units url d n (count + 1) (saturating_add64 number 1) (saturating_add64 time d)) (\<lambda>(us, after).
        Inr (\<lparr>du_order = count, du_url = u, du_initialization = False, du_number = Some number, du_time = Some time\<rparr> # us,
             after))))"

definition repeat_count ::
  "nat option \<Rightarrow> dash_timeline_entry \<Rightarrow> dash_timeline_entry list \<Rightarrow> nat \<Rightarrow> (DashPlanError, nat) result" where
  "repeat_count presentation_units e rest time =
     (if 0 \<le> te_repeat e then Inr (nat (te_repeat e))
      else if te_repeat e = - 1 then
        rbind (ok_or InvalidTimelineRepeat
                (template_or (case rest of [] \<Rightarrow> None | next_entry # _ \<Rightarrow> te_start_time next_entry) presentation_units)) (\<lambda>boundary.
        if boundary \<le> time then Inl InvalidTimelineRepeat
        else Inr ((boundary - time - 1) div te_duration e))
      else Inl InvalidTimelineRepeat)"

fun timeline_units ::
  "(nat \<Rightarrow> nat \<Rightarrow> (DashPlanError, str) result) \<Rightarrow> nat option \<Rightarrow> nat \<Rightarrow> nat \<Rightarrow> nat \<Rightarrow> dash_timeline_entry list \<Rightarrow>
   (DashPlanError, dash_unit list) result" where
  "timeline_units url presentation_units count number time [] = Inr []"
| "timeline_units url presentation_units count number time (e # es) =
     (if te_duration e = 0 then Inl MissingSegmentTiming
      else let time0 = the_default time (te_start_time e) in
        rbind (repeat_count presentation_units e es time0) (\<lambda>n.
        rbind (repeat_units url (te_duration e) (n + 1) count number time0) (\<lambda>(us, count', number', time').
        rbind (timeline_units url presentation_units count' number' time' es) (\<lambda>vs.
        Inr (us @ vs)))))"

definition append_timeline_units ::
  "('u, 'f) hls_host \<Rightarrow> 'u \<Rightarrow> nat option \<Rightarrow> dash_template \<Rightarrow> str \<Rightarrow> dash_representation \<Rightarrow> nat \<Rightarrow> nat \<Rightarrow>
   (DashPlanError, dash_unit list) result" where
  "append_timeline_units h base period_millis t media r start_number count =
     (let timescale = the_default 1 (dt_timescale t);
          presentation_units = Option.bind period_millis (\<lambda>millis.
            let v = millis * timescale div 1000 in if v < u64_limit then Some v else None) in
      timeline_units (\<lambda>number time. unit_url h base r media (Some number) (Some time)) presentation_units count
        start_number 0 (dt_timeline t))"

text \<open>The number of segments of a fixed duration, in \<open>u128\<close> arithmetic.\<close>

definition segment_count :: "nat \<Rightarrow> nat \<Rightarrow> nat \<Rightarrow> nat" where
  "segment_count total_millis timescale segment_duration =
     (let denominator = segment_duration * 1000 in
      min (total_millis * timescale + (denominator - 1)) (2 ^ 128 - 1) div denominator)"

fun numbered_units ::
  "(nat \<Rightarrow> (DashPlanError, str) result) \<Rightarrow> nat \<Rightarrow> nat \<Rightarrow> nat list \<Rightarrow> (DashPlanError, dash_unit list) result" where
  "numbered_units url start_number order [] = Inr []"
| "numbered_units url start_number order (offset # offsets) =
     (let number = saturating_add64 start_number offset in
      rbind (url number) (\<lambda>u.
      rbind (numbered_units url start_number (order + 1) offsets) (\<lambda>us.
      Inr (\<lparr>du_order = order, du_url = u, du_initialization = False, du_number = Some number, du_time = None\<rparr> # us))))"

definition fixed_units ::
  "('u, 'f) hls_host \<Rightarrow> 'u \<Rightarrow> bool \<Rightarrow> nat option \<Rightarrow> dash_template \<Rightarrow> nat \<Rightarrow> str \<Rightarrow> dash_representation \<Rightarrow> nat \<Rightarrow> nat \<Rightarrow>
   (DashPlanError, dash_unit list) result" where
  "fixed_units h base is_dynamic period_millis t timescale media r start_number count =
     (if is_dynamic then Inl DynamicManifest
      else rbind (ok_or MissingSegmentTiming (dt_duration t)) (\<lambda>segment_duration.
        if segment_duration = 0 then Inl MissingSegmentTiming
        else rbind (ok_or MissingPresentationDuration period_millis) (\<lambda>total_millis.
          let n = segment_count total_millis timescale segment_duration in
          if MAX_DASH_TRANSFER_UNITS < n then Inl TooManyTransferUnits
          else if MAX_DASH_TRANSFER_UNITS < count \<or> MAX_DASH_TRANSFER_UNITS - count < n then Inl TooManyTransferUnits
          else numbered_units (\<lambda>number. unit_url h base r media (Some number) None) start_number count [0..<n])))"

definition initialization_units ::
  "('u, 'f) hls_host \<Rightarrow> 'u \<Rightarrow> dash_representation \<Rightarrow> str option \<Rightarrow> (DashPlanError, dash_unit list) result" where
  "initialization_units h base r initialization =
     (case initialization of
        None \<Rightarrow> Inr []
      | Some i \<Rightarrow> rbind (unit_url h base r i None None) (\<lambda>u.
          Inr [\<lparr>du_order = 0, du_url = u, du_initialization = True, du_number = None, du_time = None\<rparr>]))"

definition template_units ::
  "('u, 'f) hls_host \<Rightarrow> 'u \<Rightarrow> bool \<Rightarrow> nat option \<Rightarrow> dash_template \<Rightarrow> dash_representation \<Rightarrow>
   (DashPlanError, dash_unit list) result" where
  "template_units h base is_dynamic period_millis t r =
     rbind (ok_or MissingMediaTemplate (dt_media t)) (\<lambda>media.
     let timescale = the_default 1 (dt_timescale t) in
     if timescale = 0 then Inl MissingSegmentTiming
     else
       let start_number = the_default 1 (dt_start_number t) in
       rbind (initialization_units h base r (dt_initialization t)) (\<lambda>init.
       rbind (if dt_timeline t \<noteq> []
              then append_timeline_units h base period_millis t media r start_number (length init)
              else fixed_units h base is_dynamic period_millis t timescale media r start_number (length init)) (\<lambda>us.
       Inr (init @ us))))"

definition build_dash_representation_plan ::
  "('u, 'f) hls_host \<Rightarrow> duration_reader \<Rightarrow> dash_manifest \<Rightarrow> str \<Rightarrow> nat \<Rightarrow> nat \<Rightarrow> nat \<Rightarrow>
   (DashPlanError, dash_plan) result" where
  "build_dash_representation_plan h dur m manifest_url pi ai ri =
     rbind (ok_or MissingAdaptation (get_opt (dm_periods m) pi)) (\<lambda>p.
     rbind (ok_or MissingAdaptation (get_opt (dp_adaptations p) ai)) (\<lambda>a.
     rbind (ok_or MissingRepresentation (get_opt (da_representations a) ri)) (\<lambda>r.
     rbind (ok_or InvalidManifestUrl (parse_url h manifest_url)) (\<lambda>root.
     rbind (join_bases h root (List.map_filter id [dm_base_url m, dp_base_url p, da_base_url a, dr_base_url r])) (\<lambda>base.
     rbind (case effective_segment_template m p a r of
         None \<Rightarrow>
           if dm_is_dynamic m then Inl DynamicManifest
           else Inr [\<lparr>du_order = 0, du_url = url_string h base, du_initialization = False, du_number = None, du_time = None\<rparr>]
       | Some t \<Rightarrow> template_units h base (dm_is_dynamic m) (dash_period_duration_millis dur m pi) t r) (\<lambda>units.
     Inr \<lparr>dpl_representation_id = dr_id r, dpl_track_kind = dash_track_kind a r, dpl_bandwidth = dr_bandwidth r,
          dpl_units = units\<rparr>))))))"

subsection \<open>Live refreshes\<close>

record dash_cursor =
  dc_initialized :: bool
  dc_last_number :: "nat option"
  dc_last_time :: "nat option"

definition dash_cursor_start :: dash_cursor where
  "dash_cursor_start = \<lparr>dc_initialized = False, dc_last_number = None, dc_last_time = None\<rparr>"

record dash_refresh =
  df_plan :: "dash_plan option"
  df_next_cursor :: dash_cursor
  df_reload_after :: nat

definition dash_unseen :: "dash_cursor \<Rightarrow> dash_unit \<Rightarrow> bool" where
  "dash_unseen c u =
     (if du_initialization u then \<not> dc_initialized c
      else case du_time u of
        Some t \<Rightarrow> (case dc_last_time c of Some l \<Rightarrow> l < t | None \<Rightarrow> True)
      | None \<Rightarrow> (case du_number u of
          Some n \<Rightarrow> (case dc_last_number c of Some l \<Rightarrow> l < n | None \<Rightarrow> True)
        | None \<Rightarrow> False))"

definition max_opt :: "nat option \<Rightarrow> nat option \<Rightarrow> nat option" where
  "max_opt new old = (case new of None \<Rightarrow> old | Some n \<Rightarrow> Some (case old of None \<Rightarrow> n | Some k \<Rightarrow> max k n))"

definition advance_cursor :: "bool \<Rightarrow> dash_unit \<Rightarrow> dash_cursor \<Rightarrow> dash_cursor" where
  "advance_cursor any u c =
     c\<lparr>dc_initialized := dc_initialized c \<or> any, dc_last_number := max_opt (du_number u) (dc_last_number c),
       dc_last_time := max_opt (du_time u) (dc_last_time c)\<rparr>"

definition dash_next_cursor :: "dash_unit list \<Rightarrow> dash_cursor \<Rightarrow> dash_cursor" where
  "dash_next_cursor units c =
     fold (advance_cursor (units \<noteq> [])) (filter (\<lambda>u. \<not> du_initialization u) units) c"

definition build_dash_live_refresh ::
  "('u, 'f) hls_host \<Rightarrow> duration_reader \<Rightarrow> dash_manifest \<Rightarrow> str \<Rightarrow> nat \<Rightarrow> nat \<Rightarrow> nat \<Rightarrow> dash_cursor \<Rightarrow>
   (DashPlanError, dash_refresh) result" where
  "build_dash_live_refresh h dur m manifest_url pi ai ri c =
     (if \<not> dm_is_dynamic m then Inl DynamicManifest
      else rbind (build_dash_representation_plan h dur m manifest_url pi ai ri) (\<lambda>snapshot.
        let selected = filter (dash_unseen c) (dpl_units snapshot) in
        Inr \<lparr>df_plan = (if selected = [] then None else Some (snapshot\<lparr>dpl_units := selected\<rparr>)),
             df_next_cursor = dash_next_cursor (dpl_units snapshot) c,
             df_reload_after = max (the_default 5000 (Option.bind (dm_minimum_update_period m) dur)) 1000\<rparr>))"

end
