(* ===== verification/Dash_Plan.thy ===== *)
theory Dash_Plan
  imports Dash
begin

text \<open>
  What the DASH planner promises: a plan of segments of a fixed duration covers the period and no more, a timeline
  is laid out in order, and a live presentation that is followed through its snapshots gives every segment once.
\<close>

subsection \<open>Base URLs\<close>

text \<open>
  Of a base URL whose text comes in two events, as around an entity reference, only the second part is kept.
\<close>

lemma base_url_last_piece:
  assumes "trim (from_utf8_lossy a) \<noteq> []" "trim (from_utf8_lossy b) \<noteq> []" "ds_target st = Some ManifestUrl"
  shows "dm_base_url (ds_manifest (fold dash_event [XmlText a, XmlOther, XmlText b] st)) = Some (trim (from_utf8_lossy b))"
  using assms by (simp add: base_url_text_def Let_def)

subsection \<open>Templates\<close>

lemma render_literal: "0x24 \<notin> set s \<Longrightarrow> render_loop r number time out s = Inr (out @ s)"
  by (subst render_loop.simps) (simp add: split_once_def)

lemma render_identifier:
  assumes "0x24 \<notin> set before" "0x24 \<notin> set token" "token \<noteq> []"
  shows "render_loop r number time out (before @ 0x24 # token @ 0x24 # rest) =
    rbind (render_token r number time token) (\<lambda>text. render_loop r number time (out @ before @ text) rest)"
proof -
  let ?tail = "token @ 0x24 # rest"
  have "split_once 0x24 (before @ 0x24 # ?tail) = Some (before, ?tail)" "split_once 0x24 ?tail = Some (token, rest)"
    "\<not> (?tail \<noteq> [] \<and> hd ?tail = 0x24)"
    using assms by (simp_all add: split_once_append) (cases token; simp)
  then show ?thesis by (subst render_loop.simps) (simp only: option.case prod.case if_False)
qed

lemma render_dollar:
  "0x24 \<notin> set before \<Longrightarrow>
     render_loop r number time out (before @ 0x24 # 0x24 # rest) = render_loop r number time (out @ before @ [0x24]) rest"
  by (subst render_loop.simps) (simp add: split_once_append)

subsection \<open>Segments of a fixed duration\<close>

definition media_units :: "dash_unit list \<Rightarrow> dash_unit list" where
  "media_units us = filter (\<lambda>u. \<not> du_initialization u) us"

lemma media_units_append [simp]: "media_units (us @ vs) = media_units us @ media_units vs"
  by (simp add: media_units_def)

lemma numbered_units_spec:
  "numbered_units url start_number order offsets = Inr us \<Longrightarrow>
     map du_number us = map (\<lambda>i. Some (saturating_add64 start_number i)) offsets
   \<and> map du_order us = [order..<order + length offsets] \<and> media_units us = us
   \<and> list_all2 (\<lambda>i u. url (saturating_add64 start_number i) = Inr (du_url u)) offsets us"
proof (induction offsets arbitrary: order us)
  case (Cons i offsets)
  then obtain u us' where *: "numbered_units url start_number (order + 1) offsets = Inr us'"
    "url (saturating_add64 start_number i) = Inr u"
    "us = \<lparr>du_order = order, du_url = u, du_initialization = False,
            du_number = Some (saturating_add64 start_number i), du_time = None\<rparr> # us'"
    by (auto simp: Let_def)
  have "[order..<order + length (i # offsets)] = order # [order + 1..<order + 1 + length offsets]"
    by (simp add: upt_conv_Cons del: upt_Suc)
  with Cons.IH [OF *(1)] show ?case by (simp add: *(2,3) media_units_def del: upt_Suc)
qed (simp add: media_units_def)

text \<open>The saturating sum is exact whenever the count passes the limit.\<close>

lemma segment_count_exact:
  assumes "0 < d" "d < u64_limit" "segment_count millis timescale d \<le> MAX_DASH_TRANSFER_UNITS"
  shows "segment_count millis timescale d = div_ceil (millis * timescale) (d * 1000)"
proof -
  let ?n = "millis * timescale + (d * 1000 - 1)"
  have d: "0 < d * 1000" "d * 1000 < 2 ^ 74" using assms(1,2) by (simp_all add: u64_limit_def)
  have "?n < 2 ^ 128"
  proof (rule ccontr)
    assume "\<not> ?n < 2 ^ 128"
    then have "segment_count millis timescale d = (2 ^ 128 - 1) div (d * 1000)"
      by (simp add: segment_count_def Let_def min_def)
    moreover have "(2 ^ 128 - 1) div 2 ^ 74 \<le> ((2 ^ 128 - 1) div (d * 1000) :: nat)"
      using d by (intro div_le_mono2) auto
    ultimately show False using assms(3) by (simp add: MAX_DASH_TRANSFER_UNITS_def)
  qed
  then have "segment_count millis timescale d = ?n div (d * 1000)"
    by (simp add: segment_count_def Let_def min_def)
  then show ?thesis using div_ceil_eq [OF d(1)] by simp
qed

lemma initialization_units_spec:
  "initialization_units h base r i = Inr init \<Longrightarrow>
     media_units init = [] \<and> length init = (if i = None then 0 else 1) \<and> map du_order init = [0..<length init]"
  by (auto simp: initialization_units_def media_units_def split: option.splits)

lemma fixed_plan:
  assumes "template_units h base False (Some millis) t r = Inr us" "dt_timeline t = []" "dt_duration t = Some d"
    and "d < u64_limit"
  shows "let n = length (media_units us); scaled = millis * the_default 1 (dt_timescale t) in
    scaled \<le> n * (d * 1000) \<and> (0 < n \<longrightarrow> (n - 1) * (d * 1000) < scaled)
  \<and> map du_number (media_units us) = map (\<lambda>i. Some (saturating_add64 (the_default 1 (dt_start_number t)) i)) [0..<n]
  \<and> map du_order us = [0..<length us]"
proof -
  let ?ts = "the_default 1 (dt_timescale t)"
  let ?start = "the_default 1 (dt_start_number t)"
  obtain media init vs where media: "dt_media t = Some media"
    and init: "initialization_units h base r (dt_initialization t) = Inr init"
    and vs: "fixed_units h base False (Some millis) t ?ts media r ?start (length init) = Inr vs" and us: "us = init @ vs"
    using assms(1,2) by (auto simp: template_units_def Let_def split: if_splits)
  let ?n = "segment_count millis ?ts d"
  have d: "0 < d" and n: "?n \<le> MAX_DASH_TRANSFER_UNITS"
    and units: "numbered_units (\<lambda>number. unit_url h base r media (Some number) None) ?start (length init) [0..<?n] = Inr vs"
    using vs assms(3) by (auto simp: fixed_units_def Let_def split: if_splits)
  note count = segment_count_exact [OF d assms(4) n]
  note spec = numbered_units_spec [OF units] initialization_units_spec [OF init]
  have len: "length vs = ?n" using spec(1) by (metis length_map length_upt minus_nat.diff_0)
  have media: "media_units us = vs" using spec by (simp add: us)
  have "?ts * millis \<le> ?n * (d * 1000)" using div_ceil_le_iff [of "d * 1000" "millis * ?ts" ?n] d count by (simp add: mult.commute)
  moreover have "0 < ?n \<longrightarrow> (?n - 1) * (d * 1000) < millis * ?ts"
    using less_div_ceil_iff [of "d * 1000" "?n - 1" "millis * ?ts"] d count by auto
  moreover have "map du_order us = [0..<length us]"
    using spec len upt_add_eq_append [of 0 "length init" "length vs"] by (simp add: us)
  ultimately show ?thesis using spec(1) len by (simp add: media mult.commute)
qed

text \<open>C35: A plan of segments of a fixed duration covers its period and nothing beyond it. When a template without a
  timeline is planned, the media segments, laid end to end, reach the end of the period and would not without the
  last one; they are numbered one after the other from \<open>startNumber\<close>, and the units, the initialization before
  them, have the orders 0, 1, 2 and so on.\<close>
theorem dash_fixed_plan_covers:
  assumes "build_dash_representation_plan h dur m url pi ai ri = Inr plan"
    and "get_opt (dm_periods m) pi = Some p" "get_opt (dp_adaptations p) ai = Some a"
    and "get_opt (da_representations a) ri = Some r" "effective_segment_template m p a r = Some t"
    and "dt_timeline t = []" "dt_duration t = Some d" "d < u64_limit"
  shows "\<exists>millis. dash_period_duration_millis dur m pi = Some millis
    \<and> (let us = dpl_units plan; n = length (media_units us); scaled = millis * the_default 1 (dt_timescale t) in
         scaled \<le> n * (d * 1000) \<and> (0 < n \<longrightarrow> (n - 1) * (d * 1000) < scaled)
       \<and> map du_number (media_units us) = map (\<lambda>i. Some (saturating_add64 (the_default 1 (dt_start_number t)) i)) [0..<n]
       \<and> map du_order us = [0..<length us])"
proof -
  obtain base where units: "template_units h base (dm_is_dynamic m) (dash_period_duration_millis dur m pi) t r = Inr (dpl_units plan)"
    using assms(1-5) by (auto simp: build_dash_representation_plan_def)
  then have static: "dm_is_dynamic m = False" and "dash_period_duration_millis dur m pi \<noteq> None"
    using assms(6,7) by (auto simp: template_units_def fixed_units_def Let_def split: if_splits)
  then obtain millis where millis: "dash_period_duration_millis dur m pi = Some millis" by blast
  show ?thesis
    using fixed_plan [OF units [unfolded static millis] assms(6,7,8)] millis by (simp add: Let_def)
qed

subsection \<open>Timelines\<close>

text \<open>
  The meaning of a timeline without open repetitions: the segments one by one, each with its explicit start if it has
  one, and the times at which they start.
\<close>

definition expanded :: "dash_timeline_entry list \<Rightarrow> (nat option \<times> nat) list" where
  "expanded es = concat (map (\<lambda>e. (te_start_time e, te_duration e) # replicate (nat (te_repeat e)) (None, te_duration e)) es)"

fun schedule :: "nat \<Rightarrow> (nat option \<times> nat) list \<Rightarrow> nat list" where
  "schedule time [] = []"
| "schedule time ((start, d) # xs) = (let t = the_default time start in t # schedule (saturating_add64 t d) xs)"

definition schedule_end :: "nat \<Rightarrow> (nat option \<times> nat) list \<Rightarrow> nat" where
  "schedule_end time xs = fold (\<lambda>(start, d) t. saturating_add64 (the_default t start) d) xs time"

lemma schedule_append: "schedule time (xs @ ys) = schedule time xs @ schedule (schedule_end time xs) ys"
  by (induction time xs rule: schedule.induct) (simp_all add: schedule_end_def Let_def)

lemma length_schedule [simp]: "length (schedule time xs) = length xs"
  by (induction time xs rule: schedule.induct) (simp_all add: Let_def)

lemma schedule_end_Cons [simp]:
  "schedule_end time ((start, d) # xs) = schedule_end (saturating_add64 (the_default time start) d) xs"
  by (simp add: schedule_end_def)

lemma schedule_end_Nil [simp]: "schedule_end time [] = time"
  by (simp add: schedule_end_def)

lemma schedule_end_append [simp]: "schedule_end time (xs @ ys) = schedule_end (schedule_end time xs) ys"
  by (simp add: schedule_end_def)

text \<open>Consecutive numbers, which stay at the last one of 64 bits.\<close>

lemma saturating_consecutive: "saturating_add64 (saturating_add64 a (Suc 0)) k = saturating_add64 a (Suc k)"
  by (simp add: saturating_add64_def u64_limit_def)

text \<open>What a run of units from given counters is, for a list of segments.\<close>

definition units_run :: "nat \<Rightarrow> nat \<Rightarrow> nat \<Rightarrow> (nat option \<times> nat) list \<Rightarrow> dash_unit list \<Rightarrow> bool" where
  "units_run count number time xs us \<longleftrightarrow>
     map du_time us = map Some (schedule time xs) \<and> media_units us = us \<and> map du_order us = [count..<count + length xs]
   \<and> map du_number us = map (\<lambda>k. Some (saturating_add64 number k)) [0..<length xs]"

lemma units_run_length: "units_run count number time xs us \<Longrightarrow> length us = length xs"
  unfolding units_run_def by (metis length_map length_schedule)

lemma units_run_Nil [simp]: "units_run count number time [] []"
  by (simp add: units_run_def media_units_def)

lemma units_run_append:
  assumes "units_run count number time xs us"
    and "units_run (count + length xs) (saturating_add64 number (length xs)) (schedule_end time xs) ys vs"
  shows "units_run count number time (xs @ ys) (us @ vs)"
proof -
  have "[0..<length xs + length ys] = [0..<length xs] @ map (\<lambda>k. length xs + k) [0..<length ys]"
    by (rule nth_equalityI) (auto simp: nth_append)
  moreover have "saturating_add64 (saturating_add64 number n) k = saturating_add64 number (n + k)" for n k
    by (simp add: saturating_add64_def u64_limit_def)
  ultimately show ?thesis
    using assms upt_add_eq_append [of count "count + length xs" "length ys"]
    by (simp add: units_run_def schedule_append add.assoc)
qed

lemma units_run_single:
  "number < u64_limit \<Longrightarrow> units_run count number time [(None, d)]
     [\<lparr>du_order = count, du_url = u, du_initialization = False, du_number = Some number, du_time = Some time\<rparr>]"
  by (simp add: units_run_def media_units_def saturating_add64_def the_default_def)

lemma repeat_units_run:
  "repeat_units url d n count number time = Inr (us, count', number', time') \<Longrightarrow> number < u64_limit \<Longrightarrow>
     units_run count number time (replicate n (None, d)) us \<and> count' = count + n
   \<and> number' = saturating_add64 number n \<and> time' = schedule_end time (replicate n (None, d)) \<and> number' < u64_limit"
proof (induction n arbitrary: count number time us)
  case 0
  then show ?case by (auto simp: saturating_add64_def u64_limit_def)
next
  case (Suc n)
  let ?next = "saturating_add64 number 1"
  obtain u vs where rest: "repeat_units url d n (count + 1) ?next (saturating_add64 time d) = Inr (vs, count', number', time')"
    and us: "us = [\<lparr>du_order = count, du_url = u, du_initialization = False, du_number = Some number, du_time = Some time\<rparr>] @ vs"
    using Suc.prems(1) by (auto split: if_splits)
  have next_number: "?next < u64_limit" by (simp add: saturating_add64_def u64_limit_def)
  note IH = Suc.IH [OF rest next_number]
  have "units_run count number time ([(None, d)] @ replicate n (None, d)) us"
    unfolding us using units_run_single [OF Suc.prems(2)] IH
    by (intro units_run_append) (simp_all add: the_default_def)
  then show ?case using IH saturating_consecutive [of number n] by (simp add: the_default_def)
qed

lemma timeline_units_run:
  assumes "timeline_units url pu count number time es = Inr us" "number < u64_limit" "\<forall>e \<in> set es. 0 \<le> te_repeat e"
  shows "units_run count number time (expanded es) us"
  using assms
proof (induction es arbitrary: count number time us)
  case (Cons e es)
  let ?n = "nat (te_repeat e) + 1"
  let ?d = "te_duration e"
  let ?t = "the_default time (te_start_time e)"
  obtain vs count' number' time' ws where
    units: "repeat_units url ?d ?n count number ?t = Inr (vs, count', number', time')"
    and rest: "timeline_units url pu count' number' time' es = Inr ws" and us: "us = vs @ ws"
    using Cons.prems(1,3) by (auto simp: Let_def repeat_count_def simp del: repeat_units.simps split: if_splits)
  note run = repeat_units_run [OF units Cons.prems(2)]
  let ?xs = "(te_start_time e, ?d) # replicate (nat (te_repeat e)) (None, ?d)"
  have same: "schedule time ?xs = schedule ?t (replicate ?n (None, ?d))"
    "schedule_end time ?xs = schedule_end ?t (replicate ?n (None, ?d))"
    by (simp_all add: Let_def the_default_def)
  have "units_run count' number' time' (expanded es) ws"
    using Cons.IH [OF rest] run Cons.prems(3) by simp
  moreover have "units_run count number time ?xs vs"
    using run unfolding units_run_def same by simp
  ultimately have "units_run count number time (?xs @ expanded es) (vs @ ws)"
    using run by (intro units_run_append) (simp_all only: same length_Cons length_replicate Suc_eq_plus1)
  then show ?case by (simp add: us expanded_def)
qed (simp add: expanded_def)

text \<open>
  An open repetition ends at its boundary, which is the start of the next entry or the end of the period: its last
  segment starts before the boundary and does not end before it.
\<close>

lemma open_repeat_reaches_boundary:
  assumes "repeat_count pu e es time = Inr n" "te_repeat e = - 1" "0 < te_duration e"
  shows "\<exists>boundary. template_or (case es of [] \<Rightarrow> None | x # _ \<Rightarrow> te_start_time x) pu = Some boundary
     \<and> time + n * te_duration e < boundary \<and> boundary \<le> time + (n + 1) * te_duration e"
proof -
  let ?d = "te_duration e"
  obtain boundary where b: "template_or (case es of [] \<Rightarrow> None | x # _ \<Rightarrow> te_start_time x) pu = Some boundary"
    "time < boundary" "n = (boundary - time - 1) div ?d"
    using assms(1,2) by (auto simp: repeat_count_def ok_or_def split: option.splits if_splits)
  have "n * ?d \<le> boundary - time - 1" by (simp add: b(3) div_times_less_eq_dividend)
  moreover have "boundary - time - 1 < (n + 1) * ?d"
    using assms(3) dividend_less_div_times [of ?d "boundary - time - 1"] by (simp add: b(3))
  ultimately have "time + n * ?d < boundary" "boundary \<le> time + (n + 1) * ?d" using b(2) by linarith+
  then show ?thesis using b(1) by blast
qed

text \<open>A timeline is planned whenever its segments can be named and are not too many.\<close>

lemma repeat_units_total:
  "(\<And>number time. \<exists>u. url number time = Inr u) \<Longrightarrow> count + n \<le> MAX_DASH_TRANSFER_UNITS \<Longrightarrow>
     \<exists>us number' time'. repeat_units url d n count number time = Inr (us, count + n, number', time')"
proof (induction n arbitrary: count number time)
  case (Suc n)
  obtain us number' time' where
    "repeat_units url d n (count + 1) (saturating_add64 number 1) (saturating_add64 time d) = Inr (us, count + 1 + n, number', time')"
    using Suc.IH [OF Suc.prems(1), of "count + 1" "saturating_add64 number 1" "saturating_add64 time d"] Suc.prems(2)
    by (auto simp del: One_nat_def)
  moreover obtain u where "url number time = Inr u" using Suc.prems(1) by blast
  ultimately show ?case using Suc.prems(2) by simp
qed simp

lemma timeline_units_total:
  assumes "\<And>number time. \<exists>u. url number time = Inr u" "\<forall>e \<in> set es. 0 \<le> te_repeat e \<and> 0 < te_duration e"
    and "count + length (expanded es) \<le> MAX_DASH_TRANSFER_UNITS"
  shows "\<exists>us. timeline_units url pu count number time es = Inr us"
  using assms(2,3)
proof (induction es arbitrary: count number time)
  case (Cons e es)
  let ?n = "nat (te_repeat e) + 1"
  have len: "length (expanded (e # es)) = ?n + length (expanded es)" by (simp add: expanded_def)
  obtain us number' time' where
    units: "repeat_units url (te_duration e) ?n count number (the_default time (te_start_time e)) = Inr (us, count + ?n, number', time')"
    using repeat_units_total [OF assms(1), of count ?n] Cons.prems(2) len by fastforce
  have bound: "count + ?n + length (expanded es) \<le> MAX_DASH_TRANSFER_UNITS" using Cons.prems(2) len by simp
  obtain vs where "timeline_units url pu (count + ?n) number' time' es = Inr vs"
    using Cons.IH [OF _ bound] Cons.prems(1) by fastforce
  then show ?case using units Cons.prems(1) by (simp add: repeat_count_def Let_def del: repeat_units.simps)
qed simp

lemma start_number_saturates: "the_default 1 x < u64_limit \<Longrightarrow> saturating_add64 (the_default 1 x) 0 = the_default 1 x"
  by (simp add: saturating_add64_def)

lemma timeline_plan:
  assumes "template_units h base dynamic pm t r = Inr us" "dt_timeline t \<noteq> []"
  shows "\<exists>media init vs. dt_media t = Some media
    \<and> initialization_units h base r (dt_initialization t) = Inr init
    \<and> append_timeline_units h base pm t media r (the_default 1 (dt_start_number t)) (length init) = Inr vs
    \<and> us = init @ vs"
  using assms by (auto simp: template_units_def Let_def split: if_splits)

text \<open>C34: A timeline is planned as it is written. When the repetitions of a timeline are all explicit, the media
  segments of the plan are the segments that the timeline lists: an entry with \<open>r\<close> repetitions stands for \<open>r + 1\<close>
  segments, each starts where the one before it ends unless its entry gives its start, their numbers count from
  \<open>startNumber\<close>, and the orders of the units, the initialization among them, are 0, 1, 2 and so on.\<close>
theorem dash_timeline_schedule:
  assumes "build_dash_representation_plan h dur m url pi ai ri = Inr plan"
    and "get_opt (dm_periods m) pi = Some p" "get_opt (dp_adaptations p) ai = Some a"
    and "get_opt (da_representations a) ri = Some r" "effective_segment_template m p a r = Some t"
    and "dt_timeline t \<noteq> []" "\<forall>e \<in> set (dt_timeline t). 0 \<le> te_repeat e" "the_default 1 (dt_start_number t) < u64_limit"
  shows "let us = dpl_units plan; xs = expanded (dt_timeline t) in
      map du_time (media_units us) = map Some (schedule 0 xs)
    \<and> map du_number (media_units us) = map (\<lambda>k. Some (saturating_add64 (the_default 1 (dt_start_number t)) k)) [0..<length xs]
    \<and> map du_order us = [0..<length us]"
proof -
  obtain base where "template_units h base (dm_is_dynamic m) (dash_period_duration_millis dur m pi) t r = Inr (dpl_units plan)"
    using assms(1-5) by (auto simp: build_dash_representation_plan_def)
  from timeline_plan [OF this assms(6)] obtain media init vs where
    init: "initialization_units h base r (dt_initialization t) = Inr init" and us: "dpl_units plan = init @ vs"
    and vs: "append_timeline_units h base (dash_period_duration_millis dur m pi) t media r
               (the_default 1 (dt_start_number t)) (length init) = Inr vs" by blast
  have run: "units_run (length init) (the_default 1 (dt_start_number t)) 0 (expanded (dt_timeline t)) vs"
    using vs assms(7,8) by (intro timeline_units_run) (auto simp: append_timeline_units_def)
  note spec = initialization_units_spec [OF init]
  have media: "media_units (dpl_units plan) = vs" using run spec by (simp add: us units_run_def)
  have orders: "map du_order vs = [length init..<length init + length vs]" "map du_order init = [0..<length init]"
    using run spec units_run_length [OF run] by (simp_all add: units_run_def)
  have "map du_order (dpl_units plan) = [0..<length (dpl_units plan)]"
    by (simp only: us map_append orders length_append upt_add_eq_append [OF le0])
  moreover have "map du_time vs = map Some (schedule 0 (expanded (dt_timeline t)))"
    "map du_number vs = map (\<lambda>k. Some (saturating_add64 (the_default 1 (dt_start_number t)) k)) [0..<length (expanded (dt_timeline t))]"
    using run by (simp_all add: units_run_def)
  ultimately show ?thesis by (simp only: media Let_def)
qed

subsection \<open>Following a live presentation\<close>

text \<open>The refreshes of a list of snapshots, each from the cursor that the one before left.\<close>

fun dash_follow ::
  "('u, 'f) hls_host \<Rightarrow> duration_reader \<Rightarrow> str \<Rightarrow> nat \<Rightarrow> nat \<Rightarrow> nat \<Rightarrow> dash_cursor \<Rightarrow> dash_manifest list \<Rightarrow>
   (DashPlanError, dash_unit list) result" where
  "dash_follow h dur url pi ai ri c [] = Inr []"
| "dash_follow h dur url pi ai ri c (m # ms) =
     rbind (build_dash_live_refresh h dur m url pi ai ri c) (\<lambda>f.
     rbind (dash_follow h dur url pi ai ri (df_next_cursor f) ms) (\<lambda>us.
     Inr ((case df_plan f of None \<Rightarrow> [] | Some p \<Rightarrow> dpl_units p) @ us)))"

lemma live_refresh_units:
  assumes "build_dash_live_refresh h dur m url pi ai ri c = Inr f"
    and "build_dash_representation_plan h dur m url pi ai ri = Inr plan"
  shows "(case df_plan f of None \<Rightarrow> [] | Some p \<Rightarrow> dpl_units p) = filter (dash_unseen c) (dpl_units plan)
       \<and> df_next_cursor f = dash_next_cursor (dpl_units plan) c"
  using assms by (auto simp: build_dash_live_refresh_def Let_def split: if_splits)

text \<open>Refreshes fail only with the plan of their snapshot.\<close>

lemma follow_total:
  "\<forall>m \<in> set ms. dm_is_dynamic m \<and> is_ok (build_dash_representation_plan h dur m url pi ai ri) \<Longrightarrow>
     \<exists>us. dash_follow h dur url pi ai ri c ms = Inr us"
proof (induction ms arbitrary: c)
  case (Cons m ms)
  obtain plan where "build_dash_representation_plan h dur m url pi ai ri = Inr plan"
    using Cons.prems by (cases "build_dash_representation_plan h dur m url pi ai ri") auto
  then obtain f where "build_dash_live_refresh h dur m url pi ai ri c = Inr f"
    using Cons.prems by (simp add: build_dash_live_refresh_def Let_def)
  moreover obtain us where "dash_follow h dur url pi ai ri (df_next_cursor f) ms = Inr us"
    using Cons.IH [of "df_next_cursor f"] Cons.prems by auto
  ultimately show ?case by simp
qed simp

text \<open>What a unit says of its segment, and a window of a broadcast: its segments from one index to another.\<close>

type_synonym dash_segment = "nat \<times> nat \<times> str"

definition segment_of :: "dash_unit \<Rightarrow> nat option \<times> nat option \<times> str" where
  "segment_of u = (du_number u, du_time u, du_url u)"

fun as_unit :: "dash_segment \<Rightarrow> nat option \<times> nat option \<times> str" where
  "as_unit (number, time, url) = (Some number, Some time, url)"

abbreviation segment_time :: "dash_segment \<Rightarrow> nat" where
  "segment_time x \<equiv> fst (snd x)"

definition window :: "dash_segment list \<Rightarrow> nat \<Rightarrow> nat \<Rightarrow> (nat option \<times> nat option \<times> str) list" where
  "window B a b = map (\<lambda>i. as_unit (B ! i)) [a..<b]"

definition shows_window ::
  "('u, 'f) hls_host \<Rightarrow> duration_reader \<Rightarrow> str \<Rightarrow> nat \<Rightarrow> nat \<Rightarrow> nat \<Rightarrow> dash_segment list \<Rightarrow> dash_manifest \<Rightarrow> nat \<times> nat \<Rightarrow> bool" where
  "shows_window h dur url pi ai ri B m w =
     (case build_dash_representation_plan h dur m url pi ai ri of
        Inl _ \<Rightarrow> False
      | Inr plan \<Rightarrow> map segment_of (media_units (dpl_units plan)) = window B (fst w) (snd w))"

text \<open>Windows that leave no gap after the first \<open>e\<close> segments; a window may be older than the one before it.\<close>

fun gapless :: "nat \<Rightarrow> nat \<Rightarrow> (nat \<times> nat) list \<Rightarrow> bool" where
  "gapless n e [] = (e \<le> n)"
| "gapless n e ((a, b) # ws) = (a \<le> e \<and> a < b \<and> b \<le> n \<and> gapless n (max e b) ws)"

definition reached :: "nat \<Rightarrow> (nat \<times> nat) list \<Rightarrow> nat" where
  "reached e ws = fold (\<lambda>w e. max e (snd w)) ws e"

lemma reached_simps [simp]:
  "reached e [] = e" "reached e ((a, b) # ws) = reached (max e b) ws"
  by (simp_all add: reached_def)

lemma reached_ge: "e \<le> reached e ws"
proof (induction ws arbitrary: e)
  case (Cons w ws)
  then show ?case by (cases w) (metis max.cobounded1 order_trans reached_simps(2))
qed simp

lemma gapless_le: "gapless n e ws \<Longrightarrow> e \<le> n"
  by (induction n e ws rule: gapless.induct) auto

text \<open>The cursor and the units that are new, in terms of the times alone.\<close>

lemma dash_cursor_time:
  "dc_last_time (fold (advance_cursor any) us c) = fold (\<lambda>u. max_opt (du_time u)) us (dc_last_time c)"
  by (induction us arbitrary: c) (simp_all add: advance_cursor_def)

lemma dash_cursor_initialized:
  "dc_initialized (fold (advance_cursor any) us c) = (dc_initialized c \<or> (any \<and> us \<noteq> []))"
  by (induction us arbitrary: c) (auto simp: advance_cursor_def)

lemma fold_times:
  "map segment_of us = window B a b \<Longrightarrow>
     fold (\<lambda>u. max_opt (du_time u)) us x = fold (\<lambda>i. max_opt (Some (segment_time (B ! i)))) [a..<b] x"
proof -
  assume seg: "map segment_of us = window B a b"
  have as_time: "fst (snd (as_unit s)) = Some (segment_time s)" for s by (cases s) simp
  have "map du_time us = map (\<lambda>x. fst (snd x)) (map segment_of us)" by (simp add: segment_of_def)
  also have "\<dots> = map (\<lambda>i. Some (segment_time (B ! i))) [a..<b]" by (simp add: seg window_def as_time)
  finally have "fold max_opt (map du_time us) x = fold max_opt (map (\<lambda>i. Some (segment_time (B ! i))) [a..<b]) x" by simp
  then show ?thesis by (simp add: fold_map comp_def)
qed

lemma later_segment:
  "sorted_wrt (<) (map segment_time B) \<Longrightarrow> i < j \<Longrightarrow> j < length B \<Longrightarrow> segment_time (B ! i) < segment_time (B ! j)"
  by (auto simp: sorted_wrt_iff_nth_less)

lemma fold_window:
  assumes "sorted_wrt (<) (map segment_time B)" "0 < e" "a \<le> e" "e \<le> length B" "b \<le> length B"
  shows "fold (\<lambda>i. max_opt (Some (segment_time (B ! i)))) [a..<b] (Some (segment_time (B ! (e - 1))))
       = Some (segment_time (B ! (max e b - 1)))"
  using assms(5)
proof (induction b)
  case (Suc b)
  show ?case
  proof (cases "a \<le> b")
    case True
    let ?m = "max e b - 1"
    have "segment_time (B ! (max e (Suc b) - 1)) = max (segment_time (B ! ?m)) (segment_time (B ! b))"
    proof (cases "e \<le> b")
      case True
      have "segment_time (B ! (b - 1)) < segment_time (B ! b)"
        using assms(2) True Suc.prems by (intro later_segment [OF assms(1)]) auto
      then show ?thesis using True by (simp add: max_def)
    next
      case False
      show ?thesis
      proof (cases "b = e - 1")
        case True
        then show ?thesis using False by (simp add: max_def)
      next
        case ne: False
        then have "segment_time (B ! b) < segment_time (B ! (e - 1))" using False assms(4) by (intro later_segment [OF assms(1)]) auto
        moreover have "Suc b < e" using False ne by linarith
        ultimately show ?thesis by (simp add: max_def)
      qed
    qed
    with Suc True show ?thesis by (simp add: max_opt_def)
  next
    case False
    then have "max e (Suc b) = e" using assms(3) by simp
    then show ?thesis using False by simp
  qed
qed simp

lemma fold_first_window:
  assumes "sorted_wrt (<) (map segment_time B)" "a < b" "b \<le> length B"
  shows "fold (\<lambda>i. max_opt (Some (segment_time (B ! i)))) [a..<b] None = Some (segment_time (B ! (b - 1)))"
proof -
  have "[a..<b] = a # [Suc a..<b]" using assms(2) by (simp add: upt_conv_Cons)
  moreover have "max (Suc a) b = b" using assms(2) by simp
  ultimately show ?thesis
    using fold_window [OF assms(1), of "Suc a" "Suc a" b] assms(2,3) by (simp add: max_opt_def)
qed

lemma new_segments:
  assumes "sorted_wrt (<) (map segment_time B)" "0 < e" "a \<le> e" "e \<le> length B" "b \<le> length B"
    and "map segment_of us = window B a b" "media_units us = us" "dc_last_time c = Some (segment_time (B ! (e - 1)))"
  shows "map segment_of (filter (dash_unseen c) us) = window B e (max e b)"
proof -
  let ?T = "segment_time (B ! (e - 1))"
  let ?new = "\<lambda>x. case x of (number, Some t, url) \<Rightarrow> ?T < t | _ \<Rightarrow> False"
  have timed: "\<exists>t. du_time u = Some t" if "u \<in> set us" for u
  proof -
    have "segment_of u \<in> set (window B a b)" using that assms(6) by (metis image_eqI list.set_map)
    then show ?thesis by (auto simp: window_def segment_of_def) (metis as_unit.elims fst_conv snd_conv)
  qed
  have plain: "\<not> du_initialization u" if "u \<in> set us" for u
    using assms(7) that unfolding media_units_def filter_id_conv by blast
  have "filter (dash_unseen c) us = filter (?new \<circ> segment_of) us"
    using timed plain assms(8) by (intro filter_cong) (fastforce simp: dash_unseen_def segment_of_def)+
  then have "map segment_of (filter (dash_unseen c) us) = filter ?new (window B a b)"
    by (simp only: filter_map [symmetric] assms(6))
  also have "\<dots> = map (\<lambda>i. as_unit (B ! i)) (filter (\<lambda>i. ?T < segment_time (B ! i)) [a..<b])"
  proof -
    have "?new (as_unit s) = (?T < segment_time s)" for s by (cases s) simp
    then show ?thesis by (simp add: window_def filter_map comp_def)
  qed
  also have "filter (\<lambda>i. ?T < segment_time (B ! i)) [a..<b] = filter (\<lambda>i. e \<le> i) [a..<b]"
  proof (rule filter_cong [OF refl])
    fix i assume "i \<in> set [a..<b]"
    then have i: "i < length B" using assms(5) by simp
    show "(?T < segment_time (B ! i)) = (e \<le> i)"
    proof (cases "e \<le> i")
      case True
      then have "?T < segment_time (B ! i)" using assms(2) i by (intro later_segment [OF assms(1)]) auto
      then show ?thesis using True by simp
    next
      case False
      then have "i = e - 1 \<or> i < e - 1" by linarith
      then have "\<not> ?T < segment_time (B ! i)"
        using later_segment [OF assms(1), of i "e - 1"] assms(2,4) by fastforce
      then show ?thesis using False by simp
    qed
  qed
  also have "filter (\<lambda>i. e \<le> i) [a..<b] = [e..<max e b]"
  proof (cases "e \<le> b")
    case True
    then have "[a..<b] = [a..<e] @ [e..<b]" using assms(3) upt_add_eq_append [of a e "b - e"] by simp
    then show ?thesis using True by (simp add: max_def)
  next
    case False
    then show ?thesis by (auto simp: filter_empty_conv)
  qed
  finally show ?thesis by (simp add: window_def)
qed

text \<open>One more snapshot, and all of them.\<close>

lemma shows_windowE:
  assumes "shows_window h dur url pi ai ri B m (a, b)"
  obtains plan where "build_dash_representation_plan h dur m url pi ai ri = Inr plan"
    "map segment_of (media_units (dpl_units plan)) = window B a b"
  using assms by (auto simp: shows_window_def split: sum.splits)

lemma follow_step:
  assumes "build_dash_live_refresh h dur m url pi ai ri c = Inr f"
    and "build_dash_representation_plan h dur m url pi ai ri = Inr plan"
    and "map segment_of (media_units (dpl_units plan)) = window B a b" "a < b"
  shows "dc_initialized (df_next_cursor f)
    \<and> dc_last_time (df_next_cursor f) = fold (\<lambda>i. max_opt (Some (segment_time (B ! i)))) [a..<b] (dc_last_time c)
    \<and> media_units (case df_plan f of None \<Rightarrow> [] | Some p \<Rightarrow> dpl_units p) = filter (dash_unseen c) (media_units (dpl_units plan))
    \<and> (dc_initialized c \<longrightarrow> filter du_initialization (case df_plan f of None \<Rightarrow> [] | Some p \<Rightarrow> dpl_units p) = [])"
proof -
  note live = live_refresh_units [OF assms(1,2)]
  have some: "media_units (dpl_units plan) \<noteq> []" "dpl_units plan \<noteq> []"
    using assms(3,4) by (auto simp: window_def media_units_def)
  then show ?thesis
    using live fold_times [OF assms(3)]
    by (auto simp: dash_next_cursor_def media_units_def [symmetric] dash_cursor_time dash_cursor_initialized)
      (auto simp: media_units_def filter_empty_conv dash_unseen_def conj_commute)
qed

lemma follow_on:
  assumes "sorted_wrt (<) (map segment_time B)"
  shows "dash_follow h dur url pi ai ri c ms = Inr us \<Longrightarrow>
      list_all2 (shows_window h dur url pi ai ri B) ms ws \<Longrightarrow> gapless (length B) e ws \<Longrightarrow> 0 < e \<Longrightarrow>
      dc_initialized c \<Longrightarrow> dc_last_time c = Some (segment_time (B ! (e - 1))) \<Longrightarrow>
      map segment_of (media_units us) = window B e (reached e ws) \<and> filter du_initialization us = []"
proof (induction ms arbitrary: c us ws e)
  case Nil
  then show ?case by (auto simp: media_units_def window_def)
next
  case (Cons m ms)
  obtain a b ws' where ws: "ws = (a, b) # ws'" and sees: "shows_window h dur url pi ai ri B m (a, b)"
    and more_windows: "list_all2 (shows_window h dur url pi ai ri B) ms ws'"
    using Cons.prems(2) by (auto simp: list_all2_Cons1)
  have gap: "a \<le> e" "a < b" "b \<le> length B" "gapless (length B) (max e b) ws'" using Cons.prems(3) ws by auto
  have "e \<le> length B" using gapless_le [OF gap(4)] by simp
  obtain f vs where f: "build_dash_live_refresh h dur m url pi ai ri c = Inr f"
    and vs: "dash_follow h dur url pi ai ri (df_next_cursor f) ms = Inr vs"
    and us: "us = (case df_plan f of None \<Rightarrow> [] | Some p \<Rightarrow> dpl_units p) @ vs"
    using Cons.prems(1) by auto
  obtain plan where plan: "build_dash_representation_plan h dur m url pi ai ri = Inr plan"
    "map segment_of (media_units (dpl_units plan)) = window B a b"
    using sees by (rule shows_windowE)
  note step = follow_step [OF f plan gap(2)]
  have idem: "media_units (media_units (dpl_units plan)) = media_units (dpl_units plan)" by (simp add: media_units_def)
  have new: "map segment_of (filter (dash_unseen c) (media_units (dpl_units plan))) = window B e (max e b)"
    by (rule new_segments [OF assms Cons.prems(4) gap(1) \<open>e \<le> length B\<close> gap(3) plan(2) idem Cons.prems(6)])
  have "dc_last_time (df_next_cursor f) = Some (segment_time (B ! (max e b - 1)))"
    using step fold_window [OF assms Cons.prems(4) gap(1) \<open>e \<le> length B\<close> gap(3)] Cons.prems(6) by simp
  then have rest: "map segment_of (media_units vs) = window B (max e b) (reached (max e b) ws') \<and> filter du_initialization vs = []"
    using Cons.IH [OF vs more_windows gap(4)] step Cons.prems(4) by simp
  have "window B e (max e b) @ window B (max e b) (reached (max e b) ws') = window B e (reached (max e b) ws')"
    using upt_add_eq_append [of e "max e b" "reached (max e b) ws' - max e b"] reached_ge [of "max e b" ws']
    by (simp add: window_def map_append [symmetric] del: map_append)
  then show ?case using rest new step Cons.prems(5) by (simp add: us ws)
qed

lemma first_units_unseen:
  assumes "map segment_of (media_units us) = window B s e"
  shows "filter (dash_unseen dash_cursor_start) us = us"
proof -
  have "dash_unseen dash_cursor_start u" if "u \<in> set us" for u
  proof (cases "du_initialization u")
    case False
    then have "segment_of u \<in> set (window B s e)"
      using that unfolding assms [symmetric] by (simp add: media_units_def)
    then have "\<exists>t. du_time u = Some t" by (auto simp: window_def segment_of_def) (metis as_unit.elims fst_conv snd_conv)
    then show ?thesis using False by (auto simp: dash_unseen_def dash_cursor_start_def)
  qed (simp add: dash_unseen_def dash_cursor_start_def)
  then show ?thesis by (simp add: filter_id_conv)
qed

text \<open>C9: Following a live presentation gives every segment once. Let the snapshots of a dynamic manifest show windows
  of one broadcast whose times increase, each window reaching back to what was seen before or being an older one.
  Then the units of all refreshes are, with their numbers, times and URLs, the segments from the first one shown to
  the last one reached, in order and without repetition, and the initialization units among them are those of the
  first snapshot only.\<close>
theorem dash_live_exactly_once:
  assumes "sorted_wrt (<) (map segment_time B)"
    and "dash_follow h dur url pi ai ri dash_cursor_start (m # ms) = Inr us"
    and "list_all2 (shows_window h dur url pi ai ri B) (m # ms) ((s, e) # ws)"
    and "s < e" "gapless (length B) e ws"
  shows "map segment_of (media_units us) = window B s (reached e ws)
    \<and> (\<forall>plan. build_dash_representation_plan h dur m url pi ai ri = Inr plan \<longrightarrow>
         filter du_initialization us = filter du_initialization (dpl_units plan))"
proof -
  obtain f vs where f: "build_dash_live_refresh h dur m url pi ai ri dash_cursor_start = Inr f"
    and vs: "dash_follow h dur url pi ai ri (df_next_cursor f) ms = Inr vs"
    and us: "us = (case df_plan f of None \<Rightarrow> [] | Some p \<Rightarrow> dpl_units p) @ vs"
    using assms(2) by auto
  obtain plan where plan: "build_dash_representation_plan h dur m url pi ai ri = Inr plan"
    "map segment_of (media_units (dpl_units plan)) = window B s e"
    using assms(3) by (auto elim: shows_windowE)
  note step = follow_step [OF f plan assms(4)]
  have "e \<le> length B" by (rule gapless_le [OF assms(5)])
  have units: "filter (dash_unseen dash_cursor_start) (dpl_units plan) = dpl_units plan"
    using first_units_unseen [OF plan(2)] .
  have "dc_last_time (df_next_cursor f) = Some (segment_time (B ! (e - 1)))"
    using step fold_first_window [OF assms(1,4) \<open>e \<le> length B\<close>] by (simp add: dash_cursor_start_def)
  then have rest: "map segment_of (media_units vs) = window B e (reached e ws)" "filter du_initialization vs = []"
    using follow_on [OF assms(1) vs _ assms(5)] assms(3,4) step by auto
  have "window B s e @ window B e (reached e ws) = window B s (reached e ws)"
    using upt_add_eq_append [of s e "reached e ws - e"] reached_ge [of e ws] assms(4)
    by (simp add: window_def map_append [symmetric] del: map_append)
  then show ?thesis
    using rest plan live_refresh_units [OF f plan(1)] by (auto simp: us units)
qed

end
