(* ===== verification/Dash_Samples.thy ===== *)
theory Dash_Samples
  imports Dash_Plan
begin

text \<open>
  A small presentation, planned with segments of a fixed duration and with a timeline: the hypotheses of the
  planner's properties are met.
\<close>

definition sample_dash_host :: "(str, unit) hls_host" where
  "sample_dash_host = \<lparr>parse_url = Some, url_join = (\<lambda>_. Some), url_string = id, parse_f64 = (\<lambda>_. None), round_milli = (\<lambda>_. 0),
     overflow_checks = True\<rparr>"

definition sample_template :: "dash_timeline_entry list \<Rightarrow> dash_template" where
  "sample_template timeline = \<lparr>dt_timescale = Some 1, dt_duration = Some 4, dt_start_number = None, dt_media = Some (lit ''$Number$''),
     dt_initialization = Some (lit ''i''), dt_timeline = timeline\<rparr>"

definition sample_timeline :: "dash_timeline_entry list" where
  "sample_timeline = [\<lparr>te_start_time = Some 8, te_duration = 4, te_repeat = 1\<rparr>, \<lparr>te_start_time = None, te_duration = 2, te_repeat = 0\<rparr>]"

definition sample_representation :: dash_representation where
  "sample_representation = \<lparr>dr_id = None, dr_bandwidth = None, dr_width = None, dr_height = None, dr_frame_rate = None,
     dr_codecs = None, dr_mime_type = None, dr_base_url = None, dr_template = None\<rparr>"

definition sample_adaptation :: dash_adaptation where
  "sample_adaptation = \<lparr>da_id = None, da_content_type = None, da_mime_type = None, da_language = None, da_codecs = None,
     da_base_url = None, da_template = None, da_representations = [sample_representation]\<rparr>"

definition sample_period :: dash_period where
  "sample_period = \<lparr>dp_id = None, dp_start = None, dp_duration = Some (lit ''PT10S''), dp_base_url = None, dp_template = None,
     dp_adaptations = [sample_adaptation]\<rparr>"

definition sample_mpd :: "bool \<Rightarrow> dash_timeline_entry list \<Rightarrow> dash_manifest" where
  "sample_mpd dynamic timeline = \<lparr>dm_is_dynamic = dynamic, dm_minimum_update_period = None, dm_media_presentation_duration = None,
     dm_base_url = None, dm_template = Some (sample_template timeline), dm_periods = [sample_period]\<rparr>"

abbreviation sample_dur :: duration_reader where
  "sample_dur \<equiv> \<lambda>_. Some 10000"

lemma sample_effective:
  "effective_segment_template (sample_mpd dynamic timeline) sample_period sample_adaptation sample_representation
     = Some (sample_template timeline)"
  by (simp add: effective_segment_template_def sample_mpd_def sample_period_def sample_adaptation_def sample_representation_def
      sample_template_def overlay_template_def template_or_def empty_template_def map_filter_simps)

lemma sample_parts:
  "get_opt (dm_periods (sample_mpd dynamic timeline)) 0 = Some sample_period"
  "get_opt (dp_adaptations sample_period) 0 = Some sample_adaptation"
  "get_opt (da_representations sample_adaptation) 0 = Some sample_representation"
  by (simp_all add: sample_mpd_def sample_period_def sample_adaptation_def get_opt_def)

lemma sample_media_url: "unit_url sample_dash_host base r (lit ''$Number$'') (Some n) t = Inr (nat_to_dec n)"
  using render_identifier [of "[]" "lit ''Number''" r "Some n" t "[]" "[]"] render_literal [of "[]" r "Some n" t "nat_to_dec n"]
  by (simp add: unit_url_def render_dash_template_def render_token_def ok_or_def sample_dash_host_def lit_simps)

lemma sample_init_url: "unit_url sample_dash_host base r (lit ''i'') n t = Inr (lit ''i'')"
  using render_literal [of "lit ''i''" r n t "[]"]
  by (simp add: unit_url_def render_dash_template_def ok_or_def sample_dash_host_def lit_simps)

lemma sample_init: "initialization_units sample_dash_host base r (Some (lit ''i'')) = Inr
    [\<lparr>du_order = 0, du_url = lit ''i'', du_initialization = True, du_number = None, du_time = None\<rparr>]"
  by (simp add: initialization_units_def sample_init_url)

lemma numbered_total:
  "(\<And>n. \<exists>u. url n = Inr u) \<Longrightarrow> \<exists>us. numbered_units url start_number order offsets = Inr us"
proof (induction offsets arbitrary: order)
  case (Cons i offsets)
  obtain us where "numbered_units url start_number (order + 1) offsets = Inr us" using Cons.IH [OF Cons.prems] by blast
  moreover obtain u where "url (saturating_add64 start_number i) = Inr u" using Cons.prems by blast
  ultimately show ?case by (simp add: Let_def)
qed simp

lemma sample_build:
  "build_dash_representation_plan sample_dash_host sample_dur (sample_mpd dynamic timeline) [] 0 0 0 =
     rbind (template_units sample_dash_host [] dynamic (Some 10000) (sample_template timeline) sample_representation)
       (\<lambda>us. Inr \<lparr>dpl_representation_id = None, dpl_track_kind = OtherTrack, dpl_bandwidth = None, dpl_units = us\<rparr>)"
proof -
  have "join_bases sample_dash_host [] (List.map_filter id [dm_base_url (sample_mpd dynamic timeline), dp_base_url sample_period,
      da_base_url sample_adaptation, dr_base_url sample_representation]) = Inr []"
    by (simp add: join_bases_def sample_mpd_def sample_period_def sample_adaptation_def sample_representation_def map_filter_simps)
  moreover have "dash_period_duration_millis sample_dur (sample_mpd dynamic timeline) 0 = Some 10000"
    by (simp add: dash_period_duration_millis_def sample_parts) (simp add: sample_period_def)
  moreover have "dash_track_kind sample_adaptation sample_representation = OtherTrack"
    by (simp add: dash_track_kind_def sample_adaptation_def sample_representation_def template_or_def the_default_def
        starts_with_def lit_simps)
  ultimately show ?thesis
    by (simp add: build_dash_representation_plan_def sample_parts sample_effective ok_or_def del: One_nat_def)
      (simp add: sample_dash_host_def sample_mpd_def sample_representation_def)
qed

lemma sample_fixed_total:
  "\<exists>us. fixed_units sample_dash_host [] False (Some 10000) (sample_template []) 1 (lit ''$Number$'') r 1 1 = Inr us"
proof -
  have count: "segment_count 10000 1 4 = 3" by (simp add: segment_count_def Let_def min_def)
  obtain us where "numbered_units (\<lambda>number. unit_url sample_dash_host [] r (lit ''$Number$'') (Some number) None) 1 1 [0..<3] = Inr us"
    using numbered_total [of "\<lambda>number. unit_url sample_dash_host [] r (lit ''$Number$'') (Some number) None"]
    by (simp only: sample_media_url) blast
  then show ?thesis
    by (simp add: fixed_units_def sample_template_def ok_or_def Let_def count MAX_DASH_TRANSFER_UNITS_def del: One_nat_def upt_Suc)
qed

lemma sample_timeline_total:
  "\<exists>us. append_timeline_units sample_dash_host [] (Some 10000) (sample_template sample_timeline) (lit ''$Number$'') r 1 1 = Inr us"
  unfolding append_timeline_units_def Let_def
  by (rule timeline_units_total)
    (simp_all add: sample_media_url sample_template_def sample_timeline_def expanded_def MAX_DASH_TRANSFER_UNITS_def)

lemma sample_units_total:
  "timeline = [] \<and> \<not> dynamic \<or> timeline = sample_timeline \<Longrightarrow>
     \<exists>us. template_units sample_dash_host [] dynamic (Some 10000) (sample_template timeline) sample_representation = Inr us"
proof -
  assume "timeline = [] \<and> \<not> dynamic \<or> timeline = sample_timeline"
  moreover have "dt_media (sample_template t) = Some (lit ''$Number$'')" "dt_timeline (sample_template t) = t"
    "dt_timescale (sample_template t) = Some 1" "dt_start_number (sample_template t) = None"
    "dt_initialization (sample_template t) = Some (lit ''i'')" for t
    by (simp_all add: sample_template_def)
  moreover have "sample_timeline \<noteq> []" by (simp add: sample_timeline_def)
  ultimately show ?thesis
    using sample_fixed_total [of sample_representation] sample_timeline_total [of sample_representation]
    by (auto simp: template_units_def ok_or_def the_default_def Let_def sample_init simp del: One_nat_def)
      (auto simp: One_nat_def [symmetric] simp del: One_nat_def)
qed

theorem dash_fixed_plan_covers_witness:
  "\<exists>plan millis. build_dash_representation_plan sample_dash_host sample_dur (sample_mpd False []) [] 0 0 0 = Inr plan
     \<and> (let n = length (media_units (dpl_units plan)) in millis \<le> n * 4000 \<and> (0 < n \<longrightarrow> (n - 1) * 4000 < millis))"
proof -
  obtain plan where plan: "build_dash_representation_plan sample_dash_host sample_dur (sample_mpd False []) [] 0 0 0 = Inr plan"
    using sample_units_total [of "[]" False] by (auto simp: sample_build)
  have t: "dt_timeline (sample_template []) = []" "dt_duration (sample_template []) = Some 4" "4 < u64_limit"
    by (simp_all add: sample_template_def u64_limit_def)
  show ?thesis
    using dash_fixed_plan_covers [OF plan sample_parts sample_effective t] plan
    by (auto simp: Let_def sample_template_def the_default_def)
qed

theorem dash_timeline_schedule_witness:
  "\<exists>plan. build_dash_representation_plan sample_dash_host sample_dur (sample_mpd True sample_timeline) [] 0 0 0 = Inr plan
     \<and> map du_time (media_units (dpl_units plan)) = [Some 8, Some 12, Some 16]
     \<and> map du_number (media_units (dpl_units plan)) = [Some 1, Some 2, Some 3]"
proof -
  obtain plan where plan: "build_dash_representation_plan sample_dash_host sample_dur (sample_mpd True sample_timeline) [] 0 0 0 = Inr plan"
    using sample_units_total [of sample_timeline True] by (auto simp: sample_build)
  have t: "dt_timeline (sample_template sample_timeline) \<noteq> []"
    "\<forall>e \<in> set (dt_timeline (sample_template sample_timeline)). 0 \<le> te_repeat e"
    "the_default 1 (dt_start_number (sample_template sample_timeline)) < u64_limit"
    by (simp_all add: sample_template_def sample_timeline_def u64_limit_def the_default_def)
  have "expanded (dt_timeline (sample_template sample_timeline)) = [(Some 8, 4), (None, 4), (None, 2)]"
    by (simp add: sample_template_def sample_timeline_def expanded_def)
  with dash_timeline_schedule [OF plan sample_parts sample_effective t] plan show ?thesis
    by (simp add: Let_def the_default_def saturating_add64_def u64_limit_def upt_rec sample_template_def)
qed

subsection \<open>A live presentation\<close>

text \<open>Four segments of which two snapshots show the first three and the last three.\<close>

definition live_mpd :: "nat \<Rightarrow> nat \<Rightarrow> dash_manifest" where
  "live_mpd start time = (sample_mpd True [\<lparr>te_start_time = Some time, te_duration = 4, te_repeat = 2\<rparr>])
     \<lparr>dm_template := Some ((sample_template [\<lparr>te_start_time = Some time, te_duration = 4, te_repeat = 2\<rparr>])\<lparr>dt_start_number := Some start\<rparr>)\<rparr>"

definition live_cast :: "dash_segment list" where
  "live_cast = [(1, 0, lit ''1''), (2, 4, lit ''2''), (3, 8, lit ''3''), (4, 12, lit ''4'')]"

definition live_unit :: "nat \<Rightarrow> nat \<Rightarrow> nat \<Rightarrow> dash_unit" where
  "live_unit order number time = \<lparr>du_order = order, du_url = nat_to_dec number, du_initialization = False,
     du_number = Some number, du_time = Some time\<rparr>"

lemma live_dynamic: "dm_is_dynamic (live_mpd start time)"
  by (simp add: live_mpd_def sample_mpd_def)

lemma live_plan:
  assumes "start + 3 < u64_limit" "time + 12 < u64_limit"
  shows "\<exists>plan. build_dash_representation_plan sample_dash_host sample_dur (live_mpd start time) [] 0 0 0 = Inr plan
    \<and> dpl_units plan = \<lparr>du_order = 0, du_url = lit ''i'', du_initialization = True, du_number = None, du_time = None\<rparr>
        # map (\<lambda>k. live_unit (k + 1) (start + k) (time + 4 * k)) [0..<3]"
proof -
  let ?timeline = "[\<lparr>te_start_time = Some time, te_duration = 4, te_repeat = 2\<rparr>]"
  let ?t = "(sample_template ?timeline)\<lparr>dt_start_number := Some start\<rparr>"
  have parts: "get_opt (dm_periods (live_mpd start time)) 0 = Some sample_period"
    by (simp add: live_mpd_def sample_mpd_def get_opt_def)
  have effective: "effective_segment_template (live_mpd start time) sample_period sample_adaptation sample_representation = Some ?t"
    by (simp add: live_mpd_def effective_segment_template_def sample_mpd_def sample_period_def sample_adaptation_def
        sample_representation_def sample_template_def overlay_template_def template_or_def empty_template_def map_filter_simps)
  have bases: "join_bases sample_dash_host [] (List.map_filter id [dm_base_url (live_mpd start time), dp_base_url sample_period,
      da_base_url sample_adaptation, dr_base_url sample_representation]) = Inr []"
    by (simp add: live_mpd_def join_bases_def sample_mpd_def sample_period_def sample_adaptation_def sample_representation_def
        map_filter_simps)
  have sums: "saturating_add64 n k = n + k" if "n + k < u64_limit" for n k
    using that by (simp add: saturating_add64_def)
  have small: "start + 1 < u64_limit" "start + 1 + 1 < u64_limit" "start + 1 + 1 + 1 < u64_limit"
    "time + 4 < u64_limit" "time + 4 + 4 < u64_limit" "time + 4 + 4 + 4 < u64_limit"
    using assms by simp_all
  let ?units = "[live_unit 1 start time, live_unit 2 (start + 1) (time + 4), live_unit 3 (start + 2) (time + 8)]"
  let ?url = "\<lambda>number time. unit_url sample_dash_host [] sample_representation (lit ''$Number$'') (Some number) (Some time)"
  have step: "\<exists>x. repeat_units ?url 4 (Suc n) count number now = Inr (live_unit count number now # us, x)"
    if "\<exists>x. repeat_units ?url 4 n count' number' now' = Inr (us, x)" "count < 4" "number' < u64_limit" "now' < u64_limit"
      "count' = count + 1" "number' = number + 1" "now' = now + 4" for n count number now us count' number' now'
    using that sums [of number 1] sums [of now 4] by (auto simp: MAX_DASH_TRANSFER_UNITS_def sample_media_url live_unit_def)
  have end_run: "\<exists>x. repeat_units ?url 4 0 4 (start + 3) (time + 12) = Inr ([], x)" by simp
  have run: "\<exists>x. repeat_units ?url 4 (Suc (Suc (Suc 0))) 1 start time = Inr (?units, x)"
    using assms by (intro step [OF step [OF step [OF end_run]]]) simp_all
  have "append_timeline_units sample_dash_host [] pm ?t (lit ''$Number$'') sample_representation start 1 = Inr ?units" for pm
    using run by (auto simp: append_timeline_units_def sample_template_def repeat_count_def the_default_def numeral_2_eq_2 
        simp del: repeat_units.simps)
  moreover have "[0..<3] = [0, 1, 2 :: nat]" by (simp add: upt_rec)
  ultimately have "append_timeline_units sample_dash_host [] pm ?t (lit ''$Number$'') sample_representation start 1 =
      Inr (map (\<lambda>k. live_unit (k + 1) (start + k) (time + 4 * k)) [0..<3])" for pm
    by (simp add: numeral_3_eq_3 numeral_2_eq_2)
  then have "template_units sample_dash_host [] True pm ?t sample_representation =
      Inr (\<lparr>du_order = 0, du_url = lit ''i'', du_initialization = True, du_number = None, du_time = None\<rparr>
        # map (\<lambda>k. live_unit (k + 1) (start + k) (time + 4 * k)) [0..<3])" for pm
    by (simp add: template_units_def sample_template_def ok_or_def the_default_def sample_init del: upt_Suc One_nat_def)
      (simp add: One_nat_def [symmetric] del: upt_Suc One_nat_def)
  moreover note live_dynamic
  moreover have "parse_url sample_dash_host [] = Some []" by (simp add: sample_dash_host_def)
  ultimately show ?thesis
    using bases by (simp add: build_dash_representation_plan_def parts sample_parts effective ok_or_def)
qed

lemma live_shows:
  assumes "a + 4 < u64_limit" "4 * a + 12 < u64_limit" "a < 2"
  shows "shows_window sample_dash_host sample_dur [] 0 0 0 live_cast (live_mpd (a + 1) (4 * a)) (a, a + 3)"
proof -
  obtain plan where "build_dash_representation_plan sample_dash_host sample_dur (live_mpd (a + 1) (4 * a)) [] 0 0 0 = Inr plan"
    and units: "dpl_units plan = \<lparr>du_order = 0, du_url = lit ''i'', du_initialization = True, du_number = None, du_time = None\<rparr>
        # map (\<lambda>k. live_unit (k + 1) (a + 1 + k) (4 * a + 4 * k)) [0..<3]"
    using live_plan [of "a + 1" "4 * a"] assms by auto
  moreover have "nat_to_dec (Suc 0) = lit ''1''" "nat_to_dec (Suc (Suc 0)) = lit ''2''"
    "nat_to_dec (Suc (Suc (Suc 0))) = lit ''3''" "nat_to_dec (Suc (Suc (Suc (Suc 0)))) = lit ''4''"
    by (simp_all add: nat_to_dec.simps lit_simps)
  moreover have "a = 0 \<or> a = 1" using assms(3) by linarith
  ultimately show ?thesis
    by (auto simp: shows_window_def media_units_def live_unit_def segment_of_def window_def live_cast_def upt_rec)
qed

theorem dash_live_exactly_once_witness:
  "\<exists>us. dash_follow sample_dash_host sample_dur [] 0 0 0 dash_cursor_start [live_mpd 1 0, live_mpd 2 4] = Inr us
     \<and> map segment_of (media_units us) = window live_cast 0 4"
proof -
  have "is_ok (build_dash_representation_plan sample_dash_host sample_dur m [] 0 0 0)" if "m = live_mpd 1 0 \<or> m = live_mpd 2 4" for m
    using that live_plan [of 1 0] live_plan [of 2 4] by (auto simp: u64_limit_def)
  then have "\<forall>m \<in> set [live_mpd 1 0, live_mpd 2 4].
      dm_is_dynamic m \<and> is_ok (build_dash_representation_plan sample_dash_host sample_dur m [] 0 0 0)"
    by (simp add: live_dynamic)
  then obtain us where us: "dash_follow sample_dash_host sample_dur [] 0 0 0 dash_cursor_start [live_mpd 1 0, live_mpd 2 4] = Inr us"
    using follow_total by blast
  have sees: "list_all2 (shows_window sample_dash_host sample_dur [] 0 0 0 live_cast) [live_mpd 1 0, live_mpd 2 4] [(0, 3), (1, 4)]"
    using live_shows [of 0] live_shows [of 1] by (simp add: u64_limit_def numeral_2_eq_2 [symmetric])
  have "sorted_wrt (<) (map segment_time live_cast)" "gapless (length live_cast) 3 [(1, 4)]"
    by (simp_all add: live_cast_def)
  from dash_live_exactly_once [OF this(1) us sees _ this(2)]
  have "map segment_of (media_units us) = window live_cast 0 4" by (simp add: reached_def)
  with us show ?thesis by blast
qed

end
