(* ===== verification/Spec2Isabelle.thy ===== *)
theory Spec2Isabelle
  imports Scheduler Peer Magnet Tracker Dht Extension Storage_Properties Download_Faults Hls_Samples Dash_Samples
begin

text \<open>
  \<^bold>\<open>NOVA Download Manager: the BitTorrent core, the task model, the resumable download and live recording.\<close>

  NOVA is a download manager written in Rust. Its torrent support is split into a crate of
  protocol and storage logic, \<open>src/crates/nova-torrent-core\<close>, and daemon services under
  \<open>src/src-tauri/src/daemon\<close> that drive it over sockets and files. Downloads over HTTP go through
  \<open>src/crates/nova-download-core\<close>, which all hosts share, and every host describes its tasks with
  \<open>src/crates/nova-core-model\<close>. Streams are read by \<open>src/crates/nova-stream-core\<close>, staged by
  \<open>src/crates/nova-media-core\<close> and recorded by the daemon. This development models the torrent crate, all of its
  source files, the download core, the lifecycle and recovery part of the core model, HLS playlists and their
  recording, and the parts of the daemon services named below, as HOL definitions that follow the source function by
  function, and proves what the components promise to each other and to the user.

  \<^bold>\<open>Theories and the code they model\<close> (paths without a crate are relative to
  \<open>src/crates/nova-torrent-core/src\<close>):

  \<^item> \<open>Prelude\<close>, \<open>Bytes\<close>, \<open>Utf8\<close>, \<open>Net\<close>: what the source uses of the language and its standard library:
    machine integers with checked and wrapping arithmetic, \<open>Result\<close> and \<open>?\<close>, slices, big-endian bytes,
    number printing and parsing, UTF-8, addresses.
  \<^item> \<open>Bencode\<close>: the bencode reader of \<open>metainfo.rs\<close>, \<open>tracker.rs\<close>, \<open>dht.rs\<close> and \<open>extension.rs\<close>, written once
    over a dialect; canonical encodings are read back, reading is prefix-free, limits are kept (locale
    \<open>bencode_reader\<close>, interpreted for each of the four readers).
  \<^item> \<open>Bitfield\<close>: bit operations of \<open>peer.rs\<close>, \<open>scheduler.rs\<close> and \<open>resume.rs\<close> (locale with get/put laws).
  \<^item> \<open>Metainfo\<close> (\<open>metainfo.rs\<close>): \<open>TorrentMetainfo\<close> and its parser. Accepted torrents are well formed
    (\<open>metainfo_wf\<close>), pieces partition the payload, \<open>map_range\<close> cuts any range into the right file slices.
  \<^item> \<open>Selection\<close> (\<open>selection.rs\<close>): file priorities, piece priority and boundary pieces.
  \<^item> \<open>Scheduler\<close> (\<open>scheduler.rs\<close>): layout, block requests and the rarest-first scheduler; its state is the
    record \<open>piece_scheduler\<close>, whose invariant every operation keeps.
  \<^item> \<open>Peer\<close> (\<open>peer.rs\<close>, frame readers of the daemon's \<open>torrent_peer.rs\<close> and \<open>torrent_seed.rs\<close>): handshake,
    messages and frames; the decoder inverts the encoder and accepts nothing else; the peer state
    refines an abstract view of what a peer said it has.
  \<^item> \<open>Magnet\<close>, \<open>Tracker\<close>, \<open>Dht\<close>, \<open>Extension\<close> (files of the same names): formats, their exact parsers, and the
    metadata assembler as a state machine.
  \<^item> \<open>Files\<close>: the file system the storage runs on. A path is a list of names, the disk a map from paths
    to nodes; every system call consumes an event that lets it proceed, fail, be cut short after any
    number of bytes, or be the last call of a process that stops there. The locale \<open>recoverable\<close> states
    what a control-file format must promise (it is read back, and no torn beginning of it reads as
    anything else) and proves once that the replace protocol of \<open>save_checkpoint_atomic\<close> and
    \<open>save_storage_manifest_atomic\<close> survives every event list.
  \<^item> \<open>Resume\<close> (\<open>resume.rs\<close>) and \<open>Manifest\<close> (\<open>manifest.rs\<close>): the two control files, as interpretations of
    \<open>recoverable\<close>.
  \<^item> \<open>Storage\<close> (\<open>storage.rs\<close>): the operations of \<open>TorrentStorage\<close> over that file system; \<open>Storage_Safety\<close>: what
    pieces mean on disk and that every operation keeps verified pieces intact under crashes;
    \<open>Storage_Open\<close>: opened storages are well formed; \<open>Storage_Progress\<close>: on a disk that serves every call
    the operations succeed; \<open>Storage_Properties\<close>: the theorems about the storage, with a sample disk.
  \<^item> \<open>Text\<close>: splitting and matching of strings; \<open>Faults\<close>: runs over the same file system under a restricted set of
    events, so that a theorem can separate a process that stops from a system that refuses calls.
  \<^item> \<open>Core_Model\<close> (\<open>nova-core-model/src/lib.rs\<close>): task states and transitions, the range planner (with the one of
    \<open>nova-download-core\<close>), representation identities, recovery checkpoints and the decision to append. Paths
    through the lifecycle are the relation \<open>lifecycle\<close>.
  \<^item> \<open>Http\<close> (\<open>nova-download-core/src/lib.rs\<close>): request contexts, response headers, probes, bounded fetches and the two
    streaming transfers as folds over the calls that libcurl makes to the callbacks. The locale
    \<open>stream_sink\<close> states what a transfer needs of the place it writes to.
  \<^item> \<open>Download\<close>: the identity sidecar and \<open>download_http_to_path\<close>; \<open>Download_Safety\<close>: what each step leaves on disk, the
    two interpretations of \<open>stream_sink\<close> (a fresh file and an appended one), sessions and the theorems;
    \<open>Download_Samples\<close>: a faithful origin and an interrupted and resumed download; \<open>Download_Faults\<close>: a transfer that
    never reaches the server.
  \<^item> \<open>Segments\<close>: \<open>download_http_to_path_segmented\<close>, its part files, markers and manifest. \<open>Segments_Safety\<close>: which files a
    program leaves alone, and the invariant \<open>sharded\<close> that ties the parts to the two sidecars; \<open>Segments_Steps\<close> and
    \<open>Segments_Fetch\<close>: what claiming, preparing, fetching and merging do when the system refuses no call (locale
    \<open>unrefused\<close>); \<open>Segments_Sessions\<close>: sessions, their invariant \<open>in_order\<close>, and what a finished one delivers;
    \<open>Segments_Samples\<close>: sessions over two representations of a resource.
  \<^item> \<open>Hls\<close> (\<open>nova-stream-core/src/hls.rs\<close>, \<open>lib.rs\<close>): manifest detection, the playlist parser, selection of variants,
    transfer plans and live refreshes. \<open>Hls_Text\<close>: a writer of media playlists after RFC 8216, read back by the
    parser, and what the parser does at the edges.
  \<^item> \<open>Hls_Live\<close> (\<open>nova-media-core/src/hls_transfer.rs\<close>, \<open>assembly.rs\<close>, live recording in the daemon's
    \<open>native_media.rs\<close>): staging of the units of a plan, the turns of the recording loop, its checkpoint and its
    part files. \<open>Hls_Live_Safety\<close>: the invariant of the recording (\<open>good\<close>) under errors, cancellation and the death
    of the process at any disk write; \<open>Hls_Recording\<close>: recording and downloading give the same file;
    \<open>Hls_Faults\<close>: what playlists that are out of date and missing checkpoints do to a recording; \<open>Hls_Samples\<close>: sessions
    over a sample broadcast.

  \<^item> \<open>Dash\<close> (\<open>nova-stream-core/src/dash.rs\<close>): the manifest reader as a state machine over XML events, durations, template
    rendering, transfer plans and live refreshes. \<open>Dash_Plan\<close>: plans of fixed-duration segments cover the period,
    timelines are planned as written, a live presentation that is followed gives every segment once;
    \<open>Dash_Samples\<close>: a sample presentation.

  \<^bold>\<open>How state and effects correspond.\<close> Structs are records, enums datatypes with the source's
  constructors, \<open>Result\<close> a sum. A method on \<open>&mut self\<close> returns the new state also when it fails. Loops are
  recursive functions; all of them terminate (structurally or by a measure), so no fuel is used.
  Lengths and offsets are naturals with the bounds of \<open>u64\<close> and \<open>u32\<close> checked where the source checks
  them or can wrap; wire fields are words.

  \<^bold>\<open>Parameters.\<close> Code outside the repository appears as arguments: \<open>sha1\<close> (of which at most the length of the
  digest is assumed), \<open>url_parse\<close> and \<open>url_with_query\<close> (the \<open>url\<close> crate), \<open>lower\<close> (\<open>str::to_lowercase\<close>, whose
  Unicode tables are not reproduced), \<open>version\<close>, and \<open>curl\<close> (libcurl: for a request, the calls it makes to the callbacks and
  what its accessors report). The download theorems assume of \<open>curl\<close> what \<open>faithful\<close> says: a range request made
  conditional on a validator is answered with bytes of the representation that has it, and a probe that gives a
  validator gives that representation's length. They allow sessions to fail and stop in many ways, but not that the system
  refuses a call of an earlier session, because the code ignores it when the sidecar or old parts cannot be removed.

  \<^bold>\<open>What the theorems show\<close>, in the order of the claims: range mapping, crash consistency of piece writes,
  write/read round trip, exact and resumable downloads, over one stream and in segments, exact live recordings, the task lifecycle, range planning, scheduling, metadata
  assembly, framing, verified reads, atomic saves, recheck, opening and reopening; then format round trips
  and bounds; and last the error theorems, which record where the code falls short of what it means to do (path
  collisions between non-neighbours, checkpoints of transfers of unknown length, progress that a failed connection discards, parts of a
  representation that is no longer there, stale playlists and the replacement of the recording's checkpoint).
  Further shortcomings are lemmas of the theories they concern: stale parts of a recording that never had a
  checkpoint (\<open>Hls_Faults\<close>), a plus sign in bencode integers (\<open>Metainfo\<close>), two
  crash windows of storage creation (\<open>Storage_Properties\<close>), base URLs with entities (\<open>Dash_Plan\<close>), sequence numbers that overflow and offsets lost at a discontinuity
  (\<open>Hls_Text\<close>), recordings resumed after their end and repeated audio initialization maps (\<open>Hls_Samples\<close>).

  \<^bold>\<open>Not modelled.\<close> The order in which a disk makes unsynced writes durable after a power loss (the model is of a
  stopped process); the text inside I/O errors; sockets, timers, task scheduling and the HTTP interface of
  the daemon, which are calls into the asynchronous runtime; true concurrency of the segment workers and of the staging workers, which run one
  after the other here; failures of the local disk while a stream is recorded, the recording loops for DASH, and the muxing of two tracks;
  the daemon's own transfers; media extraction and muxing, the command line client
  and the front ends.
\<close>

section \<open>Properties that span components\<close>

lemma parsed_layout:
  assumes "metainfo_wf m" "piece_count m < u32_limit"
  obtains l where "layout_new (m_total_length m) (m_piece_length m) = Inr l"
    "layout_wf l" "l_total_length l = m_total_length m" "l_piece_length l = m_piece_length m"
    "l_piece_count l = piece_count m"
proof -
  have pl: "0 < m_piece_length m" "m_piece_length m \<le> MAX_PIECE_LENGTH_BYTES"
    and tt: "0 < m_total_length m" "m_total_length m + (m_piece_length m - 1) < u64_limit"
    and cnt: "piece_count m = div_ceil (m_total_length m) (m_piece_length m)"
    using assms(1) by (auto simp: metainfo_wf_def)
  have small: "m_piece_length m < u32_limit" using pl(2) by (simp add: MAX_PIECE_LENGTH_BYTES_def u32_limit_def)
  define l where "l = \<lparr>l_total_length = m_total_length m, l_piece_length = m_piece_length m,
    l_piece_count = piece_count m\<rparr>"
  have "layout_new (m_total_length m) (m_piece_length m) = Inr l"
    using tt pl small assms(2) cnt div_ceil_eq [OF pl(1), of "m_total_length m"]
    by (auto simp: layout_new_def l_def checked_add64_def Let_def)
  with layout_new_wf [OF this] that show ?thesis by (simp add: l_def)
qed

text \<open>C26: Every torrent the parser accepts can be scheduled, and parser and scheduler agree on its
  geometry: \<open>PieceLayout::new\<close> succeeds on its lengths (the piece count always fits the 32-bit piece
  index), counts the same pieces, gives each piece the size the metainfo gives it, and cuts each
  into blocks of at most 16 KiB that cover it without gap or overlap.\<close>
theorem parsed_torrent_schedulable:
  assumes "metainfo_parse sha1 url_parse lower bytes = Inr m"
  shows "\<exists>l. layout_new (m_total_length m) (m_piece_length m) = Inr l
    \<and> l_piece_count l = piece_count m
    \<and> (\<forall>i<piece_count m. \<exists>n rs. piece_size m i = Some n \<and> layout_piece_size l i = Inr n
         \<and> block_requests l i DEFAULT_BLOCK_SIZE = Inr rs \<and> blocks_tile i DEFAULT_BLOCK_SIZE 0 rs n)"
proof -
  note wf = metainfo_parse_wf [OF assms]
  have "piece_count m < u32_limit"
    using metainfo_piece_limit [OF assms] by (simp add: MAX_METAINFO_BYTES_def u32_limit_def)
  with wf obtain l where l: "layout_new (m_total_length m) (m_piece_length m) = Inr l" "layout_wf l"
    "l_total_length l = m_total_length m" "l_piece_length l = m_piece_length m" "l_piece_count l = piece_count m"
    by (rule parsed_layout)
  have "\<exists>n rs. piece_size m i = Some n \<and> layout_piece_size l i = Inr n
      \<and> block_requests l i DEFAULT_BLOCK_SIZE = Inr rs \<and> blocks_tile i DEFAULT_BLOCK_SIZE 0 rs n"
    if "i < piece_count m" for i
    using that piece_size_wf(1) [OF wf that] layout_piece_size_ok(1) [OF l(2), of i]
      block_requests_ok [OF l(2), of i DEFAULT_BLOCK_SIZE] l(3-5)
    by (simp add: DEFAULT_BLOCK_SIZE_def MAX_BLOCK_SIZE_def)
  with l(1,5) show ?thesis by blast
qed

theorem parsed_torrent_schedulable_witness:
  "\<exists>l. layout_new 8 (m_piece_length sample_meta) = Inr l \<and> l_piece_count l = 2"
proof -
  have "piece_count sample_meta = 2" "m_total_length sample_meta = 8"
    by (simp_all add: sample_meta_def piece_count_def)
  then show ?thesis using parsed_torrent_schedulable [OF sample_parse] by auto
qed

end
